(* ===== verification/Prelude.thy ===== *)
theory Prelude
  imports Main "HOL-Library.Word" "HOL-Library.Monad_Syntax"
begin

text \<open>
  The prelude of the development: the types every component of libapenetwork is modelled over,
  the memory operations, and the generic lemmas about them.

  Pointers are natural numbers, NULL is 0. Memory is a partial map from pointers to the object
  (a record) stored there; an object that was not allocated, or was freed, is not in the map. A
  computation that may touch memory returns an \<open>option\<close>: \<open>None\<close> is a memory
  fault (a null or dangling pointer was dereferenced, or freed twice) or, for a loop, that it does
  not end. Proving that a result is \<open>Some\<close> is therefore a proof of memory safety and of
  termination at once.

  Allocation hands out addresses from a counter and never reuses one, so a use after free is
  always visible as a fault. The code never checks malloc for NULL, so allocation always succeeds.
\<close>

named_theorems mem_simps \<open>evaluation of the memory operations\<close>
named_theorems seg_simps \<open>list segments under heap updates\<close>
named_theorems word_bits \<open>single bits of the flag words\<close>

type_synonym ptr = nat
type_synonym 'a heap = "ptr \<Rightarrow> 'a option"
type_synonym byte = "8 word"
type_synonym uint32 = "32 word"
type_synonym uint64 = "64 word"

abbreviation (input) NULL :: ptr where
  "NULL \<equiv> 0"

section \<open>Memory operations\<close>

definition rd :: "'a heap \<Rightarrow> ptr \<Rightarrow> 'a option" where
  "rd h p = (if p = NULL then None else h p)"

definition wr :: "'a heap \<Rightarrow> ptr \<Rightarrow> ('a \<Rightarrow> 'a) \<Rightarrow> 'a heap option" where
  "wr h p f = (case rd h p of None \<Rightarrow> None | Some v \<Rightarrow> Some (h(p := Some (f v))))"

definition dealloc :: "'a heap \<Rightarrow> ptr \<Rightarrow> 'a heap option" where
  "dealloc h p = (case rd h p of None \<Rightarrow> None | Some v \<Rightarrow> Some (h(p := None)))"

lemma rd_NULL [simp, mem_simps]: "rd h NULL = None"
  by (simp add: rd_def)

lemma rd_Some_iff: "rd h p = Some v \<longleftrightarrow> p \<noteq> NULL \<and> h p = Some v"
  by (simp add: rd_def)

lemma rd_SomeD [dest]: "rd h p = Some v \<Longrightarrow> p \<noteq> NULL"
  by (simp add: rd_Some_iff)

lemma rd_upd [simp, mem_simps]:
  "rd (h(p := x)) q = (if q = p then (if p = NULL then None else x) else rd h q)"
  by (simp add: rd_def)

lemma wr_Some [simp, mem_simps]: "rd h p = Some v \<Longrightarrow> wr h p f = Some (h(p := Some (f v)))"
  by (simp add: wr_def)

lemma wr_None [simp, mem_simps]: "rd h p = None \<Longrightarrow> wr h p f = None"
  by (simp add: wr_def)

lemma wr_eq_Some:
  "wr h p f = Some h' \<longleftrightarrow> (\<exists>v. rd h p = Some v \<and> h' = h(p := Some (f v)))"
  by (auto simp: wr_def split: option.splits)

lemma dealloc_Some [simp, mem_simps]: "rd h p = Some v \<Longrightarrow> dealloc h p = Some (h(p := None))"
  by (simp add: dealloc_def)

lemma dealloc_None [simp, mem_simps]: "rd h p = None \<Longrightarrow> dealloc h p = None"
  by (simp add: dealloc_def)

lemma dealloc_eq_Some:
  "dealloc h p = Some h' \<longleftrightarrow> (\<exists>v. rd h p = Some v \<and> h' = h(p := None))"
  by (auto simp: dealloc_def split: option.splits)

lemma dealloc_twice: "dealloc h p = Some h' \<Longrightarrow> dealloc h' p = None"
  by (auto simp: dealloc_eq_Some)

section \<open>The option monad\<close>

text \<open>
  Evaluating a loop on a concrete input must not unfold the loop inside a continuation whose
  first step is not yet evaluated; this congruence rule keeps the simplifier out of it.
\<close>

lemma bind_weak_cong: "x = y \<Longrightarrow> Option.bind x f = Option.bind y f"
  by simp

lemma bind_SomeI: "x = Some a \<Longrightarrow> f a = Some b \<Longrightarrow> Option.bind x f = Some b"
  by simp

lemma bind_Some_ex: "x = Some a \<Longrightarrow> \<exists>b. f a = Some b \<Longrightarrow> \<exists>b. Option.bind x f = Some b"
  by simp

section \<open>Conversions between C integer types\<close>

text \<open>
  Conversion to a 32-bit \<open>int\<close> keeps the low 32 bits and reads them as two's complement
  (gcc and clang); to an unsigned type it is taken modulo the width.
\<close>

definition c_int :: "int \<Rightarrow> int" where
  "c_int x = signed_take_bit 31 x"

lemma c_int_id: "- (2 ^ 31) \<le> x \<Longrightarrow> x < 2 ^ 31 \<Longrightarrow> c_int x = x"
  by (simp add: c_int_def signed_take_bit_int_eq_self)

lemma c_int_eq_sint: "c_int x = sint (word_of_int x :: 32 word)"
  by (simp add: c_int_def sint_sbintrunc')

text \<open>The macros \<open>ape_min\<close> and \<open>ape_max\<close> of \<open>ape_common.h\<close>.\<close>

definition ape_min :: "'a::linorder \<Rightarrow> 'a \<Rightarrow> 'a" where
  "ape_min val1 val2 = (if val1 > val2 then val2 else val1)"

definition ape_max :: "'a::linorder \<Rightarrow> 'a \<Rightarrow> 'a" where
  "ape_max val1 val2 = (if val1 < val2 then val2 else val1)"

lemma ape_min_eq [simp]: "ape_min a b = min a b"
  by (auto simp: ape_min_def min_def)

lemma ape_max_eq [simp]: "ape_max a b = max a b"
  by (auto simp: ape_max_def max_def)

section \<open>Lists\<close>

lemma last_append_single [simp]: "last (xs @ [x]) = x"
  by simp

lemma split_mem: "x \<in> set xs \<Longrightarrow> \<exists>ys zs. xs = ys @ x # zs"
  by (rule split_list)

lemma distinct_split_unique:
  assumes "distinct (xs @ a # ys)" and "xs @ a # ys = xs' @ a # ys'"
  shows "xs = xs' \<and> ys = ys'"
  using assms by (auto simp: append_eq_append_conv2 Cons_eq_append_conv append_eq_Cons_conv)

lemma last_notin_butlast: "distinct xs \<Longrightarrow> xs \<noteq> [] \<Longrightarrow> last xs \<notin> set (butlast xs)"
  by (cases xs rule: rev_cases) auto

lemma butlast_last_split: "xs \<noteq> [] \<Longrightarrow> xs = butlast xs @ [last xs]"
  by simp

section \<open>Bytes and strings\<close>

text \<open>\<open>tolower\<close>, \<open>toupper\<close>, \<open>strlen\<close> and \<open>strcasecmp\<close> of
  the C library, in the C locale. A string that is not terminated is a fault.\<close>

definition toupper :: "byte \<Rightarrow> byte" where
  "toupper c = (if 97 \<le> c \<and> c \<le> 122 then c - 32 else c)"

fun strlen :: "byte list \<Rightarrow> nat option" where
  "strlen [] = None"
| "strlen (c # cs) = (if c = 0 then Some 0 else map_option Suc (strlen cs))"


definition tolower :: "byte \<Rightarrow> byte" where
  "tolower c = (if 65 \<le> c \<and> c \<le> 90 then c + 32 else c)"

fun strcasecmp :: "byte list \<Rightarrow> byte list \<Rightarrow> int option" where
  "strcasecmp (a # as) (b # bs) =
     (if tolower a \<noteq> tolower b then Some (uint (tolower a) - uint (tolower b))
      else if a = 0 then Some 0
      else strcasecmp as bs)"
| "strcasecmp _ _ = None"

end
