(* ===== verification/Linked.thy ===== *)
theory Linked
  imports Prelude
begin

text \<open>
  Linked lists in memory. The pool, the hash table, the timers and the asynchronous jobs of
  libapenetwork are all intrusive lists: the link fields are members of the object's own struct.
  A list segment is described by the list of the addresses it visits (after Mehta and Nipkow),
  over any object type, given the function that reads the link field. Doubly linked lists add the
  condition on the back links. The two operations the code performs on doubly linked lists
  (unlinking a member, pushing a new one at the front) are defined once, over the fields of any
  object, and proved once in the locale \<open>dll_fields\<close>, whose laws are those of two record
  fields; each component interprets it on its own struct.
\<close>

section \<open>Segments\<close>

fun lseg :: "('a \<Rightarrow> ptr) \<Rightarrow> 'a heap \<Rightarrow> ptr \<Rightarrow> ptr list \<Rightarrow> ptr \<Rightarrow> bool" where
  "lseg nx h p [] q = (p = q)"
| "lseg nx h p (a # as) q =
     (p = a \<and> (case rd h a of None \<Rightarrow> False | Some v \<Rightarrow> lseg nx h (nx v) as q))"

abbreviation chain :: "('a \<Rightarrow> ptr) \<Rightarrow> 'a heap \<Rightarrow> ptr \<Rightarrow> ptr list \<Rightarrow> bool" where
  "chain nx h p ps \<equiv> lseg nx h p ps NULL"

lemma lseg_append:
  "lseg nx h p (as @ bs) q \<longleftrightarrow> (\<exists>r. lseg nx h p as r \<and> lseg nx h r bs q)"
  by (induction as arbitrary: p) (auto split: option.splits)

lemma lseg_snoc:
  "lseg nx h p (as @ [a]) q \<longleftrightarrow> lseg nx h p as a \<and> (\<exists>v. rd h a = Some v \<and> nx v = q)"
  by (auto simp: lseg_append split: option.splits)

lemma lseg_split:
  "lseg nx h p (as @ a # bs) q \<longleftrightarrow>
     lseg nx h p as a \<and> (\<exists>v. rd h a = Some v \<and> lseg nx h (nx v) bs q)"
  by (auto simp: lseg_append split: option.splits)

lemma lseg_at: "lseg nx h p (as @ a # bs) q \<Longrightarrow> rd h a = Some v \<Longrightarrow> lseg nx h (nx v) bs q"
  by (simp add: lseg_split)

lemma lseg_NULL_start [simp]: "lseg nx h NULL ps q \<longleftrightarrow> ps = [] \<and> q = NULL"
  by (cases ps) auto

lemma lseg_start: "lseg nx h p ps q \<Longrightarrow> p = (case ps of [] \<Rightarrow> q | a # _ \<Rightarrow> a)"
  by (cases ps) auto

lemma chain_start_notin: "chain nx h p ps \<Longrightarrow> p \<noteq> NULL \<Longrightarrow> \<exists>qs. ps = p # qs"
  by (cases ps) auto

lemma lseg_alloc: "lseg nx h p ps q \<Longrightarrow> a \<in> set ps \<Longrightarrow> \<exists>v. rd h a = Some v"
  by (induction ps arbitrary: p) (auto split: option.splits)

lemma lseg_NULL_notin: "lseg nx h p ps q \<Longrightarrow> NULL \<notin> set ps"
  by (auto dest: lseg_alloc)

text \<open>A segment only depends on the links of its members.\<close>

lemma lseg_cong:
  assumes "\<And>a. a \<in> set ps \<Longrightarrow> map_option nx (rd h a) = map_option nx (rd h' a)"
  shows "lseg nx h p ps q = lseg nx h' p ps q"
  using assms
proof (induction ps arbitrary: p)
  case (Cons a ps)
  have "map_option nx (rd h a) = map_option nx (rd h' a)"
    using Cons.prems by simp
  moreover have "lseg nx h r ps q = lseg nx h' r ps q" for r
    using Cons.IH Cons.prems by simp
  ultimately show ?case by (cases "rd h a"; cases "rd h' a") auto
qed simp

lemma lseg_upd_notin [simp, seg_simps]:
  "a \<notin> set ps \<Longrightarrow> lseg nx (h(a := x)) p ps q = lseg nx h p ps q"
  by (rule lseg_cong) auto

lemma lseg_upd_same:
  "rd h a = Some v \<Longrightarrow> nx w = nx v \<Longrightarrow> lseg nx (h(a := Some w)) p ps q = lseg nx h p ps q"
  by (rule lseg_cong) auto

lemma lseg_unique:
  "chain nx h p ps \<Longrightarrow> chain nx h p qs \<Longrightarrow> ps = qs"
proof (induction ps arbitrary: p qs)
  case Nil
  then show ?case by (cases qs) auto
next
  case (Cons a ps)
  then show ?case by (cases qs) (auto split: option.splits)
qed

lemma chain_suffix_shorter:
  "chain nx h p (as @ a # bs) \<Longrightarrow> chain nx h a (a # bs)"
  by (auto simp: lseg_append)

text \<open>A list that ends cannot visit an object twice.\<close>

lemma chain_distinct: "chain nx h p ps \<Longrightarrow> distinct ps"
proof (induction ps arbitrary: p)
  case (Cons a ps)
  then obtain v where v: "rd h a = Some v" and tl: "chain nx h (nx v) ps"
    by (auto split: option.splits)
  have "a \<notin> set ps"
  proof
    assume "a \<in> set ps"
    then obtain xs ys where "ps = xs @ a # ys" by (auto dest: split_list)
    then have "chain nx h a (a # ys)" using tl chain_suffix_shorter by blast
    then have "chain nx h (nx v) ys" using v by simp
    then have "ps = ys" using tl lseg_unique by blast
    with \<open>ps = xs @ a # ys\<close> show False by simp
  qed
  with Cons.IH tl show ?case by auto
qed simp

lemma lseg_fresh_upd:
  "lseg nx h p ps q \<Longrightarrow> rd h a = None \<Longrightarrow> lseg nx (h(a := x)) p ps q"
  by (metis lseg_alloc lseg_upd_notin option.distinct(1))

lemma lseg_set_link:
  assumes "lseg nx h p ps a" and "rd h a = Some v" and "a \<notin> set ps" and "nx w = q"
  shows "lseg nx (h(a := Some w)) p (ps @ [a]) q"
  using assms by (auto simp: lseg_snoc)

lemma chain_ends_last: "chain nx h p ps \<Longrightarrow> ps \<noteq> [] \<Longrightarrow>
    \<exists>v. rd h (last ps) = Some v \<and> nx v = NULL"
  by (metis lseg_snoc append_butlast_last_id)

section \<open>Back links\<close>

fun backs :: "('a \<Rightarrow> ptr) \<Rightarrow> 'a heap \<Rightarrow> ptr \<Rightarrow> ptr list \<Rightarrow> bool" where
  "backs pv h b [] = True"
| "backs pv h b (a # as) =
     ((case rd h a of None \<Rightarrow> False | Some v \<Rightarrow> pv v = b) \<and> backs pv h a as)"

definition dll :: "('a \<Rightarrow> ptr) \<Rightarrow> ('a \<Rightarrow> ptr) \<Rightarrow> 'a heap \<Rightarrow> ptr \<Rightarrow> ptr list \<Rightarrow> bool" where
  "dll nx pv h p ps \<longleftrightarrow> chain nx h p ps \<and> backs pv h NULL ps"

definition last_or :: "ptr \<Rightarrow> ptr list \<Rightarrow> ptr" where
  "last_or b xs = (if xs = [] then b else last xs)"

lemma last_or_simps [simp]:
  "last_or b [] = b" "last_or b (x # xs) = last_or x xs"
  by (auto simp: last_or_def)

lemma last_or_in: "last_or b xs \<noteq> b \<Longrightarrow> last_or b xs \<in> set xs"
  by (auto simp: last_or_def split: if_splits)

lemma last_or_NULL: "NULL \<notin> set xs \<Longrightarrow> last_or NULL xs = NULL \<longleftrightarrow> xs = []"
  by (cases xs rule: rev_cases) (auto simp: last_or_def)

lemma backs_append: "backs pv h b (xs @ ys) \<longleftrightarrow> backs pv h b xs \<and> backs pv h (last_or b xs) ys"
  by (induction xs arbitrary: b) auto

lemma backs_cong:
  assumes "\<And>a. a \<in> set ps \<Longrightarrow> map_option pv (rd h a) = map_option pv (rd h' a)"
  shows "backs pv h b ps = backs pv h' b ps"
  using assms
proof (induction ps arbitrary: b)
  case (Cons a ps)
  have "map_option pv (rd h a) = map_option pv (rd h' a)"
    using Cons.prems by simp
  moreover have "backs pv h a ps = backs pv h' a ps"
    using Cons.IH Cons.prems by simp
  ultimately show ?case by (cases "rd h a"; cases "rd h' a") auto
qed simp

lemma backs_upd_notin [simp, seg_simps]:
  "a \<notin> set ps \<Longrightarrow> backs pv (h(a := x)) b ps = backs pv h b ps"
  by (rule backs_cong) auto

lemma dll_distinct: "dll nx pv h p ps \<Longrightarrow> distinct ps"
  by (auto simp: dll_def dest: chain_distinct)

lemma dll_alloc: "dll nx pv h p ps \<Longrightarrow> a \<in> set ps \<Longrightarrow> \<exists>v. rd h a = Some v"
  by (auto simp: dll_def dest: lseg_alloc)

lemma dll_NULL_notin: "dll nx pv h p ps \<Longrightarrow> NULL \<notin> set ps"
  by (auto simp: dll_def dest: lseg_NULL_notin)

lemma dll_cong:
  assumes "\<And>a. a \<in> set ps \<Longrightarrow> map_option nx (rd h a) = map_option nx (rd h' a)"
    and "\<And>a. a \<in> set ps \<Longrightarrow> map_option pv (rd h a) = map_option pv (rd h' a)"
  shows "dll nx pv h p ps = dll nx pv h' p ps"
  using lseg_cong [OF assms(1)] backs_cong [OF assms(2)] by (simp add: dll_def)

lemma dll_upd_notin [simp, seg_simps]:
  "a \<notin> set ps \<Longrightarrow> dll nx pv (h(a := x)) p ps = dll nx pv h p ps"
  by (simp add: dll_def)

lemma dll_fresh_upd:
  "dll nx pv h p ps \<Longrightarrow> rd h a = None \<Longrightarrow> dll nx pv (h(a := x)) p ps"
  by (metis dll_alloc dll_upd_notin option.distinct(1))

lemma dll_empty [simp]: "dll nx pv h p [] \<longleftrightarrow> p = NULL"
  by (simp add: dll_def)

lemma dll_unique: "dll nx pv h p ps \<Longrightarrow> dll nx pv h p qs \<Longrightarrow> ps = qs"
  by (auto simp: dll_def dest: lseg_unique)

text \<open>What a member of a doubly linked list points to.\<close>

lemma dll_member:
  assumes "dll nx pv h p (xs @ a # ys)"
  obtains v where "rd h a = Some v" and "pv v = last_or NULL xs"
    and "nx v = (case ys of [] \<Rightarrow> NULL | y # _ \<Rightarrow> y)"
    and "p = (case xs of [] \<Rightarrow> a | x # _ \<Rightarrow> x)"
  using assms
  by (auto simp: dll_def lseg_split backs_append split: option.splits dest!: lseg_start)

section \<open>Unlinking and pushing\<close>

text \<open>
  Unlinking: the statements of \<open>ape_timer_destroy\<close> and of \<open>hashtbl_erase64\<close>,
  \<open>hashtbl_erase\<close> that take a member out of a doubly linked list with a head pointer.
\<close>

definition dll_unlink ::
  "('a \<Rightarrow> ptr) \<Rightarrow> ('a \<Rightarrow> ptr) \<Rightarrow> (ptr \<Rightarrow> 'a \<Rightarrow> 'a) \<Rightarrow> (ptr \<Rightarrow> 'a \<Rightarrow> 'a) \<Rightarrow> 'a heap \<Rightarrow> ptr \<Rightarrow> ptr
    \<Rightarrow> ('a heap \<times> ptr) option" where
  "dll_unlink nx pv set_nx set_pv h head a = do {
     v \<leftarrow> rd h a;
     (h1, head1) \<leftarrow> (if pv v = NULL then Some (h, nx v)
                      else do { h1 \<leftarrow> wr h (pv v) (set_nx (nx v)); Some (h1, head) });
     h2 \<leftarrow> (if nx v \<noteq> NULL then wr h1 (nx v) (set_pv (pv v)) else Some h1);
     Some (h2, head1) }"

text \<open>Pushing: link a freshly allocated object in front of the head.\<close>

definition dll_push ::
  "(ptr \<Rightarrow> 'a \<Rightarrow> 'a) \<Rightarrow> 'a heap \<Rightarrow> ptr \<Rightarrow> ptr \<Rightarrow> ('a heap \<times> ptr) option" where
  "dll_push set_pv h head a = do {
     h1 \<leftarrow> (if head \<noteq> NULL then wr h head (set_pv a) else Some h);
     Some (h1, a) }"

text \<open>
  A field (or any function of the object) that setting a link does not change, and two heaps that
  hold the same objects up to that field: the frame of the two operations.
\<close>

definition link_free :: "(ptr \<Rightarrow> 'a \<Rightarrow> 'a) \<Rightarrow> (ptr \<Rightarrow> 'a \<Rightarrow> 'a) \<Rightarrow> ('a \<Rightarrow> 'c) \<Rightarrow> bool" where
  "link_free set_nx set_pv g \<longleftrightarrow> (\<forall>q w. g (set_nx q w) = g w) \<and> (\<forall>q w. g (set_pv q w) = g w)"

definition keeps :: "('a \<Rightarrow> 'c) \<Rightarrow> 'a heap \<Rightarrow> 'a heap \<Rightarrow> bool" where
  "keeps g h h' \<longleftrightarrow> (\<forall>b. map_option g (h' b) = map_option g (h b))"

lemma keeps_refl [simp]: "keeps g h h"
  by (simp add: keeps_def)

lemma keeps_trans: "keeps g h1 h2 \<Longrightarrow> keeps g h2 h3 \<Longrightarrow> keeps g h1 h3"
  by (simp add: keeps_def)

lemma keeps_upd: "rd h a = Some v \<Longrightarrow> g w = g v \<Longrightarrow> keeps g h (h(a := Some w))"
  by (auto simp: keeps_def rd_Some_iff)

lemma keeps_None: "keeps g h h' \<Longrightarrow> h b = None \<Longrightarrow> h' b = None"
  by (metis keeps_def map_option_is_None)

lemma keeps_rd: "keeps g h h' \<Longrightarrow> map_option g (rd h' b) = map_option g (rd h b)"
  by (simp add: keeps_def rd_def)

lemma keeps_rd_Some:
  "keeps g h h' \<Longrightarrow> rd h b = Some v \<Longrightarrow> \<exists>w. rd h' b = Some w \<and> g w = g v"
  by (metis keeps_rd map_option_eq_Some)

lemma keeps_dom: "keeps g h h' \<Longrightarrow> dom h' = dom h"
  by (auto simp: keeps_def dom_def) (metis map_option_is_None not_None_eq)+

lemma keeps_lseg: "keeps nx h h' \<Longrightarrow> lseg nx h' p ps q = lseg nx h p ps q"
  by (rule lseg_cong) (simp add: keeps_rd)

locale dll_fields =
  fixes nx pv :: "'a \<Rightarrow> ptr"
    and set_nx set_pv :: "ptr \<Rightarrow> 'a \<Rightarrow> 'a"
  assumes nx_set_nx [simp]: "nx (set_nx p v) = p"
    and pv_set_nx [simp]: "pv (set_nx p v) = pv v"
    and nx_set_pv [simp]: "nx (set_pv p v) = nx v"
    and pv_set_pv [simp]: "pv (set_pv p v) = p"
begin

lemma set_next_seg:
  assumes "lseg nx h p (xs @ [b]) a" and "b \<notin> set xs" and "rd h b = Some w"
  shows "lseg nx (h(b := Some (set_nx q w))) p (xs @ [b]) q"
  using assms by (auto simp: lseg_snoc dest: lseg_alloc)

lemma set_next_backs:
  "rd h b = Some w \<Longrightarrow> backs pv (h(b := Some (set_nx q w))) c xs = backs pv h c xs"
  by (rule backs_cong) auto

lemma set_prev_seg:
  "rd h b = Some w \<Longrightarrow> lseg nx (h(b := Some (set_pv q w))) p xs r = lseg nx h p xs r"
  by (rule lseg_cong) auto

lemma keeps_set_next: "link_free set_nx set_pv g \<Longrightarrow> rd h b = Some w \<Longrightarrow>
    keeps g h (h(b := Some (set_nx q w)))"
  by (simp add: keeps_upd link_free_def)

lemma keeps_set_prev: "link_free set_nx set_pv g \<Longrightarrow> rd h b = Some w \<Longrightarrow>
    keeps g h (h(b := Some (set_pv q w)))"
  by (simp add: keeps_upd link_free_def)

lemma unlink_first_half:
  assumes d: "dll nx pv h p (xs @ a # ys)" and v: "rd h a = Some v"
  shows "\<exists>h1 p1. (if pv v = NULL then Some (h, nx v)
            else do { h1 \<leftarrow> wr h (pv v) (set_nx (nx v)); Some (h1, p) }) = Some (h1, p1)
         \<and> chain nx h1 p1 (xs @ ys) \<and> backs pv h1 NULL xs \<and> backs pv h1 a ys
         \<and> (\<forall>b. b \<notin> set xs \<longrightarrow> h1 b = h b)
         \<and> (\<forall>g :: 'a \<Rightarrow> 'c. link_free set_nx set_pv g \<longrightarrow> keeps g h h1)"
proof (cases xs rule: rev_cases)
  case Nil
  then show ?thesis using d v by (auto simp: dll_def)
next
  case (snoc zs b)
  have dis: "distinct (xs @ a # ys)" using d by (rule dll_distinct)
  have pv: "pv v = b" using d v snoc by (auto simp: dll_def backs_append last_or_def)
  obtain w where w: "rd h b = Some w" using dll_alloc [OF d, of b] snoc by auto
  have b0: "b \<noteq> NULL" using w by auto
  have seg: "lseg nx h p (zs @ [b]) a" and tl: "lseg nx h (nx v) ys NULL"
    using d v snoc by (auto simp: dll_def lseg_split)
  let ?h1 = "h(b := Some (set_nx (nx v) w))"
  have "lseg nx ?h1 p xs (nx v)"
    using set_next_seg [OF seg _ w] dis snoc by auto
  moreover have "lseg nx ?h1 (nx v) ys NULL"
    using tl dis snoc by auto
  ultimately have "chain nx ?h1 p (xs @ ys)" by (auto simp: lseg_append)
  moreover have "backs pv ?h1 NULL xs" and "backs pv ?h1 a ys"
    using d v by (auto simp: set_next_backs [OF w] dll_def backs_append)
  ultimately show ?thesis
    using pv b0 w snoc keeps_set_next [OF _ w] by auto
qed

text \<open>Unlinking a member keeps the list, without it, and every other field of every object.\<close>

lemma unlink_dll:
  assumes d: "dll nx pv h p (xs @ a # ys)"
  shows "\<exists>h' p'. dll_unlink nx pv set_nx set_pv h p a = Some (h', p')
         \<and> dll nx pv h' p' (xs @ ys)
         \<and> (\<forall>b. b \<notin> set (xs @ ys) \<longrightarrow> h' b = h b)
         \<and> (\<forall>g :: 'a \<Rightarrow> 'c. link_free set_nx set_pv g \<longrightarrow> keeps g h h')"
proof -
  obtain v where v: "rd h a = Some v" and pvv: "pv v = last_or NULL xs"
    and nxv: "nx v = (case ys of [] \<Rightarrow> NULL | y # _ \<Rightarrow> y)"
    using d by (rule dll_member)
  obtain h1 p1 where first: "(if pv v = NULL then Some (h, nx v)
            else do { h1 \<leftarrow> wr h (pv v) (set_nx (nx v)); Some (h1, p) }) = Some (h1, p1)"
    and ch1: "chain nx h1 p1 (xs @ ys)" and bx: "backs pv h1 NULL xs" and bys: "backs pv h1 a ys"
    and fr1: "\<And>b. b \<notin> set xs \<Longrightarrow> h1 b = h b"
    and g1: "\<forall>g :: 'a \<Rightarrow> 'c. link_free set_nx set_pv g \<longrightarrow> keeps g h h1"
    using unlink_first_half [OF d v] by blast
  have unl: "dll_unlink nx pv set_nx set_pv h p a =
      (do { h2 \<leftarrow> (if nx v \<noteq> NULL then wr h1 (nx v) (set_pv (pv v)) else Some h1);
            Some (h2, p1) })"
    unfolding dll_unlink_def using v first by simp
  show ?thesis
  proof (cases ys)
    case Nil
    then have "nx v = NULL" using nxv by simp
    then have "dll_unlink nx pv set_nx set_pv h p a = Some (h1, p1)" using unl by simp
    moreover have "dll nx pv h1 p1 (xs @ ys)" using Nil ch1 bx by (simp add: dll_def)
    ultimately show ?thesis using fr1 g1 Nil by simp
  next
    case (Cons y ys')
    have y: "nx v = y" using nxv Cons by simp
    have dis: "distinct (xs @ ys)" using ch1 by (rule chain_distinct)
    obtain w where w: "rd h1 y = Some w" using lseg_alloc [OF ch1, of y] Cons by auto
    have y0: "y \<noteq> NULL" using w by auto
    let ?h2 = "h1(y := Some (set_pv (pv v) w))"
    have "chain nx ?h2 p1 (xs @ ys)" using ch1 by (simp add: set_prev_seg [OF w])
    moreover have "backs pv ?h2 NULL xs" using bx dis Cons by simp
    moreover have "backs pv ?h2 (last_or NULL xs) ys"
      using bys dis Cons pvv y0 by simp
    ultimately have "dll nx pv ?h2 p1 (xs @ ys)" by (simp add: dll_def backs_append)
    moreover have "\<forall>g :: 'a \<Rightarrow> 'c. link_free set_nx set_pv g \<longrightarrow> keeps g h ?h2"
      using g1 keeps_set_prev [OF _ w] keeps_trans by blast
    ultimately show ?thesis using unl y y0 w Cons fr1 by auto
  qed
qed

lemma push_dll:
  assumes d: "dll nx pv h p ps" and a: "rd h a = Some v" and na: "a \<notin> set ps"
    and nxv: "nx v = p" and pvv: "pv v = NULL"
  shows "\<exists>h'. dll_push set_pv h p a = Some (h', a) \<and> dll nx pv h' a (a # ps)
         \<and> (\<forall>b. b \<noteq> p \<longrightarrow> h' b = h b)
         \<and> (\<forall>g :: 'a \<Rightarrow> 'c. link_free set_nx set_pv g \<longrightarrow> keeps g h h')"
proof (cases ps)
  case Nil
  then show ?thesis using assms by (auto simp: dll_def dll_push_def)
next
  case (Cons y ys)
  then have p: "p = y" using d by (auto simp: dll_def split: option.splits)
  obtain w where w: "rd h y = Some w" using dll_alloc [OF d, of y] Cons by auto
  have y0: "y \<noteq> NULL" using w by auto
  have dis: "distinct ps" using d by (rule dll_distinct)
  let ?h = "h(y := Some (set_pv a w))"
  have nay: "a \<noteq> y" using na Cons by auto
  have ra: "rd ?h a = Some v" using a nay by simp
  have "chain nx ?h p ps" using d by (simp add: set_prev_seg [OF w] dll_def)
  then have "chain nx ?h a (a # ps)" using ra nxv by simp
  moreover have "backs pv ?h NULL (a # ps)"
    using ra pvv d dis y0 Cons by (simp add: dll_def)
  ultimately have "dll nx pv ?h a (a # ps)" by (simp add: dll_def)
  then show ?thesis
    using p y0 w keeps_set_prev [OF _ w] by (auto simp: dll_push_def)
qed

end

end
