(* ===== verification/Pool.thy ===== *)
theory Pool
  imports Linked
begin

unbundle bit_operations_syntax

text \<open>
  \<open>ape_pool.c\<close>: lists of slots that are allocated in blocks. A slot is an
  \<open>ape_pool_t\<close> (a union payload, two links and flags), or a struct that starts with one:
  the record is extensible, as the C struct is extended by \<open>ape_socket_packet_t\<close> and
  \<open>ape_socket_jobs_t\<close>. \<open>ape_new_pool\<close> allocates \<open>n\<close> contiguous slots with
  one malloc and marks the first with \<open>APE_POOL_ALLOC\<close>; free takes a whole block, so
  destroying a list whose slots were reordered must find the first slot of every block and
  free it once, without reading a slot of a block that is already gone.
\<close>

section \<open>Slots, lists and their memory\<close>

text \<open>The payload is a union of a pointer and a file descriptor: a machine word.\<close>

record ape_pool =
  pdata :: nat
  pnext :: ptr
  pprev :: ptr
  pflags :: uint32

record ape_pool_list =
  pl_head :: ptr
  pl_queue :: ptr
  pl_current :: ptr
  pl_size :: nat

definition APE_POOL_ALLOC :: uint32 where
  "APE_POOL_ALLOC = 0x01"

definition pool_is_alloc :: "'a ape_pool_scheme \<Rightarrow> bool" where
  "pool_is_alloc v \<longleftrightarrow> pflags v AND APE_POOL_ALLOC \<noteq> 0"

text \<open>sizeof(ape_pool_t) on a 64-bit target: three pointers, a uint32 and its padding.\<close>

definition sizeof_ape_pool :: nat where
  "sizeof_ape_pool = 32"

text \<open>
  The memory the pools live in: the slots, the table of the blocks malloc gave (base address,
  size of a slot, number of slots), and the next address malloc gives.
\<close>

record 'i pool_mem =
  cells :: "'i heap"
  blocks :: "ptr \<Rightarrow> (nat \<times> nat) option"
  brk :: ptr

definition block_addrs :: "ptr \<Rightarrow> nat \<Rightarrow> nat \<Rightarrow> ptr list" where
  "block_addrs base sz n = map (\<lambda>i. base + i * sz) [0..<n]"

text \<open>malloc(sz * n) for n slots; their contents are not initialised (\<open>junk\<close>).\<close>

definition pool_malloc ::
  "'i \<Rightarrow> nat \<Rightarrow> nat \<Rightarrow> 'i pool_mem \<Rightarrow> ptr \<times> 'i pool_mem" where
  "pool_malloc junk sz n m =
     (brk m, \<lparr> cells = (\<lambda>a. if a \<in> set (block_addrs (brk m) sz n) then Some junk else cells m a),
               blocks = (blocks m)(brk m := Some (sz, n)),
               brk = brk m + sz * n \<rparr>)"

text \<open>free: only the address of a live block may be freed, and all its slots go.\<close>

definition pool_free :: "'i pool_mem \<Rightarrow> ptr \<Rightarrow> 'i pool_mem option" where
  "pool_free m p = (case blocks m p of None \<Rightarrow> None
     | Some (sz, n) \<Rightarrow>
         Some (m\<lparr>cells := (\<lambda>a. if a \<in> set (block_addrs p sz n) then None else cells m a),
                blocks := (blocks m)(p := None)\<rparr>))"

section \<open>Allocating slots\<close>

text \<open>The loop of \<open>ape_new_pool\<close>, from slot \<open>i\<close> on.\<close>

function new_pool_loop ::
  "ptr \<Rightarrow> nat \<Rightarrow> nat \<Rightarrow> nat \<Rightarrow> 'a ape_pool_scheme heap \<Rightarrow> 'a ape_pool_scheme heap option" where
  "new_pool_loop pool sz n i h =
     (if i < n then do {
        let current = pool + i * sz;
        let nxt = (if i = n - 1 then NULL else pool + (i + 1) * sz);
        h1 \<leftarrow> wr h current (\<lambda>v. v\<lparr>pnext := nxt, pdata := NULL,
                                    pflags := (if i = 0 then APE_POOL_ALLOC else 0)\<rparr>);
        h2 \<leftarrow> (if nxt \<noteq> NULL then wr h1 nxt (\<lambda>v. v\<lparr>pprev := current\<rparr>) else Some h1);
        new_pool_loop pool sz n (i + 1) h2
      } else Some h)"
  by pat_completeness auto
termination
  by (relation "measure (\<lambda>(pool, sz, n, i, h). n - i)") auto

declare new_pool_loop.simps [simp del]

definition ape_new_pool ::
  "'a ape_pool_scheme \<Rightarrow> nat \<Rightarrow> nat \<Rightarrow> 'a ape_pool_scheme pool_mem
    \<Rightarrow> (ptr \<times> 'a ape_pool_scheme pool_mem) option" where
  "ape_new_pool junk sz0 n m =
     (let sz = (if sz0 = 0 then sizeof_ape_pool else sz0);
          (pool, m1) = pool_malloc junk sz n m
      in do {
        h0 \<leftarrow> wr (cells m1) pool (\<lambda>v. v\<lparr>pprev := NULL\<rparr>);
        h \<leftarrow> new_pool_loop pool sz n 0 h0;
        Some (pool, m1\<lparr>cells := h\<rparr>) })"

definition ape_init_pool_list ::
  "'a ape_pool_scheme \<Rightarrow> nat \<Rightarrow> nat \<Rightarrow> 'a ape_pool_scheme pool_mem
    \<Rightarrow> (ape_pool_list \<times> 'a ape_pool_scheme pool_mem) option" where
  "ape_init_pool_list junk sz0 n m =
     (let sz = (if sz0 = 0 then sizeof_ape_pool else sz0) in do {
        (pool, m1) \<leftarrow> ape_new_pool junk sz n m;
        Some (\<lparr>pl_head = pool, pl_queue = pool + (n - 1) * sz,
               pl_current = pool, pl_size = sz\<rparr>, m1) })"

definition ape_grow_pool ::
  "'a ape_pool_scheme \<Rightarrow> ape_pool_list \<Rightarrow> nat \<Rightarrow> 'a ape_pool_scheme pool_mem
    \<Rightarrow> (ptr \<times> ape_pool_list \<times> 'a ape_pool_scheme pool_mem) option" where
  "ape_grow_pool junk l n m = do {
     (pool, m1) \<leftarrow> ape_new_pool junk (pl_size l) n m;
     h1 \<leftarrow> wr (cells m1) (pl_queue l) (\<lambda>v. v\<lparr>pnext := pool\<rparr>);
     h2 \<leftarrow> wr h1 pool (\<lambda>v. v\<lparr>pprev := pl_queue l\<rparr>);
     Some (pool, l\<lparr>pl_queue := pool + (n - 1) * pl_size l\<rparr>, m1\<lparr>cells := h2\<rparr>) }"

section \<open>Moving and filling slots\<close>

definition ape_pool_head_to_queue ::
  "ape_pool_list \<Rightarrow> 'a ape_pool_scheme pool_mem
    \<Rightarrow> (ptr \<times> ape_pool_list \<times> 'a ape_pool_scheme pool_mem) option" where
  "ape_pool_head_to_queue l m = do {
     let head = pl_head l;
     v \<leftarrow> rd (cells m) head;
     h1 \<leftarrow> wr (cells m) (pl_queue l) (\<lambda>q. q\<lparr>pnext := head\<rparr>);
     h2 \<leftarrow> wr h1 head (\<lambda>v. v\<lparr>pnext := NULL\<rparr>);
     Some (pnext v, l\<lparr>pl_head := pnext v, pl_queue := head\<rparr>, m\<lparr>cells := h2\<rparr>) }"

definition ape_pool_head_to_current ::
  "ape_pool_list \<Rightarrow> 'a ape_pool_scheme pool_mem
    \<Rightarrow> (ptr \<times> ape_pool_list \<times> 'a ape_pool_scheme pool_mem) option" where
  "ape_pool_head_to_current l m = (let head = pl_head l in
     if head = pl_current l then Some (head, l, m)
     else do {
       v \<leftarrow> rd (cells m) head;
       c \<leftarrow> rd (cells m) (pl_current l);
       h1 \<leftarrow> wr (cells m) head (\<lambda>v. v\<lparr>pnext := pnext c\<rparr>);
       h2 \<leftarrow> wr h1 (pl_current l) (\<lambda>c. c\<lparr>pnext := head\<rparr>);
       let l1 = l\<lparr>pl_head := pnext v, pl_current := head\<rparr>;
       let l2 = (if pnext c = NULL then l1\<lparr>pl_queue := head\<rparr> else l1);
       Some (pl_head l2, l2, m\<lparr>cells := h2\<rparr>) })"

text \<open>\<open>ape_pool_push\<close> on a list that is not NULL; the guard is in \<open>ape_pool_push_list\<close> below.\<close>

definition ape_pool_push ::
  "'a ape_pool_scheme \<Rightarrow> ape_pool_list \<Rightarrow> nat \<Rightarrow> 'a ape_pool_scheme pool_mem
    \<Rightarrow> (ape_pool_list \<times> 'a ape_pool_scheme pool_mem) option" where
  "ape_pool_push junk l data m = do {
     v \<leftarrow> rd (cells m) (pl_current l);
     (l1, m1) \<leftarrow> (if pnext v = NULL
                    then do { (pool, l1, m1) \<leftarrow> ape_grow_pool junk l 8 m; Some (l1, m1) }
                    else Some (l, m));
     h1 \<leftarrow> wr (cells m1) (pl_current l1) (\<lambda>v. v\<lparr>pdata := data\<rparr>);
     w \<leftarrow> rd h1 (pl_current l1);
     Some (l1\<lparr>pl_current := pnext w\<rparr>, m1\<lparr>cells := h1\<rparr>) }"

definition ape_pool_rewind :: "ape_pool_list \<Rightarrow> ape_pool_list" where
  "ape_pool_rewind l = l\<lparr>pl_current := pl_head l\<rparr>"

text \<open>
  The macros \<open>APE_P_FOREACH\<close> and \<open>APE_P_FOREACH_REVERSE\<close> of \<open>ape_pool.h\<close>:
  the payloads the loop body is run with, in order.
\<close>

partial_function (option) pool_foreach ::
  "('a ape_pool_scheme \<Rightarrow> ptr) \<Rightarrow> 'a ape_pool_scheme heap \<Rightarrow> ptr \<Rightarrow> nat list option" where
  "pool_foreach nx h p =
     (if p = NULL then Some []
      else do {
        v \<leftarrow> rd h p;
        if pdata v = NULL then Some []
        else do { r \<leftarrow> pool_foreach nx h (nx v); Some (pdata v # r) } })"

definition APE_P_FOREACH :: "ape_pool_list \<Rightarrow> 'a ape_pool_scheme pool_mem \<Rightarrow> nat list option" where
  "APE_P_FOREACH l m = pool_foreach pnext (cells m) (pl_head l)"

definition APE_P_FOREACH_REVERSE ::
  "ape_pool_list \<Rightarrow> 'a ape_pool_scheme pool_mem \<Rightarrow> nat list option" where
  "APE_P_FOREACH_REVERSE l m =
     (if pl_current l = NULL then Some []
      else do { c \<leftarrow> rd (cells m) (pl_current l); pool_foreach pprev (cells m) (pprev c) })"

section \<open>Destroying a list\<close>

text \<open>
  A cleaner is called with each slot; its effect is on a state outside the pool (the context
  argument). NULL is \<open>None\<close>.
\<close>

type_synonym ('i, 's) cleaner = "('i \<Rightarrow> 's \<Rightarrow> 's option) option"

definition run_cleaner :: "('i, 's) cleaner \<Rightarrow> 'i \<Rightarrow> 's \<Rightarrow> 's option" where
  "run_cleaner cleaner v s = (case cleaner of None \<Rightarrow> Some s | Some c \<Rightarrow> c v s)"

text \<open>
  The first loop of \<open>ape_destroy_pool_with_cleaner\<close>: it walks the list, runs the cleaner,
  and threads the first slots of the blocks it meets into a list of their own, last one first,
  linking the walk past them through \<open>fPool\<close>.
\<close>

partial_function (option) destroy_collect ::
  "('a ape_pool_scheme, 's) cleaner \<Rightarrow> ptr \<Rightarrow> ptr \<Rightarrow> ptr \<Rightarrow> 'a ape_pool_scheme heap \<Rightarrow> 's
    \<Rightarrow> ('a ape_pool_scheme heap \<times> ptr \<times> ptr \<times> 's) option" where
  "destroy_collect cleaner pool tPool fPool h s =
     (if pool = NULL then Some (h, tPool, fPool, s)
      else do {
        v \<leftarrow> rd h pool;
        s1 \<leftarrow> run_cleaner cleaner v s;
        if pool_is_alloc v then
          (if tPool \<noteq> NULL then do {
             h1 \<leftarrow> wr h (if fPool = NULL then pool else fPool) (\<lambda>f. f\<lparr>pnext := pnext v\<rparr>);
             h2 \<leftarrow> wr h1 pool (\<lambda>v. v\<lparr>pnext := tPool\<rparr>);
             f \<leftarrow> rd h2 (if fPool = NULL then pool else fPool);
             destroy_collect cleaner (pnext f) pool (if fPool = NULL then pool else fPool) h2 s1
           } else
             destroy_collect cleaner (pnext v) pool (if fPool = NULL then pool else fPool) h s1)
        else destroy_collect cleaner (pnext v) tPool fPool h s1 })"

text \<open>The second loop: free the blocks of that list.\<close>

partial_function (option) destroy_free ::
  "ptr \<Rightarrow> 'a ape_pool_scheme pool_mem \<Rightarrow> 'a ape_pool_scheme pool_mem option" where
  "destroy_free pool m =
     (if pool = NULL then Some m
      else do {
        v \<leftarrow> rd (cells m) pool;
        if pool_is_alloc v then do {
          m1 \<leftarrow> pool_free m pool;
          destroy_free (pnext v) m1 }
        else Some m })"

definition ape_destroy_pool_with_cleaner ::
  "ptr \<Rightarrow> ('a ape_pool_scheme, 's) cleaner \<Rightarrow> 's \<Rightarrow> 'a ape_pool_scheme pool_mem
    \<Rightarrow> ('s \<times> 'a ape_pool_scheme pool_mem) option" where
  "ape_destroy_pool_with_cleaner pool cleaner s m = do {
     (h, tPool, fPool, s1) \<leftarrow> destroy_collect cleaner pool NULL NULL (cells m) s;
     h1 \<leftarrow> (if fPool \<noteq> NULL then wr h fPool (\<lambda>f. f\<lparr>pnext := NULL\<rparr>) else Some h);
     m1 \<leftarrow> destroy_free tPool (m\<lparr>cells := h1\<rparr>);
     Some (s1, m1) }"

definition ape_destroy_pool ::
  "ptr \<Rightarrow> 'a ape_pool_scheme pool_mem \<Rightarrow> 'a ape_pool_scheme pool_mem option" where
  "ape_destroy_pool pool m =
     map_option snd (ape_destroy_pool_with_cleaner pool (None :: ('a ape_pool_scheme, unit) cleaner) () m)"

text \<open>\<open>ape_destroy_pool_ordered\<close> frees the block met before when it meets the next one.\<close>

partial_function (option) destroy_ordered_walk ::
  "('a ape_pool_scheme, 's) cleaner \<Rightarrow> ptr \<Rightarrow> ptr \<Rightarrow> 'a ape_pool_scheme pool_mem \<Rightarrow> 's
    \<Rightarrow> (ptr \<times> 's \<times> 'a ape_pool_scheme pool_mem) option" where
  "destroy_ordered_walk cleaner pool tPool m s =
     (if pool = NULL then Some (tPool, s, m)
      else do {
        v \<leftarrow> rd (cells m) pool;
        s1 \<leftarrow> run_cleaner cleaner v s;
        if pool_is_alloc v then do {
          m1 \<leftarrow> (if tPool \<noteq> NULL then pool_free m tPool else Some m);
          w \<leftarrow> rd (cells m1) pool;
          destroy_ordered_walk cleaner (pnext w) pool m1 s1 }
        else destroy_ordered_walk cleaner (pnext v) tPool m s1 })"

definition ape_destroy_pool_ordered ::
  "ptr \<Rightarrow> ('a ape_pool_scheme, 's) cleaner \<Rightarrow> 's \<Rightarrow> 'a ape_pool_scheme pool_mem
    \<Rightarrow> ('s \<times> 'a ape_pool_scheme pool_mem) option" where
  "ape_destroy_pool_ordered pool cleaner s m = do {
     (tPool, s1, m1) \<leftarrow> destroy_ordered_walk cleaner pool NULL m s;
     m2 \<leftarrow> (if tPool \<noteq> NULL then pool_free m1 tPool else Some m1);
     Some (s1, m2) }"

section \<open>List objects\<close>

text \<open>
  The functions that allocate or free the \<open>ape_pool_list_t\<close> itself work on the pools'
  memory and on a heap of list objects. \<open>ape_pool_push\<close> is called with a pointer to the
  list, which may be NULL.
\<close>

record 'i list_mem =
  pools :: "'i pool_mem"
  list_objs :: "ape_pool_list heap"
  lists_brk :: ptr

definition ape_new_pool_list ::
  "'a ape_pool_scheme \<Rightarrow> nat \<Rightarrow> nat \<Rightarrow> 'a ape_pool_scheme list_mem
    \<Rightarrow> (ptr \<times> 'a ape_pool_scheme list_mem) option" where
  "ape_new_pool_list junk sz n s = do {
     let list = lists_brk s;
     (l, m) \<leftarrow> ape_init_pool_list junk sz n (pools s);
     Some (list, \<lparr>pools = m, list_objs = (list_objs s)(list \<mapsto> l), lists_brk = list + 1\<rparr>) }"

definition ape_pool_push_list ::
  "'a ape_pool_scheme \<Rightarrow> ptr \<Rightarrow> nat \<Rightarrow> 'a ape_pool_scheme list_mem
    \<Rightarrow> 'a ape_pool_scheme list_mem option" where
  "ape_pool_push_list junk list data s =
     (if list = NULL then Some s
      else do {
        l \<leftarrow> rd (list_objs s) list;
        (l1, m) \<leftarrow> ape_pool_push junk l data (pools s);
        Some (s\<lparr>pools := m, list_objs := (list_objs s)(list \<mapsto> l1)\<rparr>) })"

definition ape_destroy_pool_list ::
  "ptr \<Rightarrow> 'a ape_pool_scheme list_mem \<Rightarrow> 'a ape_pool_scheme list_mem option" where
  "ape_destroy_pool_list list s = do {
     l \<leftarrow> rd (list_objs s) list;
     m \<leftarrow> ape_destroy_pool (pl_head l) (pools s);
     h \<leftarrow> dealloc (list_objs s) list;
     Some (s\<lparr>pools := m, list_objs := h\<rparr>) }"

definition ape_destroy_pool_list_with_cleaner ::
  "ptr \<Rightarrow> ('a ape_pool_scheme, 's) cleaner \<Rightarrow> 's \<Rightarrow> 'a ape_pool_scheme list_mem
    \<Rightarrow> ('s \<times> 'a ape_pool_scheme list_mem) option" where
  "ape_destroy_pool_list_with_cleaner list cleaner ctx s = do {
     l \<leftarrow> rd (list_objs s) list;
     (ctx1, m) \<leftarrow> ape_destroy_pool_with_cleaner (pl_head l) cleaner ctx (pools s);
     h \<leftarrow> dealloc (list_objs s) list;
     Some (ctx1, s\<lparr>pools := m, list_objs := h\<rparr>) }"

definition ape_destroy_pool_list_ordered ::
  "ptr \<Rightarrow> ('a ape_pool_scheme, 's) cleaner \<Rightarrow> 's \<Rightarrow> 'a ape_pool_scheme list_mem
    \<Rightarrow> ('s \<times> 'a ape_pool_scheme list_mem) option" where
  "ape_destroy_pool_list_ordered list cleaner ctx s = do {
     l \<leftarrow> rd (list_objs s) list;
     (ctx1, m) \<leftarrow> ape_destroy_pool_ordered (pl_head l) cleaner ctx (pools s);
     h \<leftarrow> dealloc (list_objs s) list;
     Some (ctx1, s\<lparr>pools := m, list_objs := h\<rparr>) }"

declare pool_foreach.simps [code] destroy_collect.simps [code] destroy_free.simps [code]
  destroy_ordered_walk.simps [code]

end
