(* ===== verification/Pool_Props.thy ===== *)
theory Pool_Props
  imports Pool
begin

unbundle bit_operations_syntax

text \<open>
  What is proved of \<open>ape_pool.c\<close>. The invariant \<open>pool_inv\<close> of a pool list: its
  slots form a list that ends, the three list pointers point into it, and it owns the blocks its
  slots came from. Every operation keeps it, whatever the order of the operations, and destroying
  a list that satisfies it runs the cleaner once on each slot in list order and frees every block
  exactly once, without touching a slot of a block that is already freed. A list that is only
  pushed to is read back by the two iteration macros in order and in reverse.
\<close>

section \<open>Blocks\<close>

lemma block_addrs_nth: "a \<in> set (block_addrs b sz n) \<longleftrightarrow> (\<exists>i<n. a = b + i * sz)"
  by (auto simp: block_addrs_def)

lemma block_addrs_length [simp]: "length (block_addrs b sz n) = n"
  by (simp add: block_addrs_def)

lemma block_addrs_eq_Nil [simp]: "block_addrs b sz n = [] \<longleftrightarrow> n = 0"
  by (simp add: block_addrs_def)

lemma block_addrs_ge: "a \<in> set (block_addrs b sz n) \<Longrightarrow> b \<le> a"
  by (auto simp: block_addrs_nth)

lemma block_addrs_lt: "a \<in> set (block_addrs b sz n) \<Longrightarrow> 0 < sz \<Longrightarrow> a < b + sz * n"
  by (auto simp: block_addrs_nth mult.commute)

lemma block_addrs_base: "0 < n \<Longrightarrow> b \<in> set (block_addrs b sz n)"
  by (auto simp: block_addrs_nth)

lemma block_addrs_distinct: "0 < sz \<Longrightarrow> distinct (block_addrs b sz n)"
  by (auto simp: block_addrs_def distinct_map inj_on_def)

lemma block_addrs_Suc: "block_addrs b sz (Suc n) = block_addrs b sz n @ [b + n * sz]"
  by (simp add: block_addrs_def)

lemma block_addrs_last: "0 < n \<Longrightarrow> last (block_addrs b sz n) = b + (n - 1) * sz"
  by (cases n) (simp_all add: block_addrs_Suc)

lemma block_addrs_hd: "0 < n \<Longrightarrow> \<exists>as. block_addrs b sz n = b # as"
  by (simp add: block_addrs_def upt_conv_Cons)

section \<open>The allocation loop\<close>

text \<open>What the loop leaves in slot \<open>j\<close> of a block of \<open>n\<close>.\<close>

definition new_slot :: "ptr \<Rightarrow> nat \<Rightarrow> nat \<Rightarrow> nat \<Rightarrow> 'a ape_pool_scheme \<Rightarrow> bool" where
  "new_slot pool sz n j v \<longleftrightarrow> pdata v = NULL
     \<and> pnext v = (if j = n - 1 then NULL else pool + (j + 1) * sz)
     \<and> pprev v = (if j = 0 then NULL else pool + (j - 1) * sz)
     \<and> pflags v = (if j = 0 then APE_POOL_ALLOC else 0)"

lemma new_pool_loop_spec:
  assumes "0 < sz" and "pool \<noteq> NULL" and "i \<le> n"
    and "\<And>j. j < n \<Longrightarrow> \<exists>v. rd h (pool + j * sz) = Some v"
    and "\<And>v. i < n \<Longrightarrow> rd h (pool + i * sz) = Some v \<Longrightarrow>
            pprev v = (if i = 0 then NULL else pool + (i - 1) * sz)"
  shows "\<exists>h'. new_pool_loop pool sz n i h = Some h'
     \<and> (\<forall>j. i \<le> j \<longrightarrow> j < n \<longrightarrow> (\<exists>v. rd h' (pool + j * sz) = Some v \<and> new_slot pool sz n j v))
     \<and> (\<forall>a. (\<forall>j. i \<le> j \<longrightarrow> j < n \<longrightarrow> a \<noteq> pool + j * sz) \<longrightarrow> h' a = h a)"
  using assms(3-5)
proof (induction "n - i" arbitrary: i h)
  case 0
  then have "n = i" by simp
  then show ?case by (simp add: new_pool_loop.simps [of pool sz i i h])
next
  case (Suc k)
  then have i: "i < n" by simp
  let ?cur = "pool + i * sz" and ?nxt = "if i = n - 1 then NULL else pool + (i + 1) * sz"
  obtain v where v: "rd h ?cur = Some v" using Suc.prems(2) i by blast
  have pv: "pprev v = (if i = 0 then NULL else pool + (i - 1) * sz)"
    using Suc.prems(3) i v by blast
  let ?v = "v\<lparr>pnext := ?nxt, pdata := NULL, pflags := (if i = 0 then APE_POOL_ALLOC else 0)\<rparr>"
  let ?h1 = "h(?cur := Some ?v)"
  have vslot: "new_slot pool sz n i ?v" using pv by (simp add: new_slot_def)
  have inj: "pool + j * sz = pool + j' * sz \<longleftrightarrow> j = j'" for j j' using assms(1) by simp
  obtain h2 where h2: "(if ?nxt \<noteq> NULL then wr ?h1 ?nxt (\<lambda>v. v\<lparr>pprev := ?cur\<rparr>) else Some ?h1) = Some h2"
    and h2cur: "rd h2 ?cur = Some ?v"
    and h2all: "\<And>j. j < n \<Longrightarrow> \<exists>v. rd h2 (pool + j * sz) = Some v"
    and h2nxt: "\<And>w. i + 1 < n \<Longrightarrow> rd h2 (pool + (i + 1) * sz) = Some w \<Longrightarrow> pprev w = ?cur"
    and h2fr: "\<And>a. a \<noteq> ?cur \<Longrightarrow> (i + 1 < n \<Longrightarrow> a \<noteq> pool + (i + 1) * sz) \<Longrightarrow> h2 a = h a"
  proof (cases "i = n - 1")
    case True
    then show ?thesis
      using that [of ?h1] v i Suc.prems(2) assms(2) by (auto simp: rd_Some_iff)
  next
    case False
    then have i1: "i + 1 < n" using i by simp
    then obtain w where w: "rd h (pool + (i + 1) * sz) = Some w" using Suc.prems(2) by blast
    have ne: "pool + (i + 1) * sz \<noteq> ?cur" using assms(1) by simp
    then have w1: "rd ?h1 (pool + (i + 1) * sz) = Some w" using w by simp
    let ?h2 = "?h1(pool + (i + 1) * sz := Some (w\<lparr>pprev := ?cur\<rparr>))"
    have "wr ?h1 (pool + (i + 1) * sz) (\<lambda>v. v\<lparr>pprev := ?cur\<rparr>) = Some ?h2"
      by (rule wr_Some [OF w1])
    moreover have "\<exists>v. rd ?h2 (pool + j * sz) = Some v" if "j < n" for j
      using Suc.prems(2) [OF that] assms(2) by auto
    ultimately show ?thesis
      using that [of ?h2] False v ne i1 assms(2) by (auto simp del: mult_Suc)
  qed
  have step: "new_pool_loop pool sz n i h = new_pool_loop pool sz n (i + 1) h2"
    by (subst new_pool_loop.simps)
      (simp only: i if_True Let_def wr_Some [OF v] h2 Option.bind.simps)
  have "\<exists>h'. new_pool_loop pool sz n (i + 1) h2 = Some h'
     \<and> (\<forall>j. i + 1 \<le> j \<longrightarrow> j < n \<longrightarrow> (\<exists>v. rd h' (pool + j * sz) = Some v \<and> new_slot pool sz n j v))
     \<and> (\<forall>a. (\<forall>j. i + 1 \<le> j \<longrightarrow> j < n \<longrightarrow> a \<noteq> pool + j * sz) \<longrightarrow> h' a = h2 a)"
    by (rule Suc.hyps(1)) (use Suc i h2all h2nxt in auto)
  then obtain h' where h': "new_pool_loop pool sz n (i + 1) h2 = Some h'"
    and slots: "\<And>j. i + 1 \<le> j \<Longrightarrow> j < n \<Longrightarrow> \<exists>v. rd h' (pool + j * sz) = Some v \<and> new_slot pool sz n j v"
    and fr: "\<And>a. (\<forall>j. i + 1 \<le> j \<longrightarrow> j < n \<longrightarrow> a \<noteq> pool + j * sz) \<Longrightarrow> h' a = h2 a"
    by blast
  have "h' ?cur = h2 ?cur" by (rule fr) (use inj in auto)
  then have "rd h' ?cur = rd h2 ?cur" by (simp only: rd_def)
  then have cur': "rd h' ?cur = Some ?v" using h2cur by simp
  have "\<exists>v. rd h' (pool + j * sz) = Some v \<and> new_slot pool sz n j v" if "i \<le> j" "j < n" for j
    using that slots [of j] cur' vslot by (cases "j = i") auto
  moreover have "h' a = h a" if "\<forall>j. i \<le> j \<longrightarrow> j < n \<longrightarrow> a \<noteq> pool + j * sz" for a
    using that that [rule_format, of "i + 1"] fr [of a] h2fr [of a] i by simp
  ultimately show ?case using step h' by (intro exI [of _ h']) simp
qed

text \<open>The slots of a new block form a list, linked both ways.\<close>

lemma new_slots_dll:
  assumes "0 < sz" and "pool \<noteq> NULL"
    and "\<And>j. j < n \<Longrightarrow> \<exists>v. rd h (pool + j * sz) = Some v \<and> new_slot pool sz n j v"
    and "i \<le> n"
  shows "chain pnext h (if i < n then pool + i * sz else NULL) (map (\<lambda>j. pool + j * sz) [i..<n])
    \<and> backs pprev h (if i = 0 then NULL else pool + (i - 1) * sz) (map (\<lambda>j. pool + j * sz) [i..<n])"
  using assms(4)
proof (induction "n - i" arbitrary: i)
  case 0
  then show ?case by simp
next
  case (Suc k)
  then have i: "i < n" by simp
  then have ups: "[i..<n] = i # [i + 1..<n]" by (simp add: upt_conv_Cons)
  obtain v where v: "rd h (pool + i * sz) = Some v" and sl: "new_slot pool sz n i v"
    using assms(3) [OF i] by blast
  have IH: "chain pnext h (if i + 1 < n then pool + (i + 1) * sz else NULL)
        (map (\<lambda>j. pool + j * sz) [i + 1..<n])
    \<and> backs pprev h (pool + i * sz) (map (\<lambda>j. pool + j * sz) [i + 1..<n])"
    using Suc.hyps(1) [of "i + 1"] Suc.hyps(2) i by simp
  have "pnext v = (if i + 1 < n then pool + (i + 1) * sz else NULL)"
    and "pprev v = (if i = 0 then NULL else pool + (i - 1) * sz)"
    using sl i by (auto simp: new_slot_def)
  then show ?case using IH v i by (simp add: ups del: mult_Suc upt_Suc)
qed

section \<open>The invariant\<close>

definition mem_ok :: "'i pool_mem \<Rightarrow> bool" where
  "mem_ok m \<longleftrightarrow> 0 < brk m \<and> (\<forall>a. brk m \<le> a \<longrightarrow> cells m a = None \<and> blocks m a = None)"

definition blk :: "'i pool_mem \<Rightarrow> ptr \<Rightarrow> ptr set" where
  "blk m b = (case blocks m b of None \<Rightarrow> {} | Some (sz, n) \<Rightarrow> set (block_addrs b sz n))"

text \<open>
  The slots \<open>A\<close> are exactly the slots of the blocks whose first slot is among them, and the
  first slots are the ones that carry the flag.
\<close>

definition flagged :: "'a ape_pool_scheme pool_mem \<Rightarrow> ptr set \<Rightarrow> bool" where
  "flagged m A \<longleftrightarrow> (\<forall>a \<in> A. \<exists>v. rd (cells m) a = Some v \<and> (pool_is_alloc v \<longleftrightarrow> blocks m a \<noteq> None))"

definition covered :: "'i pool_mem \<Rightarrow> ptr set \<Rightarrow> bool" where
  "covered m A \<longleftrightarrow> (\<forall>a \<in> A. \<exists>b \<in> A. a \<in> blk m b)"

definition closed_blks :: "'i pool_mem \<Rightarrow> ptr set \<Rightarrow> bool" where
  "closed_blks m A \<longleftrightarrow> (\<forall>b \<in> A. blk m b \<subseteq> A \<and> (blocks m b \<noteq> None \<longrightarrow> b \<in> blk m b))"

definition disjoint_blks :: "'i pool_mem \<Rightarrow> ptr set \<Rightarrow> bool" where
  "disjoint_blks m A \<longleftrightarrow> (\<forall>b \<in> A. \<forall>b' \<in> A. b \<noteq> b' \<longrightarrow> blk m b \<inter> blk m b' = {})"

definition owned :: "'a ape_pool_scheme pool_mem \<Rightarrow> ptr list \<Rightarrow> bool" where
  "owned m as \<longleftrightarrow> flagged m (set as) \<and> covered m (set as) \<and> closed_blks m (set as)
     \<and> disjoint_blks m (set as)"

definition pool_inv :: "'a ape_pool_scheme pool_mem \<Rightarrow> ape_pool_list \<Rightarrow> ptr list \<Rightarrow> bool" where
  "pool_inv m l as \<longleftrightarrow> mem_ok m \<and> as \<noteq> [] \<and> chain pnext (cells m) (pl_head l) as
     \<and> pl_queue l = last as \<and> pl_current l \<in> set as \<and> 0 < pl_size l \<and> owned m as"

lemma blk_cong: "blocks m' = blocks m \<Longrightarrow> blk m' = blk m"
  by (auto simp: blk_def fun_eq_iff)

lemma owned_set: "set as = set bs \<Longrightarrow> owned m as = owned m bs"
  by (simp add: owned_def)

lemma pool_is_alloc_flags: "pflags v = pflags w \<Longrightarrow> pool_is_alloc v = pool_is_alloc w"
  by (simp add: pool_is_alloc_def)

lemma flagged_keeps:
  assumes "flagged m A" and "keeps pflags (cells m) (cells m')" and "blocks m' = blocks m"
  shows "flagged m' A"
  unfolding flagged_def
proof
  fix a assume "a \<in> A"
  then obtain v where v: "rd (cells m) a = Some v" "pool_is_alloc v \<longleftrightarrow> blocks m a \<noteq> None"
    using assms(1) unfolding flagged_def by blast
  then obtain w where "rd (cells m') a = Some w" "pflags w = pflags v"
    using keeps_rd_Some [OF assms(2)] by blast
  then show "\<exists>w. rd (cells m') a = Some w \<and> (pool_is_alloc w \<longleftrightarrow> blocks m' a \<noteq> None)"
    using v assms(3) pool_is_alloc_flags [of w v] by simp
qed

lemma owned_keeps:
  assumes "owned m as" and "keeps pflags (cells m) (cells m')" and "blocks m' = blocks m"
  shows "owned m' as"
  using assms flagged_keeps [OF _ assms(2,3)]
  by (simp add: owned_def covered_def closed_blks_def disjoint_blks_def blk_cong [OF assms(3)])

lemma mem_ok_keeps:
  "mem_ok m \<Longrightarrow> keeps g (cells m) h' \<Longrightarrow> mem_ok (m\<lparr>cells := h'\<rparr>)"
  by (auto simp: mem_ok_def dest: keeps_None)

lemma disjoint_blks_Un:
  assumes "disjoint_blks m A" and "disjoint_blks m B" and "closed_blks m A" and "closed_blks m B"
    and "A \<inter> B = {}"
  shows "disjoint_blks m (A \<union> B)"
  unfolding disjoint_blks_def
proof (intro ballI impI)
  fix b b' assume "b \<in> A \<union> B" "b' \<in> A \<union> B" "b \<noteq> b'"
  moreover have "blk m b \<subseteq> A" if "b \<in> A" for b using that assms(3) by (simp add: closed_blks_def)
  moreover have "blk m b \<subseteq> B" if "b \<in> B" for b using that assms(4) by (simp add: closed_blks_def)
  ultimately show "blk m b \<inter> blk m b' = {}"
    using assms(1,2,5) unfolding disjoint_blks_def by blast
qed

lemma owned_append:
  assumes "owned m as" and "owned m bs" and "set as \<inter> set bs = {}"
  shows "owned m (as @ bs)"
  unfolding owned_def set_append
proof (intro conjI)
  show "flagged m (set as \<union> set bs)" using assms by (auto simp: owned_def flagged_def)
  show "covered m (set as \<union> set bs)" using assms by (auto simp: owned_def covered_def)
  show "closed_blks m (set as \<union> set bs)" using assms by (auto simp: owned_def closed_blks_def)
  show "disjoint_blks m (set as \<union> set bs)"
    using assms disjoint_blks_Un by (auto simp: owned_def)
qed

lemma pool_inv_dist: "pool_inv m l as \<Longrightarrow> distinct as"
  by (auto simp: pool_inv_def dest: chain_distinct)

lemma owned_below: "owned m as \<Longrightarrow> mem_ok m \<Longrightarrow> a \<in> set as \<Longrightarrow> a < brk m"
  by (metis flagged_def leI mem_ok_def option.distinct(1) owned_def rd_Some_iff)

text \<open>Two memories that agree outside a set of slots.\<close>

definition same_outside :: "ptr set \<Rightarrow> 'i pool_mem \<Rightarrow> 'i pool_mem \<Rightarrow> bool" where
  "same_outside A m m' \<longleftrightarrow> (\<forall>a. a \<notin> A \<longrightarrow> cells m' a = cells m a \<and> blocks m' a = blocks m a)"

lemma same_outside_refl [simp]: "same_outside A m m"
  by (simp add: same_outside_def)

lemma same_outside_trans:
  "same_outside A m m' \<Longrightarrow> same_outside B m' m'' \<Longrightarrow> A \<subseteq> B \<Longrightarrow> same_outside B m m''"
  by (auto simp: same_outside_def)

section \<open>Allocating\<close>

lemma ape_new_pool_spec:
  assumes ok: "mem_ok m" and n: "0 < n" and sz: "sz' = (if sz = 0 then sizeof_ape_pool else sz)"
  shows "\<exists>m'. ape_new_pool junk sz n m = Some (brk m, m')
     \<and> (\<forall>j<n. \<exists>v. rd (cells m') (brk m + j * sz') = Some v \<and> new_slot (brk m) sz' n j v)
     \<and> (\<forall>a. a \<notin> set (block_addrs (brk m) sz' n) \<longrightarrow> cells m' a = cells m a)
     \<and> blocks m' = (blocks m)(brk m := Some (sz', n)) \<and> brk m' = brk m + sz' * n"
proof -
  have sz0: "0 < sz'" using sz by (simp add: sizeof_ape_pool_def)
  obtain m1 where m1: "pool_malloc junk sz' n m = (brk m, m1)" by (simp add: pool_malloc_def)
  have m1_cells: "cells m1 = (\<lambda>a. if a \<in> set (block_addrs (brk m) sz' n) then Some junk else cells m a)"
    and m1_blocks: "blocks m1 = (blocks m)(brk m := Some (sz', n))"
    and m1_brk: "brk m1 = brk m + sz' * n"
    using m1 by (auto simp: pool_malloc_def)
  have b0: "brk m \<noteq> NULL" using ok by (simp add: mem_ok_def)
  have alloc: "rd (cells m1) (brk m + j * sz') = Some junk" if "j < n" for j
    using that b0 by (auto simp: m1_cells rd_def block_addrs_nth)
  let ?h0 = "(cells m1)(brk m := Some (junk\<lparr>pprev := NULL\<rparr>))"
  have h0: "wr (cells m1) (brk m) (\<lambda>v. v\<lparr>pprev := NULL\<rparr>) = Some ?h0"
    using alloc [OF n] by simp
  have "\<exists>h'. new_pool_loop (brk m) sz' n 0 ?h0 = Some h'
     \<and> (\<forall>j. 0 \<le> j \<longrightarrow> j < n \<longrightarrow> (\<exists>v. rd h' (brk m + j * sz') = Some v \<and> new_slot (brk m) sz' n j v))
     \<and> (\<forall>a. (\<forall>j. 0 \<le> j \<longrightarrow> j < n \<longrightarrow> a \<noteq> brk m + j * sz') \<longrightarrow> h' a = ?h0 a)"
    by (rule new_pool_loop_spec) (use sz0 b0 alloc in auto)
  then obtain h' where h': "new_pool_loop (brk m) sz' n 0 ?h0 = Some h'"
    and slots: "\<forall>j<n. \<exists>v. rd h' (brk m + j * sz') = Some v \<and> new_slot (brk m) sz' n j v"
    and fr: "\<And>a. (\<forall>j<n. a \<noteq> brk m + j * sz') \<Longrightarrow> h' a = ?h0 a"
    by auto
  have "h' a = cells m a" if "a \<notin> set (block_addrs (brk m) sz' n)" for a
  proof -
    have "a \<noteq> brk m" using that n by (metis block_addrs_base)
    then show ?thesis using fr [of a] that by (auto simp: block_addrs_nth m1_cells)
  qed
  moreover have "ape_new_pool junk sz n m = Some (brk m, m1\<lparr>cells := h'\<rparr>)"
    unfolding ape_new_pool_def sz [symmetric] using m1 h0 h' by (simp add: Let_def)
  ultimately show ?thesis using slots m1_blocks m1_brk by simp
qed

text \<open>A new block as a list of its own.\<close>

lemma new_block:
  assumes ok: "mem_ok m" and n: "0 < n" and sz: "sz' = (if sz = 0 then sizeof_ape_pool else sz)"
  obtains m' where "ape_new_pool junk sz n m = Some (brk m, m')"
    and "mem_ok m'" and "dll pnext pprev (cells m') (brk m) (block_addrs (brk m) sz' n)"
    and "owned m' (block_addrs (brk m) sz' n)"
    and "\<forall>a \<in> set (block_addrs (brk m) sz' n). \<exists>v. rd (cells m') a = Some v \<and> pdata v = NULL"
    and "\<forall>a. a \<notin> set (block_addrs (brk m) sz' n) \<longrightarrow> cells m' a = cells m a"
    and "\<forall>a. a \<noteq> brk m \<longrightarrow> blocks m' a = blocks m a"
    and "blocks m' (brk m) = Some (sz', n)"
    and "brk m < brk m'"
proof -
  have sz0: "0 < sz'" using sz by (simp add: sizeof_ape_pool_def)
  have b0: "brk m \<noteq> NULL" using ok by (simp add: mem_ok_def)
  let ?as = "block_addrs (brk m) sz' n"
  obtain m' where m': "ape_new_pool junk sz n m = Some (brk m, m')"
    and slots: "\<And>j. j < n \<Longrightarrow> \<exists>v. rd (cells m') (brk m + j * sz') = Some v \<and> new_slot (brk m) sz' n j v"
    and fr: "\<forall>a. a \<notin> set ?as \<longrightarrow> cells m' a = cells m a"
    and bl: "blocks m' = (blocks m)(brk m := Some (sz', n))" and br: "brk m' = brk m + sz' * n"
    using ape_new_pool_spec [OF ok n sz] by blast
  have high: "cells m' a = None \<and> blocks m' a = None" if "brk m' \<le> a" for a
  proof -
    have "a \<notin> set ?as" using that br block_addrs_lt [OF _ sz0, of a "brk m" n] by auto
    moreover have "brk m < brk m'" using br sz0 n by simp
    ultimately show ?thesis using that ok fr bl by (auto simp: mem_ok_def)
  qed
  have ok': "mem_ok m'" using high br ok by (auto simp: mem_ok_def)
  have d: "dll pnext pprev (cells m') (brk m) ?as"
    using new_slots_dll [OF sz0 b0 slots, of 0] n by (simp add: dll_def block_addrs_def)
  have blk0: "blk m' (brk m) = set ?as" by (simp add: blk_def bl)
  have blkj: "blk m' a = {}" "blocks m' a = None" if "a \<in> set ?as" "a \<noteq> brk m" for a
    using that ok block_addrs_ge [OF that(1)] by (auto simp: blk_def bl mem_ok_def)
  have "\<exists>v. rd (cells m') a = Some v \<and> pdata v = NULL \<and> (pool_is_alloc v \<longleftrightarrow> blocks m' a \<noteq> None)"
    if a: "a \<in> set ?as" for a
  proof -
    obtain j where j: "j < n" "a = brk m + j * sz'" using a by (auto simp: block_addrs_nth)
    obtain v where v: "rd (cells m') a = Some v" "new_slot (brk m) sz' n j v"
      using slots j by blast
    have "blocks m' a \<noteq> None \<longleftrightarrow> j = 0" using blkj(2) [OF a] j sz0 bl by auto
    then show ?thesis using v by (auto simp: new_slot_def pool_is_alloc_def APE_POOL_ALLOC_def)
  qed
  note sl = this
  have "owned m' ?as"
    unfolding owned_def
  proof (intro conjI)
    show "flagged m' (set ?as)" using sl unfolding flagged_def by blast
    show "covered m' (set ?as)"
      using block_addrs_base [OF n] blk0 unfolding covered_def by blast
    show "closed_blks m' (set ?as)"
      using blk0 blkj block_addrs_base [OF n] unfolding closed_blks_def
      by (metis empty_subsetI order_refl)
    show "disjoint_blks m' (set ?as)" using blkj unfolding disjoint_blks_def by blast
  qed
  moreover have "\<forall>a \<in> set ?as. \<exists>v. rd (cells m') a = Some v \<and> pdata v = NULL" using sl by blast
  ultimately show ?thesis using that [OF m' ok' d] fr bl br sz0 n by simp
qed

lemma init_pool_list_inv:
  assumes "mem_ok m" and "0 < n"
  obtains l m' as where "ape_init_pool_list junk sz n m = Some (l, m')"
    and "pool_inv m' l as" and "length as = n" and "dll pnext pprev (cells m') (pl_head l) as"
    and "pl_current l = pl_head l"
    and "\<forall>a \<in> set as. \<exists>v. rd (cells m') a = Some v \<and> pdata v = NULL"
    and "pl_size l = (if sz = 0 then sizeof_ape_pool else sz)"
    and "\<forall>a \<in> set as. brk m \<le> a"
    and "same_outside (set as) m m'" and "brk m \<le> brk m'"
proof -
  let ?sz = "if sz = 0 then sizeof_ape_pool else sz"
  have idem: "(if ?sz = 0 then sizeof_ape_pool else ?sz) = ?sz" and pos: "0 < ?sz"
    by (auto simp: sizeof_ape_pool_def)
  obtain m' where m': "ape_new_pool junk ?sz n m = Some (brk m, m')"
    and ok: "mem_ok m'" and d: "dll pnext pprev (cells m') (brk m) (block_addrs (brk m) ?sz n)"
    and ow: "owned m' (block_addrs (brk m) ?sz n)"
    and nul: "\<forall>a \<in> set (block_addrs (brk m) ?sz n). \<exists>v. rd (cells m') a = Some v \<and> pdata v = NULL"
    and fr: "\<forall>a. a \<notin> set (block_addrs (brk m) ?sz n) \<longrightarrow> cells m' a = cells m a"
    and bl: "\<forall>a. a \<noteq> brk m \<longrightarrow> blocks m' a = blocks m a" and br: "brk m < brk m'"
    using new_block [OF assms, where sz = ?sz and sz' = ?sz and junk = junk] idem by metis
  let ?l = "\<lparr>pl_head = brk m, pl_queue = brk m + (n - 1) * ?sz, pl_current = brk m, pl_size = ?sz\<rparr>"
  have "ape_init_pool_list junk sz n m = Some (?l, m')"
    unfolding ape_init_pool_list_def Let_def m' by simp
  moreover have "pool_inv m' ?l (block_addrs (brk m) ?sz n)"
    using ok d ow assms(2) pos
    by (simp add: pool_inv_def dll_def block_addrs_last block_addrs_base del: set_map)
  moreover have "\<forall>a \<in> set (block_addrs (brk m) ?sz n). brk m \<le> a" using block_addrs_ge by blast
  moreover have "same_outside (set (block_addrs (brk m) ?sz n)) m m'"
    using fr bl block_addrs_base [OF assms(2)] unfolding same_outside_def by metis
  ultimately show ?thesis using that d nul br by simp
qed

section \<open>Every operation keeps the invariant\<close>

lemma pool_inv_slot:
  "pool_inv m l as \<Longrightarrow> a \<in> set as \<Longrightarrow> \<exists>v. rd (cells m) a = Some v"
  by (auto simp: pool_inv_def dest: lseg_alloc)

lemma owned_transfer:
  assumes o: "owned m as" and c: "\<forall>a \<in> set as. cells m' a = cells m a"
    and b: "\<forall>a \<in> set as. blocks m' a = blocks m a"
  shows "owned m' as"
proof -
  have blk: "blk m' a = blk m a" if "a \<in> set as" for a using b that by (simp add: blk_def)
  have "rd (cells m') a = rd (cells m) a" if "a \<in> set as" for a using c that by (simp add: rd_def)
  then have "flagged m' (set as)" using o b by (simp add: owned_def flagged_def)
  moreover have "covered m' (set as)" "closed_blks m' (set as)" "disjoint_blks m' (set as)"
    using o b blk by (simp_all add: owned_def covered_def closed_blks_def disjoint_blks_def)
  ultimately show ?thesis by (simp add: owned_def)
qed

text \<open>Rewriting a link leaves everything but the links.\<close>

lemma keeps_flags_link:
  "rd h a = Some v \<Longrightarrow> keeps pflags h (h(a := Some (v\<lparr>pnext := q\<rparr>)))"
  "rd h a = Some v \<Longrightarrow> keeps pflags h (h(a := Some (v\<lparr>pprev := q\<rparr>)))"
  "rd h a = Some v \<Longrightarrow> keeps pflags h (h(a := Some (v\<lparr>pdata := d\<rparr>)))"
  by (simp_all add: keeps_upd)

lemma pool_inv_relink:
  assumes inv: "pool_inv m l as" and k: "keeps pflags (cells m) h'"
    and ch: "chain pnext h' (pl_head l') bs" and s: "set bs = set as"
    and q: "pl_queue l' = last bs" and c: "pl_current l' \<in> set bs" and z: "pl_size l' = pl_size l"
  shows "pool_inv (m\<lparr>cells := h'\<rparr>) l' bs"
proof -
  have "owned (m\<lparr>cells := h'\<rparr>) as" by (rule owned_keeps) (use inv k in \<open>simp_all add: pool_inv_def\<close>)
  then have "owned (m\<lparr>cells := h'\<rparr>) bs" using s owned_set by blast
  moreover have "bs \<noteq> []" using c by auto
  ultimately show ?thesis using inv k ch q c z by (simp add: pool_inv_def mem_ok_keeps)
qed

lemma grow_pool_spec:
  assumes inv: "pool_inv m l as" and n: "0 < n"
  obtains p l' m' bs where "ape_grow_pool junk l n m = Some (p, l', m')"
    and "pool_inv m' l' (as @ p # bs)" and "length bs = n - 1"
    and "l' = l\<lparr>pl_queue := last (p # bs)\<rparr>"
    and "\<forall>a \<in> set (p # bs). \<exists>v. rd (cells m') a = Some v \<and> pdata v = NULL"
    and "\<forall>a \<in> set as. map_option pdata (cells m' a) = map_option pdata (cells m a)"
    and "backs pprev (cells m) NULL as \<longrightarrow> backs pprev (cells m') NULL (as @ p # bs)"
    and "same_outside (set (as @ p # bs)) m m'" and "\<forall>a \<in> set (p # bs). brk m \<le> a"
    and "brk m \<le> brk m'"
proof -
  have ok: "mem_ok m" and sz: "0 < pl_size l" and ow: "owned m as"
    and ch: "chain pnext (cells m) (pl_head l) as" and ne: "as \<noteq> []" and q: "pl_queue l = last as"
    and cur: "pl_current l \<in> set as"
    using inv by (auto simp: pool_inv_def)
  let ?nb = "block_addrs (brk m) (pl_size l) n"
  have sz': "pl_size l = (if pl_size l = 0 then sizeof_ape_pool else pl_size l)" using sz by simp
  obtain m1 where m1: "ape_new_pool junk (pl_size l) n m = Some (brk m, m1)"
    and ok1: "mem_ok m1" and d1: "dll pnext pprev (cells m1) (brk m) ?nb" and ow1: "owned m1 ?nb"
    and nul: "\<forall>a \<in> set ?nb. \<exists>v. rd (cells m1) a = Some v \<and> pdata v = NULL"
    and fr: "\<forall>a. a \<notin> set ?nb \<longrightarrow> cells m1 a = cells m a"
    and bl: "\<forall>a. a \<noteq> brk m \<longrightarrow> blocks m1 a = blocks m a" and br: "brk m < brk m1"
    using new_block [OF ok n sz', where junk = junk] by metis
  obtain bs where nb: "?nb = brk m # bs" using block_addrs_hd [OF n] by blast
  have below: "a < brk m" if "a \<in> set as" for a using owned_below [OF ow ok that] .
  have disj: "set as \<inter> set ?nb = {}" using below block_addrs_ge by fastforce
  have old: "cells m1 a = cells m a" if "a \<in> set as" for a using fr disj that by blast
  have ow_as: "owned m1 as"
    by (rule owned_transfer [OF ow]) (use old bl below in fastforce)+
  let ?q = "last as"
  have q_in: "?q \<in> set as" using ne by simp
  have "rd (cells m1) ?q = rd (cells m) ?q" using old [OF q_in] by (simp add: rd_def)
  then obtain w where w: "rd (cells m1) ?q = Some w" using pool_inv_slot [OF inv q_in] by auto
  obtain v where v: "rd (cells m1) (brk m) = Some v" using nul nb by auto
  let ?h1 = "(cells m1)(?q := Some (w\<lparr>pnext := brk m\<rparr>))"
  have qn: "?q \<noteq> brk m" using below [OF q_in] by simp
  then have v1: "rd ?h1 (brk m) = Some v" using v by simp
  let ?h2 = "?h1(brk m := Some (v\<lparr>pprev := ?q\<rparr>))"
  let ?l = "l\<lparr>pl_queue := brk m + (n - 1) * pl_size l\<rparr>"
  let ?m = "m1\<lparr>cells := ?h2\<rparr>"
  have run: "ape_grow_pool junk l n m = Some (brk m, ?l, ?m)"
    unfolding ape_grow_pool_def m1 using w v1 q by simp
  have k: "keeps pflags (cells m1) ?h2" "keeps pdata (cells m1) ?h2"
    by (rule keeps_trans [OF keeps_upd [OF w] keeps_upd [OF v1]], simp, simp)+
  have dist: "distinct as" using inv by (rule pool_inv_dist)
  have distn: "distinct ?nb" using d1 by (rule dll_distinct)
  have "lseg pnext (cells m1) (pl_head l) (butlast as @ [?q]) NULL"
    using ch ne old by (subst lseg_cong [where h' = "cells m"]) (auto simp: rd_def)
  then have "lseg pnext (cells m1) (pl_head l) (butlast as) ?q" by (simp add: lseg_snoc)
  then have seg1: "lseg pnext ?h1 (pl_head l) (butlast as @ [?q]) (brk m)"
    using last_notin_butlast [OF dist ne] w by (auto simp: lseg_snoc)
  have "lseg pnext ?h2 (pl_head l) as (brk m)"
    using seg1 ne below by (metis append_butlast_last_id less_irrefl lseg_upd_notin)
  moreover have "lseg pnext ?h1 (brk m) ?nb NULL"
    using d1 disj q_in by (metis disjoint_iff dll_def lseg_upd_notin)
  then have "lseg pnext ?h2 (brk m) ?nb NULL"
    by (subst lseg_upd_same [OF v1]) simp_all
  ultimately have ch2: "chain pnext ?h2 (pl_head l) (as @ ?nb)" by (auto simp: lseg_append)
  have ow2: "owned ?m (as @ ?nb)"
    by (rule owned_keeps [OF owned_append [OF ow_as ow1 disj]]) (use k in simp_all)
  have lq: "last ?nb = brk m + (n - 1) * pl_size l" using n by (rule block_addrs_last)
  have inv2: "pool_inv ?m ?l (as @ ?nb)"
    using ok1 k(1) ch2 ow2 cur sz lq n ne by (simp add: pool_inv_def mem_ok_keeps)
  have nul2: "\<forall>a \<in> set ?nb. \<exists>v. rd ?h2 a = Some v \<and> pdata v = NULL"
    using nul keeps_rd_Some [OF k(2)] by metis
  have bk: "backs pprev ?h2 NULL (as @ ?nb)" if "backs pprev (cells m) NULL as"
  proof -
    have "backs pprev (cells m1) NULL as"
      using that old by (subst backs_cong [where h' = "cells m"]) (auto simp: rd_def)
    then have "backs pprev ?h1 NULL as"
      by (subst backs_cong [where h' = "cells m1"]) (use w in auto)
    then have a: "backs pprev ?h2 NULL as" using below by (metis backs_upd_notin less_irrefl)
    have "backs pprev (cells m1) (brk m) bs" using d1 nb by (simp add: dll_def)
    moreover have "?q \<notin> set bs" "brk m \<notin> set bs" using disj q_in distn nb by auto
    ultimately have "backs pprev ?h2 (brk m) bs" by simp
    moreover have "brk m \<noteq> NULL" using v by auto
    ultimately have "backs pprev ?h2 ?q ?nb" using v1 nb by simp
    with a show ?thesis using ne by (simp add: backs_append last_or_def)
  qed
  have k2: "\<forall>a \<in> set as. map_option pdata (cells ?m a) = map_option pdata (cells m a)"
    using k(2) old by (simp add: keeps_def del: fun_upd_apply)
  have "length (brk m # bs) = n" by (metis nb block_addrs_length)
  then have len: "length bs = n - 1" by simp
  have leq: "?l = l\<lparr>pl_queue := last (brk m # bs)\<rparr>" using lq nb by simp
  have bk2: "backs pprev (cells m) NULL as \<longrightarrow> backs pprev (cells ?m) NULL (as @ brk m # bs)"
    using bk nb by simp
  have nul3: "\<forall>a \<in> set (brk m # bs). \<exists>v. rd (cells ?m) a = Some v \<and> pdata v = NULL"
    using nul2 unfolding nb by simp
  have so: "same_outside (set (as @ brk m # bs)) m ?m"
    using fr bl q_in unfolding same_outside_def nb by auto
  have ge: "\<forall>a \<in> set (brk m # bs). brk m \<le> a" using block_addrs_ge nb by metis
  show ?thesis
    by (rule that [OF run, of bs, OF _ len leq nul3 k2 bk2 so ge]) (use inv2 nb br in simp_all)
qed

lemma head_to_queue_spec:
  assumes inv: "pool_inv m l (a # b # as)"
  obtains l' m' where "ape_pool_head_to_queue l m = Some (b, l', m')"
    and "pool_inv m' l' (b # as @ [a])"
    and "l' = l\<lparr>pl_head := b, pl_queue := a\<rparr>"
    and "blocks m' = blocks m" and "keeps pdata (cells m) (cells m')" and "brk m' = brk m"
    and "same_outside (set (a # b # as)) m m'"
proof -
  let ?q = "last (b # as)"
  have ch: "chain pnext (cells m) (pl_head l) (a # b # as)" and q: "pl_queue l = ?q"
    and cur: "pl_current l \<in> set (a # b # as)"
    using inv by (auto simp: pool_inv_def)
  have dist: "distinct (a # b # as)" using inv by (rule pool_inv_dist)
  obtain v where v: "rd (cells m) a = Some v" and hd: "pl_head l = a" and nv: "pnext v = b"
    and ch2: "chain pnext (cells m) b (b # as)"
    using ch by (auto split: option.splits)
  have q_in: "?q \<in> set (b # as)" by (rule last_in_set) simp
  then have qa: "?q \<noteq> a" using dist by auto
  obtain w where w: "rd (cells m) ?q = Some w" using pool_inv_slot [OF inv] q_in by auto
  let ?h1 = "(cells m)(?q := Some (w\<lparr>pnext := a\<rparr>))"
  have v1: "rd ?h1 a = Some v" using v qa by simp
  let ?h2 = "?h1(a := Some (v\<lparr>pnext := NULL\<rparr>))"
  let ?l = "l\<lparr>pl_head := b, pl_queue := a\<rparr>"
  have run: "ape_pool_head_to_queue l m = Some (b, ?l, m\<lparr>cells := ?h2\<rparr>)"
    unfolding ape_pool_head_to_queue_def using hd v q wr_Some [OF w] wr_Some [OF v1] nv
    by (simp del: last.simps)
  have k: "keeps g (cells m) ?h2" if "\<And>x q. g (x\<lparr>pnext := q\<rparr>) = g x" for g :: "'a ape_pool_scheme \<Rightarrow> 'b"
    by (rule keeps_trans [OF keeps_upd [OF w] keeps_upd [OF v1]]) (simp_all add: that)
  have bq: "butlast (b # as) @ [?q] = b # as" by (rule append_butlast_last_id) simp
  have "lseg pnext (cells m) b (butlast (b # as) @ [?q]) NULL" using ch2 by (simp only: bq)
  then have "lseg pnext (cells m) b (butlast (b # as)) ?q" by (simp only: lseg_snoc)
  then have "lseg pnext ?h1 b (butlast (b # as) @ [?q]) a"
    by (rule lseg_set_link [OF _ w last_notin_butlast]) (use dist in simp_all)
  then have "lseg pnext ?h1 b (b # as) a" by (simp only: bq)
  then have "lseg pnext ?h2 b ((b # as) @ [a]) NULL"
    by (rule lseg_set_link [OF _ v1]) (use dist in simp_all)
  then have ch': "chain pnext ?h2 (pl_head ?l) (b # as @ [a])" by simp
  have inv': "pool_inv (m\<lparr>cells := ?h2\<rparr>) ?l (b # as @ [a])"
    by (rule pool_inv_relink [OF inv k ch']) (use cur in auto)
  have "keeps pdata (cells m) ?h2" by (rule k) simp
  moreover have "same_outside (set (a # b # as)) m (m\<lparr>cells := ?h2\<rparr>)"
    using q_in unfolding same_outside_def by (auto simp del: last.simps)
  ultimately show ?thesis by (intro that [OF run inv']) (simp_all del: last.simps)
qed

text \<open>
  On a list of one slot \<open>ape_pool_head_to_queue\<close> loses the list: the head becomes NULL.
\<close>

lemma head_to_queue_single:
  assumes inv: "pool_inv m l [a]"
  shows "\<exists>l' m'. ape_pool_head_to_queue l m = Some (NULL, l', m') \<and> pl_head l' = NULL"
proof -
  obtain v where v: "rd (cells m) a = Some v" and hd: "pl_head l = a" and nv: "pnext v = NULL"
    and q: "pl_queue l = a"
    using inv by (auto simp: pool_inv_def split: option.splits)
  have "a \<noteq> NULL" using v by auto
  then show ?thesis
    unfolding ape_pool_head_to_queue_def using hd v q nv by simp
qed

lemma head_to_current_same:
  "pl_head l = pl_current l \<Longrightarrow> ape_pool_head_to_current l m = Some (pl_head l, l, m)"
  by (simp add: ape_pool_head_to_current_def)

lemma head_to_current_spec:
  assumes inv: "pool_inv m l (a # xs @ c # ys)" and c: "pl_current l = c" and ac: "a \<noteq> c"
  obtains l' m' where "ape_pool_head_to_current l m = Some (hd (xs @ [c]), l', m')"
    and "pool_inv m' l' (xs @ c # a # ys)"
    and "pl_current l' = a" and "pl_head l' = hd (xs @ [c])"
    and "blocks m' = blocks m" and "keeps pdata (cells m) (cells m')" and "brk m' = brk m"
    and "same_outside (set (a # xs @ c # ys)) m m'"
proof -
  have ch: "chain pnext (cells m) (pl_head l) (a # xs @ c # ys)"
    and q: "pl_queue l = last (a # xs @ c # ys)"
    using inv by (auto simp: pool_inv_def)
  have dist: "distinct (a # xs @ c # ys)" using inv by (rule pool_inv_dist)
  obtain v where v: "rd (cells m) a = Some v" and hd: "pl_head l = a"
    and tl: "chain pnext (cells m) (pnext v) (xs @ c # ys)"
    using ch by (auto split: option.splits)
  obtain w where w: "rd (cells m) c = Some w" and sx: "lseg pnext (cells m) (pnext v) xs c"
    and sy: "chain pnext (cells m) (pnext w) ys"
    using tl by (auto simp: lseg_split)
  have nv: "pnext v = hd (xs @ [c])" using lseg_start [OF sx] by (cases xs) auto
  let ?h1 = "(cells m)(a := Some (v\<lparr>pnext := pnext w\<rparr>))"
  have w1: "rd ?h1 c = Some w" using w ac by simp
  let ?h2 = "?h1(c := Some (w\<lparr>pnext := a\<rparr>))"
  let ?l1 = "l\<lparr>pl_head := pnext v, pl_current := a\<rparr>"
  let ?l2 = "if pnext w = NULL then ?l1\<lparr>pl_queue := a\<rparr> else ?l1"
  have run: "ape_pool_head_to_current l m = Some (hd (xs @ [c]), ?l2, m\<lparr>cells := ?h2\<rparr>)"
    unfolding ape_pool_head_to_current_def
    using hd c ac v w wr_Some [OF v] wr_Some [OF w1] nv by (simp add: Let_def)
  have k: "keeps g (cells m) ?h2" if "\<And>x q. g (x\<lparr>pnext := q\<rparr>) = g x" for g :: "'a ape_pool_scheme \<Rightarrow> 'b"
    by (rule keeps_trans [OF keeps_upd [OF v] keeps_upd [OF w1]]) (simp_all add: that)
  have a0: "a \<noteq> NULL" "c \<noteq> NULL" using v w by auto
  have "lseg pnext ?h2 (pnext v) xs c" and "chain pnext ?h2 (pnext w) ys"
    using sx sy dist by auto
  moreover have "rd ?h2 c = Some (w\<lparr>pnext := a\<rparr>)" "rd ?h2 a = Some (v\<lparr>pnext := pnext w\<rparr>)"
    using a0 ac by auto
  ultimately have ch': "chain pnext ?h2 (pl_head ?l2) (xs @ c # a # ys)"
    by (auto simp: lseg_split simp del: fun_upd_apply)
  have ysn: "pnext w = NULL \<longleftrightarrow> ys = []" using sy lseg_start [OF sy] lseg_NULL_notin [OF sy]
    by (cases ys) auto
  have inv': "pool_inv (m\<lparr>cells := ?h2\<rparr>) ?l2 (xs @ c # a # ys)"
    by (rule pool_inv_relink [OF inv k ch']) (use q ysn in auto)
  have "same_outside (set (a # xs @ c # ys)) m (m\<lparr>cells := ?h2\<rparr>)"
    unfolding same_outside_def by auto
  then show ?thesis by (intro that [OF run inv']) (simp_all add: k nv)
qed

lemma push_spec:
  assumes inv: "pool_inv m l as" and cur: "as = xs @ c # ys" "pl_current l = c"
  obtains l' m' bs where "ape_pool_push junk l d m = Some (l', m')"
    and "pool_inv m' l' (as @ bs)" and "bs \<noteq> [] \<longleftrightarrow> ys = []" and "pl_head l' = pl_head l"
    and "pl_current l' = hd (ys @ bs)"
    and "\<exists>v. rd (cells m') c = Some v \<and> pdata v = d"
    and "\<forall>a \<in> set as - {c}. map_option pdata (cells m' a) = map_option pdata (cells m a)"
    and "\<forall>a \<in> set bs. \<exists>v. rd (cells m') a = Some v \<and> pdata v = NULL"
    and "backs pprev (cells m) NULL as \<longrightarrow> backs pprev (cells m') NULL (as @ bs)"
    and "same_outside (set (as @ bs)) m m'" and "\<forall>a \<in> set bs. brk m \<le> a" and "brk m \<le> brk m'"
proof -
  have ch: "chain pnext (cells m) (pl_head l) (xs @ c # ys)" using inv cur by (simp add: pool_inv_def)
  then obtain v where v: "rd (cells m) c = Some v" and sy: "chain pnext (cells m) (pnext v) ys"
    by (auto simp: lseg_split)
  have ysn: "pnext v = NULL \<longleftrightarrow> ys = []" using sy lseg_start [OF sy] lseg_NULL_notin [OF sy]
    by (cases ys) auto
  obtain l1 m1 bs where grow: "(if pnext v = NULL
        then do { (pool, l1, m1) \<leftarrow> ape_grow_pool junk l 8 m; Some (l1, m1) }
        else Some (l, m)) = Some (l1, m1)"
    and inv1: "pool_inv m1 l1 (as @ bs)" and bs: "bs \<noteq> [] \<longleftrightarrow> ys = []"
    and l1: "pl_head l1 = pl_head l" "pl_current l1 = c"
    and nul: "\<forall>a \<in> set bs. \<exists>v. rd (cells m1) a = Some v \<and> pdata v = NULL"
    and k1: "\<forall>a \<in> set as. map_option pdata (cells m1 a) = map_option pdata (cells m a)"
    and bk1: "backs pprev (cells m) NULL as \<longrightarrow> backs pprev (cells m1) NULL (as @ bs)"
    and so1: "same_outside (set (as @ bs)) m m1" and ge: "\<forall>a \<in> set bs. brk m \<le> a"
    and br1: "brk m \<le> brk m1"
  proof (cases "pnext v = NULL")
    case True
    obtain p l' m' cs where g: "ape_grow_pool junk l 8 m = Some (p, l', m')"
      and i: "pool_inv m' l' (as @ p # cs)" and l': "l' = l\<lparr>pl_queue := last (p # cs)\<rparr>"
      and nl: "\<forall>a \<in> set (p # cs). \<exists>v. rd (cells m') a = Some v \<and> pdata v = NULL"
      and kk: "\<forall>a \<in> set as. map_option pdata (cells m' a) = map_option pdata (cells m a)"
      and bb: "backs pprev (cells m) NULL as \<longrightarrow> backs pprev (cells m') NULL (as @ p # cs)"
      and so: "same_outside (set (as @ p # cs)) m m'" and gg: "\<forall>a \<in> set (p # cs). brk m \<le> a"
      and bb': "brk m \<le> brk m'"
      by (rule grow_pool_spec [OF inv, where n = 8 and junk = junk])
        (rule zero_less_numeral, rule that)
    then show ?thesis using that [of l' m' "p # cs"] True ysn g i l' nl bb kk so gg bb' cur by simp
  next
    case False
    then show ?thesis using that [of l m "[]"] ysn inv cur by simp
  qed
  have c_in: "c \<in> set as" using cur by simp
  obtain v1 where v1: "rd (cells m1) c = Some v1" using pool_inv_slot [OF inv1, of c] c_in by auto
  let ?h = "(cells m1)(c := Some (v1\<lparr>pdata := d\<rparr>))"
  have hc: "rd ?h c = Some (v1\<lparr>pdata := d\<rparr>)" using v1 by auto
  have ch1: "chain pnext (cells m1) (pl_head l1) (xs @ c # ys @ bs)"
    using inv1 cur by (simp add: pool_inv_def)
  then have "chain pnext (cells m1) (pnext v1) (ys @ bs)" using v1 by (rule lseg_at)
  moreover have "ys @ bs \<noteq> []" using bs by auto
  ultimately have nx: "pnext v1 = hd (ys @ bs)" by (cases "ys @ bs") auto
  have ch': "chain pnext ?h (pl_head l1) (as @ bs)"
    using ch1 cur by (subst lseg_upd_same [OF v1]) simp_all
  let ?l = "l1\<lparr>pl_current := pnext v1\<rparr>"
  have run: "ape_pool_push junk l d m = Some (?l, m1\<lparr>cells := ?h\<rparr>)"
    unfolding ape_pool_push_def using cur v grow l1 wr_Some [OF v1] hc by simp
  have "ys @ bs \<noteq> []" using bs by auto
  then have cin: "pnext v1 \<in> set (as @ bs)" using hd_in_set [of "ys @ bs"] nx cur by auto
  have inv': "pool_inv (m1\<lparr>cells := ?h\<rparr>) ?l (as @ bs)"
    by (rule pool_inv_relink [OF inv1]) (use ch' cin inv1 keeps_flags_link(3) [OF v1] in \<open>auto simp: pool_inv_def\<close>)
  have dist: "distinct (as @ bs)" using inv1 by (rule pool_inv_dist)
  have bk: "backs pprev ?h NULL (as @ bs)" if "backs pprev (cells m) NULL as"
    using bk1 that by (subst backs_cong [where h' = "cells m1"]) (use v1 in auto)
  have nl: "\<forall>a \<in> set bs. \<exists>v. rd ?h a = Some v \<and> pdata v = NULL"
    using nul dist c_in by auto
  have so: "same_outside (set (as @ bs)) m (m1\<lparr>cells := ?h\<rparr>)"
    using so1 c_in unfolding same_outside_def by auto
  show ?thesis
    by (rule that [OF run, of bs]) (use inv' bs l1 nx hc k1 nl bk so ge br1 in auto)
qed

section \<open>Destroying a list\<close>

text \<open>The cleaner run on each slot of a list, in list order.\<close>

fun clean_all ::
  "('a ape_pool_scheme, 's) cleaner \<Rightarrow> 'a ape_pool_scheme heap \<Rightarrow> ptr list \<Rightarrow> 's \<Rightarrow> 's option" where
  "clean_all cleaner h [] s = Some s"
| "clean_all cleaner h (a # as) s = do {
     v \<leftarrow> rd h a;
     s1 \<leftarrow> run_cleaner cleaner v s;
     clean_all cleaner h as s1 }"

lemma clean_all_cong:
  "(\<And>a. a \<in> set as \<Longrightarrow> rd h' a = rd h a) \<Longrightarrow> clean_all cleaner h' as s = clean_all cleaner h as s"
  by (induction as arbitrary: s) (auto intro!: Option.bind_cong)

text \<open>
  The list of first slots the first loop builds: \<open>ts\<close>, last met first, ends in
  \<open>fPool\<close>, the first one met, whose link is where the walk goes on.
\<close>

definition collected :: "'a ape_pool_scheme heap \<Rightarrow> ptr list \<Rightarrow> ptr \<Rightarrow> ptr \<Rightarrow> bool" where
  "collected h ts tPool fPool \<longleftrightarrow>
     (if ts = [] then tPool = NULL \<and> fPool = NULL
      else fPool = last ts \<and> fPool \<noteq> NULL \<and> tPool \<noteq> NULL \<and> lseg pnext h tPool (butlast ts) fPool
         \<and> (\<exists>v. rd h fPool = Some v))"

definition allocs :: "'a ape_pool_scheme heap \<Rightarrow> ptr list \<Rightarrow> ptr list" where
  "allocs h as = filter (\<lambda>a. case rd h a of None \<Rightarrow> False | Some v \<Rightarrow> pool_is_alloc v) as"

lemma allocs_keeps: "keeps pflags h h' \<Longrightarrow> allocs h' as = allocs h as"
  unfolding allocs_def
  by (rule filter_cong) (auto dest: keeps_rd_Some simp: pool_is_alloc_def keeps_rd
      split: option.splits, (metis keeps_rd map_option_eq_Some option.distinct(1) option.inject)+)

lemma allocs_Cons: "rd h a = Some v \<Longrightarrow>
    allocs h (a # as) = (if pool_is_alloc v then a # allocs h as else allocs h as)"
  by (simp add: allocs_def)

lemma destroy_collect_spec:
  assumes "chain pnext h pool as" and "collected h ts tPool fPool" and "distinct (ts @ as)"
    and "clean_all cleaner h as s = Some s'"
  shows "\<exists>h' tPool' fPool'.
      destroy_collect cleaner pool tPool fPool h s = Some (h', tPool', fPool', s')
    \<and> collected h' (rev (allocs h as) @ ts) tPool' fPool' \<and> keeps pflags h h'
    \<and> (\<forall>b. b \<notin> set ts \<union> set as \<longrightarrow> h' b = h b)"
  using assms
proof (induction as arbitrary: h ts tPool fPool pool s)
  case Nil
  then show ?case by (simp add: destroy_collect.simps [of cleaner NULL] allocs_def)
next
  case (Cons a as)
  then obtain v where a: "pool = a" "a \<noteq> NULL" and v: "rd h a = Some v"
    and tl: "chain pnext h (pnext v) as"
    by (auto split: option.splits)
  obtain s1 where s1: "run_cleaner cleaner v s = Some s1" and s': "clean_all cleaner h as s1 = Some s'"
    using Cons.prems(4) v by (auto simp: bind_eq_Some_conv)
  have dist: "distinct (ts @ a # as)" by (rule Cons.prems(3))
  have al: "allocs h (a # as) = (if pool_is_alloc v then a # allocs h as else allocs h as)"
    using v by (rule allocs_Cons)
  show ?case
  proof (cases "pool_is_alloc v")
    case False
    have "destroy_collect cleaner pool tPool fPool h s = destroy_collect cleaner (pnext v) tPool fPool h s1"
      using a v s1 False by (subst destroy_collect.simps) simp
    then show ?thesis using Cons.IH [OF tl Cons.prems(2) _ s'] dist False al by auto
  next
    case True
    show ?thesis
    proof (cases "ts = []")
      case ts: True
      then have tf: "tPool = NULL" "fPool = NULL" using Cons.prems(2) by (auto simp: collected_def)
      have "destroy_collect cleaner pool tPool fPool h s = destroy_collect cleaner (pnext v) a a h s1"
        using a v s1 True tf by (subst destroy_collect.simps) simp
      moreover have "collected h [a] a a" using a v by (simp add: collected_def)
      ultimately show ?thesis using Cons.IH [OF tl _ _ s', of "[a]" a a] dist True al ts by simp
    next
      case ts: False
      let ?f = "last ts"
      have f: "fPool = ?f" "?f \<noteq> NULL" "tPool \<noteq> NULL" and sg: "lseg pnext h tPool (butlast ts) ?f"
        using Cons.prems(2) ts by (auto simp: collected_def)
      obtain w where w: "rd h ?f = Some w" using Cons.prems(2) ts by (auto simp: collected_def)
      have fin: "?f \<in> set ts" using ts by simp
      have fa: "?f \<noteq> a" "a \<notin> set ts" "?f \<notin> set as" "a \<notin> set as" using dist fin by auto
      let ?h1 = "h(?f := Some (w\<lparr>pnext := pnext v\<rparr>))"
      have v1: "rd ?h1 a = Some v" using v fa by simp
      let ?h2 = "?h1(a := Some (v\<lparr>pnext := tPool\<rparr>))"
      have f2: "rd ?h2 ?f = Some (w\<lparr>pnext := pnext v\<rparr>)" using fa f by simp
      have step: "destroy_collect cleaner pool tPool fPool h s
          = destroy_collect cleaner (pnext v) a ?f ?h2 s1"
        using a v s1 True f wr_Some [OF w] wr_Some [OF v1] f2
        by (subst destroy_collect.simps) (simp del: fun_upd_apply rd_upd)
      have k: "keeps pflags h ?h2"
        by (rule keeps_trans [OF keeps_upd [OF w] keeps_upd [OF v1]]) simp_all
      have tl2: "chain pnext ?h2 (pnext v) as" using tl fa by simp
      have "a \<notin> set (butlast ts)" using fa(2) by (meson in_set_butlastD)
      then have "lseg pnext ?h2 tPool (butlast ts) ?f"
        using sg last_notin_butlast [of ts] dist ts by simp
      then have co: "collected ?h2 (a # ts) a ?f"
        using ts a f fa f2 v1 by (simp add: collected_def del: fun_upd_apply)
      have cl: "clean_all cleaner ?h2 as s1 = Some s'"
        using s' fa by (subst clean_all_cong [where h = h]) auto
      have "distinct ((a # ts) @ as)" using dist by auto
      from Cons.IH [OF tl2 co this cl] obtain h' t' f' where
        "destroy_collect cleaner (pnext v) a ?f ?h2 s1 = Some (h', t', f', s')"
        and "collected h' (rev (allocs ?h2 as) @ a # ts) t' f'" and "keeps pflags ?h2 h'"
        and "\<forall>b. b \<notin> set (a # ts) \<union> set as \<longrightarrow> h' b = ?h2 b"
        by blast
      then show ?thesis using step True al allocs_keeps [OF k] keeps_trans [OF k] fin by auto
    qed
  qed
qed

lemma destroy_free_spec:
  assumes "chain pnext (cells m) p ts" and "\<forall>b \<in> set ts. b \<in> blk m b"
    and "\<forall>b \<in> set ts. \<exists>v. rd (cells m) b = Some v \<and> pool_is_alloc v"
    and "\<forall>b \<in> set ts. \<forall>b' \<in> set ts. b \<noteq> b' \<longrightarrow> blk m b \<inter> blk m b' = {}"
  shows "destroy_free p m = Some (m\<lparr>cells := (\<lambda>a. if a \<in> (\<Union>b \<in> set ts. blk m b) then None else cells m a),
      blocks := (\<lambda>b. if b \<in> set ts then None else blocks m b)\<rparr>)"
  using assms
proof (induction ts arbitrary: p m)
  case Nil
  then show ?case by (simp add: destroy_free.simps [of NULL m])
next
  case (Cons b ts)
  have dist: "distinct (b # ts)" using Cons.prems(1) by (rule chain_distinct)
  obtain v where v: "rd (cells m) b = Some v" "pool_is_alloc v" and p: "p = b" "b \<noteq> NULL"
    and tl: "chain pnext (cells m) (pnext v) ts"
    using Cons.prems(1,3) by (auto split: option.splits)
  have "b \<in> blk m b" using Cons.prems(2) by simp
  then obtain sz n where bl: "blocks m b = Some (sz, n)" and bk: "blk m b = set (block_addrs b sz n)"
    by (auto simp: blk_def split: option.splits)
  let ?m1 = "m\<lparr>cells := (\<lambda>a. if a \<in> blk m b then None else cells m a), blocks := (blocks m)(b := None)\<rparr>"
  have fr: "pool_free m b = Some ?m1" using bl bk by (simp add: pool_free_def)
  have other: "blk ?m1 b' = blk m b'" "b' \<notin> blk m b" "b' \<in> blk m b'" if "b' \<in> set ts" for b'
  proof -
    have ne: "b' \<noteq> b" using that dist by auto
    show "blk ?m1 b' = blk m b'" using ne by (simp add: blk_def)
    show "b' \<in> blk m b'" using that Cons.prems(2) by simp
    moreover have "blk m b \<inter> blk m b' = {}" using that Cons.prems(4) ne by (metis list.set_intros)
    ultimately show "b' \<notin> blk m b" by blast
  qed
  have rd1: "rd (cells ?m1) b' = rd (cells m) b'" if "b' \<in> set ts" for b'
    using other(2) [OF that] by (simp add: rd_def)
  have "chain pnext (cells ?m1) (pnext v) ts"
    using tl by (subst lseg_cong [where h' = "cells m"]) (use rd1 in auto)
  moreover have "\<forall>b' \<in> set ts. b' \<in> blk ?m1 b'" using other by simp
  moreover have "\<forall>b' \<in> set ts. \<exists>v. rd (cells ?m1) b' = Some v \<and> pool_is_alloc v"
    using rd1 Cons.prems(3) by simp
  moreover have "\<forall>b1 \<in> set ts. \<forall>b2 \<in> set ts. b1 \<noteq> b2 \<longrightarrow> blk ?m1 b1 \<inter> blk ?m1 b2 = {}"
  proof (intro ballI impI)
    fix b1 b2 assume "b1 \<in> set ts" "b2 \<in> set ts" "b1 \<noteq> b2"
    then show "blk ?m1 b1 \<inter> blk ?m1 b2 = {}" using Cons.prems(4) by (simp only: other(1)) simp
  qed
  ultimately have IH: "destroy_free (pnext v) ?m1 =
      Some (?m1\<lparr>cells := (\<lambda>a. if a \<in> (\<Union>b \<in> set ts. blk ?m1 b) then None else cells ?m1 a),
      blocks := (\<lambda>b. if b \<in> set ts then None else blocks ?m1 b)\<rparr>)"
    by (rule Cons.IH)
  have un: "(\<Union>b \<in> set ts. blk ?m1 b) = (\<Union>b \<in> set ts. blk m b)"
    using other(1) by (intro SUP_cong) auto
  have "destroy_free p m = destroy_free (pnext v) ?m1"
    using p v fr by (subst destroy_free.simps) simp
  then show ?case unfolding IH un by (auto simp: fun_eq_iff intro!: pool_mem.equality)
qed

text \<open>The whole operation on a list that satisfies the invariant.\<close>

lemma destroy_pool_spec:
  assumes inv: "pool_inv m l as" and cl: "clean_all cleaner (cells m) as s = Some s'"
  shows "\<exists>m'. ape_destroy_pool_with_cleaner (pl_head l) cleaner s m = Some (s', m')
    \<and> (\<forall>a. blocks m' a = (if a \<in> set as then None else blocks m a))
    \<and> (\<forall>a. cells m' a = (if a \<in> set as then None else cells m a))"
proof -
  have ow: "owned m as" and ch: "chain pnext (cells m) (pl_head l) as" and ne: "as \<noteq> []"
    using inv by (auto simp: pool_inv_def)
  define ts where "ts = rev (allocs (cells m) as)"
  have dist: "distinct as" using inv by (rule pool_inv_dist)
  obtain h' t' f' where col: "destroy_collect cleaner (pl_head l) NULL NULL (cells m) s = Some (h', t', f', s')"
    and co: "collected h' ts t' f'" and k: "keeps pflags (cells m) h'"
    and frame: "\<forall>b. b \<notin> set as \<longrightarrow> h' b = cells m b"
    using destroy_collect_spec [OF ch _ _ cl, of "[]" NULL NULL] dist
    by (auto simp: collected_def ts_def)
  have sub: "set ts \<subseteq> set as" by (auto simp: ts_def allocs_def)
  have base: "a \<in> set ts \<longleftrightarrow> blocks m a \<noteq> None" if "a \<in> set as" for a
    using ow that unfolding owned_def flagged_def allocs_def ts_def by force
  have un: "(\<Union>b \<in> set ts. blk m b) = set as"
  proof
    show "(\<Union>b \<in> set ts. blk m b) \<subseteq> set as"
      using ow sub by (auto simp: owned_def closed_blks_def)
    show "set as \<subseteq> (\<Union>b \<in> set ts. blk m b)"
    proof
      fix a assume "a \<in> set as"
      then obtain b where b: "b \<in> set as" "a \<in> blk m b" using ow by (auto simp: owned_def covered_def)
      then have "blocks m b \<noteq> None" by (auto simp: blk_def split: option.splits)
      then show "a \<in> (\<Union>b \<in> set ts. blk m b)" using b base by blast
    qed
  qed
  then have tne: "ts \<noteq> []" using ne by auto
  then have f: "f' = last ts" "f' \<noteq> NULL" and sg: "lseg pnext h' t' (butlast ts) f'"
    using co by (auto simp: collected_def)
  obtain w where w: "rd h' f' = Some w" using co tne by (auto simp: collected_def)
  let ?h = "h'(f' := Some (w\<lparr>pnext := NULL\<rparr>))"
  let ?m = "m\<lparr>cells := ?h\<rparr>"
  have dts: "distinct ts" using dist by (simp add: ts_def allocs_def)
  have "chain pnext ?h t' (butlast ts @ [f'])"
    by (rule lseg_set_link [OF sg w]) (use last_notin_butlast [OF dts tne] f in simp_all)
  then have ch': "chain pnext (cells ?m) t' ts"
    using f tne append_butlast_last_id [OF tne] by simp
  have kk: "keeps pflags (cells m) ?h" by (rule keeps_trans [OF k keeps_upd [OF w]]) simp
  have blkm: "blk ?m = blk m" by (rule blk_cong) simp
  have b_own: "\<forall>b \<in> set ts. b \<in> blk ?m b"
    unfolding blkm using ow sub base unfolding owned_def closed_blks_def by blast
  have flg: "flagged ?m (set as)"
    by (rule flagged_keeps [of m]) (use ow kk in \<open>simp_all add: owned_def\<close>)
  have fl: "\<forall>b \<in> set ts. \<exists>v. rd (cells ?m) b = Some v \<and> pool_is_alloc v"
  proof
    fix b assume b: "b \<in> set ts"
    then have "b \<in> set as" using sub by blast
    then have "blocks ?m b \<noteq> None" using base b by simp
    then show "\<exists>v. rd (cells ?m) b = Some v \<and> pool_is_alloc v"
      using flg \<open>b \<in> set as\<close> unfolding flagged_def by blast
  qed
  have dj: "\<forall>b \<in> set ts. \<forall>b' \<in> set ts. b \<noteq> b' \<longrightarrow> blk ?m b \<inter> blk ?m b' = {}"
    unfolding blkm using ow sub unfolding owned_def disjoint_blks_def by blast
  have fr: "destroy_free t' ?m = Some (?m\<lparr>cells := (\<lambda>a. if a \<in> set as then None else cells ?m a),
      blocks := (\<lambda>b. if b \<in> set ts then None else blocks ?m b)\<rparr>)"
    using destroy_free_spec [OF ch' b_own fl dj] by (simp only: blkm un)
  let ?m2 = "?m\<lparr>cells := (\<lambda>a. if a \<in> set as then None else cells ?m a),
      blocks := (\<lambda>b. if b \<in> set ts then None else blocks ?m b)\<rparr>"
  have run: "ape_destroy_pool_with_cleaner (pl_head l) cleaner s m = Some (s', ?m2)"
    unfolding ape_destroy_pool_with_cleaner_def col using f w fr by simp
  have bls: "blocks ?m2 a = (if a \<in> set as then None else blocks m a)" for a
    using base [of a] subsetD [OF sub, of a] by (cases "a \<in> set as"; cases "a \<in> set ts"; cases "blocks m a") auto
  have "f' \<in> set as" using f(1) last_in_set [OF tne] sub by auto
  then have cls: "cells ?m2 a = (if a \<in> set as then None else cells m a)" for a
    using frame [rule_format, of a] by (cases "a \<in> set as") auto
  show ?thesis by (rule exI [of _ ?m2]) (intro conjI allI run bls cls)
qed

section \<open>Sequences of operations\<close>

datatype pool_op = Push nat | Grow nat | Head_to_queue | Head_to_current | Rewind

fun pool_step ::
  "'a ape_pool_scheme \<Rightarrow> pool_op \<Rightarrow> ape_pool_list \<Rightarrow> 'a ape_pool_scheme pool_mem
    \<Rightarrow> (ape_pool_list \<times> 'a ape_pool_scheme pool_mem) option" where
  "pool_step junk (Push d) l m = ape_pool_push junk l d m"
| "pool_step junk (Grow n) l m = map_option snd (ape_grow_pool junk l n m)"
| "pool_step junk Head_to_queue l m = map_option snd (ape_pool_head_to_queue l m)"
| "pool_step junk Head_to_current l m = map_option snd (ape_pool_head_to_current l m)"
| "pool_step junk Rewind l m = Some (ape_pool_rewind l, m)"

fun pool_run ::
  "'a ape_pool_scheme \<Rightarrow> pool_op list \<Rightarrow> ape_pool_list \<Rightarrow> 'a ape_pool_scheme pool_mem
    \<Rightarrow> (ape_pool_list \<times> 'a ape_pool_scheme pool_mem) option" where
  "pool_run junk [] l m = Some (l, m)"
| "pool_run junk (x # xs) l m = do { (l1, m1) \<leftarrow> pool_step junk x l m; pool_run junk xs l1 m1 }"

definition op_ok :: "pool_op \<Rightarrow> bool" where
  "op_ok x \<longleftrightarrow> (case x of Grow n \<Rightarrow> 0 < n | _ \<Rightarrow> True)"

text \<open>
  One step: no fault, the invariant is kept, the slots are those of before and new ones above the
  old break, and nothing else is touched.
\<close>

lemma pool_step_inv:
  assumes inv: "pool_inv m l as" and two: "2 \<le> length as" and ok: "op_ok x"
  shows "\<exists>l' m' bs. pool_step junk x l m = Some (l', m') \<and> pool_inv m' l' bs \<and> set as \<subseteq> set bs
     \<and> (\<forall>a \<in> set bs - set as. brk m \<le> a) \<and> brk m \<le> brk m' \<and> same_outside (set bs) m m'"
proof -
  have dist: "distinct as" using inv by (rule pool_inv_dist)
  have cur: "pl_current l \<in> set as" using inv by (simp add: pool_inv_def)
  obtain a b cs where as: "as = a # b # cs" using two by (cases as; cases "tl as") auto
  have hd: "pl_head l = a" using inv as by (simp add: pool_inv_def)
  show ?thesis
  proof (cases x)
    case (Push d)
    obtain xs ys where sp: "as = xs @ pl_current l # ys" using split_list [OF cur] by blast
    obtain l' m' bs where "ape_pool_push junk l d m = Some (l', m')" "pool_inv m' l' (as @ bs)"
      "same_outside (set (as @ bs)) m m'" "\<forall>a \<in> set bs. brk m \<le> a" "brk m \<le> brk m'"
      by (rule push_spec [OF inv sp refl, where d = d and junk = junk]) (rule that)
    then show ?thesis using Push by (intro exI [of _ l'] exI [of _ m'] exI [of _ "as @ bs"]) auto
  next
    case (Grow n)
    then have "0 < n" using ok by (simp add: op_ok_def)
    obtain p l' m' bs where "ape_grow_pool junk l n m = Some (p, l', m')"
      "pool_inv m' l' (as @ p # bs)" "same_outside (set (as @ p # bs)) m m'"
      "\<forall>a \<in> set (p # bs). brk m \<le> a" "brk m \<le> brk m'"
      by (rule grow_pool_spec [OF inv \<open>0 < n\<close>, where junk = junk]) (rule that)
    then show ?thesis using Grow by (intro exI [of _ l'] exI [of _ m'] exI [of _ "as @ p # bs"]) auto
  next
    case Head_to_queue
    obtain l' m' where "ape_pool_head_to_queue l m = Some (b, l', m')" "pool_inv m' l' (b # cs @ [a])"
      "brk m' = brk m" "same_outside (set (a # b # cs)) m m'"
      by (rule head_to_queue_spec [OF inv [unfolded as]]) (rule that)
    then show ?thesis using Head_to_queue as
      by (intro exI [of _ l'] exI [of _ m'] exI [of _ "b # cs @ [a]"]) (auto simp: insert_commute)
  next
    case Head_to_current
    show ?thesis
    proof (cases "a = pl_current l")
      case True
      then show ?thesis using Head_to_current head_to_current_same [of l m] hd inv by auto
    next
      case False
      then obtain xs ys where sp: "b # cs = xs @ pl_current l # ys"
        using cur as split_list [of "pl_current l" "b # cs"] by auto
      have as': "as = a # xs @ pl_current l # ys" using as sp by simp
      obtain l' m' where "ape_pool_head_to_current l m = Some (List.hd (xs @ [pl_current l]), l', m')"
        "pool_inv m' l' (xs @ pl_current l # a # ys)" "brk m' = brk m"
        "same_outside (set (a # xs @ pl_current l # ys)) m m'"
        by (rule head_to_current_spec [OF inv [unfolded as'] refl False]) (rule that)
      then show ?thesis using Head_to_current as'
        by (intro exI [of _ l'] exI [of _ m'] exI [of _ "xs @ pl_current l # a # ys"])
          (auto simp: insert_commute Un_commute)
    qed
  next
    case Rewind
    then show ?thesis using inv as by (auto simp: pool_inv_def ape_pool_rewind_def)
  qed
qed

lemma pool_run_inv:
  assumes "pool_inv m l as" and "2 \<le> length as" and "\<forall>x \<in> set ops. op_ok x"
  shows "\<exists>l' m' bs. pool_run junk ops l m = Some (l', m') \<and> pool_inv m' l' bs \<and> set as \<subseteq> set bs
     \<and> (\<forall>a \<in> set bs - set as. brk m \<le> a) \<and> same_outside (set bs) m m'"
  using assms
proof (induction ops arbitrary: m l as)
  case Nil
  then show ?case by auto
next
  case (Cons x xs)
  obtain l1 m1 bs where st: "pool_step junk x l m = Some (l1, m1)" and i1: "pool_inv m1 l1 bs"
    and sub: "set as \<subseteq> set bs" and new: "\<forall>a \<in> set bs - set as. brk m \<le> a" and br: "brk m \<le> brk m1"
    and so: "same_outside (set bs) m m1"
    using pool_step_inv [OF Cons.prems(1,2), of x junk] Cons.prems(3) by auto
  have "length as \<le> length bs"
    using sub pool_inv_dist [OF Cons.prems(1)] pool_inv_dist [OF i1]
    by (metis List.finite_set card_mono distinct_card)
  then have "2 \<le> length bs" using Cons.prems(2) by simp
  from Cons.IH [OF i1 this] Cons.prems(3) obtain l' m' cs where
    "pool_run junk xs l1 m1 = Some (l', m')" and i2: "pool_inv m' l' cs" and sub2: "set bs \<subseteq> set cs"
    and new2: "\<forall>a \<in> set cs - set bs. brk m1 \<le> a" and so2: "same_outside (set cs) m1 m'"
    by auto
  moreover have "\<forall>a \<in> set cs - set as. brk m \<le> a" using new new2 br by (meson DiffD1 DiffD2 DiffI order_trans)
  moreover have "same_outside (set cs) m m'" by (rule same_outside_trans [OF so so2 sub2])
  moreover have "set as \<subseteq> set cs" using sub sub2 by blast
  ultimately show ?case using st by (intro exI [of _ l'] exI [of _ m'] exI [of _ cs]) simp
qed

text \<open>The same list read back by the iteration macros.\<close>

lemma pool_foreach_seg:
  assumes "lseg nx h p as q" and "map (\<lambda>a. case rd h a of None \<Rightarrow> NULL | Some v \<Rightarrow> pdata v) as = ds"
    and "NULL \<notin> set ds" and "q = NULL \<or> (\<exists>w. rd h q = Some w \<and> pdata w = NULL)"
  shows "pool_foreach nx h p = Some ds"
  using assms
proof (induction as arbitrary: p ds)
  case Nil
  then show ?case by (subst pool_foreach.simps) auto
next
  case (Cons a as)
  then obtain v where v: "p = a" "rd h a = Some v" "a \<noteq> NULL" and tl: "lseg nx h (nx v) as q"
    by (auto split: option.splits)
  then have "pool_foreach nx h (nx v) = Some (tl ds)" using Cons by (intro Cons.IH) auto
  then show ?case using v Cons.prems by (subst pool_foreach.simps) auto
qed

text \<open>The back links read the same slots in reverse.\<close>

lemma backs_rev_seg:
  "backs pv h b as \<Longrightarrow> lseg pv h (last_or b as) (rev as) b"
proof (induction as arbitrary: b)
  case (Cons a as)
  then obtain v where v: "rd h a = Some v" "pv v = b" and bk: "backs pv h a as"
    by (auto split: option.splits)
  from Cons.IH [OF bk] have "lseg pv h (last_or a as) (rev as) a" .
  then show ?case using v by (simp add: lseg_snoc)
qed simp

text \<open>
  A list that was only pushed to: the slots before the current one hold the data, in order, the
  others hold NULL, and the back links are right.
\<close>

definition pushed ::
  "'a ape_pool_scheme pool_mem \<Rightarrow> ape_pool_list \<Rightarrow> nat list \<Rightarrow> bool" where
  "pushed m l ds \<longleftrightarrow> (\<exists>xs c ys. pool_inv m l (xs @ c # ys) \<and> pl_current l = c
     \<and> backs pprev (cells m) NULL (xs @ c # ys)
     \<and> map (\<lambda>a. case rd (cells m) a of None \<Rightarrow> NULL | Some v \<Rightarrow> pdata v) xs = ds
     \<and> (\<forall>a \<in> set (c # ys). \<exists>v. rd (cells m) a = Some v \<and> pdata v = NULL))"

lemma push_pushed:
  assumes p: "pushed m l ds"
  shows "\<exists>l' m'. ape_pool_push junk l d m = Some (l', m') \<and> pushed m' l' (ds @ [d])"
proof -
  let ?dat = "\<lambda>m a. case rd (cells m) a of None \<Rightarrow> NULL | Some v \<Rightarrow> pdata v"
  obtain xs c ys where inv: "pool_inv m l (xs @ c # ys)" and cur: "pl_current l = c"
    and bk: "backs pprev (cells m) NULL (xs @ c # ys)" and ds: "map (?dat m) xs = ds"
    and nul: "\<forall>a \<in> set (c # ys). \<exists>v. rd (cells m) a = Some v \<and> pdata v = NULL"
    using p unfolding pushed_def by blast
  obtain l' m' bs where run: "ape_pool_push junk l d m = Some (l', m')"
    and inv': "pool_inv m' l' ((xs @ c # ys) @ bs)" and bs: "bs \<noteq> [] \<longleftrightarrow> ys = []"
    and cur': "pl_current l' = hd (ys @ bs)" and dc: "\<exists>v. rd (cells m') c = Some v \<and> pdata v = d"
    and k: "\<forall>a \<in> set (xs @ c # ys) - {c}. map_option pdata (cells m' a) = map_option pdata (cells m a)"
    and nb: "\<forall>a \<in> set bs. \<exists>v. rd (cells m') a = Some v \<and> pdata v = NULL"
    and bk': "backs pprev (cells m) NULL (xs @ c # ys) \<longrightarrow> backs pprev (cells m') NULL ((xs @ c # ys) @ bs)"
    using push_spec [OF inv refl cur, where d = d and junk = junk] by metis
  obtain e zs where ez: "ys @ bs = e # zs" using bs by (cases "ys @ bs") auto
  have dist: "distinct (xs @ c # ys)" using inv by (rule pool_inv_dist)
  have kr: "map_option pdata (rd (cells m') a) = map_option pdata (rd (cells m) a)"
    if "a \<in> set (xs @ c # ys) - {c}" for a
    using k that by (simp add: rd_def)
  have "?dat m' a = ?dat m a" if "a \<in> set xs" for a
    using kr [of a] that dist by (cases "rd (cells m) a"; cases "rd (cells m') a") auto
  then have "map (?dat m') xs = ds" using ds by auto
  then have "map (?dat m') (xs @ [c]) = ds @ [d]" using dc by auto
  moreover have "\<exists>v. rd (cells m') a = Some v \<and> pdata v = NULL" if "a \<in> set (e # zs)" for a
  proof (cases "a \<in> set bs")
    case False
    then have "a \<in> set ys" using that ez by (metis Un_iff set_append)
    then have "a \<in> set (xs @ c # ys) - {c}" "\<exists>v. rd (cells m) a = Some v \<and> pdata v = NULL"
      using dist nul by auto
    then show ?thesis using kr [of a] by (auto simp: map_option_case split: option.splits)
  qed (use nb in blast)
  moreover have "(xs @ c # ys) @ bs = (xs @ [c]) @ e # zs" using ez by simp
  ultimately have "pushed m' l' (ds @ [d])"
    unfolding pushed_def using inv' cur' ez bk' bk
    by (intro exI [of _ "xs @ [c]"] exI [of _ e] exI [of _ zs]) simp
  then show ?thesis using run by blast
qed

lemma pushed_foreach:
  assumes p: "pushed m l ds" and nz: "NULL \<notin> set ds"
  shows "APE_P_FOREACH l m = Some ds" and "APE_P_FOREACH_REVERSE l m = Some (rev ds)"
proof -
  let ?dat = "\<lambda>a. case rd (cells m) a of None \<Rightarrow> NULL | Some v \<Rightarrow> pdata v"
  obtain xs c ys where inv: "pool_inv m l (xs @ c # ys)" and cur: "pl_current l = c"
    and bk: "backs pprev (cells m) NULL (xs @ c # ys)" and ds: "map ?dat xs = ds"
    and nul: "\<forall>a \<in> set (c # ys). \<exists>v. rd (cells m) a = Some v \<and> pdata v = NULL"
    using p unfolding pushed_def by blast
  have "lseg pnext (cells m) (pl_head l) xs c"
    using inv by (auto simp: pool_inv_def lseg_split)
  then show "APE_P_FOREACH l m = Some ds"
    unfolding APE_P_FOREACH_def by (rule pool_foreach_seg [OF _ ds nz]) (use nul in auto)
  obtain v where v: "rd (cells m) c = Some v" "pprev v = last_or NULL xs"
    using bk by (auto simp: backs_append split: option.splits)
  have "lseg pprev (cells m) (last_or NULL xs) (rev xs) NULL"
    using bk backs_rev_seg [of pprev "cells m" NULL xs] by (simp add: backs_append)
  then have "pool_foreach pprev (cells m) (pprev v) = Some (rev ds)"
    unfolding v(2) by (rule pool_foreach_seg) (use ds nz in \<open>auto simp: rev_map [symmetric]\<close>)
  moreover have "c \<noteq> NULL" using v by auto
  ultimately show "APE_P_FOREACH_REVERSE l m = Some (rev ds)"
    unfolding APE_P_FOREACH_REVERSE_def using cur v by simp
qed

section \<open>Properties\<close>

lemma clean_all_total:
  assumes "\<And>a. a \<in> set as \<Longrightarrow> \<exists>v. rd h a = Some v"
  shows "clean_all (Some (\<lambda>v s. Some (f v s))) h as s = Some (fold (\<lambda>a. f (the (rd h a))) as s)"
  using assms
proof (induction as arbitrary: s)
  case (Cons a as)
  then obtain v where "rd h a = Some v" by auto
  then show ?case using Cons by (simp add: run_cleaner_def)
qed simp

lemma pool_lifecycle:
  assumes ok: "mem_ok m" and n: "2 \<le> n" and ops: "\<forall>x \<in> set ops. op_ok x"
  shows "\<exists>l0 m0 l1 m1 as m2.
      ape_init_pool_list junk sz n m = Some (l0, m0) \<and> pool_run junk ops l0 m0 = Some (l1, m1)
    \<and> chain pnext (cells m1) (pl_head l1) as \<and> n \<le> length as
    \<and> ape_destroy_pool_with_cleaner (pl_head l1) (Some (\<lambda>v s. Some (f v s))) s m1
        = Some (fold (\<lambda>a. f (the (rd (cells m1) a))) as s, m2)
    \<and> cells m2 = cells m \<and> blocks m2 = blocks m"
proof -
  have n0: "0 < n" using n by simp
  obtain l0 m0 as where init: "ape_init_pool_list junk sz n m = Some (l0, m0)"
    and i0: "pool_inv m0 l0 as" and len: "length as = n"
    and hi: "\<forall>a \<in> set as. brk m \<le> a" and so: "same_outside (set as) m m0" and br: "brk m \<le> brk m0"
    by (rule init_pool_list_inv [OF ok n0, where junk = junk and sz = sz]) (rule that)
  obtain l1 m1 bs where run: "pool_run junk ops l0 m0 = Some (l1, m1)" and i1: "pool_inv m1 l1 bs"
    and sub: "set as \<subseteq> set bs" and new: "\<forall>a \<in> set bs - set as. brk m0 \<le> a"
    and so1: "same_outside (set bs) m0 m1"
    using pool_run_inv [OF i0 _ ops, where junk = junk] len n by auto
  have high: "brk m \<le> a" if "a \<in> set bs" for a using that hi new br by (meson DiffI order_trans)
  have so2: "same_outside (set bs) m m1" by (rule same_outside_trans [OF so so1 sub])
  have "clean_all (Some (\<lambda>v s. Some (f v s))) (cells m1) bs s
      = Some (fold (\<lambda>a. f (the (rd (cells m1) a))) bs s)"
    by (rule clean_all_total) (rule pool_inv_slot [OF i1])
  from destroy_pool_spec [OF i1 this] obtain m2 where
    d: "ape_destroy_pool_with_cleaner (pl_head l1) (Some (\<lambda>v s. Some (f v s))) s m1
        = Some (fold (\<lambda>a. f (the (rd (cells m1) a))) bs s, m2)"
    and bl: "\<forall>a. blocks m2 a = (if a \<in> set bs then None else blocks m1 a)"
    and ce: "\<forall>a. cells m2 a = (if a \<in> set bs then None else cells m1 a)"
    by blast
  have "cells m2 a = cells m a \<and> blocks m2 a = blocks m a" for a
    using bl ce so2 high [of a] ok unfolding same_outside_def mem_ok_def by (cases "a \<in> set bs") auto
  then have "cells m2 = cells m" "blocks m2 = blocks m" by auto
  moreover have "n \<le> length bs"
    using sub len pool_inv_dist [OF i0] pool_inv_dist [OF i1]
    by (metis List.finite_set card_mono distinct_card)
  moreover have "chain pnext (cells m1) (pl_head l1) bs" using i1 by (simp add: pool_inv_def)
  ultimately show ?thesis using init run d by blast
qed

definition empty_mem :: "'i pool_mem" where
  "empty_mem = \<lparr>cells = (\<lambda>_. None), blocks = (\<lambda>_. None), brk = 1\<rparr>"

definition slot0 :: ape_pool where
  "slot0 = \<lparr>pdata = 0, pnext = 0, pprev = 0, pflags = 0\<rparr>"

lemma mem_ok_empty [simp]: "mem_ok empty_mem"
  by (simp add: mem_ok_def empty_mem_def)

lemma pushed_init:
  assumes "mem_ok m" and "0 < n"
  obtains l m' where "ape_init_pool_list junk sz n m = Some (l, m')" and "pushed m' l []"
proof -
  obtain l m' as where init: "ape_init_pool_list junk sz n m = Some (l, m')"
    and inv: "pool_inv m' l as" and len: "length as = n"
    and d: "dll pnext pprev (cells m') (pl_head l) as" and cur: "pl_current l = pl_head l"
    and nul: "\<forall>a \<in> set as. \<exists>v. rd (cells m') a = Some v \<and> pdata v = NULL"
    by (rule init_pool_list_inv [OF assms, where junk = junk and sz = sz]) (rule that)
  obtain c ys where as: "as = c # ys" using len assms(2) by (cases as) auto
  then have "pl_current l = c" using inv cur by (simp add: pool_inv_def)
  moreover have "backs pprev (cells m') NULL as" using d by (simp add: dll_def)
  ultimately have "pushed m' l []"
    unfolding pushed_def using inv as nul
    by (intro exI [of _ "[]"] exI [of _ c] exI [of _ ys]) simp
  with init show ?thesis by (rule that)
qed

lemma pushes_pushed:
  assumes "pushed m l ds"
  shows "\<exists>l' m'. pool_run junk (List.map Push es) l m = Some (l', m') \<and> pushed m' l' (ds @ es)"
  using assms
proof (induction es arbitrary: m l ds)
  case (Cons e es)
  obtain l1 m1 where "ape_pool_push junk l e m = Some (l1, m1)" "pushed m1 l1 (ds @ [e])"
    using push_pushed [OF Cons.prems] by blast
  then show ?case using Cons.IH [of m1 l1 "ds @ [e]"] by auto
qed auto

lemma pool_push_read:
  assumes "mem_ok m" and "0 < n" and "NULL \<notin> set ds"
  shows "\<exists>l0 m0 l1 m1. ape_init_pool_list junk sz n m = Some (l0, m0)
    \<and> pool_run junk (List.map Push ds) l0 m0 = Some (l1, m1)
    \<and> APE_P_FOREACH l1 m1 = Some ds \<and> APE_P_FOREACH_REVERSE l1 m1 = Some (rev ds)"
proof -
  obtain l m' where i: "ape_init_pool_list junk sz n m = Some (l, m')" "pushed m' l []"
    by (rule pushed_init [OF assms(1,2), where junk = junk and sz = sz]) (rule that)
  obtain l1 m1 where r: "pool_run junk (List.map Push ds) l m' = Some (l1, m1)" "pushed m1 l1 ds"
    using pushes_pushed [OF i(2), of junk ds] by auto
  show ?thesis using i(1) r(1) pushed_foreach [OF r(2) assms(3)] by blast
qed

text \<open>The same at the level of list objects.\<close>

definition list_run ::
  "'a ape_pool_scheme \<Rightarrow> pool_op list \<Rightarrow> ptr \<Rightarrow> 'a ape_pool_scheme list_mem
    \<Rightarrow> 'a ape_pool_scheme list_mem option" where
  "list_run junk ops list s = do {
     l \<leftarrow> rd (list_objs s) list;
     (l1, m1) \<leftarrow> pool_run junk ops l (pools s);
     Some (s\<lparr>pools := m1, list_objs := (list_objs s)(list \<mapsto> l1)\<rparr>) }"

lemma pool_list_lifecycle:
  assumes "mem_ok (pools s)" and "lists_brk s \<noteq> NULL" and "list_objs s (lists_brk s) = None"
    and "2 \<le> n" and "\<forall>x \<in> set ops. op_ok x"
  shows "\<exists>list s0 s1 s2 as.
      ape_new_pool_list junk sz n s = Some (list, s0)
    \<and> list_run junk ops list s0 = Some s1
    \<and> chain pnext (cells (pools s1)) (pl_head (the (list_objs s1 list))) as \<and> n \<le> length as
    \<and> ape_destroy_pool_list_with_cleaner list (Some (\<lambda>v c. Some (f v c))) ctx s1
        = Some (fold (\<lambda>a. f (the (rd (cells (pools s1)) a))) as ctx, s2)
    \<and> cells (pools s2) = cells (pools s) \<and> blocks (pools s2) = blocks (pools s) \<and> list_objs s2 = list_objs s"
proof -
  obtain l0 m0 l1 m1 as m2 where 1: "ape_init_pool_list junk sz n (pools s) = Some (l0, m0)"
    and 2: "pool_run junk ops l0 m0 = Some (l1, m1)"
    and 3: "chain pnext (cells m1) (pl_head l1) as" "n \<le> length as"
    and 4: "ape_destroy_pool_with_cleaner (pl_head l1) (Some (\<lambda>v s. Some (f v s))) ctx m1
        = Some (fold (\<lambda>a. f (the (rd (cells m1) a))) as ctx, m2)"
    and 5: "cells m2 = cells (pools s)" "blocks m2 = blocks (pools s)"
    using pool_lifecycle [OF assms(1,4,5), of junk sz f ctx] by blast
  let ?p = "lists_brk s"
  let ?s0 = "\<lparr>pools = m0, list_objs = (list_objs s)(?p \<mapsto> l0), lists_brk = ?p + 1\<rparr>"
  let ?s1 = "?s0\<lparr>pools := m1, list_objs := (list_objs s)(?p \<mapsto> l1)\<rparr>"
  let ?s2 = "?s1\<lparr>pools := m2, list_objs := list_objs s\<rparr>"
  have "ape_new_pool_list junk sz n s = Some (?p, ?s0)"
    unfolding ape_new_pool_list_def Let_def using 1 by simp
  moreover have "list_run junk ops ?p ?s0 = Some ?s1"
    unfolding list_run_def using 2 assms(2) by simp
  moreover have "ape_destroy_pool_list_with_cleaner ?p (Some (\<lambda>v c. Some (f v c))) ctx ?s1
      = Some (fold (\<lambda>a. f (the (rd (cells m1) a))) as ctx, ?s2)"
    unfolding ape_destroy_pool_list_with_cleaner_def using 4 assms(2,3)
    by (simp add: fun_upd_idem)
  ultimately show ?thesis
    using 3 5 by (intro exI [of _ ?p] exI [of _ ?s0] exI [of _ ?s1] exI [of _ ?s2] exI [of _ as]) simp
qed

definition empty_lists :: "'i list_mem" where
  "empty_lists = \<lparr>pools = empty_mem, list_objs = (\<lambda>_. None), lists_brk = 1\<rparr>"

section \<open>Properties\<close>

text \<open>C5: A pool list with at least two slots, used in any way (any sequence of pushes, grows,
  rotations of the head to the queue or to the current position, and rewinds), never faults; when
  it is destroyed, the cleaner is run exactly once on every slot of the list, in list order, and
  every block the list ever allocated and the list object itself are freed exactly once: memory is
  what it was before the list was made.\<close>

theorem pool_list_no_leak:
  assumes "mem_ok (pools s)" and "lists_brk s \<noteq> NULL" and "list_objs s (lists_brk s) = None"
    and "2 \<le> n" and "\<forall>x \<in> set ops. op_ok x"
  shows "\<exists>list s0 s1 s2 as.
      ape_new_pool_list junk sz n s = Some (list, s0)
    \<and> list_run junk ops list s0 = Some s1
    \<and> chain pnext (cells (pools s1)) (pl_head (the (list_objs s1 list))) as \<and> n \<le> length as
    \<and> ape_destroy_pool_list_with_cleaner list (Some (\<lambda>v c. Some (f v c))) ctx s1
        = Some (fold (\<lambda>a. f (the (rd (cells (pools s1)) a))) as ctx, s2)
    \<and> cells (pools s2) = cells (pools s) \<and> blocks (pools s2) = blocks (pools s) \<and> list_objs s2 = list_objs s"
  using assms by (rule pool_list_lifecycle)

lemma pool_list_no_leak_witness:
  "\<exists>list s0 s1 s2 as.
      ape_new_pool_list slot0 0 2 empty_lists = Some (list, s0)
    \<and> list_run slot0 [Push 7, Push 9, Head_to_queue, Head_to_current, Grow 3] list s0 = Some s1
    \<and> chain pnext (cells (pools s1)) (pl_head (the (list_objs s1 list))) as \<and> 2 \<le> length as
    \<and> ape_destroy_pool_list_with_cleaner list (Some (\<lambda>v c. Some (c + pdata v))) 0 s1
        = Some (fold (\<lambda>a c. c + pdata (the (rd (cells (pools s1)) a))) as 0, s2)
    \<and> cells (pools s2) = cells (pools (empty_lists :: ape_pool list_mem))
    \<and> blocks (pools s2) = blocks (pools (empty_lists :: ape_pool list_mem))
    \<and> list_objs s2 = list_objs (empty_lists :: ape_pool list_mem)"
proof -
  have 1: "mem_ok (pools (empty_lists :: ape_pool list_mem))"
    and 2: "lists_brk (empty_lists :: ape_pool list_mem) \<noteq> NULL"
    and 3: "list_objs (empty_lists :: ape_pool list_mem) (lists_brk (empty_lists :: ape_pool list_mem)) = None"
    and 4: "\<forall>x \<in> set [Push 7, Push 9, Head_to_queue, Head_to_current, Grow 3]. op_ok x"
    by (simp_all add: empty_lists_def op_ok_def)
  show ?thesis
    by (rule pool_list_no_leak [OF 1 2 3 _ 4, where f = "\<lambda>v c. c + pdata v"]) simp
qed

text \<open>C33: What was pushed on a fresh list is read back by \<open>APE_P_FOREACH\<close> in order and by
  \<open>APE_P_FOREACH_REVERSE\<close> in reverse order, however often the list had to grow.\<close>

theorem pool_push_read_back:
  assumes "mem_ok m" and "0 < n" and "NULL \<notin> set ds"
  shows "\<exists>l0 m0 l1 m1. ape_init_pool_list junk sz n m = Some (l0, m0)
    \<and> pool_run junk (List.map Push ds) l0 m0 = Some (l1, m1)
    \<and> APE_P_FOREACH l1 m1 = Some ds \<and> APE_P_FOREACH_REVERSE l1 m1 = Some (rev ds)"
  using assms by (rule pool_push_read)

lemma pool_push_read_back_witness:
  "\<exists>l0 m0 l1 m1. ape_init_pool_list slot0 0 1 empty_mem = Some (l0, m0)
    \<and> pool_run slot0 (List.map Push [5, 6, 7]) l0 m0 = Some (l1, m1)
    \<and> APE_P_FOREACH l1 m1 = Some [5, 6, 7] \<and> APE_P_FOREACH_REVERSE l1 m1 = Some (rev [5, 6, 7])"
  by (rule pool_push_read_back) simp_all

text \<open>Moving the head of a well-formed list to the queue rotates the list: it keeps all slots and
  their data; on a list of one slot it loses the list (the head becomes NULL).\<close>

theorem pool_head_to_queue_rotates:
  assumes "pool_inv m l (a # as)"
  shows "if as = [] then \<exists>l' m'. ape_pool_head_to_queue l m = Some (NULL, l', m') \<and> pl_head l' = NULL
    else \<exists>l' m'. ape_pool_head_to_queue l m = Some (hd as, l', m') \<and> pool_inv m' l' (as @ [a])
       \<and> pl_head l' = hd as \<and> pl_queue l' = a \<and> keeps pdata (cells m) (cells m')"
proof (cases as)
  case Nil
  then show ?thesis using head_to_queue_single assms by simp
next
  case (Cons b bs)
  obtain l' m' where "ape_pool_head_to_queue l m = Some (b, l', m')" and "pool_inv m' l' (b # bs @ [a])"
    and "l' = l\<lparr>pl_head := b, pl_queue := a\<rparr>" and "keeps pdata (cells m) (cells m')"
    by (rule head_to_queue_spec [OF assms [unfolded Cons]]) (rule that)
  then show ?thesis using Cons by (intro if_not_P [THEN iffD2] exI [of _ l'] exI [of _ m']) auto
qed

lemma pool_head_to_queue_rotates_witness:
  "\<exists>l m l' m' a b. ape_init_pool_list slot0 0 2 empty_mem = Some (l, m)
    \<and> ape_pool_head_to_queue l m = Some (b, l', m') \<and> pool_inv m' l' [b, a]"
proof -
  obtain l m as where i: "ape_init_pool_list slot0 0 2 empty_mem = Some (l, m)" "pool_inv m l as" "length as = 2"
    by (rule init_pool_list_inv [OF mem_ok_empty, of 2 slot0 0]) (simp, rule that)
  then obtain a b where as: "as = [a, b]" by (auto simp: length_Suc_conv numeral_2_eq_2)
  show ?thesis
    using pool_head_to_queue_rotates [OF i(2) [unfolded as]] i(1) by auto
qed

text \<open>\<open>ape_destroy_pool_ordered\<close> must not be used on a list whose slots were moved:
  after two pushes on a list of two blocks of two slots and one move of the head to the current
  position, it reads a slot of a block it has already freed, where
  \<open>ape_destroy_pool_with_cleaner\<close> frees the same list without a fault.\<close>

theorem pool_ordered_destroy_after_move:
  "(do { (l0, m0) \<leftarrow> ape_init_pool_list slot0 1 2 empty_mem;
         (l, m) \<leftarrow> pool_run slot0 [Grow 2, Push 7, Push 9, Head_to_current] l0 m0;
         Some (ape_destroy_pool_ordered (pl_head l) (None :: (ape_pool, unit) cleaner) () m = None,
               ape_destroy_pool_with_cleaner (pl_head l) (None :: (ape_pool, unit) cleaner) () m = None) })
   = Some (True, False)"
  by code_simp

end
