(* ===== verification/Hash.thy ===== *)
theory Hash
  imports Linked "HOL-Library.AList"
begin

unbundle bit_operations_syntax

text \<open>
  \<open>ape_hash.c\<close>: the hash table. A table is an array of chains of items; every item is also
  a member of one doubly linked list that starts at \<open>first\<close>, the newest item first. Keys are
  64-bit integers or strings; strings are hashed with MurmurHash2 over their bytes and compared
  with \<open>strcasecmp\<close>. The table can have a cleaner, a callback that is run with an item; its
  effect is on a state outside the table. The unions of the item are datatypes, so that reading a
  member that was not the one written is a fault. The table struct and its array are a value that
  is passed along; items and key strings are in memory.
\<close>

section \<open>MurmurHash2\<close>

definition murmur_m :: uint32 where
  "murmur_m = 0x5bd1e995"

text \<open>A little-endian load of four bytes.\<close>

definition load_le32 :: "byte \<Rightarrow> byte \<Rightarrow> byte \<Rightarrow> byte \<Rightarrow> uint32" where
  "load_le32 b0 b1 b2 b3 =
     ucast b0 OR push_bit 8 (ucast b1) OR push_bit 16 (ucast b2) OR push_bit 24 (ucast b3)"

definition murmur_k :: "uint32 \<Rightarrow> uint32" where
  "murmur_k k0 = (let k1 = k0 * murmur_m; k2 = k1 XOR drop_bit 24 k1 in k2 * murmur_m)"

text \<open>The loop over four bytes at a time; None is a read past the end of the key.\<close>

fun murmur_loop :: "byte list \<Rightarrow> int \<Rightarrow> uint32 \<Rightarrow> (byte list \<times> int \<times> uint32) option" where
  "murmur_loop (b0 # b1 # b2 # b3 # data) len h =
     (if 4 \<le> len
      then murmur_loop data (len - 4) ((h * murmur_m) XOR murmur_k (load_le32 b0 b1 b2 b3))
      else Some (b0 # b1 # b2 # b3 # data, len, h))"
| "murmur_loop data len h = (if 4 \<le> len then None else Some (data, len, h))"

text \<open>The fall-through switch on the last bytes.\<close>

definition murmur_tail :: "byte list \<Rightarrow> int \<Rightarrow> uint32 \<Rightarrow> uint32 option" where
  "murmur_tail data len h0 =
     (if 1 \<le> len \<and> len \<le> 3 then
        (if int (length data) < len then None
         else let h1 = (if len = 3 then h0 XOR push_bit 16 (ucast (data ! 2)) else h0);
                  h2 = (if len \<ge> 2 then h1 XOR push_bit 8 (ucast (data ! 1)) else h1);
                  h3 = h2 XOR ucast (data ! 0)
              in Some (h3 * murmur_m))
      else Some h0)"

definition MurmurHash2 :: "byte list \<Rightarrow> int \<Rightarrow> uint32 \<Rightarrow> uint32 option" where
  "MurmurHash2 key len0 seed = do {
     (data, len, h) \<leftarrow> murmur_loop key len0 (seed XOR word_of_int len0);
     h1 \<leftarrow> murmur_tail data len h;
     let h2 = h1 XOR drop_bit 13 h1;
     let h3 = h2 * murmur_m;
     Some (h3 XOR drop_bit 15 h3) }"

text \<open>\<open>_ape_seed\<close> is an unsigned long that the call truncates; \<open>max\<close> is the table size,
  and the remainder by 0 is a fault.\<close>

definition ape_hash_str :: "uint64 \<Rightarrow> byte list \<Rightarrow> int \<Rightarrow> nat \<Rightarrow> nat option" where
  "ape_hash_str ape_seed key len mx = do {
     h \<leftarrow> MurmurHash2 key len (ucast ape_seed);
     if mx = 0 then None else Some (unat h mod mx) }"

section \<open>Tables\<close>

datatype ape_hash_type = APE_HASH_STR | APE_HASH_INT

datatype hash_key = Key_str ptr | Key_integer uint64

datatype hash_content = Addrs ptr | Scalar uint32

record ape_htable_item =
  hkey :: hash_key
  hcontent :: hash_content
  hnext :: ptr
  lnext :: ptr
  lprev :: ptr

type_synonym 's hash_clean_callback = "ptr \<Rightarrow> ape_htable_item \<Rightarrow> 's \<Rightarrow> 's option"

record 's ape_htable =
  hfirst :: ptr
  htable :: "ptr list"
  htype :: ape_hash_type
  hcleaner :: "'s hash_clean_callback option"
  hsize :: nat

text \<open>The memory of the tables: items, key strings, and the next address malloc gives.\<close>

record hash_mem =
  items :: "ape_htable_item heap"
  strs :: "byte list heap"
  hbrk :: ptr

definition HACH_TABLE_MAX :: nat where
  "HACH_TABLE_MAX = 8209"

definition hashtbl_init_with_size :: "ape_hash_type \<Rightarrow> nat \<Rightarrow> 's ape_htable" where
  "hashtbl_init_with_size type table_size =
     \<lparr>hfirst = NULL, htable = replicate table_size NULL, htype = type, hcleaner = None,
      hsize = table_size\<rparr>"

definition hashtbl_init :: "ape_hash_type \<Rightarrow> 's ape_htable" where
  "hashtbl_init type = hashtbl_init_with_size type HACH_TABLE_MAX"

definition hashtbl_set_cleaner ::
  "'s ape_htable \<Rightarrow> 's hash_clean_callback option \<Rightarrow> 's ape_htable" where
  "hashtbl_set_cleaner htbl cleaner = htbl\<lparr>hcleaner := cleaner\<rparr>"

definition run_clean :: "'s ape_htable \<Rightarrow> ptr \<Rightarrow> ape_htable_item \<Rightarrow> 's \<Rightarrow> 's option" where
  "run_clean htbl p it s = (case hcleaner htbl of None \<Rightarrow> Some s | Some c \<Rightarrow> c p it s)"

section \<open>Freeing a table\<close>

text \<open>The inner loop of \<open>hashtbl_free\<close>, over one chain.\<close>

partial_function (option) free_chain ::
  "'s ape_htable \<Rightarrow> ptr \<Rightarrow> hash_mem \<Rightarrow> 's \<Rightarrow> (hash_mem \<times> 's) option" where
  "free_chain htbl hTmp m s =
     (if hTmp = NULL then Some (m, s)
      else do {
        it \<leftarrow> rd (items m) hTmp;
        s1 \<leftarrow> run_clean htbl hTmp it s;
        strs1 \<leftarrow> (if htype htbl = APE_HASH_STR
                  then (case hkey it of Key_str p \<Rightarrow> dealloc (strs m) p | _ \<Rightarrow> None)
                  else Some (strs m));
        items1 \<leftarrow> dealloc (items m) hTmp;
        free_chain htbl (hnext it) (m\<lparr>items := items1, strs := strs1\<rparr>) s1 })"

fun free_chains :: "'s ape_htable \<Rightarrow> ptr list \<Rightarrow> hash_mem \<Rightarrow> 's \<Rightarrow> (hash_mem \<times> 's) option" where
  "free_chains htbl [] m s = Some (m, s)"
| "free_chains htbl (p # ps) m s = do { (m1, s1) \<leftarrow> free_chain htbl p m s; free_chains htbl ps m1 s1 }"

definition hashtbl_free :: "'s ape_htable \<Rightarrow> hash_mem \<Rightarrow> 's \<Rightarrow> (hash_mem \<times> 's) option" where
  "hashtbl_free htbl m s = free_chains htbl (take (hsize htbl) (htable htbl)) m s"

section \<open>Walking a chain, linking and unlinking an item\<close>

text \<open>
  The loop of all the operations: from \<open>hTmp\<close>, with the item before it, to the first item
  that passes the test (or NULL).
\<close>

partial_function (option) chain_find ::
  "(ape_htable_item \<Rightarrow> bool option) \<Rightarrow> ape_htable_item heap \<Rightarrow> ptr \<Rightarrow> ptr \<Rightarrow> (ptr \<times> ptr) option" where
  "chain_find test h hPrev hTmp =
     (if hTmp = NULL then Some (hPrev, NULL)
      else do {
        it \<leftarrow> rd h hTmp;
        b \<leftarrow> test it;
        if b then Some (hPrev, hTmp) else chain_find test h hTmp (hnext it) })"

declare free_chain.simps [code] chain_find.simps [code]

definition key_is :: "uint64 \<Rightarrow> ape_htable_item \<Rightarrow> bool option" where
  "key_is key it = (case hkey it of Key_integer k \<Rightarrow> Some (key = k) | Key_str _ \<Rightarrow> None)"

definition str_is :: "byte list heap \<Rightarrow> byte list \<Rightarrow> ape_htable_item \<Rightarrow> bool option" where
  "str_is ss key it = (case hkey it of
     Key_str p \<Rightarrow> do { t \<leftarrow> rd ss p; c \<leftarrow> strcasecmp t key; Some (c = 0) }
   | Key_integer _ \<Rightarrow> None)"

text \<open>The end of the append functions: the new item goes in front of its chain and of the list of all items.\<close>

definition hash_link ::
  "'s ape_htable \<Rightarrow> ape_htable_item heap \<Rightarrow> nat \<Rightarrow> ptr
    \<Rightarrow> ('s ape_htable \<times> ape_htable_item heap) option" where
  "hash_link htbl h b hTmp = do {
     h1 \<leftarrow> wr h hTmp (\<lambda>it. it\<lparr>hnext := htable htbl ! b\<rparr>);
     (h2, first1) \<leftarrow> dll_push (\<lambda>p it. it\<lparr>lprev := p\<rparr>) h1 (hfirst htbl) hTmp;
     Some (htbl\<lparr>hfirst := first1, htable := (htable htbl)[b := hTmp]\<rparr>, h2) }"

text \<open>The middle of the erase functions: the item leaves its chain and the list of all items.\<close>

definition hash_unlink ::
  "'s ape_htable \<Rightarrow> ape_htable_item heap \<Rightarrow> nat \<Rightarrow> ptr \<Rightarrow> ptr
    \<Rightarrow> ('s ape_htable \<times> ape_htable_item heap) option" where
  "hash_unlink htbl h b hPrev hTmp = do {
     it \<leftarrow> rd h hTmp;
     (t1, h1) \<leftarrow> (if hPrev \<noteq> NULL
                  then do { h1 \<leftarrow> wr h hPrev (\<lambda>p. p\<lparr>hnext := hnext it\<rparr>); Some (htable htbl, h1) }
                  else Some ((htable htbl)[b := hnext it], h));
     (h2, first1) \<leftarrow> dll_unlink lnext lprev (\<lambda>p it. it\<lparr>lnext := p\<rparr>) (\<lambda>p it. it\<lparr>lprev := p\<rparr>)
                       h1 (hfirst htbl) hTmp;
     Some (htbl\<lparr>hfirst := first1, htable := t1\<rparr>, h2) }"

section \<open>Integer keys\<close>

definition hash_slot64 :: "'s ape_htable \<Rightarrow> uint64 \<Rightarrow> nat option" where
  "hash_slot64 htbl key = (if hsize htbl = 0 then None else Some (unat key mod hsize htbl))"

definition hashtbl_append64 ::
  "'s ape_htable \<Rightarrow> uint64 \<Rightarrow> ptr \<Rightarrow> hash_mem \<Rightarrow> 's \<Rightarrow> ('s ape_htable \<times> hash_mem \<times> 's) option" where
  "hashtbl_append64 htbl key structaddr m s = do {
     b \<leftarrow> hash_slot64 htbl key;
     let hTmp = hbrk m;
     let it = \<lparr>hkey = Key_integer key, hcontent = Addrs structaddr, hnext = NULL,
               lnext = hfirst htbl, lprev = NULL\<rparr>;
     let h0 = (items m)(hTmp \<mapsto> it);
     (hPrev, hDbl) \<leftarrow> chain_find (key_is key) h0 NULL (htable htbl ! b);
     if hDbl \<noteq> NULL then do {
       s1 \<leftarrow> run_clean htbl hTmp it s;
       h1 \<leftarrow> dealloc h0 hTmp;
       h2 \<leftarrow> wr h1 hDbl (\<lambda>d. d\<lparr>hcontent := Addrs structaddr\<rparr>);
       Some (htbl, m\<lparr>items := h2, hbrk := hTmp + 1\<rparr>, s1)
     } else do {
       (htbl1, h1) \<leftarrow> hash_link htbl h0 b hTmp;
       Some (htbl1, m\<lparr>items := h1, hbrk := hTmp + 1\<rparr>, s) } }"

definition hashtbl_erase64 ::
  "'s ape_htable \<Rightarrow> uint64 \<Rightarrow> hash_mem \<Rightarrow> 's \<Rightarrow> ('s ape_htable \<times> hash_mem \<times> 's) option" where
  "hashtbl_erase64 htbl key m s = do {
     b \<leftarrow> hash_slot64 htbl key;
     (hPrev, hTmp) \<leftarrow> chain_find (key_is key) (items m) NULL (htable htbl ! b);
     if hTmp = NULL then Some (htbl, m, s)
     else do {
       it \<leftarrow> rd (items m) hTmp;
       s1 \<leftarrow> run_clean htbl hTmp it s;
       (htbl1, h1) \<leftarrow> hash_unlink htbl (items m) b hPrev hTmp;
       h2 \<leftarrow> wr h1 hTmp (\<lambda>it. it\<lparr>hkey := Key_integer 0\<rparr>);
       h3 \<leftarrow> dealloc h2 hTmp;
       Some (htbl1, m\<lparr>items := h3\<rparr>, s1) } }"

definition content_addrs :: "ape_htable_item \<Rightarrow> ptr option" where
  "content_addrs it = (case hcontent it of Addrs a \<Rightarrow> Some a | Scalar _ \<Rightarrow> None)"

definition content_scalar :: "ape_htable_item \<Rightarrow> uint32 option" where
  "content_scalar it = (case hcontent it of Scalar v \<Rightarrow> Some v | Addrs _ \<Rightarrow> None)"

definition hashtbl_seek64 :: "'s ape_htable \<Rightarrow> uint64 \<Rightarrow> hash_mem \<Rightarrow> ptr option" where
  "hashtbl_seek64 htbl key m = do {
     b \<leftarrow> hash_slot64 htbl key;
     (hPrev, hTmp) \<leftarrow> chain_find (key_is key) (items m) NULL (htable htbl ! b);
     if hTmp = NULL then Some NULL
     else do { it \<leftarrow> rd (items m) hTmp; content_addrs it } }"

section \<open>String keys\<close>

text \<open>A key is NULL or the bytes it points to; memcpy copies \<open>key_len + 1\<close> of them.\<close>

definition key_copy :: "byte list \<Rightarrow> int \<Rightarrow> byte list option" where
  "key_copy key key_len = (if int (length key) < key_len + 1 then None
                           else Some (take (nat (key_len + 1)) key))"

definition hashtbl_append ::
  "uint64 \<Rightarrow> 's ape_htable \<Rightarrow> byte list option \<Rightarrow> int \<Rightarrow> ptr \<Rightarrow> hash_mem \<Rightarrow> 's
    \<Rightarrow> ('s ape_htable \<times> hash_mem \<times> 's) option" where
  "hashtbl_append ape_seed htbl key0 key_len structaddr m s = (case key0 of None \<Rightarrow> Some (htbl, m, s)
   | Some key \<Rightarrow> do {
     b \<leftarrow> ape_hash_str ape_seed key key_len (hsize htbl);
     let hTmp = hbrk m;
     let str = hTmp + 1;
     copy \<leftarrow> key_copy key key_len;
     let it = \<lparr>hkey = Key_str str, hcontent = Addrs structaddr, hnext = NULL,
               lnext = hfirst htbl, lprev = NULL\<rparr>;
     let h0 = (items m)(hTmp \<mapsto> it);
     let ss0 = (strs m)(str \<mapsto> copy);
     (hPrev, hDbl) \<leftarrow> chain_find (str_is ss0 key) h0 NULL (htable htbl ! b);
     if hDbl \<noteq> NULL then do {
       s1 \<leftarrow> run_clean htbl hTmp it s;
       ss1 \<leftarrow> dealloc ss0 str;
       h1 \<leftarrow> dealloc h0 hTmp;
       h2 \<leftarrow> wr h1 hDbl (\<lambda>d. d\<lparr>hcontent := Addrs structaddr\<rparr>);
       Some (htbl, m\<lparr>items := h2, strs := ss1, hbrk := str + 1\<rparr>, s1)
     } else do {
       (htbl1, h1) \<leftarrow> hash_link htbl h0 b hTmp;
       Some (htbl1, m\<lparr>items := h1, strs := ss0, hbrk := str + 1\<rparr>, s) } })"

definition hashtbl_append_val32 ::
  "uint64 \<Rightarrow> 's ape_htable \<Rightarrow> byte list option \<Rightarrow> int \<Rightarrow> uint32 \<Rightarrow> hash_mem
    \<Rightarrow> ('s ape_htable \<times> hash_mem) option" where
  "hashtbl_append_val32 ape_seed htbl key0 key_len val m = (case key0 of None \<Rightarrow> Some (htbl, m)
   | Some key \<Rightarrow> do {
     b \<leftarrow> ape_hash_str ape_seed key key_len (hsize htbl);
     let hTmp = hbrk m;
     let str = hTmp + 1;
     copy \<leftarrow> key_copy key key_len;
     let it = \<lparr>hkey = Key_str str, hcontent = Scalar val, hnext = NULL,
               lnext = hfirst htbl, lprev = NULL\<rparr>;
     let h0 = (items m)(hTmp \<mapsto> it);
     let ss0 = (strs m)(str \<mapsto> copy);
     (hPrev, hDbl) \<leftarrow> chain_find (str_is ss0 key) h0 NULL (htable htbl ! b);
     if hDbl \<noteq> NULL then do {
       ss1 \<leftarrow> dealloc ss0 str;
       h1 \<leftarrow> dealloc h0 hTmp;
       h2 \<leftarrow> wr h1 hDbl (\<lambda>d. d\<lparr>hcontent := Scalar val\<rparr>);
       Some (htbl, m\<lparr>items := h2, strs := ss1, hbrk := str + 1\<rparr>)
     } else do {
       (htbl1, h1) \<leftarrow> hash_link htbl h0 b hTmp;
       Some (htbl1, m\<lparr>items := h1, strs := ss0, hbrk := str + 1\<rparr>) } })"

definition hashtbl_erase ::
  "uint64 \<Rightarrow> 's ape_htable \<Rightarrow> byte list option \<Rightarrow> int \<Rightarrow> hash_mem \<Rightarrow> 's
    \<Rightarrow> ('s ape_htable \<times> hash_mem \<times> 's) option" where
  "hashtbl_erase ape_seed htbl key0 key_len m s = (case key0 of None \<Rightarrow> Some (htbl, m, s)
   | Some key \<Rightarrow> do {
     b \<leftarrow> ape_hash_str ape_seed key key_len (hsize htbl);
     (hPrev, hTmp) \<leftarrow> chain_find (str_is (strs m) key) (items m) NULL (htable htbl ! b);
     if hTmp = NULL then Some (htbl, m, s)
     else do {
       it \<leftarrow> rd (items m) hTmp;
       s1 \<leftarrow> run_clean htbl hTmp it s;
       (htbl1, h1) \<leftarrow> hash_unlink htbl (items m) b hPrev hTmp;
       ss1 \<leftarrow> (case hkey it of Key_str p \<Rightarrow> dealloc (strs m) p | Key_integer _ \<Rightarrow> None);
       h2 \<leftarrow> dealloc h1 hTmp;
       Some (htbl1, m\<lparr>items := h2, strs := ss1\<rparr>, s1) } })"

definition hashtbl_seek ::
  "uint64 \<Rightarrow> 's ape_htable \<Rightarrow> byte list option \<Rightarrow> int \<Rightarrow> hash_mem \<Rightarrow> ptr option" where
  "hashtbl_seek ape_seed htbl key0 key_len m = (case key0 of None \<Rightarrow> Some NULL
   | Some key \<Rightarrow> do {
     b \<leftarrow> ape_hash_str ape_seed key key_len (hsize htbl);
     (hPrev, hTmp) \<leftarrow> chain_find (str_is (strs m) key) (items m) NULL (htable htbl ! b);
     if hTmp = NULL then Some NULL
     else do { it \<leftarrow> rd (items m) hTmp; content_addrs it } })"

definition hashtbl_seek_val32 ::
  "uint64 \<Rightarrow> 's ape_htable \<Rightarrow> byte list option \<Rightarrow> int \<Rightarrow> hash_mem \<Rightarrow> uint32 option" where
  "hashtbl_seek_val32 ape_seed htbl key0 key_len m = (case key0 of None \<Rightarrow> Some 0
   | Some key \<Rightarrow> do {
     b \<leftarrow> ape_hash_str ape_seed key key_len (hsize htbl);
     (hPrev, hTmp) \<leftarrow> chain_find (str_is (strs m) key) (items m) NULL (htable htbl ! b);
     if hTmp = NULL then Some 0
     else do { it \<leftarrow> rd (items m) hTmp; content_scalar it } })"

end
