(* ===== verification/Hash_Props.thy ===== *)
theory Hash_Props
  imports Hash
begin

text \<open>
  The hash table refines an association list: the items on the \<open>first\<close> list, newest first,
  each with its key and content. A table is well formed when its chains are lists that end, the
  list of all items is doubly linked, every item is in the chain of its key, and no two items have
  the same key. Every operation keeps that, never faults, and acts on the association list as
  \<open>map_of\<close>, cons or update, and \<open>AList.delete\<close>. The proofs are done once, for any kind
  of key, in the locale \<open>hash_keys\<close>.
\<close>

section \<open>Well-formed tables\<close>

definition kof ::
  "(byte list heap \<Rightarrow> ape_htable_item \<Rightarrow> 'k option) \<Rightarrow> hash_mem \<Rightarrow> ptr \<Rightarrow> 'k option" where
  "kof akey m a = (case rd (items m) a of None \<Rightarrow> None | Some it \<Rightarrow> akey (strs m) it)"

definition cof :: "hash_mem \<Rightarrow> ptr \<Rightarrow> hash_content" where
  "cof m a = hcontent (the (rd (items m) a))"

definition str_ptr :: "hash_mem \<Rightarrow> ptr \<Rightarrow> ptr option" where
  "str_ptr m a = (case rd (items m) a of None \<Rightarrow> None
     | Some it \<Rightarrow> (case hkey it of Key_str p \<Rightarrow> Some p | Key_integer _ \<Rightarrow> None))"

definition hchains :: "'s ape_htable \<Rightarrow> hash_mem \<Rightarrow> (nat \<Rightarrow> ptr list) \<Rightarrow> bool" where
  "hchains htbl m cs \<longleftrightarrow> (\<forall>i < hsize htbl. chain hnext (items m) (htable htbl ! i) (cs i))"

definition hkeys :: "(byte list heap \<Rightarrow> ape_htable_item \<Rightarrow> 'k option) \<Rightarrow> ('k \<Rightarrow> nat)
    \<Rightarrow> nat \<Rightarrow> hash_mem \<Rightarrow> (nat \<Rightarrow> ptr list) \<Rightarrow> bool" where
  "hkeys akey bkt n m cs \<longleftrightarrow> (\<forall>i < n. \<forall>a \<in> set (cs i). \<exists>k. kof akey m a = Some k \<and> bkt k = i)"

definition hcover :: "nat \<Rightarrow> (nat \<Rightarrow> ptr list) \<Rightarrow> ptr list \<Rightarrow> bool" where
  "hcover n cs order \<longleftrightarrow> (\<forall>a. a \<in> set order \<longleftrightarrow> (\<exists>i < n. a \<in> set (cs i)))"

definition hinj :: "(byte list heap \<Rightarrow> ape_htable_item \<Rightarrow> 'k option) \<Rightarrow> hash_mem \<Rightarrow> ptr list \<Rightarrow> bool" where
  "hinj akey m order \<longleftrightarrow> (\<forall>a \<in> set order. \<forall>b \<in> set order. kof akey m a = kof akey m b \<longrightarrow> a = b)"

definition hown :: "hash_mem \<Rightarrow> ptr list \<Rightarrow> bool" where
  "hown m order \<longleftrightarrow> (\<forall>a \<in> set order. \<forall>b \<in> set order. \<forall>p. str_ptr m a = Some p \<longrightarrow> str_ptr m b = Some p \<longrightarrow> a = b)"

definition hfresh :: "hash_mem \<Rightarrow> bool" where
  "hfresh m \<longleftrightarrow> 0 < hbrk m \<and> (\<forall>a. hbrk m \<le> a \<longrightarrow> items m a = None \<and> strs m a = None)"

text \<open>Nothing else is in the table's memory.\<close>

definition hexact :: "hash_mem \<Rightarrow> ptr list \<Rightarrow> bool" where
  "hexact m order \<longleftrightarrow> (\<forall>a. items m a \<noteq> None \<longrightarrow> a \<in> set order)
     \<and> (\<forall>p. strs m p \<noteq> None \<longrightarrow> (\<exists>a \<in> set order. str_ptr m a = Some p))"

definition hash_inv :: "(byte list heap \<Rightarrow> ape_htable_item \<Rightarrow> 'k option) \<Rightarrow> ('k \<Rightarrow> nat)
    \<Rightarrow> 's ape_htable \<Rightarrow> hash_mem \<Rightarrow> (nat \<Rightarrow> ptr list) \<Rightarrow> ptr list \<Rightarrow> bool" where
  "hash_inv akey bkt htbl m cs order \<longleftrightarrow>
     length (htable htbl) = hsize htbl \<and> 0 < hsize htbl \<and> hfresh m
     \<and> hchains htbl m cs \<and> dll lnext lprev (items m) (hfirst htbl) order
     \<and> hkeys akey bkt (hsize htbl) m cs \<and> hcover (hsize htbl) cs order
     \<and> hinj akey m order \<and> hown m order \<and> hexact m order"

text \<open>The association list a table stands for.\<close>

definition habs ::
  "(byte list heap \<Rightarrow> ape_htable_item \<Rightarrow> 'k option) \<Rightarrow> hash_mem \<Rightarrow> ptr list \<Rightarrow> ('k \<times> hash_content) list" where
  "habs akey m order = map (\<lambda>a. (the (kof akey m a), cof m a)) order"

lemma hash_invD:
  assumes "hash_inv akey bkt htbl m cs order"
  shows "length (htable htbl) = hsize htbl" and "0 < hsize htbl" and "hfresh m"
    and "hchains htbl m cs" and "dll lnext lprev (items m) (hfirst htbl) order"
    and "hkeys akey bkt (hsize htbl) m cs" and "hcover (hsize htbl) cs order"
    and "hinj akey m order" and "hown m order" and "hexact m order"
  using assms by (simp_all add: hash_inv_def)

lemma hash_inv_kof:
  assumes "hash_inv akey bkt htbl m cs order" and "a \<in> set order"
  obtains k where "kof akey m a = Some k" and "bkt k < hsize htbl" and "a \<in> set (cs (bkt k))"
  using assms hash_invD(6,7) [OF assms(1)] unfolding hkeys_def hcover_def by blast

lemma hash_inv_kof_Some: "hash_inv akey bkt htbl m cs order \<Longrightarrow> a \<in> set order \<Longrightarrow> kof akey m a = Some (the (kof akey m a))"
  by (metis hash_inv_kof option.sel)

lemma habs_keys_distinct:
  assumes inv: "hash_inv akey bkt htbl m cs order"
  shows "distinct (map fst (habs akey m order))"
proof -
  have "distinct order" using hash_invD(5) [OF inv] by (rule dll_distinct)
  moreover have "inj_on (\<lambda>a. the (kof akey m a)) (set order)"
    using hash_invD(8) [OF inv] hash_inv_kof_Some [OF inv]
    unfolding hinj_def by (intro inj_onI) metis
  ultimately show ?thesis by (simp add: habs_def distinct_map comp_def)
qed

lemma map_of_habs:
  assumes inv: "hash_inv akey bkt htbl m cs order" and "a \<in> set order" and "kof akey m a = Some k"
  shows "map_of (habs akey m order) k = Some (cof m a)"
proof -
  have "(k, cof m a) \<in> set (habs akey m order)"
    using assms(2,3) by (force simp: habs_def)
  then show ?thesis using map_of_eq_Some_iff [OF habs_keys_distinct [OF inv]] by blast
qed

lemma map_of_habs_None:
  "(\<forall>a \<in> set order. kof akey m a \<noteq> Some k) \<Longrightarrow> hash_inv akey bkt htbl m cs order \<Longrightarrow>
    map_of (habs akey m order) k = None"
  using hash_inv_kof_Some by (fastforce simp: map_of_eq_None_iff habs_def)

lemma the_kof_iff:
  assumes inv: "hash_inv akey bkt htbl m cs order" and a: "a \<in> set order" and b: "b \<in> set order"
    and k: "kof akey m a = Some k"
  shows "the (kof akey m b) = k \<longleftrightarrow> b = a"
proof
  assume "the (kof akey m b) = k"
  then have "kof akey m b = kof akey m a" using hash_inv_kof_Some [OF inv b] k by simp
  then show "b = a" using hash_invD(8) [OF inv] a b unfolding hinj_def by blast
qed (use k in simp)

section \<open>Finding an item\<close>

lemma chain_find_seg:
  assumes "chain hnext h p as"
    and "\<forall>a \<in> set as. \<exists>it. rd h a = Some it \<and> test it = Some (P a)"
  shows "chain_find test h prv p =
     (case filter P as of [] \<Rightarrow> Some (last_or prv as, NULL)
      | a # _ \<Rightarrow> Some (last_or prv (takeWhile (\<lambda>b. \<not> P b) as), a))"
  using assms
proof (induction as arbitrary: p prv)
  case Nil
  then show ?case by (subst chain_find.simps) auto
next
  case (Cons a as)
  then obtain it where it: "p = a" "a \<noteq> NULL" "rd h a = Some it" "test it = Some (P a)"
    and tl: "chain hnext h (hnext it) as" by (auto split: option.splits)
  show ?case
  proof (cases "P a")
    case True
    then show ?thesis using it Cons.prems(1) by (subst chain_find.simps) simp
  next
    case False
    then have "chain_find test h prv p = chain_find test h a (hnext it)"
      using it by (subst chain_find.simps) simp
    then show ?thesis using Cons.IH [OF tl, of a] Cons.prems(2) False by (simp split: list.split)
  qed
qed

lemma takeWhile_split:
  "filter P as = a # rest \<Longrightarrow> \<exists>xs ys. as = xs @ a # ys \<and> takeWhile (\<lambda>b. \<not> P b) as = xs \<and> P a"
proof (induction as)
  case (Cons b as)
  show ?case
  proof (cases "P b")
    case False
    then have "filter P as = a # rest" using Cons.prems by simp
    then obtain xs ys where "as = xs @ a # ys" "takeWhile (\<lambda>b. \<not> P b) as = xs" "P a"
      using Cons.IH by blast
    with False show ?thesis by (intro exI [of _ "b # xs"] exI [of _ ys]) simp
  next
    case True
    then show ?thesis using Cons.prems by (intro exI [of _ "[]"] exI [of _ as]) simp
  qed
qed simp

lemma chain_find_key:
  assumes inv: "hash_inv akey bkt htbl m cs order" and k: "bkt k < hsize htbl"
    and h: "\<And>a. a \<in> set (cs (bkt k)) \<Longrightarrow> rd h a = rd (items m) a"
    and t: "\<And>a it k'. a \<in> set (cs (bkt k)) \<Longrightarrow> rd (items m) a = Some it \<Longrightarrow>
             akey (strs m) it = Some k' \<Longrightarrow> bkt k' = bkt k \<Longrightarrow> test it = Some (k' = k)"
  shows "(map_of (habs akey m order) k = None \<and> (\<forall>a \<in> set order. kof akey m a \<noteq> Some k)
           \<and> chain_find test h prv (htable htbl ! bkt k) = Some (last_or prv (cs (bkt k)), NULL))
       \<or> (\<exists>xs a ys. cs (bkt k) = xs @ a # ys \<and> a \<in> set order \<and> kof akey m a = Some k
           \<and> map_of (habs akey m order) k = Some (cof m a)
           \<and> chain_find test h prv (htable htbl ! bkt k) = Some (last_or prv xs, a))"
proof -
  let ?c = "cs (bkt k)" let ?P = "\<lambda>a. kof akey m a = Some k"
  have "chain hnext (items m) (htable htbl ! bkt k) ?c"
    using hash_invD(4) [OF inv] k by (simp add: hchains_def)
  then have ch: "chain hnext h (htable htbl ! bkt k) ?c"
    using lseg_cong [of ?c hnext "items m" h] h by simp
  have t': "\<forall>a \<in> set ?c. \<exists>it. rd h a = Some it \<and> test it = Some (?P a)"
  proof
    fix a assume a: "a \<in> set ?c"
    obtain k' where k': "kof akey m a = Some k'" "bkt k' = bkt k"
      using hash_invD(6) [OF inv] k a unfolding hkeys_def by blast
    then obtain it where it: "rd (items m) a = Some it" "akey (strs m) it = Some k'"
      by (auto simp: kof_def split: option.splits)
    have "test it = Some (?P a)" using t [OF a it k'(2)] k'(1) by simp
    then show "\<exists>it. rd h a = Some it \<and> test it = Some (?P a)" using h [OF a] it(1) by simp
  qed
  have f: "chain_find test h prv (htable htbl ! bkt k) =
     (case filter ?P ?c of [] \<Rightarrow> Some (last_or prv ?c, NULL)
      | a # _ \<Rightarrow> Some (last_or prv (takeWhile (\<lambda>b. \<not> ?P b) ?c), a))"
    by (rule chain_find_seg [OF ch t'])
  show ?thesis
  proof (cases "filter ?P ?c")
    case Nil
    have no: "\<forall>a \<in> set order. kof akey m a \<noteq> Some k"
    proof
      fix a assume "a \<in> set order"
      then obtain k' where "kof akey m a = Some k'" "a \<in> set (cs (bkt k'))"
        by (rule hash_inv_kof [OF inv])
      then show "kof akey m a \<noteq> Some k" using Nil by (auto simp: filter_empty_conv)
    qed
    then show ?thesis using f Nil map_of_habs_None [OF no inv] by simp
  next
    case (Cons a rest)
    then obtain xs ys where sp: "?c = xs @ a # ys" "takeWhile (\<lambda>b. \<not> ?P b) ?c = xs" "?P a"
      using takeWhile_split [OF Cons] by blast
    have "a \<in> set order" using hash_invD(7) [OF inv] k sp(1) unfolding hcover_def by fastforce
    then show ?thesis using f Cons sp map_of_habs [OF inv _ sp(3)] by auto
  qed
qed

section \<open>Linking and unlinking keep a table well formed\<close>

interpretation hl: dll_fields lnext lprev "\<lambda>p it. it\<lparr>lnext := p\<rparr>" "\<lambda>p it. it\<lparr>lprev := p\<rparr>"
  by unfold_locales auto

definition off_list :: "ape_htable_item \<Rightarrow> hash_key \<times> hash_content \<times> ptr" where
  "off_list it = (hkey it, hcontent it, hnext it)"

lemma off_list_link_free:
  "link_free (\<lambda>p it. it\<lparr>lnext := p\<rparr>) (\<lambda>p it. it\<lparr>lprev := p\<rparr>) off_list"
  by (simp add: link_free_def off_list_def)

lemma keeps_off_list:
  assumes "keeps off_list h h'"
  shows "keeps hnext h h'" and "keeps (\<lambda>it. (hkey it, hcontent it)) h h'"
proof -
  have f: "map_option g (h' b) = map_option g (h b)"
    if "g = f \<circ> off_list" for b and g :: "ape_htable_item \<Rightarrow> 'c" and f
  proof -
    have "map_option off_list (h' b) = map_option off_list (h b)" using assms by (simp add: keeps_def)
    then have "map_option f (map_option off_list (h' b)) = map_option f (map_option off_list (h b))" by simp
    then show ?thesis using that by (simp add: option.map_comp)
  qed
  show "keeps hnext h h'" unfolding keeps_def
    by (intro allI f [of _ "\<lambda>(k, c, n). n"]) (simp add: off_list_def fun_eq_iff)
  show "keeps (\<lambda>it. (hkey it, hcontent it)) h h'" unfolding keeps_def
    by (intro allI f [of _ "\<lambda>(k, c, n). (k, c)"]) (simp add: off_list_def fun_eq_iff)
qed

definition agree ::
  "(byte list heap \<Rightarrow> ape_htable_item \<Rightarrow> 'k option) \<Rightarrow> hash_mem \<Rightarrow> hash_mem \<Rightarrow> ptr set \<Rightarrow> bool" where
  "agree akey m m' A \<longleftrightarrow>
     (\<forall>a \<in> A. kof akey m' a = kof akey m a \<and> cof m' a = cof m a \<and> str_ptr m' a = str_ptr m a)"

lemma agree_habs: "agree akey m m' (set order) \<Longrightarrow> habs akey m' order = habs akey m order"
  by (simp add: agree_def habs_def)

lemma agree_sub: "agree akey m m' A \<Longrightarrow> B \<subseteq> A \<Longrightarrow> agree akey m m' B"
  by (auto simp: agree_def)

lemma hinj_agree: "hinj akey m order \<Longrightarrow> agree akey m m' (set order) \<Longrightarrow> hinj akey m' order"
  by (simp add: hinj_def agree_def)

lemma hown_agree: "hown m order \<Longrightarrow> agree akey m m' (set order) \<Longrightarrow> hown m' order"
  by (simp add: hown_def agree_def)

lemma hinj_sub: "hinj akey m order \<Longrightarrow> set order' \<subseteq> set order \<Longrightarrow> hinj akey m order'"
  by (auto simp: hinj_def)

lemma hown_sub: "hown m order \<Longrightarrow> set order' \<subseteq> set order \<Longrightarrow> hown m order'"
  unfolding hown_def by blast

lemma hash_inv_disjoint:
  assumes inv: "hash_inv akey bkt htbl m cs order" and "i < hsize htbl" and "j < hsize htbl"
    and "a \<in> set (cs i)" and "a \<in> set (cs j)"
  shows "i = j"
  using hash_invD(6) [OF inv] assms(2-) unfolding hkeys_def by (metis option.inject)

lemma hash_inv_below:
  assumes "hash_inv akey bkt htbl m cs order" and "a \<in> set order"
  shows "a < hbrk m" and "a \<noteq> NULL"
proof -
  obtain it where "rd (items m) a = Some it" using dll_alloc [OF hash_invD(5) [OF assms(1)] assms(2)] by blast
  then have "items m a \<noteq> None" and "a \<noteq> NULL" by (simp_all add: rd_Some_iff)
  then show "a < hbrk m" "a \<noteq> NULL"
    using hash_invD(3) [OF assms(1)] unfolding hfresh_def by (meson not_le)+
qed

lemma hcover_Cons:
  assumes "hcover n cs order" and "b < n"
  shows "hcover n (cs(b := a # cs b)) (a # order)"
  unfolding hcover_def
proof (intro allI iffI)
  fix c
  { assume "c \<in> set (a # order)"
    then consider "c = a" | i where "i < n" "c \<in> set (cs i)" using assms(1) unfolding hcover_def by auto
    then show "\<exists>i < n. c \<in> set ((cs(b := a # cs b)) i)"
    proof cases
      case 1
      then show ?thesis using assms(2) by (intro exI [of _ b]) simp
    next
      case 2
      then show ?thesis by (intro exI [of _ i]) auto
    qed }
  { assume "\<exists>i < n. c \<in> set ((cs(b := a # cs b)) i)"
    then show "c \<in> set (a # order)" using assms unfolding hcover_def by (auto split: if_splits) }
qed

lemma hcover_remove:
  assumes "hcover n cs (xs @ a # ys)" and "cs b = us @ a # vs" and "b < n"
    and "distinct (xs @ a # ys)" and "distinct (us @ a # vs)" and "\<And>i. i < n \<Longrightarrow> a \<in> set (cs i) \<Longrightarrow> i = b"
  shows "hcover n (cs(b := us @ vs)) (xs @ ys)"
proof -
  have o: "c \<in> set (xs @ ys) \<longleftrightarrow> c \<in> set (xs @ a # ys) \<and> c \<noteq> a" for c
    using assms(4) by auto
  have c: "c \<in> set ((cs(b := us @ vs)) i) \<longleftrightarrow> c \<in> set (cs i) \<and> c \<noteq> a" if "i < n" for c i
  proof (cases "i = b")
    case True
    then show ?thesis using assms(2,5) by auto
  next
    case False
    then show ?thesis using assms(6) [OF that] by auto
  qed
  have "(\<exists>i < n. c \<in> set ((cs(b := us @ vs)) i)) \<longleftrightarrow> (\<exists>i < n. c \<in> set (cs i)) \<and> c \<noteq> a" for c
    using c [of _ c] by metis
  then show ?thesis using assms(1) o unfolding hcover_def by simp
qed

locale hash_keys =
  fixes akey :: "byte list heap \<Rightarrow> ape_htable_item \<Rightarrow> 'k option"
  assumes akey_cong: "hkey it' = hkey it \<Longrightarrow> (\<And>p. hkey it = Key_str p \<Longrightarrow> ss' p = ss p) \<Longrightarrow>
      akey ss' it' = akey ss it"
    and akey_alloc: "akey ss it = Some k \<Longrightarrow> hkey it = Key_str p \<Longrightarrow> ss p \<noteq> None"
begin

lemma agreeI:
  assumes "keeps (\<lambda>it. (hkey it, hcontent it)) (items m) h"
    and "\<And>a. a \<in> A \<Longrightarrow> rd (items m') a = rd h a"
    and "\<And>a p. a \<in> A \<Longrightarrow> str_ptr m a = Some p \<Longrightarrow> strs m' p = strs m p"
  shows "agree akey m m' A"
  unfolding agree_def
proof
  fix a assume a: "a \<in> A"
  show "kof akey m' a = kof akey m a \<and> cof m' a = cof m a \<and> str_ptr m' a = str_ptr m a"
  proof (cases "rd (items m) a")
    case None
    then have "rd h a = None" using keeps_rd [OF assms(1), of a] by simp
    then show ?thesis using None assms(2) [OF a] by (simp add: kof_def cof_def str_ptr_def)
  next
    case (Some it)
    then obtain it' where it': "rd h a = Some it'" "hkey it' = hkey it" "hcontent it' = hcontent it"
      using keeps_rd_Some [OF assms(1) Some] by auto
    have "akey (strs m') it' = akey (strs m) it"
      by (rule akey_cong [OF it'(2)]) (use assms(3) [OF a] Some in \<open>simp add: str_ptr_def\<close>)
    then show ?thesis using Some it' assms(2) [OF a] by (simp add: kof_def cof_def str_ptr_def)
  qed
qed

lemma str_below:
  assumes inv: "hash_inv akey bkt htbl m cs order" and a: "a \<in> set order" and p: "str_ptr m a = Some p"
  shows "p < hbrk m" and "strs m p \<noteq> None"
proof -
  obtain k where "kof akey m a = Some k" by (rule hash_inv_kof [OF inv a])
  then show *: "strs m p \<noteq> None"
    using p akey_alloc by (auto simp: kof_def str_ptr_def split: option.splits hash_key.splits)
  then show "p < hbrk m" using hash_invD(3) [OF inv] unfolding hfresh_def by (metis not_le)
qed

lemma hash_link_inv:
  assumes inv: "hash_inv akey bkt htbl m cs order"
    and it: "lnext it = hfirst htbl" "lprev it = NULL" "akey ss it = Some k" "bkt k < hsize htbl"
    and new: "\<forall>c \<in> set order. kof akey m c \<noteq> Some k"
    and own: "\<And>p. hkey it = Key_str p \<Longrightarrow> hbrk m \<le> p"
    and ss: "\<And>p. p < hbrk m \<Longrightarrow> ss p = strs m p" "\<And>p. brk' \<le> p \<Longrightarrow> ss p = None"
      "\<And>p. ss p \<noteq> None \<Longrightarrow> strs m p = None \<Longrightarrow> hkey it = Key_str p"
    and br: "hbrk m < brk'" and a: "a = hbrk m"
  obtains htbl' h where "hash_link htbl ((items m)(a \<mapsto> it)) (bkt k) a = Some (htbl', h)"
    and "hash_inv akey bkt htbl' \<lparr>items = h, strs = ss, hbrk = brk'\<rparr> (cs(bkt k := a # cs (bkt k))) (a # order)"
    and "habs akey \<lparr>items = h, strs = ss, hbrk = brk'\<rparr> (a # order) = (k, hcontent it) # habs akey m order"
    and "htbl' = htbl\<lparr>hfirst := a, htable := (htable htbl)[bkt k := a]\<rparr>"
proof -
  let ?b = "bkt k"
  let ?h0 = "(items m)(a \<mapsto> it)"
  let ?it = "it\<lparr>hnext := htable htbl ! ?b\<rparr>"
  let ?h1 = "(items m)(a \<mapsto> ?it)"
  have fr: "items m a = None" "0 < a" using hash_invD(3) [OF inv] a by (auto simp: hfresh_def)
  have na: "a \<notin> set order" using hash_inv_below(1) [OF inv] a by auto
  have d: "dll lnext lprev ?h1 (hfirst htbl) order"
    using hash_invD(5) [OF inv] na by simp
  obtain h where push: "dll_push (\<lambda>p it. it\<lparr>lprev := p\<rparr>) ?h1 (hfirst htbl) a = Some (h, a)"
    and d': "dll lnext lprev h a (a # order)" and k: "keeps off_list ?h1 h"
    using hl.push_dll [OF d, of a ?it] fr na it(1,2) off_list_link_free by auto
  let ?m = "\<lparr>items = h, strs = ss, hbrk = brk'\<rparr>"
  let ?htbl = "htbl\<lparr>hfirst := a, htable := (htable htbl)[?b := a]\<rparr>"
  let ?cs = "cs(?b := a # cs ?b)"
  have run: "hash_link htbl ?h0 ?b a = Some (?htbl, h)"
    unfolding hash_link_def using fr push by simp
  note k' = keeps_off_list [OF k]
  have "kof akey ?m a = Some k" and ca: "cof ?m a = hcontent it" and sa: "str_ptr ?m a = (case hkey it of Key_str p \<Rightarrow> Some p | _ \<Rightarrow> None)"
  proof -
    obtain it' where it': "rd h a = Some it'" "hkey it' = hkey it" "hcontent it' = hcontent it"
      using keeps_rd_Some [OF k'(2), of a ?it] fr by auto
    then show "cof ?m a = hcontent it" "str_ptr ?m a = (case hkey it of Key_str p \<Rightarrow> Some p | _ \<Rightarrow> None)"
      by (simp_all add: cof_def str_ptr_def)
    have "akey ss it' = akey ss it" by (rule akey_cong) (simp_all add: it')
    then show "kof akey ?m a = Some k" using it' it(3) by (simp add: kof_def)
  qed
  note ka = this(1)
  have ag: "agree akey m ?m (set order)"
  proof (rule agreeI)
    show "keeps (\<lambda>it. (hkey it, hcontent it)) (items m) (h(a := None))"
      unfolding keeps_def
    proof
      fix c
      show "map_option (\<lambda>it. (hkey it, hcontent it)) ((h(a := None)) c)
          = map_option (\<lambda>it. (hkey it, hcontent it)) (items m c)"
        using k'(2) [unfolded keeps_def, rule_format, of c] fr(1) by (cases "c = a") simp_all
    qed
    show "rd (items ?m) c = rd (h(a := None)) c" if "c \<in> set order" for c
      using that na by auto
    show "strs ?m p = strs m p" if "c \<in> set order" "str_ptr m c = Some p" for c p
      using ss(1) str_below(1) [OF inv that] by simp
  qed
  have "hchains ?htbl ?m ?cs"
    unfolding hchains_def
  proof (intro allI impI)
    fix i assume i: "i < hsize ?htbl"
    have ci: "chain hnext (items m) (htable htbl ! i) (cs i)"
      using hash_invD(4) [OF inv] i by (simp add: hchains_def)
    have "a \<notin> set (cs i)" using hash_invD(7) [OF inv] i na unfolding hcover_def by auto
    then have "chain hnext ?h1 (htable htbl ! i) (cs i)" using ci by simp
    then have ch: "chain hnext h (htable htbl ! i) (cs i)" by (simp add: keeps_lseg [OF k'(1)])
    obtain it' where "rd h a = Some it'" "hnext it' = htable htbl ! ?b"
      using keeps_rd_Some [OF k'(1), of a ?it] fr by auto
    then show "chain hnext (items ?m) (htable ?htbl ! i) (?cs i)"
      using ch i hash_invD(1) [OF inv] it(4) by (cases "i = ?b") auto
  qed
  moreover have "hkeys akey bkt (hsize htbl) ?m ?cs"
  proof -
    have "\<exists>k'. kof akey ?m c = Some k' \<and> bkt k' = i" if "i < hsize htbl" "c \<in> set (cs i)" for i c
    proof -
      have "c \<in> set order" using hash_invD(7) [OF inv] that unfolding hcover_def by auto
      then have "kof akey ?m c = kof akey m c" using ag by (simp add: agree_def)
      then show ?thesis using hash_invD(6) [OF inv] that unfolding hkeys_def by auto
    qed
    then show ?thesis using ka unfolding hkeys_def by (auto split: if_splits)
  qed
  moreover have "hcover (hsize htbl) ?cs (a # order)"
    by (rule hcover_Cons [OF hash_invD(7) [OF inv] it(4)])
  moreover have "hinj akey ?m (a # order)"
    using hinj_agree [OF hash_invD(8) [OF inv] ag] ka new ag
    unfolding hinj_def agree_def by (metis set_ConsD)
  moreover have "hown ?m (a # order)"
  proof -
    have "str_ptr ?m c \<noteq> str_ptr ?m a" if c: "c \<in> set order" and s: "str_ptr ?m a = Some p" for c p
    proof -
      have "hbrk m \<le> p" using s sa own by (auto split: hash_key.splits)
      moreover have "str_ptr ?m c = str_ptr m c" using ag c by (simp add: agree_def)
      ultimately show ?thesis using s str_below(1) [OF inv c, of p] by auto
    qed
    then show ?thesis using hown_agree [OF hash_invD(9) [OF inv] ag] unfolding hown_def by (metis set_ConsD)
  qed
  moreover have "hfresh ?m"
  proof -
    have "h c = None" if "brk' \<le> c" for c
      using that br a hash_invD(3) [OF inv] keeps_None [OF k, of c] by (auto simp: hfresh_def)
    then show ?thesis using ss(2) br by (simp add: hfresh_def)
  qed
  moreover have "hexact ?m (a # order)"
    unfolding hexact_def
  proof (intro conjI allI impI)
    fix c assume "items ?m c \<noteq> None"
    then have "?h1 c \<noteq> None" using keeps_None [OF k, of c] by (cases "?h1 c") auto
    then show "c \<in> set (a # order)" using hash_invD(10) [OF inv] by (auto simp: hexact_def split: if_splits)
  next
    fix p assume p: "strs ?m p \<noteq> None"
    show "\<exists>c \<in> set (a # order). str_ptr ?m c = Some p"
    proof (cases "strs m p")
      case None
      then show ?thesis using ss(3) [of p] p sa by simp
    next
      case (Some t)
      then obtain c where "c \<in> set order" "str_ptr m c = Some p"
        using hash_invD(10) [OF inv] by (auto simp: hexact_def)
      then show ?thesis using ag by (auto simp: agree_def)
    qed
  qed
  ultimately have inv': "hash_inv akey bkt ?htbl ?m ?cs (a # order)"
    using d' hash_invD(1,2) [OF inv] by (simp add: hash_inv_def)
  have "habs akey ?m (a # order) = (k, hcontent it) # habs akey m order"
    using agree_habs [OF ag] ka ca by (simp add: habs_def)
  with run inv' show ?thesis by (rule that) simp
qed

lemma hash_unlink_inv:
  assumes inv: "hash_inv akey bkt htbl m cs (xs @ a # ys)"
    and cb: "cs b = us @ a # vs" and b: "b < hsize htbl"
    and ss: "\<And>c p. c \<in> set (xs @ ys) \<Longrightarrow> str_ptr m c = Some p \<Longrightarrow> ss p = strs m p"
      "\<And>p. hbrk m \<le> p \<Longrightarrow> ss p = None"
      "\<And>p. ss p \<noteq> None \<Longrightarrow> strs m p \<noteq> None \<and> str_ptr m a \<noteq> Some p"
  obtains htbl' h where "hash_unlink htbl (items m) b (last_or NULL us) a = Some (htbl', h)"
    and "rd h a = rd (items m) a"
    and "hash_inv akey bkt htbl' (m\<lparr>items := h(a := None), strs := ss\<rparr>) (cs(b := us @ vs)) (xs @ ys)"
    and "habs akey (m\<lparr>items := h(a := None), strs := ss\<rparr>) (xs @ ys) = habs akey m (xs @ ys)"
    and "hsize htbl' = hsize htbl" and "hcleaner htbl' = hcleaner htbl" and "htype htbl' = htype htbl"
proof -
  let ?t = "htable htbl"
  note d = hash_invD(5) [OF inv]
  have dist: "distinct (xs @ a # ys)" using d by (rule dll_distinct)
  obtain it where it: "rd (items m) a = Some it" using dll_alloc [OF d, of a] by auto
  have chb: "chain hnext (items m) (?t ! b) (us @ a # vs)"
    using hash_invD(4) [OF inv] b cb by (metis hchains_def)
  have distb: "distinct (us @ a # vs)" using chb by (rule chain_distinct)
  have disj: "i = b" if "i < hsize htbl" "c \<in> set (cs i)" "c \<in> set (us @ a # vs)" for i c
    using hash_inv_disjoint [OF inv that(1) b that(2)] that(3) cb by simp
  have seg: "lseg hnext (items m) (?t ! b) us a" and tl: "chain hnext (items m) (hnext it) vs"
    using chb it by (auto simp: lseg_split)
  \<comment> \<open>the chain\<close>
  obtain t1 h1 where st: "(if last_or NULL us \<noteq> NULL
        then do { h1 \<leftarrow> wr (items m) (last_or NULL us) (\<lambda>p. p\<lparr>hnext := hnext it\<rparr>); Some (?t, h1) }
        else Some (?t[b := hnext it], items m)) = Some (t1, h1)"
    and lt: "length t1 = length ?t" and ch1: "chain hnext h1 (t1 ! b) (us @ vs)"
    and oth: "\<And>i. i < hsize htbl \<Longrightarrow> i \<noteq> b \<Longrightarrow> chain hnext h1 (t1 ! i) (cs i)"
    and h1: "\<And>c. c \<notin> set us \<Longrightarrow> h1 c = items m c"
    and k1: "keeps (\<lambda>it. (hkey it, hcontent it, lnext it, lprev it)) (items m) h1"
  proof (cases us rule: rev_cases)
    case Nil
    show ?thesis
    proof (rule that [of "?t[b := hnext it]" "items m"])
      show "chain hnext (items m) (?t[b := hnext it] ! i) (cs i)" if "i < hsize htbl" "i \<noteq> b" for i
        using hash_invD(4) [OF inv] that by (simp add: hchains_def)
    qed (use Nil tl b hash_invD(1) [OF inv] in simp_all)
  next
    case (snoc zs z)
    have zl: "last_or NULL us = z" using snoc by (simp add: last_or_def)
    obtain w where w: "rd (items m) z = Some w" using lseg_alloc [OF seg, of z] snoc by auto
    have z0: "z \<noteq> NULL" using w by auto
    let ?h1 = "(items m)(z := Some (w\<lparr>hnext := hnext it\<rparr>))"
    have "lseg hnext ?h1 (?t ! b) (zs @ [z]) (hnext it)"
    proof (rule lseg_set_link [OF _ w])
      show "lseg hnext (items m) (?t ! b) zs z" using seg snoc by (simp add: lseg_snoc)
    qed (use distb snoc in auto)
    moreover have "chain hnext ?h1 (hnext it) vs" using tl distb snoc by simp
    ultimately have c1: "chain hnext ?h1 (?t ! b) (us @ vs)" using snoc z0 by (auto simp: lseg_append)
    show ?thesis
    proof (rule that [of ?t ?h1])
      show "chain hnext ?h1 (?t ! i) (cs i)" if i: "i < hsize htbl" "i \<noteq> b" for i
      proof -
        have "z \<notin> set (cs i)" using disj [OF i(1), of z] i(2) snoc by auto
        then show ?thesis using hash_invD(4) [OF inv] i by (simp add: hchains_def)
      qed
      show "keeps (\<lambda>it. (hkey it, hcontent it, lnext it, lprev it)) (items m) ?h1"
        by (rule keeps_upd [OF w]) simp
    qed (use zl z0 w c1 snoc in auto)
  qed
  have kk: "keeps g (items m) h1" if "\<And>it. g it = f (hkey it, hcontent it, lnext it, lprev it)"
    for g :: "ape_htable_item \<Rightarrow> 'c" and f
  proof -
    have "map_option g x = map_option f (map_option (\<lambda>it. (hkey it, hcontent it, lnext it, lprev it)) x)" for x
      by (cases x) (simp_all add: that)
    then show ?thesis using k1 by (simp add: keeps_def)
  qed
  have "dll lnext lprev h1 (hfirst htbl) (xs @ a # ys) = dll lnext lprev (items m) (hfirst htbl) (xs @ a # ys)"
    by (rule dll_cong)
      (simp_all add: keeps_rd [OF kk [of lnext "\<lambda>(k, c, n, p). n"]] keeps_rd [OF kk [of lprev "\<lambda>(k, c, n, p). p"]])
  then have d1: "dll lnext lprev h1 (hfirst htbl) (xs @ a # ys)" using d by simp
  \<comment> \<open>the list of all items\<close>
  obtain h first where unl: "dll_unlink lnext lprev (\<lambda>p it. it\<lparr>lnext := p\<rparr>) (\<lambda>p it. it\<lparr>lprev := p\<rparr>)
        h1 (hfirst htbl) a = Some (h, first)"
    and d2: "dll lnext lprev h first (xs @ ys)" and fr: "\<forall>c. c \<notin> set (xs @ ys) \<longrightarrow> h c = h1 c"
    and k: "keeps off_list h1 h"
    using hl.unlink_dll [OF d1] off_list_link_free by blast
  note k' = keeps_off_list [OF k]
  have ha: "h a = items m a" using fr h1 dist distb by auto
  let ?htbl = "htbl\<lparr>hfirst := first, htable := t1\<rparr>"
  let ?m = "m\<lparr>items := h(a := None), strs := ss\<rparr>"
  let ?cs = "cs(b := us @ vs)"
  have run: "hash_unlink htbl (items m) b (last_or NULL us) a = Some (?htbl, h)"
    unfolding hash_unlink_def using it st unl by simp
  have ag: "agree akey m ?m (set (xs @ ys))"
  proof (rule agreeI)
    show "keeps (\<lambda>it. (hkey it, hcontent it)) (items m) h"
      by (rule keeps_trans [OF kk [of _ "\<lambda>(k, c, n, p). (k, c)"] k'(2)]) simp
    show "rd (items ?m) c = rd h c" if "c \<in> set (xs @ ys)" for c using that dist by auto
  qed (use ss(1) in simp)
  have cov: "hcover (hsize htbl) ?cs (xs @ ys)"
    using disj by (intro hcover_remove [OF hash_invD(7) [OF inv] cb b dist distb]) auto
  have nin: "a \<notin> set (?cs i)" if "i < hsize htbl" for i
  proof -
    have "a \<notin> set (xs @ ys)" using dist by auto
    then show ?thesis using cov that unfolding hcover_def by blast
  qed
  have "hchains ?htbl ?m ?cs"
    unfolding hchains_def
  proof (intro allI impI)
    fix i assume i: "i < hsize ?htbl"
    have "chain hnext h1 (t1 ! i) (?cs i)" using oth [of i] ch1 i by (cases "i = b") auto
    then have "chain hnext h (t1 ! i) (?cs i)" by (simp add: keeps_lseg [OF k'(1)])
    then show "chain hnext (items ?m) (htable ?htbl ! i) (?cs i)" using nin [of i] i by simp
  qed
  moreover have "dll lnext lprev (items ?m) (hfirst ?htbl) (xs @ ys)" using d2 dist by simp
  moreover have "hkeys akey bkt (hsize htbl) ?m ?cs"
    unfolding hkeys_def
  proof (intro allI impI ballI)
    fix i c assume i: "i < hsize htbl" and c: "c \<in> set (?cs i)"
    have "c \<in> set (cs i)" using c cb by (auto split: if_splits)
    moreover have "c \<in> set (xs @ ys)" using cov i c unfolding hcover_def by blast
    moreover have "kof akey ?m c = kof akey m c" if "c \<in> set (xs @ ys)"
      using ag that unfolding agree_def by blast
    ultimately show "\<exists>k. kof akey ?m c = Some k \<and> bkt k = i"
      using hash_invD(6) [OF inv] i unfolding hkeys_def by simp
  qed
  moreover have "hinj akey ?m (xs @ ys)"
    by (rule hinj_agree [OF hinj_sub [OF hash_invD(8) [OF inv]] ag]) auto
  moreover have "hown ?m (xs @ ys)"
    by (rule hown_agree [OF hown_sub [OF hash_invD(9) [OF inv]] ag]) auto
  moreover have "hfresh ?m"
  proof -
    have "h c = None" if "hbrk m \<le> c" for c
      using hash_invD(3) [OF inv] that keeps_None [OF k] keeps_None [OF k1] by (auto simp: hfresh_def)
    then show ?thesis using hash_invD(3) [OF inv] ss(2) by (simp add: hfresh_def)
  qed
  moreover have "hexact ?m (xs @ ys)"
    unfolding hexact_def
  proof (intro conjI allI impI)
    fix c assume c: "items ?m c \<noteq> None"
    then have "h c \<noteq> None" and ca: "c \<noteq> a" by (auto split: if_splits)
    then have "items m c \<noteq> None" using keeps_None [OF k, of c] keeps_None [OF k1, of c] by (cases "items m c") auto
    then show "c \<in> set (xs @ ys)" using hash_invD(10) [OF inv] ca by (auto simp: hexact_def)
  next
    fix p assume "strs ?m p \<noteq> None"
    then have p: "strs m p \<noteq> None" "str_ptr m a \<noteq> Some p" using ss(3) [of p] by auto
    then obtain c where "c \<in> set (xs @ a # ys)" "str_ptr m c = Some p"
      using hash_invD(10) [OF inv] unfolding hexact_def by blast
    then show "\<exists>c \<in> set (xs @ ys). str_ptr ?m c = Some p" using p(2) ag by (auto simp: agree_def)
  qed
  ultimately have "hash_inv akey bkt ?htbl ?m ?cs (xs @ ys)"
    using cov lt hash_invD(1,2) [OF inv] by (simp add: hash_inv_def)
  moreover have "rd h a = rd (items m) a" using ha by (simp add: rd_def)
  ultimately show ?thesis
    using run agree_habs [OF ag] by (intro that [of ?htbl h]) simp_all
qed

lemma hash_set_content:
  assumes inv: "hash_inv akey bkt htbl m cs order" and a: "a \<in> set order" and br: "hbrk m \<le> brk'"
    and it: "rd (items m) a = Some it" and k: "kof akey m a = Some k"
    and m': "m' = m\<lparr>items := (items m)(a := Some (it\<lparr>hcontent := c\<rparr>)), hbrk := brk'\<rparr>"
  shows "hash_inv akey bkt htbl m' cs order"
    and "habs akey m' order = AList.update k c (habs akey m order)"
proof -
  let ?m = "m\<lparr>items := (items m)(a := Some (it\<lparr>hcontent := c\<rparr>)), hbrk := brk'\<rparr>"
  let ?h = "(items m)(a := Some (it\<lparr>hcontent := c\<rparr>))"
  have a0: "a \<noteq> NULL" using it by auto
  have kof: "kof akey ?m b = kof akey m b" for b
  proof (cases "b = a")
    case True
    have "akey (strs m) (it\<lparr>hcontent := c\<rparr>) = akey (strs m) it" by (rule akey_cong) auto
    then show ?thesis using True it a0 by (simp add: kof_def)
  qed (auto simp: kof_def split: option.split)
  have sp: "str_ptr ?m b = str_ptr m b" for b
    using it a0 by (cases "b = a") (auto simp: str_ptr_def)
  have ks: "map_option g (rd ?h b) = map_option g (rd (items m) b)"
    if "g (it\<lparr>hcontent := c\<rparr>) = g it" for b and g :: "ape_htable_item \<Rightarrow> ptr"
    using it a0 that by (cases "b = a") auto
  have "hchains htbl ?m cs"
    using hash_invD(4) [OF inv] lseg_cong [of _ hnext ?h "items m"] ks [of hnext]
    by (simp add: hchains_def)
  moreover have "dll lnext lprev ?h (hfirst htbl) order"
    using hash_invD(5) [OF inv] dll_cong [of order lnext ?h "items m" lprev] ks [of lnext] ks [of lprev]
    by simp
  moreover have "hfresh ?m"
    using hash_invD(3) [OF inv] br hash_inv_below(1) [OF inv a] by (auto simp: hfresh_def)
  moreover have "hexact ?m order"
    using hash_invD(10) [OF inv] a by (auto simp: hexact_def sp)
  ultimately show "hash_inv akey bkt htbl m' cs order"
    unfolding m' using inv by (simp add: hash_inv_def hkeys_def hinj_def hown_def kof sp)
  have "cof ?m b = (if b = a then c else cof m b)" for b
    using a0 by (simp add: cof_def)
  then have ha: "habs akey ?m order = map (\<lambda>b. (the (kof akey m b), if b = a then c else cof m b)) order"
    by (simp add: habs_def kof)
  have key: "the (kof akey m b) = k \<longleftrightarrow> b = a" if "b \<in> set order" for b
    by (rule the_kof_iff [OF inv a that k])
  have "AList.update k c (map (\<lambda>b. (f b, g b)) bs) = map (\<lambda>b. (f b, if b = a then c else g b)) bs"
    if "\<forall>b \<in> set bs. f b = k \<longleftrightarrow> b = a" "a \<in> set bs" "distinct bs" for f g bs
    using that
  proof (induction bs)
    case (Cons b bs)
    show ?case
    proof (cases "b = a")
      case True
      then have "map (\<lambda>b. (f b, g b)) bs = map (\<lambda>b. (f b, if b = a then c else g b)) bs"
        using Cons.prems(3) by auto
      then show ?thesis using True Cons.prems by simp
    next
      case False
      then show ?thesis using Cons by auto
    qed
  qed simp
  from this [of order "\<lambda>b. the (kof akey m b)" "cof m"]
  have "AList.update k c (habs akey m order)
      = map (\<lambda>b. (the (kof akey m b), if b = a then c else cof m b)) order"
    using key a dll_distinct [OF hash_invD(5) [OF inv]] by (simp add: habs_def)
  then show "habs akey m' order = AList.update k c (habs akey m order)" using ha m' by simp
qed

lemma habs_delete:
  assumes inv: "hash_inv akey bkt htbl m cs (xs @ a # ys)" and k: "kof akey m a = Some k"
  shows "habs akey m (xs @ ys) = AList.delete k (habs akey m (xs @ a # ys))"
proof -
  have key: "the (kof akey m b) = k \<longleftrightarrow> b = a" if "b \<in> set (xs @ a # ys)" for b
    by (rule the_kof_iff [OF inv _ that k]) simp
  have d: "distinct (xs @ a # ys)" using dll_distinct [OF hash_invD(5) [OF inv]] .
  have f: "filter (\<lambda>b. k \<noteq> the (kof akey m b)) zs = zs" if "set zs \<subseteq> set (xs @ ys)" for zs
    using key d that by (intro filter_True) auto
  show ?thesis
    using f [of xs] f [of ys] k by (simp add: habs_def AList.delete_eq filter_map comp_def)
qed

end

end
