(* ===== verification/Hash_Ops.thy ===== *)
theory Hash_Ops
  imports Hash_Props
begin

text \<open>
  The contracts of the hash table's operations, for integer keys and for string keys, and the
  interface \<open>map_store\<close> the rest of the library can use them through.
\<close>

section \<open>MurmurHash2 and strcasecmp\<close>

lemma murmur_loop_total:
  "len \<le> int (length data) \<Longrightarrow> \<exists>rest l h'. murmur_loop data len h = Some (rest, l, h')
     \<and> l < 4 \<and> l \<le> int (length rest)"
  by (induction data len h rule: murmur_loop.induct) auto

lemma MurmurHash2_total:
  assumes "len \<le> int (length key)"
  shows "\<exists>h. MurmurHash2 key len seed = Some h"
  using murmur_loop_total [OF assms, of "seed XOR word_of_int len"]
  by (auto simp: MurmurHash2_def murmur_tail_def Let_def)

lemma ape_hash_str_total:
  assumes "len \<le> int (length key)" and "0 < n"
  obtains b where "ape_hash_str seed key len n = Some b" and "b < n"
  using MurmurHash2_total [OF assms(1), of "ucast seed"] assms(2) by (auto simp: ape_hash_str_def)

lemma murmur_loop_stop: "len < 4 \<Longrightarrow> murmur_loop data len h = Some (data, len, h)"
  by (induction data len h rule: murmur_loop.induct) auto

lemma murmur_loop_append:
  "len \<le> int (length data) \<Longrightarrow>
    murmur_loop (data @ zs) len h = map_option (\<lambda>(r, l, h). (r @ zs, l, h)) (murmur_loop data len h)"
  by (induction data len h rule: murmur_loop.induct) (auto simp: murmur_loop_stop)

text \<open>The hash of a key is a function of its first \<open>len\<close> bytes.\<close>

lemma MurmurHash2_append:
  assumes "len \<le> int (length key)"
  shows "MurmurHash2 (key @ zs) len seed = MurmurHash2 key len seed"
proof -
  obtain r l h where "murmur_loop key len (seed XOR word_of_int len) = Some (r, l, h)" and "l \<le> int (length r)"
    using murmur_loop_total [OF assms] by blast
  moreover from this(2) have "murmur_tail (r @ zs) l h = murmur_tail r l h"
    by (auto simp: murmur_tail_def nth_append Let_def)
  ultimately show ?thesis
    by (simp add: MurmurHash2_def murmur_loop_append [OF assms])
qed

lemma tolower_0 [simp]: "tolower c = 0 \<longleftrightarrow> c = 0"
proof -
  have "c + 32 \<noteq> 0" if "c \<le> 90" for c :: byte
  proof
    assume "c + 32 = 0"
    then have "c = - 32" by (simp add: eq_neg_iff_add_eq_0)
    then show False using that by simp
  qed
  then show ?thesis by (auto simp: tolower_def)
qed

lemma tolower_zero [simp]: "tolower 0 = 0"
  by simp

lemma strcasecmp_eq:
  "0 \<notin> set s \<Longrightarrow> 0 \<notin> set t \<Longrightarrow>
    \<exists>c. strcasecmp (s @ [0]) (t @ [0]) = Some c \<and> (c = 0 \<longleftrightarrow> map tolower s = map tolower t)"
proof (induction s arbitrary: t)
  case Nil
  then show ?case by (cases t) (auto simp: word_uint_eq_iff [symmetric] uint_0_iff)
next
  case (Cons a s)
  show ?case
  proof (cases t)
    case Nil
    then show ?thesis using Cons.prems by (auto simp: word_uint_eq_iff [symmetric] uint_0_iff)
  next
    case (Cons b u)
    then show ?thesis using Cons.IH [of u] Cons.prems by (auto simp: word_uint_eq_iff [symmetric] uint_0_iff)
  qed
qed

section \<open>Tables with integer keys\<close>

definition akey64 :: "byte list heap \<Rightarrow> ape_htable_item \<Rightarrow> uint64 option" where
  "akey64 ss it = (case hkey it of Key_integer k \<Rightarrow> Some k | Key_str _ \<Rightarrow> None)"

definition bkt64 :: "nat \<Rightarrow> uint64 \<Rightarrow> nat" where
  "bkt64 n k = unat k mod n"

text \<open>The values of an association list, tagged as pointers (or scalars).\<close>

definition tagged :: "('v \<Rightarrow> hash_content) \<Rightarrow> ('k \<times> 'v) list \<Rightarrow> ('k \<times> hash_content) list" where
  "tagged tag al = map (\<lambda>(k, v). (k, tag v)) al"

lemma tagged_simps [simp]:
  "tagged tag [] = []" "tagged tag ((k, v) # al) = (k, tag v) # tagged tag al"
  by (simp_all add: tagged_def)

lemma map_of_tagged: "map_of (tagged tag al) k = map_option tag (map_of al k)"
  by (simp add: tagged_def map_of_map)

lemma update_tagged: "AList.update k (tag v) (tagged tag al) = tagged tag (AList.update k v al)"
  by (induction al) auto

lemma delete_tagged: "AList.delete k (tagged tag al) = tagged tag (AList.delete k al)"
  by (induction al) auto

lemma tagged_keys [simp]: "map fst (tagged tag al) = map fst al"
  by (induction al) auto

text \<open>The table holds the bindings \<open>al\<close>, newest first.\<close>

definition table64 :: "'s ape_htable \<Rightarrow> hash_mem \<Rightarrow> (uint64 \<times> ptr) list \<Rightarrow> bool" where
  "table64 htbl m al \<longleftrightarrow> (\<exists>cs order. hash_inv akey64 (bkt64 (hsize htbl)) htbl m cs order
     \<and> habs akey64 m order = tagged Addrs al)"

interpretation h64: hash_keys akey64
  by unfold_locales (auto simp: akey64_def split: hash_key.splits)

lemma table64_distinct: "table64 htbl m al \<Longrightarrow> distinct (map fst al)"
  unfolding table64_def by (metis habs_keys_distinct tagged_keys)

text \<open>Where the loop of an operation stops.\<close>

lemma find64:
  assumes inv: "hash_inv akey64 (bkt64 (hsize htbl)) htbl m cs order"
    and h: "\<forall>a \<in> set order. rd h a = rd (items m) a"
  shows "(map_of (habs akey64 m order) key = None \<and> (\<forall>a \<in> set order. kof akey64 m a \<noteq> Some key)
           \<and> (\<exists>prv. chain_find (key_is key) h NULL (htable htbl ! bkt64 (hsize htbl) key) = Some (prv, NULL)))
       \<or> (\<exists>us a vs. cs (bkt64 (hsize htbl) key) = us @ a # vs \<and> a \<in> set order \<and> kof akey64 m a = Some key
           \<and> map_of (habs akey64 m order) key = Some (cof m a)
           \<and> chain_find (key_is key) h NULL (htable htbl ! bkt64 (hsize htbl) key) = Some (last_or NULL us, a))"
proof -
  have b: "bkt64 (hsize htbl) key < hsize htbl" using hash_invD(2) [OF inv] by (simp add: bkt64_def)
  have sub: "a \<in> set order" if "a \<in> set (cs (bkt64 (hsize htbl) key))" for a
    using hash_invD(7) [OF inv] b that unfolding hcover_def by blast
  have t: "key_is key it = Some (k' = key)" if "akey64 ss it = Some k'" for ss it k'
    using that by (auto simp: akey64_def key_is_def split: hash_key.splits)
  have r: "rd h a = rd (items m) a" if "a \<in> set (cs (bkt64 (hsize htbl) key))" for a
    using h sub [OF that] by blast
  have "(map_of (habs akey64 m order) key = None \<and> (\<forall>a \<in> set order. kof akey64 m a \<noteq> Some key)
           \<and> chain_find (key_is key) h NULL (htable htbl ! bkt64 (hsize htbl) key)
               = Some (last_or NULL (cs (bkt64 (hsize htbl) key)), NULL))
       \<or> (\<exists>us a vs. cs (bkt64 (hsize htbl) key) = us @ a # vs \<and> a \<in> set order \<and> kof akey64 m a = Some key
           \<and> map_of (habs akey64 m order) key = Some (cof m a)
           \<and> chain_find (key_is key) h NULL (htable htbl ! bkt64 (hsize htbl) key) = Some (last_or NULL us, a))"
    by (rule chain_find_key [OF inv b]) (simp_all add: r t)
  then show ?thesis by blast
qed

lemma hash_slot64_Some: "0 < hsize htbl \<Longrightarrow> hash_slot64 htbl key = Some (bkt64 (hsize htbl) key)"
  by (simp add: hash_slot64_def bkt64_def)

lemma kof_alloc: "kof akey m a = Some k \<Longrightarrow> \<exists>it. rd (items m) a = Some it \<and> akey (strs m) it = Some k"
  by (auto simp: kof_def split: option.splits)

lemma seek64_spec:
  assumes "table64 htbl m al"
  shows "hashtbl_seek64 htbl key m = Some (case map_of al key of None \<Rightarrow> NULL | Some a \<Rightarrow> a)"
proof -
  obtain cs order where inv: "hash_inv akey64 (bkt64 (hsize htbl)) htbl m cs order"
    and al: "habs akey64 m order = tagged Addrs al" using assms unfolding table64_def by blast
  note sl = hash_slot64_Some [OF hash_invD(2) [OF inv]]
  from find64 [OF inv, of "items m" key, simplified] show ?thesis
  proof (elim disjE exE conjE)
    fix prv assume "map_of (habs akey64 m order) key = None"
      "chain_find (key_is key) (items m) NULL (htable htbl ! bkt64 (hsize htbl) key) = Some (prv, NULL)"
    then show ?thesis by (simp add: hashtbl_seek64_def sl al map_of_tagged)
  next
    fix us a vs assume k: "kof akey64 m a = Some key"
      and mo: "map_of (habs akey64 m order) key = Some (cof m a)"
      and f: "chain_find (key_is key) (items m) NULL (htable htbl ! bkt64 (hsize htbl) key) = Some (last_or NULL us, a)"
    obtain it where it: "rd (items m) a = Some it" using kof_alloc [OF k] by blast
    then have "a \<noteq> NULL" by auto
    then show ?thesis
      using f mo it
      by (cases "hcontent it") (auto simp: hashtbl_seek64_def sl al map_of_tagged content_addrs_def cof_def)
  qed
qed

lemma append64_spec:
  assumes t: "table64 htbl m al"
    and c: "map_of al key \<noteq> None \<Longrightarrow> run_clean htbl (hbrk m) \<lparr>hkey = Key_integer key, hcontent = Addrs a,
        hnext = NULL, lnext = hfirst htbl, lprev = NULL\<rparr> s = Some s'"
    and n: "map_of al key = None \<Longrightarrow> s' = s"
  shows "\<exists>htbl' m'. hashtbl_append64 htbl key a m s = Some (htbl', m', s')
     \<and> hsize htbl' = hsize htbl \<and> hcleaner htbl' = hcleaner htbl \<and> htype htbl' = htype htbl
     \<and> table64 htbl' m' (if map_of al key = None then (key, a) # al else AList.update key a al)"
proof -
  obtain cs order where inv: "hash_inv akey64 (bkt64 (hsize htbl)) htbl m cs order"
    and al: "habs akey64 m order = tagged Addrs al" using t unfolding table64_def by blast
  note sl = hash_slot64_Some [OF hash_invD(2) [OF inv]]
  let ?n = "hsize htbl"
  let ?it = "\<lparr>hkey = Key_integer key, hcontent = Addrs a, hnext = NULL, lnext = hfirst htbl, lprev = NULL\<rparr>"
  let ?h0 = "(items m)(hbrk m \<mapsto> ?it)"
  have fr: "items m (hbrk m) = None" "0 < hbrk m" using hash_invD(3) [OF inv] by (auto simp: hfresh_def)
  have h0: "\<forall>c \<in> set order. rd ?h0 c = rd (items m) c"
    using hash_inv_below(1) [OF inv] by auto
  from find64 [OF inv h0, of key] show ?thesis
  proof (elim disjE exE conjE)
    fix prv assume no: "map_of (habs akey64 m order) key = None" "\<forall>a \<in> set order. kof akey64 m a \<noteq> Some key"
      and f: "chain_find (key_is key) ?h0 NULL (htable htbl ! bkt64 ?n key) = Some (prv, NULL)"
    obtain htbl' h where l: "hash_link htbl ?h0 (bkt64 ?n key) (hbrk m) = Some (htbl', h)"
      and inv': "hash_inv akey64 (bkt64 ?n) htbl' \<lparr>items = h, strs = strs m, hbrk = hbrk m + 1\<rparr>
                  (cs(bkt64 ?n key := hbrk m # cs (bkt64 ?n key))) (hbrk m # order)"
      and ha: "habs akey64 \<lparr>items = h, strs = strs m, hbrk = hbrk m + 1\<rparr> (hbrk m # order)
                 = (key, hcontent ?it) # habs akey64 m order"
      and sz: "htbl' = htbl\<lparr>hfirst := hbrk m, htable := (htable htbl)[bkt64 ?n key := hbrk m]\<rparr>"
      using h64.hash_link_inv [OF inv, of ?it "strs m" key "hbrk m + 1" "hbrk m"] no(2)
        hash_invD(2,3) [OF inv]
      by (auto simp: akey64_def bkt64_def hfresh_def)
    have "hashtbl_append64 htbl key a m s = Some (htbl', \<lparr>items = h, strs = strs m, hbrk = hbrk m + 1\<rparr>, s)"
      unfolding hashtbl_append64_def using sl f l by simp
    moreover have "table64 htbl' \<lparr>items = h, strs = strs m, hbrk = hbrk m + 1\<rparr> ((key, a) # al)"
      unfolding table64_def using inv' ha al sz by auto
    moreover have "map_of al key = None" using no(1) al by (simp add: map_of_tagged)
    ultimately show ?thesis using n sz by auto
  next
    fix us d vs assume d: "d \<in> set order" and k: "kof akey64 m d = Some key"
      and mo: "map_of (habs akey64 m order) key = Some (cof m d)"
      and f: "chain_find (key_is key) ?h0 NULL (htable htbl ! bkt64 ?n key) = Some (last_or NULL us, d)"
    obtain it where it: "rd (items m) d = Some it" using kof_alloc [OF k] by blast
    then have d0: "d \<noteq> NULL" by auto
    obtain old where old: "map_of al key = Some old" using mo al by (auto simp: map_of_tagged)
    let ?m = "m\<lparr>items := (items m)(d := Some (it\<lparr>hcontent := Addrs a\<rparr>)), hbrk := hbrk m + 1\<rparr>"
    have idem: "?h0(hbrk m := None) = items m" using fr by auto
    have "hashtbl_append64 htbl key a m s = Some (htbl, ?m, s')"
      unfolding hashtbl_append64_def
      using sl f d0 it fr c old idem by (simp add: fun_upd_idem)
    moreover have "table64 htbl ?m (AList.update key a al)"
      using h64.hash_set_content [OF inv d _ it k refl, of "hbrk m + 1" "Addrs a"] al
      unfolding table64_def by (auto simp: update_tagged)
    ultimately show ?thesis using old by auto
  qed
qed

lemma erase64_spec:
  assumes t: "table64 htbl m al"
    and c: "\<And>old p it. map_of al key = Some old \<Longrightarrow> hcontent it = Addrs old \<Longrightarrow> run_clean htbl p it s \<noteq> None"
  shows "\<exists>htbl' m' s'. hashtbl_erase64 htbl key m s = Some (htbl', m', s')
     \<and> hsize htbl' = hsize htbl \<and> hcleaner htbl' = hcleaner htbl \<and> htype htbl' = htype htbl
     \<and> table64 htbl' m' (AList.delete key al)
     \<and> (case map_of al key of None \<Rightarrow> s' = s
        | Some old \<Rightarrow> \<exists>p it. hcontent it = Addrs old \<and> run_clean htbl p it s = Some s')"
proof -
  obtain cs order where inv: "hash_inv akey64 (bkt64 (hsize htbl)) htbl m cs order"
    and al: "habs akey64 m order = tagged Addrs al" using t unfolding table64_def by blast
  note sl = hash_slot64_Some [OF hash_invD(2) [OF inv]]
  let ?n = "hsize htbl"
  from find64 [OF inv, of "items m" key, simplified] show ?thesis
  proof (elim disjE exE conjE)
    fix prv assume no: "map_of (habs akey64 m order) key = None"
      and f: "chain_find (key_is key) (items m) NULL (htable htbl ! bkt64 ?n key) = Some (prv, NULL)"
    have no': "map_of al key = None" using no al by (simp add: map_of_tagged)
    then have "AList.delete key al = al" by (simp add: delete_id map_of_eq_None_iff)
    moreover have "hashtbl_erase64 htbl key m s = Some (htbl, m, s)"
      unfolding hashtbl_erase64_def using sl f by simp
    ultimately show ?thesis using no' t by auto
  next
    fix us d vs assume d: "d \<in> set order" and k: "kof akey64 m d = Some key"
      and mo: "map_of (habs akey64 m order) key = Some (cof m d)"
      and cb: "cs (bkt64 ?n key) = us @ d # vs"
      and f: "chain_find (key_is key) (items m) NULL (htable htbl ! bkt64 ?n key) = Some (last_or NULL us, d)"
    obtain it where it: "rd (items m) d = Some it" using kof_alloc [OF k] by blast
    then have d0: "d \<noteq> NULL" by auto
    obtain old where old: "map_of al key = Some old" "cof m d = Addrs old"
      using mo al by (auto simp: map_of_tagged)
    obtain xs ys where sp: "order = xs @ d # ys" using split_list [OF d] by blast
    have b: "bkt64 ?n key < ?n" using hash_invD(2) [OF inv] by (simp add: bkt64_def)
    have nstr: "str_ptr m d = None"
      using it k by (auto simp: str_ptr_def kof_def akey64_def split: hash_key.splits)
    obtain htbl' h where u: "hash_unlink htbl (items m) (bkt64 ?n key) (last_or NULL us) d = Some (htbl', h)"
      and rh: "rd h d = rd (items m) d"
      and inv': "hash_inv akey64 (bkt64 ?n) htbl' (m\<lparr>items := h(d := None), strs := strs m\<rparr>)
                   (cs(bkt64 ?n key := us @ vs)) (xs @ ys)"
      and ha: "habs akey64 (m\<lparr>items := h(d := None), strs := strs m\<rparr>) (xs @ ys) = habs akey64 m (xs @ ys)"
      and sz: "hsize htbl' = ?n" "hcleaner htbl' = hcleaner htbl" "htype htbl' = htype htbl"
      using h64.hash_unlink_inv [OF inv [unfolded sp] cb b, of "strs m"] hash_invD(3) [OF inv] nstr
      by (auto simp: hfresh_def)
    have ct: "hcontent it = Addrs old" using old(2) it by (simp add: cof_def)
    obtain s' where rc: "run_clean htbl d it s = Some s'" using c [OF old(1) ct, of d] by blast
    have "hashtbl_erase64 htbl key m s = Some (htbl', m\<lparr>items := h(d := None)\<rparr>, s')"
      unfolding hashtbl_erase64_def using sl f d0 it rc u rh by simp
    moreover have "table64 htbl' (m\<lparr>items := h(d := None)\<rparr>) (AList.delete key al)"
      unfolding table64_def
    proof (intro exI conjI)
      show "hash_inv akey64 (bkt64 (hsize htbl')) htbl' (m\<lparr>items := h(d := None)\<rparr>)
          (cs(bkt64 ?n key := us @ vs)) (xs @ ys)" using inv' sz by simp
      have "habs akey64 m (xs @ ys) = tagged Addrs (AList.delete key al)"
        using h64.habs_delete [OF inv [unfolded sp] k] al sp by (simp add: delete_tagged)
      then show "habs akey64 (m\<lparr>items := h(d := None)\<rparr>) (xs @ ys) = tagged Addrs (AList.delete key al)"
        using ha by simp
    qed
    ultimately show ?thesis using sz rc ct old(1)
      by (intro exI [of _ htbl'] exI [of _ "m\<lparr>items := h(d := None)\<rparr>"] exI [of _ s']) auto
  qed
qed

end
