(* ===== verification/Hash_Str.thy ===== *)
theory Hash_Str
  imports Hash_Ops
begin

text \<open>
  Tables with string keys. The table tells two keys apart unless they hash to the same chain and
  are equal up to case: the abstract key of a string is the number of its chain and its
  lower-case form.
\<close>

section \<open>Keys\<close>

definition c_string :: "byte list \<Rightarrow> bool" where
  "c_string t \<longleftrightarrow> t \<noteq> [] \<and> last t = 0 \<and> 0 \<notin> set (butlast t)"

definition strkey :: "uint64 \<Rightarrow> nat \<Rightarrow> byte list \<Rightarrow> (nat \<times> byte list) option" where
  "strkey seed n t = map_option (\<lambda>b. (b, map tolower (butlast t)))
     (ape_hash_str seed t (int (length t) - 1) n)"

definition akeyS :: "uint64 \<Rightarrow> nat \<Rightarrow> byte list heap \<Rightarrow> ape_htable_item \<Rightarrow> (nat \<times> byte list) option" where
  "akeyS seed n ss it = (case hkey it of
     Key_str p \<Rightarrow> (case ss p of Some t \<Rightarrow> if p \<noteq> NULL \<and> c_string t then strkey seed n t else None
                  | None \<Rightarrow> None)
   | Key_integer _ \<Rightarrow> None)"

interpretation hs: hash_keys "akeyS seed n" for seed n
  by unfold_locales (auto simp: akeyS_def split: hash_key.splits option.splits)

definition tableS ::
  "uint64 \<Rightarrow> ('v \<Rightarrow> hash_content) \<Rightarrow> 's ape_htable \<Rightarrow> hash_mem \<Rightarrow> ((nat \<times> byte list) \<times> 'v) list \<Rightarrow> bool" where
  "tableS seed tag htbl m al \<longleftrightarrow> (\<exists>cs order. hash_inv (akeyS seed (hsize htbl)) fst htbl m cs order
     \<and> habs (akeyS seed (hsize htbl)) m order = tagged tag al)"

lemma c_string_split: "c_string t \<Longrightarrow> t = butlast t @ [0] \<and> 0 \<notin> set (butlast t)"
  by (metis append_butlast_last_id c_string_def)

lemma strkey_total:
  assumes "c_string t" and "0 < n"
  obtains b where "ape_hash_str seed t (int (length t) - 1) n = Some b" and "b < n"
    and "strkey seed n t = Some (b, map tolower (butlast t))"
  using ape_hash_str_total [of "int (length t) - 1" t n seed] assms(2) by (auto simp: strkey_def)

lemma strkey_bkt: "strkey seed n t = Some k \<Longrightarrow> ape_hash_str seed t (int (length t) - 1) n = Some (fst k)"
  by (auto simp: strkey_def)

lemma strkey_lt:
  assumes "strkey seed n t = Some k" and "c_string t" and "0 < n"
  shows "fst k < n"
  using assms(1) strkey_total [OF assms(2,3), of seed] by (metis fst_conv option.inject)

lemma str_is_key:
  assumes k: "strkey seed n key = Some k" "c_string key"
    and k': "akeyS seed n ss it = Some k'" "fst k' = fst k"
    and ss: "\<forall>p. ss p \<noteq> None \<longrightarrow> ss' p = ss p"
  shows "str_is ss' key it = Some (k' = k)"
proof -
  obtain p t where p: "hkey it = Key_str p" "ss p = Some t" "p \<noteq> NULL" "c_string t" "strkey seed n t = Some k'"
    using k'(1) by (auto simp: akeyS_def split: hash_key.splits option.splits if_splits)
  obtain c where c: "strcasecmp t key = Some c"
    "c = 0 \<longleftrightarrow> map tolower (butlast t) = map tolower (butlast key)"
    using strcasecmp_eq [of "butlast t" "butlast key"] c_string_split [OF p(4)] c_string_split [OF k(2)]
    by auto
  have "k' = k \<longleftrightarrow> map tolower (butlast t) = map tolower (butlast key)"
    using p(5) k(1) k'(2) by (auto simp: strkey_def)
  then show ?thesis using p c ss by (simp add: str_is_def rd_def)
qed

lemma key_copy_c: "c_string key \<Longrightarrow> key_copy key (int (length key) - 1) = Some key"
  by (simp add: key_copy_def)

text \<open>Where the loop of an operation stops.\<close>

lemma findS:
  assumes inv: "hash_inv (akeyS seed (hsize htbl)) fst htbl m cs order"
    and h: "\<forall>a \<in> set order. rd h a = rd (items m) a"
    and ss: "\<forall>p. strs m p \<noteq> None \<longrightarrow> ss p = strs m p"
    and k: "strkey seed (hsize htbl) key = Some k" and c: "c_string key"
  shows "(map_of (habs (akeyS seed (hsize htbl)) m order) k = None
           \<and> (\<forall>a \<in> set order. kof (akeyS seed (hsize htbl)) m a \<noteq> Some k)
           \<and> (\<exists>prv. chain_find (str_is ss key) h NULL (htable htbl ! fst k) = Some (prv, NULL)))
       \<or> (\<exists>us a vs. cs (fst k) = us @ a # vs \<and> a \<in> set order \<and> kof (akeyS seed (hsize htbl)) m a = Some k
           \<and> map_of (habs (akeyS seed (hsize htbl)) m order) k = Some (cof m a)
           \<and> chain_find (str_is ss key) h NULL (htable htbl ! fst k) = Some (last_or NULL us, a))"
proof -
  have b: "fst k < hsize htbl" by (rule strkey_lt [OF k c hash_invD(2) [OF inv]])
  have sub: "a \<in> set order" if "a \<in> set (cs (fst k))" for a
    using hash_invD(7) [OF inv] b that unfolding hcover_def by blast
  have r: "rd h a = rd (items m) a" if "a \<in> set (cs (fst k))" for a
    using h sub [OF that] by blast
  have "(map_of (habs (akeyS seed (hsize htbl)) m order) k = None
           \<and> (\<forall>a \<in> set order. kof (akeyS seed (hsize htbl)) m a \<noteq> Some k)
           \<and> chain_find (str_is ss key) h NULL (htable htbl ! fst k) = Some (last_or NULL (cs (fst k)), NULL))
       \<or> (\<exists>us a vs. cs (fst k) = us @ a # vs \<and> a \<in> set order \<and> kof (akeyS seed (hsize htbl)) m a = Some k
           \<and> map_of (habs (akeyS seed (hsize htbl)) m order) k = Some (cof m a)
           \<and> chain_find (str_is ss key) h NULL (htable htbl ! fst k) = Some (last_or NULL us, a))"
    by (rule chain_find_key [OF inv b]) (simp_all add: r str_is_key [OF k c _ _ ss])
  then show ?thesis by blast
qed

lemma kofS_str:
  assumes "kof (akeyS seed n) m a = Some k"
  obtains it p where "rd (items m) a = Some it" and "a \<noteq> NULL" and "hkey it = Key_str p"
    and "rd (strs m) p \<noteq> None" and "str_ptr m a = Some p"
  using assms
  by (auto simp: kof_def akeyS_def str_ptr_def rd_def split: option.splits hash_key.splits if_splits)

section \<open>The operations\<close>

lemma seekS_find:
  assumes t: "tableS seed tag htbl m al" and k: "strkey seed (hsize htbl) key = Some k" and c: "c_string key"
  shows "(map_of al k = None \<and> (\<exists>prv. chain_find (str_is (strs m) key) (items m) NULL (htable htbl ! fst k) = Some (prv, NULL)))
    \<or> (\<exists>prv a it v. chain_find (str_is (strs m) key) (items m) NULL (htable htbl ! fst k) = Some (prv, a)
         \<and> a \<noteq> NULL \<and> rd (items m) a = Some it \<and> map_of al k = Some v \<and> hcontent it = tag v)"
proof -
  obtain cs order where inv: "hash_inv (akeyS seed (hsize htbl)) fst htbl m cs order"
    and al: "habs (akeyS seed (hsize htbl)) m order = tagged tag al" using t unfolding tableS_def by blast
  from findS [OF inv _ _ k c, of "items m" "strs m", simplified] show ?thesis
  proof (elim disjE exE conjE)
    fix us a vs assume k: "kof (akeyS seed (hsize htbl)) m a = Some k"
      and mo: "map_of (habs (akeyS seed (hsize htbl)) m order) k = Some (cof m a)"
      and f: "chain_find (str_is (strs m) key) (items m) NULL (htable htbl ! fst k) = Some (last_or NULL us, a)"
    obtain it where "rd (items m) a = Some it" "a \<noteq> NULL" using kofS_str [OF k] by blast
    then show ?thesis using mo f by (auto simp: al map_of_tagged cof_def)
  qed (auto simp: al map_of_tagged)
qed

lemma seek_spec:
  assumes t: "tableS seed Addrs htbl m al" and k: "strkey seed (hsize htbl) key = Some k" and c: "c_string key"
  shows "hashtbl_seek seed htbl (Some key) (int (length key) - 1) m
    = Some (case map_of al k of None \<Rightarrow> NULL | Some a \<Rightarrow> a)"
  using seekS_find [OF assms] strkey_bkt [OF k]
  by (auto simp: hashtbl_seek_def content_addrs_def)

lemma seek_val32_spec:
  assumes t: "tableS seed Scalar htbl m al" and k: "strkey seed (hsize htbl) key = Some k" and c: "c_string key"
  shows "hashtbl_seek_val32 seed htbl (Some key) (int (length key) - 1) m
    = Some (case map_of al k of None \<Rightarrow> 0 | Some v \<Rightarrow> v)"
  using seekS_find [OF assms] strkey_bkt [OF k]
  by (auto simp: hashtbl_seek_val32_def content_scalar_def)

text \<open>Both append functions: find, then link the new item or set the content of the old one.\<close>

lemma appendS_find:
  fixes htbl :: "'s ape_htable"
  assumes t: "tableS seed tag htbl m al" and k: "strkey seed (hsize htbl) key = Some k" and c: "c_string key"
    and it: "it = \<lparr>hkey = Key_str (hbrk m + 1), hcontent = tag v, hnext = NULL, lnext = hfirst htbl, lprev = NULL\<rparr>"
    and h0: "h0 = (items m)(hbrk m \<mapsto> it)" and ss0: "ss0 = (strs m)(hbrk m + 1 \<mapsto> key)"
  shows "(map_of al k = None \<and> (\<exists>prv htbl' h.
           chain_find (str_is ss0 key) h0 NULL (htable htbl ! fst k) = Some (prv, NULL)
         \<and> hash_link htbl h0 (fst k) (hbrk m) = Some (htbl', h)
         \<and> hsize htbl' = hsize htbl \<and> hcleaner htbl' = hcleaner htbl \<and> htype htbl' = htype htbl
         \<and> tableS seed tag htbl' \<lparr>items = h, strs = ss0, hbrk = hbrk m + 2\<rparr> ((k, v) # al)))
    \<or> (map_of al k \<noteq> None \<and> (\<exists>prv d itd.
           chain_find (str_is ss0 key) h0 NULL (htable htbl ! fst k) = Some (prv, d)
         \<and> d \<noteq> NULL \<and> rd (items m) d = Some itd
         \<and> tableS seed tag htbl
             (m\<lparr>items := (items m)(d := Some (itd\<lparr>hcontent := tag v\<rparr>)), hbrk := hbrk m + 2\<rparr>)
             (AList.update k v al)))"
proof -
  let ?n = "hsize htbl"
  let ?ak = "akeyS seed ?n"
  obtain cs order where inv: "hash_inv ?ak fst htbl m cs order"
    and al: "habs ?ak m order = tagged tag al" using t unfolding tableS_def by blast
  have fr: "0 < hbrk m" "\<And>a. hbrk m \<le> a \<Longrightarrow> strs m a = None"
    using hash_invD(3) [OF inv] by (auto simp: hfresh_def)
  have h: "\<forall>c \<in> set order. rd h0 c = rd (items m) c"
    using hash_inv_below(1) [OF inv] h0 by auto
  have ss: "\<forall>p. strs m p \<noteq> None \<longrightarrow> ss0 p = strs m p"
    using fr(2) [of "hbrk m + 1"] ss0 by auto
  have b: "fst k < ?n" by (rule strkey_lt [OF k c hash_invD(2) [OF inv]])
  from findS [OF inv h ss k c] show ?thesis
  proof (elim disjE exE conjE)
    fix prv assume no: "map_of (habs ?ak m order) k = None" "\<forall>a \<in> set order. kof ?ak m a \<noteq> Some k"
      and f: "chain_find (str_is ss0 key) h0 NULL (htable htbl ! fst k) = Some (prv, NULL)"
    have kit: "?ak ss0 it = Some k" using k c it ss0 by (simp add: akeyS_def)
    obtain htbl' h' where l: "hash_link htbl ((items m)(hbrk m \<mapsto> it)) (fst k) (hbrk m) = Some (htbl', h')"
      and inv': "hash_inv ?ak fst htbl' \<lparr>items = h', strs = ss0, hbrk = hbrk m + 2\<rparr>
                  (cs(fst k := hbrk m # cs (fst k))) (hbrk m # order)"
      and ha: "habs ?ak \<lparr>items = h', strs = ss0, hbrk = hbrk m + 2\<rparr> (hbrk m # order)
                 = (k, hcontent it) # habs ?ak m order"
      and sz: "htbl' = htbl\<lparr>hfirst := hbrk m, htable := (htable htbl)[fst k := hbrk m]\<rparr>"
      by (rule hs.hash_link_inv [OF inv _ _ kit b no(2), where brk' = "hbrk m + 2" and a = "hbrk m"])
        (use it ss0 fr in \<open>auto split: if_splits\<close>)
    have "tableS seed tag htbl' \<lparr>items = h', strs = ss0, hbrk = hbrk m + 2\<rparr> ((k, v) # al)"
      unfolding tableS_def using inv' ha al sz it by auto
    moreover have "map_of al k = None" using no(1) al by (simp add: map_of_tagged)
    ultimately show ?thesis using f l sz h0 by auto
  next
    fix us d vs assume d: "d \<in> set order" and kd: "kof ?ak m d = Some k"
      and mo: "map_of (habs ?ak m order) k = Some (cof m d)"
      and f: "chain_find (str_is ss0 key) h0 NULL (htable htbl ! fst k) = Some (last_or NULL us, d)"
    obtain itd where itd: "rd (items m) d = Some itd" "d \<noteq> NULL" using kofS_str [OF kd] by blast
    have "map_of al k \<noteq> None" using mo al by (auto simp: map_of_tagged)
    moreover have "tableS seed tag htbl (m\<lparr>items := (items m)(d := Some (itd\<lparr>hcontent := tag v\<rparr>)), hbrk := hbrk m + 2\<rparr>)
             (AList.update k v al)"
      using hs.hash_set_content [OF inv d _ itd(1) kd refl, of "hbrk m + 2" "tag v"] al
      unfolding tableS_def by (auto simp: update_tagged)
    ultimately show ?thesis using f itd by blast
  qed
qed

lemma tableS_fresh:
  assumes "tableS seed tag htbl m al"
  shows "items m (hbrk m) = None" and "strs m (hbrk m + 1) = None" and "0 < hbrk m"
  using assms hash_invD(3) unfolding tableS_def hfresh_def by (meson le_add1 order_refl)+

lemma append_spec:
  assumes t: "tableS seed Addrs htbl m al" and k: "strkey seed (hsize htbl) key = Some k" and c: "c_string key"
    and cl: "map_of al k \<noteq> None \<Longrightarrow> run_clean htbl (hbrk m) \<lparr>hkey = Key_str (hbrk m + 1), hcontent = Addrs a,
        hnext = NULL, lnext = hfirst htbl, lprev = NULL\<rparr> s = Some s'"
    and n: "map_of al k = None \<Longrightarrow> s' = s"
  shows "\<exists>htbl' m'. hashtbl_append seed htbl (Some key) (int (length key) - 1) a m s = Some (htbl', m', s')
     \<and> hsize htbl' = hsize htbl \<and> hcleaner htbl' = hcleaner htbl \<and> htype htbl' = htype htbl
     \<and> tableS seed Addrs htbl' m' (if map_of al k = None then (k, a) # al else AList.update k a al)"
proof -
  note fr = tableS_fresh [OF t]
  let ?it = "\<lparr>hkey = Key_str (hbrk m + 1), hcontent = Addrs a, hnext = NULL, lnext = hfirst htbl, lprev = NULL\<rparr>"
  have i1: "(items m)(hbrk m := None) = items m"
    and i2: "(strs m)(Suc (hbrk m) := None) = strs m" using fr by auto
  have i3: "rd ((strs m)(hbrk m + 1 \<mapsto> key)) (hbrk m + 1) = Some key"
    and i4: "rd ((items m)(hbrk m \<mapsto> ?it)) (hbrk m) = Some ?it" using fr by auto
  show ?thesis
    using appendS_find [OF t k c refl refl refl, of a]
  proof (elim disjE exE conjE)
    fix prv d itd
    assume nn: "map_of al k \<noteq> None" and d: "d \<noteq> NULL" "rd (items m) d = Some itd"
      and f: "chain_find (str_is ((strs m)(hbrk m + 1 \<mapsto> key)) key) ((items m)(hbrk m \<mapsto> ?it)) NULL (htable htbl ! fst k) = Some (prv, d)"
      and t': "tableS seed Addrs htbl (m\<lparr>items := (items m)(d := Some (itd\<lparr>hcontent := Addrs a\<rparr>)), hbrk := hbrk m + 2\<rparr>) (AList.update k a al)"
    have "hashtbl_append seed htbl (Some key) (int (length key) - 1) a m s
      = Some (htbl, m\<lparr>items := (items m)(d := Some (itd\<lparr>hcontent := Addrs a\<rparr>)), strs := strs m, hbrk := hbrk m + 2\<rparr>, s')"
      unfolding hashtbl_append_def
      using strkey_bkt [OF k] key_copy_c [OF c] f d cl [OF nn] dealloc_Some [OF i3] dealloc_Some [OF i4]
      by (simp add: i1 i2 Let_def del: fun_upd_apply)
    then show ?thesis using t' nn by auto
  next
    fix prv htbl' h
    assume nn: "map_of al k = None" and l: "hash_link htbl ((items m)(hbrk m \<mapsto> ?it)) (fst k) (hbrk m) = Some (htbl', h)"
      and f: "chain_find (str_is ((strs m)(hbrk m + 1 \<mapsto> key)) key) ((items m)(hbrk m \<mapsto> ?it)) NULL (htable htbl ! fst k) = Some (prv, NULL)"
      and r: "hsize htbl' = hsize htbl" "hcleaner htbl' = hcleaner htbl" "htype htbl' = htype htbl"
        "tableS seed Addrs htbl' \<lparr>items = h, strs = (strs m)(hbrk m + 1 \<mapsto> key), hbrk = hbrk m + 2\<rparr> ((k, a) # al)"
    have "hashtbl_append seed htbl (Some key) (int (length key) - 1) a m s
      = Some (htbl', \<lparr>items = h, strs = (strs m)(hbrk m + 1 \<mapsto> key), hbrk = hbrk m + 2\<rparr>, s)"
      unfolding hashtbl_append_def
      using strkey_bkt [OF k] key_copy_c [OF c] f l by (simp add: Let_def del: fun_upd_apply)
    then show ?thesis using r nn n by auto
  qed
qed

lemma append_val32_spec:
  assumes t: "tableS seed Scalar htbl m al" and k: "strkey seed (hsize htbl) key = Some k" and c: "c_string key"
  shows "\<exists>htbl' m'. hashtbl_append_val32 seed htbl (Some key) (int (length key) - 1) v m = Some (htbl', m')
     \<and> hsize htbl' = hsize htbl \<and> hcleaner htbl' = hcleaner htbl \<and> htype htbl' = htype htbl
     \<and> tableS seed Scalar htbl' m' (if map_of al k = None then (k, v) # al else AList.update k v al)"
proof -
  note fr = tableS_fresh [OF t]
  let ?it = "\<lparr>hkey = Key_str (hbrk m + 1), hcontent = Scalar v, hnext = NULL, lnext = hfirst htbl, lprev = NULL\<rparr>"
  have i1: "(items m)(hbrk m := None) = items m"
    and i2: "(strs m)(Suc (hbrk m) := None) = strs m" using fr by auto
  have i3: "rd ((strs m)(hbrk m + 1 \<mapsto> key)) (hbrk m + 1) = Some key"
    and i4: "rd ((items m)(hbrk m \<mapsto> ?it)) (hbrk m) = Some ?it" using fr by auto
  show ?thesis
    using appendS_find [OF t k c refl refl refl, of v]
  proof (elim disjE exE conjE)
    fix prv d itd
    assume nn: "map_of al k \<noteq> None" and d: "d \<noteq> NULL" "rd (items m) d = Some itd"
      and f: "chain_find (str_is ((strs m)(hbrk m + 1 \<mapsto> key)) key) ((items m)(hbrk m \<mapsto> ?it)) NULL (htable htbl ! fst k) = Some (prv, d)"
      and t': "tableS seed Scalar htbl (m\<lparr>items := (items m)(d := Some (itd\<lparr>hcontent := Scalar v\<rparr>)), hbrk := hbrk m + 2\<rparr>) (AList.update k v al)"
    have "hashtbl_append_val32 seed htbl (Some key) (int (length key) - 1) v m
      = Some (htbl, m\<lparr>items := (items m)(d := Some (itd\<lparr>hcontent := Scalar v\<rparr>)), strs := strs m, hbrk := hbrk m + 2\<rparr>)"
      unfolding hashtbl_append_val32_def
      using strkey_bkt [OF k] key_copy_c [OF c] f d dealloc_Some [OF i3] dealloc_Some [OF i4]
      by (simp add: i1 i2 Let_def del: fun_upd_apply)
    then show ?thesis using t' nn by auto
  next
    fix prv htbl' h
    assume nn: "map_of al k = None" and l: "hash_link htbl ((items m)(hbrk m \<mapsto> ?it)) (fst k) (hbrk m) = Some (htbl', h)"
      and f: "chain_find (str_is ((strs m)(hbrk m + 1 \<mapsto> key)) key) ((items m)(hbrk m \<mapsto> ?it)) NULL (htable htbl ! fst k) = Some (prv, NULL)"
      and r: "hsize htbl' = hsize htbl" "hcleaner htbl' = hcleaner htbl" "htype htbl' = htype htbl"
        "tableS seed Scalar htbl' \<lparr>items = h, strs = (strs m)(hbrk m + 1 \<mapsto> key), hbrk = hbrk m + 2\<rparr> ((k, v) # al)"
    have "hashtbl_append_val32 seed htbl (Some key) (int (length key) - 1) v m
      = Some (htbl', \<lparr>items = h, strs = (strs m)(hbrk m + 1 \<mapsto> key), hbrk = hbrk m + 2\<rparr>)"
      unfolding hashtbl_append_val32_def
      using strkey_bkt [OF k] key_copy_c [OF c] f l by (simp add: Let_def del: fun_upd_apply)
    then show ?thesis using r nn by auto
  qed
qed

lemma erase_spec:
  assumes t: "tableS seed tag htbl m al" and k: "strkey seed (hsize htbl) key = Some k" and c: "c_string key"
    and cl: "\<And>old p it. map_of al k = Some old \<Longrightarrow> hcontent it = tag old \<Longrightarrow> run_clean htbl p it s \<noteq> None"
  shows "\<exists>htbl' m' s'. hashtbl_erase seed htbl (Some key) (int (length key) - 1) m s = Some (htbl', m', s')
     \<and> hsize htbl' = hsize htbl \<and> hcleaner htbl' = hcleaner htbl \<and> htype htbl' = htype htbl
     \<and> tableS seed tag htbl' m' (AList.delete k al)
     \<and> (case map_of al k of None \<Rightarrow> s' = s
        | Some old \<Rightarrow> \<exists>p it. hcontent it = tag old \<and> run_clean htbl p it s = Some s')"
proof -
  let ?n = "hsize htbl"
  let ?ak = "akeyS seed ?n"
  obtain cs order where inv: "hash_inv ?ak fst htbl m cs order"
    and al: "habs ?ak m order = tagged tag al" using t unfolding tableS_def by blast
  from findS [OF inv _ _ k c, of "items m" "strs m", simplified] show ?thesis
  proof (elim disjE exE conjE)
    fix prv assume no: "map_of (habs ?ak m order) k = None"
      and f: "chain_find (str_is (strs m) key) (items m) NULL (htable htbl ! fst k) = Some (prv, NULL)"
    have no': "map_of al k = None" using no al by (simp add: map_of_tagged)
    then have "AList.delete k al = al" by (simp add: delete_id map_of_eq_None_iff)
    moreover have "hashtbl_erase seed htbl (Some key) (int (length key) - 1) m s = Some (htbl, m, s)"
      unfolding hashtbl_erase_def using strkey_bkt [OF k] f by simp
    ultimately show ?thesis using no' t by auto
  next
    fix us d vs assume d: "d \<in> set order" and kd: "kof ?ak m d = Some k"
      and mo: "map_of (habs ?ak m order) k = Some (cof m d)"
      and cb: "cs (fst k) = us @ d # vs"
      and f: "chain_find (str_is (strs m) key) (items m) NULL (htable htbl ! fst k) = Some (last_or NULL us, d)"
    obtain it p where it: "rd (items m) d = Some it" "d \<noteq> NULL" "hkey it = Key_str p"
      and p: "rd (strs m) p \<noteq> None" "str_ptr m d = Some p" by (rule kofS_str [OF kd])
    obtain old where old: "map_of al k = Some old" "cof m d = tag old"
      using mo al by (auto simp: map_of_tagged)
    obtain xs ys where sp: "order = xs @ d # ys" using split_list [OF d] by blast
    have b: "fst k < ?n" by (rule strkey_lt [OF k c hash_invD(2) [OF inv]])
    let ?ss = "(strs m)(p := None)"
    let ?m = "\<lambda>h. m\<lparr>items := h(d := None), strs := ?ss\<rparr>"
    have dist: "distinct order" using dll_distinct [OF hash_invD(5) [OF inv]] .
    have ss: "?ss q = strs m q" if "e \<in> set (xs @ ys)" "str_ptr m e = Some q" for e q
    proof -
      have "e \<noteq> d" "e \<in> set order" using that(1) dist sp by auto
      then have "q \<noteq> p" using hash_invD(9) [OF inv] d that(2) p(2) unfolding hown_def by blast
      then show ?thesis by simp
    qed
    obtain htbl' h where u: "hash_unlink htbl (items m) (fst k) (last_or NULL us) d = Some (htbl', h)"
      and rh: "rd h d = rd (items m) d"
      and inv': "hash_inv ?ak fst htbl' (?m h) (cs(fst k := us @ vs)) (xs @ ys)"
      and ha: "habs ?ak (?m h) (xs @ ys) = habs ?ak m (xs @ ys)"
      and sz: "hsize htbl' = ?n" "hcleaner htbl' = hcleaner htbl" "htype htbl' = htype htbl"
    proof (rule hs.hash_unlink_inv [OF inv [unfolded sp] cb b, of ?ss])
      show "?ss q = strs m q" if "e \<in> set (xs @ ys)" "str_ptr m e = Some q" for e q by (rule ss [OF that])
      show "?ss q = None" if "hbrk m \<le> q" for q using that hash_invD(3) [OF inv] by (simp add: hfresh_def)
      show "strs m q \<noteq> None \<and> str_ptr m d \<noteq> Some q" if "?ss q \<noteq> None" for q
        using that p(2) by (auto split: if_splits)
    qed (rule that)
    have ct: "hcontent it = tag old" using old(2) it by (simp add: cof_def)
    obtain s' where rc: "run_clean htbl d it s = Some s'" using cl [OF old(1) ct, of d] by blast
    obtain t0 where "rd (strs m) p = Some t0" using p(1) by auto
    then have "hashtbl_erase seed htbl (Some key) (int (length key) - 1) m s = Some (htbl', ?m h, s')"
      unfolding hashtbl_erase_def using strkey_bkt [OF k] f it rc u rh by simp
    moreover have "tableS seed tag htbl' (?m h) (AList.delete k al)"
      unfolding tableS_def
    proof (intro exI conjI)
      show "hash_inv (akeyS seed (hsize htbl')) fst htbl' (?m h) (cs(fst k := us @ vs)) (xs @ ys)"
        using inv' sz by simp
      have "habs ?ak m (xs @ ys) = tagged tag (AList.delete k al)"
        using hs.habs_delete [OF inv [unfolded sp] kd] al sp by (simp add: delete_tagged)
      then show "habs (akeyS seed (hsize htbl')) (?m h) (xs @ ys) = tagged tag (AList.delete k al)"
        using ha sz by simp
    qed
    ultimately show ?thesis using sz rc ct old(1)
      by (intro exI [of _ htbl'] exI [of _ "?m h"] exI [of _ s']) auto
  qed
qed

end
