(* ===== verification/Hash_Store.thy ===== *)
theory Hash_Store
  imports Hash_Str "HOL-Library.Multiset"
begin

text \<open>
  Freeing a table, fresh tables, and the interface through which the rest of the library uses a
  table: the locale \<open>map_store\<close>, a finite map up to an identification of keys.
\<close>

section \<open>Freeing a table\<close>

definition freeable :: "'s ape_htable \<Rightarrow> hash_mem \<Rightarrow> ptr set \<Rightarrow> bool" where
  "freeable htbl m A \<longleftrightarrow> (\<forall>a \<in> A. \<exists>it. rd (items m) a = Some it
     \<and> (htype htbl = APE_HASH_STR \<longrightarrow> (\<exists>q. hkey it = Key_str q \<and> rd (strs m) q \<noteq> None
          \<and> (\<forall>b \<in> A. b \<noteq> a \<longrightarrow> str_ptr m b \<noteq> Some q))))"

definition freed :: "'s ape_htable \<Rightarrow> hash_mem \<Rightarrow> hash_mem \<Rightarrow> ptr set \<Rightarrow> bool" where
  "freed htbl m m' A \<longleftrightarrow> hbrk m' = hbrk m \<and> (\<forall>a. items m' a = (if a \<in> A then None else items m a))
     \<and> (\<forall>q. strs m' q = (if htype htbl = APE_HASH_STR \<and> (\<exists>a \<in> A. str_ptr m a = Some q) then None
                          else strs m q))"

lemma freed_rd: "freed htbl m m' A \<Longrightarrow> rd (items m') a = (if a \<in> A then None else rd (items m) a)"
  by (simp add: freed_def rd_def)

lemma freed_str_ptr: "freed htbl m m' A \<Longrightarrow> a \<notin> A \<Longrightarrow> str_ptr m' a = str_ptr m a"
  by (simp add: freed_rd str_ptr_def)

lemma freed_rd_strs:
  "freed htbl m m' A \<Longrightarrow> \<not> (\<exists>b \<in> A. str_ptr m b = Some q) \<Longrightarrow> rd (strs m') q = rd (strs m) q"
  unfolding freed_def rd_def by simp

lemma freeable_mono:
  assumes "freeable htbl m B" and "A \<subseteq> B"
  shows "freeable htbl m A"
  unfolding freeable_def
proof
  fix a assume "a \<in> A"
  then have "a \<in> B" using assms(2) by blast
  then obtain it where "rd (items m) a = Some it"
    "htype htbl = APE_HASH_STR \<longrightarrow> (\<exists>q. hkey it = Key_str q \<and> rd (strs m) q \<noteq> None
          \<and> (\<forall>b \<in> B. b \<noteq> a \<longrightarrow> str_ptr m b \<noteq> Some q))"
    using assms(1) unfolding freeable_def by blast
  then show "\<exists>it. rd (items m) a = Some it
     \<and> (htype htbl = APE_HASH_STR \<longrightarrow> (\<exists>q. hkey it = Key_str q \<and> rd (strs m) q \<noteq> None
          \<and> (\<forall>b \<in> A. b \<noteq> a \<longrightarrow> str_ptr m b \<noteq> Some q)))"
    using assms(2) by (metis subset_iff)
qed

lemma freed_trans:
  assumes f: "freed htbl m m1 A" and g: "freed htbl m1 m2 B" and d: "A \<inter> B = {}"
  shows "freed htbl m m2 (A \<union> B)"
proof -
  have "str_ptr m1 b = str_ptr m b" if "b \<in> B" for b
    using freed_str_ptr [OF f] d that by blast
  then have e: "(\<exists>b \<in> B. str_ptr m1 b = Some q) \<longleftrightarrow> (\<exists>b \<in> B. str_ptr m b = Some q)" for q by auto
  show ?thesis using f g unfolding freed_def by (auto simp: e)
qed

lemma freeable_freed:
  assumes f: "freeable htbl m (A \<union> B)" and g: "freed htbl m m1 A" and d: "A \<inter> B = {}"
  shows "freeable htbl m1 B"
  unfolding freeable_def
proof
  fix a assume a: "a \<in> B"
  then have na: "a \<notin> A" using d by blast
  obtain it where it: "rd (items m) a = Some it"
    and q: "htype htbl = APE_HASH_STR \<longrightarrow> (\<exists>q. hkey it = Key_str q \<and> rd (strs m) q \<noteq> None
          \<and> (\<forall>b \<in> A \<union> B. b \<noteq> a \<longrightarrow> str_ptr m b \<noteq> Some q))"
    using f a unfolding freeable_def by blast
  have "\<exists>q. hkey it = Key_str q \<and> rd (strs m1) q \<noteq> None \<and> (\<forall>b \<in> B. b \<noteq> a \<longrightarrow> str_ptr m1 b \<noteq> Some q)"
    if s: "htype htbl = APE_HASH_STR"
  proof -
    obtain q where q: "hkey it = Key_str q" "rd (strs m) q \<noteq> None"
      "\<forall>b \<in> A \<union> B. b \<noteq> a \<longrightarrow> str_ptr m b \<noteq> Some q" using q s by blast
    have "\<not> (\<exists>b \<in> A. str_ptr m b = Some q)" using q(3) na by auto
    then have "rd (strs m1) q \<noteq> None" using freed_rd_strs [OF g] q(2) by simp
    moreover have "\<forall>b \<in> B. b \<noteq> a \<longrightarrow> str_ptr m1 b \<noteq> Some q"
      using q(3) freed_str_ptr [OF g] d by (metis Un_iff disjoint_iff)
    ultimately show ?thesis using q(1) by blast
  qed
  then show "\<exists>it. rd (items m1) a = Some it \<and> (htype htbl = APE_HASH_STR \<longrightarrow>
      (\<exists>q. hkey it = Key_str q \<and> rd (strs m1) q \<noteq> None \<and> (\<forall>b \<in> B. b \<noteq> a \<longrightarrow> str_ptr m1 b \<noteq> Some q)))"
    using it na freed_rd [OF g, of a] by auto
qed

lemma free_one:
  assumes "freeable htbl m {a}" and it: "rd (items m) a = Some it"
  obtains ss h where "(if htype htbl = APE_HASH_STR
                  then (case hkey it of Key_str p \<Rightarrow> dealloc (strs m) p | _ \<Rightarrow> None)
                  else Some (strs m)) = Some ss"
    and "dealloc (items m) a = Some h" and "freed htbl m (m\<lparr>items := h, strs := ss\<rparr>) {a}"
proof (cases "htype htbl = APE_HASH_STR")
  case True
  then obtain q t where q: "hkey it = Key_str q" "rd (strs m) q = Some t"
    using assms by (auto simp: freeable_def)
  have "freed htbl m (m\<lparr>items := (items m)(a := None), strs := (strs m)(q := None)\<rparr>) {a}"
    using True q it by (simp add: freed_def str_ptr_def)
  then show ?thesis using True q it by (intro that [of "(strs m)(q := None)" "(items m)(a := None)"]) simp_all
next
  case False
  have "freed htbl m (m\<lparr>items := (items m)(a := None), strs := strs m\<rparr>) {a}"
    using False by (simp add: freed_def)
  then show ?thesis using False it by (intro that [of "strs m" "(items m)(a := None)"]) simp_all
qed

lemma free_chain_spec:
  assumes "chain hnext (items m) p as" and "freeable htbl m (set as)"
    and c: "\<And>p it s. run_clean htbl p it s = Some (f p it s)"
  shows "\<exists>m'. free_chain htbl p m s = Some (m', fold (\<lambda>a. f a (the (rd (items m) a))) as s)
     \<and> freed htbl m m' (set as)"
  using assms(1,2)
proof (induction as arbitrary: p m s)
  case Nil
  then show ?case by (subst free_chain.simps) (auto simp: freed_def)
next
  case (Cons a as)
  have dist: "distinct (a # as)" using Cons.prems(1) by (rule chain_distinct)
  obtain it where it: "p = a" "a \<noteq> NULL" "rd (items m) a = Some it" and tl: "chain hnext (items m) (hnext it) as"
    using Cons.prems(1) by (auto split: option.splits)
  have "freeable htbl m {a}" by (rule freeable_mono [OF Cons.prems(2)]) auto
  then obtain ss h where st: "(if htype htbl = APE_HASH_STR
                  then (case hkey it of Key_str p \<Rightarrow> dealloc (strs m) p | _ \<Rightarrow> None)
                  else Some (strs m)) = Some ss"
    and h: "dealloc (items m) a = Some h" and fr: "freed htbl m (m\<lparr>items := h, strs := ss\<rparr>) {a}"
    using it(3) by (rule free_one)
  let ?m = "m\<lparr>items := h, strs := ss\<rparr>"
  have hh: "h = (items m)(a := None)" using h it by simp
  have "chain hnext (items ?m) (hnext it) as" using tl hh dist by simp
  moreover have fe: "freeable htbl ?m (set as)"
    by (rule freeable_freed [OF _ fr]) (use Cons.prems(2) dist in auto)
  ultimately obtain m' where m': "free_chain htbl (hnext it) ?m (f a it s)
        = Some (m', fold (\<lambda>a. f a (the (rd (items ?m) a))) as (f a it s))"
      "freed htbl ?m m' (set as)" using Cons.IH by blast
  have "fold (\<lambda>b. f b (the (rd (items ?m) b))) as (f a it s)
      = fold (\<lambda>b. f b (the (rd (items m) b))) as (f a it s)"
    by (rule fold_cong) (use dist hh in auto)
  then have "free_chain htbl p m s = Some (m', fold (\<lambda>a. f a (the (rd (items m) a))) (a # as) s)"
    using it st h m'(1) c [of a it s] by (subst free_chain.simps) simp
  moreover have "freed htbl m m' (set (a # as))"
    using freed_trans [OF fr m'(2)] dist by simp
  ultimately show ?case by blast
qed

lemma free_chains_spec:
  assumes "list_all2 (chain hnext (items m)) ps css" and "distinct (concat css)"
    and "freeable htbl m (set (concat css))"
    and c: "\<And>p it s. run_clean htbl p it s = Some (f p it s)"
  shows "\<exists>m'. free_chains htbl ps m s = Some (m', fold (\<lambda>a. f a (the (rd (items m) a))) (concat css) s)
     \<and> freed htbl m m' (set (concat css))"
  using assms(1-3)
proof (induction css arbitrary: ps m s rule: list.induct)
  case Nil
  then show ?case by (simp add: freed_def)
next
  case (Cons as css)
  obtain p ps' where ps: "ps = p # ps'" and ch: "chain hnext (items m) p as"
    and l2: "list_all2 (chain hnext (items m)) ps' css"
    using Cons.prems(1) by (auto simp: list_all2_Cons2)
  have "freeable htbl m (set as)"
    by (rule freeable_mono [OF Cons.prems(3)]) auto
  from free_chain_spec [OF ch this c, of s] obtain m1 where m1: "free_chain htbl p m s = Some (m1, fold (\<lambda>a. f a (the (rd (items m) a))) as s)"
    "freed htbl m m1 (set as)"
    by (elim exE conjE) (rule that)
  let ?s = "fold (\<lambda>a. f a (the (rd (items m) a))) as s"
  have dj: "set as \<inter> set (concat css) = {}" using Cons.prems(2) by auto
  have same: "rd (items m1) a = rd (items m) a" if "a \<in> set (concat css)" for a
    using freed_rd [OF m1(2)] that dj by auto
  have "list_all2 (chain hnext (items m1)) ps' css"
  proof (rule list.rel_mono_strong [OF l2])
    fix q bs assume "bs \<in> set css" "chain hnext (items m) q bs"
    moreover have "rd (items m1) a = rd (items m) a" if "a \<in> set bs" for a
      using same that \<open>bs \<in> set css\<close> by auto
    ultimately show "chain hnext (items m1) q bs" using lseg_cong [of bs hnext "items m1" "items m"] by simp
  qed
  moreover have "distinct (concat css)" using Cons.prems(2) by simp
  moreover have "freeable htbl m1 (set (concat css))"
    by (rule freeable_freed [OF _ m1(2) dj]) (use Cons.prems(3) in simp)
  ultimately obtain m' where m': "free_chains htbl ps' m1 ?s
        = Some (m', fold (\<lambda>a. f a (the (rd (items m1) a))) (concat css) ?s)"
    "freed htbl m1 m' (set (concat css))" using Cons.IH by blast
  have "fold (\<lambda>a. f a (the (rd (items m1) a))) (concat css) ?s
      = fold (\<lambda>a. f a (the (rd (items m) a))) (concat css) ?s"
    by (rule fold_cong) (use same in auto)
  then show ?case using ps m1(1) m' freed_trans [OF m1(2) m'(2) dj] by auto
qed

lemma hash_free:
  assumes inv: "hash_inv akey bkt htbl m cs order"
    and str: "\<And>a k. htype htbl = APE_HASH_STR \<Longrightarrow> kof akey m a = Some k \<Longrightarrow>
        \<exists>it q. rd (items m) a = Some it \<and> hkey it = Key_str q \<and> rd (strs m) q \<noteq> None"
    and int: "\<And>a. htype htbl \<noteq> APE_HASH_STR \<Longrightarrow> a \<in> set order \<Longrightarrow> str_ptr m a = None"
    and c: "\<And>p it s. run_clean htbl p it s = Some (f p it s)"
  shows "\<exists>m' as. hashtbl_free htbl m s = Some (m', fold (\<lambda>a. f a (the (rd (items m) a))) as s)
     \<and> mset as = mset order \<and> items m' = Map.empty \<and> strs m' = Map.empty"
proof -
  let ?css = "map cs [0..<hsize htbl]"
  have l2: "list_all2 (chain hnext (items m)) (htable htbl) ?css"
    using hash_invD(1,4) [OF inv] by (simp add: list_all2_conv_all_nth hchains_def)
  have cov: "set (concat ?css) = set order"
  proof -
    have "a \<in> set (concat ?css) \<longleftrightarrow> (\<exists>i < hsize htbl. a \<in> set (cs i))" for a by force
    then show ?thesis using hash_invD(7) [OF inv] unfolding hcover_def by blast
  qed
  have "distinct (concat (map cs [0..<n]))" if "n \<le> hsize htbl" for n
    using that
  proof (induction n)
    case (Suc n)
    have "chain hnext (items m) (htable htbl ! n) (cs n)"
      using hash_invD(4) [OF inv] Suc.prems by (simp add: hchains_def)
    then have "distinct (cs n)" by (rule chain_distinct)
    moreover have "set (cs i) \<inter> set (cs n) = {}" if "i < n" for i
    proof (rule ccontr)
      assume "set (cs i) \<inter> set (cs n) \<noteq> {}"
      then obtain a where "a \<in> set (cs i)" "a \<in> set (cs n)" by blast
      then show False using hash_inv_disjoint [OF inv, of i n a] that Suc.prems by simp
    qed
    ultimately show ?case using Suc by (auto simp: set_eq_iff)
  qed simp
  then have dist: "distinct (concat ?css)" by blast
  have fe: "freeable htbl m (set (concat ?css))"
    unfolding cov freeable_def
  proof
    fix a assume a: "a \<in> set order"
    obtain k where k: "kof akey m a = Some k" by (rule hash_inv_kof [OF inv a])
    obtain it where it: "rd (items m) a = Some it" using kof_alloc [OF k] dll_alloc [OF hash_invD(5) [OF inv] a] by blast
    have "\<exists>q. hkey it = Key_str q \<and> rd (strs m) q \<noteq> None \<and> (\<forall>b \<in> set order. b \<noteq> a \<longrightarrow> str_ptr m b \<noteq> Some q)"
      if s: "htype htbl = APE_HASH_STR"
    proof -
      obtain q where q: "hkey it = Key_str q" "rd (strs m) q \<noteq> None" using str [OF s k] it by auto
      then have "str_ptr m a = Some q" using it by (simp add: str_ptr_def)
      then have "\<forall>b \<in> set order. b \<noteq> a \<longrightarrow> str_ptr m b \<noteq> Some q"
        using hash_invD(9) [OF inv] a unfolding hown_def by blast
      then show ?thesis using q by blast
    qed
    then show "\<exists>it. rd (items m) a = Some it \<and> (htype htbl = APE_HASH_STR \<longrightarrow> (\<exists>q. hkey it = Key_str q
        \<and> rd (strs m) q \<noteq> None \<and> (\<forall>b \<in> set order. b \<noteq> a \<longrightarrow> str_ptr m b \<noteq> Some q)))"
      using it by blast
  qed
  obtain m' where m': "free_chains htbl (htable htbl) m s
      = Some (m', fold (\<lambda>a. f a (the (rd (items m) a))) (concat ?css) s)"
    and fr: "freed htbl m m' (set (concat ?css))"
    using free_chains_spec [OF l2 dist fe c, of s] by blast
  have "mset (concat ?css) = mset order"
    using dist cov dll_distinct [OF hash_invD(5) [OF inv]] set_eq_iff_mset_eq_distinct by blast
  moreover have "items m' a = None" for a
    using fr hash_invD(10) [OF inv] cov unfolding freed_def hexact_def
    by (cases "items m a") auto
  moreover have "strs m' q = None" for q
  proof (cases "strs m q")
    case None
    then show ?thesis using fr by (simp add: freed_def)
  next
    case (Some t)
    then obtain a where a: "a \<in> set order" "str_ptr m a = Some q"
      using hash_invD(10) [OF inv] by (auto simp: hexact_def)
    then have "htype htbl = APE_HASH_STR" using int by fastforce
    moreover have "a \<in> set (concat ?css)" using a(1) cov by blast
    ultimately show ?thesis using fr a(2) unfolding freed_def by metis
  qed
  moreover have "hashtbl_free htbl m s = Some (m', fold (\<lambda>a. f a (the (rd (items m) a))) (concat ?css) s)"
    using m' hash_invD(1) [OF inv] by (simp add: hashtbl_free_def)
  ultimately show ?thesis by blast
qed

lemma fold_log: "fold (\<lambda>a xs. g a # xs) as xs = rev (map g as) @ xs"
  by (induction as arbitrary: xs) auto

text \<open>With a cleaner that records the contents it is run with.\<close>

definition log_cleaner :: "hash_content list hash_clean_callback option" where
  "log_cleaner = Some (\<lambda>p it s. Some (hcontent it # s))"

lemma free_contents:
  assumes "habs akey m order = tagged tag al" and "mset as = mset order"
  shows "mset (fold (\<lambda>a xs. hcontent (the (rd (items m) a)) # xs) as [])
    = mset (map (tag \<circ> snd) al)"
proof -
  have "map snd (habs akey m order) = map (cof m) order" by (simp add: habs_def comp_def)
  moreover have "map snd (tagged tag al) = map (tag \<circ> snd) al" by (induction al) auto
  ultimately have "map (cof m) order = map (tag \<circ> snd) al" using assms(1) by simp
  then have "mset (map (cof m) as) = mset (map (tag \<circ> snd) al)"
    using assms(2) by (metis mset_map)
  then show ?thesis unfolding cof_def by (simp add: fold_log)
qed

lemma free64:
  assumes t: "table64 htbl m al" and "htype htbl = APE_HASH_INT" and c: "hcleaner htbl = log_cleaner"
  shows "\<exists>m' vs. hashtbl_free htbl m [] = Some (m', vs) \<and> mset vs = mset (map (Addrs \<circ> snd) al)
    \<and> items m' = Map.empty \<and> strs m' = Map.empty"
proof -
  obtain cs order where inv: "hash_inv akey64 (bkt64 (hsize htbl)) htbl m cs order"
    and al: "habs akey64 m order = tagged Addrs al" using t unfolding table64_def by blast
  have "str_ptr m a = None" if a: "a \<in> set order" for a
  proof -
    obtain k where "kof akey64 m a = Some k" by (rule hash_inv_kof [OF inv a])
    then show ?thesis by (auto simp: kof_def akey64_def str_ptr_def split: option.splits hash_key.splits)
  qed
  then obtain m' as where "hashtbl_free htbl m [] = Some (m', fold (\<lambda>a xs. hcontent (the (rd (items m) a)) # xs) as [])"
    "mset as = mset order" "items m' = Map.empty" "strs m' = Map.empty"
    using hash_free [OF inv, of "\<lambda>p it s. hcontent it # s" "[]"] assms(2) c
    by (auto simp: run_clean_def log_cleaner_def)
  then show ?thesis using free_contents [OF al] by blast
qed

lemma freeS:
  assumes t: "tableS seed tag htbl m al" and "htype htbl = APE_HASH_STR" and c: "hcleaner htbl = log_cleaner"
  shows "\<exists>m' vs. hashtbl_free htbl m [] = Some (m', vs) \<and> mset vs = mset (map (tag \<circ> snd) al)
    \<and> items m' = Map.empty \<and> strs m' = Map.empty"
proof -
  obtain cs order where inv: "hash_inv (akeyS seed (hsize htbl)) fst htbl m cs order"
    and al: "habs (akeyS seed (hsize htbl)) m order = tagged tag al" using t unfolding tableS_def by blast
  have "\<exists>it q. rd (items m) a = Some it \<and> hkey it = Key_str q \<and> rd (strs m) q \<noteq> None"
    if "kof (akeyS seed (hsize htbl)) m a = Some k" for a k
    using kofS_str [OF that] by metis
  then obtain m' as where "hashtbl_free htbl m [] = Some (m', fold (\<lambda>a xs. hcontent (the (rd (items m) a)) # xs) as [])"
    "mset as = mset order" "items m' = Map.empty" "strs m' = Map.empty"
    using hash_free [OF inv, of "\<lambda>p it s. hcontent it # s" "[]"] assms(2) c
    by (auto simp: run_clean_def log_cleaner_def)
  then show ?thesis using free_contents [OF al] by blast
qed

section \<open>Fresh tables\<close>

definition empty_hash :: hash_mem where
  "empty_hash = \<lparr>items = Map.empty, strs = Map.empty, hbrk = 1\<rparr>"

lemma hash_inv_init:
  assumes "0 < n" and "0 < hbrk m" and "items m = Map.empty" and "strs m = Map.empty"
  shows "hash_inv akey bkt (hashtbl_set_cleaner (hashtbl_init_with_size ty n) c) m (\<lambda>_. []) []"
  using assms
  by (simp add: hash_inv_def hashtbl_set_cleaner_def hashtbl_init_with_size_def hfresh_def hchains_def
      hkeys_def hcover_def hinj_def hown_def hexact_def)

lemma table64_init:
  assumes "0 < n" and "0 < hbrk m" and "items m = Map.empty" and "strs m = Map.empty"
  shows "table64 (hashtbl_set_cleaner (hashtbl_init_with_size ty n) c) m []"
  using hash_inv_init [OF assms] unfolding table64_def
  by (intro exI [of _ "\<lambda>_. []"] exI [of _ "[]"]) (simp add: habs_def)

lemma tableS_init:
  assumes "0 < n" and "0 < hbrk m" and "items m = Map.empty" and "strs m = Map.empty"
  shows "tableS seed tag (hashtbl_set_cleaner (hashtbl_init_with_size ty n) c) m []"
  using hash_inv_init [OF assms] unfolding tableS_def
  by (intro exI [of _ "\<lambda>_. []"] exI [of _ "[]"]) (simp add: habs_def)

section \<open>The interface\<close>

datatype ('k, 'v) store_op = Put 'k 'v | Del 'k

fun store_run ::
  "('k \<Rightarrow> 'v \<Rightarrow> 'st \<Rightarrow> 'st option) \<Rightarrow> ('k \<Rightarrow> 'st \<Rightarrow> 'st option) \<Rightarrow> ('k, 'v) store_op list \<Rightarrow> 'st \<Rightarrow> 'st option" where
  "store_run put del [] st = Some st"
| "store_run put del (Put k v # ops) st = do { st1 \<leftarrow> put k v st; store_run put del ops st1 }"
| "store_run put del (Del k # ops) st = do { st1 \<leftarrow> del k st; store_run put del ops st1 }"

text \<open>What the operations do to the map they stand for.\<close>

fun store_map :: "('k \<Rightarrow> 'i) \<Rightarrow> ('k, 'v) store_op list \<Rightarrow> ('i \<rightharpoonup> 'v) \<Rightarrow> ('i \<rightharpoonup> 'v)" where
  "store_map ident [] f = f"
| "store_map ident (Put k v # ops) f = store_map ident ops (f(ident k \<mapsto> v))"
| "store_map ident (Del k # ops) f = store_map ident ops (f(ident k := None))"

fun op_key :: "('k, 'v) store_op \<Rightarrow> 'k" where
  "op_key (Put k v) = k"
| "op_key (Del k) = k"

locale map_store =
  fixes rel :: "'st \<Rightarrow> ('i \<rightharpoonup> 'v) \<Rightarrow> bool"
    and ident :: "'k \<Rightarrow> 'i"
    and key_ok :: "'k \<Rightarrow> bool"
    and absent :: 'v
    and get :: "'k \<Rightarrow> 'st \<Rightarrow> 'v option"
    and put :: "'k \<Rightarrow> 'v \<Rightarrow> 'st \<Rightarrow> 'st option"
    and del :: "'k \<Rightarrow> 'st \<Rightarrow> 'st option"
  assumes get_rel: "rel st f \<Longrightarrow> key_ok k \<Longrightarrow> get k st = Some (case f (ident k) of None \<Rightarrow> absent | Some v \<Rightarrow> v)"
    and put_rel: "rel st f \<Longrightarrow> key_ok k \<Longrightarrow> \<exists>st'. put k v st = Some st' \<and> rel st' (f(ident k \<mapsto> v))"
    and del_rel: "rel st f \<Longrightarrow> key_ok k \<Longrightarrow> \<exists>st'. del k st = Some st' \<and> rel st' (f(ident k := None))"
begin

lemma run_rel:
  "rel st f \<Longrightarrow> \<forall>x \<in> set ops. key_ok (op_key x) \<Longrightarrow>
    \<exists>st'. store_run put del ops st = Some st' \<and> rel st' (store_map ident ops f)"
proof (induction ops arbitrary: st f)
  case (Cons x ops)
  show ?case
  proof (cases x)
    case (Put k v)
    then have "key_ok k" using Cons.prems(2) by simp
    then obtain st1 where "put k v st = Some st1" "rel st1 (f(ident k \<mapsto> v))"
      using put_rel [OF Cons.prems(1)] by blast
    then show ?thesis using Cons.IH [of st1] Cons.prems(2) Put by auto
  next
    case (Del k)
    then have "key_ok k" using Cons.prems(2) by simp
    then obtain st1 where "del k st = Some st1" "rel st1 (f(ident k := None))"
      using del_rel [OF Cons.prems(1)] by blast
    then show ?thesis using Cons.IH [of st1] Cons.prems(2) Del by auto
  qed
qed simp

lemma run_get:
  assumes "rel st f" and "\<forall>x \<in> set ops. key_ok (op_key x)" and "key_ok k"
  shows "\<exists>st'. store_run put del ops st = Some st'
     \<and> get k st' = Some (case store_map ident ops f (ident k) of None \<Rightarrow> absent | Some v \<Rightarrow> v)"
  using run_rel [OF assms(1,2)] get_rel [OF _ assms(3)] by blast

lemma put_get:
  assumes "rel st f" and "key_ok k" and "key_ok k'"
  shows "\<exists>st'. put k v st = Some st'
     \<and> get k' st' = (if ident k' = ident k then Some v else get k' st)"
proof -
  obtain st' where "put k v st = Some st'" "rel st' (f(ident k \<mapsto> v))" using put_rel [OF assms(1,2)] by blast
  then show ?thesis using get_rel [OF _ assms(3)] assms(1) by auto
qed

end

text \<open>Tables, with a cleaner that does not fail.\<close>

type_synonym 's store = "'s ape_htable \<times> hash_mem \<times> 's"

definition total_cleaner :: "'s ape_htable \<Rightarrow> bool" where
  "total_cleaner htbl \<longleftrightarrow> (\<forall>p it s. run_clean htbl p it s \<noteq> None)"

definition store64 :: "'s store \<Rightarrow> (uint64 \<rightharpoonup> ptr) \<Rightarrow> bool" where
  "store64 = (\<lambda>(htbl, m, s) f. total_cleaner htbl \<and> (\<exists>al. table64 htbl m al \<and> f = map_of al))"

definition get64 :: "uint64 \<Rightarrow> 's store \<Rightarrow> ptr option" where
  "get64 k = (\<lambda>(htbl, m, s). hashtbl_seek64 htbl k m)"

definition put64 :: "uint64 \<Rightarrow> ptr \<Rightarrow> 's store \<Rightarrow> 's store option" where
  "put64 k v = (\<lambda>(htbl, m, s). hashtbl_append64 htbl k v m s)"

definition del64 :: "uint64 \<Rightarrow> 's store \<Rightarrow> 's store option" where
  "del64 k = (\<lambda>(htbl, m, s). hashtbl_erase64 htbl k m s)"

lemma total_cleaner_cong: "hcleaner htbl' = hcleaner htbl \<Longrightarrow> total_cleaner htbl' = total_cleaner htbl"
  by (simp add: total_cleaner_def run_clean_def)

lemma map_of_put:
  "map_of (if map_of al k = None then (k, v) # al else AList.update k v al) = (map_of al)(k \<mapsto> v)"
  by (simp add: update_conv')

lemma total_cleanerD: "total_cleaner htbl \<Longrightarrow> \<exists>s'. run_clean htbl p it s = Some s'"
  by (simp add: total_cleaner_def)

lemma put64_rel:
  assumes "store64 st f"
  shows "\<exists>st'. put64 k v st = Some st' \<and> store64 st' (f(k \<mapsto> v))"
proof -
  obtain htbl m s al where st: "st = (htbl, m, s)" and t: "table64 htbl m al" and f: "f = map_of al"
    and tc: "total_cleaner htbl" using assms by (cases st) (auto simp: store64_def)
  obtain s' where s': "map_of al k \<noteq> None \<Longrightarrow> run_clean htbl (hbrk m) \<lparr>hkey = Key_integer k, hcontent = Addrs v,
        hnext = NULL, lnext = hfirst htbl, lprev = NULL\<rparr> s = Some s'" "map_of al k = None \<Longrightarrow> s' = s"
    using total_cleanerD [OF tc] by (cases "map_of al k") blast+
  obtain htbl' m' where "hashtbl_append64 htbl k v m s = Some (htbl', m', s')"
    "hcleaner htbl' = hcleaner htbl"
    "table64 htbl' m' (if map_of al k = None then (k, v) # al else AList.update k v al)"
    using append64_spec [OF t s'] by blast
  then show ?thesis using st f tc total_cleaner_cong [of htbl' htbl] map_of_put [of al k v]
    by (auto simp: put64_def store64_def)
qed

lemma del64_rel:
  assumes "store64 st f"
  shows "\<exists>st'. del64 k st = Some st' \<and> store64 st' (f(k := None))"
proof -
  obtain htbl m s al where st: "st = (htbl, m, s)" and t: "table64 htbl m al" and f: "f = map_of al"
    and tc: "total_cleaner htbl" using assms by (cases st) (auto simp: store64_def)
  obtain htbl' m' s' where "hashtbl_erase64 htbl k m s = Some (htbl', m', s')"
    "hcleaner htbl' = hcleaner htbl" "table64 htbl' m' (AList.delete k al)"
    using erase64_spec [OF t, of k s] total_cleanerD [OF tc] by fastforce
  then show ?thesis using st f tc total_cleaner_cong [of htbl' htbl] delete_conv' [of k al]
    by (auto simp: del64_def store64_def)
qed

lemma get64_rel: "store64 st f \<Longrightarrow> get64 k st = Some (case f k of None \<Rightarrow> NULL | Some v \<Rightarrow> v)"
  by (cases st) (auto simp: store64_def get64_def seek64_spec)

interpretation st64: map_store store64 id "\<lambda>_. True" NULL get64 put64 del64
  by (unfold_locales, unfold id_apply) (rule get64_rel put64_rel del64_rel, assumption)+

definition storeS :: "uint64 \<Rightarrow> nat \<Rightarrow> 's store \<Rightarrow> (nat \<times> byte list \<rightharpoonup> ptr) \<Rightarrow> bool" where
  "storeS seed n = (\<lambda>(htbl, m, s) f. hsize htbl = n \<and> total_cleaner htbl
     \<and> (\<exists>al. tableS seed Addrs htbl m al \<and> f = map_of al))"

definition identS :: "uint64 \<Rightarrow> nat \<Rightarrow> byte list \<Rightarrow> nat \<times> byte list" where
  "identS seed n key = the (strkey seed n key)"

definition getS :: "uint64 \<Rightarrow> byte list \<Rightarrow> 's store \<Rightarrow> ptr option" where
  "getS seed k = (\<lambda>(htbl, m, s). hashtbl_seek seed htbl (Some k) (int (length k) - 1) m)"

definition putS :: "uint64 \<Rightarrow> byte list \<Rightarrow> ptr \<Rightarrow> 's store \<Rightarrow> 's store option" where
  "putS seed k v = (\<lambda>(htbl, m, s). hashtbl_append seed htbl (Some k) (int (length k) - 1) v m s)"

definition delS :: "uint64 \<Rightarrow> byte list \<Rightarrow> 's store \<Rightarrow> 's store option" where
  "delS seed k = (\<lambda>(htbl, m, s). hashtbl_erase seed htbl (Some k) (int (length k) - 1) m s)"

lemma storeS_D:
  assumes "storeS seed n st f" and "c_string k"
  obtains htbl m s al where "st = (htbl, m, s)" and "tableS seed Addrs htbl m al" and "f = map_of al"
    and "total_cleaner htbl" and "hsize htbl = n" and "strkey seed (hsize htbl) k = Some (identS seed n k)"
proof -
  obtain htbl m s al where *: "st = (htbl, m, s)" "tableS seed Addrs htbl m al" "f = map_of al"
    "total_cleaner htbl" "hsize htbl = n" using assms(1) by (cases st) (auto simp: storeS_def)
  have "0 < n" using *(2,5) hash_invD(2) unfolding tableS_def by blast
  then have "strkey seed (hsize htbl) k = Some (identS seed n k)"
    using strkey_total [OF assms(2), of n seed] *(5) unfolding identS_def by (metis option.sel)
  with * show ?thesis by (rule that)
qed

lemma putS_rel:
  assumes "storeS seed n st f" and c: "c_string k"
  shows "\<exists>st'. putS seed k v st = Some st' \<and> storeS seed n st' (f(identS seed n k \<mapsto> v))"
proof -
  obtain htbl m s al where st: "st = (htbl, m, s)" and t: "tableS seed Addrs htbl m al" and f: "f = map_of al"
    and tc: "total_cleaner htbl" and n: "hsize htbl = n" and k: "strkey seed (hsize htbl) k = Some (identS seed n k)"
    by (rule storeS_D [OF assms])
  let ?k = "identS seed n k"
  obtain s' where s': "map_of al ?k \<noteq> None \<Longrightarrow> run_clean htbl (hbrk m) \<lparr>hkey = Key_str (hbrk m + 1), hcontent = Addrs v,
        hnext = NULL, lnext = hfirst htbl, lprev = NULL\<rparr> s = Some s'" "map_of al ?k = None \<Longrightarrow> s' = s"
    using total_cleanerD [OF tc] by (cases "map_of al ?k") blast+
  obtain htbl' m' where "hashtbl_append seed htbl (Some k) (int (length k) - 1) v m s = Some (htbl', m', s')"
    "hcleaner htbl' = hcleaner htbl" "hsize htbl' = hsize htbl"
    "tableS seed Addrs htbl' m' (if map_of al ?k = None then (?k, v) # al else AList.update ?k v al)"
    using append_spec [OF t k c s'] by blast
  then show ?thesis using st f n tc total_cleaner_cong [of htbl' htbl] map_of_put [of al ?k v]
    by (auto simp: putS_def storeS_def)
qed

lemma delS_rel:
  assumes "storeS seed n st f" and c: "c_string k"
  shows "\<exists>st'. delS seed k st = Some st' \<and> storeS seed n st' (f(identS seed n k := None))"
proof -
  obtain htbl m s al where st: "st = (htbl, m, s)" and t: "tableS seed Addrs htbl m al" and f: "f = map_of al"
    and tc: "total_cleaner htbl" and n: "hsize htbl = n" and k: "strkey seed (hsize htbl) k = Some (identS seed n k)"
    by (rule storeS_D [OF assms])
  let ?k = "identS seed n k"
  obtain htbl' m' s' where "hashtbl_erase seed htbl (Some k) (int (length k) - 1) m s = Some (htbl', m', s')"
    "hcleaner htbl' = hcleaner htbl" "hsize htbl' = hsize htbl" "tableS seed Addrs htbl' m' (AList.delete ?k al)"
    using erase_spec [OF t k c, of s] total_cleanerD [OF tc] by fastforce
  then show ?thesis using st f n tc total_cleaner_cong [of htbl' htbl] delete_conv' [of ?k al]
    by (auto simp: delS_def storeS_def)
qed

lemma getS_rel:
  assumes "storeS seed n st f" and "c_string k"
  shows "getS seed k st = Some (case f (identS seed n k) of None \<Rightarrow> NULL | Some v \<Rightarrow> v)"
proof -
  obtain htbl m s al where "st = (htbl, m, s)" and t: "tableS seed Addrs htbl m al" and "f = map_of al"
    and "total_cleaner htbl" and "hsize htbl = n" and k: "strkey seed (hsize htbl) k = Some (identS seed n k)"
    by (rule storeS_D [OF assms])
  then show ?thesis using seek_spec [OF t k assms(2)] by (simp add: getS_def)
qed

interpretation stS: map_store "storeS seed n" "identS seed n" c_string NULL "getS seed" "putS seed" "delS seed"
  for seed n
  by unfold_locales (rule getS_rel putS_rel delS_rel, assumption+)+

end
