(* ===== verification/Hash_Claims.thy ===== *)
theory Hash_Claims
  imports Hash_Store
begin

text \<open>The properties of the hash table.\<close>

lemma store64_init:
  assumes "0 < n" and "total_cleaner (hashtbl_set_cleaner (hashtbl_init_with_size ty n) c)"
  shows "store64 (hashtbl_set_cleaner (hashtbl_init_with_size ty n) c, empty_hash, s) Map.empty"
  using assms table64_init [of n empty_hash ty c] by (auto simp: store64_def empty_hash_def)

lemma storeS_init:
  assumes "0 < n" and "total_cleaner (hashtbl_set_cleaner (hashtbl_init_with_size ty n) c)"
  shows "storeS seed n (hashtbl_set_cleaner (hashtbl_init_with_size ty n) c, empty_hash, s) Map.empty"
  using assms tableS_init [of n empty_hash seed Addrs ty c]
  by (auto simp: storeS_def empty_hash_def hashtbl_set_cleaner_def hashtbl_init_with_size_def)

text \<open>C6: A table with integer keys is a map: on a fresh table of any size with any cleaner that does
  not fail, every sequence of \<open>hashtbl_append64\<close> and \<open>hashtbl_erase64\<close> runs without a
  fault, and then \<open>hashtbl_seek64\<close> of any key returns the value stored last, or NULL when
  there is none or it was erased.\<close>

theorem hash64_is_map:
  assumes "0 < n" and "total_cleaner (hashtbl_set_cleaner (hashtbl_init_with_size APE_HASH_INT n) c)"
  shows "\<exists>st. store_run put64 del64 ops
      (hashtbl_set_cleaner (hashtbl_init_with_size APE_HASH_INT n) c, empty_hash, s) = Some st
    \<and> get64 k st = Some (case store_map id ops Map.empty k of None \<Rightarrow> NULL | Some v \<Rightarrow> v)"
  using st64.run_get [OF store64_init [OF assms, where s = s], where ops = ops and k = k] by simp

lemma hash64_is_map_witness:
  "\<exists>st. store_run put64 del64 [Put 5 10, Put 8 20, Put 5 30, Del 8, Put 2 40]
      (hashtbl_set_cleaner (hashtbl_init_with_size APE_HASH_INT 3) None, empty_hash, ()) = Some st
    \<and> get64 5 st = Some 30"
proof -
  have "total_cleaner (hashtbl_set_cleaner (hashtbl_init_with_size APE_HASH_INT 3)
      (None :: unit hash_clean_callback option))"
    by (simp add: total_cleaner_def run_clean_def hashtbl_set_cleaner_def)
  then show ?thesis
    using hash64_is_map [of 3 None "[Put 5 10, Put 8 20, Put 5 30, Del 8, Put 2 40]" "()" 5] by simp
qed

text \<open>C25: A table with string keys is a map too, but of keys up to the pair of the chain they hash
  to and their lower-case form: every sequence of \<open>hashtbl_append\<close> and \<open>hashtbl_erase\<close>
  with terminated keys runs without a fault, and \<open>hashtbl_seek\<close> returns what was stored last
  under an equivalent key.\<close>

theorem hash_str_is_map:
  assumes "0 < n" and "total_cleaner (hashtbl_set_cleaner (hashtbl_init_with_size APE_HASH_STR n) c)"
    and "\<forall>x \<in> set ops. c_string (op_key x)" and "c_string k"
  shows "\<exists>st. store_run (putS seed) (delS seed) ops
      (hashtbl_set_cleaner (hashtbl_init_with_size APE_HASH_STR n) c, empty_hash, s) = Some st
    \<and> getS seed k st
        = Some (case store_map (identS seed n) ops Map.empty (identS seed n k) of None \<Rightarrow> NULL | Some v \<Rightarrow> v)"
  using stS.run_get [OF storeS_init [OF assms(1,2)] assms(3,4)] .

lemma hash_str_is_map_witness:
  "\<exists>st. store_run (putS 0) (delS 0) [Put [72, 105, 0] 10, Put [72, 111, 0] 20, Del [72, 105, 0]]
      (hashtbl_set_cleaner (hashtbl_init_with_size APE_HASH_STR 4) None, empty_hash, ()) = Some st
    \<and> getS 0 [72, 111, 0] st
        = Some (case store_map (identS 0 4) [Put [72, 105, 0] 10, Put [72, 111, 0] 20, Del [72, 105, 0]]
                  Map.empty (identS 0 4 [72, 111, 0]) of None \<Rightarrow> NULL | Some v \<Rightarrow> v)"
proof -
  have "total_cleaner (hashtbl_set_cleaner (hashtbl_init_with_size APE_HASH_STR 4)
      (None :: unit hash_clean_callback option))"
    by (simp add: total_cleaner_def run_clean_def hashtbl_set_cleaner_def)
  then show ?thesis
    by (rule hash_str_is_map [OF zero_less_numeral]) (simp_all add: c_string_def)
qed

text \<open>Looking up a key that differs only in case from the stored one is not what
  \<open>strcasecmp\<close> suggests: it succeeds exactly when the two spellings, hashed byte by byte,
  happen to fall into the same chain.\<close>

theorem hash_case_lookup:
  assumes "0 < n" and "c_string key" and "c_string key'" and "List.map tolower key' = List.map tolower key"
  shows "\<exists>st. putS seed key v (hashtbl_init_with_size APE_HASH_STR n, empty_hash, s) = Some st
    \<and> getS seed key' st =
        Some (if ape_hash_str seed key' (int (length key') - 1) n = ape_hash_str seed key (int (length key) - 1) n
              then v else NULL)"
proof -
  let ?t = "hashtbl_init_with_size APE_HASH_STR n :: 'a ape_htable"
  have t: "?t = hashtbl_set_cleaner ?t None"
    by (simp add: hashtbl_set_cleaner_def hashtbl_init_with_size_def)
  have "total_cleaner ?t" by (simp add: total_cleaner_def run_clean_def hashtbl_init_with_size_def)
  then have i: "storeS seed n (?t, empty_hash, s) Map.empty"
    using storeS_init [OF assms(1), of APE_HASH_STR None seed s] t by simp
  from stS.put_rel [OF this assms(2), where v = v] obtain st where
    p: "putS seed key v (?t, empty_hash, s) = Some st" and r: "storeS seed n st [identS seed n key \<mapsto> v]"
    by (elim exE conjE) (rule that)
  have low: "List.map tolower (butlast key') = List.map tolower (butlast key)"
    using assms(4) by (simp add: map_butlast)
  obtain b where b: "ape_hash_str seed key (int (length key) - 1) n = Some b"
    and kb: "strkey seed n key = Some (b, List.map tolower (butlast key))"
    by (rule strkey_total [OF assms(2,1)])
  obtain b' where b': "ape_hash_str seed key' (int (length key') - 1) n = Some b'"
    and kb': "strkey seed n key' = Some (b', List.map tolower (butlast key'))"
    by (rule strkey_total [OF assms(3,1)])
  have "getS seed key' st = Some (if b' = b then v else NULL)"
    using stS.get_rel [OF r assms(3)] kb kb' low by (simp add: identS_def)
  then show ?thesis using p b b' by auto
qed

lemma hash_case_lookup_witness:
  "\<exists>st. putS 0 [72, 105, 0] 10 (hashtbl_init_with_size APE_HASH_STR 8209, empty_hash, ()) = Some st
    \<and> getS 0 [104, 105, 0] st = Some NULL"
proof -
  have "MurmurHash2 [72, 105, 0] 2 0 = Some 3336503750 \<and> MurmurHash2 [104, 105, 0] 2 0 = Some 473447668"
    by code_simp
  then have "ape_hash_str 0 [104, 105, 0] 2 8209 \<noteq> ape_hash_str 0 [72, 105, 0] 2 8209"
    by (simp add: ape_hash_str_def)
  moreover have "List.map tolower [104, 105, 0] = List.map tolower [72, 105, 0]" by code_simp
  ultimately show ?thesis
    using hash_case_lookup [of 8209 "[72, 105, 0]" "[104, 105, 0]" 0 10 "()"]
    by (simp add: c_string_def)
qed

text \<open>Storing under a key that is already there runs the cleaner on the value being stored (not
  on the one it replaces), and then keeps that very value in the table; under a new key the cleaner
  is not run. A cleaner that frees leaves a dangling value behind and leaks the old one.\<close>

theorem hash64_duplicate_cleans_new_value:
  assumes "table64 htbl m al" and "hcleaner htbl = log_cleaner"
  shows "\<exists>htbl' m'. hashtbl_append64 htbl key a m s
        = Some (htbl', m', if map_of al key = None then s else Addrs a # s)
     \<and> table64 htbl' m' (if map_of al key = None then (key, a) # al else AList.update key a al)
     \<and> hashtbl_seek64 htbl' key m' = Some a"
proof -
  have *: "map_of al key \<noteq> None \<Longrightarrow> run_clean htbl (hbrk m) \<lparr>hkey = Key_integer key, hcontent = Addrs a,
      hnext = NULL, lnext = hfirst htbl, lprev = NULL\<rparr> s = Some (if map_of al key = None then s else Addrs a # s)"
    using assms(2) by (simp add: run_clean_def log_cleaner_def)
  obtain htbl' m' where r: "hashtbl_append64 htbl key a m s
        = Some (htbl', m', if map_of al key = None then s else Addrs a # s)"
    "table64 htbl' m' (if map_of al key = None then (key, a) # al else AList.update key a al)"
    using append64_spec [OF assms(1) *] by auto
  have "hashtbl_seek64 htbl' key m' = Some a"
    using seek64_spec [OF r(2), of key] by (simp add: map_of_put)
  then show ?thesis using r by blast
qed

lemma hash64_duplicate_cleans_new_value_witness:
  "\<exists>htbl m s htbl' m'.
      hashtbl_append64 (hashtbl_set_cleaner (hashtbl_init_with_size APE_HASH_INT 3) log_cleaner) 5 10 empty_hash []
        = Some (htbl, m, s)
    \<and> hashtbl_append64 htbl 5 20 m s = Some (htbl', m', [Addrs 20])
    \<and> hashtbl_seek64 htbl' 5 m' = Some 20"
proof -
  let ?t = "hashtbl_set_cleaner (hashtbl_init_with_size APE_HASH_INT 3) log_cleaner"
  have "table64 ?t empty_hash []" by (rule table64_init) (simp_all add: empty_hash_def)
  moreover have "hcleaner ?t = log_cleaner" by (simp add: hashtbl_set_cleaner_def)
  ultimately obtain htbl m where a: "hashtbl_append64 ?t 5 10 empty_hash [] = Some (htbl, m, [])"
    "table64 htbl m [(5, 10)]" "hcleaner htbl = log_cleaner"
    using append64_spec [of ?t empty_hash "[]" 5 10 "[]" "[]"] by auto
  then show ?thesis
    using hash64_duplicate_cleans_new_value [OF a(2,3), of 5 20 "[]"] by auto
qed

text \<open>C34: Freeing a table frees everything: \<open>hashtbl_free\<close> never faults, runs the cleaner
  exactly once on every value the table holds, and no item and no key string is left.\<close>

theorem hashtbl_free_releases_all:
  assumes "table64 htbl m al" and "htype htbl = APE_HASH_INT" and "hcleaner htbl = log_cleaner"
    and "tableS seed Addrs htbl' m2 al'" and "htype htbl' = APE_HASH_STR" and "hcleaner htbl' = log_cleaner"
  shows "(\<exists>m' vs. hashtbl_free htbl m [] = Some (m', vs) \<and> mset vs = mset (map (Addrs \<circ> snd) al)
      \<and> items m' = Map.empty \<and> strs m' = Map.empty)
    \<and> (\<exists>m' vs. hashtbl_free htbl' m2 [] = Some (m', vs) \<and> mset vs = mset (map (Addrs \<circ> snd) al')
      \<and> items m' = Map.empty \<and> strs m' = Map.empty)"
  using free64 [OF assms(1-3)] freeS [OF assms(4-6)] by blast

lemma hashtbl_free_releases_all_witness:
  "(\<exists>m' vs. hashtbl_free (hashtbl_set_cleaner (hashtbl_init_with_size APE_HASH_INT 3) log_cleaner) empty_hash []
        = Some (m', vs) \<and> mset vs = mset (map (Addrs \<circ> snd) ([] :: (uint64 \<times> ptr) list))
      \<and> items m' = Map.empty \<and> strs m' = Map.empty)
    \<and> (\<exists>htbl m m' vs. hashtbl_append 0 (hashtbl_set_cleaner (hashtbl_init_with_size APE_HASH_STR 3) log_cleaner)
          (Some [72, 105, 0]) 2 10 empty_hash [] = Some (htbl, m, [])
      \<and> hashtbl_free htbl m [] = Some (m', vs) \<and> vs = [Addrs 10]
      \<and> items m' = Map.empty \<and> strs m' = Map.empty)"
proof -
  let ?t = "hashtbl_set_cleaner (hashtbl_init_with_size APE_HASH_INT 3) log_cleaner"
  let ?u = "hashtbl_set_cleaner (hashtbl_init_with_size APE_HASH_STR 3) log_cleaner"
  have t: "table64 ?t empty_hash []" by (rule table64_init) (simp_all add: empty_hash_def)
  have u: "tableS 0 Addrs ?u empty_hash []" by (rule tableS_init) (simp_all add: empty_hash_def)
  have ty: "htype ?t = APE_HASH_INT" "htype ?u = APE_HASH_STR" "hcleaner ?t = log_cleaner"
    "hcleaner ?u = log_cleaner" "hsize ?u = 3"
    by (simp_all add: hashtbl_set_cleaner_def hashtbl_init_with_size_def)
  have c: "c_string [72, 105, 0]" by (simp add: c_string_def)
  obtain b where "strkey 0 3 [72, 105, 0] = Some (b, List.map tolower (butlast [72, 105, 0]))"
    by (rule strkey_total [OF c, of 3 0]) simp_all
  then obtain k where k: "strkey 0 (hsize ?u) [72, 105, 0] = Some k" using ty(5) by simp
  obtain htbl m where a: "hashtbl_append 0 ?u (Some [72, 105, 0]) 2 10 empty_hash [] = Some (htbl, m, [])"
    "hcleaner htbl = log_cleaner" "htype htbl = APE_HASH_STR" "tableS 0 Addrs htbl m [(k, 10)]"
    using append_spec [OF u k c, of 10 "[]" "[]"] ty by auto
  show ?thesis
    using hashtbl_free_releases_all [OF t ty(1,3) a(4,3,2)] a(1) by auto
qed

text \<open>\<open>ape_hash_str\<close> of a key of \<open>len\<close> bytes never reads past them, always gives
  an index of the table, and depends on those bytes only.\<close>

theorem ape_hash_str_in_range:
  assumes "0 < n" and "len \<le> int (length key)"
  shows "\<exists>b. ape_hash_str seed key len n = Some b \<and> b < n \<and> ape_hash_str seed (key @ zs) len n = Some b"
proof -
  obtain b where "ape_hash_str seed key len n = Some b" "b < n" by (rule ape_hash_str_total [OF assms(2,1)])
  then show ?thesis using MurmurHash2_append [OF assms(2)] by (simp add: ape_hash_str_def)
qed

lemma ape_hash_str_in_range_witness:
  "\<exists>b. ape_hash_str 3 [72, 105] 2 8209 = Some b \<and> b < 8209 \<and> ape_hash_str 3 ([72, 105] @ [0]) 2 8209 = Some b"
  by (rule ape_hash_str_in_range) simp_all

end
