(* ===== verification/Buffer.thy ===== *)
theory Buffer
  imports Prelude
begin

unbundle bit_operations_syntax

text \<open>
  \<open>ape_buffer.c\<close>: growing byte buffers, with an optional gzip stream. The data of a buffer is
  a malloc'd block, a list of bytes of the block's length; fresh bytes of a block have the
  unspecified value \<open>junk\<close>. Reading or writing outside the block is a fault. Sizes are
  \<open>nat\<close>: a block as large as the address space does not exist, so \<open>used + size\<close> cannot
  wrap. The functions of zlib are a parameter (\<open>zlib\<close>); the code only relies on their
  documented interface: \<open>deflate\<close> takes the pending input and the room for output and returns
  a code, how much it consumed and what it wrote.
\<close>

section \<open>Blocks of bytes\<close>

definition malloc_bytes :: "byte \<Rightarrow> nat \<Rightarrow> byte list" where
  "malloc_bytes junk n = replicate n junk"

definition realloc_bytes :: "byte \<Rightarrow> byte list \<Rightarrow> nat \<Rightarrow> byte list" where
  "realloc_bytes junk d n = take n d @ replicate (n - length d) junk"

text \<open>memcpy to offset \<open>off\<close> of a block.\<close>

definition copy_to :: "byte list \<Rightarrow> nat \<Rightarrow> byte list \<Rightarrow> byte list option" where
  "copy_to d off bs = (if off + length bs \<le> length d
     then Some (take off d @ bs @ drop (off + length bs) d) else None)"

section \<open>Buffers\<close>

text \<open>
  The stream of zlib. \<open>next_in\<close> is NULL, in the caller's data or in the input buffer
  \<open>zb_buf\<close>; \<open>next_out\<close> is NULL or an offset into the data of the buffer.
\<close>

datatype zin = Z_NULL | Z_caller nat | Z_buf nat

record 'z z_stream =
  next_in :: zin
  avail_in :: nat
  next_out :: "nat option"
  avail_out :: nat
  total_out :: nat
  zstate :: 'z

record 'z zbuffer =
  zstream :: "'z z_stream"
  zcrc32 :: uint32
  zb_buf :: "byte list option"
  buf_size :: nat
  zflush :: bool

record 'z buffer =
  bdata :: "byte list option"
  bsize :: nat
  bused :: nat
  bpos :: uint32
  zbuf :: "'z zbuffer option"

datatype z_code = Z_OK | Z_STREAM_END | Z_BUF_ERROR | Z_STREAM_ERROR | Z_OTHER

datatype z_flush = Z_NO_FLUSH | Z_FINISH

record 'z zlib =
  deflateInit2 :: "z_code \<times> 'z"
  deflateReset :: "'z \<Rightarrow> 'z"
  deflate :: "'z \<Rightarrow> z_flush \<Rightarrow> byte list \<Rightarrow> nat \<Rightarrow> z_code \<times> nat \<times> byte list \<times> 'z"
  deflateBound :: "'z \<Rightarrow> nat \<Rightarrow> nat"
  zlib_crc32 :: "uint32 \<Rightarrow> byte list \<Rightarrow> uint32"

definition ZBUF_BUFSIZE :: nat where
  "ZBUF_BUFSIZE = 1024"

definition buffer_init :: "'z buffer" where
  "buffer_init = \<lparr>bdata = None, bsize = 0, bused = 0, bpos = 0, zbuf = None\<rparr>"

definition buffer_new :: "byte \<Rightarrow> nat \<Rightarrow> 'z buffer" where
  "buffer_new junk sz = (if sz > 0
     then buffer_init\<lparr>bsize := sz, bdata := Some (malloc_bytes junk sz)\<rparr>
     else buffer_init)"

section \<open>The gzip stream\<close>

definition on_stream :: "('z z_stream \<Rightarrow> 'z z_stream) \<Rightarrow> 'z buffer \<Rightarrow> 'z buffer" where
  "on_stream f b = b\<lparr>zbuf := map_option (\<lambda>z. z\<lparr>zstream := f (zstream z)\<rparr>) (zbuf b)\<rparr>"

definition zbuffer_adjust_outbuf :: "'z buffer \<Rightarrow> 'z buffer" where
  "zbuffer_adjust_outbuf b = on_stream (\<lambda>s. s\<lparr>avail_out := bsize b - bused b,
     next_out := map_option (\<lambda>_. bused b) (bdata b)\<rparr>) b"

text \<open>The doubling loop; the subtraction of size_t wraps when the stream has more input pending
  than the buffer holds.\<close>

partial_function (option) grow_bufsize :: "nat \<Rightarrow> nat \<Rightarrow> nat \<Rightarrow> nat option" where
  "grow_bufsize av input_size bufsize =
     (if av \<le> bufsize \<and> bufsize - av < input_size then grow_bufsize av input_size (bufsize * 2)
      else Some bufsize)"

declare grow_bufsize.simps [code]

definition zbuffer_prepapre_buf :: "byte \<Rightarrow> 'z buffer \<Rightarrow> nat \<Rightarrow> 'z buffer option" where
  "zbuffer_prepapre_buf junk b input_size = (case zbuf b of None \<Rightarrow> Some b | Some z \<Rightarrow>
     let av = avail_in (zstream z) in
     if av = 0 then Some b
     else if int (buf_size z) - int av \<ge> int input_size then Some b
     else do {
       bufsize \<leftarrow> grow_bufsize av input_size (ape_max ZBUF_BUFSIZE (buf_size z));
       let z1 = z\<lparr>buf_size := bufsize,
                  zb_buf := Some (case zb_buf z of None \<Rightarrow> malloc_bytes junk bufsize
                                  | Some d \<Rightarrow> realloc_bytes junk d bufsize)\<rparr>;
       Some (on_stream (\<lambda>s. s\<lparr>avail_out := nat ((int bufsize - int av) mod 2 ^ 32)\<rparr>)
              (b\<lparr>zbuf := Some z1\<rparr>)) })"

definition buffer_set_gzip :: "'z zlib \<Rightarrow> 'z buffer \<Rightarrow> 'z buffer" where
  "buffer_set_gzip zl b = (case zbuf b of Some z \<Rightarrow> b | None \<Rightarrow>
     let (rc, st) = deflateInit2 zl;
         s = \<lparr>next_in = Z_NULL, avail_in = 0, next_out = None, avail_out = 0, total_out = 0, zstate = st\<rparr>;
         b1 = b\<lparr>bused := 0, zbuf := Some \<lparr>zstream = s, zcrc32 = 0, zb_buf = None, buf_size = 0,
                                       zflush = False\<rparr>\<rparr>
     in if rc \<noteq> Z_OK then b1
        else (zbuffer_adjust_outbuf b1)\<lparr>zbuf :=
               map_option (\<lambda>z. z\<lparr>zcrc32 := zlib_crc32 zl 0 []\<rparr>) (zbuf (zbuffer_adjust_outbuf b1))\<rparr>)"

definition buffer_gzip_reset :: "'z zlib \<Rightarrow> 'z buffer \<Rightarrow> 'z buffer" where
  "buffer_gzip_reset zl b = b\<lparr>zbuf := map_option (\<lambda>z.
     (if zb_buf z \<noteq> None then z\<lparr>zb_buf := None, buf_size := 0\<rparr> else z)
       \<lparr>zstream := (zstream z)\<lparr>zstate := deflateReset zl (zstate (zstream z)), total_out := 0\<rparr>,
        zcrc32 := 0\<rparr>) (zbuf b)\<rparr>"

text \<open>
  The call of \<open>deflate\<close>: the pending input is read where \<open>next_in\<close> points (the data of the
  current call, or the input buffer), the output is written at \<open>next_out\<close>. A NULL
  \<open>next_in\<close> with pending input, or a NULL \<open>next_out\<close>, is the documented stream error.
\<close>

definition zin_read :: "byte list option \<Rightarrow> 'z zbuffer \<Rightarrow> byte list option" where
  "zin_read data z = (let n = avail_in (zstream z) in case next_in (zstream z) of
     Z_NULL \<Rightarrow> Some []
   | Z_caller off \<Rightarrow> (case data of None \<Rightarrow> None
       | Some d \<Rightarrow> if off + n \<le> length d then Some (take n (drop off d)) else None)
   | Z_buf off \<Rightarrow> (case zb_buf z of None \<Rightarrow> None
       | Some d \<Rightarrow> if off + n \<le> length d then Some (take n (drop off d)) else None))"

definition zin_advance :: "nat \<Rightarrow> zin \<Rightarrow> zin" where
  "zin_advance n p = (case p of Z_NULL \<Rightarrow> Z_NULL | Z_caller off \<Rightarrow> Z_caller (off + n)
                      | Z_buf off \<Rightarrow> Z_buf (off + n))"

definition run_deflate ::
  "'z zlib \<Rightarrow> byte list option \<Rightarrow> z_flush \<Rightarrow> 'z buffer \<Rightarrow> (z_code \<times> 'z buffer) option" where
  "run_deflate zl data flush b = do {
     z \<leftarrow> zbuf b;
     let s = zstream z;
     if next_in s = Z_NULL \<and> avail_in s \<noteq> 0 then Some (Z_STREAM_ERROR, b)
     else do {
       inp \<leftarrow> zin_read data z;
       case next_out s of None \<Rightarrow> Some (Z_STREAM_ERROR, b)
       | Some off \<Rightarrow> do {
           let (ret, n, out, st) = deflate zl (zstate s) flush inp (avail_out s);
           d \<leftarrow> bdata b;
           d1 \<leftarrow> copy_to d off out;
           Some (ret, b\<lparr>bdata := Some d1, zbuf := Some (z\<lparr>zstream :=
             \<lparr>next_in = zin_advance n (next_in s), avail_in = avail_in s - n,
              next_out = Some (off + length out), avail_out = avail_out s - length out,
              total_out = total_out s + length out, zstate = st\<rparr>\<rparr>)\<rparr>) } } }"

section \<open>Making room\<close>

definition buffer_prepare :: "byte \<Rightarrow> 'z buffer \<Rightarrow> nat \<Rightarrow> 'z buffer option" where
  "buffer_prepare junk b sz = do {
     b1 \<leftarrow> (if bsize b = 0 then
              Some (b\<lparr>bsize := sz, bused := 0, bdata := Some (malloc_bytes junk sz)\<rparr>)
            else if bused b + sz > bsize b then do {
              let sz1 = (if sz = 0 then 1 else sz);
              Some (b\<lparr>bsize := bsize b + sz1,
                      bdata := Some (case bdata b of None \<Rightarrow> malloc_bytes junk (bsize b + sz1)
                                     | Some d \<Rightarrow> realloc_bytes junk d (bsize b + sz1))\<rparr>) }
            else Some b);
     Some (if zbuf b1 \<noteq> None then zbuffer_adjust_outbuf b1 else b1) }"

definition buffer_prepare_for :: "byte \<Rightarrow> 'z buffer \<Rightarrow> nat \<Rightarrow> nat \<Rightarrow> 'z buffer option" where
  "buffer_prepare_for junk b sz forsize = do {
     b1 \<leftarrow> (if bsize b = 0 then
              Some (b\<lparr>bsize := sz, bused := 0, bdata := Some (malloc_bytes junk sz)\<rparr>)
            else if bused b + forsize > bsize b then do {
              let sz1 = (if sz = 0 then 1 else sz);
              Some (b\<lparr>bsize := bsize b + sz1,
                      bdata := Some (case bdata b of None \<Rightarrow> malloc_bytes junk (bsize b + sz1)
                                     | Some d \<Rightarrow> realloc_bytes junk d (bsize b + sz1))\<rparr>) }
            else Some b);
     Some (if zbuf b1 \<noteq> None then zbuffer_adjust_outbuf b1 else b1) }"

text \<open>Stores at an offset of the data.\<close>

definition bput :: "'z buffer \<Rightarrow> nat \<Rightarrow> byte list \<Rightarrow> 'z buffer option" where
  "bput b off bs = do { d \<leftarrow> bdata b; d1 \<leftarrow> copy_to d off bs; Some (b\<lparr>bdata := Some d1\<rparr>) }"

section \<open>Appending\<close>

text \<open>The gzip branch of \<open>buffer_append_data\<close>.\<close>

definition append_gzip :: "byte \<Rightarrow> 'z zlib \<Rightarrow> 'z buffer \<Rightarrow> byte list \<Rightarrow> 'z buffer option" where
  "append_gzip junk zl b data = do {
     let sz = length data;
     z0 \<leftarrow> zbuf b;
     b1 \<leftarrow> buffer_prepare junk b (deflateBound zl (zstate (zstream z0)) (avail_in (zstream z0) + sz));
     b2 \<leftarrow> zbuffer_prepapre_buf junk b1 sz;
     z2 \<leftarrow> zbuf b2;
     z3 \<leftarrow> (if next_in (zstream z2) \<noteq> Z_NULL
             then do { d \<leftarrow> zb_buf z2; d1 \<leftarrow> copy_to d (avail_in (zstream z2)) data; Some (z2\<lparr>zb_buf := Some d1\<rparr>) }
             else Some (z2\<lparr>zstream := (zstream z2)\<lparr>next_in := Z_caller 0\<rparr>\<rparr>));
     let consumed0 = avail_in (zstream z3) + sz;
     let outsize = avail_out (zstream z3);
     let b3 = b2\<lparr>zbuf := Some (z3\<lparr>zstream := (zstream z3)\<lparr>avail_in := avail_in (zstream z3) + sz\<rparr>,
                                  zcrc32 := zlib_crc32 zl (zcrc32 z3) data\<rparr>)\<rparr>;
     (ret, b4) \<leftarrow> run_deflate zl (Some data) (if zflush z3 then Z_FINISH else Z_NO_FLUSH) b3;
     z4 \<leftarrow> zbuf b4;
     let b5 = b4\<lparr>bused := bused b4 + (outsize - avail_out (zstream z4))\<rparr>;
     let consumed = consumed0 - avail_in (zstream z4);
     let b6 = (if avail_in (zstream z4) = 0 then on_stream (\<lambda>s. s\<lparr>next_in := Z_NULL\<rparr>) b5 else b5);
     if ret = Z_OK \<and> avail_in (zstream z4) \<noteq> 0 then do {
       b7 \<leftarrow> zbuffer_prepapre_buf junk b6 (avail_in (zstream z4));
       z7 \<leftarrow> zbuf b7;
       rest \<leftarrow> (if consumed \<le> sz then zin_read (Some data) (z7\<lparr>zstream := (zstream z7)\<lparr>avail_in := sz - consumed\<rparr>\<rparr>)
               else None);
       d \<leftarrow> zb_buf z7;
       d1 \<leftarrow> copy_to d 0 rest;
       Some (on_stream (\<lambda>s. s\<lparr>next_in := Z_buf 0\<rparr>) (b7\<lparr>zbuf := Some (z7\<lparr>zb_buf := Some d1\<rparr>)\<rparr>))
     }
     else if ret = Z_STREAM_ERROR \<or> ret = Z_BUF_ERROR then Some b6
     else if ret = Z_STREAM_END
       then Some (on_stream (\<lambda>s. s\<lparr>zstate := deflateReset zl (zstate s), total_out := 0\<rparr>) b6)
     else Some b6 }"

definition buffer_append_data :: "byte \<Rightarrow> 'z zlib \<Rightarrow> 'z buffer \<Rightarrow> byte list \<Rightarrow> 'z buffer option" where
  "buffer_append_data junk zl b data =
     (if length data = 0 then Some b
      else if zbuf b \<noteq> None then append_gzip junk zl b data
      else do {
        b1 \<leftarrow> buffer_prepare junk b (length data + 1);
        b2 \<leftarrow> bput b1 (bused b1) data;
        b3 \<leftarrow> bput b2 (bused b2 + length data) [0];
        Some (b3\<lparr>bused := bused b3 + length data\<rparr>) })"

text \<open>The index is an \<open>unsigned\<close>, the size is not: with 4 GB or more the loop does not end.\<close>

partial_function (option) tolower_loop :: "byte list \<Rightarrow> uint32 \<Rightarrow> 'z buffer \<Rightarrow> 'z buffer option" where
  "tolower_loop data i b =
     (if unat i < length data then do {
        b1 \<leftarrow> bput b (bused b + unat i) [tolower (data ! unat i)];
        tolower_loop data (i + 1) b1 }
      else Some b)"

declare tolower_loop.simps [code]

definition buffer_append_data_tolower :: "byte \<Rightarrow> 'z buffer \<Rightarrow> byte list \<Rightarrow> 'z buffer option" where
  "buffer_append_data_tolower junk b data = do {
     b1 \<leftarrow> buffer_prepare junk b (length data + 1);
     b2 \<leftarrow> tolower_loop data 0 b1;
     b3 \<leftarrow> bput b2 (bused b2 + length data) [0];
     Some (b3\<lparr>bused := bused b3 + length data\<rparr>) }"

definition buffer_append_char :: "byte \<Rightarrow> 'z buffer \<Rightarrow> byte \<Rightarrow> 'z buffer option" where
  "buffer_append_char junk b data = do {
     b1 \<leftarrow> buffer_prepare_for junk b 1024 1;
     b2 \<leftarrow> bput b1 (bused b1) [data];
     Some (b2\<lparr>bused := bused b2 + 1\<rparr>) }"

definition buffer_append_string_n :: "byte \<Rightarrow> 'z buffer \<Rightarrow> byte list \<Rightarrow> nat \<Rightarrow> 'z buffer option" where
  "buffer_append_string_n junk b string len = do {
     b1 \<leftarrow> buffer_prepare junk b (len + 1);
     b2 \<leftarrow> (if len \<le> length string then bput b1 (bused b1) (take len string) else None);
     let b3 = b2\<lparr>bused := bused b2 + len\<rparr>;
     bput b3 (bused b3) [0] }"

definition buffer_append_string :: "byte \<Rightarrow> 'z buffer \<Rightarrow> byte list \<Rightarrow> 'z buffer option" where
  "buffer_append_string junk b string = do { n \<leftarrow> strlen string; buffer_append_string_n junk b string n }"

section \<open>Reading and releasing\<close>

text \<open>The loop of \<open>buffer_data\<close> that finishes the gzip stream.\<close>

partial_function (option) finish_loop ::
  "byte \<Rightarrow> 'z zlib \<Rightarrow> z_code \<Rightarrow> 'z buffer \<Rightarrow> (byte list option \<times> nat \<times> 'z buffer) option" where
  "finish_loop junk zl ret b =
     (if ret = Z_OK \<or> ret = Z_BUF_ERROR then do {
        (ret1, b1) \<leftarrow> run_deflate zl None Z_FINISH b;
        z1 \<leftarrow> zbuf b1;
        let tot = total_out (zstream z1);
        if ret1 = Z_STREAM_END then
          (let b2 = buffer_gzip_reset zl (b1\<lparr>bused := tot\<rparr>) in Some (bdata b2, tot, b2))
        else if ret1 = Z_BUF_ERROR then do {
          b2 \<leftarrow> buffer_prepare junk (b1\<lparr>bused := tot\<rparr>) ZBUF_BUFSIZE;
          finish_loop junk zl ret1 b2 }
        else if ret1 = Z_STREAM_ERROR then Some (None, 0, b1)
        else finish_loop junk zl ret1 b1 }
      else Some (None, 0, b))"

declare finish_loop.simps [code]

definition buffer_data :: "byte \<Rightarrow> 'z zlib \<Rightarrow> 'z buffer \<Rightarrow> (byte list option \<times> nat \<times> 'z buffer) option" where
  "buffer_data junk zl b = (case zbuf b of None \<Rightarrow> Some (bdata b, bused b, b)
   | Some z \<Rightarrow> if next_out (zstream z) = None then Some (None, 0, b)
               else finish_loop junk zl Z_OK b)"

text \<open>\<open>buffer_delete\<close> frees the data and the input buffer of the stream, but neither the
  \<open>zbuffer\<close> struct nor the pointers to it; a freed input buffer is None here.\<close>

definition buffer_delete :: "'z buffer \<Rightarrow> 'z buffer" where
  "buffer_delete b =
     (let b1 = (if bdata b \<noteq> None then b\<lparr>bdata := None, bused := 0, bsize := 0\<rparr> else b)
      in b1\<lparr>zbuf := map_option (\<lambda>z. z\<lparr>zb_buf := None\<rparr>) (zbuf b1)\<rparr>)"

definition buffer_destroy :: "ptr \<Rightarrow> 'z buffer heap \<Rightarrow> 'z buffer heap option" where
  "buffer_destroy b h =
     (if b \<noteq> NULL then do { h1 \<leftarrow> wr h b buffer_delete; dealloc h1 b } else Some h)"

section \<open>Camel case and UTF-8\<close>

fun camelify_loop :: "byte list \<Rightarrow> byte \<Rightarrow> byte list option" where
  "camelify_loop [] pchar = None"
| "camelify_loop (c # cs) pchar =
     (if c = 0 then Some (c # cs)
      else do {
        let c1 = (if pchar = 45 then toupper c else c);
        r \<leftarrow> camelify_loop cs c1;
        Some (c1 # r) })"

definition buffer_camelify :: "'z buffer \<Rightarrow> 'z buffer option" where
  "buffer_camelify b = do {
     d \<leftarrow> bdata b;
     d1 \<leftarrow> camelify_loop d 45;
     Some (b\<lparr>bdata := Some d1\<rparr>) }"

text \<open>\<open>newb->data[newb->used++] = c\<close>\<close>

definition bpush :: "'z buffer \<Rightarrow> uint32 \<Rightarrow> 'z buffer option" where
  "bpush b c = do { b1 \<leftarrow> bput b (bused b) [ucast c]; Some (b1\<lparr>bused := bused b1 + 1\<rparr>) }"

text \<open>\<open>data[i]\<close>: a fault outside the block, or without one.\<close>

definition byte_at :: "byte list option \<Rightarrow> nat \<Rightarrow> byte option" where
  "byte_at data i = do { d \<leftarrow> data; if i < length d then Some (d ! i) else None }"

text \<open>\<open>s\<close> is at \<open>data + i\<close>. \<open>pos\<close> is an \<open>int\<close>, made from a \<open>size_t\<close>:
  it counts down to 0, or is not positive from the start, which is 0 here.\<close>

fun to_utf8_loop :: "byte list option \<Rightarrow> nat \<Rightarrow> nat \<Rightarrow> 'z buffer \<Rightarrow> 'z buffer option" where
  "to_utf8_loop s i 0 newb = Some newb"
| "to_utf8_loop s i (Suc pos) newb = do {
     x \<leftarrow> byte_at s i;
     let c = (ucast x :: uint32);
     newb1 \<leftarrow> (if c < 0x80 then bpush newb c
               else if c < 0x800 then do {
                 b1 \<leftarrow> bpush newb (0xc0 OR drop_bit 6 c);
                 bpush b1 (0x80 OR (c AND 0x3f)) }
               else if c < 0x10000 then do {
                 b1 \<leftarrow> bpush newb (0xe0 OR drop_bit 12 c);
                 b2 \<leftarrow> bpush b1 (0xc0 OR (drop_bit 6 c AND 0x3f));
                 bpush b2 (0x80 OR (c AND 0x3f)) }
               else if c < 0x200000 then do {
                 b1 \<leftarrow> bpush newb (0xf0 OR drop_bit 18 c);
                 b2 \<leftarrow> bpush b1 (0xe0 OR (drop_bit 12 c AND 0x3f));
                 b3 \<leftarrow> bpush b2 (0xc0 OR (drop_bit 6 c AND 0x3f));
                 bpush b3 (0x80 OR (c AND 0x3f)) }
               else Some newb);
     to_utf8_loop s (i + 1) pos newb1 }"

text \<open>The end of both conversions: terminate, and give back the room that was not used.\<close>

definition finish_conversion :: "byte \<Rightarrow> 'z buffer \<Rightarrow> 'z buffer option" where
  "finish_conversion junk newb = do {
     b1 \<leftarrow> bput newb (bused newb) [0];
     if bsize b1 > bused b1 + 1 then do {
       d \<leftarrow> bdata b1;
       Some (b1\<lparr>bsize := bused b1 + 1, bdata := Some (realloc_bytes junk d (bused b1 + 1))\<rparr>) }
     else Some b1 }"

definition buffer_to_buffer_utf8 :: "byte \<Rightarrow> 'z buffer \<Rightarrow> 'z buffer option" where
  "buffer_to_buffer_utf8 junk b = do {
     newb \<leftarrow> to_utf8_loop (bdata b) 0 (nat (c_int (int (bused b)))) (buffer_new junk (bused b * 4 + 1));
     finish_conversion junk newb }"

text \<open>One character of the decoder: its code and how many bytes it takes.\<close>

definition decode_char :: "byte list option \<Rightarrow> nat \<Rightarrow> int \<Rightarrow> (uint32 \<times> nat) option" where
  "decode_char s i pos = (let u = (\<lambda>k. map_option (\<lambda>x. ucast x :: uint32) (byte_at s (i + k))) in do {
     c \<leftarrow> u 0;
     if c \<ge> 0xf0 then
       if pos - 4 \<ge> 0 then do {
         s0 \<leftarrow> u 0; s1 \<leftarrow> u 1; s2 \<leftarrow> u 2; s3 \<leftarrow> u 3;
         Some (push_bit 18 (s0 AND 7) OR push_bit 12 (s1 AND 63) OR push_bit 6 (s2 AND 63) OR (s3 AND 63), 4) }
       else Some (63, 4)
     else if c \<ge> 0xe0 then
       if pos - 3 \<ge> 0 then do {
         s0 \<leftarrow> u 0; s1 \<leftarrow> u 1; s2 \<leftarrow> u 2;
         Some (push_bit 12 (s0 AND 63) OR push_bit 6 (s1 AND 63) OR (s2 AND 63), 3) }
       else Some (63, 3)
     else if c \<ge> 0xc0 then
       if pos - 2 \<ge> 0 then do {
         s0 \<leftarrow> u 0; s1 \<leftarrow> u 1;
         Some (push_bit 6 (s0 AND 63) OR (s1 AND 63), 2) }
       else Some (63, 2)
     else Some (c, 1) })"

lemma decode_char_pos: "decode_char s i pos = Some (c, n) \<Longrightarrow> 0 < n"
  by (auto simp: decode_char_def Let_def bind_eq_Some_conv split: if_splits)

function from_utf8_loop :: "byte list option \<Rightarrow> nat \<Rightarrow> int \<Rightarrow> 'z buffer \<Rightarrow> 'z buffer option" where
  "from_utf8_loop s i pos newb =
     (if pos > 0 then do {
        (c, n) \<leftarrow> decode_char s i pos;
        newb1 \<leftarrow> bpush newb (if c > 0xff then 63 else c);
        from_utf8_loop s (i + n) (pos - int n) newb1 }
      else Some newb)"
  by pat_completeness auto
termination
  by (relation "measure (\<lambda>(s, i, pos, newb). nat pos)") (auto dest: decode_char_pos)

declare from_utf8_loop.simps [simp del]

definition buffer_utf8_to_buffer :: "byte \<Rightarrow> 'z buffer \<Rightarrow> 'z buffer option" where
  "buffer_utf8_to_buffer junk b = do {
     newb \<leftarrow> from_utf8_loop (bdata b) 0 (c_int (int (bused b))) (buffer_new junk (bused b + 1));
     finish_conversion junk newb }"

end
