(* ===== verification/Buffer_Props.thy ===== *)
theory Buffer_Props
  imports Buffer
begin

unbundle bit_operations_syntax

text \<open>
  The contract of a buffer without a gzip stream: it holds a sequence of bytes, the appends extend
  it, nothing is written outside the block, and after an append (except of a single character) the
  block is terminated by a zero byte.
\<close>

section \<open>Well-formed buffers\<close>

definition buf_ok :: "'z buffer \<Rightarrow> bool" where
  "buf_ok b \<longleftrightarrow> zbuf b = None \<and> bused b \<le> bsize b
     \<and> (case bdata b of None \<Rightarrow> bsize b = 0 | Some d \<Rightarrow> length d = bsize b)"

definition contents :: "'z buffer \<Rightarrow> byte list" where
  "contents b = (case bdata b of None \<Rightarrow> [] | Some d \<Rightarrow> take (bused b) d)"

definition terminated :: "'z buffer \<Rightarrow> bool" where
  "terminated b \<longleftrightarrow> (\<exists>d. bdata b = Some d \<and> bused b < length d \<and> d ! bused b = 0)"

lemma buf_ok_new [simp]: "buf_ok (buffer_new junk n)"
  by (simp add: buffer_new_def buf_ok_def buffer_init_def malloc_bytes_def)

lemma contents_new [simp]: "contents (buffer_new junk n) = []"
  by (simp add: buffer_new_def contents_def buffer_init_def)

lemma contents_length: "buf_ok b \<Longrightarrow> length (contents b) = bused b"
  by (auto simp: buf_ok_def contents_def split: option.splits)

lemma copy_to_eq:
  "off + length bs \<le> length d \<Longrightarrow> copy_to d off bs = Some (take off d @ bs @ drop (off + length bs) d)"
  by (simp add: copy_to_def)

lemma length_realloc [simp]: "length (realloc_bytes junk d n) = n"
  by (simp add: realloc_bytes_def)

lemma take_realloc: "k \<le> n \<Longrightarrow> k \<le> length d \<Longrightarrow> take k (realloc_bytes junk d n) = take k d"
  by (simp add: realloc_bytes_def)

lemma buffer_prepare_eq: "buffer_prepare junk b sz = buffer_prepare_for junk b sz sz"
  by (simp add: buffer_prepare_def buffer_prepare_for_def)

text \<open>After making room there is a block with the contents in front and enough room behind.\<close>

definition room :: "'z buffer \<Rightarrow> 'z buffer \<Rightarrow> nat \<Rightarrow> bool" where
  "room b b1 n \<longleftrightarrow> (\<exists>d. bdata b1 = Some d \<and> length d = bsize b1 \<and> bused b1 = bused b \<and> zbuf b1 = None
     \<and> bused b + n \<le> bsize b1 \<and> take (bused b) d = contents b)"

lemma room_length: "room b b1 n \<Longrightarrow> length (contents b) = bused b"
  unfolding room_def by (metis add_leD1 length_take min.absorb2)

lemma prepare_for_room:
  assumes "buf_ok b" and "n \<le> sz"
  shows "\<exists>b1. buffer_prepare_for junk b sz n = Some b1 \<and> room b b1 n"
proof (cases "bsize b = 0")
  case True
  then show ?thesis using assms
    by (auto simp: buffer_prepare_for_def room_def buf_ok_def contents_def malloc_bytes_def split: option.splits)
next
  case False
  then obtain d where d: "bdata b = Some d" "length d = bsize b" "bused b \<le> length d" "zbuf b = None"
    using assms(1) by (auto simp: buf_ok_def split: option.splits)
  then show ?thesis using False assms(2)
    by (auto simp: buffer_prepare_for_def room_def contents_def take_realloc Let_def)
qed

lemma prepare_room:
  assumes "buf_ok b"
  shows "\<exists>b1. buffer_prepare junk b n = Some b1 \<and> room b b1 n"
  unfolding buffer_prepare_eq by (rule prepare_for_room [OF assms order_refl])

section \<open>Appending\<close>

text \<open>Writing a string behind the contents, and counting it in.\<close>

lemma room_put:
  assumes r: "room b b1 n" and l: "length bs \<le> n"
  shows "\<exists>b2. bput b1 (bused b) bs = Some b2 \<and> room b b2 n
     \<and> (\<exists>d. bdata b2 = Some d \<and> take (bused b + length bs) d = contents b @ bs)"
proof -
  obtain d where d: "bdata b1 = Some d" "length d = bsize b1" "bused b1 = bused b" "zbuf b1 = None"
    "bused b + n \<le> bsize b1" "take (bused b) d = contents b" using r by (auto simp: room_def)
  have le: "bused b + length bs \<le> length d" using d l by simp
  have lc: "length (contents b) = bused b" using d by (metis add_leD1 length_take min.absorb2)
  show ?thesis
    unfolding bput_def using d le lc copy_to_eq [OF le] by (auto simp: room_def)
qed

lemma room_used:
  assumes "room b b2 n" and "bdata b2 = Some d" and "take (bused b + k) d = contents b @ bs" and "k = length bs" and "k \<le> n"
  shows "buf_ok (b2\<lparr>bused := bused b + k\<rparr>)" and "contents (b2\<lparr>bused := bused b + k\<rparr>) = contents b @ bs"
  using assms by (auto simp: room_def buf_ok_def contents_def)

lemma room_terminate:
  assumes r: "room b b2 n" and d: "bdata b2 = Some d" "take (bused b + length bs) d = contents b @ bs" and l: "length bs < n"
  shows "\<exists>b3. bput b2 (bused b + length bs) [0] = Some b3
     \<and> buf_ok (b3\<lparr>bused := bused b + length bs\<rparr>) \<and> contents (b3\<lparr>bused := bused b + length bs\<rparr>) = contents b @ bs
     \<and> terminated (b3\<lparr>bused := bused b + length bs\<rparr>) \<and> bused b3 = bused b"
proof -
  let ?k = "bused b + length bs"
  let ?d3 = "take ?k d @ [0] @ drop (?k + 1) d"
  let ?b3 = "b2\<lparr>bdata := Some ?d3\<rparr>"
  have le: "?k + length [0 :: byte] \<le> length d" using r d l by (auto simp: room_def)
  have run: "bput b2 ?k [0] = Some ?b3" using d copy_to_eq [OF le] by (simp add: bput_def)
  have len: "length ?d3 = length d" "length (take ?k d) = ?k" using le by simp_all
  then have "take ?k ?d3 = take ?k d" "?d3 ! ?k = 0" by (simp_all add: nth_append)
  then have "buf_ok (?b3\<lparr>bused := ?k\<rparr>)" "contents (?b3\<lparr>bused := ?k\<rparr>) = contents b @ bs"
    "terminated (?b3\<lparr>bused := ?k\<rparr>)" "bused ?b3 = bused b"
    using r d le len by (auto simp: buf_ok_def contents_def terminated_def room_def)
  with run show ?thesis by blast
qed

lemma append_data_spec:
  assumes ok: "buf_ok b"
  shows "\<exists>b'. buffer_append_data junk zl b data = Some b' \<and> buf_ok b' \<and> contents b' = contents b @ data
     \<and> (data \<noteq> [] \<longrightarrow> terminated b')"
proof (cases "data = []")
  case True
  then show ?thesis using ok by (simp add: buffer_append_data_def)
next
  case False
  obtain b1 where p: "buffer_prepare junk b (length data + 1) = Some b1" "room b b1 (length data + 1)"
    using prepare_room [OF ok] by blast
  obtain b2 d where w: "bput b1 (bused b) data = Some b2" "room b b2 (length data + 1)"
    "bdata b2 = Some d" "take (bused b + length data) d = contents b @ data"
    using room_put [OF p(2), of data] by auto
  obtain b3 where t: "bput b2 (bused b + length data) [0] = Some b3"
    "buf_ok (b3\<lparr>bused := bused b + length data\<rparr>)" "contents (b3\<lparr>bused := bused b + length data\<rparr>) = contents b @ data"
    "terminated (b3\<lparr>bused := bused b + length data\<rparr>)" "bused b3 = bused b"
    using room_terminate [OF w(2-4)] by auto
  have u: "bused b1 = bused b" "bused b2 = bused b" using p(2) w(2) by (auto simp: room_def)
  have "zbuf b = None" using ok by (simp add: buf_ok_def)
  then have "buffer_append_data junk zl b data = Some (b3\<lparr>bused := bused b + length data\<rparr>)"
    using False p(1) w(1) t(1,5) u by (simp add: buffer_append_data_def)
  then show ?thesis using t by blast
qed

lemma append_string_n_spec:
  assumes ok: "buf_ok b" and l: "n \<le> length s"
  shows "\<exists>b'. buffer_append_string_n junk b s n = Some b' \<and> buf_ok b' \<and> contents b' = contents b @ take n s
     \<and> terminated b'"
proof -
  let ?data = "take n s"
  have len: "length ?data = n" using l by simp
  obtain b1 where p: "buffer_prepare junk b (n + 1) = Some b1" "room b b1 (n + 1)"
    using prepare_room [OF ok] by blast
  obtain b2 d where w: "bput b1 (bused b) ?data = Some b2" "room b b2 (n + 1)"
    "bdata b2 = Some d" "take (bused b + length ?data) d = contents b @ ?data"
    using room_put [OF p(2), of ?data] len by auto
  obtain b3 where t: "bput b2 (bused b + length ?data) [0] = Some b3"
    "buf_ok (b3\<lparr>bused := bused b + length ?data\<rparr>)" "contents (b3\<lparr>bused := bused b + length ?data\<rparr>) = contents b @ ?data"
    "terminated (b3\<lparr>bused := bused b + length ?data\<rparr>)" "bused b3 = bused b"
    using room_terminate [OF w(2-4)] len by auto
  have u: "bused b1 = bused b" "bused b2 = bused b" using p(2) w(2) by (auto simp: room_def)
  obtain d3 where "bdata b2 = Some d" "copy_to d (bused b + n) [0] = Some d3" "b3 = b2\<lparr>bdata := Some d3\<rparr>"
    using t(1) w(3) len by (auto simp: bput_def bind_eq_Some_conv)
  then have "bput (b2\<lparr>bused := bused b + n\<rparr>) (bused b + n) [0] = Some (b3\<lparr>bused := bused b + n\<rparr>)"
    by (simp add: bput_def)
  then have "buffer_append_string_n junk b s n = Some (b3\<lparr>bused := bused b + n\<rparr>)"
    using p(1) w(1) u l by (simp add: buffer_append_string_n_def)
  then show ?thesis using t len by auto
qed

lemma strlen_c: "strlen s = Some n \<Longrightarrow> n < length s \<and> 0 \<notin> set (take n s) \<and> s ! n = 0"
  by (induction s arbitrary: n) (auto split: if_splits)

lemma append_char_spec:
  assumes ok: "buf_ok b"
  shows "\<exists>b'. buffer_append_char junk b c = Some b' \<and> buf_ok b' \<and> contents b' = contents b @ [c]"
proof -
  obtain b1 where p: "buffer_prepare_for junk b 1024 1 = Some b1" "room b b1 1"
    using prepare_for_room [OF ok, of 1 1024] by auto
  obtain b2 d where w: "bput b1 (bused b) [c] = Some b2" "room b b2 1"
    "bdata b2 = Some d" "take (bused b + length [c]) d = contents b @ [c]"
    using room_put [OF p(2), of "[c]"] by auto
  have u: "bused b1 = bused b" "bused b2 = bused b" using p(2) w(2) by (auto simp: room_def)
  have "buffer_append_char junk b c = Some (b2\<lparr>bused := bused b + 1\<rparr>)"
    using p(1) w(1) u by (simp add: buffer_append_char_def)
  then show ?thesis using room_used [OF w(2-4)] by auto
qed

lemma tolower_loop_spec:
  assumes "room b b1 n" and "bdata b1 = Some d" and "take (bused b + unat i) d = contents b @ map tolower (take (unat i) cs)"
    and "unat i \<le> length cs" and "length cs \<le> n" and "length cs < 2 ^ 32"
  shows "\<exists>b2 d2. tolower_loop cs i b1 = Some b2 \<and> room b b2 n \<and> bdata b2 = Some d2
     \<and> take (bused b + length cs) d2 = contents b @ map tolower cs"
  using assms
proof (induction "length cs - unat i" arbitrary: b1 d i rule: less_induct)
  case less
  show ?case
  proof (cases "unat i < length cs")
    case True
    have u: "bused b1 = bused b" "bused b + n \<le> length d" using less.prems(1,2) by (auto simp: room_def)
    have lc: "length (contents b) = bused b" by (rule room_length [OF less.prems(1)])
    have i1: "unat (i + 1) = unat i + 1" using True less.prems(6) by (simp add: unat_word_ariths(1))
    let ?d = "take (bused b + unat i) d @ tolower (cs ! unat i) # drop (bused b + unat i + 1) d"
    have le: "bused b + unat i + length [tolower (cs ! unat i)] \<le> length d" using u(2) True less.prems(5) by simp
    have w: "bput b1 (bused b1 + unat i) [tolower (cs ! unat i)] = Some (b1\<lparr>bdata := Some ?d\<rparr>)"
      using copy_to_eq [OF le] u less.prems(2) by (simp add: bput_def)
    have "length ?d = length d" "take (bused b) ?d = take (bused b) d" using le by simp_all
    then have r: "room b (b1\<lparr>bdata := Some ?d\<rparr>) n" using less.prems(1,2) by (simp add: room_def)
    have t: "take (bused b + unat (i + 1)) ?d = contents b @ map tolower (take (unat (i + 1)) cs)"
      using less.prems(3) True lc le i1 by (simp add: take_Suc_conv_app_nth)
    have "length cs - unat (i + 1) < length cs - unat i" "unat (i + 1) \<le> length cs" using True i1 by simp_all
    from less.hyps [OF this(1) r _ t this(2) less.prems(5,6)] show ?thesis
      using True w by (subst tolower_loop.simps) simp
  next
    case False
    then show ?thesis using less.prems by (subst tolower_loop.simps) auto
  qed
qed

lemma append_tolower_spec:
  assumes ok: "buf_ok b" and len: "length data < 2 ^ 32"
  shows "\<exists>b'. buffer_append_data_tolower junk b data = Some b' \<and> buf_ok b'
     \<and> contents b' = contents b @ map tolower data \<and> terminated b'"
proof -
  let ?data = "map tolower data"
  obtain b1 where p: "buffer_prepare junk b (length data + 1) = Some b1" "room b b1 (length data + 1)"
    using prepare_room [OF ok] by blast
  obtain d where d: "bdata b1 = Some d" "take (bused b) d = contents b" using p(2) by (auto simp: room_def)
  obtain b2 d2 where w: "tolower_loop data 0 b1 = Some b2" "room b b2 (length data + 1)"
    "bdata b2 = Some d2" "take (bused b + length ?data) d2 = contents b @ ?data"
    using tolower_loop_spec [OF p(2) d(1), of 0 data] d(2) len by auto
  obtain b3 where t: "bput b2 (bused b + length ?data) [0] = Some b3"
    "buf_ok (b3\<lparr>bused := bused b + length ?data\<rparr>)" "contents (b3\<lparr>bused := bused b + length ?data\<rparr>) = contents b @ ?data"
    "terminated (b3\<lparr>bused := bused b + length ?data\<rparr>)" "bused b3 = bused b"
    using room_terminate [OF w(2-4)] by auto
  have u: "bused b2 = bused b" using w(2) by (auto simp: room_def)
  have "buffer_append_data_tolower junk b data = Some (b3\<lparr>bused := bused b + length data\<rparr>)"
    using p(1) w(1) t(1,5) u by (simp add: buffer_append_data_tolower_def)
  then show ?thesis using t by auto
qed

section \<open>Sequences of appends\<close>

datatype append_op = A_data "byte list" | A_lower "byte list" | A_char byte | A_string "byte list"
  | A_string_n "byte list" nat

fun append_step :: "byte \<Rightarrow> 'z zlib \<Rightarrow> append_op \<Rightarrow> 'z buffer \<Rightarrow> 'z buffer option" where
  "append_step junk zl (A_data bs) b = buffer_append_data junk zl b bs"
| "append_step junk zl (A_lower bs) b = buffer_append_data_tolower junk b bs"
| "append_step junk zl (A_char c) b = buffer_append_char junk b c"
| "append_step junk zl (A_string s) b = buffer_append_string junk b s"
| "append_step junk zl (A_string_n s n) b = buffer_append_string_n junk b s n"

fun append_run :: "byte \<Rightarrow> 'z zlib \<Rightarrow> append_op list \<Rightarrow> 'z buffer \<Rightarrow> 'z buffer option" where
  "append_run junk zl [] b = Some b"
| "append_run junk zl (x # xs) b = do { b1 \<leftarrow> append_step junk zl x b; append_run junk zl xs b1 }"

text \<open>The bytes an append adds; a string argument must be terminated, a counted one long enough, and what is
  lower-cased less than 4 GB.\<close>

fun append_bytes :: "append_op \<Rightarrow> byte list" where
  "append_bytes (A_data bs) = bs"
| "append_bytes (A_lower bs) = map tolower bs"
| "append_bytes (A_char c) = [c]"
| "append_bytes (A_string s) = takeWhile (\<lambda>c. c \<noteq> 0) s"
| "append_bytes (A_string_n s n) = take n s"

fun append_ok :: "append_op \<Rightarrow> bool" where
  "append_ok (A_string s) = (0 \<in> set s)"
| "append_ok (A_string_n s n) = (n \<le> length s)"
| "append_ok (A_lower bs) = (length bs < 2 ^ 32)"
| "append_ok _ = True"

fun terminates :: "append_op \<Rightarrow> bool" where
  "terminates (A_char c) = False"
| "terminates (A_data bs) = (bs \<noteq> [])"
| "terminates _ = True"

lemma strlen_total: "0 \<in> set s \<Longrightarrow> \<exists>n. strlen s = Some n \<and> n \<le> length s \<and> take n s = takeWhile (\<lambda>c. c \<noteq> 0) s"
  by (induction s) auto

lemma append_step_spec:
  assumes ok: "buf_ok b" and x: "append_ok x"
  shows "\<exists>b'. append_step junk zl x b = Some b' \<and> buf_ok b' \<and> contents b' = contents b @ append_bytes x
     \<and> (terminates x \<longrightarrow> terminated b')"
proof (cases x)
  case (A_string s)
  then obtain n where n: "strlen s = Some n" "n \<le> length s" "take n s = takeWhile (\<lambda>c. c \<noteq> 0) s"
    using x strlen_total by auto
  then show ?thesis using append_string_n_spec [OF ok n(2), of junk] A_string
    by (simp add: buffer_append_string_def)
qed (use append_data_spec [OF ok] append_tolower_spec [OF ok] append_char_spec [OF ok]
      append_string_n_spec [OF ok] x in auto)

lemma append_run_spec:
  assumes "buf_ok b" and "\<forall>x \<in> set xs. append_ok x"
  shows "\<exists>b'. append_run junk zl xs b = Some b' \<and> buf_ok b'
     \<and> contents b' = contents b @ concat (map append_bytes xs)
     \<and> (xs \<noteq> [] \<and> terminates (last xs) \<longrightarrow> terminated b')"
  using assms
proof (induction xs arbitrary: b)
  case (Cons x xs)
  obtain b1 where b1: "append_step junk zl x b = Some b1" "buf_ok b1" "contents b1 = contents b @ append_bytes x"
    "terminates x \<longrightarrow> terminated b1"
    using append_step_spec [OF Cons.prems(1), of x junk zl] Cons.prems(2) by auto
  have "\<forall>x \<in> set xs. append_ok x" using Cons.prems(2) by simp
  from Cons.IH [OF b1(2) this] show ?case using b1 by (cases xs) auto
qed simp

section \<open>UTF-8\<close>

definition open_buf :: "'z buffer \<Rightarrow> nat \<Rightarrow> bool" where
  "open_buf b n \<longleftrightarrow> zbuf b = None \<and> bused b + n \<le> bsize b \<and> (\<exists>d. bdata b = Some d \<and> length d = bsize b)"

lemma open_buf_mono: "open_buf b n \<Longrightarrow> k \<le> n \<Longrightarrow> open_buf b k"
  by (auto simp: open_buf_def)

lemma open_buf_new: "0 < n \<Longrightarrow> open_buf (buffer_new junk n) n"
  by (simp add: open_buf_def buffer_new_def buffer_init_def malloc_bytes_def)

lemma bpush_spec:
  assumes "open_buf b (Suc n)"
  shows "\<exists>b'. bpush b c = Some b' \<and> open_buf b' n \<and> contents b' = contents b @ [ucast c]"
proof -
  obtain d where d: "bdata b = Some d" "length d = bsize b" "bused b + Suc n \<le> bsize b" "zbuf b = None"
    using assms by (auto simp: open_buf_def)
  have le: "bused b + length [ucast c :: byte] \<le> length d" using d by simp
  show ?thesis using d copy_to_eq [OF le] by (auto simp: bpush_def bput_def open_buf_def contents_def)
qed

lemma finish_conversion_spec:
  assumes "open_buf b (Suc n)"
  shows "\<exists>b'. finish_conversion junk b = Some b' \<and> buf_ok b' \<and> contents b' = contents b \<and> terminated b'
     \<and> bsize b' = bused b' + 1"
proof -
  obtain d where d: "bdata b = Some d" "length d = bsize b" "bused b + Suc n \<le> bsize b" "zbuf b = None"
    using assms by (auto simp: open_buf_def)
  have le: "bused b + length [0 :: byte] \<le> length d" using d by simp
  show ?thesis using d copy_to_eq [OF le]
    by (auto simp: finish_conversion_def bput_def contents_def terminated_def buf_ok_def realloc_bytes_def nth_append min_def)
qed

definition enc :: "byte \<Rightarrow> byte list" where
  "enc x = (if x < 0x80 then [x] else [0xc0 OR drop_bit 6 x, 0x80 OR (x AND 0x3f)])"

text \<open>The decoder on the bytes that are left.\<close>

definition dec_char :: "byte list \<Rightarrow> uint32 \<times> nat" where
  "dec_char s = (let c = (ucast (s ! 0) :: uint32); u = (\<lambda>i. ucast (s ! i) :: uint32) in
     if c \<ge> 0xf0 then
       (if length s \<ge> 4 then push_bit 18 (u 0 AND 7) OR push_bit 12 (u 1 AND 63)
                              OR push_bit 6 (u 2 AND 63) OR (u 3 AND 63) else 63, 4)
     else if c \<ge> 0xe0 then
       (if length s \<ge> 3 then push_bit 12 (u 0 AND 63) OR push_bit 6 (u 1 AND 63) OR (u 2 AND 63)
        else 63, 3)
     else if c \<ge> 0xc0 then
       (if length s \<ge> 2 then push_bit 6 (u 0 AND 63) OR (u 1 AND 63) else 63, 2)
     else (c, 1))"

lemma dec_char_pos: "0 < snd (dec_char s)"
  by (simp add: dec_char_def Let_def)

text \<open>Every read is inside the block: the tests of \<open>pos\<close> are what this needs.\<close>

lemma decode_char_dec:
  assumes "0 < pos" and "int i + pos \<le> int (length d)"
  shows "decode_char (Some d) i pos = Some (dec_char (take (nat pos) (drop i d)))"
proof -
  have at: "byte_at (Some d) (i + k) = Some (take (nat pos) (drop i d) ! k)" if "int k < pos" for k
    using that assms by (simp add: byte_at_def)
  have len: "length (take (nat pos) (drop i d)) = nat pos" using assms by simp
  have "byte_at (Some d) i = Some (take (nat pos) (drop i d) ! 0)" using at [of 0] assms(1) by simp
  moreover have "n \<le> nat pos \<longleftrightarrow> pos - int n \<ge> 0" for n using assms(1) by linarith
  ultimately show ?thesis using at [of 1] at [of 2] at [of 3]
    unfolding decode_char_def dec_char_def Let_def len by simp
qed

text \<open>A byte as the characters of its two-byte form; checked for all 256 bytes.\<close>

definition enc_ok :: "byte \<Rightarrow> bool" where
  "enc_ok x \<longleftrightarrow> (let c = (ucast x :: uint32) in c < 0x800
     \<and> (c < 0x80 \<longleftrightarrow> x < 0x80)
     \<and> (x < 0x80 \<longrightarrow> ucast c = x)
     \<and> ucast (0xc0 OR drop_bit 6 c) = (0xc0 OR drop_bit 6 x)
     \<and> ucast (0x80 OR (c AND 0x3f)) = (0x80 OR (x AND 0x3f))
     \<and> dec_char (enc x) = (c, length (enc x)) \<and> c \<le> 0xff \<and> ucast c = x)"

lemma enc_ok_ints: "\<forall>i \<in> set [0..255]. enc_ok (word_of_int i)"
  by code_simp

lemma enc_ok_all: "enc_ok x"
proof -
  have "0 \<le> uint x" "uint x \<le> 255" using uint_bounded [of x] by simp_all
  then have "uint x \<in> set [0..255]" by simp
  then have "enc_ok (word_of_int (uint x))" using enc_ok_ints by blast
  then show ?thesis by simp
qed

lemma enc_length: "length (enc x) \<le> 2" "enc x \<noteq> []"
  by (simp_all add: enc_def)

lemma enc_total: "length (concat (map enc s)) = length s + length (filter (\<lambda>x. 0x80 \<le> x) s)"
  by (induction s) (auto simp: enc_def not_less)

lemma decode_enc: "dec_char (enc x @ rest) = (ucast x, length (enc x))"
proof -
  have "dec_char (enc x) = (ucast x, length (enc x))"
    using enc_ok_all [of x] by (simp add: enc_ok_def Let_def)
  then show ?thesis
    by (cases "x < 0x80") (auto simp: enc_def dec_char_def Let_def split: if_splits)
qed

lemma to_utf8_step:
  assumes "open_buf b (n + 2)" and at: "byte_at s i = Some x"
  shows "\<exists>b'. to_utf8_loop s i (Suc pos) b = to_utf8_loop s (i + 1) pos b' \<and> open_buf b' n \<and> contents b' = contents b @ enc x"
proof -
  have e: "enc_ok x" by (rule enc_ok_all)
  have o2: "open_buf b (Suc (Suc n))" using assms(1) by simp
  show ?thesis
  proof (cases "x < 0x80")
    case True
    obtain b' where "bpush b (ucast x) = Some b'" "open_buf b' n" "contents b' = contents b @ [ucast (ucast x :: uint32)]"
      using bpush_spec [OF open_buf_mono [OF o2, of "Suc n"], of "ucast x"] by auto
    then show ?thesis using True e at by (intro exI [of _ b']) (simp add: enc_ok_def enc_def Let_def)
  next
    case False
    let ?c = "ucast x :: uint32"
    obtain b1 where b1: "bpush b (0xc0 OR drop_bit 6 ?c) = Some b1" "open_buf b1 (Suc n)"
      "contents b1 = contents b @ [ucast (0xc0 OR drop_bit 6 ?c)]"
      using bpush_spec [OF o2] by blast
    obtain b2 where b2: "bpush b1 (0x80 OR (?c AND 0x3f)) = Some b2" "open_buf b2 n"
      "contents b2 = contents b1 @ [ucast (0x80 OR (?c AND 0x3f))]"
      using bpush_spec [OF b1(2)] by blast
    have "\<not> ?c < 0x80" "?c < 0x800" using e False by (simp_all add: enc_ok_def Let_def)
    then have "to_utf8_loop s i (Suc pos) b = to_utf8_loop s (i + 1) pos b2" using b1(1) b2(1) at by (simp add: Let_def)
    moreover have "contents b2 = contents b @ enc x"
      using b1(3) b2(3) e False by (simp add: enc_ok_def enc_def Let_def)
    ultimately show ?thesis using b2(2) by blast
  qed
qed

lemma to_utf8_spec:
  assumes "open_buf b (2 * pos + n)" and "i + pos \<le> length d"
  shows "\<exists>b'. to_utf8_loop (Some d) i pos b = Some b' \<and> open_buf b' n
     \<and> contents b' = contents b @ concat (map enc (take pos (drop i d)))"
  using assms
proof (induction pos arbitrary: b i)
  case (Suc pos)
  have "open_buf b ((2 * pos + n) + 2)" "byte_at (Some d) i = Some (d ! i)"
    using Suc.prems by (simp_all add: algebra_simps byte_at_def)
  then obtain b1 where b1: "to_utf8_loop (Some d) i (Suc pos) b = to_utf8_loop (Some d) (i + 1) pos b1"
    "open_buf b1 (2 * pos + n)" "contents b1 = contents b @ enc (d ! i)" using to_utf8_step by blast
  have "take (Suc pos) (drop i d) = d ! i # take pos (drop (i + 1) d)"
    using Suc.prems(2) by (simp add: Cons_nth_drop_Suc [symmetric])
  then show ?case using Suc.IH [OF b1(2), of "i + 1"] b1(1,3) Suc.prems(2) by auto
qed simp

text \<open>What the decoder reads.\<close>

function dec :: "byte list \<Rightarrow> byte list" where
  "dec s = (if s = [] then []
     else let (c, n) = dec_char s in ucast (if c > 0xff then 63 else c) # dec (drop n s))"
  by pat_completeness auto
termination
  by (relation "measure length") (auto, metis dec_char_pos length_greater_0_conv snd_conv diff_less)

declare dec.simps [simp del]

lemma from_utf8_spec:
  assumes "open_buf b (nat pos + n)" and "int i + pos \<le> int (length d)"
  shows "\<exists>b'. from_utf8_loop (Some d) i pos b = Some b' \<and> open_buf b' n
     \<and> contents b' = contents b @ dec (take (nat pos) (drop i d))"
  using assms
proof (induction "nat pos" arbitrary: b i pos rule: less_induct)
  case less
  show ?case
  proof (cases "0 < pos")
    case False
    then show ?thesis using less.prems by (subst from_utf8_loop.simps, subst dec.simps) simp
  next
    case True
    let ?s = "take (nat pos) (drop i d)"
    obtain c k where ck: "dec_char ?s = (c, k)" by fastforce
    then have k: "0 < k" using dec_char_pos [of ?s] by simp
    have dc: "decode_char (Some d) i pos = Some (c, k)" using decode_char_dec [OF True less.prems(2)] ck by simp
    have ne: "?s \<noteq> []" using True less.prems(2) by simp
    have o: "open_buf b (Suc (nat (pos - int k) + n))"
      by (rule open_buf_mono [OF less.prems(1)]) (use k True in linarith)
    obtain b1 where b1: "bpush b (if c > 0xff then 63 else c) = Some b1" "open_buf b1 (nat (pos - int k) + n)"
      "contents b1 = contents b @ [ucast (if c > 0xff then 63 else c)]"
      using bpush_spec [OF o, of "if c > 0xff then 63 else c"] by blast
    have sh: "nat (pos - int k) < nat pos" "int (i + k) + (pos - int k) \<le> int (length d)" using k True less.prems(2) by linarith+
    obtain b' where b': "from_utf8_loop (Some d) (i + k) (pos - int k) b1 = Some b'" "open_buf b' n"
      "contents b' = contents b1 @ dec (take (nat (pos - int k)) (drop (i + k) d))"
      using less.hyps [OF sh(1) b1(2) sh(2)] by blast
    have "drop k ?s = take (nat (pos - int k)) (drop (i + k) d)"
      using nat_diff_distrib' [of pos "int k"] True by (simp add: drop_take add.commute)
    then have "dec ?s = ucast (if c > 0xff then 63 else c) # dec (take (nat (pos - int k)) (drop (i + k) d))"
      using ck ne by (subst dec.simps) simp
    then show ?thesis using b' b1 dc True by (subst from_utf8_loop.simps) simp
  qed
qed

lemma dec_enc: "dec (concat (map enc s)) = s"
proof (induction s)
  case Nil
  then show ?case by (subst dec.simps) simp
next
  case (Cons x s)
  have ne: "concat (map enc (x # s)) \<noteq> []" using enc_length(2) [of x] by simp
  have "\<not> (0xff :: uint32) < ucast x" "ucast (ucast x :: uint32) = x"
    using enc_ok_all [of x] by (simp_all add: enc_ok_def Let_def not_less)
  then show ?case using decode_enc [of x "concat (map enc s)"] Cons ne
    by (subst dec.simps) simp
qed

lemma dec_length: "length (dec s) \<le> length s"
proof (induction s rule: dec.induct)
  case (1 s)
  show ?case
  proof (cases "s = []")
    case True
    then show ?thesis by (subst dec.simps) simp
  next
    case False
    obtain c k where ck: "dec_char s = (c, k)" by fastforce
    then have k: "0 < k" using dec_char_pos [of s] by simp
    have "length (dec (drop k s)) \<le> length (drop k s)" using 1 [OF False ck [symmetric] refl] .
    then have "Suc (length (dec (drop k s))) \<le> length s" using k False by (cases s) auto
    then show ?thesis using ck False by (subst dec.simps) simp
  qed
qed

text \<open>\<open>used\<close> as the \<open>int\<close> the loops start from.\<close>

definition int_used :: "'z buffer \<Rightarrow> nat" where
  "int_used b = nat (c_int (int (bused b)))"

lemma int_used_le: "c_int (int (bused b)) \<le> int (bused b)" "int_used b \<le> bused b"
proof -
  show "c_int (int (bused b)) \<le> int (bused b)"
    unfolding c_int_def by (subst signed_take_bit_int_less_eq_self_iff) simp
  then show "int_used b \<le> bused b" by (simp add: int_used_def)
qed

lemma int_used_id: "bused b < 2 ^ 31 \<Longrightarrow> int_used b = bused b"
  by (simp add: int_used_def c_int_id)

lemma int_used_negative:
  assumes "2 ^ 31 \<le> bused b" and "bused b < 2 ^ 32"
  shows "int_used b = 0"
proof -
  have "(word_of_int (int (bused b) - 2 ^ 32) :: 32 word) = word_of_int (int (bused b)) - word_of_int (2 ^ 32)"
    by (rule wi_hom_sub [symmetric])
  also have "(word_of_int (2 ^ 32) :: 32 word) = 0" by transfer simp
  finally have "c_int (int (bused b)) = c_int (int (bused b) - 2 ^ 32)" by (simp only: c_int_eq_sint diff_0_right)
  also have "\<dots> = int (bused b) - 2 ^ 32" using assms by (intro c_int_id) simp_all
  finally show ?thesis using assms(2) by (simp add: int_used_def)
qed

lemma used_block:
  assumes "buf_ok b"
  shows "int_used b = 0 \<or> (\<exists>d. bdata b = Some d \<and> bused b \<le> length d \<and> contents b = take (bused b) d)"
  using assms int_used_le(2) [of b] by (auto simp: buf_ok_def contents_def split: option.splits)

lemma to_utf8_buffer:
  fixes b :: "'z buffer"
  assumes "buf_ok b"
  shows "\<exists>u. buffer_to_buffer_utf8 junk b = Some u \<and> buf_ok u
     \<and> contents u = concat (map enc (take (int_used b) (contents b))) \<and> terminated u \<and> bsize u = bused u + 1"
proof -
  let ?new = "buffer_new junk (bused b * 4 + 1) :: 'z buffer"
  have o: "open_buf ?new (2 * int_used b + Suc 0)"
    by (rule open_buf_mono [OF open_buf_new]) (use int_used_le(2) [of b] in auto)
  have "\<exists>nb. to_utf8_loop (bdata b) 0 (int_used b) ?new = Some nb \<and> open_buf nb (Suc 0)
     \<and> contents nb = concat (map enc (take (int_used b) (contents b)))"
    using used_block [OF assms]
  proof (elim disjE exE conjE)
    assume "int_used b = 0"
    then show ?thesis using o by simp
  next
    fix d assume d: "bdata b = Some d" "bused b \<le> length d" "contents b = take (bused b) d"
    then show ?thesis using to_utf8_spec [OF o, of 0 d] int_used_le(2) [of b] by (auto simp: min_absorb1)
  qed
  then show ?thesis using finish_conversion_spec [where n = 0 and junk = junk]
    by (fastforce simp: buffer_to_buffer_utf8_def int_used_def)
qed

lemma from_utf8_buffer:
  fixes b :: "'z buffer"
  assumes "buf_ok b"
  shows "\<exists>u. buffer_utf8_to_buffer junk b = Some u \<and> buf_ok u \<and> contents u = dec (take (int_used b) (contents b))
     \<and> terminated u \<and> bsize u = bused u + 1"
proof -
  let ?new = "buffer_new junk (bused b + 1) :: 'z buffer" and ?pos = "c_int (int (bused b))"
  have o: "open_buf ?new (nat ?pos + Suc 0)"
    by (rule open_buf_mono [OF open_buf_new]) (use int_used_le(2) [of b] in \<open>auto simp: int_used_def\<close>)
  have "\<exists>nb. from_utf8_loop (bdata b) 0 ?pos ?new = Some nb \<and> open_buf nb (Suc 0)
     \<and> contents nb = dec (take (int_used b) (contents b))"
    using used_block [OF assms]
  proof (elim disjE exE conjE)
    assume "int_used b = 0"
    then show ?thesis using o by (subst from_utf8_loop.simps, subst dec.simps) (simp add: int_used_def)
  next
    fix d assume d: "bdata b = Some d" "bused b \<le> length d" "contents b = take (bused b) d"
    then show ?thesis using from_utf8_spec [OF o, of 0 d] int_used_le [of b] by (auto simp: min_absorb1 int_used_def)
  qed
  then show ?thesis using finish_conversion_spec [where n = 0 and junk = junk]
    by (fastforce simp: buffer_utf8_to_buffer_def)
qed

section \<open>Camel case\<close>

fun camel :: "byte \<Rightarrow> byte list \<Rightarrow> byte list" where
  "camel pchar [] = []"
| "camel pchar (c # cs) = (let c1 = (if pchar = 45 then toupper c else c) in c1 # camel c1 cs)"

lemma camelify_loop_spec:
  "0 \<notin> set cs \<Longrightarrow> camelify_loop (cs @ 0 # rest) p = Some (camel p cs @ 0 # rest)"
  by (induction cs arbitrary: p) (auto simp: Let_def)

lemma camelify_loop_fault: "0 \<notin> set cs \<Longrightarrow> camelify_loop cs p = None"
  by (induction cs arbitrary: p) (auto simp: Let_def)

lemma camel_length [simp]: "length (camel p cs) = length cs"
  by (induction cs arbitrary: p) (auto simp: Let_def)

lemma camelify_spec:
  assumes "buf_ok b" and "terminated b" and "0 \<notin> set (contents b)"
  shows "\<exists>b'. buffer_camelify b = Some b' \<and> contents b' = camel 45 (contents b) \<and> buf_ok b' \<and> terminated b'"
proof -
  obtain d where d: "bdata b = Some d" "bused b < length d" "d ! bused b = 0"
    using assms(2) by (auto simp: terminated_def)
  have "d = contents b @ 0 # drop (Suc (bused b)) d"
    using d by (simp add: contents_def) (metis id_take_nth_drop)
  then have "camelify_loop d 45 = Some (camel 45 (contents b) @ 0 # drop (Suc (bused b)) d)"
    using camelify_loop_spec [OF assms(3)] by metis
  moreover have "length (contents b) = bused b" by (rule contents_length [OF assms(1)])
  ultimately show ?thesis using d assms(1)
    by (auto simp: buffer_camelify_def contents_def terminated_def buf_ok_def nth_append)
qed

section \<open>The input buffer of the gzip stream\<close>

lemma grow_bufsize_total:
  "0 < bufsize \<Longrightarrow> \<exists>r. grow_bufsize av inp bufsize = Some r \<and> bufsize \<le> r \<and> (av \<le> bufsize \<longrightarrow> av + inp \<le> r)"
proof (induction "av + inp - bufsize" arbitrary: bufsize rule: less_induct)
  case less
  show ?case
  proof (cases "av \<le> bufsize \<and> bufsize - av < inp")
    case True
    then have "av + inp - bufsize * 2 < av + inp - bufsize" using less.prems by linarith
    from less.hyps [OF this] less.prems obtain r where "grow_bufsize av inp (bufsize * 2) = Some r"
      "bufsize * 2 \<le> r" "av \<le> bufsize * 2 \<longrightarrow> av + inp \<le> r" by auto
    then show ?thesis using True by (subst grow_bufsize.simps) auto
  next
    case False
    then show ?thesis by (subst grow_bufsize.simps) auto
  qed
qed

lemma prepapre_buf_spec:
  assumes z: "zbuf b = Some z" and p: "0 < avail_in (zstream z)"
    and small: "buf_size z < avail_in (zstream z) + n" and le: "avail_in (zstream z) \<le> ape_max ZBUF_BUFSIZE (buf_size z)"
  shows "\<exists>b' z' d. zbuffer_prepapre_buf junk b n = Some b' \<and> zbuf b' = Some z' \<and> zb_buf z' = Some d
     \<and> avail_in (zstream z) + n \<le> length d \<and> buf_size z' = length d
     \<and> bdata b' = bdata b \<and> bsize b' = bsize b \<and> bused b' = bused b
     \<and> avail_out (zstream z') = nat ((int (length d) - int (avail_in (zstream z))) mod 2 ^ 32)
     \<and> next_out (zstream z') = next_out (zstream z)"
proof -
  have "0 < ape_max ZBUF_BUFSIZE (buf_size z)" by (simp add: ZBUF_BUFSIZE_def)
  then obtain r where r: "grow_bufsize (avail_in (zstream z)) n (ape_max ZBUF_BUFSIZE (buf_size z)) = Some r"
    "avail_in (zstream z) + n \<le> r" using grow_bufsize_total le by blast
  let ?d = "case zb_buf z of None \<Rightarrow> malloc_bytes junk r | Some d \<Rightarrow> realloc_bytes junk d r"
  have "length ?d = r" by (simp add: malloc_bytes_def split: option.split)
  moreover have "\<not> int (buf_size z) - int (avail_in (zstream z)) \<ge> int n" using small by linarith
  ultimately show ?thesis
    using z p r unfolding zbuffer_prepapre_buf_def on_stream_def
    by (intro exI [of _ "on_stream (\<lambda>s. s\<lparr>avail_out := nat ((int r - int (avail_in (zstream z))) mod 2 ^ 32)\<rparr>)
          (b\<lparr>zbuf := Some (z\<lparr>buf_size := r, zb_buf := Some ?d\<rparr>)\<rparr>)"]) (simp add: Let_def on_stream_def)
qed

section \<open>Properties\<close>

text \<open>A zlib that stores its input, for the witnesses.\<close>

definition storing_zlib :: "unit zlib" where
  "storing_zlib = \<lparr>deflateInit2 = (Z_OK, ()), deflateReset = id,
     deflate = (\<lambda>st fl inp room. (if fl = Z_FINISH then (if length inp \<le> room then Z_STREAM_END else Z_BUF_ERROR)
                                  else Z_OK, min (length inp) room, take room inp, st)),
     deflateBound = (\<lambda>st n. n), zlib_crc32 = (\<lambda>c d. c)\<rparr>"

text \<open>C29: On a fresh buffer of any size, every sequence of appends (of data, lower-cased data, single
  characters, terminated and counted strings) runs without writing outside the block; the buffer then
  holds the concatenation of what was appended, and it is terminated by a zero byte unless the last
  append was of a single character or of no data.\<close>

theorem buffer_appends:
  assumes "\<forall>x \<in> set xs. append_ok x"
  shows "\<exists>b. append_run junk zl xs (buffer_new junk n) = Some b \<and> buf_ok b
     \<and> contents b = concat (List.map append_bytes xs)
     \<and> (xs \<noteq> [] \<and> terminates (last xs) \<longrightarrow> terminated b)"
  using append_run_spec [OF buf_ok_new assms, of junk zl junk n] by simp

lemma buffer_appends_witness:
  "\<exists>b. append_run 7 storing_zlib [A_string [72, 105, 0], A_char 45, A_lower [88, 89], A_data []] (buffer_new 7 0) = Some b
     \<and> buf_ok b \<and> contents b = [72, 105, 45, 120, 121]"
  using buffer_appends [of "[A_string [72, 105, 0], A_char 45, A_lower [88, 89], A_data []]" 7 storing_zlib 0]
  by (auto simp: tolower_def)

text \<open>C28: Converting a buffer to UTF-8 and back gives its bytes back, whatever they are, as long as the
  encoded text is shorter than 2 GB; both conversions stay inside their blocks, and the results are terminated and
  trimmed to the exact size. Both count with an \<open>int\<close>: a buffer of 2 GB or more, up to 4, is converted to
  an empty one.\<close>

theorem buffer_utf8_round_trip:
  assumes "buf_ok b"
  shows "(length (contents b) + length (filter (\<lambda>x. 0x80 \<le> x) (contents b)) < 2 ^ 31 \<longrightarrow>
       (\<exists>u v. buffer_to_buffer_utf8 junk b = Some u \<and> buffer_utf8_to_buffer junk u = Some v
         \<and> contents v = contents b \<and> terminated u \<and> terminated v
         \<and> bsize u = length (contents u) + 1 \<and> bsize v = length (contents v) + 1))
     \<and> (2 ^ 31 \<le> bused b \<and> bused b < 2 ^ 32 \<longrightarrow> (\<exists>u. buffer_to_buffer_utf8 junk b = Some u \<and> contents u = []))"
proof -
  obtain u where u: "buffer_to_buffer_utf8 junk b = Some u" "buf_ok u" "terminated u" "bsize u = bused u + 1"
    "contents u = concat (map enc (take (int_used b) (contents b)))" using to_utf8_buffer [OF assms] by blast
  obtain v where v: "buffer_utf8_to_buffer junk u = Some v" "buf_ok v" "terminated v" "bsize v = bused v + 1"
    "contents v = dec (take (int_used u) (contents u))" using from_utf8_buffer [OF u(2)] by blast
  note len = contents_length [OF assms] contents_length [OF u(2)] contents_length [OF v(2)]
  have "contents v = contents b" if l: "length (contents b) + length (filter (\<lambda>x. 0x80 \<le> x) (contents b)) < 2 ^ 31"
  proof -
    have ub: "int_used b = bused b" using l len(1) by (intro int_used_id) simp
    then have c: "contents u = concat (map enc (contents b))" using u(5) len(1) by simp
    then have "bused u < 2 ^ 31" using l len(2) enc_total [of "contents b"] by simp
    then show ?thesis using v(5) c len(2) dec_enc [of "contents b"] by (simp add: int_used_id)
  qed
  then show ?thesis using u v len int_used_negative [of b] by auto
qed

lemma buffer_utf8_round_trip_witness:
  "\<exists>u v. buffer_to_buffer_utf8 7 (\<lparr>bdata = Some [65, 233, 0, 1], bsize = 4, bused = 3, bpos = 0, zbuf = None\<rparr> :: unit buffer) = Some u
     \<and> buffer_utf8_to_buffer 7 u = Some v \<and> contents v = [65, 233, 0]"
proof -
  let ?b = "\<lparr>bdata = Some [65, 233, 0, 1], bsize = 4, bused = 3, bpos = 0, zbuf = None\<rparr> :: unit buffer"
  have "buf_ok ?b" "contents ?b = [65, 233, 0]" by (simp_all add: buf_ok_def contents_def)
  then show ?thesis using buffer_utf8_round_trip [of ?b 7] by auto
qed

text \<open>C35: Decoding never reads or writes outside a block, for any bytes (truncated and overlong
  sequences included), and never makes the text longer.\<close>

theorem buffer_utf8_decode_total:
  assumes "buf_ok b"
  shows "\<exists>v. buffer_utf8_to_buffer junk b = Some v \<and> buf_ok v \<and> terminated v
     \<and> length (contents v) \<le> length (contents b)"
  using from_utf8_buffer [OF assms, of junk] dec_length [of "take (int_used b) (contents b)"] by fastforce

lemma buffer_utf8_decode_total_witness:
  "\<exists>v. buffer_utf8_to_buffer 7 (\<lparr>bdata = Some [240, 159], bsize = 2, bused = 2, bpos = 0, zbuf = None\<rparr> :: unit buffer) = Some v
     \<and> length (contents v) \<le> 2"
proof -
  have "buf_ok (\<lparr>bdata = Some [240, 159], bsize = 2, bused = 2, bpos = 0, zbuf = None\<rparr> :: unit buffer)"
    by (simp add: buf_ok_def)
  from buffer_utf8_decode_total [OF this, of 7] show ?thesis by (auto simp: contents_def)
qed

text \<open>\<open>buffer_camelify\<close> on a terminated buffer without zero bytes capitalises the first
  character and each one after a hyphen and changes nothing else; on a buffer that was filled by
  \<open>buffer_append_char\<close> alone it runs past the end of the block when no byte there happens to
  be zero.\<close>

theorem buffer_camelify_behaviour:
  assumes "buf_ok b" and "0 \<notin> set (contents b)"
  shows "(terminated b \<longrightarrow> (\<exists>b'. buffer_camelify b = Some b' \<and> contents b' = camel 45 (contents b)
            \<and> buf_ok b' \<and> terminated b'))
     \<and> (\<forall>d. bdata b = Some d \<and> 0 \<notin> set d \<longrightarrow> buffer_camelify b = None)"
  using camelify_spec [OF assms(1) _ assms(2)] camelify_loop_fault
  by (auto simp: buffer_camelify_def)

lemma buffer_camelify_behaviour_witness:
  "(\<exists>b b' :: unit buffer. buffer_append_string 7 (buffer_new 7 0) [97, 45, 98, 0] = Some b
      \<and> buffer_camelify b = Some b' \<and> contents b' = [65, 45, 66])
   \<and> (\<exists>b :: unit buffer. buffer_append_char 7 (buffer_new 7 1) 97 = Some b \<and> buffer_camelify b = None)"
proof -
  obtain b :: "unit buffer" where b: "buffer_append_string 7 (buffer_new 7 0) [97, 45, 98, 0] = Some b" "buf_ok b"
    "contents b = [97, 45, 98]" "terminated b"
    using append_string_n_spec [of "buffer_new 7 0 :: unit buffer" 3 "[97, 45, 98, 0]" 7]
    by (auto simp: buffer_append_string_def numeral_3_eq_3)
  let ?b = "\<lparr>bdata = Some [97], bsize = 1, bused = 1, bpos = 0, zbuf = None\<rparr> :: unit buffer"
  have c: "buffer_append_char 7 (buffer_new 7 1) 97 = Some ?b" by code_simp
  have "buffer_camelify ?b = None"
    using buffer_camelify_behaviour [of ?b] by (simp add: buf_ok_def contents_def)
  then show ?thesis
    using b buffer_camelify_behaviour [of b] c by (auto simp: toupper_def Let_def)
qed

text \<open>When a gzip stream has input pending that does not fit with the new data,
  \<open>zbuffer_prepapre_buf\<close> makes an input buffer that is large enough, but then announces the free
  room of that input buffer as the room for output (\<open>avail_out\<close>), whatever room the data of the
  buffer really has after \<open>next_out\<close>.\<close>

theorem gzip_announces_wrong_room:
  assumes "zbuf b = Some z" and "0 < avail_in (zstream z)" and "buf_size z < avail_in (zstream z) + n"
    and "avail_in (zstream z) \<le> ape_max ZBUF_BUFSIZE (buf_size z)"
  shows "\<exists>b' z' d. zbuffer_prepapre_buf junk b n = Some b' \<and> zbuf b' = Some z' \<and> zb_buf z' = Some d
     \<and> avail_in (zstream z) + n \<le> length d
     \<and> avail_out (zstream z') = nat ((int (length d) - int (avail_in (zstream z))) mod 2 ^ 32)
     \<and> next_out (zstream z') = next_out (zstream z) \<and> bsize b' = bsize b \<and> bused b' = bused b"
  using prepapre_buf_spec [OF assms] by blast

lemma gzip_announces_wrong_room_witness:
  "\<exists>b' z' d. zbuffer_prepapre_buf 7 \<lparr>bdata = Some [1, 2], bsize = 2, bused = 2, bpos = 0, zbuf = Some
        \<lparr>zstream = \<lparr>next_in = Z_caller 0, avail_in = 5, next_out = Some 2, avail_out = 0, total_out = 2, zstate = ()\<rparr>,
         zcrc32 = 0, zb_buf = None, buf_size = 0, zflush = False\<rparr>\<rparr> 5 = Some b'
     \<and> zbuf b' = Some z' \<and> zb_buf z' = Some d \<and> 10 \<le> length d
     \<and> avail_out (zstream z') = nat ((int (length d) - 5) mod 2 ^ 32) \<and> bsize b' - bused b' = 0"
  using gzip_announces_wrong_room [of "\<lparr>bdata = Some [1, 2], bsize = 2, bused = 2, bpos = 0, zbuf = Some
        \<lparr>zstream = \<lparr>next_in = Z_caller 0, avail_in = 5, next_out = Some 2, avail_out = 0, total_out = 2, zstate = ()\<rparr>,
         zcrc32 = 0, zb_buf = None, buf_size = 0, zflush = False\<rparr>\<rparr>"
        "\<lparr>zstream = \<lparr>next_in = Z_caller 0, avail_in = 5, next_out = Some 2, avail_out = 0, total_out = 2, zstate = ()\<rparr>,
         zcrc32 = 0, zb_buf = None, buf_size = 0, zflush = False\<rparr>" 5 7]
  by (auto simp: ZBUF_BUFSIZE_def)

end
