(* ===== verification/Timers.thy ===== *)
theory Timers
  imports Linked
begin

unbundle bit_operations_syntax

text \<open>
  \<open>ape_timers_next.c\<close>: timers and asynchronous calls. Timers are a doubly linked list, the
  newest in front; asynchronous calls are a singly linked list. Callbacks are arbitrary code: a
  function pointer is a number (0 is NULL), and \<open>call\<close> says what calling it with an argument
  does to the state and what it returns; it may use every function of this file. The monotonic clock
  is a sequence of samples, read one after the other. The state is extensible, by what the callbacks
  work on. A callback that does not return, or a call of NULL, is \<open>None\<close>. The member
  \<open>nexec\<close> of the timer struct, which no function uses, is left out, and so is
  \<open>APE_timers_stats_print\<close>, which only prints.
\<close>

section \<open>State\<close>

record ape_timer =
  timer_id :: uint64
  tflags :: uint32
  ticks_needs :: uint64
  schedule :: uint64
  callback :: ptr
  clearfunc :: ptr
  arg :: ptr
  stats_nexec :: uint32
  stats_max :: uint32
  stats_min :: uint32
  stats_totaltime :: uint32
  tnext :: ptr
  tprev :: ptr

record ape_timer_async =
  acallback :: ptr
  aclearfunc :: ptr
  aarg :: ptr
  anext :: ptr

record ape_timers =
  timer_objs :: "ape_timer heap"
  async_objs :: "ape_timer_async heap"
  tbrk :: ptr
  thead :: ptr
  head_async :: ptr
  last_identifier :: uint64
  run_in_low_resolution :: int
  clock :: "nat \<Rightarrow> uint64"
  samples :: nat

definition APE_TIMER_IS_PROTECTED :: uint32 where
  "APE_TIMER_IS_PROTECTED = 1"

definition APE_TIMER_IS_CLEARED :: uint32 where
  "APE_TIMER_IS_CLEARED = 2"

definition APE_TIMER_RESOLUTION :: int where
  "APE_TIMER_RESOLUTION = 8"

type_synonym 's caller = "ptr \<Rightarrow> ptr \<Rightarrow> 's ape_timers_scheme \<Rightarrow> (int \<times> 's ape_timers_scheme) option"

definition call_ptr :: "'s caller \<Rightarrow> 's caller" where
  "call_ptr call f x s = (if f = NULL then None else call f x s)"

definition mach_absolute_time :: "'s ape_timers_scheme \<Rightarrow> uint64 \<times> 's ape_timers_scheme" where
  "mach_absolute_time s = (clock s (samples s), s\<lparr>samples := samples s + 1\<rparr>)"

section \<open>Fields\<close>

definition timer_flag :: "uint32 \<Rightarrow> ape_timer \<Rightarrow> bool" where
  "timer_flag f t \<longleftrightarrow> tflags t AND f \<noteq> 0"

definition upd_timer ::
  "ptr \<Rightarrow> (ape_timer \<Rightarrow> ape_timer) \<Rightarrow> 's ape_timers_scheme \<Rightarrow> 's ape_timers_scheme option" where
  "upd_timer p f s = do { h \<leftarrow> wr (timer_objs s) p f; Some (s\<lparr>timer_objs := h\<rparr>) }"

definition APE_timer_getflags :: "ptr \<Rightarrow> 's ape_timers_scheme \<Rightarrow> uint32 option" where
  "APE_timer_getflags p s = map_option tflags (rd (timer_objs s) p)"

definition APE_timer_setflags :: "ptr \<Rightarrow> uint32 \<Rightarrow> 's ape_timers_scheme \<Rightarrow> 's ape_timers_scheme option" where
  "APE_timer_setflags p fl s = upd_timer p (\<lambda>t. t\<lparr>tflags := fl\<rparr>) s"

definition APE_timer_unprotect :: "ptr \<Rightarrow> 's ape_timers_scheme \<Rightarrow> 's ape_timers_scheme option" where
  "APE_timer_unprotect p s = upd_timer p (\<lambda>t. t\<lparr>tflags := tflags t AND NOT APE_TIMER_IS_PROTECTED\<rparr>) s"

definition APE_timer_setclearfunc :: "ptr \<Rightarrow> ptr \<Rightarrow> 's ape_timers_scheme \<Rightarrow> 's ape_timers_scheme option" where
  "APE_timer_setclearfunc p cb s = upd_timer p (\<lambda>t. t\<lparr>clearfunc := cb\<rparr>) s"

definition APE_async_setclearfunc :: "ptr \<Rightarrow> ptr \<Rightarrow> 's ape_timers_scheme \<Rightarrow> 's ape_timers_scheme option" where
  "APE_async_setclearfunc p cb s = do {
     h \<leftarrow> wr (async_objs s) p (\<lambda>a. a\<lparr>aclearfunc := cb\<rparr>); Some (s\<lparr>async_objs := h\<rparr>) }"

definition APE_timer_getarg :: "ptr \<Rightarrow> 's ape_timers_scheme \<Rightarrow> ptr option" where
  "APE_timer_getarg p s = map_option arg (rd (timer_objs s) p)"

definition APE_timer_getid :: "ptr \<Rightarrow> 's ape_timers_scheme \<Rightarrow> uint64 option" where
  "APE_timer_getid p s = map_option timer_id (rd (timer_objs s) p)"

definition APE_timer_setlowresolution :: "int \<Rightarrow> 's ape_timers_scheme \<Rightarrow> 's ape_timers_scheme" where
  "APE_timer_setlowresolution low s = s\<lparr>run_in_low_resolution := low\<rparr>"

section \<open>Creating\<close>

definition APE_timer_create ::
  "int \<Rightarrow> ptr \<Rightarrow> ptr \<Rightarrow> 's ape_timers_scheme \<Rightarrow> (ptr \<times> 's ape_timers_scheme) option" where
  "APE_timer_create ms cb x s =
     (if cb = NULL then Some (NULL, s)
      else do {
        let p = tbrk s;
        let new_id = last_identifier s + 1;
        let ticks = word_of_int ms * 1000000;
        let (now, s1) = mach_absolute_time s;
        let t = \<lparr>timer_id = new_id, tflags = APE_TIMER_IS_PROTECTED, ticks_needs = ticks,
                 schedule = now + ticks, callback = cb, clearfunc = NULL, arg = x,
                 stats_nexec = 0, stats_max = 0, stats_min = 0, stats_totaltime = 0,
                 tnext = thead s1, tprev = NULL\<rparr>;
        (h, hd) \<leftarrow> dll_push (\<lambda>p t. t\<lparr>tprev := p\<rparr>) ((timer_objs s1)(p \<mapsto> t)) (thead s1) p;
        Some (p, s1\<lparr>timer_objs := h, thead := hd, tbrk := p + 1, last_identifier := new_id\<rparr>) })"

definition APE_async :: "ptr \<Rightarrow> ptr \<Rightarrow> 's ape_timers_scheme \<Rightarrow> ptr \<times> 's ape_timers_scheme" where
  "APE_async cb x s = (tbrk s,
     s\<lparr>async_objs := (async_objs s)(tbrk s \<mapsto>
         \<lparr>acallback = cb, aclearfunc = NULL, aarg = x, anext = head_async s\<rparr>),
       head_async := tbrk s, tbrk := tbrk s + 1\<rparr>)"

section \<open>Finding and clearing\<close>

text \<open>The loop of \<open>APE_timer_getbyid\<close> and \<open>APE_timer_clearbyid\<close>.\<close>

partial_function (option) find_timer :: "uint64 \<Rightarrow> ape_timer heap \<Rightarrow> ptr \<Rightarrow> ptr option" where
  "find_timer ident h cur =
     (if cur = NULL then Some NULL
      else do {
        t \<leftarrow> rd h cur;
        if timer_id t = ident then Some cur else find_timer ident h (tnext t) })"

definition APE_timer_getbyid :: "uint64 \<Rightarrow> 's ape_timers_scheme \<Rightarrow> ptr option" where
  "APE_timer_getbyid ident s = find_timer ident (timer_objs s) (thead s)"

definition APE_timer_clearbyid ::
  "uint64 \<Rightarrow> bool \<Rightarrow> 's ape_timers_scheme \<Rightarrow> 's ape_timers_scheme option" where
  "APE_timer_clearbyid ident force s = do {
     cur \<leftarrow> find_timer ident (timer_objs s) (thead s);
     if cur = NULL then Some s
     else do {
       t \<leftarrow> rd (timer_objs s) cur;
       if \<not> timer_flag APE_TIMER_IS_PROTECTED t \<or> (timer_flag APE_TIMER_IS_PROTECTED t \<and> force)
       then upd_timer cur (\<lambda>t. t\<lparr>tflags := tflags t OR APE_TIMER_IS_CLEARED\<rparr>) s
       else Some s } }"

section \<open>Destroying\<close>

text \<open>\<open>ape_timer_destroy\<close> returns the next timer, read before the clear function runs.\<close>

definition ape_timer_destroy ::
  "'s caller \<Rightarrow> ptr \<Rightarrow> 's ape_timers_scheme \<Rightarrow> (ptr \<times> 's ape_timers_scheme) option" where
  "ape_timer_destroy call p s = do {
     (h, hd) \<leftarrow> dll_unlink tnext tprev (\<lambda>q t. t\<lparr>tnext := q\<rparr>) (\<lambda>q t. t\<lparr>tprev := q\<rparr>)
                 (timer_objs s) (thead s) p;
     t \<leftarrow> rd h p;
     let s1 = s\<lparr>timer_objs := h, thead := hd\<rparr>;
     s2 \<leftarrow> (if clearfunc t \<noteq> NULL then map_option snd (call_ptr call (clearfunc t) (arg t) s1) else Some s1);
     h2 \<leftarrow> dealloc (timer_objs s2) p;
     Some (tnext t, s2\<lparr>timer_objs := h2\<rparr>) }"

definition APE_timer_destroy :: "'s caller \<Rightarrow> ptr \<Rightarrow> 's ape_timers_scheme \<Rightarrow> 's ape_timers_scheme option" where
  "APE_timer_destroy call p s = map_option snd (ape_timer_destroy call p s)"

partial_function (option) del_async_loop ::
  "'s caller \<Rightarrow> ptr \<Rightarrow> 's ape_timers_scheme \<Rightarrow> 's ape_timers_scheme option" where
  "del_async_loop call async s =
     (if async = NULL then Some s
      else do {
        a \<leftarrow> rd (async_objs s) async;
        (r, s1) \<leftarrow> call_ptr call (aclearfunc a) (aarg a) s;
        h \<leftarrow> dealloc (async_objs s1) async;
        del_async_loop call (anext a) (s1\<lparr>async_objs := h\<rparr>) })"

definition del_async_all :: "'s caller \<Rightarrow> 's ape_timers_scheme \<Rightarrow> 's ape_timers_scheme option" where
  "del_async_all call s = del_async_loop call (head_async s) (s\<lparr>head_async := NULL\<rparr>)"

partial_function (option) destroy_unprotected_loop ::
  "'s caller \<Rightarrow> ptr \<Rightarrow> 's ape_timers_scheme \<Rightarrow> 's ape_timers_scheme option" where
  "destroy_unprotected_loop call cur s =
     (if cur = NULL then Some s
      else do {
        t \<leftarrow> rd (timer_objs s) cur;
        if \<not> timer_flag APE_TIMER_IS_PROTECTED t
        then do { (nxt, s1) \<leftarrow> ape_timer_destroy call cur s; destroy_unprotected_loop call nxt s1 }
        else destroy_unprotected_loop call (tnext t) s })"

definition APE_timers_destroy_unprotected ::
  "'s caller \<Rightarrow> 's ape_timers_scheme \<Rightarrow> 's ape_timers_scheme option" where
  "APE_timers_destroy_unprotected call s = do {
     s1 \<leftarrow> destroy_unprotected_loop call (thead s) s;
     del_async_all call s1 }"

partial_function (option) destroy_all_loop ::
  "'s caller \<Rightarrow> ptr \<Rightarrow> 's ape_timers_scheme \<Rightarrow> 's ape_timers_scheme option" where
  "destroy_all_loop call cur s =
     (if cur = NULL then Some s
      else do { (nxt, s1) \<leftarrow> ape_timer_destroy call cur s; destroy_all_loop call nxt s1 })"

definition APE_timers_destroy_all :: "'s caller \<Rightarrow> 's ape_timers_scheme \<Rightarrow> 's ape_timers_scheme option" where
  "APE_timers_destroy_all call s = do {
     s1 \<leftarrow> destroy_all_loop call (thead s) s;
     del_async_all call s1 }"

text \<open>Looking for one asynchronous call in the list, with the one before it.\<close>

partial_function (option) async_destroy_loop ::
  "'s caller \<Rightarrow> ptr \<Rightarrow> ptr \<Rightarrow> ptr \<Rightarrow> 's ape_timers_scheme \<Rightarrow> 's ape_timers_scheme option" where
  "async_destroy_loop call async prv cur s =
     (if cur = NULL then Some s
      else do {
        a \<leftarrow> rd (async_objs s) cur;
        if cur = async then do {
          s1 \<leftarrow> (if prv = NULL then Some (s\<lparr>head_async := anext a\<rparr>)
                 else do { h \<leftarrow> wr (async_objs s) prv (\<lambda>q. q\<lparr>anext := anext a\<rparr>); Some (s\<lparr>async_objs := h\<rparr>) });
          s2 \<leftarrow> (if aclearfunc a \<noteq> NULL then map_option snd (call_ptr call (aclearfunc a) (aarg a) s1) else Some s1);
          h \<leftarrow> dealloc (async_objs s2) cur;
          Some (s2\<lparr>async_objs := h\<rparr>) }
        else async_destroy_loop call async cur (anext a) s })"

definition APE_async_destroy :: "'s caller \<Rightarrow> ptr \<Rightarrow> 's ape_timers_scheme \<Rightarrow> 's ape_timers_scheme option" where
  "APE_async_destroy call async s =
     (if async = NULL then Some s else async_destroy_loop call async NULL (head_async s) s)"

section \<open>Running\<close>

partial_function (option) process_async_loop ::
  "'s caller \<Rightarrow> ptr \<Rightarrow> 's ape_timers_scheme \<Rightarrow> 's ape_timers_scheme option" where
  "process_async_loop call cur s =
     (if cur = NULL then Some s
      else do {
        a \<leftarrow> rd (async_objs s) cur;
        (r, s1) \<leftarrow> call_ptr call (acallback a) (aarg a) s;
        a1 \<leftarrow> rd (async_objs s1) cur;
        s2 \<leftarrow> (if aclearfunc a1 \<noteq> NULL then map_option snd (call_ptr call (aclearfunc a1) (aarg a1) s1) else Some s1);
        h \<leftarrow> dealloc (async_objs s2) cur;
        process_async_loop call (anext a) (s2\<lparr>async_objs := h\<rparr>) })"

definition process_async :: "'s caller \<Rightarrow> 's ape_timers_scheme \<Rightarrow> 's ape_timers_scheme option" where
  "process_async call s = process_async_loop call (head_async s) (s\<lparr>head_async := NULL\<rparr>)"

text \<open>The bookkeeping after a callback that keeps its timer.\<close>

definition timer_stats :: "uint64 \<Rightarrow> uint64 \<Rightarrow> ape_timer \<Rightarrow> ape_timer" where
  "timer_stats start lastsample t =
     (let duration = (ucast (lastsample - start) :: uint32);
          d = duration div 1000000;
          t1 = (if stats_max t < d then t\<lparr>stats_max := d\<rparr> else t);
          t2 = (if stats_min t1 = 0 \<or> d < stats_min t1 then t1\<lparr>stats_min := d\<rparr> else t1)
      in t2\<lparr>stats_nexec := stats_nexec t2 + 1, stats_totaltime := stats_totaltime t2 + d\<rparr>)"

text \<open>
  The result of the callback, an \<open>int\<close>, is converted to \<open>uint64_t\<close>: -1 keeps the
  period, 0 ends the timer, any other value is a new period in milliseconds.
\<close>

definition reschedule :: "uint64 \<Rightarrow> uint64 \<Rightarrow> ape_timer \<Rightarrow> ape_timer" where
  "reschedule start ret t =
     (if ret = - 1 then t\<lparr>schedule := start + ticks_needs t\<rparr>
      else t\<lparr>ticks_needs := ret * 1000000, schedule := start + ret * 1000000\<rparr>)"

text \<open>One turn of the loop on a timer: the next timer, the new minimum and last sample.\<close>

definition process_timer ::
  "'s caller \<Rightarrow> ptr \<Rightarrow> uint64 \<Rightarrow> uint64 \<Rightarrow> 's ape_timers_scheme
    \<Rightarrow> (ptr \<times> uint64 \<times> uint64 \<times> 's ape_timers_scheme) option" where
  "process_timer call cur inums lastsample s = do {
     t \<leftarrow> rd (timer_objs s) cur;
     if timer_flag APE_TIMER_IS_CLEARED t then do {
       (nxt, s1) \<leftarrow> ape_timer_destroy call cur s;
       Some (nxt, inums, lastsample, s1) }
     else do {
       let (start, s1) = mach_absolute_time s;
       if start \<ge> schedule t - 150000 then do {
         (r, s2) \<leftarrow> call_ptr call (callback t) (arg t) s1;
         let ret = (word_of_int r :: uint64);
         if ret = 0 then do {
           (nxt, s3) \<leftarrow> ape_timer_destroy call cur s2;
           Some (nxt, inums, lastsample, s3) }
         else do {
           s3 \<leftarrow> upd_timer cur (reschedule start ret) s2;
           let (last1, s4) = mach_absolute_time s3;
           s5 \<leftarrow> upd_timer cur (timer_stats start last1) s4;
           t5 \<leftarrow> rd (timer_objs s5) cur;
           Some (tnext t5, if schedule t5 < inums then schedule t5 else inums, last1, s5) } }
       else Some (tnext t, if schedule t < inums then schedule t else inums, lastsample, s1) } }"

partial_function (option) process_loop ::
  "'s caller \<Rightarrow> ptr \<Rightarrow> uint64 \<Rightarrow> uint64 \<Rightarrow> 's ape_timers_scheme
    \<Rightarrow> (uint64 \<times> uint64 \<times> 's ape_timers_scheme) option" where
  "process_loop call cur inums lastsample s =
     (if cur = NULL then Some (inums, lastsample, s)
      else do {
        (nxt, inums1, last1, s1) \<leftarrow> process_timer call cur inums lastsample s;
        process_loop call nxt inums1 last1 s1 })"

text \<open>The wait in milliseconds, computed in 64 bits and converted to \<open>int\<close>.\<close>

definition timers_wait :: "int \<Rightarrow> uint64 \<Rightarrow> uint64 \<Rightarrow> int" where
  "timers_wait low inums lastsample =
     ape_max (if low \<noteq> 0 then 100 else 1) (c_int (uint ((inums - lastsample + 500000) div 1000000)))"

definition ape_timers_process :: "'s caller \<Rightarrow> 's ape_timers_scheme \<Rightarrow> (int \<times> 's ape_timers_scheme) option" where
  "ape_timers_process call s = do {
     let cur = thead s;
     s1 \<leftarrow> process_async call s;
     (inums, lastsample, s2) \<leftarrow> process_loop call cur (- 1) 0 s1;
     s3 \<leftarrow> process_async call s2;
     if inums = - 1 then Some (APE_TIMER_RESOLUTION, s3)
     else do {
       let (last1, s4) = (if lastsample = 0 then mach_absolute_time s3 else (lastsample, s3));
       Some (timers_wait (run_in_low_resolution s4) inums last1, s4) } }"

declare find_timer.simps [code] del_async_loop.simps [code] destroy_unprotected_loop.simps [code]
  destroy_all_loop.simps [code] async_destroy_loop.simps [code] process_async_loop.simps [code]
  process_loop.simps [code]

end
