(* ===== verification/Timers_Props.thy ===== *)
theory Timers_Props
  imports Timers "HOL-Library.Sublist"
begin

text \<open>
  The timer list and the queue of asynchronous calls are well formed whatever the callbacks do, as
  long as each callback keeps to the interface: it may create timers and asynchronous calls, mark
  timers and set their fields, but frees no timer or call itself. That contract is the locale
  \<open>timer_callbacks\<close>, and callbacks that are scripts of API calls satisfy it.
\<close>

section \<open>Well-formed states\<close>

interpretation tl: dll_fields tnext tprev "\<lambda>q t. t\<lparr>tnext := q\<rparr>" "\<lambda>q t. t\<lparr>tprev := q\<rparr>"
  by unfold_locales auto

definition tlist :: "'s ape_timers_scheme \<Rightarrow> ptr list \<Rightarrow> bool" where
  "tlist s xs \<longleftrightarrow> dll tnext tprev (timer_objs s) (thead s) xs"

definition alist :: "'s ape_timers_scheme \<Rightarrow> ptr list \<Rightarrow> bool" where
  "alist s as \<longleftrightarrow> chain anext (async_objs s) (head_async s) as"

definition tfresh :: "'s ape_timers_scheme \<Rightarrow> bool" where
  "tfresh s \<longleftrightarrow> 0 < tbrk s \<and> (\<forall>a. tbrk s \<le> a \<longrightarrow> timer_objs s a = None \<and> async_objs s a = None)"

definition tcalls :: "'s ape_timers_scheme \<Rightarrow> bool" where
  "tcalls s \<longleftrightarrow> (\<forall>a t. timer_objs s a = Some t \<longrightarrow> callback t \<noteq> NULL)"

definition acalls :: "'s ape_timers_scheme \<Rightarrow> bool" where
  "acalls s \<longleftrightarrow> (\<forall>a t. async_objs s a = Some t \<longrightarrow> acallback t \<noteq> NULL)"

definition tinv :: "'s ape_timers_scheme \<Rightarrow> ptr list \<Rightarrow> ptr list \<Rightarrow> bool" where
  "tinv s xs as \<longleftrightarrow> tlist s xs \<and> alist s as \<and> tfresh s \<and> tcalls s \<and> acalls s"

text \<open>The fields a state change keeps of every timer that is there: its number.\<close>

definition keeps_alloc :: "('a \<Rightarrow> 'c) \<Rightarrow> 'a heap \<Rightarrow> 'a heap \<Rightarrow> bool" where
  "keeps_alloc g h h' \<longleftrightarrow> (\<forall>p v. h p = Some v \<longrightarrow> (\<exists>v'. h' p = Some v' \<and> g v' = g v))"

lemma keeps_alloc_refl [simp]: "keeps_alloc g h h"
  by (simp add: keeps_alloc_def)

lemma keeps_alloc_trans: "keeps_alloc g h1 h2 \<Longrightarrow> keeps_alloc g h2 h3 \<Longrightarrow> keeps_alloc g h1 h3"
  unfolding keeps_alloc_def by metis

lemma keeps_alloc_rd: "keeps_alloc g h h' \<Longrightarrow> rd h p = Some v \<Longrightarrow> \<exists>v'. rd h' p = Some v' \<and> g v' = g v"
  by (auto simp: keeps_alloc_def rd_Some_iff)

lemma keeps_alloc_upd: "rd h a = Some v \<Longrightarrow> g w = g v \<Longrightarrow> keeps_alloc g h (h(a := Some w))"
  by (auto simp: keeps_alloc_def rd_Some_iff)

lemma keeps_alloc_new: "h a = None \<Longrightarrow> keeps_alloc g h (h(a := x))"
  by (auto simp: keeps_alloc_def)

lemma keeps_keeps_alloc: "keeps g h h' \<Longrightarrow> keeps_alloc g h h'"
  unfolding keeps_def keeps_alloc_def by (metis map_option_eq_Some)

text \<open>A segment survives when its members keep their link.\<close>

lemma keeps_alloc_lseg:
  assumes "keeps_alloc nx h h'" and "lseg nx h p ps q"
  shows "lseg nx h' p ps q"
proof -
  have "map_option nx (rd h a) = map_option nx (rd h' a)" if "a \<in> set ps" for a
    using lseg_alloc [OF assms(2) that] keeps_alloc_rd [OF assms(1)] by fastforce
  then show ?thesis using lseg_cong assms(2) by blast
qed

text \<open>What a callback cannot change of a timer: its number and when it is due.\<close>

definition tkey :: "ape_timer \<Rightarrow> uint64 \<times> uint64" where
  "tkey t = (timer_id t, schedule t)"

text \<open>What was freed stays free: addresses below the next fresh one are not reused.\<close>

definition stays_free :: "ptr \<Rightarrow> 'a heap \<Rightarrow> 'a heap \<Rightarrow> bool" where
  "stays_free n h h' \<longleftrightarrow> (\<forall>a < n. h a = None \<longrightarrow> h' a = None)"

lemma stays_free_refl [simp]: "stays_free n h h"
  by (simp add: stays_free_def)

lemma stays_free_trans: "stays_free n h1 h2 \<Longrightarrow> stays_free m h2 h3 \<Longrightarrow> n \<le> m \<Longrightarrow> stays_free n h1 h3"
  by (simp add: stays_free_def)

lemma stays_free_upd: "h a \<noteq> None \<or> n \<le> a \<Longrightarrow> stays_free n h (h(a := x))"
  by (auto simp: stays_free_def)

lemma keeps_stays_free: "keeps g h h' \<Longrightarrow> stays_free n h h'"
  by (simp add: stays_free_def keeps_None)

text \<open>
  A step that respects the interface: new timers \<open>ns\<close> and new calls \<open>ms\<close> in front, nothing
  freed, the numbers of timers and the links of calls untouched.
\<close>

definition evolves :: "'s ape_timers_scheme \<Rightarrow> 's ape_timers_scheme \<Rightarrow> ptr list \<Rightarrow> ptr list \<Rightarrow> bool" where
  "evolves s s' ns ms \<longleftrightarrow> (\<forall>xs as. tinv s xs as \<longrightarrow> tinv s' (ns @ xs) (ms @ as))
     \<and> keeps_alloc tkey (timer_objs s) (timer_objs s')
     \<and> stays_free (tbrk s) (timer_objs s) (timer_objs s') \<and> stays_free (tbrk s) (async_objs s) (async_objs s')
     \<and> keeps_alloc anext (async_objs s) (async_objs s')
     \<and> (\<forall>p \<in> set (ns @ ms). tbrk s \<le> p) \<and> tbrk s \<le> tbrk s'"

lemma evolves_refl [simp]: "evolves s s [] []"
  by (simp add: evolves_def)

lemma evolves_new: "evolves s s' ns ms \<Longrightarrow> p \<in> set (ns @ ms) \<Longrightarrow> tbrk s \<le> p"
  unfolding evolves_def by blast

lemma evolves_trans:
  assumes "evolves s s1 ns ms" and "evolves s1 s2 ns' ms'"
  shows "evolves s s2 (ns' @ ns) (ms' @ ms)"
  unfolding evolves_def
proof (intro conjI allI impI)
  show "tinv s2 ((ns' @ ns) @ xs) ((ms' @ ms) @ as)" if "tinv s xs as" for xs as
    using assms that by (simp add: evolves_def)
  show "keeps_alloc tkey (timer_objs s) (timer_objs s2)"
    using assms unfolding evolves_def by (blast intro: keeps_alloc_trans)
  show "stays_free (tbrk s) (timer_objs s) (timer_objs s2)" "stays_free (tbrk s) (async_objs s) (async_objs s2)"
    using assms unfolding evolves_def by (blast intro: stays_free_trans)+
  show "keeps_alloc anext (async_objs s) (async_objs s2)"
    using assms unfolding evolves_def by (blast intro: keeps_alloc_trans)
  have le: "tbrk s \<le> tbrk s1" "tbrk s1 \<le> tbrk s2" using assms by (simp_all add: evolves_def)
  then show "tbrk s \<le> tbrk s2" by simp
  show "\<forall>p \<in> set ((ns' @ ns) @ ms' @ ms). tbrk s \<le> p"
  proof
    fix p assume "p \<in> set ((ns' @ ns) @ ms' @ ms)"
    then consider "p \<in> set (ns @ ms)" | "p \<in> set (ns' @ ms')" by auto
    then show "tbrk s \<le> p"
      by cases (use evolves_new [OF assms(1)] evolves_new [OF assms(2)] le(1) in \<open>auto intro: order_trans\<close>)
  qed
qed

lemma evolves_tinv: "evolves s s' ns ms \<Longrightarrow> tinv s xs as \<Longrightarrow> tinv s' (ns @ xs) (ms @ as)"
  by (simp add: evolves_def)

lemma tinv_alloc: "tinv s xs as \<Longrightarrow> p \<in> set xs \<Longrightarrow> \<exists>t. rd (timer_objs s) p = Some t \<and> callback t \<noteq> NULL"
  unfolding tinv_def tlist_def tcalls_def by (metis dll_alloc rd_Some_iff)

lemma tinv_distinct: "tinv s xs as \<Longrightarrow> distinct xs"
  unfolding tinv_def tlist_def by (auto dest: dll_distinct)

lemma tinv_head: "tinv s xs as \<Longrightarrow> thead s = (case xs of [] \<Rightarrow> NULL | a # _ \<Rightarrow> a)"
  unfolding tinv_def tlist_def dll_def by (auto dest: lseg_start)

lemma tinv_next:
  assumes "tinv s (xs @ p # ys) as" and "rd (timer_objs s) p = Some t"
  shows "tnext t = (case ys of [] \<Rightarrow> NULL | a # _ \<Rightarrow> a)"
proof -
  obtain v where "rd (timer_objs s) p = Some v" "tnext v = (case ys of [] \<Rightarrow> NULL | y # _ \<Rightarrow> y)"
    using assms(1) unfolding tinv_def tlist_def by (metis dll_member)
  with assms(2) show ?thesis by simp
qed

section \<open>The functions of the interface\<close>

lemma sample_tinv [simp]:
  "tinv (s\<lparr>samples := k\<rparr>) xs as = tinv s xs as"
  by (simp add: tinv_def tlist_def alist_def tfresh_def tcalls_def acalls_def)

text \<open>Setting fields other than the links and the callback.\<close>

lemma upd_timer_tinv:
  assumes t: "rd (timer_objs s) p = Some t"
    and f: "tnext (f t) = tnext t" "tprev (f t) = tprev t" "callback (f t) = callback t"
    and inv: "tinv s xs as"
  shows "tinv (s\<lparr>timer_objs := (timer_objs s)(p \<mapsto> f t)\<rparr>) xs as"
proof -
  let ?h = "(timer_objs s)(p \<mapsto> f t)"
  let ?s = "s\<lparr>timer_objs := ?h\<rparr>"
  have p0: "p \<noteq> NULL" "timer_objs s p = Some t" using t by (auto simp: rd_Some_iff)
  have e: "map_option tnext (rd ?h a) = map_option tnext (rd (timer_objs s) a)"
    "map_option tprev (rd ?h a) = map_option tprev (rd (timer_objs s) a)" for a
    using t p0 f(1,2) by (cases "a = p"; auto)+
  have "tlist ?s xs" using inv dll_cong [of xs tnext ?h "timer_objs s" tprev] e
    by (simp add: tinv_def tlist_def)
  moreover have "tcalls ?s" using inv f(3) p0 by (auto simp: tinv_def tcalls_def)
  moreover have "tfresh ?s" using inv p0 by (auto simp: tinv_def tfresh_def)
  ultimately show ?thesis using inv by (simp add: tinv_def alist_def acalls_def)
qed

lemma upd_timer_evolves:
  assumes t: "rd (timer_objs s) p = Some t"
    and f: "tkey (f t) = tkey t" "tnext (f t) = tnext t" "tprev (f t) = tprev t" "callback (f t) = callback t"
  shows "\<exists>s'. upd_timer p f s = Some s' \<and> evolves s s' [] [] \<and> s' = s\<lparr>timer_objs := (timer_objs s)(p \<mapsto> f t)\<rparr>"
proof -
  let ?s = "s\<lparr>timer_objs := (timer_objs s)(p \<mapsto> f t)\<rparr>"
  have "keeps_alloc tkey (timer_objs s) (timer_objs ?s)" using keeps_alloc_upd [OF t f(1)] by simp
  moreover have "stays_free (tbrk s) (timer_objs s) (timer_objs ?s)"
    using t stays_free_upd [of "timer_objs s" p] by (simp add: rd_Some_iff)
  ultimately have "evolves s ?s [] []"
    using upd_timer_tinv [where f = f, OF t f(2-4)] by (simp add: evolves_def)
  then show ?thesis using t by (simp add: upd_timer_def)
qed

lemma create_evolves:
  assumes inv: "tinv s xs as" and cb: "cb \<noteq> NULL"
  shows "\<exists>p s'. APE_timer_create ms cb x s = Some (p, s') \<and> p = tbrk s \<and> evolves s s' [p] []
     \<and> (\<exists>t. rd (timer_objs s') p = Some t \<and> timer_id t = last_identifier s + 1 \<and> callback t = cb \<and> arg t = x
          \<and> tflags t = APE_TIMER_IS_PROTECTED \<and> schedule t = clock s (samples s) + word_of_int ms * 1000000)
     \<and> last_identifier s' = last_identifier s + 1"
proof -
  let ?p = "tbrk s"
  define t where "t = \<lparr>timer_id = last_identifier s + 1, tflags = APE_TIMER_IS_PROTECTED,
      ticks_needs = word_of_int ms * 1000000, schedule = clock s (samples s) + word_of_int ms * 1000000,
      callback = cb, clearfunc = NULL, arg = x,
      stats_nexec = 0, stats_max = 0, stats_min = 0, stats_totaltime = 0, tnext = thead s, tprev = NULL\<rparr>"
  let ?h0 = "(timer_objs s)(?p \<mapsto> t)"
  have fr: "timer_objs s ?p = None" "async_objs s ?p = None" "?p \<noteq> NULL"
    using inv by (auto simp: tinv_def tfresh_def)
  have below: "a < ?p" if "timer_objs s a \<noteq> None" for a
    using inv that unfolding tinv_def tfresh_def by (meson not_le)
  have na: "?p \<notin> set xs" using tinv_alloc [OF inv, of ?p] fr by (auto simp: rd_Some_iff)
  have d: "dll tnext tprev ?h0 (thead s) xs"
    using inv na by (simp add: tinv_def tlist_def)
  have t: "rd ?h0 ?p = Some t" "tnext t = thead s" "tprev t = NULL" using fr by (simp_all add: t_def)
  let ?g = "\<lambda>t. (tkey t, callback t, arg t, tflags t)"
  have lf: "link_free (\<lambda>q t. t\<lparr>tnext := q\<rparr>) (\<lambda>q t. t\<lparr>tprev := q\<rparr>) ?g" by (simp add: link_free_def tkey_def)
  obtain h where push: "dll_push (\<lambda>q t. t\<lparr>tprev := q\<rparr>) ?h0 (thead s) ?p = Some (h, ?p)"
    and d': "dll tnext tprev h ?p (?p # xs)" and k: "keeps ?g ?h0 h"
    using tl.push_dll [OF d t(1) na t(2,3)] lf by blast
  let ?s = "s\<lparr>samples := samples s + 1, timer_objs := h, thead := ?p, tbrk := ?p + 1,
              last_identifier := last_identifier s + 1\<rparr>"
  have run: "APE_timer_create ms cb x s = Some (?p, ?s)"
    using cb push by (simp add: APE_timer_create_def mach_absolute_time_def Let_def t_def)
  have unique: "xs' = xs" if "tinv s xs' as'" for xs' as'
    using inv that dll_unique unfolding tinv_def tlist_def by blast
  have kp: "\<exists>v'. h a = Some v' \<and> ?g v' = ?g v" if "?h0 a = Some v" for a v
    using keeps_keeps_alloc [OF k] that unfolding keeps_alloc_def by blast
  have bk: "\<exists>v. ?h0 a = Some v \<and> callback v = callback v'" if "h a = Some v'" for a v'
  proof -
    have "map_option ?g (h a) = map_option ?g (?h0 a)" using k unfolding keeps_def by blast
    then show ?thesis using that by (cases "?h0 a") (auto simp del: fun_upd_apply)
  qed
  have "tinv ?s (?p # xs') as'" if "tinv s xs' as'" for xs' as'
  proof -
    have "tlist ?s (?p # xs')" using d' unique [OF that] by (simp add: tlist_def)
    moreover have "tfresh ?s"
      using that keeps_None [OF k] by (auto simp: tinv_def tfresh_def)
    moreover have "tcalls ?s"
      unfolding tcalls_def
    proof (intro allI impI)
      fix a v assume "timer_objs ?s a = Some v"
      then obtain w where "?h0 a = Some w" "callback w = callback v" using bk by auto
      moreover from this(1) have "callback w \<noteq> NULL" using that cb by (auto simp: tinv_def tcalls_def t_def split: if_splits)
      ultimately show "callback v \<noteq> NULL" by simp
    qed
    ultimately show ?thesis using that by (simp add: tinv_def alist_def acalls_def)
  qed
  moreover have "keeps_alloc tkey (timer_objs s) h"
    unfolding keeps_alloc_def
  proof (intro allI impI)
    fix a v assume v: "timer_objs s a = Some v"
    then have "?h0 a = Some v" using fr by auto
    then show "\<exists>v'. h a = Some v' \<and> tkey v' = tkey v" using kp by blast
  qed
  moreover have "stays_free ?p (timer_objs s) h"
    using keeps_None [OF k] by (auto simp: stays_free_def)
  ultimately have ev: "evolves s ?s [?p] []" by (simp add: evolves_def)
  obtain t' where "h ?p = Some t'" "?g t' = ?g t" using kp [of ?p t] by auto
  then have "\<exists>t. rd (timer_objs ?s) ?p = Some t \<and> timer_id t = last_identifier s + 1 \<and> callback t = cb \<and> arg t = x
          \<and> tflags t = APE_TIMER_IS_PROTECTED \<and> schedule t = clock s (samples s) + word_of_int ms * 1000000"
    using fr by (simp add: rd_def t_def tkey_def)
  then show ?thesis using run ev by (intro exI [of _ ?p] exI [of _ ?s]) simp
qed

lemma async_evolves:
  assumes "tinv s xs as" and "cb \<noteq> NULL"
  shows "evolves s (snd (APE_async cb x s)) [] [tbrk s]"
proof -
  let ?s = "snd (APE_async cb x s)"
  have fr: "async_objs s (tbrk s) = None" "tbrk s \<noteq> NULL" using assms(1) by (auto simp: tinv_def tfresh_def)
  have "tinv ?s xs' (tbrk s # as')" if i: "tinv s xs' as'" for xs' as'
  proof -
    have "chain anext (async_objs s) (head_async s) as'" using i by (simp add: tinv_def alist_def)
    then have "chain anext ((async_objs s)(tbrk s \<mapsto> w)) (head_async s) as'" for w
      by (rule lseg_fresh_upd) (use fr in \<open>simp add: rd_def\<close>)
    then have "alist ?s (tbrk s # as')" using fr by (simp add: alist_def APE_async_def)
    moreover have "tfresh ?s" using i by (auto simp: tinv_def tfresh_def APE_async_def)
    moreover have "acalls ?s" using i assms(2) by (auto simp: tinv_def acalls_def APE_async_def)
    ultimately show ?thesis using i by (simp add: tinv_def tlist_def tcalls_def APE_async_def)
  qed
  moreover have "keeps_alloc anext (async_objs s) (async_objs ?s)"
    unfolding APE_async_def by (simp add: keeps_alloc_new fr)
  moreover have "stays_free (tbrk s) (async_objs s) (async_objs ?s)"
    by (simp add: APE_async_def stays_free_upd)
  ultimately show ?thesis by (simp add: evolves_def APE_async_def)
qed

lemma find_timer_spec:
  assumes "chain tnext h p xs"
  shows "\<exists>r. find_timer i h p = Some r \<and> (if \<exists>a \<in> set xs. \<exists>t. rd h a = Some t \<and> timer_id t = i
     then r \<in> set xs \<and> (\<exists>t. rd h r = Some t \<and> timer_id t = i) else r = NULL)"
  using assms
proof (induction xs arbitrary: p)
  case Nil
  then show ?case by (subst find_timer.simps) simp
next
  case (Cons a xs)
  then obtain t where t: "p = a" "a \<noteq> NULL" "rd h a = Some t" and tl: "chain tnext h (tnext t) xs"
    by (auto split: option.splits)
  obtain r where r: "find_timer i h (tnext t) = Some r"
    "if \<exists>a \<in> set xs. \<exists>t. rd h a = Some t \<and> timer_id t = i
     then r \<in> set xs \<and> (\<exists>t. rd h r = Some t \<and> timer_id t = i) else r = NULL" using Cons.IH [OF tl] by blast
  show ?case
  proof (cases "timer_id t = i")
    case True
    then show ?thesis using t by (subst find_timer.simps) auto
  next
    case False
    then have "find_timer i h p = Some r" using t r(1) by (subst find_timer.simps) simp
    then show ?thesis using r(2) t False by (intro exI [of _ r]) (auto split: if_splits)
  qed
qed

lemma clearbyid_evolves:
  assumes inv: "tinv s xs as"
  shows "\<exists>s'. APE_timer_clearbyid i force s = Some s' \<and> evolves s s' [] []"
proof -
  have "chain tnext (timer_objs s) (thead s) xs" using inv by (simp add: tinv_def tlist_def dll_def)
  from find_timer_spec [OF this, of i] obtain r where r: "find_timer i (timer_objs s) (thead s) = Some r"
    "r = NULL \<or> (\<exists>t. rd (timer_objs s) r = Some t)" by (auto split: if_splits)
  show ?thesis
  proof (cases "r = NULL")
    case True
    then show ?thesis using r by (simp add: APE_timer_clearbyid_def)
  next
    case False
    then obtain t where t: "rd (timer_objs s) r = Some t" using r(2) by blast
    obtain s' where "upd_timer r (\<lambda>t. t\<lparr>tflags := tflags t OR APE_TIMER_IS_CLEARED\<rparr>) s = Some s'" "evolves s s' [] []"
      using upd_timer_evolves [OF t, of "\<lambda>t. t\<lparr>tflags := tflags t OR APE_TIMER_IS_CLEARED\<rparr>"]
      by (auto simp: tkey_def)
    then show ?thesis using r(1) False t by (auto simp: APE_timer_clearbyid_def)
  qed
qed

section \<open>What a step frees\<close>

text \<open>
  A step that touches no timer outside \<open>E\<close> (it is there, due when it was), frees the calls
  \<open>D\<close> and keeps all the others.
\<close>

definition frees :: "'s ape_timers_scheme \<Rightarrow> 's ape_timers_scheme \<Rightarrow> ptr set \<Rightarrow> ptr set \<Rightarrow> bool" where
  "frees s s' E D \<longleftrightarrow> tbrk s \<le> tbrk s' \<and> (\<forall>e \<in> E \<union> D. e < tbrk s)
     \<and> (\<forall>d \<in> D. async_objs s' d = None)
     \<and> (\<forall>p t. p \<notin> E \<longrightarrow> timer_objs s p = Some t \<longrightarrow> (\<exists>t'. timer_objs s' p = Some t' \<and> tkey t' = tkey t))
     \<and> (\<forall>p a. p \<notin> D \<longrightarrow> async_objs s p = Some a \<longrightarrow> (\<exists>a'. async_objs s' p = Some a' \<and> anext a' = anext a))
     \<and> stays_free (tbrk s) (timer_objs s) (timer_objs s') \<and> stays_free (tbrk s) (async_objs s) (async_objs s')"

lemma frees_D:
  assumes "frees s s' E D"
  shows "tbrk s \<le> tbrk s'" and "\<forall>e \<in> E \<union> D. e < tbrk s"
    and "\<forall>d \<in> D. async_objs s' d = None"
    and "\<And>p t. p \<notin> E \<Longrightarrow> timer_objs s p = Some t \<Longrightarrow> \<exists>t'. timer_objs s' p = Some t' \<and> tkey t' = tkey t"
    and "\<And>p a. p \<notin> D \<Longrightarrow> async_objs s p = Some a \<Longrightarrow> \<exists>a'. async_objs s' p = Some a' \<and> anext a' = anext a"
    and "stays_free (tbrk s) (timer_objs s) (timer_objs s')" and "stays_free (tbrk s) (async_objs s) (async_objs s')"
  using assms unfolding frees_def by blast+

lemma evolves_frees: "evolves s s' ns ms \<Longrightarrow> frees s s' {} {}"
  by (simp add: evolves_def frees_def keeps_alloc_def)

lemma frees_refl [simp]: "frees s s {} {}"
  by (simp add: frees_def)

lemma frees_trans:
  assumes f: "frees s s1 E D" and g: "frees s1 s2 E' D'" and E': "\<forall>e \<in> E' \<union> D'. e < tbrk s"
  shows "frees s s2 (E \<union> E') (D \<union> D')"
  unfolding frees_def
proof (intro conjI allI impI)
  note F = frees_D [OF f] and G = frees_D [OF g]
  have le: "tbrk s \<le> tbrk s1" "tbrk s1 \<le> tbrk s2" by (rule F(1), rule G(1))
  then show "tbrk s \<le> tbrk s2" by simp
  show "\<forall>e \<in> (E \<union> E') \<union> (D \<union> D'). e < tbrk s" using F(2) E' by blast
  show "stays_free (tbrk s) (timer_objs s) (timer_objs s2)" by (rule stays_free_trans [OF F(6) G(6) le(1)])
  show "stays_free (tbrk s) (async_objs s) (async_objs s2)" by (rule stays_free_trans [OF F(7) G(7) le(1)])
  show "\<forall>e \<in> D \<union> D'. async_objs s2 e = None"
  proof
    fix e assume "e \<in> D \<union> D'"
    then consider "e \<in> D" | "e \<in> D'" by blast
    then show "async_objs s2 e = None"
    proof cases
      case 1
      then have "async_objs s1 e = None" "e < tbrk s" using F(2,3) by blast+
      then have "async_objs s1 e = None" "e < tbrk s1" using le(1) by simp_all
      then show ?thesis using G(7) by (simp add: stays_free_def)
    qed (use G(3) in blast)
  qed
  fix p
  { fix t assume p: "p \<notin> E \<union> E'" "timer_objs s p = Some t"
    then obtain t1 where t1: "timer_objs s1 p = Some t1" "tkey t1 = tkey t" using F(4) by blast
    then obtain t2 where "timer_objs s2 p = Some t2" "tkey t2 = tkey t1" using G(4) p(1) by blast
    then show "\<exists>t'. timer_objs s2 p = Some t' \<and> tkey t' = tkey t" using t1 by simp }
  { fix a assume p: "p \<notin> D \<union> D'" "async_objs s p = Some a"
    then obtain a1 where a1: "async_objs s1 p = Some a1" "anext a1 = anext a" using F(5) by blast
    then obtain a2 where "async_objs s2 p = Some a2" "anext a2 = anext a1" using G(5) p(1) by blast
    then show "\<exists>a'. async_objs s2 p = Some a' \<and> anext a' = anext a" using a1 by simp }
qed

lemma new_trans:
  fixes n n' :: nat
  assumes "\<forall>q \<in> set (ns @ ms). n \<le> q" and "\<forall>q \<in> set (ns' @ ms'). n' \<le> q" and "n \<le> n'"
  shows "\<forall>q \<in> set ((ns' @ ns) @ (ms' @ ms)). n \<le> q"
proof
  fix q assume "q \<in> set ((ns' @ ns) @ (ms' @ ms))"
  then consider "q \<in> set (ns @ ms)" | "q \<in> set (ns' @ ms')" by auto
  then show "n \<le> q"
  proof cases
    case 2
    then have "n' \<le> q" using assms(2) by blast
    then show ?thesis using assms(3) by simp
  qed (use assms(1) in blast)
qed

definition gone :: "'s ape_timers_scheme \<Rightarrow> ptr set \<Rightarrow> bool" where
  "gone s Z \<longleftrightarrow> (\<forall>z \<in> Z. timer_objs s z = None)"

lemma gone_frees:
  assumes "gone s Z" and "frees s s' E D" and "\<forall>z \<in> Z. z < tbrk s"
  shows "gone s' Z"
  using assms frees_D(6) [OF assms(2)] by (simp add: gone_def stays_free_def)

lemma gone_Un [simp]: "gone s (A \<union> B) \<longleftrightarrow> gone s A \<and> gone s B"
  by (auto simp: gone_def)

lemma gone_empty [simp]: "gone s {}"
  by (simp add: gone_def)

lemma tinv_below:
  assumes "tinv s xs as" and "p \<in> set xs"
  shows "p < tbrk s"
proof (rule ccontr)
  assume "\<not> p < tbrk s"
  then have "timer_objs s p = None" using assms(1) by (simp add: tinv_def tfresh_def)
  then show False using tinv_alloc [OF assms] by (auto simp: rd_Some_iff)
qed

section \<open>Callbacks that respect the interface\<close>

locale timer_callbacks =
  fixes call :: "'s caller"
  assumes respects: "tinv s xs as \<Longrightarrow> f \<noteq> NULL \<Longrightarrow> \<exists>r s' ns ms. call f x s = Some (r, s') \<and> evolves s s' ns ms"
begin

lemma call_some:
  assumes "tinv s xs as"
  shows "\<exists>s' ns ms. (if f \<noteq> NULL then map_option snd (call_ptr call f x s) else Some s) = Some s' \<and> evolves s s' ns ms"
proof (cases "f = NULL")
  case True
  then show ?thesis by (intro exI [of _ s] exI [of _ "[]"]) simp
next
  case False
  then show ?thesis using respects [OF assms False, of x] by (auto simp: call_ptr_def)
qed

text \<open>Destroying a member: the list without it, new timers in front, the member freed.\<close>

lemma destroy_inv:
  assumes inv: "tinv s (xs @ p # ys) as"
  shows "\<exists>s' ns ms. ape_timer_destroy call p s = Some (case ys of [] \<Rightarrow> NULL | a # _ \<Rightarrow> a, s')
     \<and> tinv s' (ns @ xs @ ys) (ms @ as) \<and> frees s s' {p} {} \<and> gone s' {p}
     \<and> (\<forall>q \<in> set (ns @ ms). tbrk s \<le> q)"
proof -
  let ?g = "\<lambda>t. (tkey t, callback t)"
  have d: "dll tnext tprev (timer_objs s) (thead s) (xs @ p # ys)" using inv by (simp add: tinv_def tlist_def)
  have dist: "distinct (xs @ p # ys)" by (rule tinv_distinct [OF inv])
  obtain t where t: "rd (timer_objs s) p = Some t" "tnext t = (case ys of [] \<Rightarrow> NULL | y # _ \<Rightarrow> y)"
    using d by (rule dll_member)
  have pb: "p < tbrk s" using inv t(1) unfolding tinv_def tfresh_def rd_Some_iff by (metis not_le option.distinct(1))
  have "link_free (\<lambda>q t. t\<lparr>tnext := q\<rparr>) (\<lambda>q t. t\<lparr>tprev := q\<rparr>) ?g" by (simp add: link_free_def tkey_def)
  then obtain h hd where u: "dll_unlink tnext tprev (\<lambda>q t. t\<lparr>tnext := q\<rparr>) (\<lambda>q t. t\<lparr>tprev := q\<rparr>)
        (timer_objs s) (thead s) p = Some (h, hd)"
    and d1: "dll tnext tprev h hd (xs @ ys)" and fr: "\<forall>b. b \<notin> set (xs @ ys) \<longrightarrow> h b = timer_objs s b"
    and k: "keeps ?g (timer_objs s) h"
    using tl.unlink_dll [OF d] by blast
  have hp: "rd h p = Some t" using fr dist t(1) unfolding rd_Some_iff by auto
  let ?s1 = "s\<lparr>timer_objs := h, thead := hd\<rparr>"
  have kk: "keeps_alloc ?g (timer_objs s) h" "stays_free n (timer_objs s) h" for n
    using k by (simp_all add: keeps_keeps_alloc keeps_stays_free)
  then have kt: "keeps_alloc tkey (timer_objs s) h" unfolding keeps_alloc_def by fastforce
  have cb: "\<exists>w. timer_objs s a = Some w \<and> callback w = callback v" if "h a = Some v" for a v
  proof -
    have "map_option ?g (h a) = map_option ?g (timer_objs s a)" using k unfolding keeps_def by blast
    then show ?thesis using that by (cases "timer_objs s a") auto
  qed
  have i1: "tinv ?s1 (xs @ ys) as"
  proof -
    have "tcalls ?s1" using inv cb unfolding tinv_def tcalls_def by fastforce
    moreover have "tfresh ?s1" using inv keeps_None [OF k] by (auto simp: tinv_def tfresh_def)
    ultimately show ?thesis using inv d1 by (simp add: tinv_def tlist_def alist_def acalls_def)
  qed
  obtain s2 ns ms where c: "(if clearfunc t \<noteq> NULL then map_option snd (call_ptr call (clearfunc t) (arg t) ?s1) else Some ?s1) = Some s2"
    and ev: "evolves ?s1 s2 ns ms" using call_some [OF i1] by blast
  have i2: "tinv s2 (ns @ xs @ ys) (ms @ as)" by (rule evolves_tinv [OF ev i1])
  obtain v where v: "rd (timer_objs s2) p = Some v"
    using keeps_alloc_rd [OF _ hp, of tkey "timer_objs s2"] ev by (auto simp: evolves_def)
  let ?s3 = "s2\<lparr>timer_objs := (timer_objs s2)(p := None)\<rparr>"
  have run: "ape_timer_destroy call p s = Some (tnext t, ?s3)"
    unfolding ape_timer_destroy_def using u hp c v by (simp add: Let_def)
  have new: "\<forall>q \<in> set (ns @ ms). tbrk s \<le> q" using ev by (simp add: evolves_def)
  have "p \<notin> set ns"
  proof
    assume "p \<in> set ns"
    then have "tbrk s \<le> p" using new by simp
    then show False using pb by simp
  qed
  then have np: "p \<notin> set (ns @ xs @ ys)" using dist by auto
  have "tinv ?s3 (ns @ xs @ ys) (ms @ as)"
    using i2 np by (auto simp: tinv_def tlist_def alist_def tfresh_def tcalls_def acalls_def)
  moreover have "frees s ?s3 {p} {}"
    unfolding frees_def
  proof (intro conjI)
    have e: "keeps_alloc tkey h (timer_objs s2)" "keeps_alloc anext (async_objs s) (async_objs s2)"
      "stays_free (tbrk s) h (timer_objs s2)" "stays_free (tbrk s) (async_objs s) (async_objs s2)" "tbrk s \<le> tbrk s2"
      using ev by (simp_all add: evolves_def)
    show "tbrk s \<le> tbrk ?s3" using e(5) by simp
    show "stays_free (tbrk s) (async_objs s) (async_objs ?s3)" using e(4) by simp
    have "stays_free (tbrk s) (timer_objs s) (timer_objs s2)" by (rule stays_free_trans [OF kk(2) e(3) order_refl])
    then show "stays_free (tbrk s) (timer_objs s) (timer_objs ?s3)" by (simp add: stays_free_def)
    have "keeps_alloc tkey (timer_objs s) (timer_objs s2)" by (rule keeps_alloc_trans [OF kt e(1)])
    then show "\<forall>q t. q \<notin> {p} \<longrightarrow> timer_objs s q = Some t \<longrightarrow> (\<exists>t'. timer_objs ?s3 q = Some t' \<and> tkey t' = tkey t)"
      by (auto simp: keeps_alloc_def)
    show "\<forall>q a. q \<notin> {} \<longrightarrow> async_objs s q = Some a \<longrightarrow> (\<exists>a'. async_objs ?s3 q = Some a' \<and> anext a' = anext a)"
      using e(2) by (simp add: keeps_alloc_def)
  qed (use pb in auto)
  ultimately show ?thesis using run t(2) new by (auto simp: gone_def)
qed

text \<open>Running a detached queue of asynchronous calls.\<close>

lemma free_async_tinv:
  assumes "tinv s xs as" and "c \<notin> set as"
  shows "tinv (s\<lparr>async_objs := (async_objs s)(c := None)\<rparr>) xs as"
  using assms by (auto simp: tinv_def tlist_def alist_def tfresh_def tcalls_def acalls_def)

lemma below_brk: "tinv s xs as \<Longrightarrow> rd (async_objs s) c = Some a \<Longrightarrow> c < tbrk s"
  unfolding tinv_def tfresh_def rd_Some_iff by (metis not_le option.distinct(1))

lemma process_async_loop_inv:
  assumes "chain anext (async_objs s) cur cs" and "tinv s xs as" and "set cs \<inter> set as = {}"
  shows "\<exists>s' ns ms. process_async_loop call cur s = Some s' \<and> tinv s' (ns @ xs) (ms @ as)
     \<and> frees s s' {} (set cs) \<and> (\<forall>q \<in> set (ns @ ms). tbrk s \<le> q)"
  using assms
proof (induction cs arbitrary: cur s xs as)
  case Nil
  then show ?case by (subst process_async_loop.simps) (auto intro!: exI [of _ "[]"])
next
  case (Cons c cs)
  note inv = Cons.prems(2)
  obtain a where a: "cur = c" "c \<noteq> NULL" "rd (async_objs s) c = Some a" and tl: "chain anext (async_objs s) (anext a) cs"
    using Cons.prems(1) by (auto split: option.splits)
  have dist: "distinct (c # cs)" by (rule chain_distinct [OF Cons.prems(1)])
  have cb: "c < tbrk s" by (rule below_brk [OF inv a(3)])
  have "acallback a \<noteq> NULL" using inv a(3) by (auto simp: tinv_def acalls_def rd_Some_iff)
  then obtain r s1 ns1 ms1 where c1: "call_ptr call (acallback a) (aarg a) s = Some (r, s1)" "evolves s s1 ns1 ms1"
    using respects [OF inv, of "acallback a" "aarg a"] by (auto simp: call_ptr_def)
  have i1: "tinv s1 (ns1 @ xs) (ms1 @ as)" by (rule evolves_tinv [OF c1(2) inv])
  obtain a1 where a1: "rd (async_objs s1) c = Some a1"
    using keeps_alloc_rd [OF _ a(3), of anext "async_objs s1"] c1(2) by (auto simp: evolves_def)
  obtain s2 ns2 ms2 where c2: "(if aclearfunc a1 \<noteq> NULL then map_option snd (call_ptr call (aclearfunc a1) (aarg a1) s1) else Some s1) = Some s2"
    "evolves s1 s2 ns2 ms2" using call_some [OF i1] by blast
  have ev: "evolves s s2 (ns2 @ ns1) (ms2 @ ms1)" by (rule evolves_trans [OF c1(2) c2(2)])
  have i2: "tinv s2 ((ns2 @ ns1) @ xs) ((ms2 @ ms1) @ as)" by (rule evolves_tinv [OF ev inv])
  obtain a2 where a2: "rd (async_objs s2) c = Some a2"
    using keeps_alloc_rd [OF _ a(3), of anext "async_objs s2"] ev by (auto simp: evolves_def)
  have new: "tbrk s \<le> q" if "q \<in> set ((ns2 @ ns1) @ (ms2 @ ms1))" for q by (rule evolves_new [OF ev that])
  let ?s3 = "s2\<lparr>async_objs := (async_objs s2)(c := None)\<rparr>"
  have nc: "c \<notin> set ((ms2 @ ms1) @ as)" using new [of c] cb Cons.prems(3) by auto
  have i3: "tinv ?s3 ((ns2 @ ns1) @ xs) ((ms2 @ ms1) @ as)" by (rule free_async_tinv [OF i2 nc])
  have f3: "frees s ?s3 {} {c}"
    using evolves_frees [OF ev] cb by (auto simp: frees_def stays_free_def)
  have "chain anext (async_objs s2) (anext a) cs"
    by (rule keeps_alloc_lseg [OF _ tl]) (use ev in \<open>simp add: evolves_def\<close>)
  then have ch: "chain anext (async_objs ?s3) (anext a) cs" using dist by simp
  have csb: "d < tbrk s" if "d \<in> set cs" for d
    using lseg_alloc [OF tl that] below_brk [OF inv] by blast
  then have dj: "set cs \<inter> set ((ms2 @ ms1) @ as) = {}" using new Cons.prems(3) by fastforce
  obtain s' ns ms where s': "process_async_loop call (anext a) ?s3 = Some s'"
    "tinv s' (ns @ (ns2 @ ns1) @ xs) (ms @ (ms2 @ ms1) @ as)" "frees ?s3 s' {} (set cs)"
    "\<forall>q \<in> set (ns @ ms). tbrk ?s3 \<le> q"
    using Cons.IH [OF ch i3 dj] by blast
  have "process_async_loop call cur s = Some s'"
    using a c1(1) a1 c2(1) a2 s'(1) by (subst process_async_loop.simps) simp
  moreover have "frees s s' {} (set (c # cs))"
    using frees_trans [OF f3 s'(3)] csb by (simp add: insert_is_Un [symmetric])
  moreover have "tbrk s \<le> q" if "q \<in> set ((ns @ ns2 @ ns1) @ (ms @ ms2 @ ms1))" for q
  proof (cases "q \<in> set (ns @ ms)")
    case True
    then have "tbrk ?s3 \<le> q" using s'(4) by blast
    moreover have "tbrk s \<le> tbrk ?s3" using f3 by (simp add: frees_def)
    ultimately show ?thesis by (rule order_trans [rotated])
  next
    case False
    then show ?thesis using new that by auto
  qed
  ultimately show ?case using s'(2)
    by (intro exI [of _ s'] exI [of _ "ns @ ns2 @ ns1"] exI [of _ "ms @ ms2 @ ms1"]) simp
qed

lemma process_async_inv:
  assumes inv: "tinv s xs as"
  shows "\<exists>s' ns ms. process_async call s = Some s' \<and> tinv s' (ns @ xs) ms
     \<and> frees s s' {} (set as) \<and> (\<forall>q \<in> set (ns @ ms). tbrk s \<le> q)"
proof -
  let ?s = "s\<lparr>head_async := NULL\<rparr>"
  have ch: "chain anext (async_objs ?s) (head_async s) as" using inv by (simp add: tinv_def alist_def)
  have "tinv ?s xs []" using inv by (auto simp: tinv_def tlist_def alist_def tfresh_def tcalls_def acalls_def)
  from process_async_loop_inv [OF ch this] show ?thesis
    by (simp add: process_async_def frees_def)
qed

text \<open>One turn of the loop.\<close>

definition first :: "ptr list \<Rightarrow> ptr" where
  "first ys = (case ys of [] \<Rightarrow> NULL | a # _ \<Rightarrow> a)"

lemma process_timer_inv:
  assumes inv: "tinv s (xs @ p # ys) as"
  shows "\<exists>i l s' ns ms zs. process_timer call p inums lst s = Some (first ys, i, l, s')
     \<and> tinv s' (ns @ xs @ zs @ ys) (ms @ as) \<and> frees s s' {p} {} \<and> (\<forall>q \<in> set (ns @ ms). tbrk s \<le> q)
     \<and> (zs = [] \<and> gone s' {p} \<and> i = inums
        \<or> zs = [p] \<and> (\<exists>t. timer_objs s' p = Some t \<and> i = (if schedule t < inums then schedule t else inums)))"
proof -
  obtain t where t: "rd (timer_objs s) p = Some t" "callback t \<noteq> NULL" using tinv_alloc [OF inv] by auto
  have pb: "p < tbrk s" by (rule tinv_below [OF inv]) simp
  have nxt: "tnext t = first ys" using tinv_next [OF inv t(1)] by (simp add: first_def)
  show ?thesis
  proof (cases "timer_flag APE_TIMER_IS_CLEARED t")
    case True
    obtain s3 ns ms where d: "ape_timer_destroy call p s = Some (first ys, s3)"
      "tinv s3 (ns @ xs @ ys) (ms @ as)" "frees s s3 {p} {}" "gone s3 {p}" "\<forall>q \<in> set (ns @ ms). tbrk s \<le> q"
      using destroy_inv [OF inv] by (auto simp: first_def)
    have "process_timer call p inums lst s = Some (first ys, inums, lst, s3)"
      using True t(1) d(1) by (simp add: process_timer_def)
    then show ?thesis using d
      by (intro exI [of _ inums] exI [of _ lst] exI [of _ s3] exI [of _ ns] exI [of _ ms] exI [of _ "[]"]) simp
  next
    case False
    let ?s1 = "s\<lparr>samples := samples s + 1\<rparr>"
    let ?start = "clock s (samples s)"
    have i1: "tinv ?s1 (xs @ p # ys) as" using inv by simp
    show ?thesis
    proof (cases "?start \<ge> schedule t - 150000")
      case notdue: False
      have "frees s ?s1 {p} {}" using pb by (auto simp: frees_def)
      moreover have "process_timer call p inums lst s
          = Some (first ys, if schedule t < inums then schedule t else inums, lst, ?s1)"
        using False notdue t(1) nxt by (simp add: process_timer_def mach_absolute_time_def)
      moreover have "timer_objs ?s1 p = Some t" using t(1) by (simp add: rd_Some_iff)
      ultimately show ?thesis using i1
        by (intro exI [of _ "if schedule t < inums then schedule t else inums"] exI [of _ lst] exI [of _ ?s1]
            exI [of _ "[]"] exI [of _ "[]"] exI [of _ "[p]"]) simp
    next
      case due: True
      obtain r s2 ns ms where c: "call_ptr call (callback t) (arg t) ?s1 = Some (r, s2)" and ev: "evolves ?s1 s2 ns ms"
        using respects [OF i1 t(2), of "arg t"] t(2) by (auto simp: call_ptr_def)
      have i2: "tinv s2 ((ns @ xs) @ p # ys) (ms @ as)" using evolves_tinv [OF ev i1] by simp
      have f2: "frees s s2 {} {}" using evolves_frees [OF ev] by (simp add: frees_def)
      have new: "\<forall>q \<in> set (ns @ ms). tbrk s \<le> q" using ev by (simp add: evolves_def)
      show ?thesis
      proof (cases "word_of_int r = (0 :: uint64)")
        case True
        obtain s3 ns' ms' where d: "ape_timer_destroy call p s2 = Some (first ys, s3)"
          "tinv s3 (ns' @ (ns @ xs) @ ys) (ms' @ ms @ as)" "frees s2 s3 {p} {}" "gone s3 {p}"
          "\<forall>q \<in> set (ns' @ ms'). tbrk s2 \<le> q"
          using destroy_inv [OF i2] by (auto simp: first_def)
        have "frees s s3 {p} {}" using frees_trans [OF f2 d(3)] pb by simp
        moreover have "\<forall>q \<in> set ((ns' @ ns) @ (ms' @ ms)). tbrk s \<le> q"
          by (rule new_trans [OF new d(5) frees_D(1) [OF f2]])
        moreover have "process_timer call p inums lst s = Some (first ys, inums, lst, s3)"
          using False due t(1) c True d(1) by (simp add: process_timer_def mach_absolute_time_def)
        ultimately show ?thesis using d(2,4)
          by (intro exI [of _ inums] exI [of _ lst] exI [of _ s3] exI [of _ "ns' @ ns"] exI [of _ "ms' @ ms"]
              exI [of _ "[]"]) simp
      next
        case nz: False
        obtain t2 where t2: "rd (timer_objs s2) p = Some t2" using tinv_alloc [OF i2, of p] by auto
        have p0: "p \<noteq> NULL" using t2 by auto
        let ?t3 = "reschedule ?start (word_of_int r) t2"
        let ?s3 = "s2\<lparr>timer_objs := (timer_objs s2)(p \<mapsto> ?t3)\<rparr>"
        let ?s4 = "?s3\<lparr>samples := samples ?s3 + 1\<rparr>"
        let ?last = "clock ?s3 (samples ?s3)"
        let ?t5 = "timer_stats ?start ?last ?t3"
        let ?s5 = "?s4\<lparr>timer_objs := (timer_objs ?s4)(p \<mapsto> ?t5)\<rparr>"
        have keep: "tnext ?t3 = tnext t2" "tprev ?t3 = tprev t2" "callback ?t3 = callback t2"
          "tnext ?t5 = tnext ?t3" "tprev ?t5 = tprev ?t3" "callback ?t5 = callback ?t3" "schedule ?t5 = schedule ?t3"
          by (simp_all add: reschedule_def timer_stats_def Let_def)
        have i3: "tinv ?s3 ((ns @ xs) @ p # ys) (ms @ as)"
          by (rule upd_timer_tinv [where f = "reschedule ?start (word_of_int r)", OF t2 keep(1-3) i2])
        then have i4: "tinv ?s4 ((ns @ xs) @ p # ys) (ms @ as)" by simp
        have t4: "rd (timer_objs ?s4) p = Some ?t3" using p0 by simp
        have i5: "tinv ?s5 ((ns @ xs) @ p # ys) (ms @ as)"
          by (rule upd_timer_tinv [where f = "timer_stats ?start ?last", OF t4 keep(4-6) i4])
        have n5: "tnext ?t5 = first ys"
          using tinv_next [OF i5, of ?t5] p0 by (simp add: first_def)
        have run: "process_timer call p inums lst s
            = Some (first ys, if schedule ?t5 < inums then schedule ?t5 else inums, ?last, ?s5)"
          using False due t(1) c nz t2 p0 n5
          by (simp add: process_timer_def mach_absolute_time_def upd_timer_def Let_def)
        have "frees s2 ?s5 {p} {}"
          using t2 tinv_below [OF i2, of p] by (auto simp: frees_def stays_free_def rd_Some_iff)
        then have "frees s ?s5 {p} {}" using frees_trans [OF f2] pb by fastforce
        then show ?thesis using run i5 new
          by (intro exI [of _ "if schedule ?t5 < inums then schedule ?t5 else inums"] exI [of _ ?last] exI [of _ ?s5]
              exI [of _ ns] exI [of _ ms] exI [of _ "[p]"]) simp
      qed
    qed
  qed
qed

text \<open>The whole loop: which timers are left, and what the minimum is the minimum of.\<close>

lemma process_loop_inv:
  assumes "tinv s (xs @ ys) as"
  shows "\<exists>i l s' ns ms zs. process_loop call (first ys) inums lst s = Some (i, l, s')
     \<and> tinv s' (ns @ xs @ zs) (ms @ as) \<and> frees s s' (set ys) {} \<and> (\<forall>q \<in> set (ns @ ms). tbrk s \<le> q)
     \<and> subseq zs ys \<and> gone s' (set ys - set zs) \<and> i \<le> inums
     \<and> (\<forall>p \<in> set zs. \<exists>t. timer_objs s' p = Some t \<and> i \<le> schedule t)
     \<and> (i = inums \<or> (\<exists>p \<in> set zs. \<exists>t. timer_objs s' p = Some t \<and> schedule t = i))"
  using assms
proof (induction ys arbitrary: s xs as inums lst)
  case Nil
  have "process_loop call (first []) inums lst s = Some (inums, lst, s)"
    by (subst process_loop.simps) (simp add: first_def)
  then show ?case using Nil
    by (intro exI [of _ inums] exI [of _ lst] exI [of _ s] exI [of _ "[]"]) simp
next
  case (Cons p ys)
  obtain i1 l1 s1 ns1 ms1 zs1 where st: "process_timer call p inums lst s = Some (first ys, i1, l1, s1)"
    and inv1: "tinv s1 (ns1 @ xs @ zs1 @ ys) (ms1 @ as)" and f1: "frees s s1 {p} {}"
    and new1: "\<forall>q \<in> set (ns1 @ ms1). tbrk s \<le> q"
    and alt: "zs1 = [] \<and> gone s1 {p} \<and> i1 = inums
        \<or> zs1 = [p] \<and> (\<exists>t. timer_objs s1 p = Some t \<and> i1 = (if schedule t < inums then schedule t else inums))"
    using process_timer_inv [OF Cons.prems, of inums lst] by blast
  have "tinv s1 ((ns1 @ xs @ zs1) @ ys) (ms1 @ as)" using inv1 by simp
  from Cons.IH [OF this, of i1 l1] obtain i l s' ns ms zs where
    run: "process_loop call (first ys) i1 l1 s1 = Some (i, l, s')"
    and inv': "tinv s' (ns @ (ns1 @ xs @ zs1) @ zs) (ms @ ms1 @ as)" and f2: "frees s1 s' (set ys) {}"
    and new2: "\<forall>q \<in> set (ns @ ms). tbrk s1 \<le> q" and sub: "subseq zs ys" and g2: "gone s' (set ys - set zs)"
    and le: "i \<le> i1" and all: "\<forall>p \<in> set zs. \<exists>t. timer_objs s' p = Some t \<and> i \<le> schedule t"
    and ex: "i = i1 \<or> (\<exists>p \<in> set zs. \<exists>t. timer_objs s' p = Some t \<and> schedule t = i)"
    by blast
  have dist: "distinct (p # ys)" using tinv_distinct [OF Cons.prems] by simp
  have p0: "p \<noteq> NULL" using tinv_alloc [OF Cons.prems, of p] by auto
  have below: "\<forall>e \<in> set ys \<union> {}. e < tbrk s" using tinv_below [OF Cons.prems] by auto
  have f: "frees s s' (set (p # ys)) {}" using frees_trans [OF f1 f2 below] by simp
  have "process_loop call (first (p # ys)) inums lst s = Some (i, l, s')"
    using p0 st run by (subst process_loop.simps) (simp add: first_def)
  moreover have "tinv s' ((ns @ ns1) @ xs @ (zs1 @ zs)) ((ms @ ms1) @ as)" using inv' by simp
  moreover have "\<forall>q \<in> set ((ns @ ns1) @ (ms @ ms1)). tbrk s \<le> q"
    by (rule new_trans [OF new1 new2 frees_D(1) [OF f1]])
  moreover have "subseq (zs1 @ zs) (p # ys)" using alt sub by auto
  moreover have "gone s' (set (p # ys) - set (zs1 @ zs)) \<and> i \<le> inums
     \<and> (\<forall>p \<in> set (zs1 @ zs). \<exists>t. timer_objs s' p = Some t \<and> i \<le> schedule t)
     \<and> (i = inums \<or> (\<exists>p \<in> set (zs1 @ zs). \<exists>t. timer_objs s' p = Some t \<and> schedule t = i))"
    using alt
  proof (elim disjE conjE exE)
    assume z: "zs1 = []" and g: "gone s1 {p}" and i1: "i1 = inums"
    have "gone s' {p}"
      by (rule gone_frees [OF g f2]) (use tinv_below [OF Cons.prems, of p] frees_D(1) [OF f1] in auto)
    moreover have "p \<notin> set zs" using dist list_emb_set [OF sub] by (metis distinct.simps(2))
    moreover have "set (p # ys) - set zs \<subseteq> {p} \<union> (set ys - set zs)" by auto
    ultimately have "gone s' (set (p # ys) - set zs)" using g2 unfolding gone_def by blast
    then show ?thesis using z i1 le all ex by simp
  next
    fix t assume z: "zs1 = [p]" and t: "timer_objs s1 p = Some t"
      and i1: "i1 = (if schedule t < inums then schedule t else inums)"
    have "p \<notin> set ys" using dist by simp
    then obtain t' where t': "timer_objs s' p = Some t'" "schedule t' = schedule t"
      using frees_D(4) [OF f2 _ t] by (auto simp: tkey_def)
    have "set (p # ys) - set (zs1 @ zs) \<subseteq> set ys - set zs" using z by auto
    then have "gone s' (set (p # ys) - set (zs1 @ zs))" using g2 unfolding gone_def by blast
    moreover have "i1 \<le> inums" "i1 \<le> schedule t" using i1 by auto
    ultimately show ?thesis using z t' le all ex i1 by (auto split: if_splits)
  qed
  ultimately show ?case using f by blast
qed

text \<open>A whole pass.\<close>

lemma timers_process_inv:
  assumes inv: "tinv s xs as"
  shows "\<exists>w i l s' ns ms zs. ape_timers_process call s = Some (w, s') \<and> tinv s' (ns @ zs) ms
     \<and> subseq zs xs \<and> gone s' (set xs - set zs) \<and> (\<forall>a \<in> set as. async_objs s' a = None)
     \<and> (\<forall>q \<in> set (ns @ ms). tbrk s \<le> q)
     \<and> (\<forall>p \<in> set zs. \<exists>t. timer_objs s' p = Some t \<and> i \<le> schedule t)
     \<and> (i = - 1 \<or> (\<exists>p \<in> set zs. \<exists>t. timer_objs s' p = Some t \<and> schedule t = i))
     \<and> (w = (if i = - 1 then APE_TIMER_RESOLUTION else timers_wait (run_in_low_resolution s') i l))"
proof -
  obtain s1 ns1 ms1 where a1: "process_async call s = Some s1" "tinv s1 (ns1 @ xs) ms1"
    "frees s s1 {} (set as)" "\<forall>q \<in> set (ns1 @ ms1). tbrk s \<le> q" using process_async_inv [OF inv] by blast
  obtain i l s2 ns2 ms2 zs where lp: "process_loop call (first xs) (- 1) 0 s1 = Some (i, l, s2)"
    "tinv s2 (ns2 @ ns1 @ zs) (ms2 @ ms1)" "frees s1 s2 (set xs) {}" "\<forall>q \<in> set (ns2 @ ms2). tbrk s1 \<le> q"
    "subseq zs xs" "gone s2 (set xs - set zs)"
    "\<forall>p \<in> set zs. \<exists>t. timer_objs s2 p = Some t \<and> i \<le> schedule t"
    "i = - 1 \<or> (\<exists>p \<in> set zs. \<exists>t. timer_objs s2 p = Some t \<and> schedule t = i)"
    using process_loop_inv [OF a1(2), of "- 1" 0] by blast
  obtain s3 ns3 ms3 where a3: "process_async call s2 = Some s3" "tinv s3 (ns3 @ ns2 @ ns1 @ zs) ms3"
    "frees s2 s3 {} (set (ms2 @ ms1))" "\<forall>q \<in> set (ns3 @ ms3). tbrk s2 \<le> q" using process_async_inv [OF lp(2)] by blast
  have head: "thead s = first xs" using tinv_head [OF inv] by (simp add: first_def)
  have xb: "\<forall>p \<in> set xs. p < tbrk s" using tinv_below [OF inv] by blast
  have le: "tbrk s \<le> tbrk s1" "tbrk s1 \<le> tbrk s2" "tbrk s2 \<le> tbrk s3"
    using frees_D(1) a1(3) lp(3) a3(3) by blast+
  have g3: "gone s3 (set xs - set zs)" by (rule gone_frees [OF lp(6) a3(3)]) (use xb le in fastforce)
  have sched: "\<exists>t'. timer_objs s3 p = Some t' \<and> schedule t' = schedule t" if "timer_objs s2 p = Some t" for p t
    using frees_D(4) [OF a3(3) _ that] by (auto simp: tkey_def)
  have as: "async_objs s3 a = None" if "a \<in> set as" for a
  proof -
    have "async_objs s1 a = None" "a < tbrk s" using frees_D(2,3) [OF a1(3)] that by blast+
    then have "async_objs s2 a = None" using frees_D(7) [OF lp(3)] le(1) by (simp add: stays_free_def)
    then show ?thesis using frees_D(7) [OF a3(3)] le \<open>a < tbrk s\<close> by (simp add: stays_free_def)
  qed
  have new: "\<forall>q \<in> set ((ns3 @ ns2 @ ns1) @ (ms3 @ ms2 @ ms1)). tbrk s \<le> q"
    using new_trans [OF new_trans [OF a1(4) lp(4) le(1)] a3(4)] le by simp
  let ?l = "if i \<noteq> - 1 \<and> l = 0 then clock s3 (samples s3) else l"
  let ?s4 = "if i \<noteq> - 1 \<and> l = 0 then s3\<lparr>samples := samples s3 + 1\<rparr> else s3"
  have "ape_timers_process call s
      = Some (if i = - 1 then APE_TIMER_RESOLUTION else timers_wait (run_in_low_resolution ?s4) i ?l, ?s4)"
    using a1(1) lp(1) a3(1) head by (simp add: ape_timers_process_def mach_absolute_time_def Let_def)
  moreover have "tinv ?s4 ((ns3 @ ns2 @ ns1) @ zs) ms3" using a3(2) by simp
  moreover have "timer_objs ?s4 = timer_objs s3" "async_objs ?s4 = async_objs s3" by simp_all
  moreover have "\<forall>p \<in> set zs. \<exists>t. timer_objs s3 p = Some t \<and> i \<le> schedule t" using lp(7) sched by metis
  moreover have "i = - 1 \<or> (\<exists>p \<in> set zs. \<exists>t. timer_objs s3 p = Some t \<and> schedule t = i)" using lp(8) sched by metis
  moreover have "\<forall>q \<in> set ((ns3 @ ns2 @ ns1) @ ms3). tbrk s \<le> q" using new by auto
  ultimately show ?thesis using lp(5) g3 as unfolding gone_def
    by (intro exI [of _ "if i = - 1 then APE_TIMER_RESOLUTION else timers_wait (run_in_low_resolution ?s4) i ?l"]
        exI [of _ i] exI [of _ ?l] exI [of _ ?s4] exI [of _ "ns3 @ ns2 @ ns1"] exI [of _ ms3] exI [of _ zs])
      (simp only: , simp)
qed

end

end
