(* ===== verification/Timers_Run.thy ===== *)
theory Timers_Run
  imports Timers_Props
begin

text \<open>
  Callbacks as scripts of calls of the timer interface, and a log of every call the loop makes.
  They satisfy the contract \<open>timer_callbacks\<close>, so a pass over the timers is safe with
  them, and the log says which callbacks ran and how often. The properties of
  \<open>ape_timers_next.c\<close> are stated at the end.
\<close>

section \<open>Scripts\<close>

text \<open>
  What a callback does: the function number \<open>n\<close> is the pointer \<open>n + 1\<close>, so no script
  passes NULL where the interface forbids it.
\<close>

datatype timer_act =
    Do_create int nat ptr
  | Do_async nat ptr "nat option"
  | Do_clear uint64 bool
  | Do_onclear uint64 nat
  | Do_flags uint64 uint32

record called_timers = ape_timers +
  called :: "(ptr \<times> ptr) list"

record scripted_timers = called_timers +
  script :: "ptr \<Rightarrow> timer_act list"
  answer :: "ptr \<Rightarrow> int"

type_synonym 'x cts = "'x called_timers_ext ape_timers_scheme"

type_synonym sts = "unit scripted_timers_ext cts"

text \<open>Any callbacks, with each call written down before it is made.\<close>

definition logging :: "'x called_timers_ext caller \<Rightarrow> 'x called_timers_ext caller" where
  "logging call f x s = call f x (s\<lparr>called := called s @ [(f, x)]\<rparr>)"

fun run_act :: "timer_act \<Rightarrow> sts \<Rightarrow> sts option" where
  "run_act (Do_create ms n x) s = map_option snd (APE_timer_create ms (n + 1) x s)"
| "run_act (Do_async n x c) s =
     (let (p, s1) = APE_async (n + 1) x s
      in case c of None \<Rightarrow> Some s1 | Some m \<Rightarrow> APE_async_setclearfunc p (m + 1) s1)"
| "run_act (Do_clear i force) s = APE_timer_clearbyid i force s"
| "run_act (Do_onclear i n) s = do {
     p \<leftarrow> APE_timer_getbyid i s;
     if p = NULL then Some s else APE_timer_setclearfunc p (n + 1) s }"
| "run_act (Do_flags i fl) s = do {
     p \<leftarrow> APE_timer_getbyid i s;
     if p = NULL then Some s else APE_timer_setflags p fl s }"

fun run_acts :: "timer_act list \<Rightarrow> sts \<Rightarrow> sts option" where
  "run_acts [] s = Some s"
| "run_acts (a # as) s = do { s1 \<leftarrow> run_act a s; run_acts as s1 }"

definition play_script :: "unit scripted_timers_ext called_timers_ext caller" where
  "play_script f x s = do { s1 \<leftarrow> run_acts (script s f) s; Some (answer s f, s1) }"

definition run_script :: "unit scripted_timers_ext called_timers_ext caller" where
  "run_script = logging play_script"

section \<open>Scripts keep to the contract\<close>

text \<open>Besides the contract: a script leaves the calls queued before alone, and logs nothing itself.\<close>

definition quiet :: "'x cts \<Rightarrow> 'x cts \<Rightarrow> bool" where
  "quiet s s' \<longleftrightarrow> called s' = called s \<and> keeps_alloc (\<lambda>a. a) (async_objs s) (async_objs s')"

lemma quiet_refl [simp]: "quiet s s"
  by (simp add: quiet_def)

lemma quiet_trans: "quiet s s1 \<Longrightarrow> quiet s1 s2 \<Longrightarrow> quiet s s2"
  unfolding quiet_def using keeps_alloc_trans by metis

lemma log_tinv [simp]: "tinv (s\<lparr>called := l\<rparr>) xs as = tinv s xs as"
  by (simp add: tinv_def tlist_def alist_def tfresh_def tcalls_def acalls_def)

lemma log_evolves [simp]: "evolves (s\<lparr>called := l\<rparr>) s' ns ms = evolves s s' ns ms"
  by (simp add: evolves_def)

lemma upd_timer_quiet: "upd_timer p f s = Some s' \<Longrightarrow> quiet s s'"
  by (auto simp: upd_timer_def wr_eq_Some quiet_def split: bind_splits)

lemma create_quiet: "APE_timer_create ms cb x s = Some (p, s') \<Longrightarrow> quiet s s'"
  by (auto simp: APE_timer_create_def quiet_def mach_absolute_time_def Let_def
      split: if_splits bind_splits)

lemma clearbyid_quiet: "APE_timer_clearbyid i force s = Some s' \<Longrightarrow> quiet s s'"
  by (auto simp: APE_timer_clearbyid_def split: if_splits bind_splits dest: upd_timer_quiet)

lemma getbyid_cases:
  assumes "tinv s xs as"
  obtains p where "APE_timer_getbyid i s = Some p" "p = NULL"
    | p t where "APE_timer_getbyid i s = Some p" "p \<noteq> NULL" "rd (timer_objs s) p = Some t"
proof -
  have "chain tnext (timer_objs s) (thead s) xs" using assms by (simp add: tinv_def tlist_def dll_def)
  from find_timer_spec [OF this, of i] obtain r where "find_timer i (timer_objs s) (thead s) = Some r"
    "r = NULL \<or> (\<exists>t. rd (timer_objs s) r = Some t)" by (auto split: if_splits)
  then show ?thesis using that by (auto simp: APE_timer_getbyid_def)
qed

lemma async_quiet:
  assumes "tinv s xs as"
  shows "quiet s (snd (APE_async cb x s))"
  using assms by (auto simp: quiet_def APE_async_def tinv_def tfresh_def keeps_alloc_def)

lemma async_clear_evolves:
  assumes inv: "tinv s xs as" and cb: "cb \<noteq> NULL"
  shows "\<exists>s'. APE_async_setclearfunc (tbrk s) cf (snd (APE_async cb x s)) = Some s' \<and> evolves s s' [] [tbrk s] \<and> quiet s s'"
proof -
  let ?p = "tbrk s"
  let ?s1 = "snd (APE_async cb x s)"
  have p0: "?p \<noteq> NULL" "async_objs s ?p = None" using inv by (auto simp: tinv_def tfresh_def)
  obtain a where a: "rd (async_objs ?s1) ?p = Some a" using p0 by (simp add: APE_async_def)
  let ?s2 = "?s1\<lparr>async_objs := (async_objs ?s1)(?p \<mapsto> a\<lparr>aclearfunc := cf\<rparr>)\<rparr>"
  have e1: "evolves s ?s1 [] [?p]" by (rule async_evolves [OF inv cb])
  have e2: "evolves ?s1 ?s2 [] []"
  proof -
    have "tinv ?s2 xs' as'" if i: "tinv ?s1 xs' as'" for xs' as'
    proof -
      have c: "chain anext (async_objs ?s1) (head_async ?s1) as'" using i by (simp add: tinv_def alist_def)
      have "chain anext (async_objs ?s2) (head_async ?s1) as'"
        by (rule keeps_alloc_lseg [OF _ c]) (use keeps_alloc_upd [OF a, of anext] in simp)
      moreover have "acalls ?s2" using i a unfolding tinv_def acalls_def rd_Some_iff by auto
      moreover have "tfresh ?s2" using i by (auto simp: tinv_def tfresh_def APE_async_def)
      ultimately show ?thesis using i by (simp add: tinv_def alist_def tlist_def tcalls_def)
    qed
    moreover have "stays_free (tbrk ?s1) (async_objs ?s1) (async_objs ?s2)"
      using a stays_free_upd [of "async_objs ?s1" ?p] by (simp add: rd_Some_iff)
    ultimately show ?thesis using keeps_alloc_upd [OF a, of anext] by (simp add: evolves_def)
  qed
  have "APE_async_setclearfunc ?p cf ?s1 = Some ?s2" using a by (simp add: APE_async_setclearfunc_def)
  moreover have "evolves s ?s2 [] [?p]" using evolves_trans [OF e1 e2] by simp
  moreover have "quiet s ?s2" using p0(2) by (auto simp: quiet_def APE_async_def keeps_alloc_def)
  ultimately show ?thesis by blast
qed

lemma act_respects:
  assumes inv: "tinv s xs as"
  shows "\<exists>s' ns ms. run_act a s = Some s' \<and> evolves s s' ns ms \<and> quiet s s'"
proof (cases a)
  case (Do_create t n x)
  obtain p s' where "APE_timer_create t (n + 1) x s = Some (p, s')" "evolves s s' [p] []"
    using create_evolves [OF inv, of "n + 1"] by fastforce
  then show ?thesis using Do_create create_quiet by fastforce
next
  case (Do_async n x c)
  have p: "fst (APE_async (n + 1) x s) = tbrk s" by (simp add: APE_async_def)
  have e: "evolves s (snd (APE_async (n + 1) x s)) [] [tbrk s]" by (rule async_evolves [OF inv]) simp
  show ?thesis
  proof (cases c)
    case None
    then show ?thesis using Do_async e async_quiet [OF inv] by (simp add: case_prod_unfold Let_def) blast
  next
    case (Some m)
    then show ?thesis using Do_async p async_clear_evolves [OF inv, of "n + 1" "m + 1" x]
      by (simp add: case_prod_unfold Let_def) blast
  qed
next
  case (Do_clear i force)
  then show ?thesis using clearbyid_evolves [OF inv, of i force] clearbyid_quiet by fastforce
next
  case (Do_onclear i n)
  from inv show ?thesis
  proof (cases rule: getbyid_cases [where i = i])
    case (2 p t)
    have "tkey (t\<lparr>clearfunc := n + 1\<rparr>) = tkey t" by (simp add: tkey_def)
    then obtain s' where "upd_timer p (\<lambda>t. t\<lparr>clearfunc := n + 1\<rparr>) s = Some s'" "evolves s s' [] []"
      using upd_timer_evolves [OF 2(3), of "\<lambda>t. t\<lparr>clearfunc := n + 1\<rparr>"] by auto
    then show ?thesis using Do_onclear 2 upd_timer_quiet by (fastforce simp: APE_timer_setclearfunc_def)
  qed (use Do_onclear in \<open>auto intro!: exI [of _ "[]"]\<close>)
next
  case (Do_flags i fl)
  from inv show ?thesis
  proof (cases rule: getbyid_cases [where i = i])
    case (2 p t)
    have "tkey (t\<lparr>tflags := fl\<rparr>) = tkey t" by (simp add: tkey_def)
    then obtain s' where "upd_timer p (\<lambda>t. t\<lparr>tflags := fl\<rparr>) s = Some s'" "evolves s s' [] []"
      using upd_timer_evolves [OF 2(3), of "\<lambda>t. t\<lparr>tflags := fl\<rparr>"] by auto
    then show ?thesis using Do_flags 2 upd_timer_quiet by (fastforce simp: APE_timer_setflags_def)
  qed (use Do_flags in \<open>auto intro!: exI [of _ "[]"]\<close>)
qed

lemma acts_respect:
  assumes "tinv s xs as"
  shows "\<exists>s' ns ms. run_acts acts s = Some s' \<and> evolves s s' ns ms \<and> quiet s s'"
  using assms
proof (induction acts arbitrary: s xs as)
  case Nil
  then show ?case by (intro exI [of _ s] exI [of _ "[]"]) simp
next
  case (Cons a acts)
  obtain s1 ns ms where 1: "run_act a s = Some s1" "evolves s s1 ns ms" "quiet s s1"
    using act_respects [OF Cons.prems] by blast
  obtain s2 ns' ms' where 2: "run_acts acts s1 = Some s2" "evolves s1 s2 ns' ms'" "quiet s1 s2"
    using Cons.IH [OF evolves_tinv [OF 1(2) Cons.prems]] by blast
  show ?case using 1 2 evolves_trans [OF 1(2) 2(2)] quiet_trans [OF 1(3) 2(3)] by auto
qed

lemma script_respects:
  assumes "tinv s xs as"
  shows "\<exists>r s' ns ms. play_script f x s = Some (r, s') \<and> evolves s s' ns ms \<and> quiet s s'"
proof -
  from acts_respect [OF assms, of "script s f"] show ?thesis by (auto simp: play_script_def; blast)
qed

text \<open>
  Callbacks that also leave a trace: every call is logged, and the calls queued before it are not
  changed by it.
\<close>

definition acall_log :: "ape_timer_async heap \<Rightarrow> ptr \<Rightarrow> (ptr \<times> ptr) list" where
  "acall_log h c = (case h c of None \<Rightarrow> []
     | Some a \<Rightarrow> (acallback a, aarg a) # (if aclearfunc a \<noteq> NULL then [(aclearfunc a, aarg a)] else []))"

locale logged_callbacks = timer_callbacks call
  for call :: "'s caller" +
  fixes trace :: "'s ape_timers_scheme \<Rightarrow> (ptr \<times> ptr) list"
  assumes traces: "tinv s xs as \<Longrightarrow> call f x s = Some (r, s') \<Longrightarrow>
      trace s' = trace s @ [(f, x)] \<and> keeps_alloc (\<lambda>a. a) (async_objs s) (async_objs s')"
    and trace_free: "trace (s\<lparr>async_objs := h\<rparr>) = trace s"
    and trace_head: "trace (s\<lparr>head_async := p\<rparr>) = trace s"
begin

lemma call_trace:
  assumes "tinv s xs as" and "f \<noteq> NULL"
  shows "\<exists>r s' ns ms. call_ptr call f x s = Some (r, s') \<and> evolves s s' ns ms \<and> trace s' = trace s @ [(f, x)]
     \<and> keeps_alloc (\<lambda>a. a) (async_objs s) (async_objs s')"
  using respects [OF assms, of x] traces [OF assms(1)] assms(2) by (auto simp: call_ptr_def; blast)

text \<open>One turn: the callback, the clear function if there is one, and the call is freed.\<close>

lemma async_turn:
  assumes a: "rd (async_objs s) c = Some a" and inv: "tinv s xs as"
  shows "\<exists>r s1 s2 ns ms. call_ptr call (acallback a) (aarg a) s = Some (r, s1) \<and> rd (async_objs s1) c = Some a
     \<and> (if aclearfunc a \<noteq> NULL then map_option snd (call_ptr call (aclearfunc a) (aarg a) s1) else Some s1) = Some s2
     \<and> rd (async_objs s2) c = Some a \<and> evolves s s2 ns ms \<and> keeps_alloc (\<lambda>a. a) (async_objs s) (async_objs s2)
     \<and> trace s2 = trace s @ acall_log (async_objs s) c"
proof -
  have "acallback a \<noteq> NULL" using inv a by (auto simp: tinv_def acalls_def rd_Some_iff)
  then obtain r s1 ns ms where 1: "call_ptr call (acallback a) (aarg a) s = Some (r, s1)" "evolves s s1 ns ms"
    "trace s1 = trace s @ [(acallback a, aarg a)]" "keeps_alloc (\<lambda>a. a) (async_objs s) (async_objs s1)"
    using call_trace [OF inv] by blast
  have a1: "rd (async_objs s1) c = Some a" using keeps_alloc_rd [OF 1(4) a] by simp
  have i1: "tinv s1 (ns @ xs) (ms @ as)" by (rule evolves_tinv [OF 1(2) inv])
  have ha: "async_objs s c = Some a" using a by (simp add: rd_Some_iff)
  show ?thesis
  proof (cases "aclearfunc a = NULL")
    case True
    then show ?thesis using 1 a1 ha
      by (intro exI [of _ r] exI [of _ s1] exI [of _ s1] exI [of _ ns] exI [of _ ms]) (simp add: acall_log_def)
  next
    case False
    obtain r2 s2 ns2 ms2 where 2: "call_ptr call (aclearfunc a) (aarg a) s1 = Some (r2, s2)" "evolves s1 s2 ns2 ms2"
      "trace s2 = trace s1 @ [(aclearfunc a, aarg a)]" "keeps_alloc (\<lambda>a. a) (async_objs s1) (async_objs s2)"
      using call_trace [OF i1 False] by blast
    have "rd (async_objs s2) c = Some a" using keeps_alloc_rd [OF 2(4) a1] by simp
    then show ?thesis using False 1 2 a1 ha evolves_trans [OF 1(2) 2(2)] keeps_alloc_trans [OF 1(4) 2(4)]
      by (intro exI [of _ r] exI [of _ s1] exI [of _ s2] exI [of _ "ns2 @ ns"] exI [of _ "ms2 @ ms"])
        (simp add: acall_log_def)
  qed
qed

lemma async_loop_trace:
  assumes "chain anext (async_objs s) cur cs" and "tinv s xs as" and "set cs \<inter> set as = {}"
  shows "\<exists>s'. process_async_loop call cur s = Some s'
     \<and> trace s' = trace s @ concat (map (acall_log (async_objs s)) cs)"
  using assms
proof (induction cs arbitrary: cur s xs as)
  case Nil
  then show ?case by (subst process_async_loop.simps) auto
next
  case (Cons c cs)
  note inv = Cons.prems(2)
  obtain a where a: "cur = c" "c \<noteq> NULL" "rd (async_objs s) c = Some a" and tl: "chain anext (async_objs s) (anext a) cs"
    using Cons.prems(1) by (auto split: option.splits)
  have dist: "distinct (c # cs)" by (rule chain_distinct [OF Cons.prems(1)])
  obtain r s1 s2 ns ms where t: "call_ptr call (acallback a) (aarg a) s = Some (r, s1)" "rd (async_objs s1) c = Some a"
     "(if aclearfunc a \<noteq> NULL then map_option snd (call_ptr call (aclearfunc a) (aarg a) s1) else Some s1) = Some s2"
     "rd (async_objs s2) c = Some a" and ev: "evolves s s2 ns ms" and k: "keeps_alloc (\<lambda>a. a) (async_objs s) (async_objs s2)"
     and tr: "trace s2 = trace s @ acall_log (async_objs s) c"
    using async_turn [OF a(3) inv] by blast
  let ?s3 = "s2\<lparr>async_objs := (async_objs s2)(c := None)\<rparr>"
  have below: "d < tbrk s" if "d \<in> set (c # cs)" for d
    using lseg_alloc [OF Cons.prems(1) that] below_brk [OF inv] by blast
  have dj: "set (c # cs) \<inter> set (ms @ as) = {}"
    using evolves_new [OF ev] below Cons.prems(3) by fastforce
  have i3: "tinv ?s3 (ns @ xs) (ms @ as)"
    by (rule free_async_tinv [OF evolves_tinv [OF ev inv]]) (use dj in auto)
  have "chain anext (async_objs s2) (anext a) cs"
    by (rule keeps_alloc_lseg [OF _ tl]) (use ev in \<open>simp add: evolves_def\<close>)
  then have ch: "chain anext (async_objs ?s3) (anext a) cs" using dist by simp
  have "acall_log (async_objs ?s3) d = acall_log (async_objs s) d" if d: "d \<in> set cs" for d
  proof -
    obtain v where "rd (async_objs s) d = Some v" using lseg_alloc [OF tl d] by blast
    then have v: "async_objs s d = Some v" by (simp add: rd_Some_iff)
    then have "async_objs s2 d = Some v" using k unfolding keeps_alloc_def by auto
    moreover have "d \<noteq> c" using dist d by auto
    ultimately show ?thesis using v by (simp add: acall_log_def)
  qed
  then have same: "map (acall_log (async_objs ?s3)) cs = map (acall_log (async_objs s)) cs" by simp
  have dj': "set cs \<inter> set (ms @ as) = {}" using dj by auto
  obtain s' where "process_async_loop call (anext a) ?s3 = Some s'"
    "trace s' = trace ?s3 @ concat (map (acall_log (async_objs ?s3)) cs)"
    using Cons.IH [OF ch i3 dj'] by blast
  moreover from this(1) have "process_async_loop call cur s = Some s'"
    using a t by (subst process_async_loop.simps) simp
  ultimately show ?case using tr by (simp only: same trace_free) simp
qed

lemma async_trace:
  assumes "tinv s xs as"
  shows "\<exists>s'. process_async call s = Some s' \<and> trace s' = trace s @ concat (map (acall_log (async_objs s)) as)"
proof -
  let ?s = "s\<lparr>head_async := NULL\<rparr>"
  have ch: "chain anext (async_objs ?s) (head_async s) as" using assms by (simp add: tinv_def alist_def)
  have "tinv ?s xs []" using assms by (auto simp: tinv_def tlist_def alist_def tfresh_def tcalls_def acalls_def)
  from async_loop_trace [OF ch this] show ?thesis by (simp add: process_async_def trace_head)
qed

text \<open>Deleting the queue calls every clear function without asking whether there is one.\<close>

lemma del_async_loop_iff:
  assumes "chain anext (async_objs s) cur cs" and "tinv s xs as" and "set cs \<inter> set as = {}"
  shows "del_async_loop call cur s \<noteq> None
     \<longleftrightarrow> (\<forall>c \<in> set cs. \<forall>a. rd (async_objs s) c = Some a \<longrightarrow> aclearfunc a \<noteq> NULL)"
  using assms
proof (induction cs arbitrary: cur s xs as)
  case Nil
  then show ?case by (subst del_async_loop.simps) auto
next
  case (Cons c cs)
  note inv = Cons.prems(2)
  obtain a where a: "cur = c" "c \<noteq> NULL" "rd (async_objs s) c = Some a" and tl: "chain anext (async_objs s) (anext a) cs"
    using Cons.prems(1) by (auto split: option.splits)
  have dist: "distinct (c # cs)" by (rule chain_distinct [OF Cons.prems(1)])
  show ?case
  proof (cases "aclearfunc a = NULL")
    case True
    then have "del_async_loop call cur s = None" using a by (subst del_async_loop.simps) (simp add: call_ptr_def)
    then show ?thesis using True a(3) by auto
  next
    case False
    obtain r s2 ns ms where t: "call_ptr call (aclearfunc a) (aarg a) s = Some (r, s2)" and ev: "evolves s s2 ns ms"
      and k: "keeps_alloc (\<lambda>a. a) (async_objs s) (async_objs s2)"
      using call_trace [OF inv False] by blast
    let ?s3 = "s2\<lparr>async_objs := (async_objs s2)(c := None)\<rparr>"
    have below: "d < tbrk s" if "d \<in> set (c # cs)" for d
      using lseg_alloc [OF Cons.prems(1) that] below_brk [OF inv] by blast
    have dj: "set (c # cs) \<inter> set (ms @ as) = {}"
      using evolves_new [OF ev] below Cons.prems(3) by fastforce
    have i3: "tinv ?s3 (ns @ xs) (ms @ as)"
      by (rule free_async_tinv [OF evolves_tinv [OF ev inv]]) (use dj in auto)
    have "chain anext (async_objs s2) (anext a) cs"
      by (rule keeps_alloc_lseg [OF _ tl]) (use ev in \<open>simp add: evolves_def\<close>)
    then have ch: "chain anext (async_objs ?s3) (anext a) cs" using dist by simp
    have same: "rd (async_objs ?s3) d = rd (async_objs s) d" if d: "d \<in> set cs" for d
    proof -
      obtain v where v: "rd (async_objs s) d = Some v" using lseg_alloc [OF tl d] by blast
      then show ?thesis using keeps_alloc_rd [OF k v] dist d by auto
    qed
    have c2: "rd (async_objs s2) c = Some a" using keeps_alloc_rd [OF k a(3)] by simp
    have dj': "set cs \<inter> set (ms @ as) = {}" using dj by auto
    have "del_async_loop call cur s = del_async_loop call (anext a) ?s3"
      using a t c2 by (subst del_async_loop.simps) simp
    moreover have "(\<forall>d \<in> set cs. \<forall>a. rd (async_objs ?s3) d = Some a \<longrightarrow> aclearfunc a \<noteq> NULL)
        \<longleftrightarrow> (\<forall>d \<in> set cs. \<forall>a. rd (async_objs s) d = Some a \<longrightarrow> aclearfunc a \<noteq> NULL)"
      by (intro ball_cong refl) (simp only: same)
    ultimately show ?thesis using Cons.IH [OF ch i3 dj'] a(3) False by (simp only: list.set ball_simps) auto
  qed
qed

lemma del_async_all_iff:
  assumes "tinv s xs as"
  shows "del_async_all call s \<noteq> None
     \<longleftrightarrow> (\<forall>c \<in> set as. \<forall>a. rd (async_objs s) c = Some a \<longrightarrow> aclearfunc a \<noteq> NULL)"
proof -
  let ?s = "s\<lparr>head_async := NULL\<rparr>"
  have ch: "chain anext (async_objs ?s) (head_async s) as" using assms by (simp add: tinv_def alist_def)
  have "tinv ?s xs []" using assms by (auto simp: tinv_def tlist_def alist_def tfresh_def tcalls_def acalls_def)
  from del_async_loop_iff [OF ch this] show ?thesis by (simp add: del_async_all_def)
qed

end

text \<open>Callbacks that write nothing down themselves and leave the calls queued before them alone give
  such a trace, once their calls are written down.\<close>

definition leaves_calls :: "'x called_timers_ext caller \<Rightarrow> bool" where
  "leaves_calls call \<longleftrightarrow> (\<forall>f x s r s' xs as. tinv s xs as \<longrightarrow> call f x s = Some (r, s') \<longrightarrow> quiet s s')"

lemma logging_traces:
  assumes "timer_callbacks call" and "leaves_calls call"
  shows "logged_callbacks (logging call) called"
proof
  fix s :: "'a cts" and xs as f x assume i: "tinv s xs as"
  then have i': "tinv (s\<lparr>called := called s @ [(f, x)]\<rparr>) xs as" by simp
  show "\<exists>r s' ns ms. logging call f x s = Some (r, s') \<and> evolves s s' ns ms" if "f \<noteq> NULL"
    using timer_callbacks.respects [OF assms(1) i' that, of x] by (simp add: logging_def)
  show "called s' = called s @ [(f, x)] \<and> keeps_alloc (\<lambda>a. a) (async_objs s) (async_objs s')"
    if "logging call f x s = Some (r, s')" for r s'
  proof -
    have "quiet (s\<lparr>called := called s @ [(f, x)]\<rparr>) s'"
      using assms(2) i' that unfolding leaves_calls_def logging_def by blast
    then show ?thesis by (simp add: quiet_def)
  qed
qed simp_all

lemma play_script_callbacks: "timer_callbacks play_script"
  by unfold_locales (use script_respects in blast)

lemma play_script_leaves: "leaves_calls play_script"
  unfolding leaves_calls_def by (metis script_respects option.inject prod.inject)

interpretation scripts: logged_callbacks run_script called
  unfolding run_script_def by (rule logging_traces [OF play_script_callbacks play_script_leaves])

section \<open>The wait\<close>

lemma wait_due:
  fixes i l :: uint64
  assumes "0 \<le> d" and "d < (2 ^ 31 - 1) * 1000000" and d: "d = uint i - uint l"
  shows "timers_wait low i l = max (if low \<noteq> 0 then 100 else 1) ((d + 500000) div 1000000)"
proof -
  have "uint (i - l) = d" using assms by (simp add: uint_word_arith_bintrs take_bit_int_eq_self)
  then have "uint (i - l + 500000) = d + 500000"
    using assms(1,2) by (simp add: uint_word_arith_bintrs take_bit_int_eq_self)
  then have "uint ((i - l + 500000) div 1000000) = (d + 500000) div 1000000" by (simp add: uint_div_distrib)
  moreover have "c_int ((d + 500000) div 1000000) = (d + 500000) div 1000000"
    using assms(1,2) by (intro c_int_id) auto
  ultimately show ?thesis by (simp add: timers_wait_def max.commute)
qed

lemma c_int_shift: "c_int (x + 2 ^ 32 * k) = c_int x"
  by (simp add: c_int_def signed_take_bit_eq_iff_take_bit_eq take_bit_eq_mod)

text \<open>A timer that is overdue: the difference wraps around, and the conversion to \<open>int\<close> of
  the huge quotient happens to be negative as long as the delay is under 23 days.\<close>

lemma wait_overdue:
  fixes i l :: uint64
  assumes "- 2000000000000000 \<le> d" and "d < 0" and d: "d = uint i - uint l"
  shows "timers_wait low i l = (if low \<noteq> 0 then 100 else 1)"
proof -
  have il: "uint (i - l) = 2 ^ 64 + d"
  proof -
    have "uint (i - l) = (uint i - uint l) mod 2 ^ 64" by (simp add: uint_word_arith_bintrs take_bit_eq_mod)
    also have "\<dots> = (2 ^ 64 + d) mod 2 ^ 64" by (simp add: d)
    also have "\<dots> = 2 ^ 64 + d" using assms(1,2) by (intro mod_pos_pos_trivial) auto
    finally show ?thesis .
  qed
  have "uint (i - l + 500000) = (uint (i - l) + 500000) mod 2 ^ 64"
    by (simp add: uint_word_ariths(1))
  then have s: "uint (i - l + 500000) = (2 ^ 64 + d + 500000) mod 2 ^ 64" unfolding il .
  show ?thesis
  proof (cases "- 500000 \<le> d")
    case True
    have "uint (i - l + 500000) = (d + 500000) mod 2 ^ 64"
      unfolding s add.assoc by (rule mod_add_self1)
    also have "\<dots> = d + 500000" using True assms(2) by (intro mod_pos_pos_trivial) auto
    finally have "uint ((i - l + 500000) div 1000000) = 0" using True assms(2) by (simp add: uint_div_distrib)
    then show ?thesis by (simp add: timers_wait_def c_int_def)
  next
    case False
    then have "uint (i - l + 500000) = 2 ^ 64 + d + 500000"
      unfolding s using assms(1,2) by (intro mod_pos_pos_trivial) auto
    then have q: "uint ((i - l + 500000) div 1000000) = (2 ^ 64 + d + 500000) div 1000000" (is "_ = ?q")
      by (simp add: uint_div_distrib)
    have "c_int ?q = c_int (?q - 4295 * 2 ^ 32)" using c_int_shift [of "?q - 4295 * 2 ^ 32" 4295] by simp
    also have "\<dots> = ?q - 4295 * 2 ^ 32" by (rule c_int_id) (use False assms(1,2) in auto)
    finally have "c_int ?q < 0" using False by simp
    then show ?thesis by (simp add: timers_wait_def q)
  qed
qed

section \<open>Numbers of timers\<close>

lemma getbyid_created:
  assumes inv: "tinv s xs as" and cb: "cb \<noteq> NULL"
    and old: "\<forall>p \<in> set xs. \<forall>t. rd (timer_objs s) p = Some t \<longrightarrow> timer_id t \<le> last_identifier s"
    and room: "last_identifier s \<noteq> - 1"
  shows "\<exists>p s' t. APE_timer_create ms cb x s = Some (p, s') \<and> p \<noteq> NULL
     \<and> APE_timer_getbyid (last_identifier s + 1) s' = Some p \<and> rd (timer_objs s') p = Some t
     \<and> tflags t = APE_TIMER_IS_PROTECTED \<and> timer_id t = last_identifier s + 1 \<and> tinv s' (p # xs) as"
proof -
  obtain p s' t where c: "APE_timer_create ms cb x s = Some (p, s')" "evolves s s' [p] []"
    "rd (timer_objs s') p = Some t" "timer_id t = last_identifier s + 1" "tflags t = APE_TIMER_IS_PROTECTED"
    using create_evolves [OF inv cb, of ms x] by blast
  have i: "tinv s' (p # xs) as" using evolves_tinv [OF c(2) inv] by simp
  have "1 + last_identifier s \<noteq> 0" using room by (metis add.commute add.right_cancel left_minus)
  then have new: "last_identifier s < last_identifier s + 1"
    by (simp add: word_less_nat_alt unatSuc add.commute)
  have other: "timer_id t' \<noteq> last_identifier s + 1" if q: "q \<in> set xs" "rd (timer_objs s') q = Some t'" for q t'
  proof -
    obtain t0 where t0: "rd (timer_objs s) q = Some t0" using tinv_alloc [OF inv q(1)] by blast
    then have "timer_id t' = timer_id t0"
      using keeps_alloc_rd [OF _ t0, of tkey "timer_objs s'"] c(2) q(2) by (auto simp: evolves_def tkey_def)
    then show ?thesis using old q(1) t0 new by (metis not_le)
  qed
  have "chain tnext (timer_objs s') (thead s') (p # xs)" using i by (simp add: tinv_def tlist_def dll_def)
  from find_timer_spec [OF this, of "last_identifier s + 1"] obtain r where
    r: "find_timer (last_identifier s + 1) (timer_objs s') (thead s') = Some r" "r \<in> set (p # xs)"
      "\<exists>t. rd (timer_objs s') r = Some t \<and> timer_id t = last_identifier s + 1"
    using c(3,4) by (auto split: if_splits)
  then have "r = p" using other by auto
  then show ?thesis using c i r(1) by (auto simp: APE_timer_getbyid_def)
qed

text \<open>The flag is set only by force on a protected timer.\<close>

lemma clear_flag [word_bits]: "(x OR 2 :: uint32) AND 2 \<noteq> 0"
proof -
  have "bit ((x OR 2) AND 2) 1" by (simp add: bit_simps)
  then show ?thesis by (metis bit_0_eq bot_apply bot_bool_def)
qed

section \<open>Properties\<close>

text \<open>Demonstration states: timers 2 (due) and 1 (not due), and a queued call 3.\<close>

definition demo_timer :: "uint64 \<Rightarrow> uint64 \<Rightarrow> ptr \<Rightarrow> ptr \<Rightarrow> ptr \<Rightarrow> ape_timer" where
  "demo_timer i due cb nx pv = \<lparr>timer_id = i, tflags = APE_TIMER_IS_PROTECTED, ticks_needs = 1000000000,
     schedule = due, callback = cb, clearfunc = NULL, arg = 7,
     stats_nexec = 0, stats_max = 0, stats_min = 0, stats_totaltime = 0, tnext = nx, tprev = pv\<rparr>"

definition demo_timers :: sts where
  "demo_timers = \<lparr>timer_objs = (\<lambda>_. None)(1 \<mapsto> demo_timer 1 5000000000 9 0 2, 2 \<mapsto> demo_timer 2 1000000000 5 1 0),
     async_objs = (\<lambda>_. None)(3 \<mapsto> \<lparr>acallback = 6, aclearfunc = 8, aarg = 4, anext = NULL\<rparr>),
     tbrk = 4, thead = 2, head_async = 3, last_identifier = 2, run_in_low_resolution = 0,
     clock = (\<lambda>n. 2000000000), samples = 0,
     called = [], script = (\<lambda>f. if f = 5 then [Do_create 5 9 7] else []), answer = (\<lambda>f. - 1)\<rparr>"

lemma demo_timers_tinv: "tinv demo_timers [2, 1] [3]"
  by (simp add: demo_timers_def demo_timer_def tinv_def tlist_def dll_def alist_def tfresh_def tcalls_def acalls_def rd_def)

text \<open>C9: For any callbacks that keep to the interface, a pass over the timers never faults and
  always ends: the timers left are some of those that were there, in order, and those created by
  callbacks in front; the others, and every asynchronous call queued before, are freed; and the time to
  wait is computed from the earliest due time of the old timers that are left.\<close>
theorem timers_pass_safe:
  assumes "timer_callbacks call" and "tinv s xs as"
  shows "\<exists>w i l s' ns ms zs. ape_timers_process call s = Some (w, s') \<and> tinv s' (ns @ zs) ms
     \<and> subseq zs xs \<and> gone s' (set xs - set zs) \<and> (\<forall>a \<in> set as. async_objs s' a = None)
     \<and> (\<forall>q \<in> set (ns @ ms). tbrk s \<le> q)
     \<and> (\<forall>p \<in> set zs. \<exists>t. timer_objs s' p = Some t \<and> i \<le> schedule t)
     \<and> (i = - 1 \<or> (\<exists>p \<in> set zs. \<exists>t. timer_objs s' p = Some t \<and> schedule t = i))
     \<and> w = (if i = - 1 then APE_TIMER_RESOLUTION else timers_wait (run_in_low_resolution s') i l)"
  by (rule timer_callbacks.timers_process_inv [OF assms])

theorem timers_pass_safe_witness:
  "\<exists>w s' ns ms zs. ape_timers_process run_script demo_timers = Some (w, s') \<and> tinv s' (ns @ zs) ms
     \<and> subseq zs [2, 1] \<and> async_objs s' 3 = None"
  using timers_pass_safe [OF scripts.timer_callbacks_axioms demo_timers_tinv]
  by (elim exE conjE) (intro exI conjI, (assumption | simp)+)

text \<open>C32: For any callbacks that keep to the interface of the timers and leave the calls queued
  before them as they are, running the queue of asynchronous calls runs each call that was queued exactly
  once, in the order of the queue (the last queued first), each followed by its clear function if it has
  one; the calls that the callbacks queue meanwhile are not run. What ran is read off the list
  \<open>called\<close>, in which \<open>logging\<close> writes every call of a callback.\<close>
theorem async_runs_once:
  assumes "timer_callbacks call" and "leaves_calls call" and "tinv s xs as"
  shows "\<exists>s'. process_async (logging call) s = Some s'
     \<and> called s' = called s @ concat (map (acall_log (async_objs s)) as)"
  by (rule logged_callbacks.async_trace [OF logging_traces [OF assms(1,2)] assms(3)])

theorem async_runs_once_witness:
  "\<exists>s'. process_async (logging play_script) demo_timers = Some s' \<and> called s' = [(6, 4), (8, 4)]"
  using async_runs_once [OF play_script_callbacks play_script_leaves demo_timers_tinv]
  by (simp add: demo_timers_def acall_log_def)

text \<open>C36: The time to wait is the time to the earliest timer rounded to milliseconds, at least 1 (100
  in low resolution), when that timer is due within 24 days; for a timer that is overdue by at most 23
  days the wrapped difference is converted to a negative number and the wait is the least one.\<close>
theorem timers_wait_spec:
  assumes "d = uint i - uint l"
  shows "(0 \<le> d \<and> d < (2 ^ 31 - 1) * 1000000 \<longrightarrow>
      timers_wait low i l = max (if low \<noteq> 0 then 100 else 1) ((d + 500000) div 1000000))
    \<and> (- 2000000000000000 \<le> d \<and> d < 0 \<longrightarrow> timers_wait low i l = (if low \<noteq> 0 then 100 else 1))"
  using wait_due [OF _ _ assms] wait_overdue [OF _ _ assms] by simp

theorem timers_wait_spec_witness:
  "timers_wait 0 12400000 10000000 = 2 \<and> timers_wait 0 10000000 30000000 = 1"
  using timers_wait_spec [of 2400000 12400000 10000000 0] timers_wait_spec [of "- 20000000" 10000000 30000000 0]
  by simp

text \<open>A timer created by a callback during a pass is not taken into account in the time to wait:
  here a timer due in 5 milliseconds exists after the pass, which asks to wait for a second.\<close>
theorem timers_new_timer_not_awaited:
  "map_option (\<lambda>(w, s'). (w, thead s', map_option schedule (timer_objs s' 4))) (ape_timers_process run_script demo_timers)
     = Some (1000, 4, Some (2000000000 + 5000000))"
  by code_simp

text \<open>Numbers of timers: a new timer gets a number no other timer has, and is found under it;
  clearing it by that number does nothing without force, as it is protected, and with force marks it, so
  that the next pass destroys it.\<close>
theorem timer_created_found_cleared:
  assumes "tinv s xs as" and "cb \<noteq> NULL"
    and "\<forall>p \<in> set xs. \<forall>t. rd (timer_objs s) p = Some t \<longrightarrow> timer_id t \<le> last_identifier s"
    and "last_identifier s \<noteq> - 1"
  shows "\<exists>p s' s2 t. APE_timer_create ms cb x s = Some (p, s')
     \<and> APE_timer_getbyid (last_identifier s + 1) s' = Some p
     \<and> APE_timer_getid p s' = Some (last_identifier s + 1)
     \<and> APE_timer_clearbyid (last_identifier s + 1) False s' = Some s'
     \<and> APE_timer_clearbyid (last_identifier s + 1) True s' = Some s2
     \<and> rd (timer_objs s2) p = Some t \<and> timer_flag APE_TIMER_IS_CLEARED t"
proof -
  obtain p s' t where c: "APE_timer_create ms cb x s = Some (p, s')" "p \<noteq> NULL"
    "APE_timer_getbyid (last_identifier s + 1) s' = Some p" "rd (timer_objs s') p = Some t"
    "tflags t = APE_TIMER_IS_PROTECTED" "timer_id t = last_identifier s + 1"
    using getbyid_created [OF assms, of ms x] by blast
  then show ?thesis
    by (simp add: APE_timer_getid_def APE_timer_clearbyid_def APE_timer_getbyid_def upd_timer_def timer_flag_def
        APE_TIMER_IS_PROTECTED_def APE_TIMER_IS_CLEARED_def)
qed

theorem timer_created_found_cleared_witness:
  "\<exists>p s'. APE_timer_create 20 5 7 demo_timers = Some (p, s') \<and> APE_timer_getbyid 3 s' = Some p"
proof -
  have "\<forall>p \<in> set [2, 1]. \<forall>t. rd (timer_objs demo_timers) p = Some t \<longrightarrow> timer_id t \<le> last_identifier demo_timers"
    by (simp add: demo_timers_def demo_timer_def)
  moreover have "last_identifier demo_timers + 1 = 3" "last_identifier demo_timers \<noteq> - 1"
    by (simp_all add: demo_timers_def)
  ultimately show ?thesis using timer_created_found_cleared [OF demo_timers_tinv, of 5 20 7] by auto
qed

text \<open>Destroying everything calls the clear function of each queued asynchronous call without
  testing it: it faults exactly when some queued call has none, which is what \<open>APE_async\<close>
  makes.\<close>
theorem async_destroy_all_faults:
  fixes s :: sts
  assumes "tinv s [] as"
  shows "APE_timers_destroy_all run_script s \<noteq> None
     \<longleftrightarrow> (\<forall>c \<in> set as. \<forall>a. rd (async_objs s) c = Some a \<longrightarrow> aclearfunc a \<noteq> NULL)"
proof -
  have "thead s = NULL" using tinv_head [OF assms] by simp
  then have "APE_timers_destroy_all run_script s = del_async_all run_script s"
    by (simp add: APE_timers_destroy_all_def destroy_all_loop.simps)
  then show ?thesis using scripts.del_async_all_iff [OF assms] by simp
qed

text \<open>The state of a program that queued one call and stops.\<close>

definition demo_pending :: sts where
  "demo_pending = demo_timers\<lparr>timer_objs := (\<lambda>_. None), thead := NULL,
     async_objs := (\<lambda>_. None)(3 \<mapsto> \<lparr>acallback = 6, aclearfunc = NULL, aarg = 4, anext = NULL\<rparr>)\<rparr>"

theorem async_destroy_all_faults_witness:
  "APE_timers_destroy_all run_script demo_pending = None"
proof -
  have "tinv demo_pending [] [3]"
    by (simp add: demo_pending_def demo_timers_def tinv_def tlist_def dll_def alist_def tfresh_def tcalls_def acalls_def rd_def)
  then show ?thesis using async_destroy_all_faults [of demo_pending "[3]"] by (simp add: demo_pending_def)
qed

end
