(* ===== verification/Events.thy ===== *)
theory Events
  imports Prelude "HOL-Library.Signed_Division"
begin

unbundle bit_operations_syntax

text \<open>
  \<open>ape_events.c\<close> with the backends \<open>ape_event_epoll.c\<close> and \<open>ape_event_kqueue.c\<close>
  (the one over select is in theory Select). A \<open>struct _fdevent\<close> is the number of elements of
  its events array, the state of the backend, the number of managed descriptors and a table of function
  pointers, which may be NULL; calling NULL is \<open>None\<close>. An event descriptor is given by its
  address and its member \<open>fd\<close>. System calls are parameters, functions on the state of the
  kernel. Element \<open>i\<close> of the events array past its end is \<open>None\<close>.
\<close>

section \<open>Descriptors, flags and the function table\<close>

definition EVENT_READ :: uint32 where
  "EVENT_READ = 0x01"

definition EVENT_WRITE :: uint32 where
  "EVENT_WRITE = 0x02"

definition EVENT_LEVEL :: uint32 where
  "EVENT_LEVEL = 0x04"

definition has_flag :: "uint32 \<Rightarrow> uint32 \<Rightarrow> bool" where
  "has_flag w f \<longleftrightarrow> w AND f \<noteq> 0"

datatype fdevent_handler =
  EVENT_UNKNOWN | EVENT_EPOLL | EVENT_KQUEUE | EVENT_DEVPOLL | EVENT_POLL | EVENT_SELECT

datatype ape_event = APE_EVENT_SOCKET | APE_EVENT_DELEGATE

record 'b evmem =
  basemem :: int
  backend :: 'b

record 'b fd_ops =
  op_add :: "(ptr \<Rightarrow> int \<Rightarrow> uint32 \<Rightarrow> 'b evmem \<Rightarrow> (int \<times> 'b evmem) option) option"
  op_mod :: "(ptr \<Rightarrow> int \<Rightarrow> uint32 \<Rightarrow> 'b evmem \<Rightarrow> (int \<times> 'b evmem) option) option"
  op_del :: "(int \<Rightarrow> 'b evmem \<Rightarrow> (int \<times> 'b evmem) option) option"
  op_poll :: "(int \<Rightarrow> 'b evmem \<Rightarrow> (int \<times> 'b evmem) option) option"
  op_revent :: "(nat \<Rightarrow> 'b evmem \<Rightarrow> (uint32 \<times> 'b evmem) option) option"
  op_reload :: "('b evmem \<Rightarrow> (int \<times> 'b evmem) option) option"
  op_setsize :: "(int \<Rightarrow> 'b evmem \<Rightarrow> 'b evmem option) option"
  op_get_current_evd :: "(nat \<Rightarrow> 'b evmem \<Rightarrow> ptr option) option"
  op_free :: "'b \<Rightarrow> 'b option"

record 'b fdevent =
  evm :: "'b evmem"
  nfd :: int
  handler :: fdevent_handler
  fops :: "'b fd_ops"

definition APE_DEFAULT_EVENTS_SIZE :: int where
  "APE_DEFAULT_EVENTS_SIZE = 32"

section \<open>Managing descriptors\<close>

definition events_setsize :: "'b fdevent \<Rightarrow> int \<Rightarrow> 'b fdevent option" where
  "events_setsize ev n = do {
     f \<leftarrow> op_setsize (fops ev);
     m \<leftarrow> f n ((evm ev)\<lparr>basemem := n\<rparr>);
     Some (ev\<lparr>evm := m\<rparr>) }"

definition events_add :: "ptr \<Rightarrow> int \<Rightarrow> uint32 \<Rightarrow> 'b fdevent \<Rightarrow> (int \<times> 'b fdevent) option" where
  "events_add evd fd bitadd ev0 = do {
     let ev = ev0\<lparr>nfd := nfd ev0 + 1\<rparr>;
     ev1 \<leftarrow> (if nfd ev > basemem (evm ev) then events_setsize ev (c_int (push_bit 1 (basemem (evm ev))))
             else Some ev);
     f \<leftarrow> op_add (fops ev1);
     (r, m) \<leftarrow> f evd fd bitadd (evm ev1);
     Some (if r = - 1 then - 1 else 1, ev1\<lparr>evm := m\<rparr>) }"

definition events_mod :: "ptr \<Rightarrow> int \<Rightarrow> uint32 \<Rightarrow> 'b fdevent \<Rightarrow> (int \<times> 'b fdevent) option" where
  "events_mod evd fd bitadd ev = (case op_mod (fops ev) of
     None \<Rightarrow> Some (- 1, ev)
   | Some f \<Rightarrow> do { (r, m) \<leftarrow> f evd fd bitadd (evm ev); Some (r, ev\<lparr>evm := m\<rparr>) })"

definition events_del :: "int \<Rightarrow> 'b fdevent \<Rightarrow> (int \<times> 'b fdevent) option" where
  "events_del fd ev0 = do {
     let ev = ev0\<lparr>nfd := nfd ev0 - 1\<rparr>;
     m \<leftarrow> (case op_del (fops ev) of None \<Rightarrow> Some (evm ev) | Some f \<Rightarrow> map_option snd (f fd (evm ev)));
     Some (1, ev\<lparr>evm := m\<rparr>) }"

text \<open>\<open>_nextpoweroftwo\<close>: the bits below the highest one of \<open>v - 1\<close> are filled.\<close>

definition nextpoweroftwo :: "uint32 \<Rightarrow> uint32" where
  "nextpoweroftwo v0 =
     (let v = v0 - 1;
          v = v OR drop_bit 1 v;
          v = v OR drop_bit 2 v;
          v = v OR drop_bit 4 v;
          v = v OR drop_bit 8 v;
          v = v OR drop_bit 16 v
      in v + 1)"

text \<open>The maximum is taken of unsigned numbers, the size passed on is an int again.\<close>

definition events_shrink :: "'b fdevent \<Rightarrow> 'b fdevent option" where
  "events_shrink ev =
     (let curmem = basemem (evm ev) in
      if curmem = APE_DEFAULT_EVENTS_SIZE then Some ev
      else let prevmem = drop_bit 1 curmem in
        if nfd ev \<ge> prevmem then Some ev
        else events_setsize ev
          (sint (ape_max (word_of_int APE_DEFAULT_EVENTS_SIZE) (nextpoweroftwo (word_of_int (nfd ev))))))"

definition events_poll :: "int \<Rightarrow> 'b fdevent \<Rightarrow> (int \<times> 'b fdevent) option" where
  "events_poll timeout_ms ev = do {
     f \<leftarrow> op_poll (fops ev);
     (nfds, m) \<leftarrow> f timeout_ms (evm ev);
     Some (if nfds = - 1 then - 1 else nfds, ev\<lparr>evm := m\<rparr>) }"

definition events_get_current_evd :: "nat \<Rightarrow> 'b fdevent \<Rightarrow> ptr option" where
  "events_get_current_evd i ev = do { f \<leftarrow> op_get_current_evd (fops ev); f i (evm ev) }"

definition events_revent :: "nat \<Rightarrow> 'b fdevent \<Rightarrow> (uint32 \<times> 'b fdevent) option" where
  "events_revent i ev = do {
     f \<leftarrow> op_revent (fops ev);
     (b, m) \<leftarrow> f i (evm ev);
     Some (b, ev\<lparr>evm := m\<rparr>) }"

text \<open>The three init functions are those linked in: the one of a backend that is not compiled does
  nothing and returns 0.\<close>

definition no_init :: "'b fdevent \<Rightarrow> int \<times> 'b fdevent" where
  "no_init ev = (0, ev)"

definition events_init ::
  "('b fdevent \<Rightarrow> int \<times> 'b fdevent) \<Rightarrow> ('b fdevent \<Rightarrow> int \<times> 'b fdevent) \<Rightarrow> ('b fdevent \<Rightarrow> int \<times> 'b fdevent)
    \<Rightarrow> 'b fdevent \<Rightarrow> int \<times> 'b fdevent" where
  "events_init epoll_init kqueue_init select_init ev0 =
     (let ev = ev0\<lparr>evm := (evm ev0)\<lparr>basemem := APE_DEFAULT_EVENTS_SIZE\<rparr>, nfd := 0\<rparr>
      in case handler ev of
           EVENT_EPOLL \<Rightarrow> epoll_init ev
         | EVENT_KQUEUE \<Rightarrow> kqueue_init ev
         | EVENT_SELECT \<Rightarrow> select_init ev
         | _ \<Rightarrow> (- 1, ev))"

definition events_destroy :: "'b fdevent \<Rightarrow> 'b fdevent option" where
  "events_destroy ev = do {
     b \<leftarrow> op_free (fops ev) (backend (evm ev));
     Some (ev\<lparr>evm := (evm ev)\<lparr>backend := b\<rparr>,
              fops := \<lparr>op_add = None, op_mod = None, op_del = None, op_poll = None, op_revent = None,
                       op_reload = None, op_setsize = None, op_get_current_evd = None,
                       op_free = op_free (fops ev)\<rparr>\<rparr>) }"

section \<open>The events array\<close>

text \<open>The array of a backend: \<open>None\<close> when it is not allocated.\<close>

definition array_new :: "'e \<Rightarrow> int \<Rightarrow> 'e list option" where
  "array_new junk n = Some (replicate (nat n) junk)"

definition array_resize :: "'e \<Rightarrow> 'e list option \<Rightarrow> int \<Rightarrow> 'e list option" where
  "array_resize junk a n = (case a of None \<Rightarrow> array_new junk n
     | Some es \<Rightarrow> Some (take (nat n) es @ replicate (nat n - length es) junk))"

text \<open>The kernel writes the events it returns to the front of the array; more than fit are a fault.\<close>

definition array_fill :: "'e list \<Rightarrow> 'e list option \<Rightarrow> 'e list option" where
  "array_fill new a = do { es \<leftarrow> a; if length es < length new then None else Some (new @ drop (length new) es) }"

definition array_at :: "'e list option \<Rightarrow> nat \<Rightarrow> 'e option" where
  "array_at a i = do { es \<leftarrow> a; if i < length es then Some (es ! i) else None }"

section \<open>The epoll backend\<close>

record epoll_event =
  ee_events :: uint32
  ee_ptr :: ptr

datatype epoll_op = EPOLL_CTL_ADD | EPOLL_CTL_MOD

definition EPOLLIN :: uint32 where "EPOLLIN = 0x1"
definition EPOLLPRI :: uint32 where "EPOLLPRI = 0x2"
definition EPOLLOUT :: uint32 where "EPOLLOUT = 0x4"
definition EPOLLET :: uint32 where "EPOLLET = 0x80000000"

text \<open>The system calls, on a kernel state \<open>'k\<close>. \<open>epoll_wait\<close> gives its result and the events it
  writes.\<close>

record 'k epoll_sys =
  sys_epoll_create :: "'k \<Rightarrow> int \<times> 'k"
  sys_epoll_ctl :: "int \<Rightarrow> epoll_op \<Rightarrow> int \<Rightarrow> epoll_event \<Rightarrow> 'k \<Rightarrow> int \<times> 'k"
  sys_epoll_wait :: "int \<Rightarrow> int \<Rightarrow> int \<Rightarrow> 'k \<Rightarrow> int \<times> epoll_event list \<times> 'k"
  sys_dup :: "int \<Rightarrow> 'k \<Rightarrow> int \<times> 'k"
  sys_close :: "int \<Rightarrow> 'k \<Rightarrow> 'k"

record 'k epoll_dev =
  ep_events :: "epoll_event list option"
  epoll_fd :: int
  ep_kernel :: 'k

type_synonym 'k epoll_mem = "'k epoll_dev evmem"

definition epoll_bits :: "uint32 \<Rightarrow> uint32" where
  "epoll_bits bitadd =
     (let e = (if has_flag bitadd EVENT_LEVEL then 0 else EPOLLET) OR EPOLLPRI;
          e = (if has_flag bitadd EVENT_READ then e OR EPOLLIN else e)
      in if has_flag bitadd EVENT_WRITE then e OR EPOLLOUT else e)"

definition on_dev :: "('d \<Rightarrow> 'd) \<Rightarrow> 'd evmem \<Rightarrow> 'd evmem" where
  "on_dev f m = m\<lparr>backend := f (backend m)\<rparr>"

definition event_epoll_add ::
  "'k epoll_sys \<Rightarrow> ptr \<Rightarrow> int \<Rightarrow> uint32 \<Rightarrow> 'k epoll_mem \<Rightarrow> (int \<times> 'k epoll_mem) option" where
  "event_epoll_add sys evd fd bitadd m =
     (let d = backend m;
          (r, k) = sys_epoll_ctl sys (epoll_fd d) EPOLL_CTL_ADD fd
                     \<lparr>ee_events = epoll_bits bitadd, ee_ptr = evd\<rparr> (ep_kernel d)
      in Some (if r = - 1 then - 1 else 1, m\<lparr>backend := d\<lparr>ep_kernel := k\<rparr>\<rparr>))"

definition event_epoll_mod ::
  "'k epoll_sys \<Rightarrow> ptr \<Rightarrow> int \<Rightarrow> uint32 \<Rightarrow> 'k epoll_mem \<Rightarrow> (int \<times> 'k epoll_mem) option" where
  "event_epoll_mod sys evd fd bitadd m =
     (let d = backend m;
          (r, k) = sys_epoll_ctl sys (epoll_fd d) EPOLL_CTL_MOD fd
                     \<lparr>ee_events = epoll_bits bitadd, ee_ptr = evd\<rparr> (ep_kernel d)
      in Some (if r = - 1 then - 1 else 1, m\<lparr>backend := d\<lparr>ep_kernel := k\<rparr>\<rparr>))"

definition event_epoll_poll ::
  "'k epoll_sys \<Rightarrow> int \<Rightarrow> 'k epoll_mem \<Rightarrow> (int \<times> 'k epoll_mem) option" where
  "event_epoll_poll sys timeout_ms m =
     (let d = backend m;
          (nfds, new, k) = sys_epoll_wait sys (epoll_fd d) (basemem m) timeout_ms (ep_kernel d);
          d1 = d\<lparr>ep_kernel := k\<rparr>
      in if nfds = - 1 then Some (- 1, m\<lparr>backend := d1\<rparr>)
         else do {
           es \<leftarrow> array_fill new (ep_events d);
           Some (nfds, m\<lparr>backend := d1\<lparr>ep_events := Some es\<rparr>\<rparr>) })"

definition event_epoll_get_evd :: "nat \<Rightarrow> 'k epoll_mem \<Rightarrow> ptr option" where
  "event_epoll_get_evd i m = map_option ee_ptr (array_at (ep_events (backend m)) i)"

definition junk_epoll :: epoll_event where
  "junk_epoll = \<lparr>ee_events = 0xdeadbeef, ee_ptr = 0xdeadbeef\<rparr>"

definition event_epoll_setsize :: "int \<Rightarrow> 'k epoll_mem \<Rightarrow> 'k epoll_mem option" where
  "event_epoll_setsize n m = Some (on_dev (\<lambda>d. d\<lparr>ep_events := array_resize junk_epoll (ep_events d) n\<rparr>) m)"

definition event_epoll_revent :: "nat \<Rightarrow> 'k epoll_mem \<Rightarrow> (uint32 \<times> 'k epoll_mem) option" where
  "event_epoll_revent i m = do {
     e \<leftarrow> array_at (ep_events (backend m)) i;
     let bitret = (if has_flag (ee_events e) EPOLLIN then EVENT_READ else 0);
     Some (if has_flag (ee_events e) EPOLLOUT then bitret OR EVENT_WRITE else bitret, m) }"

definition event_epoll_reload :: "'k epoll_sys \<Rightarrow> 'k epoll_mem \<Rightarrow> (int \<times> 'k epoll_mem) option" where
  "event_epoll_reload sys m =
     (let d = backend m;
          (n, k) = sys_dup sys (epoll_fd d) (ep_kernel d);
          k = (if n \<noteq> - 1 then sys_close sys (epoll_fd d) (sys_close sys n k) else k);
          (e, k) = sys_epoll_create sys k
      in Some (if e = - 1 then 0 else 1, m\<lparr>backend := d\<lparr>epoll_fd := e, ep_kernel := k\<rparr>\<rparr>))"

definition epoll_ops :: "'k epoll_sys \<Rightarrow> 'k epoll_dev fd_ops" where
  "epoll_ops sys = \<lparr>op_add = Some (event_epoll_add sys), op_mod = Some (event_epoll_mod sys), op_del = None,
     op_poll = Some (event_epoll_poll sys), op_revent = Some event_epoll_revent,
     op_reload = Some (event_epoll_reload sys), op_setsize = Some event_epoll_setsize,
     op_get_current_evd = Some event_epoll_get_evd,
     op_free = (\<lambda>d. case ep_events d of None \<Rightarrow> None | Some es \<Rightarrow> Some (d\<lparr>ep_events := None\<rparr>))\<rparr>"

definition event_epoll_init :: "'k epoll_sys \<Rightarrow> 'k epoll_dev fdevent \<Rightarrow> int \<times> 'k epoll_dev fdevent" where
  "event_epoll_init sys ev =
     (let m = evm ev;
          d = backend m;
          (e, k) = sys_epoll_create sys (ep_kernel d);
          d1 = d\<lparr>epoll_fd := e, ep_kernel := k\<rparr>
      in if e = - 1 then (0, ev\<lparr>evm := m\<lparr>backend := d1\<rparr>\<rparr>)
         else (1, ev\<lparr>evm := m\<lparr>backend := d1\<lparr>ep_events := array_new junk_epoll (basemem m)\<rparr>\<rparr>, fops := epoll_ops sys\<rparr>))"

section \<open>The kqueue backend\<close>

datatype kq_filter = EVFILT_READ | EVFILT_WRITE | EVFILT_OTHER

record kevent =
  kv_ident :: int
  kv_filter :: kq_filter
  kv_flags :: uint32
  kv_udata :: ptr

definition EV_ADD :: uint32 where "EV_ADD = 0x1"
definition EV_DELETE :: uint32 where "EV_DELETE = 0x2"
definition EV_CLEAR :: uint32 where "EV_CLEAR = 0x20"

text \<open>\<open>kevent\<close> with one change, and \<open>kevent\<close> to wait (for a number of events and seconds
  and nanoseconds).\<close>

record 'k kqueue_sys =
  sys_kqueue :: "'k \<Rightarrow> int \<times> 'k"
  sys_kevent_change :: "int \<Rightarrow> kevent \<Rightarrow> 'k \<Rightarrow> int \<times> 'k"
  sys_kevent_wait :: "int \<Rightarrow> int \<Rightarrow> int \<Rightarrow> int \<Rightarrow> 'k \<Rightarrow> int \<times> kevent list \<times> 'k"
  kq_dup :: "int \<Rightarrow> 'k \<Rightarrow> int \<times> 'k"
  kq_close :: "int \<Rightarrow> 'k \<Rightarrow> 'k"

record 'k kqueue_dev =
  kq_events :: "kevent list option"
  kq_fd :: int
  kq_kernel :: 'k

type_synonym 'k kqueue_mem = "'k kqueue_dev evmem"

text \<open>One half of \<open>event_kqueue_add\<close>, for one of the two filters: add it, or delete it whatever
  the result.\<close>

definition kqueue_filter ::
  "'k kqueue_sys \<Rightarrow> ptr \<Rightarrow> int \<Rightarrow> kq_filter \<Rightarrow> bool \<Rightarrow> uint32 \<Rightarrow> int \<Rightarrow> 'k \<Rightarrow> bool \<times> 'k" where
  "kqueue_filter sys evd fd filt wanted baseflag kq k =
     (if wanted then
        let (r, k) = sys_kevent_change sys kq
              \<lparr>kv_ident = fd, kv_filter = filt, kv_flags = baseflag, kv_udata = evd\<rparr> k
        in (r \<noteq> - 1, k)
      else (True, snd (sys_kevent_change sys kq
              \<lparr>kv_ident = fd, kv_filter = filt, kv_flags = EV_DELETE, kv_udata = evd\<rparr> k)))"

definition event_kqueue_add ::
  "'k kqueue_sys \<Rightarrow> ptr \<Rightarrow> int \<Rightarrow> uint32 \<Rightarrow> 'k kqueue_mem \<Rightarrow> (int \<times> 'k kqueue_mem) option" where
  "event_kqueue_add sys evd fd bitadd m =
     (let d = backend m;
          baseflag = EV_ADD OR (if has_flag bitadd EVENT_LEVEL then 0 else EV_CLEAR);
          (ok, k) = kqueue_filter sys evd fd EVFILT_READ (has_flag bitadd EVENT_READ) baseflag (kq_fd d) (kq_kernel d)
      in if \<not> ok then Some (- 1, m\<lparr>backend := d\<lparr>kq_kernel := k\<rparr>\<rparr>)
         else let (ok, k) = kqueue_filter sys evd fd EVFILT_WRITE (has_flag bitadd EVENT_WRITE) baseflag (kq_fd d) k
              in Some (if ok then 1 else - 1, m\<lparr>backend := d\<lparr>kq_kernel := k\<rparr>\<rparr>))"

definition event_kqueue_mod ::
  "'k kqueue_sys \<Rightarrow> ptr \<Rightarrow> int \<Rightarrow> uint32 \<Rightarrow> 'k kqueue_mem \<Rightarrow> (int \<times> 'k kqueue_mem) option" where
  "event_kqueue_mod sys evd fd bitadd m = event_kqueue_add sys evd fd bitadd m"

definition event_kqueue_poll ::
  "'k kqueue_sys \<Rightarrow> int \<Rightarrow> 'k kqueue_mem \<Rightarrow> (int \<times> 'k kqueue_mem) option" where
  "event_kqueue_poll sys timeout_ms m =
     (let d = backend m;
          (nfds, new, k) = sys_kevent_wait sys (kq_fd d) (basemem m * 2)
             (timeout_ms sdiv 1000) ((timeout_ms smod 1000) * 1000000) (kq_kernel d);
          d1 = d\<lparr>kq_kernel := k\<rparr>
      in if nfds = - 1 then Some (- 1, m\<lparr>backend := d1\<rparr>)
         else do {
           es \<leftarrow> array_fill new (kq_events d);
           Some (nfds, m\<lparr>backend := d1\<lparr>kq_events := Some es\<rparr>\<rparr>) })"

text \<open>The descriptor is taken for a socket, whatever its type; \<open>offline\<close> reads its state.\<close>

definition event_kqueue_get_evd :: "(ptr \<Rightarrow> bool option) \<Rightarrow> nat \<Rightarrow> 'k kqueue_mem \<Rightarrow> ptr option" where
  "event_kqueue_get_evd offline i m = do {
     e \<leftarrow> array_at (kq_events (backend m)) i;
     off \<leftarrow> offline (kv_udata e);
     Some (if off then NULL else kv_udata e) }"

definition junk_kevent :: kevent where
  "junk_kevent = \<lparr>kv_ident = 0, kv_filter = EVFILT_OTHER, kv_flags = 0, kv_udata = NULL\<rparr>"

definition event_kqueue_setsize :: "int \<Rightarrow> 'k kqueue_mem \<Rightarrow> 'k kqueue_mem option" where
  "event_kqueue_setsize n m = Some (on_dev (\<lambda>d. d\<lparr>kq_events := array_resize junk_kevent (kq_events d) (n * 2)\<rparr>) m)"

definition event_kqueue_revent :: "nat \<Rightarrow> 'k kqueue_mem \<Rightarrow> (uint32 \<times> 'k kqueue_mem) option" where
  "event_kqueue_revent i m = do {
     e \<leftarrow> array_at (kq_events (backend m)) i;
     Some (case kv_filter e of EVFILT_READ \<Rightarrow> EVENT_READ | EVFILT_WRITE \<Rightarrow> EVENT_WRITE | EVFILT_OTHER \<Rightarrow> 0, m) }"

definition event_kqueue_reload :: "'k kqueue_sys \<Rightarrow> 'k kqueue_mem \<Rightarrow> (int \<times> 'k kqueue_mem) option" where
  "event_kqueue_reload sys m =
     (let d = backend m;
          (n, k) = kq_dup sys (kq_fd d) (kq_kernel d);
          k = (if n \<noteq> - 1 then kq_close sys (kq_fd d) (kq_close sys n k) else k);
          (e, k) = sys_kqueue sys k
      in Some (if e = - 1 then 0 else 1, m\<lparr>backend := d\<lparr>kq_fd := e, kq_kernel := k\<rparr>\<rparr>))"

definition kqueue_ops :: "'k kqueue_sys \<Rightarrow> (ptr \<Rightarrow> bool option) \<Rightarrow> 'k kqueue_dev fd_ops" where
  "kqueue_ops sys offline = \<lparr>op_add = Some (event_kqueue_add sys), op_mod = Some (event_kqueue_mod sys), op_del = None,
     op_poll = Some (event_kqueue_poll sys), op_revent = Some event_kqueue_revent,
     op_reload = Some (event_kqueue_reload sys), op_setsize = Some event_kqueue_setsize,
     op_get_current_evd = Some (event_kqueue_get_evd offline),
     op_free = (\<lambda>d. case kq_events d of None \<Rightarrow> None | Some es \<Rightarrow> Some (d\<lparr>kq_events := None\<rparr>))\<rparr>"

definition event_kqueue_init ::
  "'k kqueue_sys \<Rightarrow> (ptr \<Rightarrow> bool option) \<Rightarrow> 'k kqueue_dev fdevent \<Rightarrow> int \<times> 'k kqueue_dev fdevent" where
  "event_kqueue_init sys offline ev =
     (let m = evm ev;
          d = backend m;
          (e, k) = sys_kqueue sys (kq_kernel d);
          d1 = d\<lparr>kq_fd := e, kq_kernel := k\<rparr>
      in if e = - 1 then (0, ev\<lparr>evm := m\<lparr>backend := d1\<rparr>\<rparr>)
         else (1, ev\<lparr>evm := m\<lparr>backend := d1\<lparr>kq_events := array_new junk_kevent (basemem m * 2)\<rparr>\<rparr>,
                     fops := kqueue_ops sys offline\<rparr>))"

end
