(* ===== verification/Select.thy ===== *)
theory Select
  imports Events Hash_Store
begin

unbundle bit_operations_syntax

text \<open>
  \<open>ape_event_select.c\<close>: the backend over \<open>select\<close>. The watched descriptors are in a hash
  table from their number to an info struct, which the cleaner of the table frees. A poll walks the
  table's list of items to fill the two sets, and marks in each info what the call found ready. A set
  cannot hold a descriptor of \<open>FD_SETSIZE\<close> or more: adding one is a fault. When \<open>select\<close>
  itself fails the program exits, which is \<open>None\<close> too.
\<close>

section \<open>State\<close>

definition FD_SETSIZE :: int where
  "FD_SETSIZE = 1024"

definition MIN_TIMEOUT_MS :: int where
  "MIN_TIMEOUT_MS = 1"

definition kWatchForRead_Event :: byte where "kWatchForRead_Event = 1"
definition kWatchForWrite_Event :: byte where "kWatchForWrite_Event = 2"
definition kReadyForRead_Event :: byte where "kReadyForRead_Event = 8"
definition kReadyForWrite_Event :: byte where "kReadyForWrite_Event = 16"
definition kIsReady_Event :: byte where "kIsReady_Event = kReadyForRead_Event OR kReadyForWrite_Event"

definition watch_flag :: "byte \<Rightarrow> byte \<Rightarrow> bool" where
  "watch_flag w f \<longleftrightarrow> w AND f \<noteq> 0"

record select_fdinfo =
  si_ptr :: ptr
  si_fd :: int
  watchfor :: byte

type_synonym fd_set = "int set"

text \<open>\<open>select\<close>: the bound, the two sets, seconds and microseconds.\<close>

record 'k select_sys =
  sys_select :: "int \<Rightarrow> fd_set \<Rightarrow> fd_set \<Rightarrow> int \<Rightarrow> int \<Rightarrow> 'k \<Rightarrow> int \<times> fd_set \<times> fd_set \<times> 'k"
  sys_usleep :: "int \<Rightarrow> 'k \<Rightarrow> 'k"

record 'k select_dev =
  sel_events :: "ptr list option"
  fdhash :: "select_fdinfo heap ape_htable"
  fdmem :: hash_mem
  fdinfos :: "select_fdinfo heap"
  fdbrk :: ptr
  sel_kernel :: 'k

type_synonym 'k select_mem = "'k select_dev evmem"

section \<open>Adding, deleting, modifying\<close>

definition watch_bits :: "uint32 \<Rightarrow> byte" where
  "watch_bits bitadd =
     (let w = 0;
          w = (if has_flag bitadd EVENT_READ then w OR kWatchForRead_Event else w)
      in if has_flag bitadd EVENT_WRITE then w OR kWatchForWrite_Event else w)"

definition event_select_add :: "ptr \<Rightarrow> int \<Rightarrow> uint32 \<Rightarrow> 'k select_mem \<Rightarrow> (int \<times> 'k select_mem) option" where
  "event_select_add evd fd bitadd m =
     (if fd < 0 \<or> fd > FD_SETSIZE then Some (- 1, m)
      else do {
        let d = backend m;
        let fdinfo = fdbrk d;
        let infos = (fdinfos d)(fdinfo \<mapsto> \<lparr>si_ptr = evd, si_fd = fd, watchfor = watch_bits bitadd\<rparr>);
        (htbl, hm, infos1) \<leftarrow> hashtbl_append64 (fdhash d) (word_of_int fd) fdinfo (fdmem d) infos;
        Some (1, m\<lparr>backend := d\<lparr>fdhash := htbl, fdmem := hm, fdinfos := infos1, fdbrk := fdinfo + 1\<rparr>\<rparr>) })"

definition event_select_del :: "int \<Rightarrow> 'k select_mem \<Rightarrow> (int \<times> 'k select_mem) option" where
  "event_select_del fd m = do {
     let d = backend m;
     (htbl, hm, infos) \<leftarrow> hashtbl_erase64 (fdhash d) (word_of_int fd) (fdmem d) (fdinfos d);
     Some (1, m\<lparr>backend := d\<lparr>fdhash := htbl, fdmem := hm, fdinfos := infos\<rparr>\<rparr>) }"

definition event_select_mod :: "ptr \<Rightarrow> int \<Rightarrow> uint32 \<Rightarrow> 'k select_mem \<Rightarrow> (int \<times> 'k select_mem) option" where
  "event_select_mod evd fd bitadd m = do {
     let d = backend m;
     fdinfo \<leftarrow> hashtbl_seek64 (fdhash d) (word_of_int fd) (fdmem d);
     if fdinfo = NULL then Some (0, m)
     else do {
       infos \<leftarrow> wr (fdinfos d) fdinfo (\<lambda>i. i\<lparr>watchfor := watch_bits bitadd\<rparr>);
       Some (1, m\<lparr>backend := d\<lparr>fdinfos := infos\<rparr>\<rparr>) } }"

section \<open>Polling\<close>

definition FD_SET :: "int \<Rightarrow> fd_set \<Rightarrow> fd_set option" where
  "FD_SET fd s = (if 0 \<le> fd \<and> fd < FD_SETSIZE then Some (insert fd s) else None)"

definition fd_set_if :: "bool \<Rightarrow> int \<Rightarrow> fd_set \<Rightarrow> int \<Rightarrow> (fd_set \<times> int) option" where
  "fd_set_if c fd s tmpfd = (if c then map_option (\<lambda>s1. (s1, fd)) (FD_SET fd s) else Some (s, tmpfd))"

text \<open>The loop over the items: the sets and the greatest descriptor.\<close>

partial_function (option) select_scan ::
  "ape_htable_item heap \<Rightarrow> ptr \<Rightarrow> select_fdinfo heap \<Rightarrow> fd_set \<Rightarrow> fd_set \<Rightarrow> int
    \<Rightarrow> (select_fdinfo heap \<times> fd_set \<times> fd_set \<times> int) option" where
  "select_scan h item infos rfds wfds maxfd =
     (if item = NULL then Some (infos, rfds, wfds, maxfd)
      else do {
        it \<leftarrow> rd h item;
        fdinfo \<leftarrow> content_addrs it;
        infos1 \<leftarrow> wr infos fdinfo (\<lambda>i. i\<lparr>watchfor := watchfor i AND NOT kIsReady_Event\<rparr>);
        i \<leftarrow> rd infos1 fdinfo;
        (rfds1, tmpfd) \<leftarrow> fd_set_if (watch_flag (watchfor i) kWatchForRead_Event) (si_fd i) rfds 0;
        (wfds1, tmpfd1) \<leftarrow> fd_set_if (watch_flag (watchfor i) kWatchForWrite_Event) (si_fd i) wfds tmpfd;
        select_scan h (lnext it) infos1 rfds1 wfds1 (if tmpfd1 > maxfd then tmpfd1 else maxfd) })"

text \<open>Marking what is ready: one descriptor of the loop. A descriptor that is not in the table is
  skipped (continue).\<close>

definition seek_fd :: "'k select_dev \<Rightarrow> int \<Rightarrow> ptr option" where
  "seek_fd d fd = hashtbl_seek64 (fdhash d) (word_of_int fd) (fdmem d)"

definition select_mark ::
  "'k select_dev \<Rightarrow> fd_set \<Rightarrow> fd_set \<Rightarrow> int \<Rightarrow> select_fdinfo heap \<Rightarrow> select_fdinfo heap option" where
  "select_mark d rfds wfds fd infos = do {
     (fdinfo, infos1, skip) \<leftarrow>
       (if fd \<in> rfds then do {
          p \<leftarrow> seek_fd d fd;
          if p = NULL then Some (NULL, infos, True)
          else do { infos1 \<leftarrow> wr infos p (\<lambda>i. i\<lparr>watchfor := watchfor i OR kReadyForRead_Event\<rparr>);
                    Some (p, infos1, False) } }
        else Some (NULL, infos, False));
     if skip \<or> fd \<notin> wfds then Some infos1
     else do {
       p \<leftarrow> (if fdinfo = NULL then seek_fd d fd else Some fdinfo);
       if p = NULL then Some infos1
       else wr infos1 p (\<lambda>i. i\<lparr>watchfor := watchfor i OR kReadyForWrite_Event\<rparr>) } }"

fun select_marks ::
  "'k select_dev \<Rightarrow> fd_set \<Rightarrow> fd_set \<Rightarrow> int list \<Rightarrow> select_fdinfo heap \<Rightarrow> select_fdinfo heap option" where
  "select_marks d rfds wfds [] infos = Some infos"
| "select_marks d rfds wfds (fd # fds) infos = do {
     infos1 \<leftarrow> select_mark d rfds wfds fd infos;
     select_marks d rfds wfds fds infos1 }"

text \<open>The events array; a write past its end is a fault.\<close>

definition array_put :: "'e \<Rightarrow> nat \<Rightarrow> 'e list option \<Rightarrow> 'e list option" where
  "array_put e i a = do { es \<leftarrow> a; if i < length es then Some (es[i := e]) else None }"

fun select_collect ::
  "'k select_dev \<Rightarrow> fd_set \<Rightarrow> fd_set \<Rightarrow> int list \<Rightarrow> nat \<Rightarrow> ptr list option \<Rightarrow> (nat \<times> ptr list option) option" where
  "select_collect d rfds wfds [] i es = Some (i, es)"
| "select_collect d rfds wfds (fd # fds) i es =
     (if fd \<in> rfds \<or> fd \<in> wfds then do {
        p \<leftarrow> seek_fd d fd;
        es1 \<leftarrow> array_put p i es;
        select_collect d rfds wfds fds (i + 1) (Some es1) }
      else select_collect d rfds wfds fds i es)"

definition event_select_poll :: "'k select_sys \<Rightarrow> int \<Rightarrow> 'k select_mem \<Rightarrow> (int \<times> 'k select_mem) option" where
  "event_select_poll sys timeout_ms0 m = do {
     let timeout_ms = (if timeout_ms0 < MIN_TIMEOUT_MS then MIN_TIMEOUT_MS else timeout_ms0);
     let d = backend m;
     (infos, rfds0, wfds0, maxfd) \<leftarrow> select_scan (items (fdmem d)) (hfirst (fdhash d)) (fdinfos d) {} {} 0;
     let (numfds, rfds, wfds, k) =
       (if maxfd = 0 then (0, rfds0, wfds0, sys_usleep sys ((timeout_ms smod 1000) * 1000) (sel_kernel d))
        else sys_select sys (maxfd + 1) rfds0 wfds0 (timeout_ms sdiv 1000) ((timeout_ms smod 1000) * 1000) (sel_kernel d));
     let d1 = d\<lparr>fdinfos := infos, sel_kernel := k\<rparr>;
     if numfds = - 1 then None
     else if numfds = 0 then Some (0, m\<lparr>backend := d1\<rparr>)
     else do {
       infos1 \<leftarrow> select_marks d1 rfds wfds [0..maxfd] infos;
       (i, es) \<leftarrow> select_collect d1 rfds wfds [0..maxfd] 0 (sel_events d1);
       Some (int i, m\<lparr>backend := d1\<lparr>fdinfos := infos1, sel_events := es\<rparr>\<rparr>) } }"

section \<open>The rest of the backend\<close>

definition event_select_get_evd :: "nat \<Rightarrow> 'k select_mem \<Rightarrow> ptr option" where
  "event_select_get_evd i m = do {
     p \<leftarrow> array_at (sel_events (backend m)) i;
     map_option si_ptr (rd (fdinfos (backend m)) p) }"

definition event_select_revent :: "nat \<Rightarrow> 'k select_mem \<Rightarrow> (uint32 \<times> 'k select_mem) option" where
  "event_select_revent i m = do {
     let d = backend m;
     p \<leftarrow> array_at (sel_events d) i;
     info \<leftarrow> rd (fdinfos d) p;
     let bitret = (if watch_flag (watchfor info) kReadyForRead_Event then EVENT_READ else 0);
     let bitret = (if watch_flag (watchfor info) kReadyForWrite_Event then bitret OR EVENT_WRITE else bitret);
     infos \<leftarrow> wr (fdinfos d) p (\<lambda>i. i\<lparr>watchfor := watchfor i AND NOT kIsReady_Event\<rparr>);
     Some (bitret, m\<lparr>backend := d\<lparr>fdinfos := infos\<rparr>\<rparr>) }"

definition event_select_reload :: "'k select_mem \<Rightarrow> (int \<times> 'k select_mem) option" where
  "event_select_reload m = Some (1, m)"

definition event_select_setsize :: "int \<Rightarrow> 'k select_mem \<Rightarrow> 'k select_mem option" where
  "event_select_setsize n m = Some (m\<lparr>basemem := FD_SETSIZE\<rparr>)"

definition event_select_clean_fd :: "select_fdinfo heap hash_clean_callback" where
  "event_select_clean_fd p it infos = do { a \<leftarrow> content_addrs it; dealloc infos a }"

definition select_ops :: "'k select_sys \<Rightarrow> 'k select_dev fd_ops" where
  "select_ops sys = \<lparr>op_add = Some event_select_add, op_mod = Some event_select_mod, op_del = Some event_select_del,
     op_poll = Some (event_select_poll sys), op_revent = Some event_select_revent,
     op_reload = Some event_select_reload, op_setsize = Some event_select_setsize,
     op_get_current_evd = Some event_select_get_evd,
     op_free = (\<lambda>d. case sel_events d of None \<Rightarrow> None | Some es \<Rightarrow> Some (d\<lparr>sel_events := None\<rparr>))\<rparr>"

definition event_select_init :: "'k select_sys \<Rightarrow> 'k select_dev fdevent \<Rightarrow> int \<times> 'k select_dev fdevent" where
  "event_select_init sys ev =
     (let m = evm ev;
          d = (backend m)\<lparr>sel_events := array_new 0xdeadbeef FD_SETSIZE,
                fdhash := hashtbl_set_cleaner (hashtbl_init APE_HASH_INT) (Some event_select_clean_fd)\<rparr>
      in (1, ev\<lparr>evm := m\<lparr>basemem := FD_SETSIZE, backend := d\<rparr>, fops := select_ops sys\<rparr>))"

declare select_scan.simps [code]

end
