(* ===== verification/Events_Props.thy ===== *)
theory Events_Props
  imports Events
begin

unbundle bit_operations_syntax

text \<open>
  What is proved of the events: \<open>_nextpoweroftwo\<close> is what its name says; and the contract of a
  backend, the locale \<open>event_backend\<close>: it keeps a table of watched descriptors, and a poll reports
  only watched ones, for directions they are watched for, at indices that can be read. In the locale this
  is carried from the backend to the functions of \<open>ape_events.c\<close>, over any sequence of calls. The
  epoll backend satisfies it whenever the kernel does what is documented (\<open>epoll_kernel\<close>).
\<close>

section \<open>The next power of two\<close>

lemma fill_step:
  fixes x v :: "'a::len word"
  assumes "\<And>i. bit x i \<longleftrightarrow> (\<exists>j. i \<le> j \<and> j < i + n \<and> bit v j)"
  shows "bit (x OR drop_bit n x) i \<longleftrightarrow> (\<exists>j. i \<le> j \<and> j < i + 2 * n \<and> bit v j)"
proof
  assume "bit (x OR drop_bit n x) i"
  then have "bit x i \<or> bit x (n + i)" by (simp add: bit_or_iff bit_drop_bit_eq)
  then show "\<exists>j. i \<le> j \<and> j < i + 2 * n \<and> bit v j"
  proof
    assume "bit x i"
    then obtain j where "i \<le> j" "j < i + n" "bit v j" using assms by blast
    then show ?thesis by (intro exI [of _ j]) simp
  next
    assume "bit x (n + i)"
    then obtain j where "n + i \<le> j" "j < n + i + n" "bit v j" using assms by blast
    then show ?thesis by (intro exI [of _ j]) simp
  qed
next
  assume "\<exists>j. i \<le> j \<and> j < i + 2 * n \<and> bit v j"
  then obtain j where j: "i \<le> j" "j < i + 2 * n" "bit v j" by blast
  show "bit (x OR drop_bit n x) i"
  proof (cases "j < i + n")
    case True
    then have "bit x i" using assms j by blast
    then show ?thesis by (simp add: bit_or_iff)
  next
    case False
    then have "n + i \<le> j" "j < n + i + n" using j by auto
    then have "bit x (n + i)" using assms j(3) by blast
    then show ?thesis by (simp add: bit_or_iff bit_drop_bit_eq)
  qed
qed

definition fill :: "uint32 \<Rightarrow> uint32" where
  "fill v = (let v = v OR drop_bit 1 v; v = v OR drop_bit 2 v; v = v OR drop_bit 4 v; v = v OR drop_bit 8 v
             in v OR drop_bit 16 v)"

lemma nextpoweroftwo_fill: "nextpoweroftwo v = fill (v - 1) + 1"
  by (simp add: nextpoweroftwo_def fill_def Let_def)

lemma bit_fill: "bit (fill v) i \<longleftrightarrow> (\<exists>j. i \<le> j \<and> bit v j)"
proof -
  have 0: "bit v i \<longleftrightarrow> (\<exists>j. i \<le> j \<and> j < i + 1 \<and> bit v j)" for i by (metis le_antisym less_Suc_eq_le Suc_eq_plus1 order_refl less_add_one)
  have 1: "bit (v OR drop_bit 1 v) i \<longleftrightarrow> (\<exists>j. i \<le> j \<and> j < i + 2 \<and> bit v j)" for i
    using fill_step [OF 0] by simp
  note 2 = fill_step [OF 1, simplified]
  note 3 = fill_step [OF 2, simplified]
  note 4 = fill_step [OF 3, simplified]
  note 5 = fill_step [OF 4, simplified]
  have "bit (fill v) i \<longleftrightarrow> (\<exists>j. i \<le> j \<and> j < i + 32 \<and> bit v j)"
    unfolding fill_def Let_def using 5 by simp
  moreover have "j < 32" if "bit v j" for j using bit_imp_le_length [OF that] by simp
  ultimately show ?thesis by fastforce
qed

lemma fill_mask:
  assumes "2 ^ k \<le> unat w" and "unat w < 2 ^ Suc k"
  shows "fill w = mask (Suc k)"
proof (rule bit_word_eqI)
  fix i assume i: "i < LENGTH(32)"
  have nat: "bit w j \<longleftrightarrow> odd (unat w div 2 ^ j)" for j
    by (simp add: bit_iff_odd [symmetric] bit_unsigned_iff)
  have "unat w div 2 ^ k = 1" using assms by (intro div_nat_eqI) simp_all
  then have "bit w k" using nat [of k] by simp
  moreover have "\<not> bit w j" if "k < j" for j
  proof -
    have "unat w < 2 ^ j" using assms(2) that by (meson Suc_leI less_le_trans one_le_numeral power_increasing)
    then show ?thesis using nat [of j] by simp
  qed
  ultimately have "(\<exists>j. i \<le> j \<and> bit w j) \<longleftrightarrow> i \<le> k" by (meson not_le order_trans order_refl le_cases)
  then show "bit (fill w) i \<longleftrightarrow> bit (mask (Suc k) :: uint32) i"
    using i by (simp add: bit_fill bit_mask_iff less_Suc_eq_le)
qed

lemma nextpoweroftwo_spec:
  assumes "1 \<le> unat v" and "unat v \<le> 2 ^ 31"
  shows "\<exists>e \<le> 31. nextpoweroftwo v = 2 ^ e \<and> unat v \<le> 2 ^ e \<and> (\<forall>e'. unat v \<le> 2 ^ e' \<longrightarrow> e \<le> e')"
proof (cases "unat v = 1")
  case True
  then have "v = 1" by (metis unat_1 word_unat_eq_iff)
  moreover have "nextpoweroftwo 1 = 1" by code_simp
  ultimately show ?thesis by (intro exI [of _ 0]) simp
next
  case False
  have "v \<noteq> 0" using assms(1) by auto
  then have w: "unat (v - 1) = unat v - 1" by (simp add: unat_minus_one)
  have "1 \<le> unat v - 1" using assms(1) False by linarith
  then obtain k where k: "2 ^ k \<le> unat v - 1" "unat v - 1 < 2 ^ (k + 1)"
    using ex_power_ivl1 [of 2 "unat v - 1"] by auto
  have "(2::nat) ^ k < 2 ^ 31" using k(1) assms by linarith
  then have k31: "k < 31" by (rule power_less_imp_less_exp [rotated]) simp
  have "nextpoweroftwo v = mask (Suc k) + 1"
    using fill_mask [of k "v - 1"] k w by (simp add: nextpoweroftwo_fill)
  also have "\<dots> = 2 ^ Suc k" by (simp add: mask_eq_exp_minus_1)
  finally have n: "nextpoweroftwo v = 2 ^ Suc k" .
  have "Suc k \<le> e'" if "unat v \<le> 2 ^ e'" for e'
  proof (rule ccontr)
    assume "\<not> Suc k \<le> e'"
    then have "(2::nat) ^ e' \<le> 2 ^ k" by simp
    then show False using that k(1) assms(1) by linarith
  qed
  then show ?thesis using n k(2) k31 by (intro exI [of _ "Suc k"]) simp
qed

text \<open>Above \<open>2 ^ 31\<close>, and for 0, it is 0.\<close>

lemma nextpoweroftwo_wraps:
  assumes "v = 0 \<or> 2 ^ 31 < unat v"
  shows "nextpoweroftwo v = 0"
proof (cases "v = 0")
  case True
  moreover have "nextpoweroftwo 0 = 0" by code_simp
  ultimately show ?thesis by simp
next
  case False
  have "unat (v - 1) = unat v - 1" using False by (simp add: unat_minus_one)
  moreover have "unat v < 2 ^ LENGTH(32)" by (rule unsigned_less)
  ultimately have "2 ^ 31 \<le> unat (v - 1)" "unat (v - 1) < 2 ^ Suc 31"
    using assms False by auto
  then have "fill (v - 1) = mask (Suc 31)" by (rule fill_mask)
  then show ?thesis by (simp add: nextpoweroftwo_fill mask_eq_exp_minus_1)
qed

text \<open>The size to shrink to.\<close>

lemma sint_small:
  fixes w :: uint32
  assumes "unat w < 2 ^ 31"
  shows "sint w = int (unat w)"
proof -
  have "int (unat w) < int (2 ^ 31)" using assms by (simp only: of_nat_less_iff)
  then have "uint w < 2 ^ 31" by simp
  then have "signed_take_bit 31 (uint w) = uint w"
    using order_trans [of "- 2147483648" 0 "uint w"] by (intro signed_take_bit_int_eq_self) auto
  then show ?thesis by (simp add: sint_uint)
qed

lemma unat_max: "unat (max v w) = max (unat v) (unat w)"
  by (simp add: max_def word_le_nat_alt)

lemma shrink_size:
  assumes "- (2 ^ 30) \<le> n" and "n \<le> 2 ^ 30"
  shows "\<exists>e. 5 \<le> e \<and> e \<le> 30 \<and> n \<le> 2 ^ e
     \<and> sint (ape_max (word_of_int APE_DEFAULT_EVENTS_SIZE) (nextpoweroftwo (word_of_int n))) = 2 ^ e"
proof (cases "1 \<le> n")
  case True
  let ?v = "word_of_int n :: uint32"
  have u: "unat ?v = nat n"
    using True assms(2) by (simp add: unsigned_of_int take_bit_int_eq_self)
  have b: "1 \<le> unat ?v" "unat ?v \<le> 2 ^ 30" using u True assms(2) by auto
  then obtain e where e: "nextpoweroftwo ?v = 2 ^ e" "unat ?v \<le> 2 ^ e" "\<forall>e'. unat ?v \<le> 2 ^ e' \<longrightarrow> e \<le> e'" "e \<le> 31"
    using nextpoweroftwo_spec [of ?v] by auto
  have e30: "e \<le> 30" using e(3) b(2) by blast
  have ne: "n \<le> 2 ^ e" using e(2) u True by (simp add: nat_le_iff)
  have "(2::nat) ^ e < 2 ^ 32" using e30 by (intro power_strict_increasing) auto
  moreover have "(2 ^ e :: uint32) = word_of_nat (2 ^ e)" by simp
  ultimately have ue: "unat (2 ^ e :: uint32) = 2 ^ e"
    by (simp only: unsigned_of_nat take_bit_eq_mod) simp
  let ?d = "max 5 e"
  have "(2::nat) ^ ?d = max (2 ^ 5) (2 ^ e)"
    using power_increasing [of 5 e "2::nat"] power_increasing [of e 5 "2::nat"] by (cases "5 \<le> e") auto
  then have um: "unat (max 32 (2 ^ e) :: uint32) = 2 ^ ?d" using ue by (simp add: unat_max)
  have "(2::nat) ^ ?d \<le> 2 ^ 30" using e30 by (intro power_increasing) auto
  then have "sint (max 32 (2 ^ e) :: uint32) = 2 ^ ?d" using sint_small [of "max 32 (2 ^ e)"] um by simp
  moreover have "n \<le> 2 ^ ?d" using ne by (rule order_trans) (simp add: power_increasing)
  ultimately show ?thesis using e(1) e30 by (intro exI [of _ ?d]) (simp add: APE_DEFAULT_EVENTS_SIZE_def)
next
  case False
  have "nextpoweroftwo (word_of_int n :: uint32) = 0"
  proof (rule nextpoweroftwo_wraps)
    have "unat (word_of_int n :: uint32) = nat (n + 2 ^ 32)" if "n < 0"
    proof -
      have "n mod 2 ^ 32 = (n + 2 ^ 32) mod 2 ^ 32" by simp
      also have "\<dots> = n + 2 ^ 32" using that assms(1) by (intro mod_pos_pos_trivial) auto
      finally show ?thesis by (simp add: unsigned_of_int take_bit_eq_mod)
    qed
    then show "(word_of_int n :: uint32) = 0 \<or> 2 ^ 31 < unat (word_of_int n :: uint32)"
      using False assms(1) by (cases "n = 0") auto
  qed
  then show ?thesis using False by (intro exI [of _ 5]) (simp add: APE_DEFAULT_EVENTS_SIZE_def)
qed

section \<open>Sequences of calls\<close>

text \<open>What a descriptor is watched for: its address, and the directions.\<close>

type_synonym watch = "ptr \<times> bool \<times> bool"

definition wants :: "ptr \<Rightarrow> uint32 \<Rightarrow> watch" where
  "wants evd bits = (evd, has_flag bits EVENT_READ, has_flag bits EVENT_WRITE)"

definition within :: "uint32 \<Rightarrow> watch \<Rightarrow> bool" where
  "within b w \<longleftrightarrow> (has_flag b EVENT_READ \<longrightarrow> fst (snd w)) \<and> (has_flag b EVENT_WRITE \<longrightarrow> snd (snd w))"

datatype ev_op = Ev_add ptr int uint32 | Ev_mod ptr int uint32 | Ev_del int | Ev_shrink | Ev_poll int

fun ev_do :: "ev_op \<Rightarrow> 'b fdevent \<Rightarrow> (int \<times> 'b fdevent) option" where
  "ev_do (Ev_add evd fd bits) ev = events_add evd fd bits ev"
| "ev_do (Ev_mod evd fd bits) ev = events_mod evd fd bits ev"
| "ev_do (Ev_del fd) ev = events_del fd ev"
| "ev_do Ev_shrink ev = map_option (\<lambda>ev. (0, ev)) (events_shrink ev)"
| "ev_do (Ev_poll t) ev = events_poll t ev"

text \<open>
  The table the caller keeps in mind: what each descriptor is watched for, from the calls and their results alone.
  \<open>remod\<close> is what a descriptor is watched for after it was modified, \<open>dels\<close> whether there is a
  call to delete it; where there is none, it is watched until it is closed.
\<close>

type_synonym watches = "int \<Rightarrow> watch option"

fun ev_table :: "(watch \<Rightarrow> ptr \<Rightarrow> uint32 \<Rightarrow> watch) \<Rightarrow> bool \<Rightarrow> ev_op \<Rightarrow> int \<Rightarrow> watches \<Rightarrow> watches" where
  "ev_table remod dels (Ev_add evd fd bits) r W = W(fd := (if r = 1 then Some (wants evd bits) else None))"
| "ev_table remod dels (Ev_mod evd fd bits) r W =
     (case W fd of Some w \<Rightarrow> if r = 1 then W(fd \<mapsto> remod w evd bits) else W | None \<Rightarrow> W)"
| "ev_table remod dels (Ev_del fd) r W = (if dels then W(fd := None) else W)"
| "ev_table remod dels x r W = W"

text \<open>What the caller has to respect: a descriptor is added once, and no more than a billion.\<close>

fun ev_allowed :: "(int \<Rightarrow> bool) \<Rightarrow> watches \<Rightarrow> ev_op \<Rightarrow> 'b fdevent \<Rightarrow> bool" where
  "ev_allowed fd_ok W (Ev_add evd fd bits) ev \<longleftrightarrow> fd_ok fd \<and> W fd = None \<and> nfd ev < 2 ^ 30"
| "ev_allowed fd_ok W (Ev_mod evd fd bits) ev \<longleftrightarrow> fd_ok fd \<and> W fd \<noteq> None"
| "ev_allowed fd_ok W (Ev_del fd) ev \<longleftrightarrow> fd_ok fd \<and> - (2 ^ 30) < nfd ev"
| "ev_allowed fd_ok W Ev_shrink ev \<longleftrightarrow> True"
| "ev_allowed fd_ok W (Ev_poll t) ev \<longleftrightarrow> True"

text \<open>Sequences of calls, with the reading of reported events and the closing of descriptors in between:
  \<open>closes fd\<close> is what happens to the backend when \<open>fd\<close> is closed.\<close>

inductive ev_reach ::
  "(watch \<Rightarrow> ptr \<Rightarrow> uint32 \<Rightarrow> watch) \<Rightarrow> bool \<Rightarrow> (int \<Rightarrow> bool) \<Rightarrow> (int \<Rightarrow> 'b evmem \<Rightarrow> 'b evmem \<Rightarrow> bool)
    \<Rightarrow> 'b fdevent \<Rightarrow> 'b fdevent \<Rightarrow> watches \<Rightarrow> bool"
  for remod dels fd_ok closes ev0 where
  reach_init: "ev_reach remod dels fd_ok closes ev0 ev0 (\<lambda>fd. None)"
| reach_step: "ev_reach remod dels fd_ok closes ev0 ev W \<Longrightarrow> ev_allowed fd_ok W x ev \<Longrightarrow> ev_do x ev = Some (r, ev')
    \<Longrightarrow> ev_reach remod dels fd_ok closes ev0 ev' (ev_table remod dels x r W)"
| reach_read: "ev_reach remod dels fd_ok closes ev0 ev W \<Longrightarrow> events_revent i ev = Some (b, ev')
    \<Longrightarrow> ev_reach remod dels fd_ok closes ev0 ev' W"
| reach_close: "ev_reach remod dels fd_ok closes ev0 ev W \<Longrightarrow> closes fd (evm ev) m
    \<Longrightarrow> ev_reach remod dels fd_ok closes ev0 (ev\<lparr>evm := m\<rparr>) (W(fd := None))"

text \<open>Reading the reported events one after the other, as the event loop does.\<close>

fun read_events :: "nat list \<Rightarrow> 'b fdevent \<Rightarrow> ((ptr \<times> uint32) list \<times> 'b fdevent) option" where
  "read_events [] ev = Some ([], ev)"
| "read_events (i # is) ev = do {
     p \<leftarrow> events_get_current_evd i ev;
     (b, ev1) \<leftarrow> events_revent i ev;
     (rs, ev2) \<leftarrow> read_events is ev1;
     Some ((p, b) # rs, ev2) }"

section \<open>The contract of a backend\<close>

text \<open>\<open>reports m i\<close> is what is at index \<open>i\<close> of the current batch, and reading it leaves
  alone the entries \<open>apart\<close> from it; \<open>grows\<close> says whether the
  array gets the size asked for, or keeps the one it has.\<close>

locale event_backend =
  fixes ops :: "'b fd_ops"
    and inv :: "'b evmem \<Rightarrow> bool"
    and watched :: "'b evmem \<Rightarrow> int \<Rightarrow> watch option"
    and fd_ok :: "int \<Rightarrow> bool"
    and reports :: "'b evmem \<Rightarrow> nat \<Rightarrow> (ptr \<times> uint32) option"
    and apart :: "'b evmem \<Rightarrow> nat \<Rightarrow> nat \<Rightarrow> bool"
    and grows :: bool
    and remod :: "watch \<Rightarrow> ptr \<Rightarrow> uint32 \<Rightarrow> watch"
    and dels :: bool
    and closes :: "int \<Rightarrow> 'b evmem \<Rightarrow> 'b evmem \<Rightarrow> bool"
  assumes resize: "inv m \<Longrightarrow> 32 \<le> n \<Longrightarrow> \<exists>f m'. op_setsize ops = Some f \<and> f n (m\<lparr>basemem := n\<rparr>) = Some m' \<and> inv m'
      \<and> watched m' = watched m \<and> basemem m' = (if grows then n else basemem m)"
    and add: "inv m \<Longrightarrow> fd_ok fd \<Longrightarrow> watched m fd = None \<Longrightarrow> \<exists>f r m'. op_add ops = Some f
      \<and> f evd fd bits m = Some (r, m') \<and> inv m' \<and> basemem m' = basemem m \<and> (r = 1 \<or> r = - 1)
      \<and> watched m' = (watched m)(fd := (if r = 1 then Some (wants evd bits) else None))"
    and modify: "inv m \<Longrightarrow> fd_ok fd \<Longrightarrow> watched m fd = Some w \<Longrightarrow> \<exists>f r m'. op_mod ops = Some f
      \<and> f evd fd bits m = Some (r, m') \<and> inv m' \<and> basemem m' = basemem m
      \<and> watched m' = (if r = 1 then (watched m)(fd \<mapsto> remod w evd bits) else watched m)"
    and deletes: "dels \<longleftrightarrow> op_del ops \<noteq> None"
    and close: "inv m \<Longrightarrow> closes fd m m' \<Longrightarrow> inv m' \<and> basemem m' = basemem m \<and> watched m' = (watched m)(fd := None)"
    and remove: "inv m \<Longrightarrow> fd_ok fd \<Longrightarrow> op_del ops = Some f \<Longrightarrow> \<exists>r m'. f fd m = Some (r, m') \<and> inv m' \<and> basemem m' = basemem m
      \<and> watched m' = (watched m)(fd := None)"
    and poll: "inv m \<Longrightarrow> 0 < basemem m \<Longrightarrow> \<exists>f n m'. op_poll ops = Some f \<and> f t m = Some (n, m') \<and> inv m'
      \<and> basemem m' = basemem m \<and> watched m' = watched m
      \<and> (n = - 1 \<or> 0 \<le> n \<and> (\<forall>i < nat n. \<exists>p b fd w. reports m' i = Some (p, b) \<and> watched m' fd = Some w
            \<and> fst w = p \<and> within b w)
         \<and> (\<forall>i < nat n. \<forall>j < nat n. i \<noteq> j \<longrightarrow> apart m' i j))"
    and read: "inv m \<Longrightarrow> reports m i = Some (p, b) \<Longrightarrow> \<exists>f g m'. op_get_current_evd ops = Some f \<and> f i m = Some p
      \<and> op_revent ops = Some g \<and> g i m = Some (b, m') \<and> inv m' \<and> basemem m' = basemem m \<and> watched m' = watched m
      \<and> apart m' = apart m \<and> (\<forall>j. apart m i j \<longrightarrow> reports m' j = reports m j)"
    and readable: "inv m \<Longrightarrow> op_revent ops = Some g \<Longrightarrow> g i m = Some (b, m') \<Longrightarrow> reports m i \<noteq> None"
begin

text \<open>The invariant over \<open>ape_events.c\<close>: the size is a power of two, and one that grows has room
  for all descriptors.\<close>

definition ev_ok :: "'b fdevent \<Rightarrow> bool" where
  "ev_ok ev \<longleftrightarrow> fops ev = ops \<and> inv (evm ev) \<and> (\<exists>e. 5 \<le> e \<and> e \<le> 30 \<and> basemem (evm ev) = 2 ^ e)
     \<and> - (2 ^ 30) \<le> nfd ev \<and> nfd ev \<le> 2 ^ 30"

definition ev_inv :: "'b fdevent \<Rightarrow> bool" where
  "ev_inv ev \<longleftrightarrow> ev_ok ev \<and> (grows \<longrightarrow> nfd ev \<le> basemem (evm ev))"

lemmas inv_defs = ev_ok_def ev_inv_def

lemma setsize_inv:
  assumes "ev_ok ev" and "5 \<le> e" and "e \<le> 30" and "grows \<longrightarrow> nfd ev \<le> 2 ^ e"
  shows "\<exists>ev'. events_setsize ev (2 ^ e) = Some ev' \<and> ev_inv ev' \<and> watched (evm ev') = watched (evm ev) \<and> nfd ev' = nfd ev"
proof -
  have "(2::int) ^ 5 \<le> 2 ^ e" using assms(2) by (rule power_increasing) simp
  then have "32 \<le> (2::int) ^ e" by simp
  then obtain f m' where "op_setsize ops = Some f" "f (2 ^ e) ((evm ev)\<lparr>basemem := 2 ^ e\<rparr>) = Some m'" "inv m'"
    "watched m' = watched (evm ev)" "basemem m' = (if grows then 2 ^ e else basemem (evm ev))"
    using resize [of "evm ev" "2 ^ e"] assms(1) unfolding ev_ok_def by blast
  then show ?thesis using assms by (auto simp: events_setsize_def inv_defs)
qed

lemma add_inv:
  assumes i: "ev_inv ev" and a: "fd_ok fd" "watched (evm ev) fd = None" "nfd ev < 2 ^ 30"
  shows "\<exists>r ev'. events_add evd fd bits ev = Some (r, ev') \<and> ev_inv ev' \<and> nfd ev' = nfd ev + 1 \<and> (r = 1 \<or> r = - 1)
     \<and> watched (evm ev') = (watched (evm ev))(fd := (if r = 1 then Some (wants evd bits) else None))"
proof -
  let ?ev = "ev\<lparr>nfd := nfd ev + 1\<rparr>"
  have i': "ev_ok ?ev" using i a(3) by (simp add: inv_defs)
  obtain e where e: "5 \<le> e" "e \<le> 30" "basemem (evm ev) = 2 ^ e" using i by (auto simp: inv_defs)
  obtain ev1 where ev1: "(if nfd ?ev > basemem (evm ?ev) then events_setsize ?ev (c_int (push_bit 1 (basemem (evm ?ev))))
             else Some ?ev) = Some ev1" "ev_inv ev1" "watched (evm ev1) = watched (evm ev)" "nfd ev1 = nfd ev + 1"
  proof (cases "nfd ?ev > basemem (evm ?ev)")
    case True
    then have "(2::int) ^ e < 2 ^ 30" using e(3) a(3) by simp
    then have e30: "e < 30" by (rule power_less_imp_less_exp [rotated]) simp
    then have "(2::int) ^ Suc e \<le> 2 ^ 30" by (intro power_increasing) auto
    then have "c_int (push_bit 1 (basemem (evm ?ev))) = 2 ^ Suc e"
      using c_int_id [of "2 ^ Suc e"] order_trans [of "- 1073741824" 0 "(2::int) ^ e"] e(3)
      by (simp add: push_bit_eq_mult mult.commute)
    moreover have "grows \<longrightarrow> nfd ?ev \<le> 2 ^ Suc e"
    proof
      assume grows
      then have "nfd ev \<le> 2 ^ e" using i e(3) unfolding ev_inv_def by auto
      then show "nfd ?ev \<le> 2 ^ Suc e" using power_increasing [OF e(1), of "2::int"] by simp
    qed
    ultimately show ?thesis using that setsize_inv [OF i', of "Suc e"] e(1) e30 True by auto
  qed (use that i' in \<open>simp add: ev_inv_def\<close>)
  have "inv (evm ev1)" "fops ev1 = ops" using ev1(2) by (simp_all add: inv_defs)
  then obtain f r m' where f: "op_add ops = Some f" "f evd fd bits (evm ev1) = Some (r, m')" "inv m'"
    "basemem m' = basemem (evm ev1)" "r = 1 \<or> r = - 1"
    "watched m' = (watched (evm ev1))(fd := (if r = 1 then Some (wants evd bits) else None))"
    using add [of "evm ev1" fd evd bits] a(1,2) ev1(3) by auto
  let ?ev' = "ev1\<lparr>evm := m'\<rparr>"
  have "events_add evd fd bits ev = Some (if r = - 1 then - 1 else 1, ?ev')"
    unfolding events_add_def using ev1(1) f(1,2) \<open>fops ev1 = ops\<close> by (simp add: Let_def)
  moreover have "ev_inv ?ev'" using ev1(2) f(3,4) by (simp add: inv_defs)
  ultimately show ?thesis using ev1(3,4) f(5,6) by auto
qed

lemma mod_inv:
  assumes i: "ev_inv ev" and a: "fd_ok fd" and w: "watched (evm ev) fd = Some w"
  shows "\<exists>r ev'. events_mod evd fd bits ev = Some (r, ev') \<and> ev_inv ev' \<and> nfd ev' = nfd ev
     \<and> watched (evm ev') = (if r = 1 then (watched (evm ev))(fd \<mapsto> remod w evd bits) else watched (evm ev))"
proof -
  have "inv (evm ev)" "fops ev = ops" using i by (simp_all add: inv_defs)
  then obtain f r m' where "op_mod ops = Some f" "f evd fd bits (evm ev) = Some (r, m')" "inv m'"
    "basemem m' = basemem (evm ev)"
    "watched m' = (if r = 1 then (watched (evm ev))(fd \<mapsto> remod w evd bits) else watched (evm ev))"
    using modify [OF _ a w, of evd bits] by blast
  then show ?thesis using i by (auto simp: events_mod_def inv_defs)
qed

lemma del_inv:
  assumes i: "ev_inv ev" and a: "fd_ok fd" "- (2 ^ 30) < nfd ev"
  shows "\<exists>r ev'. events_del fd ev = Some (r, ev') \<and> ev_inv ev' \<and> nfd ev' = nfd ev - 1
     \<and> watched (evm ev') = (if dels then (watched (evm ev))(fd := None) else watched (evm ev))"
proof (cases "op_del ops")
  case None
  then show ?thesis using i a deletes by (auto simp: events_del_def inv_defs)
next
  case (Some f)
  have "inv (evm ev)" "fops ev = ops" using i by (simp_all add: inv_defs)
  then obtain r m' where "f fd (evm ev) = Some (r, m')" "inv m'" "basemem m' = basemem (evm ev)"
    "watched m' = (watched (evm ev))(fd := None)" using remove [OF _ a(1) Some] by blast
  then show ?thesis using i a Some deletes by (auto simp: events_del_def inv_defs)
qed

lemma shrink_inv:
  assumes i: "ev_inv ev"
  shows "\<exists>ev'. events_shrink ev = Some ev' \<and> ev_inv ev' \<and> nfd ev' = nfd ev \<and> watched (evm ev') = watched (evm ev)"
proof -
  have "- (2 ^ 30) \<le> nfd ev" "nfd ev \<le> 2 ^ 30" using i by (simp_all add: inv_defs)
  then obtain e where e: "5 \<le> e" "e \<le> 30" "nfd ev \<le> 2 ^ e"
    "sint (ape_max (word_of_int APE_DEFAULT_EVENTS_SIZE) (nextpoweroftwo (word_of_int (nfd ev)))) = 2 ^ e"
    using shrink_size by blast
  have "ev_ok ev" using i by (simp add: ev_inv_def)
  from setsize_inv [OF this e(1,2)] e(3) show ?thesis using i e(4)
    by (auto simp only: events_shrink_def Let_def split: if_splits)
qed

lemma poll_inv:
  assumes i: "ev_inv ev"
  shows "\<exists>n ev'. events_poll t ev = Some (n, ev') \<and> ev_inv ev' \<and> nfd ev' = nfd ev \<and> watched (evm ev') = watched (evm ev)
     \<and> (n = - 1 \<or> 0 \<le> n \<and> (\<forall>i < nat n. \<exists>p b fd w. reports (evm ev') i = Some (p, b) \<and> watched (evm ev') fd = Some w
            \<and> fst w = p \<and> within b w) \<and> (\<forall>i < nat n. \<forall>j < nat n. i \<noteq> j \<longrightarrow> apart (evm ev') i j))"
proof -
  have "inv (evm ev)" "0 < basemem (evm ev)" "fops ev = ops" using i by (auto simp: inv_defs)
  then obtain f n m' where "op_poll ops = Some f" "f t (evm ev) = Some (n, m')" "inv m'" "basemem m' = basemem (evm ev)"
    "watched m' = watched (evm ev)" "n = - 1 \<or> 0 \<le> n \<and> (\<forall>i < nat n. \<exists>p b fd w. reports m' i = Some (p, b) \<and> watched m' fd = Some w
            \<and> fst w = p \<and> within b w) \<and> (\<forall>i < nat n. \<forall>j < nat n. i \<noteq> j \<longrightarrow> apart m' i j)" using poll [of "evm ev" t] by blast
  then show ?thesis using i
    by (intro exI [of _ n] exI [of _ "ev\<lparr>evm := m'\<rparr>"]) (simp add: events_poll_def inv_defs)
qed

text \<open>Reading the batch.\<close>

lemma read_inv:
  assumes "ev_inv ev" and "distinct is" and "\<forall>i \<in> set is. \<forall>j \<in> set is. i \<noteq> j \<longrightarrow> apart (evm ev) i j"
    and "\<forall>i \<in> set is. \<exists>p b fd w. reports (evm ev) i = Some (p, b) \<and> watched (evm ev) fd = Some w \<and> fst w = p \<and> within b w"
  shows "\<exists>rs ev'. read_events is ev = Some (rs, ev') \<and> ev_inv ev' \<and> nfd ev' = nfd ev \<and> watched (evm ev') = watched (evm ev)
     \<and> length rs = length is \<and> (\<forall>(p, b) \<in> set rs. \<exists>fd w. watched (evm ev) fd = Some w \<and> fst w = p \<and> within b w)"
  using assms
proof (induction "is" arbitrary: ev)
  case Nil
  then show ?case by simp
next
  case (Cons i "is")
  obtain p b fd w where r: "reports (evm ev) i = Some (p, b)" and w: "watched (evm ev) fd = Some w" "fst w = p" "within b w"
    using Cons.prems(4) by auto
  have "inv (evm ev)" "fops ev = ops" using Cons.prems(1) by (simp_all add: inv_defs)
  then obtain f g m' where m: "op_get_current_evd ops = Some f" "f i (evm ev) = Some p"
      "op_revent ops = Some g" "g i (evm ev) = Some (b, m')" "inv m'" "basemem m' = basemem (evm ev)"
      "watched m' = watched (evm ev)" "apart m' = apart (evm ev)"
      "\<forall>j. apart (evm ev) i j \<longrightarrow> reports m' j = reports (evm ev) j"
    using read [OF _ r] by blast
  let ?ev = "ev\<lparr>evm := m'\<rparr>"
  have i1: "ev_inv ?ev" using Cons.prems(1) m(5,6) by (simp add: inv_defs)
  have rest: "\<forall>j \<in> set is. \<exists>p b fd w. reports (evm ?ev) j = Some (p, b) \<and> watched (evm ?ev) fd = Some w \<and> fst w = p \<and> within b w"
  proof
    fix j assume j: "j \<in> set is"
    then have "j \<noteq> i" using Cons.prems(2) by auto
    then have "apart (evm ev) i j" using Cons.prems(3) j by simp
    then show "\<exists>p b fd w. reports (evm ?ev) j = Some (p, b) \<and> watched (evm ?ev) fd = Some w \<and> fst w = p \<and> within b w"
      using Cons.prems(4) j m(7,9) by auto
  qed
  obtain rs ev' where rs: "read_events is ?ev = Some (rs, ev')" "ev_inv ev'" "nfd ev' = nfd ?ev"
    "watched (evm ev') = watched (evm ?ev)" "length rs = length is"
    "\<forall>(p, b) \<in> set rs. \<exists>fd w. watched (evm ?ev) fd = Some w \<and> fst w = p \<and> within b w"
    using Cons.IH [OF i1 _ _ rest] Cons.prems(2,3) m(8) by auto
  have "read_events (i # is) ev = Some ((p, b) # rs, ev')"
    using rs(1) m(1-4) \<open>fops ev = ops\<close> by (simp add: events_get_current_evd_def events_revent_def)
  moreover have "\<forall>(p', b') \<in> set ((p, b) # rs). \<exists>fd w. watched (evm ev) fd = Some w \<and> fst w = p' \<and> within b' w"
    using rs(6) w m(7) by (auto simp del: split_paired_Ex)
  ultimately show ?case using rs(2-5) m(7) by simp
qed

text \<open>Every allowed call returns, keeps the invariant, and does to the watched descriptors what it does to the
  table of the caller.\<close>

lemma do_inv:
  assumes i: "ev_inv ev" and a: "ev_allowed fd_ok (watched (evm ev)) x ev"
  shows "\<exists>r ev'. ev_do x ev = Some (r, ev') \<and> ev_inv ev' \<and> watched (evm ev') = ev_table remod dels x r (watched (evm ev))"
proof (cases x)
  case (Ev_add evd fd bits)
  then have "fd_ok fd" "watched (evm ev) fd = None" "nfd ev < 2 ^ 30" using a by simp_all
  from add_inv [OF i this, of evd bits] show ?thesis unfolding Ev_add ev_do.simps ev_table.simps by blast
next
  case (Ev_mod evd fd bits)
  then obtain w where "fd_ok fd" "watched (evm ev) fd = Some w" using a by auto
  from mod_inv [OF i this, of evd bits] show ?thesis using Ev_mod \<open>watched (evm ev) fd = Some w\<close> by auto
next
  case (Ev_del fd)
  then show ?thesis using del_inv [OF i, of fd] a by auto
next
  case Ev_shrink
  then show ?thesis using shrink_inv [OF i] by auto
next
  case (Ev_poll t)
  then show ?thesis using poll_inv [OF i, of t] by auto
qed

lemma revent_inv:
  assumes i: "ev_inv ev" and r: "events_revent n ev = Some (b, ev')"
  shows "ev_inv ev' \<and> watched (evm ev') = watched (evm ev)"
proof -
  have iv: "inv (evm ev)" "fops ev = ops" using i by (simp_all add: inv_defs)
  obtain g m where g: "op_revent ops = Some g" "g n (evm ev) = Some (b, m)" "ev' = ev\<lparr>evm := m\<rparr>"
    using r iv(2) by (auto simp: events_revent_def split: bind_splits)
  obtain p c where "reports (evm ev) n = Some (p, c)" using readable [OF iv(1) g(1,2)] by auto
  from read [OF iv(1) this] g show ?thesis using i by (auto simp: inv_defs)
qed

lemma reach_inv:
  "ev_reach remod dels fd_ok closes ev0 ev W \<Longrightarrow> ev_inv ev0 \<Longrightarrow> watched (evm ev0) = (\<lambda>fd. None)
    \<Longrightarrow> ev_inv ev \<and> watched (evm ev) = W"
proof (induction rule: ev_reach.induct)
  case (reach_step ev W x r ev')
  then show ?case using do_inv [of ev x] by auto
next
  case (reach_read ev W i b ev')
  then show ?case using revent_inv [of ev] by metis
next
  case (reach_close ev W fd m)
  then have "inv (evm ev)" by (simp add: inv_defs)
  from close [OF this reach_close.hyps(2)] show ?case using reach_close by (simp add: inv_defs)
qed simp

lemma reach_poll:
  assumes "ev_inv ev0" and "watched (evm ev0) = (\<lambda>fd. None)" and "ev_reach remod dels fd_ok closes ev0 ev W"
  shows "watched (evm ev) = W \<and> (\<forall>x. ev_allowed fd_ok W x ev \<longrightarrow> ev_do x ev \<noteq> None)
     \<and> (\<exists>n ev'. events_poll t ev = Some (n, ev') \<and> (n = - 1 \<or> 0 \<le> n \<and> (\<exists>rs ev2. read_events [0..<nat n] ev' = Some (rs, ev2)
      \<and> length rs = nat n \<and> (\<forall>(p, b) \<in> set rs. \<exists>fd w. W fd = Some w \<and> fst w = p \<and> within b w))))"
proof -
  have i: "ev_inv ev" and W: "watched (evm ev) = W" using reach_inv [OF assms(3,1,2)] by blast+
  obtain n ev' where p: "events_poll t ev = Some (n, ev')" "ev_inv ev'" "watched (evm ev') = watched (evm ev)"
    "n = - 1 \<or> 0 \<le> n \<and> (\<forall>i < nat n. \<exists>p b fd w. reports (evm ev') i = Some (p, b) \<and> watched (evm ev') fd = Some w
            \<and> fst w = p \<and> within b w) \<and> (\<forall>i < nat n. \<forall>j < nat n. i \<noteq> j \<longrightarrow> apart (evm ev') i j)" using poll_inv [OF i, of t] by blast
  have "\<exists>rs ev2. read_events [0..<nat n] ev' = Some (rs, ev2)
      \<and> length rs = nat n \<and> (\<forall>(p, b) \<in> set rs. \<exists>fd w. W fd = Some w \<and> fst w = p \<and> within b w)" if "n \<noteq> - 1"
  proof -
    have "0 \<le> n" "\<forall>i \<in> set [0..<nat n]. \<exists>p b fd w. reports (evm ev') i = Some (p, b) \<and> watched (evm ev') fd = Some w
            \<and> fst w = p \<and> within b w" "\<forall>i \<in> set [0..<nat n]. \<forall>j \<in> set [0..<nat n]. i \<noteq> j \<longrightarrow> apart (evm ev') i j"
      using p(4) that by simp_all
    then show ?thesis using read_inv [OF p(2), of "[0..<nat n]"] p(3) W by (auto; blast)
  qed
  moreover have "ev_do x ev \<noteq> None" if "ev_allowed fd_ok W x ev" for x using do_inv [OF i, of x] that W by auto
  ultimately show ?thesis using p(1,4) W by auto
qed

end

section \<open>epoll keeps the contract\<close>

text \<open>What is documented of the kernel: \<open>interest k ep fd\<close> is the entry of \<open>fd\<close> in the
  interest list of the epoll instance \<open>ep\<close>.\<close>

locale epoll_kernel =
  fixes sys :: "'k epoll_sys" and interest :: "'k \<Rightarrow> int \<Rightarrow> int \<Rightarrow> epoll_event option"
  assumes create: "sys_epoll_create sys k = (ep, k') \<Longrightarrow> ep \<noteq> - 1 \<Longrightarrow> interest k' ep = Map.empty"
    and ctl_add: "interest k ep fd = None \<Longrightarrow> sys_epoll_ctl sys ep EPOLL_CTL_ADD fd e k = (r, k') \<Longrightarrow>
      r = 0 \<and> interest k' ep = (interest k ep)(fd \<mapsto> e) \<or> r = - 1 \<and> interest k' ep = interest k ep"
    and ctl_mod: "interest k ep fd \<noteq> None \<Longrightarrow> sys_epoll_ctl sys ep EPOLL_CTL_MOD fd e k = (r, k') \<Longrightarrow>
      r = 0 \<and> interest k' ep = (interest k ep)(fd \<mapsto> e) \<or> r = - 1 \<and> interest k' ep = interest k ep"
    and wait: "0 < n \<Longrightarrow> sys_epoll_wait sys ep n t k = (r, es, k') \<Longrightarrow> interest k' ep = interest k ep
      \<and> (r = - 1 \<or> r = int (length es) \<and> r \<le> n \<and> (\<forall>e \<in> set es. \<exists>fd e0. interest k ep fd = Some e0 \<and> ee_ptr e = ee_ptr e0
          \<and> (\<forall>b \<in> {EPOLLIN, EPOLLOUT}. has_flag (ee_events e) b \<longrightarrow> has_flag (ee_events e0) b)))"

definition epoll_watched :: "('k \<Rightarrow> int \<Rightarrow> int \<Rightarrow> epoll_event option) \<Rightarrow> 'k epoll_mem \<Rightarrow> int \<Rightarrow> watch option" where
  "epoll_watched interest m fd =
     map_option (\<lambda>e. (ee_ptr e, has_flag (ee_events e) EPOLLIN, has_flag (ee_events e) EPOLLOUT))
       (interest (ep_kernel (backend m)) (epoll_fd (backend m)) fd)"

text \<open>What else may happen to the kernel: a descriptor is closed, which takes it off the list.\<close>

definition epoll_closes :: "('k \<Rightarrow> int \<Rightarrow> int \<Rightarrow> epoll_event option) \<Rightarrow> int \<Rightarrow> 'k epoll_mem \<Rightarrow> 'k epoll_mem \<Rightarrow> bool" where
  "epoll_closes interest fd m m' \<longleftrightarrow> (\<exists>k. m' = m\<lparr>backend := (backend m)\<lparr>ep_kernel := k\<rparr>\<rparr>
     \<and> interest k (epoll_fd (backend m)) = (interest (ep_kernel (backend m)) (epoll_fd (backend m)))(fd := None))"

definition epoll_inv :: "'k epoll_mem \<Rightarrow> bool" where
  "epoll_inv m \<longleftrightarrow> (\<exists>es. ep_events (backend m) = Some es \<and> int (length es) = basemem m)"

definition epoll_reports :: "'k epoll_mem \<Rightarrow> nat \<Rightarrow> (ptr \<times> uint32) option" where
  "epoll_reports m i = map_option (\<lambda>e. (ee_ptr e,
     (if has_flag (ee_events e) EPOLLIN then EVENT_READ else 0)
       OR (if has_flag (ee_events e) EPOLLOUT then EVENT_WRITE else 0))) (array_at (ep_events (backend m)) i)"

lemmas event_consts = has_flag_def EVENT_READ_def EVENT_WRITE_def EVENT_LEVEL_def
  EPOLLIN_def EPOLLPRI_def EPOLLOUT_def EPOLLET_def

lemma flag_bits:
  "has_flag w EVENT_READ \<longleftrightarrow> bit w 0" "has_flag w EVENT_WRITE \<longleftrightarrow> bit w 1" "has_flag w EVENT_LEVEL \<longleftrightarrow> bit w 2"
  "has_flag w EPOLLIN \<longleftrightarrow> bit w 0" "has_flag w EPOLLOUT \<longleftrightarrow> bit w 2"
  using and_exp_eq_0_iff_not_bit [of w 0] and_exp_eq_0_iff_not_bit [of w 1] and_exp_eq_0_iff_not_bit [of w 2]
  by (simp_all add: event_consts)

lemma epoll_bits_flags:
  "has_flag (epoll_bits bits) EPOLLIN \<longleftrightarrow> has_flag bits EVENT_READ"
  "has_flag (epoll_bits bits) EPOLLOUT \<longleftrightarrow> has_flag bits EVENT_WRITE"
  by (simp_all add: flag_bits(1-3) epoll_bits_def Let_def EPOLLIN_def EPOLLOUT_def EPOLLET_def EPOLLPRI_def)
    (simp_all add: has_flag_def)

lemma watch_of_bits:
  "map_option (\<lambda>e. (ee_ptr e, has_flag (ee_events e) EPOLLIN, has_flag (ee_events e) EPOLLOUT))
     (Some \<lparr>ee_events = epoll_bits bits, ee_ptr = evd\<rparr>) = Some (wants evd bits)"
  by (simp add: wants_def epoll_bits_flags)

lemma array_fill_Some:
  "length new \<le> length es \<Longrightarrow> array_fill new (Some es) = Some (new @ drop (length new) es)"
  by (simp add: array_fill_def)

lemma or_flags:
  "has_flag ((if r then EVENT_READ else 0) OR (if w then EVENT_WRITE else 0)) EVENT_READ = r"
  "has_flag ((if r then EVENT_READ else 0) OR (if w then EVENT_WRITE else 0)) EVENT_WRITE = w"
  by (simp_all add: event_consts)

sublocale epoll_kernel \<subseteq> epoll: event_backend "epoll_ops sys" epoll_inv "epoll_watched interest" "\<lambda>fd. True"
    epoll_reports "\<lambda>m i j. i \<noteq> j" True "\<lambda>w. wants" False "epoll_closes interest"
proof
  fix m :: "'k epoll_mem" and n :: int assume "epoll_inv m" "32 \<le> n"
  then show "\<exists>f m'. op_setsize (epoll_ops sys) = Some f \<and> f n (m\<lparr>basemem := n\<rparr>) = Some m' \<and> epoll_inv m'
      \<and> epoll_watched interest m' = epoll_watched interest m \<and> basemem m' = (if True then n else basemem m)"
    by (auto simp: epoll_ops_def event_epoll_setsize_def epoll_inv_def array_resize_def on_dev_def epoll_watched_def fun_eq_iff)
next
  fix m :: "'k epoll_mem" and fd evd bits
  let ?d = "backend m" and ?e = "\<lparr>ee_events = epoll_bits bits, ee_ptr = evd\<rparr>"
  assume i: "epoll_inv m" and w: "epoll_watched interest m fd = None"
  obtain r k' where c: "sys_epoll_ctl sys (epoll_fd ?d) EPOLL_CTL_ADD fd ?e (ep_kernel ?d) = (r, k')" by fastforce
  have a: "r = 0 \<and> interest k' (epoll_fd ?d) = (interest (ep_kernel ?d) (epoll_fd ?d))(fd \<mapsto> ?e)
      \<or> r = - 1 \<and> interest k' (epoll_fd ?d) = interest (ep_kernel ?d) (epoll_fd ?d)"
    using ctl_add [OF _ c] w by (simp add: epoll_watched_def)
  let ?m = "m\<lparr>backend := ?d\<lparr>ep_kernel := k'\<rparr>\<rparr>"
  have "epoll_watched interest ?m = (epoll_watched interest m)(fd := (if r = 0 then Some (wants evd bits) else None))"
    using a w watch_of_bits [of bits evd] by (auto simp: epoll_watched_def fun_eq_iff)
  then show "\<exists>f r m'. op_add (epoll_ops sys) = Some f \<and> f evd fd bits m = Some (r, m') \<and> epoll_inv m'
      \<and> basemem m' = basemem m \<and> (r = 1 \<or> r = - 1)
      \<and> epoll_watched interest m' = (epoll_watched interest m)(fd := (if r = 1 then Some (wants evd bits) else None))"
    using i c a by (intro exI [of _ "event_epoll_add sys"] exI [of _ "if r = - 1 then - 1 else 1"] exI [of _ ?m])
      (auto simp: epoll_ops_def event_epoll_add_def epoll_inv_def)
next
  fix m :: "'k epoll_mem" and fd evd bits w
  let ?d = "backend m" and ?e = "\<lparr>ee_events = epoll_bits bits, ee_ptr = evd\<rparr>"
  assume i: "epoll_inv m" and w: "epoll_watched interest m fd = Some w"
  obtain r k' where c: "sys_epoll_ctl sys (epoll_fd ?d) EPOLL_CTL_MOD fd ?e (ep_kernel ?d) = (r, k')" by fastforce
  have a: "r = 0 \<and> interest k' (epoll_fd ?d) = (interest (ep_kernel ?d) (epoll_fd ?d))(fd \<mapsto> ?e)
      \<or> r = - 1 \<and> interest k' (epoll_fd ?d) = interest (ep_kernel ?d) (epoll_fd ?d)"
    using ctl_mod [OF _ c] w by (auto simp: epoll_watched_def)
  let ?m = "m\<lparr>backend := ?d\<lparr>ep_kernel := k'\<rparr>\<rparr>"
  have "epoll_watched interest ?m
      = (if r = - 1 then epoll_watched interest m else (epoll_watched interest m)(fd \<mapsto> wants evd bits))"
    using a watch_of_bits [of bits evd] by (auto simp: epoll_watched_def fun_eq_iff)
  then show "\<exists>f r m'. op_mod (epoll_ops sys) = Some f \<and> f evd fd bits m = Some (r, m') \<and> epoll_inv m' \<and> basemem m' = basemem m
      \<and> epoll_watched interest m'
        = (if r = 1 then (epoll_watched interest m)(fd \<mapsto> wants evd bits) else epoll_watched interest m)"
    using i c by (intro exI [of _ "event_epoll_mod sys"] exI [of _ "if r = - 1 then - 1 else 1"] exI [of _ ?m])
      (auto simp: epoll_ops_def event_epoll_mod_def epoll_inv_def)
next
  fix m :: "'k epoll_mem" and f fd assume "op_del (epoll_ops sys) = Some f"
  then show "\<exists>r m'. f fd m = Some (r, m') \<and> epoll_inv m' \<and> basemem m' = basemem m
      \<and> epoll_watched interest m' = (epoll_watched interest m)(fd := None)" by (simp add: epoll_ops_def)
next
  fix m :: "'k epoll_mem" and t assume i: "epoll_inv m" and b: "0 < basemem m"
  let ?d = "backend m"
  obtain es where es: "ep_events ?d = Some es" "int (length es) = basemem m" using i by (auto simp: epoll_inv_def)
  obtain n new k' where c: "sys_epoll_wait sys (epoll_fd ?d) (basemem m) t (ep_kernel ?d) = (n, new, k')" by (metis prod_cases3)
  note a = wait [OF b c]
  show "\<exists>f n m'. op_poll (epoll_ops sys) = Some f \<and> f t m = Some (n, m') \<and> epoll_inv m' \<and> basemem m' = basemem m
      \<and> epoll_watched interest m' = epoll_watched interest m
      \<and> (n = - 1 \<or> 0 \<le> n \<and> (\<forall>i < nat n. \<exists>p b fd w. epoll_reports m' i = Some (p, b)
            \<and> epoll_watched interest m' fd = Some w \<and> fst w = p \<and> within b w)
         \<and> (\<forall>i < nat n. \<forall>j < nat n. i \<noteq> j \<longrightarrow> i \<noteq> j))"
  proof (cases "n = - 1")
    case True
    then show ?thesis using i c a
      by (intro exI [of _ "event_epoll_poll sys"] exI [of _ n] exI [of _ "m\<lparr>backend := ?d\<lparr>ep_kernel := k'\<rparr>\<rparr>"])
        (simp add: epoll_ops_def event_epoll_poll_def epoll_inv_def epoll_watched_def fun_eq_iff)
  next
    case False
    let ?es = "new @ drop (length new) es"
    let ?m = "m\<lparr>backend := ?d\<lparr>ep_kernel := k', ep_events := Some ?es\<rparr>\<rparr>"
    have n: "n = int (length new)" "length new \<le> length es" using a False es(2) by auto
    have run: "event_epoll_poll sys t m = Some (n, ?m)"
      using c False es n(2) by (simp add: event_epoll_poll_def array_fill_Some)
    have inv': "epoll_inv ?m" using es n(2) by (simp add: epoll_inv_def)
    have wa: "epoll_watched interest ?m = epoll_watched interest m" using a by (simp add: epoll_watched_def fun_eq_iff)
    have "\<exists>p b fd w. epoll_reports ?m i = Some (p, b) \<and> epoll_watched interest ?m fd = Some w \<and> fst w = p \<and> within b w"
      if "i < nat n" for i
    proof -
      have il: "i < length new" using that n(1) by simp
      then obtain fd e0 where e0: "interest (ep_kernel ?d) (epoll_fd ?d) fd = Some e0" "ee_ptr (new ! i) = ee_ptr e0"
        "\<forall>b \<in> {EPOLLIN, EPOLLOUT}. has_flag (ee_events (new ! i)) b \<longrightarrow> has_flag (ee_events e0) b"
        using a False by (meson nth_mem)
      let ?b = "(if has_flag (ee_events (new ! i)) EPOLLIN then EVENT_READ else 0)
        OR (if has_flag (ee_events (new ! i)) EPOLLOUT then EVENT_WRITE else 0)"
      let ?w = "(ee_ptr e0, has_flag (ee_events e0) EPOLLIN, has_flag (ee_events e0) EPOLLOUT)"
      have "epoll_reports ?m i = Some (ee_ptr e0, ?b)"
        using il n(2) e0(2) by (simp add: epoll_reports_def array_at_def nth_append)
      moreover have "epoll_watched interest ?m fd = Some ?w" unfolding wa using e0(1) by (simp add: epoll_watched_def)
      moreover have "within ?b ?w" using e0(3) by (simp only: within_def or_flags fst_conv snd_conv) blast
      ultimately show ?thesis by fastforce
    qed
    then show ?thesis using run inv' wa n(1)
      by (intro exI [of _ "event_epoll_poll sys"] exI [of _ n] exI [of _ ?m]) (simp add: epoll_ops_def)
  qed
next
  fix m :: "'k epoll_mem" and i p b assume "epoll_inv m" "epoll_reports m i = Some (p, b)"
  then show "\<exists>f g m'. op_get_current_evd (epoll_ops sys) = Some f \<and> f i m = Some p
      \<and> op_revent (epoll_ops sys) = Some g \<and> g i m = Some (b, m') \<and> epoll_inv m' \<and> basemem m' = basemem m
      \<and> epoll_watched interest m' = epoll_watched interest m
      \<and> (\<lambda>i j. i \<noteq> j) = (\<lambda>i j. i \<noteq> j) \<and> (\<forall>j. i \<noteq> j \<longrightarrow> epoll_reports m' j = epoll_reports m j)"
    by (auto simp: epoll_ops_def event_epoll_get_evd_def event_epoll_revent_def epoll_reports_def)
next
  show "False \<longleftrightarrow> op_del (epoll_ops sys) \<noteq> None" by (simp add: epoll_ops_def)
next
  fix m m' :: "'k epoll_mem" and fd assume "epoll_inv m" "epoll_closes interest fd m m'"
  then show "epoll_inv m' \<and> basemem m' = basemem m \<and> epoll_watched interest m' = (epoll_watched interest m)(fd := None)"
    by (auto simp: epoll_closes_def epoll_inv_def epoll_watched_def fun_eq_iff)
next
  fix m m' :: "'k epoll_mem" and g i b
  assume "op_revent (epoll_ops sys) = Some g" "g i m = Some (b, m')"
  then show "epoll_reports m i \<noteq> None" by (auto simp: epoll_ops_def event_epoll_revent_def epoll_reports_def split: bind_splits)
qed

context epoll_kernel
begin

lemma epoll_start:
  assumes "handler ev = EVENT_EPOLL" and "events_init (event_epoll_init sys) ki si ev = (1, ev0)"
  shows "epoll.ev_inv ev0" and "epoll_watched interest (evm ev0) = (\<lambda>fd. None)"
proof -
  show "epoll_watched interest (evm ev0) = (\<lambda>fd. None)"
    using assms create by (auto simp: events_init_def event_epoll_init_def Let_def epoll_watched_def fun_eq_iff
        split: prod.splits if_splits)
  have "fops ev0 = epoll_ops sys \<and> epoll_inv (evm ev0) \<and> basemem (evm ev0) = 32 \<and> nfd ev0 = 0"
    using assms by (auto simp: events_init_def event_epoll_init_def Let_def APE_DEFAULT_EVENTS_SIZE_def epoll_inv_def
        array_new_def split: prod.splits if_splits)
  then show "epoll.ev_inv ev0" by (auto simp: epoll.inv_defs intro!: exI [of _ 5])
qed

lemma epoll_reach:
  assumes "handler ev = EVENT_EPOLL" and "events_init (event_epoll_init sys) ki si ev = (1, ev0)"
    and "ev_reach (\<lambda>w. wants) False (\<lambda>fd. True) (epoll_closes interest) ev0 ev1 W"
  shows "epoll.ev_inv ev1"
  using epoll.reach_inv [OF assms(3) epoll_start [OF assms(1,2)]] by blast

lemma epoll_poll:
  assumes "handler ev = EVENT_EPOLL" and "events_init (event_epoll_init sys) ki si ev = (1, ev0)"
    and "ev_reach (\<lambda>w. wants) False (\<lambda>fd. True) (epoll_closes interest) ev0 ev1 W"
  shows "epoll_watched interest (evm ev1) = W \<and> (\<forall>x. ev_allowed (\<lambda>fd. True) W x ev1 \<longrightarrow> ev_do x ev1 \<noteq> None)
     \<and> (\<exists>n ev'. events_poll t ev1 = Some (n, ev') \<and> (n = - 1 \<or> 0 \<le> n \<and>
      (\<exists>rs ev2. read_events [0..<nat n] ev' = Some (rs, ev2) \<and> length rs = nat n
         \<and> (\<forall>(p, b) \<in> set rs. \<exists>fd w. W fd = Some w \<and> fst w = p \<and> within b w))))"
  by (rule epoll.reach_poll [OF epoll_start [OF assms(1,2)] assms(3)])

lemma epoll_room:
  assumes "epoll.ev_inv ev"
  shows "nfd ev \<le> basemem (evm ev) \<and> (\<exists>e. 5 \<le> e \<and> e \<le> 30 \<and> basemem (evm ev) = 2 ^ e)
     \<and> (\<exists>es. ep_events (backend (evm ev)) = Some es \<and> int (length es) = basemem (evm ev))"
  using assms by (auto simp: epoll.inv_defs epoll_inv_def)

end

section \<open>A kernel\<close>

text \<open>A kernel that keeps the contract: an association list, and every descriptor is always ready.\<close>

type_synonym table_kernel = "(int \<times> epoll_event) list"

definition table_sys :: "table_kernel epoll_sys" where
  "table_sys = \<lparr>sys_epoll_create = (\<lambda>k. (3, [])),
     sys_epoll_ctl = (\<lambda>ep x fd e k.
        if (map_of k fd = None) = (x = EPOLL_CTL_ADD) then (0, (fd, e) # k) else (- 1, k)),
     sys_epoll_wait = (\<lambda>ep n t k. let es = take (nat n) (map (\<lambda>fd. the (map_of k fd)) (remdups (map fst k)))
        in (int (length es), es, k)),
     sys_dup = (\<lambda>fd k. (- 1, k)), sys_close = (\<lambda>fd k. k)\<rparr>"

definition table_interest :: "table_kernel \<Rightarrow> int \<Rightarrow> int \<Rightarrow> epoll_event option" where
  "table_interest k ep = map_of k"

interpretation table: epoll_kernel table_sys table_interest
proof
  fix k k' :: table_kernel and ep n t r es
  assume n: "(0::int) < n" and w: "sys_epoll_wait table_sys ep n t k = (r, es, k')"
  have "\<exists>fd e0. map_of k fd = Some e0 \<and> ee_ptr e = ee_ptr e0
      \<and> (\<forall>b \<in> {EPOLLIN, EPOLLOUT}. has_flag (ee_events e) b \<longrightarrow> has_flag (ee_events e0) b)" if "e \<in> set es" for e
  proof -
    have "e \<in> set (map (\<lambda>fd. the (map_of k fd)) (remdups (map fst k)))"
      using that w in_set_takeD by (fastforce simp: table_sys_def Let_def)
    then obtain fd where fd: "fd \<in> set (map fst k)" "e = the (map_of k fd)" by auto
    then have "map_of k fd = Some e" by (cases "map_of k fd") (auto simp: map_of_eq_None_iff)
    then show ?thesis by blast
  qed
  moreover have "k' = k" "r = int (length es)" "r \<le> n" using w n by (auto simp: table_sys_def Let_def)
  ultimately show "table_interest k' ep = table_interest k ep
      \<and> (r = - 1 \<or> r = int (length es) \<and> r \<le> n \<and> (\<forall>e \<in> set es. \<exists>fd e0. table_interest k ep fd = Some e0 \<and> ee_ptr e = ee_ptr e0
          \<and> (\<forall>b \<in> {EPOLLIN, EPOLLOUT}. has_flag (ee_events e) b \<longrightarrow> has_flag (ee_events e0) b)))"
    unfolding table_interest_def by blast
qed (auto simp: table_sys_def table_interest_def split: if_splits)

section \<open>Properties\<close>

text \<open>\<open>_nextpoweroftwo\<close> gives, for 1 to \<open>2 ^ 31\<close>, the least power of two that is not smaller.\<close>

theorem nextpoweroftwo_least:
  assumes "1 \<le> unat v" and "unat v \<le> 2 ^ 31"
  shows "\<exists>e \<le> 31. nextpoweroftwo v = 2 ^ e \<and> unat v \<le> 2 ^ e \<and> (\<forall>e'. unat v \<le> 2 ^ e' \<longrightarrow> e \<le> e')"
  by (rule nextpoweroftwo_spec [OF assms])

theorem nextpoweroftwo_least_witness:
  "\<exists>e \<le> 31. nextpoweroftwo 33 = 2 ^ e \<and> (33::nat) \<le> 2 ^ e \<and> (\<forall>e'. (33::nat) \<le> 2 ^ e' \<longrightarrow> e \<le> e')"
  using nextpoweroftwo_least [of 33] by simp

text \<open>C8: Over epoll, after any sequence of calls that add each descriptor once, modify, delete, shrink,
  poll and read events, with descriptors closed in between: the interest list of the kernel is the table that the
  calls and their results give, each descriptor with the address and the directions of the last call that was
  successful for it. Every further call returns; a poll gives -1 or a number of events, all of them can be read from
  the array one after the other, and each one is a descriptor of this table, by its address there, and only in
  directions it is watched for. The kernel is assumed to do what epoll documents.\<close>

theorem epoll_reports_watched:
  assumes "epoll_kernel sys interest" and "handler ev = EVENT_EPOLL"
    and "events_init (event_epoll_init sys) no_init no_init ev = (1, ev0)"
    and "ev_reach (\<lambda>w. wants) False (\<lambda>fd. True) (epoll_closes interest) ev0 ev1 W"
  shows "epoll_watched interest (evm ev1) = W \<and> (\<forall>x. ev_allowed (\<lambda>fd. True) W x ev1 \<longrightarrow> ev_do x ev1 \<noteq> None)
     \<and> (\<exists>n ev'. events_poll t ev1 = Some (n, ev') \<and> (n = - 1 \<or> 0 \<le> n \<and>
      (\<exists>rs ev2. read_events [0..<nat n] ev' = Some (rs, ev2) \<and> length rs = nat n
         \<and> (\<forall>(p, b) \<in> set rs. \<exists>fd w. W fd = Some w \<and> fst w = p \<and> within b w))))"
  by (rule epoll_kernel.epoll_poll [OF assms])

text \<open>The start, over the kernel above.\<close>

definition demo_events :: "table_kernel epoll_dev fdevent" where
  "demo_events = \<lparr>evm = \<lparr>basemem = 0, backend = \<lparr>ep_events = None, epoll_fd = 0, ep_kernel = []\<rparr>\<rparr>,
     nfd = 0, handler = EVENT_EPOLL, fops = epoll_ops table_sys\<rparr>"

definition demo_started :: "table_kernel epoll_dev fdevent" where
  "demo_started = snd (events_init (event_epoll_init table_sys) no_init no_init demo_events)"

lemma demo_started: "handler demo_events = EVENT_EPOLL"
  "events_init (event_epoll_init table_sys) no_init no_init demo_events = (1, demo_started)"
  by (simp_all add: demo_started_def demo_events_def events_init_def event_epoll_init_def table_sys_def Let_def)

lemma demo_reach:
  "\<exists>ev1. ev_reach (\<lambda>w. wants) False (\<lambda>fd. True) (epoll_closes table_interest) demo_started ev1 [7 \<mapsto> (100, True, False)]
     \<and> nfd ev1 = 1"
proof -
  have "\<exists>ev1. ev_do (Ev_add 100 7 EVENT_READ) demo_started = Some (1, ev1) \<and> nfd ev1 = 1"
    by (simp add: demo_started_def demo_events_def events_init_def event_epoll_init_def table_sys_def Let_def
        events_add_def epoll_ops_def event_epoll_add_def APE_DEFAULT_EVENTS_SIZE_def)
  then obtain ev1 where ev1: "ev_do (Ev_add 100 7 EVENT_READ) demo_started = Some (1, ev1)" "nfd ev1 = 1" by blast
  have "ev_allowed (\<lambda>fd. True) (\<lambda>fd. None) (Ev_add 100 7 EVENT_READ) demo_started"
    by (simp add: demo_started_def demo_events_def events_init_def event_epoll_init_def table_sys_def Let_def)
  from reach_step [OF reach_init this ev1(1)] ev1(2) show ?thesis
    by (intro exI [of _ ev1]) (simp add: wants_def event_consts)
qed

theorem epoll_reports_watched_witness:
  "\<exists>ev1 n ev'. epoll_watched table_interest (evm ev1) = [7 \<mapsto> (100, True, False)] \<and> events_poll 1 ev1 = Some (n, ev')"
  using epoll_reports_watched [OF table.epoll_kernel_axioms demo_started] demo_reach by blast

text \<open>C37: Over epoll, in every state such a sequence of calls reaches, the events array has exactly
  \<open>basemem\<close> entries, a power of two from 32 to \<open>2 ^ 30\<close>, and there is one for every managed
  descriptor.\<close>

theorem epoll_array_has_room:
  assumes "epoll_kernel sys interest" and "handler ev = EVENT_EPOLL"
    and "events_init (event_epoll_init sys) no_init no_init ev = (1, ev0)"
    and "ev_reach (\<lambda>w. wants) False (\<lambda>fd. True) (epoll_closes interest) ev0 ev1 W"
  shows "nfd ev1 \<le> basemem (evm ev1) \<and> (\<exists>e. 5 \<le> e \<and> e \<le> 30 \<and> basemem (evm ev1) = 2 ^ e)
     \<and> (\<exists>es. ep_events (backend (evm ev1)) = Some es \<and> int (length es) = basemem (evm ev1))"
  by (rule epoll_kernel.epoll_room [OF assms(1) epoll_kernel.epoll_reach [OF assms]])

theorem epoll_array_has_room_witness:
  "\<exists>ev1 :: table_kernel epoll_dev fdevent. nfd ev1 = 1 \<and> nfd ev1 \<le> basemem (evm ev1)"
proof -
  obtain ev1 where r: "ev_reach (\<lambda>w. wants) False (\<lambda>fd. True) (epoll_closes table_interest) demo_started ev1 [7 \<mapsto> (100, True, False)]"
    "nfd ev1 = 1" using demo_reach by blast
  have "nfd ev1 \<le> basemem (evm ev1)"
    using epoll_array_has_room [OF table.epoll_kernel_axioms demo_started r(1)] by (rule conjunct1)
  then show ?thesis using r(2) by blast
qed

end
