(* ===== verification/Select_Props.thy ===== *)
theory Select_Props
  imports Select Events_Props
begin

unbundle bit_operations_syntax

text \<open>
  The backend over \<open>select\<close> keeps the contract of a backend, resting on the hash table being a map:
  every info the table points to is allocated, and holds the descriptor it is stored under.
\<close>

section \<open>Flags\<close>

lemma watch_flag_bits:
  "watch_flag w kWatchForRead_Event \<longleftrightarrow> bit w 0" "watch_flag w kWatchForWrite_Event \<longleftrightarrow> bit w 1"
  "watch_flag w kReadyForRead_Event \<longleftrightarrow> bit w 3" "watch_flag w kReadyForWrite_Event \<longleftrightarrow> bit w 4"
  using and_exp_eq_0_iff_not_bit [of w 0] and_exp_eq_0_iff_not_bit [of w 1] and_exp_eq_0_iff_not_bit [of w 3]
    and_exp_eq_0_iff_not_bit [of w 4]
  by (simp_all add: watch_flag_def kWatchForRead_Event_def kWatchForWrite_Event_def kReadyForRead_Event_def kReadyForWrite_Event_def)

lemma bit_ready: "bit kReadyForRead_Event n \<longleftrightarrow> n = 3" "bit kReadyForWrite_Event n \<longleftrightarrow> n = 4"
  using bit_exp_iff [where ?'a = "8 word", of 3 n] bit_exp_iff [where ?'a = "8 word", of 4 n]
  by (auto simp: kReadyForRead_Event_def kReadyForWrite_Event_def)

lemma bit_clear: "bit (w AND NOT kIsReady_Event) n \<longleftrightarrow> bit w n \<and> n \<noteq> 3 \<and> n \<noteq> 4"
  unfolding kIsReady_Event_def
  by (auto simp: bit_and_iff bit_or_iff bit_not_iff bit_ready dest: bit_imp_possible_bit)

lemma bit_mark:
  "bit (w OR kReadyForRead_Event) n \<longleftrightarrow> bit w n \<or> n = 3" "bit (w OR kReadyForWrite_Event) n \<longleftrightarrow> bit w n \<or> n = 4"
  by (auto simp: bit_or_iff bit_ready)

lemma bit_watch_bits:
  "bit (watch_bits b) 0 \<longleftrightarrow> has_flag b EVENT_READ" "bit (watch_bits b) 1 \<longleftrightarrow> has_flag b EVENT_WRITE"
  by (simp_all add: watch_bits_def Let_def kWatchForRead_Event_def kWatchForWrite_Event_def)

section \<open>The invariant\<close>

definition info_at :: "select_fdinfo heap \<Rightarrow> uint64 \<times> ptr \<Rightarrow> bool" where
  "info_at infos = (\<lambda>(k, p). \<exists>i. rd infos p = Some i \<and> k = word_of_int (si_fd i) \<and> 0 \<le> si_fd i \<and> si_fd i < FD_SETSIZE)"

definition infos_ok :: "select_fdinfo heap \<Rightarrow> (uint64 \<times> ptr) list \<Rightarrow> bool" where
  "infos_ok infos al \<longleftrightarrow> distinct (map snd al) \<and> (\<forall>kp \<in> set al. info_at infos kp)"

definition sel_inv :: "'k select_mem \<Rightarrow> bool" where
  "sel_inv m \<longleftrightarrow> (let d = backend m in basemem m = FD_SETSIZE
     \<and> (\<exists>es. sel_events d = Some es \<and> int (length es) = FD_SETSIZE)
     \<and> hcleaner (fdhash d) = Some event_select_clean_fd
     \<and> 0 < fdbrk d \<and> (\<forall>a. fdbrk d \<le> a \<longrightarrow> fdinfos d a = None)
     \<and> (\<exists>al. table64 (fdhash d) (fdmem d) al \<and> infos_ok (fdinfos d) al))"

definition winfo :: "select_fdinfo \<Rightarrow> watch" where
  "winfo i = (si_ptr i, bit (watchfor i) 0, bit (watchfor i) 1)"

definition select_watched :: "'k select_mem \<Rightarrow> int \<Rightarrow> watch option" where
  "select_watched m fd = (if 0 \<le> fd \<and> fd < FD_SETSIZE
     then do { p \<leftarrow> seek_fd (backend m) fd; map_option winfo (rd (fdinfos (backend m)) p) } else None)"

definition select_fd :: "int \<Rightarrow> bool" where
  "select_fd fd \<longleftrightarrow> 0 \<le> fd \<and> fd < FD_SETSIZE"

definition sel_reports :: "'k select_mem \<Rightarrow> nat \<Rightarrow> (ptr \<times> uint32) option" where
  "sel_reports m i = do {
     p \<leftarrow> array_at (sel_events (backend m)) i;
     info \<leftarrow> rd (fdinfos (backend m)) p;
     Some (si_ptr info, (if bit (watchfor info) 3 then EVENT_READ else 0) OR (if bit (watchfor info) 4 then EVENT_WRITE else 0)) }"

definition sel_apart :: "'k select_mem \<Rightarrow> nat \<Rightarrow> nat \<Rightarrow> bool" where
  "sel_apart m i j \<longleftrightarrow> array_at (sel_events (backend m)) i \<noteq> array_at (sel_events (backend m)) j"

text \<open>Small descriptors are different keys.\<close>

lemma fd_key_inj:
  assumes "0 \<le> fd" "fd < FD_SETSIZE" "0 \<le> fd'" "fd' < FD_SETSIZE"
  shows "(word_of_int fd :: uint64) = word_of_int fd' \<longleftrightarrow> fd = fd'"
proof -
  have "take_bit 64 fd = fd" "take_bit 64 fd' = fd'"
    using assms by (simp_all add: FD_SETSIZE_def take_bit_int_eq_self)
  then show ?thesis by (simp add: word_of_int_eq_iff)
qed

lemma watched_map:
  assumes "table64 (fdhash (backend m)) (fdmem (backend m)) al" and "select_fd fd"
  shows "select_watched m fd = (case map_of al (word_of_int fd) of None \<Rightarrow> None
     | Some p \<Rightarrow> map_option winfo (rd (fdinfos (backend m)) p))"
  using assms(2) by (simp add: select_watched_def seek_fd_def seek64_spec [OF assms(1)] select_fd_def split: option.splits)

lemma infos_okD: "infos_ok infos al \<Longrightarrow> (k, p) \<in> set al \<Longrightarrow>
    \<exists>i. rd infos p = Some i \<and> k = word_of_int (si_fd i) \<and> 0 \<le> si_fd i \<and> si_fd i < FD_SETSIZE"
  unfolding infos_ok_def info_at_def by blast

text \<open>Changing infos in place.\<close>

lemma infos_ok_upd:
  assumes "infos_ok infos al" and "rd infos p = Some i" and "si_fd j = si_fd i"
  shows "infos_ok (infos(p \<mapsto> j)) al"
  using assms by (fastforce simp: infos_ok_def info_at_def rd_Some_iff)

lemma ptr_unique:
  assumes "infos_ok infos al" and "(k, p) \<in> set al" and "(k', p) \<in> set al"
  shows "k = k'"
  using assms unfolding infos_ok_def by (metis distinct_map inj_onD snd_conv prod.inject)

section \<open>Adding, modifying, deleting\<close>

lemma sel_invD:
  assumes "sel_inv m"
  obtains al es where "table64 (fdhash (backend m)) (fdmem (backend m)) al" and "infos_ok (fdinfos (backend m)) al"
    and "sel_events (backend m) = Some es" and "int (length es) = FD_SETSIZE" and "basemem m = FD_SETSIZE"
    and "hcleaner (fdhash (backend m)) = Some event_select_clean_fd" and "0 < fdbrk (backend m)"
    and "\<forall>a. fdbrk (backend m) \<le> a \<longrightarrow> fdinfos (backend m) a = None"
  using assms unfolding sel_inv_def Let_def by blast

lemma watched_ext:
  assumes t: "table64 (fdhash (backend m)) (fdmem (backend m)) al" and t': "table64 (fdhash (backend m')) (fdmem (backend m')) al'"
    and e: "\<And>fd. select_fd fd \<Longrightarrow> (case map_of al' (word_of_int fd) of None \<Rightarrow> None
        | Some p \<Rightarrow> map_option winfo (rd (fdinfos (backend m')) p)) = f fd"
    and n: "\<And>fd. \<not> select_fd fd \<Longrightarrow> f fd = None"
  shows "select_watched m' = f"
proof
  fix fd show "select_watched m' fd = f fd"
  proof (cases "select_fd fd")
    case True
    then show ?thesis using watched_map [OF t' True] e [OF True] by simp
  next
    case False
    then show ?thesis using n [OF False] by (auto simp: select_watched_def select_fd_def)
  qed
qed

lemma not_fd: "\<not> select_fd fd \<Longrightarrow> select_watched m fd = None"
  by (auto simp: select_watched_def select_fd_def)

lemma select_add_spec:
  assumes i: "sel_inv m" and fd: "select_fd fd" and w: "select_watched m fd = None"
  shows "\<exists>m'. event_select_add evd fd bits m = Some (1, m') \<and> sel_inv m' \<and> basemem m' = basemem m
     \<and> select_watched m' = (select_watched m)(fd \<mapsto> wants evd bits)"
proof -
  let ?d = "backend m" and ?k = "word_of_int fd :: uint64"
  obtain al es where t: "table64 (fdhash ?d) (fdmem ?d) al" and ok: "infos_ok (fdinfos ?d) al"
    and r: "sel_events ?d = Some es" "int (length es) = FD_SETSIZE" "basemem m = FD_SETSIZE"
      "hcleaner (fdhash ?d) = Some event_select_clean_fd" "0 < fdbrk ?d" "\<forall>a. fdbrk ?d \<le> a \<longrightarrow> fdinfos ?d a = None"
    by (rule sel_invD [OF i])
  have none: "map_of al ?k = None"
  proof (cases "map_of al ?k")
    case (Some p)
    then obtain j where "rd (fdinfos ?d) p = Some j" using infos_okD [OF ok] map_of_SomeD by metis
    then show ?thesis using w watched_map [OF t fd] Some by simp
  qed
  let ?p = "fdbrk ?d"
  let ?info = "\<lparr>si_ptr = evd, si_fd = fd, watchfor = watch_bits bits\<rparr>"
  let ?infos = "(fdinfos ?d)(?p \<mapsto> ?info)"
  obtain htbl hm where a: "hashtbl_append64 (fdhash ?d) ?k ?p (fdmem ?d) ?infos = Some (htbl, hm, ?infos)"
    "hcleaner htbl = hcleaner (fdhash ?d)" "table64 htbl hm ((?k, ?p) # al)"
    using append64_spec [OF t, of ?k ?p ?infos ?infos] none by auto
  let ?m = "m\<lparr>backend := ?d\<lparr>fdhash := htbl, fdmem := hm, fdinfos := ?infos, fdbrk := ?p + 1\<rparr>\<rparr>"
  have run: "event_select_add evd fd bits m = Some (1, ?m)"
    using fd a(1) by (simp add: event_select_add_def select_fd_def Let_def)
  have np: "p \<noteq> ?p" if "(k, p) \<in> set al" for k p
    using infos_okD [OF ok that] r(6) by (auto simp: rd_Some_iff)
  have "infos_ok ?infos ((?k, ?p) # al)"
    unfolding infos_ok_def
  proof
    have "?p \<notin> snd ` set al" using np by force
    then show "distinct (map snd ((?k, ?p) # al))" using ok by (simp add: infos_ok_def)
    have "rd ?infos p = rd (fdinfos ?d) p" if "(k, p) \<in> set al" for k p using np [OF that] by simp
    then show "\<forall>kp \<in> set ((?k, ?p) # al). info_at ?infos kp"
      using ok r(5) fd unfolding infos_ok_def info_at_def select_fd_def by fastforce
  qed
  then have inv': "sel_inv ?m" using a(2,3) r by (auto simp: sel_inv_def Let_def)
  have "select_watched ?m = (select_watched m)(fd \<mapsto> wants evd bits)"
  proof (rule watched_ext [OF t, of ?m "(?k, ?p) # al"])
    fix fd' assume fd': "select_fd fd'"
    have key: "(word_of_int fd' :: uint64) = ?k \<longleftrightarrow> fd' = fd" using fd_key_inj fd fd' by (simp add: select_fd_def)
    have "rd ?infos p = rd (fdinfos ?d) p" if "map_of al (word_of_int fd') = Some p" for p
      using np [OF map_of_SomeD [OF that]] by simp
    then show "(case map_of ((?k, ?p) # al) (word_of_int fd') of None \<Rightarrow> None
        | Some p \<Rightarrow> map_option winfo (rd (fdinfos (backend ?m)) p)) = ((select_watched m)(fd \<mapsto> wants evd bits)) fd'"
      using watched_map [OF t fd'] key r(5) bit_watch_bits [of bits]
      by (auto simp: winfo_def wants_def split: option.splits)
  next
    show "table64 (fdhash (backend ?m)) (fdmem (backend ?m)) ((?k, ?p) # al)" using a(3) by simp
    show "((select_watched m)(fd \<mapsto> wants evd bits)) fd' = None" if "\<not> select_fd fd'" for fd'
      using that fd not_fd [OF that] by auto
  qed
  then show ?thesis using run inv' by auto
qed

lemma select_mod_spec:
  assumes i: "sel_inv m" and fd: "select_fd fd" and w: "select_watched m fd = Some w"
  shows "\<exists>m'. event_select_mod evd fd bits m = Some (1, m') \<and> sel_inv m' \<and> basemem m' = basemem m
     \<and> select_watched m' = (select_watched m)(fd \<mapsto> wants (fst w) bits)"
proof -
  let ?d = "backend m" and ?k = "word_of_int fd :: uint64"
  obtain al es where t: "table64 (fdhash ?d) (fdmem ?d) al" and ok: "infos_ok (fdinfos ?d) al"
    and r: "sel_events ?d = Some es" "int (length es) = FD_SETSIZE" "basemem m = FD_SETSIZE"
      "hcleaner (fdhash ?d) = Some event_select_clean_fd" "0 < fdbrk ?d" "\<forall>a. fdbrk ?d \<le> a \<longrightarrow> fdinfos ?d a = None"
    by (rule sel_invD [OF i])
  obtain p i where p: "map_of al ?k = Some p" "rd (fdinfos ?d) p = Some i" "w = winfo i"
    using w watched_map [OF t fd] by (auto split: option.splits)
  have p0: "p \<noteq> NULL" using p(2) by auto
  let ?i = "i\<lparr>watchfor := watch_bits bits\<rparr>"
  let ?infos = "(fdinfos ?d)(p \<mapsto> ?i)"
  let ?m = "m\<lparr>backend := ?d\<lparr>fdinfos := ?infos\<rparr>\<rparr>"
  have run: "event_select_mod evd fd bits m = Some (1, ?m)"
    using p p0 seek64_spec [OF t, of ?k] by (simp add: event_select_mod_def Let_def)
  have "infos_ok ?infos al" by (rule infos_ok_upd [OF ok p(2)]) simp
  moreover have "p < fdbrk ?d" using p(2) r(6) by (metis not_le option.distinct(1) rd_Some_iff)
  ultimately have inv': "sel_inv ?m" using t r by (auto simp: sel_inv_def Let_def)
  have "select_watched ?m = (select_watched m)(fd \<mapsto> wants (si_ptr i) bits)"
  proof (rule watched_ext [OF t, of ?m al])
    fix fd' assume fd': "select_fd fd'"
    have key: "(word_of_int fd' :: uint64) = ?k \<longleftrightarrow> fd' = fd" using fd_key_inj fd fd' by (simp add: select_fd_def)
    have "q \<noteq> p" if "map_of al (word_of_int fd') = Some q" "fd' \<noteq> fd" for q
      using ptr_unique [OF ok map_of_SomeD [OF that(1)], of ?k] map_of_SomeD [OF p(1)] key that(2) by blast
    then show "(case map_of al (word_of_int fd') of None \<Rightarrow> None
        | Some p \<Rightarrow> map_option winfo (rd (fdinfos (backend ?m)) p)) = ((select_watched m)(fd \<mapsto> wants (si_ptr i) bits)) fd'"
      using watched_map [OF t fd'] p p0 bit_watch_bits [of bits]
      by (auto simp: winfo_def wants_def split: option.splits)
  next
    show "((select_watched m)(fd \<mapsto> wants (si_ptr i) bits)) fd' = None" if "\<not> select_fd fd'" for fd'
      using that fd not_fd [OF that] by auto
  qed (use t in simp)
  then show ?thesis using run inv' p(3) by (simp add: winfo_def)
qed

lemma select_del_spec:
  assumes i: "sel_inv m"
  shows "\<exists>m'. event_select_del fd m = Some (1, m') \<and> sel_inv m' \<and> basemem m' = basemem m
     \<and> (select_fd fd \<longrightarrow> select_watched m' = (select_watched m)(fd := None))"
proof -
  let ?d = "backend m" and ?k = "word_of_int fd :: uint64"
  obtain al es where t: "table64 (fdhash ?d) (fdmem ?d) al" and ok: "infos_ok (fdinfos ?d) al"
    and r: "sel_events ?d = Some es" "int (length es) = FD_SETSIZE" "basemem m = FD_SETSIZE"
      "hcleaner (fdhash ?d) = Some event_select_clean_fd" "0 < fdbrk ?d" "\<forall>a. fdbrk ?d \<le> a \<longrightarrow> fdinfos ?d a = None"
    by (rule sel_invD [OF i])
  have clean: "run_clean (fdhash ?d) q it s = dealloc s old" if "hcontent it = Addrs old" for q it s old
    using that r(4) by (simp add: run_clean_def event_select_clean_fd_def content_addrs_def)
  have some: "run_clean (fdhash ?d) q it (fdinfos ?d) \<noteq> None" if "map_of al ?k = Some old" "hcontent it = Addrs old" for old q it
    using infos_okD [OF ok map_of_SomeD [OF that(1)]] clean [OF that(2)] by auto
  obtain htbl hm infos where e: "hashtbl_erase64 (fdhash ?d) ?k (fdmem ?d) (fdinfos ?d) = Some (htbl, hm, infos)"
    "hcleaner htbl = hcleaner (fdhash ?d)" "table64 htbl hm (AList.delete ?k al)"
    and inf: "case map_of al ?k of None \<Rightarrow> infos = fdinfos ?d
        | Some old \<Rightarrow> \<exists>p it. hcontent it = Addrs old \<and> run_clean (fdhash ?d) p it (fdinfos ?d) = Some infos"
    using erase64_spec [OF t, of ?k "fdinfos ?d"] some by blast
  let ?m = "m\<lparr>backend := ?d\<lparr>fdhash := htbl, fdmem := hm, fdinfos := infos\<rparr>\<rparr>"
  have run: "event_select_del fd m = Some (1, ?m)" using e(1) by (simp add: event_select_del_def Let_def)
  have keep: "rd infos p = rd (fdinfos ?d) p" if kp: "(k', p) \<in> set al" "k' \<noteq> ?k" for k' p
  proof (cases "map_of al ?k")
    case (Some old)
    then have "dealloc (fdinfos ?d) old = Some infos" using inf clean by auto
    moreover have "p \<noteq> old" using ptr_unique [OF ok kp(1)] map_of_SomeD [OF Some] kp(2) by blast
    ultimately show ?thesis by (auto simp: dealloc_eq_Some)
  qed (use inf in simp)
  have sub: "infos a = None" if "fdinfos ?d a = None" for a
  proof (cases "map_of al ?k")
    case (Some old)
    then have "dealloc (fdinfos ?d) old = Some infos" using inf clean by auto
    then show ?thesis using that by (auto simp: dealloc_eq_Some)
  qed (use inf that in simp)
  have "infos_ok infos (AList.delete ?k al)"
    unfolding infos_ok_def
  proof
    show "distinct (map snd (AList.delete ?k al))"
      using ok by (simp add: infos_ok_def AList.delete_eq distinct_map_filter)
    show "\<forall>kp \<in> set (AList.delete ?k al). info_at infos kp"
      using ok keep unfolding infos_ok_def info_at_def by (fastforce simp: AList.delete_eq)
  qed
  then have inv': "sel_inv ?m" using e(2,3) r sub by (auto simp: sel_inv_def Let_def)
  have "select_watched ?m = (select_watched m)(fd := None)" if fd: "select_fd fd"
  proof (rule watched_ext [OF t, of ?m "AList.delete ?k al"])
    fix fd' assume fd': "select_fd fd'"
    have key: "(word_of_int fd' :: uint64) = ?k \<longleftrightarrow> fd' = fd" using fd_key_inj fd fd' by (simp add: select_fd_def)
    show "(case map_of (AList.delete ?k al) (word_of_int fd') of None \<Rightarrow> None
        | Some p \<Rightarrow> map_option winfo (rd (fdinfos (backend ?m)) p)) = ((select_watched m)(fd := None)) fd'"
      using watched_map [OF t fd'] key keep map_of_SomeD
      by (fastforce simp: delete_conv' split: option.splits)
  next
    show "((select_watched m)(fd := None)) fd' = None" if "\<not> select_fd fd'" for fd'
      using not_fd [OF that] by auto
  qed (use e(3) in simp)
  then show ?thesis using run inv' by auto
qed

section \<open>Polling\<close>

text \<open>What marking may do to an info: the ready bits only, and those only as the two sets allow.\<close>

definition same_info :: "select_fdinfo \<Rightarrow> select_fdinfo \<Rightarrow> bool" where
  "same_info i j \<longleftrightarrow> si_ptr j = si_ptr i \<and> si_fd j = si_fd i
     \<and> bit (watchfor j) 0 = bit (watchfor i) 0 \<and> bit (watchfor j) 1 = bit (watchfor i) 1"

lemma same_info_refl [simp]: "same_info i i"
  by (simp add: same_info_def)

lemma same_info_trans: "same_info i j \<Longrightarrow> same_info j k \<Longrightarrow> same_info i k"
  by (simp add: same_info_def)

lemma same_info_upd:
  "same_info i (i\<lparr>watchfor := watchfor i AND NOT kIsReady_Event\<rparr>)"
  "same_info i (i\<lparr>watchfor := watchfor i OR kReadyForRead_Event\<rparr>)"
  "same_info i (i\<lparr>watchfor := watchfor i OR kReadyForWrite_Event\<rparr>)"
  by (simp_all add: same_info_def bit_clear bit_mark)

lemma same_winfo: "same_info i j \<Longrightarrow> winfo j = winfo i"
  by (simp add: same_info_def winfo_def)

text \<open>All infos change like that, and nothing is allocated or freed.\<close>

definition infos_same :: "select_fdinfo heap \<Rightarrow> select_fdinfo heap \<Rightarrow> bool" where
  "infos_same h h' \<longleftrightarrow> (\<forall>a. (\<forall>i. h a = Some i \<longrightarrow> (\<exists>j. h' a = Some j \<and> same_info i j)) \<and> (h a = None \<longrightarrow> h' a = None))"

lemma infos_same_refl [simp]: "infos_same h h"
  by (simp add: infos_same_def)

lemma infos_same_trans: "infos_same h h1 \<Longrightarrow> infos_same h1 h2 \<Longrightarrow> infos_same h h2"
  unfolding infos_same_def by (meson same_info_trans)

lemma infos_same_upd: "rd h p = Some i \<Longrightarrow> same_info i j \<Longrightarrow> infos_same h (h(p \<mapsto> j))"
  by (auto simp: infos_same_def rd_Some_iff)

lemma infos_same_rd: "infos_same h h' \<Longrightarrow> rd h p = Some i \<Longrightarrow> \<exists>j. rd h' p = Some j \<and> same_info i j"
  unfolding infos_same_def rd_Some_iff by blast

lemma infos_same_rd_back:
  assumes "infos_same h h'" and "rd h' p = Some j"
  shows "\<exists>i. rd h p = Some i \<and> same_info i j"
proof (cases "h p")
  case (Some i)
  then obtain j' where "h' p = Some j'" "same_info i j'" using assms(1) unfolding infos_same_def by blast
  then show ?thesis using assms(2) Some by (auto simp: rd_Some_iff)
qed (use assms in \<open>auto simp: infos_same_def rd_Some_iff\<close>)

lemma infos_same_None: "infos_same h h' \<Longrightarrow> h a = None \<Longrightarrow> h' a = None"
  unfolding infos_same_def by blast

lemma infos_same_ok: "infos_same h h' \<Longrightarrow> infos_ok h al \<Longrightarrow> infos_ok h' al"
  unfolding infos_ok_def info_at_def by (fastforce dest: infos_same_rd simp: same_info_def)

text \<open>Ready only as two sets allow.\<close>

definition ready_in :: "fd_set \<Rightarrow> fd_set \<Rightarrow> select_fdinfo \<Rightarrow> bool" where
  "ready_in r w i \<longleftrightarrow> (bit (watchfor i) 3 \<longrightarrow> si_fd i \<in> r) \<and> (bit (watchfor i) 4 \<longrightarrow> si_fd i \<in> w)"

definition all_ready_in :: "fd_set \<Rightarrow> fd_set \<Rightarrow> select_fdinfo heap \<Rightarrow> (uint64 \<times> ptr) list \<Rightarrow> bool" where
  "all_ready_in r w infos al \<longleftrightarrow> (\<forall>(k, p) \<in> set al. \<forall>i. rd infos p = Some i \<longrightarrow> ready_in r w i)"

text \<open>The items of a table, in the order of the list that the scan walks.\<close>

definition item_of :: "ape_htable_item heap \<Rightarrow> ptr \<Rightarrow> uint64 \<times> ptr \<Rightarrow> bool" where
  "item_of h a kp \<longleftrightarrow> (\<exists>it. rd h a = Some it \<and> hcontent it = Addrs (snd kp))"

lemma table64_items:
  assumes "table64 htbl m al"
  obtains order where "chain lnext (items m) (hfirst htbl) order" and "list_all2 (item_of (items m)) order al"
proof -
  obtain cs order where inv: "hash_inv akey64 (bkt64 (hsize htbl)) htbl m cs order"
    and al: "habs akey64 m order = tagged Addrs al" using assms unfolding table64_def by blast
  have ch: "chain lnext (items m) (hfirst htbl) order" using hash_invD(5) [OF inv] by (simp add: dll_def)
  have len: "length order = length al" using al by (metis habs_def length_map tagged_def)
  have "item_of (items m) (order ! i) (al ! i)" if il: "i < length order" for i
  proof -
    have "habs akey64 m order ! i = tagged Addrs al ! i" using al by simp
    then have c: "cof m (order ! i) = Addrs (snd (al ! i))"
      using il len by (simp add: habs_def tagged_def case_prod_unfold)
    obtain it where "rd (items m) (order ! i) = Some it" using lseg_alloc [OF ch nth_mem [OF il]] by blast
    then show ?thesis using c by (simp add: item_of_def cof_def)
  qed
  then have "list_all2 (item_of (items m)) order al" using len by (simp add: list_all2_conv_all_nth)
  with ch show ?thesis by (rule that)
qed

text \<open>The descriptors that are watched in one direction.\<close>

definition watch_set :: "select_fdinfo heap \<Rightarrow> (uint64 \<times> ptr) list \<Rightarrow> nat \<Rightarrow> fd_set" where
  "watch_set infos al n = {fd. \<exists>k p i. (k, p) \<in> set al \<and> rd infos p = Some i \<and> si_fd i = fd \<and> bit (watchfor i) n}"

lemma watch_set_same:
  fixes h h' :: "select_fdinfo heap"
  assumes s: "infos_same h h'" and n: "n < 2"
  shows "watch_set h' al n = watch_set h al n"
proof -
  have e: "bit (watchfor j) n = bit (watchfor i) n \<and> si_fd j = si_fd i" if "same_info i j" for i j :: select_fdinfo
    using less_2_cases [OF n] that by (auto simp: same_info_def)
  show ?thesis
  proof (intro equalityI subsetI)
    fix fd assume "fd \<in> watch_set h' al n"
    then obtain k p j where j: "(k, p) \<in> set al" "rd h' p = Some j" "si_fd j = fd" "bit (watchfor j) n"
      unfolding watch_set_def by auto
    moreover obtain i where "rd h p = Some i" "same_info i j" using infos_same_rd_back [OF s j(2)] by auto
    ultimately show "fd \<in> watch_set h al n" using e [of i j] by (auto simp: watch_set_def)
  next
    fix fd assume "fd \<in> watch_set h al n"
    then obtain k p i where i: "(k, p) \<in> set al" "rd h p = Some i" "si_fd i = fd" "bit (watchfor i) n"
      unfolding watch_set_def by auto
    moreover obtain j where "rd h' p = Some j" "same_info i j" using infos_same_rd [OF s i(2)] by auto
    ultimately show "fd \<in> watch_set h' al n" using e [of i j] by (auto simp: watch_set_def)
  qed
qed

definition unready :: "select_fdinfo heap \<Rightarrow> (uint64 \<times> ptr) list \<Rightarrow> bool" where
  "unready infos al \<longleftrightarrow> all_ready_in {} {} infos al"

text \<open>One item of the scan.\<close>

lemma fd_set_if_spec:
  assumes "0 \<le> fd" and "fd < FD_SETSIZE"
  shows "fd_set_if c fd s t = Some (if c then insert fd s else s, if c then fd else t)"
  using assms by (simp add: fd_set_if_def FD_SET_def)

text \<open>The scan: nothing is left marked ready in the infos it passed, and the sets are those of the
  watched descriptors.\<close>

lemma select_scan_spec:
  assumes "chain lnext h p order" and "list_all2 (item_of h) order al" and "infos_ok infos al"
    and "0 \<le> maxfd" and "maxfd < FD_SETSIZE"
  shows "\<exists>infos' r' w' mx. select_scan h p infos r w maxfd = Some (infos', r', w', mx) \<and> infos_same infos infos'
     \<and> r' = r \<union> watch_set infos al 0 \<and> w' = w \<union> watch_set infos al 1 \<and> 0 \<le> mx \<and> mx < FD_SETSIZE
     \<and> unready infos' al \<and> (\<forall>a. a \<notin> snd ` set al \<longrightarrow> infos' a = infos a)"
  using assms
proof (induction order arbitrary: p al infos r w maxfd)
  case Nil
  then show ?case by (subst select_scan.simps) (simp add: watch_set_def unready_def all_ready_in_def)
next
  case (Cons a order)
  obtain k q al' where al: "al = (k, q) # al'" and io: "item_of h a (k, q)" and l2: "list_all2 (item_of h) order al'"
    using Cons.prems(2) by (cases al) auto
  obtain it where it: "p = a" "a \<noteq> NULL" "rd h a = Some it" "hcontent it = Addrs q" and tl: "chain lnext h (lnext it) order"
    using Cons.prems(1) io by (auto simp: item_of_def split: option.splits)
  obtain i where i: "rd infos q = Some i" "0 \<le> si_fd i" "si_fd i < FD_SETSIZE"
    using infos_okD [OF Cons.prems(3)] al by fastforce
  let ?i = "i\<lparr>watchfor := watchfor i AND NOT kIsReady_Event\<rparr>"
  let ?infos = "infos(q \<mapsto> ?i)"
  have q0: "q \<noteq> NULL" using i(1) by auto
  have s1: "infos_same infos ?infos" by (rule infos_same_upd [OF i(1) same_info_upd(1)])
  have dist: "distinct (map snd ((k, q) # al'))" using Cons.prems(3) al by (simp add: infos_ok_def)
  have ok1: "infos_ok ?infos al'" using infos_same_ok [OF s1 Cons.prems(3)] al by (simp add: infos_ok_def)
  let ?cr = "bit (watchfor i) 0" and ?cw = "bit (watchfor i) 1"
  let ?r = "if ?cr then insert (si_fd i) r else r" and ?w = "if ?cw then insert (si_fd i) w else w"
  let ?t = "if ?cw then si_fd i else if ?cr then si_fd i else 0"
  let ?mx = "if ?t > maxfd then ?t else maxfd"
  have "0 \<le> ?mx" "?mx < FD_SETSIZE" using i(2,3) Cons.prems(4,5) by auto
  then obtain infos' r' w' mx where rec: "select_scan h (lnext it) ?infos ?r ?w ?mx = Some (infos', r', w', mx)"
    "infos_same ?infos infos'" "r' = ?r \<union> watch_set ?infos al' 0" "w' = ?w \<union> watch_set ?infos al' 1"
    "0 \<le> mx" "mx < FD_SETSIZE" "unready infos' al'" "\<forall>a. a \<notin> snd ` set al' \<longrightarrow> infos' a = ?infos a"
    using Cons.IH [OF tl l2 ok1] by blast
  have "select_scan h p infos r w maxfd = Some (infos', r', w', mx)"
    using it i q0 rec(1)
    by (subst select_scan.simps)
      (simp add: content_addrs_def watch_flag_bits bit_clear fd_set_if_spec del: One_nat_def split del: if_split)
  moreover have "infos_same infos infos'" by (rule infos_same_trans [OF s1 rec(2)])
  moreover have ws: "watch_set infos al n = (if bit (watchfor i) n then {si_fd i} else {}) \<union> watch_set ?infos al' n"
    if "n < 2" for n
  proof -
    have "watch_set ?infos al' n = watch_set infos al' n" by (rule watch_set_same [OF s1 that])
    then show ?thesis using al i(1) by (auto simp: watch_set_def)
  qed
  moreover have "unready infos' al"
  proof -
    have "infos' q = Some ?i" using rec(8) dist by auto
    then have "rd infos' q = Some ?i" using q0 by (simp add: rd_Some_iff)
    then show ?thesis using rec(7) al by (simp add: unready_def all_ready_in_def ready_in_def bit_clear)
  qed
  moreover have "\<forall>b. b \<notin> snd ` set al \<longrightarrow> infos' b = infos b" using rec(8) al by auto
  ultimately show ?case using rec(3-6) ws [of 0] ws [of 1] by auto
qed

text \<open>Marking.\<close>

lemma mark_ready:
  assumes "all_ready_in r w infos al" and "rd infos p = Some i" and "(k, p) \<in> set al"
  shows "si_fd i \<in> r \<Longrightarrow> all_ready_in r w (infos(p \<mapsto> i\<lparr>watchfor := watchfor i OR kReadyForRead_Event\<rparr>)) al"
    and "si_fd i \<in> w \<Longrightarrow> all_ready_in r w (infos(p \<mapsto> i\<lparr>watchfor := watchfor i OR kReadyForWrite_Event\<rparr>)) al"
  using assms by (fastforce simp: all_ready_in_def ready_in_def bit_mark split: if_splits)+

lemma seek_fd_spec:
  assumes "table64 (fdhash d) (fdmem d) al" and ok: "infos_ok infos al" and fd: "select_fd fd"
  shows "(seek_fd d fd = Some NULL \<and> map_of al (word_of_int fd) = None)
     \<or> (\<exists>p i. seek_fd d fd = Some p \<and> p \<noteq> NULL \<and> map_of al (word_of_int fd) = Some p \<and> rd infos p = Some i \<and> si_fd i = fd)"
proof (cases "map_of al (word_of_int fd)")
  case None
  then show ?thesis using seek64_spec [OF assms(1)] by (simp add: seek_fd_def)
next
  case (Some p)
  obtain i where i: "rd infos p = Some i" "(word_of_int fd :: uint64) = word_of_int (si_fd i)"
    "0 \<le> si_fd i" "si_fd i < FD_SETSIZE" using infos_okD [OF ok map_of_SomeD [OF Some]] by blast
  have "si_fd i = fd" using fd_key_inj [of fd "si_fd i"] fd i(2-4) by (simp add: select_fd_def)
  moreover have "p \<noteq> NULL" using i(1) by auto
  ultimately show ?thesis using seek64_spec [OF assms(1)] Some i(1) by (simp add: seek_fd_def)
qed

lemma select_mark_spec:
  assumes t: "table64 (fdhash d) (fdmem d) al" and ok: "infos_ok infos al" and fd: "select_fd fd"
    and rd: "all_ready_in r w infos al"
  shows "\<exists>infos'. select_mark d r w fd infos = Some infos' \<and> infos_same infos infos' \<and> all_ready_in r w infos' al"
  using seek_fd_spec [OF t ok fd]
proof (elim disjE conjE exE)
  assume "seek_fd d fd = Some NULL"
  then show ?thesis using rd by (auto simp: select_mark_def)
next
  fix p i assume p: "seek_fd d fd = Some p" "p \<noteq> NULL" "map_of al (word_of_int fd) = Some p" "rd infos p = Some i" "si_fd i = fd"
  let ?i1 = "if fd \<in> r then i\<lparr>watchfor := watchfor i OR kReadyForRead_Event\<rparr> else i"
  let ?h1 = "if fd \<in> r then infos(p \<mapsto> i\<lparr>watchfor := watchfor i OR kReadyForRead_Event\<rparr>) else infos"
  let ?h2 = "if fd \<in> w then ?h1(p \<mapsto> ?i1\<lparr>watchfor := watchfor ?i1 OR kReadyForWrite_Event\<rparr>) else ?h1"
  note mem = map_of_SomeD [OF p(3)]
  have h1: "rd ?h1 p = Some ?i1" "infos_same infos ?h1" "all_ready_in r w ?h1 al" "si_fd ?i1 = fd"
    using p infos_same_upd [OF p(4) same_info_upd(2)] mark_ready(1) [OF rd p(4) mem] rd by auto
  have h2: "infos_same ?h1 ?h2" "all_ready_in r w ?h2 al"
    using infos_same_upd [OF h1(1) same_info_upd(3)] mark_ready(2) [OF h1(3,1) mem] h1(3,4) by auto
  have "select_mark d r w fd infos = Some ?h2"
    using p by (simp add: select_mark_def)
  then show ?thesis using infos_same_trans [OF h1(2) h2(1)] h2(2) by blast
qed

lemma select_marks_spec:
  assumes "table64 (fdhash d) (fdmem d) al" and "infos_ok infos al" and "\<forall>fd \<in> set fds. select_fd fd"
    and "all_ready_in r w infos al"
  shows "\<exists>infos'. select_marks d r w fds infos = Some infos' \<and> infos_same infos infos' \<and> all_ready_in r w infos' al"
  using assms
proof (induction fds arbitrary: infos)
  case (Cons fd fds)
  obtain h1 where 1: "select_mark d r w fd infos = Some h1" "infos_same infos h1" "all_ready_in r w h1 al"
    using select_mark_spec [OF Cons.prems(1,2) _ Cons.prems(4), of fd] Cons.prems(3) by auto
  obtain h2 where 2: "select_marks d r w fds h1 = Some h2" "infos_same h1 h2" "all_ready_in r w h2 al"
    using Cons.IH [OF Cons.prems(1) infos_same_ok [OF 1(2) Cons.prems(2)] _ 1(3)] Cons.prems(3) by auto
  show ?case using 1(1) 2 infos_same_trans [OF 1(2) 2(2)] by simp
qed simp

text \<open>Collecting: the entries are those of the ready descriptors, in order.\<close>

lemma select_collect_spec:
  assumes "\<forall>fd \<in> set fds. fd \<in> r \<or> fd \<in> w \<longrightarrow> seek_fd d fd = Some (f fd)" and "i + length fds \<le> length es"
  shows "\<exists>es'. select_collect d r w fds i (Some es) = Some (i + length (filter (\<lambda>fd. fd \<in> r \<or> fd \<in> w) fds), Some es')
     \<and> length es' = length es \<and> take i es' = take i es
     \<and> (\<forall>j < length (filter (\<lambda>fd. fd \<in> r \<or> fd \<in> w) fds). es' ! (i + j) = f (filter (\<lambda>fd. fd \<in> r \<or> fd \<in> w) fds ! j))"
  using assms
proof (induction fds arbitrary: i es)
  case (Cons fd fds)
  let ?F = "filter (\<lambda>fd. fd \<in> r \<or> fd \<in> w) fds"
  show ?case
  proof (cases "fd \<in> r \<or> fd \<in> w")
    case False
    then show ?thesis using Cons.IH [of i es] Cons.prems by auto
  next
    case True
    have il: "i < length es" using Cons.prems(2) by simp
    let ?es = "es[i := f fd]"
    obtain es' where es': "select_collect d r w fds (i + 1) (Some ?es) = Some (i + 1 + length ?F, Some es')"
      "length es' = length ?es" "take (i + 1) es' = take (i + 1) ?es" "\<forall>j < length ?F. es' ! (i + 1 + j) = f (?F ! j)"
      using Cons.IH [of "i + 1" ?es] Cons.prems by auto
    have at: "es' ! i = f fd" using es'(3) il by (metis less_add_one nth_list_update_eq nth_take)
    have sk: "seek_fd d fd = Some (f fd)" using Cons.prems(1) True by auto
    have "select_collect d r w (fd # fds) i (Some es) = select_collect d r w fds (i + 1) (Some ?es)"
      using True il sk by (simp add: array_put_def)
    then have run: "select_collect d r w (fd # fds) i (Some es) = Some (i + length (fd # ?F), Some es')"
      using es'(1) by simp
    have tk: "take i es' = take i es"
      using arg_cong [OF es'(3), of "take i"] by (simp add: take_update_cancel)
    have "es' ! (i + j) = f ((fd # ?F) ! j)" if "j < length (fd # ?F)" for j
      using that at es'(4) by (cases j) auto
    then show ?thesis using run es'(2) tk True by auto
  qed
qed simp

text \<open>A poll.\<close>

lemma ready_mono: "unready infos al \<Longrightarrow> all_ready_in r w infos al"
  unfolding unready_def all_ready_in_def ready_in_def by blast

lemma watch_set_at:
  assumes t: "table64 htbl hm al" and ok: "infos_ok infos al" and fd: "fd \<in> watch_set infos al n"
  shows "\<exists>p i. map_of al (word_of_int fd) = Some p \<and> rd infos p = Some i \<and> si_fd i = fd \<and> bit (watchfor i) n \<and> select_fd fd"
proof -
  obtain k p i where i: "(k, p) \<in> set al" "rd infos p = Some i" "si_fd i = fd" "bit (watchfor i) n"
    using fd unfolding watch_set_def by auto
  have "k = word_of_int fd" "select_fd fd" using infos_okD [OF ok i(1)] i(2,3) by (auto simp: select_fd_def)
  then show ?thesis using i map_of_is_SomeI [OF table64_distinct [OF t] i(1)] by auto
qed

lemma infos_same_watched:
  assumes t: "table64 (fdhash (backend m)) (fdmem (backend m)) al" and s: "infos_same (fdinfos (backend m)) infos"
    and "fdhash (backend m') = fdhash (backend m)" "fdmem (backend m') = fdmem (backend m)" "fdinfos (backend m') = infos"
  shows "select_watched m' = select_watched m"
proof (rule watched_ext [OF t, of m' al])
  fix fd assume fd: "select_fd fd"
  have "map_option winfo (rd infos p) = map_option winfo (rd (fdinfos (backend m)) p)" for p
  proof (cases "rd (fdinfos (backend m)) p")
    case None
    then have "rd infos p = None" using infos_same_None [OF s, of p] by (auto simp: rd_def split: if_splits)
    then show ?thesis using None by simp
  next
    case (Some i)
    then show ?thesis using infos_same_rd [OF s Some] same_winfo by fastforce
  qed
  then show "(case map_of al (word_of_int fd) of None \<Rightarrow> None
        | Some p \<Rightarrow> map_option winfo (rd (fdinfos (backend m')) p)) = select_watched m fd"
    using watched_map [OF t fd] assms(5) by (simp split: option.splits)
qed (use t assms not_fd in auto)

locale select_kernel =
  fixes sys :: "'k select_sys"
  assumes select: "sys_select sys n r w s us k = (c, r', w', k') \<Longrightarrow> 0 \<le> c \<and> r' \<subseteq> r \<and> w' \<subseteq> w"
begin

lemma select_poll_spec:
  assumes i: "sel_inv m"
  shows "\<exists>n m'. event_select_poll sys t m = Some (int n, m') \<and> sel_inv m' \<and> basemem m' = basemem m
     \<and> select_watched m' = select_watched m
     \<and> (\<forall>i < n. \<exists>p b fd w. sel_reports m' i = Some (p, b) \<and> select_watched m' fd = Some w \<and> fst w = p \<and> within b w)
     \<and> (\<forall>i < n. \<forall>j < n. i \<noteq> j \<longrightarrow> sel_apart m' i j)"
proof -
  let ?d = "backend m" and ?t = "if t < MIN_TIMEOUT_MS then MIN_TIMEOUT_MS else t"
  obtain al es where tb: "table64 (fdhash ?d) (fdmem ?d) al" and ok: "infos_ok (fdinfos ?d) al"
    and r: "sel_events ?d = Some es" "int (length es) = FD_SETSIZE" "basemem m = FD_SETSIZE"
      "hcleaner (fdhash ?d) = Some event_select_clean_fd" "0 < fdbrk ?d" "\<forall>a. fdbrk ?d \<le> a \<longrightarrow> fdinfos ?d a = None"
    by (rule sel_invD [OF i])
  let ?R = "watch_set (fdinfos ?d) al 0" and ?W = "watch_set (fdinfos ?d) al 1"
  obtain order where o: "chain lnext (items (fdmem ?d)) (hfirst (fdhash ?d)) order"
    "list_all2 (item_of (items (fdmem ?d))) order al" by (rule table64_items [OF tb])
  have "0 < FD_SETSIZE" by (simp add: FD_SETSIZE_def)
  then obtain infos mx where sc: "select_scan (items (fdmem ?d)) (hfirst (fdhash ?d)) (fdinfos ?d) {} {} 0 = Some (infos, ?R, ?W, mx)"
    "infos_same (fdinfos ?d) infos" "0 \<le> mx" "mx < FD_SETSIZE" "unready infos al"
    using select_scan_spec [OF o ok, of 0 "{}" "{}"] by auto
  let ?sel = "if mx = 0 then (0, ?R, ?W, sys_usleep sys ((?t smod 1000) * 1000) (sel_kernel ?d))
        else sys_select sys (mx + 1) ?R ?W (?t sdiv 1000) ((?t smod 1000) * 1000) (sel_kernel ?d)"
  obtain c r' w' k' where sel: "?sel = (c, r', w', k')" by (cases ?sel) auto
  have sub: "0 \<le> c" "r' \<subseteq> ?R" "w' \<subseteq> ?W" using select [of _ ?R ?W _ _ _ c r' w' k'] sel by (auto split: if_splits)
  let ?d1 = "?d\<lparr>fdinfos := infos, sel_kernel := k'\<rparr>"
  have keep: "sel_inv (m\<lparr>backend := ?d1\<lparr>fdinfos := infos', sel_events := Some es'\<rparr>\<rparr>)
      \<and> select_watched (m\<lparr>backend := ?d1\<lparr>fdinfos := infos', sel_events := Some es'\<rparr>\<rparr>) = select_watched m"
    if s: "infos_same (fdinfos ?d) infos'" and l: "length es' = length es" for infos' es'
  proof -
    have "sel_inv (m\<lparr>backend := ?d1\<lparr>fdinfos := infos', sel_events := Some es'\<rparr>\<rparr>)"
      using tb r infos_same_ok [OF s ok] infos_same_None [OF s] l by (auto simp: sel_inv_def Let_def)
    then show ?thesis by (intro conjI infos_same_watched [OF tb s]) simp_all
  qed
  show ?thesis
  proof (cases "c = 0")
    case True
    have e: "?d1 = ?d1\<lparr>fdinfos := infos, sel_events := Some es\<rparr>" using r(1) by simp
    have "event_select_poll sys t m = Some (0, m\<lparr>backend := ?d1\<rparr>)"
      using sc(1) sel True unfolding event_select_poll_def by (simp only: Let_def Option.bind.simps prod.case) simp
    then show ?thesis using keep [OF sc(2), of es] e by (intro exI [of _ 0] exI [of _ "m\<lparr>backend := ?d1\<rparr>"]) auto
  next
    case False
    have fds: "\<forall>fd \<in> set [0..mx]. select_fd fd" using sc(4) by (simp add: select_fd_def)
    have tb1: "table64 (fdhash ?d1) (fdmem ?d1) al" using tb by simp
    have ok1: "infos_ok infos al" by (rule infos_same_ok [OF sc(2) ok])
    obtain infos1 where mk: "select_marks ?d1 r' w' [0..mx] infos = Some infos1" "infos_same infos infos1"
      "all_ready_in r' w' infos1 al"
      using select_marks_spec [OF tb1 ok1 fds ready_mono [OF sc(5)]] by blast
    note s1 = infos_same_trans [OF sc(2) mk(2)]
    let ?f = "\<lambda>fd. the (map_of al (word_of_int fd :: uint64))"
    let ?F = "filter (\<lambda>fd. fd \<in> r' \<or> fd \<in> w') [0..mx]"
    have at: "\<exists>p i. map_of al (word_of_int fd) = Some p \<and> rd (fdinfos ?d) p = Some i \<and> si_fd i = fd \<and> select_fd fd
         \<and> (fd \<in> r' \<longrightarrow> bit (watchfor i) 0) \<and> (fd \<in> w' \<longrightarrow> bit (watchfor i) 1)" if "fd \<in> r' \<or> fd \<in> w'" for fd
      using watch_set_at [OF tb ok, of fd 0] watch_set_at [OF tb ok, of fd 1] that sub(2,3) by fastforce
    have sk: "\<forall>fd \<in> set [0..mx]. fd \<in> r' \<or> fd \<in> w' \<longrightarrow> seek_fd ?d1 fd = Some (?f fd)"
    proof (intro ballI impI)
      fix fd assume "fd \<in> r' \<or> fd \<in> w'"
      from at [OF this] obtain p where "map_of al (word_of_int fd) = Some p" by blast
      then show "seek_fd ?d1 fd = Some (?f fd)" using seek64_spec [OF tb] by (simp add: seek_fd_def)
    qed
    have len: "0 + length [0..mx] \<le> length es" using r(2) sc(3,4) by simp
    obtain es' where col: "select_collect ?d1 r' w' [0..mx] 0 (Some es) = Some (length ?F, Some es')" "length es' = length es"
      "\<forall>j < length ?F. es' ! j = ?f (?F ! j)"
      using select_collect_spec [OF sk len] by auto
    let ?m = "m\<lparr>backend := ?d1\<lparr>fdinfos := infos1, sel_events := Some es'\<rparr>\<rparr>"
    have run: "event_select_poll sys t m = Some (int (length ?F), ?m)"
      using sc(1) sel False sub(1) mk(1) col(1) r(1) unfolding event_select_poll_def
      by (simp only: Let_def Option.bind.simps prod.case) simp
    note kp = keep [OF s1 col(2)]
    have lF: "length ?F \<le> length es'" using length_filter_le [of _ "[0..mx]"] len col(2) by (metis add_0 le_trans)
    have ent: "array_at (sel_events (backend ?m)) j = Some (?f (?F ! j))" if "j < length ?F" for j
      using that col(3) lF by (simp add: array_at_def)
    have rep: "\<exists>p b fd w. sel_reports ?m j = Some (p, b) \<and> select_watched ?m fd = Some w \<and> fst w = p \<and> within b w"
      if j: "j < length ?F" for j
    proof -
      let ?fd = "?F ! j"
      have "?fd \<in> r' \<or> ?fd \<in> w'" using nth_mem [OF j] by simp
      from at [OF this] obtain p i where p: "map_of al (word_of_int ?fd) = Some p" "rd (fdinfos ?d) p = Some i" "si_fd i = ?fd"
        "select_fd ?fd" "?fd \<in> r' \<longrightarrow> bit (watchfor i) 0" "?fd \<in> w' \<longrightarrow> bit (watchfor i) 1" by blast
      obtain i1 where i1: "rd infos1 p = Some i1" "same_info i i1" using infos_same_rd [OF s1 p(2)] by auto
      let ?b = "(if bit (watchfor i1) 3 then EVENT_READ else 0) OR (if bit (watchfor i1) 4 then EVENT_WRITE else 0)"
      have "sel_reports ?m j = Some (si_ptr i1, ?b)" using ent [OF j] p(1) i1(1) by (simp add: sel_reports_def)
      moreover have "select_watched ?m ?fd = Some (winfo i1)"
        using watched_map [of ?m al ?fd] tb p(1,4) i1(1) by simp
      moreover have "ready_in r' w' i1" using mk(3) map_of_SomeD [OF p(1)] i1(1) unfolding all_ready_in_def by auto
      then have "within ?b (winfo i1)" using p(3,5,6) i1(2)
        by (auto simp: within_def or_flags winfo_def ready_in_def same_info_def)
      ultimately show ?thesis by (intro exI conjI) (assumption | simp add: winfo_def)+
    qed
    have ap: "sel_apart ?m j j'" if j: "j < length ?F" "j' < length ?F" "j \<noteq> j'" for j j'
    proof -
      have "distinct ?F" by simp
      then have ne: "?F ! j \<noteq> ?F ! j'" using j by (simp add: nth_eq_iff_index_eq)
      have "?F ! j \<in> r' \<or> ?F ! j \<in> w'" "?F ! j' \<in> r' \<or> ?F ! j' \<in> w'" using nth_mem [OF j(1)] nth_mem [OF j(2)] by simp_all
      then obtain p i p' i' where "map_of al (word_of_int (?F ! j)) = Some p" "rd (fdinfos ?d) p = Some i" "si_fd i = ?F ! j"
        "map_of al (word_of_int (?F ! j')) = Some p'" "rd (fdinfos ?d) p' = Some i'" "si_fd i' = ?F ! j'"
        using at by blast
      then have "?f (?F ! j) \<noteq> ?f (?F ! j')" using ne by auto
      then show ?thesis using ent [OF j(1)] ent [OF j(2)] by (simp add: sel_apart_def)
    qed
    show ?thesis using run kp rep ap by (intro exI [of _ "length ?F"] exI [of _ ?m]) simp
  qed
qed

end

sublocale select_kernel \<subseteq> sel: event_backend "select_ops sys" sel_inv select_watched select_fd sel_reports sel_apart False
    "\<lambda>w evd bits. wants (fst w) bits" True "\<lambda>fd m m'. False"
proof
  fix m :: "'k select_mem" and n :: int assume i: "sel_inv m"
  have "m\<lparr>basemem := FD_SETSIZE\<rparr> = m" using i by (cases m) (simp add: sel_inv_def Let_def)
  then show "\<exists>f m'. op_setsize (select_ops sys) = Some f \<and> f n (m\<lparr>basemem := n\<rparr>) = Some m' \<and> sel_inv m'
      \<and> select_watched m' = select_watched m \<and> basemem m' = (if False then n else basemem m)"
    using i by (intro exI [of _ event_select_setsize] exI [of _ m]) (simp add: select_ops_def event_select_setsize_def)
next
  fix m :: "'k select_mem" and fd evd bits assume "sel_inv m" "select_fd fd" "select_watched m fd = None"
  from select_add_spec [OF this, of evd bits]
  obtain m' where "event_select_add evd fd bits m = Some (1, m')" "sel_inv m'" "basemem m' = basemem m"
    "select_watched m' = (select_watched m)(fd \<mapsto> wants evd bits)" by blast
  then show "\<exists>f r m'. op_add (select_ops sys) = Some f
      \<and> f evd fd bits m = Some (r, m') \<and> sel_inv m' \<and> basemem m' = basemem m \<and> (r = 1 \<or> r = - 1)
      \<and> select_watched m' = (select_watched m)(fd := (if r = 1 then Some (wants evd bits) else None))"
    by (intro exI [of _ event_select_add] exI [of _ 1] exI [of _ m']) (simp add: select_ops_def)
next
  fix m :: "'k select_mem" and fd evd bits w assume "sel_inv m" "select_fd fd" "select_watched m fd = Some w"
  from select_mod_spec [OF this, of evd bits]
  obtain m' where "event_select_mod evd fd bits m = Some (1, m')" "sel_inv m'" "basemem m' = basemem m"
    "select_watched m' = (select_watched m)(fd \<mapsto> wants (fst w) bits)" by blast
  then show "\<exists>f r m'. op_mod (select_ops sys) = Some f
      \<and> f evd fd bits m = Some (r, m') \<and> sel_inv m' \<and> basemem m' = basemem m
      \<and> select_watched m' = (if r = 1 then (select_watched m)(fd \<mapsto> wants (fst w) bits) else select_watched m)"
    by (intro exI [of _ event_select_mod] exI [of _ 1] exI [of _ m']) (simp add: select_ops_def)
next
  fix m :: "'k select_mem" and f fd assume "sel_inv m" "select_fd fd" "op_del (select_ops sys) = Some f"
  then show "\<exists>r m'. f fd m = Some (r, m') \<and> sel_inv m' \<and> basemem m' = basemem m
      \<and> select_watched m' = (select_watched m)(fd := None)"
    using select_del_spec [of m fd] by (auto simp: select_ops_def)
next
  fix m :: "'k select_mem" and t assume "sel_inv m"
  from select_poll_spec [OF this, of t]
  obtain n m' where r: "event_select_poll sys t m = Some (int n, m')" "sel_inv m'" "basemem m' = basemem m"
     "select_watched m' = select_watched m"
     "\<forall>i < n. \<exists>p b fd w. sel_reports m' i = Some (p, b) \<and> select_watched m' fd = Some w \<and> fst w = p \<and> within b w"
     "\<forall>i < n. \<forall>j < n. i \<noteq> j \<longrightarrow> sel_apart m' i j" by blast
  then show "\<exists>f n m'. op_poll (select_ops sys) = Some f \<and> f t m = Some (n, m') \<and> sel_inv m'
      \<and> basemem m' = basemem m \<and> select_watched m' = select_watched m
      \<and> (n = - 1 \<or> 0 \<le> n \<and> (\<forall>i < nat n. \<exists>p b fd w. sel_reports m' i = Some (p, b) \<and> select_watched m' fd = Some w
            \<and> fst w = p \<and> within b w)
         \<and> (\<forall>i < nat n. \<forall>j < nat n. i \<noteq> j \<longrightarrow> sel_apart m' i j))"
    by (intro exI [of _ "event_select_poll sys"] exI [of _ "int n"] exI [of _ m']) (simp add: select_ops_def)
next
  fix m :: "'k select_mem" and i p b assume i: "sel_inv m" and rep: "sel_reports m i = Some (p, b)"
  let ?d = "backend m"
  obtain q info where q: "array_at (sel_events ?d) i = Some q" "rd (fdinfos ?d) q = Some info" "p = si_ptr info"
    "b = (if bit (watchfor info) 3 then EVENT_READ else 0) OR (if bit (watchfor info) 4 then EVENT_WRITE else 0)"
    using rep by (auto simp: sel_reports_def split: bind_splits)
  let ?infos = "(fdinfos ?d)(q \<mapsto> info\<lparr>watchfor := watchfor info AND NOT kIsReady_Event\<rparr>)"
  let ?m = "m\<lparr>backend := ?d\<lparr>fdinfos := ?infos\<rparr>\<rparr>"
  obtain al es where t: "table64 (fdhash ?d) (fdmem ?d) al" and ok: "infos_ok (fdinfos ?d) al"
    and r: "sel_events ?d = Some es" "int (length es) = FD_SETSIZE" "basemem m = FD_SETSIZE"
      "hcleaner (fdhash ?d) = Some event_select_clean_fd" "0 < fdbrk ?d" "\<forall>a. fdbrk ?d \<le> a \<longrightarrow> fdinfos ?d a = None"
    by (rule sel_invD [OF i])
  have s: "infos_same (fdinfos ?d) ?infos" by (rule infos_same_upd [OF q(2) same_info_upd(1)])
  have "sel_inv ?m"
    using t r infos_same_ok [OF s ok] infos_same_None [OF s] by (auto simp: sel_inv_def Let_def simp del: fun_upd_apply)
  moreover have "select_watched ?m = select_watched m"
    by (rule infos_same_watched [OF t s]) simp_all
  moreover have "event_select_revent i m = Some (b, ?m)"
    using q by (auto simp: event_select_revent_def Let_def watch_flag_bits)
  moreover have "event_select_get_evd i m = Some p" using q by (simp add: event_select_get_evd_def)
  moreover have "\<forall>j. sel_apart m i j \<longrightarrow> sel_reports ?m j = sel_reports m j"
    using q(1) by (auto simp: sel_apart_def sel_reports_def rd_def split: bind_splits option.splits)
  ultimately show "\<exists>f g m'. op_get_current_evd (select_ops sys) = Some f \<and> f i m = Some p
      \<and> op_revent (select_ops sys) = Some g \<and> g i m = Some (b, m') \<and> sel_inv m' \<and> basemem m' = basemem m
      \<and> select_watched m' = select_watched m
      \<and> sel_apart m' = sel_apart m \<and> (\<forall>j. sel_apart m i j \<longrightarrow> sel_reports m' j = sel_reports m j)"
    by (intro exI [of _ event_select_get_evd] exI [of _ event_select_revent] exI [of _ ?m])
      (simp add: select_ops_def sel_apart_def fun_eq_iff)
next
  show "True \<longleftrightarrow> op_del (select_ops sys) \<noteq> None" by (simp add: select_ops_def)
next
  fix m m' :: "'k select_mem" and g i b
  assume "op_revent (select_ops sys) = Some g" "g i m = Some (b, m')"
  then show "sel_reports m i \<noteq> None"
    by (auto simp: select_ops_def event_select_revent_def sel_reports_def Let_def split: bind_splits)
qed simp

context select_kernel
begin

lemma select_start:
  assumes "handler ev = EVENT_SELECT" and "fdmem (backend (evm ev)) = empty_hash"
    and "fdinfos (backend (evm ev)) = Map.empty" and "0 < fdbrk (backend (evm ev))"
    and "events_init no_init no_init (event_select_init sys) ev = (1, ev0)"
  shows "sel.ev_inv ev0" and "select_watched (evm ev0) = (\<lambda>fd. None)"
proof -
  show "select_watched (evm ev0) = (\<lambda>fd. None)"
    using assms by (auto simp: events_init_def event_select_init_def Let_def select_watched_def fun_eq_iff rd_def split: bind_splits)
  have "table64 (hashtbl_set_cleaner (hashtbl_init APE_HASH_INT) (Some event_select_clean_fd)) empty_hash []"
    unfolding hashtbl_init_def by (rule table64_init) (simp_all add: HACH_TABLE_MAX_def empty_hash_def)
  then have "fops ev0 = select_ops sys \<and> sel_inv (evm ev0) \<and> basemem (evm ev0) = 2 ^ 10 \<and> nfd ev0 = 0"
    using assms by (auto simp: events_init_def event_select_init_def Let_def sel_inv_def FD_SETSIZE_def array_new_def
        hashtbl_set_cleaner_def infos_ok_def)
  then show "sel.ev_inv ev0" by (auto simp: sel.inv_defs intro!: exI [of _ 10])
qed

lemma select_poll_reach:
  assumes "handler ev = EVENT_SELECT" and "fdmem (backend (evm ev)) = empty_hash"
    and "fdinfos (backend (evm ev)) = Map.empty" and "0 < fdbrk (backend (evm ev))"
    and "events_init no_init no_init (event_select_init sys) ev = (1, ev0)"
    and "ev_reach (\<lambda>w evd bits. wants (fst w) bits) True select_fd (\<lambda>fd m m'. False) ev0 ev1 W"
  shows "select_watched (evm ev1) = W \<and> (\<forall>x. ev_allowed select_fd W x ev1 \<longrightarrow> ev_do x ev1 \<noteq> None)
     \<and> (\<exists>n ev'. events_poll t ev1 = Some (n, ev') \<and> (n = - 1 \<or> 0 \<le> n \<and>
      (\<exists>rs ev2. read_events [0..<nat n] ev' = Some (rs, ev2) \<and> length rs = nat n
         \<and> (\<forall>(p, b) \<in> set rs. \<exists>fd w. W fd = Some w \<and> fst w = p \<and> within b w))))"
  by (rule sel.reach_poll [OF select_start [OF assms(1-5)] assms(6)])

end

section \<open>A kernel\<close>

text \<open>A kernel that finds ready whatever is asked for.\<close>

definition ready_sys :: "unit select_sys" where
  "ready_sys = \<lparr>sys_select = (\<lambda>n r w s us k. (int (card r) + int (card w), r, w, k)), sys_usleep = (\<lambda>us k. k)\<rparr>"

interpretation ready: select_kernel ready_sys
  by unfold_locales (auto simp: ready_sys_def)

section \<open>A poll that meets a bad info\<close>

text \<open>An info that is not allocated, or one of a descriptor that no set can hold.\<close>

definition bad_info :: "select_fdinfo heap \<Rightarrow> ptr \<Rightarrow> bool" where
  "bad_info infos p \<longleftrightarrow> (case rd infos p of None \<Rightarrow> True
     | Some i \<Rightarrow> \<not> select_fd (si_fd i) \<and> (bit (watchfor i) 0 \<or> bit (watchfor i) 1))"

lemma select_scan_faults:
  assumes "chain lnext h p order" and "list_all2 (item_of h) order al" and "\<exists>kp \<in> set al. bad_info infos (snd kp)"
  shows "select_scan h p infos r w maxfd = None"
  using assms
proof (induction order arbitrary: p al infos r w maxfd)
  case Nil
  then show ?case by simp
next
  case (Cons a order)
  obtain k q al' where al: "al = (k, q) # al'" and io: "item_of h a (k, q)" and l2: "list_all2 (item_of h) order al'"
    using Cons.prems(2) by (cases al) auto
  obtain it where it: "p = a" "a \<noteq> NULL" "rd h a = Some it" "hcontent it = Addrs q" and tl: "chain lnext h (lnext it) order"
    using Cons.prems(1) io by (auto simp: item_of_def split: option.splits)
  show ?case
  proof (cases "rd infos q")
    case None
    then show ?thesis using it by (subst select_scan.simps) (simp add: content_addrs_def wr_def rd_def)
  next
    case (Some i)
    let ?i = "i\<lparr>watchfor := watchfor i AND NOT kIsReady_Event\<rparr>"
    let ?infos = "infos(q \<mapsto> ?i)"
    have q0: "q \<noteq> NULL" using Some by auto
    show ?thesis
    proof (cases "bad_info infos q")
      case True
      then have "\<not> select_fd (si_fd i)" "bit (watchfor i) 0 \<or> bit (watchfor i) 1" using Some by (auto simp: bad_info_def)
      then show ?thesis using it Some q0
        by (subst select_scan.simps)
          (auto simp: content_addrs_def watch_flag_bits bit_clear fd_set_if_def FD_SET_def select_fd_def simp del: One_nat_def)
    next
      case False
      have "bad_info ?infos q'" if "bad_info infos q'" for q'
        using that False Some q0 by (auto simp: bad_info_def bit_clear split: option.splits)
      then have "\<exists>kp \<in> set al'. bad_info ?infos (snd kp)" using Cons.prems(3) al False by auto
      note rec = Cons.IH [OF tl l2 this]
      then show ?thesis using it Some q0
        by (subst select_scan.simps) (auto simp: content_addrs_def simp del: fun_upd_apply split: bind_splits)
    qed
  qed
qed

lemma select_poll_faults:
  assumes "table64 (fdhash (backend m)) (fdmem (backend m)) al"
    and "\<exists>kp \<in> set al. bad_info (fdinfos (backend m)) (snd kp)"
  shows "event_select_poll sys t m = None"
proof -
  obtain order where o: "chain lnext (items (fdmem (backend m))) (hfirst (fdhash (backend m))) order"
    "list_all2 (item_of (items (fdmem (backend m)))) order al" by (rule table64_items [OF assms(1)])
  show ?thesis unfolding event_select_poll_def by (simp add: Let_def select_scan_faults [OF o assms(2)])
qed

text \<open>The descriptor \<open>FD_SETSIZE\<close> is accepted, but cannot be polled.\<close>

lemma select_add_limit:
  assumes i: "sel_inv m" and b: "has_flag bits EVENT_READ \<or> has_flag bits EVENT_WRITE"
  shows "\<exists>m'. event_select_add evd FD_SETSIZE bits m = Some (1, m') \<and> (\<forall>t. event_select_poll sys t m' = None)"
proof -
  let ?d = "backend m" and ?k = "word_of_int FD_SETSIZE :: uint64"
  obtain al es where t: "table64 (fdhash ?d) (fdmem ?d) al" and ok: "infos_ok (fdinfos ?d) al"
    and r: "0 < fdbrk ?d" by (rule sel_invD [OF i])
  have none: "map_of al ?k = None"
  proof (cases "map_of al ?k")
    case (Some p)
    then obtain j :: select_fdinfo where j: "?k = word_of_int (si_fd j)" "0 \<le> si_fd j" "si_fd j < FD_SETSIZE"
      using infos_okD [OF ok map_of_SomeD [OF Some]] by auto
    have "take_bit 64 (si_fd j) = si_fd j" "take_bit 64 FD_SETSIZE = FD_SETSIZE"
      using j by (simp_all add: FD_SETSIZE_def take_bit_int_eq_self)
    then show ?thesis using j by (simp add: word_of_int_eq_iff)
  qed
  let ?p = "fdbrk ?d"
  let ?infos = "(fdinfos ?d)(?p \<mapsto> \<lparr>si_ptr = evd, si_fd = FD_SETSIZE, watchfor = watch_bits bits\<rparr>)"
  obtain htbl hm where a: "hashtbl_append64 (fdhash ?d) ?k ?p (fdmem ?d) ?infos = Some (htbl, hm, ?infos)"
    "table64 htbl hm ((?k, ?p) # al)"
    using append64_spec [OF t, of ?k ?p ?infos ?infos] none by auto
  let ?m = "m\<lparr>backend := ?d\<lparr>fdhash := htbl, fdmem := hm, fdinfos := ?infos, fdbrk := ?p + 1\<rparr>\<rparr>"
  have "event_select_add evd FD_SETSIZE bits m = Some (1, ?m)"
    using a(1) by (simp add: event_select_add_def Let_def FD_SETSIZE_def)
  moreover have "bad_info ?infos ?p" using r b bit_watch_bits [of bits] by (simp add: bad_info_def select_fd_def)
  then have "event_select_poll sys t ?m = None" for t
    using a(2) by (intro select_poll_faults [of _ "(?k, ?p) # al"]) simp_all
  ultimately show ?thesis by blast
qed

text \<open>A descriptor that is added again: the table keeps a pointer to the info that its cleaner freed.\<close>

lemma select_add_twice:
  assumes i: "sel_inv m" and fd: "select_fd fd" and w: "select_watched m fd \<noteq> None"
  shows "\<exists>m'. event_select_add evd fd bits m = Some (1, m') \<and> (\<forall>t. event_select_poll sys t m' = None)"
proof -
  let ?d = "backend m" and ?k = "word_of_int fd :: uint64"
  obtain al es where t: "table64 (fdhash ?d) (fdmem ?d) al"
    and r: "hcleaner (fdhash ?d) = Some event_select_clean_fd" "0 < fdbrk ?d" "\<forall>a. fdbrk ?d \<le> a \<longrightarrow> fdinfos ?d a = None"
    by (rule sel_invD [OF i])
  obtain p where p: "map_of al ?k = Some p" using w watched_map [OF t fd] by (auto split: option.splits)
  let ?p = "fdbrk ?d"
  let ?infos = "(fdinfos ?d)(?p \<mapsto> \<lparr>si_ptr = evd, si_fd = fd, watchfor = watch_bits bits\<rparr>)"
  have cl: "run_clean (fdhash ?d) q it ?infos = Some (fdinfos ?d)" if "hcontent it = Addrs ?p" for q it
    using that r by (auto simp: run_clean_def event_select_clean_fd_def content_addrs_def dealloc_def)
  obtain htbl hm where a: "hashtbl_append64 (fdhash ?d) ?k ?p (fdmem ?d) ?infos = Some (htbl, hm, fdinfos ?d)"
    "table64 htbl hm (AList.update ?k ?p al)"
    using append64_spec [OF t, of ?k ?p ?infos "fdinfos ?d"] p cl by auto
  let ?m = "m\<lparr>backend := ?d\<lparr>fdhash := htbl, fdmem := hm, fdinfos := fdinfos ?d, fdbrk := ?p + 1\<rparr>\<rparr>"
  have "event_select_add evd fd bits m = Some (1, ?m)"
    using a(1) fd by (simp add: event_select_add_def Let_def select_fd_def)
  moreover have "bad_info (fdinfos ?d) ?p" using r(3) by (simp add: bad_info_def rd_def)
  moreover have "(?k, ?p) \<in> set (AList.update ?k ?p al)"
    by (rule map_of_SomeD) (simp add: update_conv')
  ultimately show ?thesis using a(2) select_poll_faults [of ?m "AList.update ?k ?p al" sys]
    by (intro exI [of _ ?m]) force
qed

text \<open>A descriptor that is deleted while its event is still to be read.\<close>

lemma select_del_unread:
  assumes i: "sel_inv m" and fd: "select_fd fd"
    and e: "seek_fd (backend m) fd = Some p" "p \<noteq> NULL" "array_at (sel_events (backend m)) n = Some p"
  shows "\<exists>m'. event_select_del fd m = Some (1, m') \<and> event_select_get_evd n m' = None"
proof -
  let ?d = "backend m" and ?k = "word_of_int fd :: uint64"
  obtain al es where t: "table64 (fdhash ?d) (fdmem ?d) al" and ok: "infos_ok (fdinfos ?d) al"
    and r: "hcleaner (fdhash ?d) = Some event_select_clean_fd" by (rule sel_invD [OF i])
  have p: "map_of al ?k = Some p" using e(1,2) seek64_spec [OF t, of ?k] by (auto simp: seek_fd_def split: option.splits)
  have clean: "run_clean (fdhash ?d) q it s = dealloc s old" if "hcontent it = Addrs old" for q it s old
    using that r by (simp add: run_clean_def event_select_clean_fd_def content_addrs_def)
  have some: "run_clean (fdhash ?d) q it (fdinfos ?d) \<noteq> None" if "map_of al ?k = Some old" "hcontent it = Addrs old" for old q it
    using infos_okD [OF ok map_of_SomeD [OF that(1)]] clean [OF that(2)] by auto
  obtain htbl hm infos where del: "hashtbl_erase64 (fdhash ?d) ?k (fdmem ?d) (fdinfos ?d) = Some (htbl, hm, infos)"
    "case map_of al ?k of None \<Rightarrow> infos = fdinfos ?d
        | Some old \<Rightarrow> \<exists>p it. hcontent it = Addrs old \<and> run_clean (fdhash ?d) p it (fdinfos ?d) = Some infos"
    using erase64_spec [OF t, of ?k "fdinfos ?d"] some by blast
  have "dealloc (fdinfos ?d) p = Some infos" using del(2) p clean by auto
  then have "rd infos p = None" by (auto simp: dealloc_eq_Some rd_def)
  then show ?thesis using del(1) e(3) by (simp add: event_select_del_def event_select_get_evd_def Let_def)
qed

section \<open>Properties\<close>

text \<open>C24: Over select, after any sequence of calls that add descriptors from 0 to \<open>FD_SETSIZE - 1\<close>,
  each one only when it is not watched, modify watched ones, delete, shrink, poll and read events: the table of the
  backend holds what the calls and their results say, each descriptor with the directions of the last call for it, and
  the address it was added with, which a modification does not change. Every further such call returns; a poll
  gives a number of events, all of them can be read from the array one after the other, and each one
  is a descriptor of this table, by its address, and only in directions it is watched for. The kernel is assumed not
  to fail, since the program then exits, and not to report what it was not asked; without the conditions on
  the descriptors the calls do fault.\<close>

theorem select_reports_watched:
  assumes "select_kernel sys" and "handler ev = EVENT_SELECT" and "fdmem (backend (evm ev)) = empty_hash"
    and "fdinfos (backend (evm ev)) = Map.empty" and "0 < fdbrk (backend (evm ev))"
    and "events_init no_init no_init (event_select_init sys) ev = (1, ev0)"
    and "ev_reach (\<lambda>w evd bits. wants (fst w) bits) True select_fd (\<lambda>fd m m'. False) ev0 ev1 W"
  shows "select_watched (evm ev1) = W \<and> (\<forall>x. ev_allowed select_fd W x ev1 \<longrightarrow> ev_do x ev1 \<noteq> None)
     \<and> (\<exists>n ev'. events_poll t ev1 = Some (n, ev') \<and> (n = - 1 \<or> 0 \<le> n \<and>
      (\<exists>rs ev2. read_events [0..<nat n] ev' = Some (rs, ev2) \<and> length rs = nat n
         \<and> (\<forall>(p, b) \<in> set rs. \<exists>fd w. W fd = Some w \<and> fst w = p \<and> within b w))))"
  by (rule select_kernel.select_poll_reach [OF assms])

text \<open>The start, over the kernel above, and a descriptor that is added to it.\<close>

definition demo_select :: "unit select_dev fdevent" where
  "demo_select = \<lparr>evm = \<lparr>basemem = 0, backend = \<lparr>sel_events = None, fdhash = hashtbl_init APE_HASH_INT,
     fdmem = empty_hash, fdinfos = Map.empty, fdbrk = 1, sel_kernel = ()\<rparr>\<rparr>,
     nfd = 0, handler = EVENT_SELECT, fops = select_ops ready_sys\<rparr>"

definition demo_select_started :: "unit select_dev fdevent" where
  "demo_select_started = snd (events_init no_init no_init (event_select_init ready_sys) demo_select)"

lemma demo_select: "handler demo_select = EVENT_SELECT" "fdmem (backend (evm demo_select)) = empty_hash"
  "fdinfos (backend (evm demo_select)) = Map.empty" "0 < fdbrk (backend (evm demo_select))"
  "events_init no_init no_init (event_select_init ready_sys) demo_select = (1, demo_select_started)"
  by (simp_all add: demo_select_started_def demo_select_def events_init_def event_select_init_def Let_def)

lemma demo_select_inv: "sel_inv (evm demo_select_started)" "select_watched (evm demo_select_started) fd = None"
  "nfd demo_select_started = 0" "fops demo_select_started = select_ops ready_sys"
  "basemem (evm demo_select_started) = FD_SETSIZE"
proof -
  show "sel_inv (evm demo_select_started)"
    using ready.select_start [OF demo_select] by (simp add: ready.sel.inv_defs)
  show "basemem (evm demo_select_started) = FD_SETSIZE" "nfd demo_select_started = 0"
    "fops demo_select_started = select_ops ready_sys"
    by (simp_all add: demo_select_started_def demo_select_def events_init_def event_select_init_def Let_def)
  show "select_watched (evm demo_select_started) fd = None"
    by (simp add: demo_select_started_def demo_select_def events_init_def event_select_init_def Let_def
        select_watched_def rd_def split: bind_splits)
qed

lemma demo_select_add:
  "\<exists>m. event_select_add 100 7 EVENT_READ (evm demo_select_started) = Some (1, m) \<and> sel_inv m
     \<and> basemem m = FD_SETSIZE \<and> select_watched m 7 = Some (100, True, False)"
proof -
  have "select_fd 7" by (simp add: select_fd_def FD_SETSIZE_def)
  moreover have "wants 100 EVENT_READ = (100, True, False)" by (simp add: wants_def event_consts)
  ultimately show ?thesis using select_add_spec [OF demo_select_inv(1), of 7 100 EVENT_READ] demo_select_inv(2,5) by auto
qed

lemma demo_select_reach:
  "\<exists>ev1. ev_reach (\<lambda>w evd bits. wants (fst w) bits) True select_fd (\<lambda>fd m m'. False) demo_select_started ev1 [7 \<mapsto> (100, True, False)]"
proof -
  obtain m where m: "event_select_add 100 7 EVENT_READ (evm demo_select_started) = Some (1, m)" using demo_select_add by blast
  have a: "ev_allowed select_fd (\<lambda>fd. None) (Ev_add 100 7 EVENT_READ) demo_select_started"
    using demo_select_inv(3) by (simp add: select_fd_def FD_SETSIZE_def)
  have d: "ev_do (Ev_add 100 7 EVENT_READ) demo_select_started = Some (1, demo_select_started\<lparr>nfd := 1, evm := m\<rparr>)"
    using m demo_select_inv(3-5) by (simp add: events_add_def select_ops_def FD_SETSIZE_def)
  have "wants 100 EVENT_READ = (100, True, False)" by (simp add: wants_def event_consts)
  then show ?thesis using reach_step [OF reach_init a d]
    by (intro exI [of _ "demo_select_started\<lparr>nfd := 1, evm := m\<rparr>"]) simp
qed

theorem select_reports_watched_witness:
  "\<exists>ev1 n ev'. select_watched (evm ev1) = [7 \<mapsto> (100, True, False)] \<and> events_poll 1 (ev1 :: unit select_dev fdevent) = Some (n, ev')"
  using select_reports_watched [OF ready.select_kernel_axioms demo_select] demo_select_reach by blast

text \<open>The guard of \<open>event_select_add\<close> lets the descriptor \<open>FD_SETSIZE\<close> in: the call
  returns 1, and the next poll sets a bit outside the descriptor sets.\<close>

theorem select_accepts_fd_setsize:
  assumes "sel_inv m" and "has_flag bits EVENT_READ \<or> has_flag bits EVENT_WRITE"
  shows "\<exists>m'. event_select_add evd FD_SETSIZE bits m = Some (1, m') \<and> (\<forall>t. event_select_poll sys t m' = None)"
  by (rule select_add_limit [OF assms])

theorem select_accepts_fd_setsize_witness:
  "\<exists>m'. event_select_add 100 FD_SETSIZE EVENT_READ (evm demo_select_started) = Some (1, m')
     \<and> (\<forall>t. event_select_poll ready_sys t m' = None)"
  using select_accepts_fd_setsize [OF demo_select_inv(1), of EVENT_READ 100 ready_sys] by (simp add: event_consts)

text \<open>Adding a descriptor that is watched already returns 1, but the table then points to an info
  that the cleaner has freed, which the next poll writes to.\<close>

theorem select_add_again_dangles:
  assumes "sel_inv m" and "select_fd fd" and "select_watched m fd \<noteq> None"
  shows "\<exists>m'. event_select_add evd fd bits m = Some (1, m') \<and> (\<forall>t. event_select_poll sys t m' = None)"
  by (rule select_add_twice [OF assms])

theorem select_add_again_dangles_witness:
  "\<exists>m m'. event_select_add 100 7 EVENT_READ (evm demo_select_started) = Some (1, m)
     \<and> event_select_add 200 7 EVENT_WRITE m = Some (1, m') \<and> (\<forall>t. event_select_poll ready_sys t m' = None)"
proof -
  obtain m where m: "event_select_add 100 7 EVENT_READ (evm demo_select_started) = Some (1, m)" "sel_inv m"
    "select_watched m 7 \<noteq> None" using demo_select_add by force
  have "select_fd 7" by (simp add: select_fd_def FD_SETSIZE_def)
  from select_add_again_dangles [OF m(2) this m(3), of 200 EVENT_WRITE ready_sys] m(1) show ?thesis by blast
qed

text \<open>Deleting a descriptor whose event of the current batch has not been read yet leaves a
  pointer to a freed info in the events array: reading that event faults.\<close>

theorem select_del_in_batch_dangles:
  assumes "sel_inv m" and "select_fd fd" and "seek_fd (backend m) fd = Some p" and "p \<noteq> NULL"
    and "array_at (sel_events (backend m)) n = Some p"
  shows "\<exists>m'. event_select_del fd m = Some (1, m') \<and> event_select_get_evd n m' = None"
  by (rule select_del_unread [OF assms])

theorem select_del_in_batch_dangles_witness:
  "\<exists>(m :: unit select_mem) m'. select_watched m 7 = Some (100, True, False) \<and> event_select_get_evd 0 m = Some 100
     \<and> event_select_del 7 m = Some (1, m') \<and> event_select_get_evd 0 m' = None"
proof -
  obtain m :: "unit select_mem" where m: "sel_inv m" "select_watched m 7 = Some (100, True, False)" using demo_select_add by blast
  obtain p i where p: "seek_fd (backend m) 7 = Some p" "rd (fdinfos (backend m)) p = Some i" "si_ptr i = 100" "p \<noteq> NULL"
    using m(2) by (auto simp: select_watched_def winfo_def split: bind_splits if_splits)
  let ?m = "m\<lparr>backend := (backend m)\<lparr>sel_events := Some (replicate 1024 p)\<rparr>\<rparr>"
  have sk: "seek_fd (backend ?m) 7 = seek_fd (backend m) 7" by (simp add: seek_fd_def)
  have "sel_inv ?m" using m(1) by (simp add: sel_inv_def Let_def FD_SETSIZE_def)
  moreover have "select_fd 7" by (simp add: select_fd_def FD_SETSIZE_def)
  moreover have at: "array_at (sel_events (backend ?m)) 0 = Some p" by (simp add: array_at_def)
  ultimately obtain m' where "event_select_del 7 ?m = Some (1, m')" "event_select_get_evd 0 m' = None"
    using select_del_in_batch_dangles [of ?m 7 p 0] p sk by auto
  moreover have "event_select_get_evd 0 ?m = Some 100" using at p by (simp add: event_select_get_evd_def)
  moreover have "select_watched ?m 7 = select_watched m 7" using sk by (simp add: select_watched_def)
  ultimately show ?thesis using m(2) by (intro exI [of _ ?m] exI [of _ m']) simp
qed

end
