(* ===== verification/Ssl.thy ===== *)
theory Ssl
  imports Prelude
begin

text \<open>
  \<open>ape_ssl.c\<close>, as it is compiled without \<open>APE_DISABLE_SSL\<close>: an \<open>ape_ssl_t\<close> holds an OpenSSL
  context or a connection. OpenSSL is a parameter, functions on its state. The functions that dereference
  their argument fault on NULL; \<open>SSL_CTX_free\<close> and \<open>SSL_free\<close> are only called on others,
  and \<open>SSL_new\<close> of NULL gives NULL.
\<close>

section \<open>OpenSSL\<close>

datatype ssl_method = Server_method | Client_method

datatype ssl_error = SSL_ERROR_ZERO_RETURN | SSL_ERROR_WANT_WRITE | SSL_ERROR_WANT_READ | SSL_ERROR_OTHER

datatype ctx_setting = Info_callback | Op_all | Read_ahead | Moving_write_buffer

record 'o openssl =
  SSL_init :: "'o \<Rightarrow> 'o"
  SSL_CTX_new :: "ssl_method \<Rightarrow> 'o \<Rightarrow> ptr \<times> 'o"
  SSL_CTX_set :: "ctx_setting \<Rightarrow> ptr \<Rightarrow> 'o \<Rightarrow> 'o"
  SSL_CTX_set_cipher_list :: "ptr \<Rightarrow> string \<Rightarrow> 'o \<Rightarrow> int \<times> 'o"
  SSL_CTX_use_certificate_chain_file :: "ptr \<Rightarrow> byte list \<Rightarrow> 'o \<Rightarrow> int \<times> 'o"
  SSL_CTX_use_PrivateKey_file :: "ptr \<Rightarrow> byte list \<Rightarrow> 'o \<Rightarrow> int \<times> 'o"
  SSL_CTX_check_private_key :: "ptr \<Rightarrow> 'o \<Rightarrow> int \<times> 'o"
  SSL_CTX_free :: "ptr \<Rightarrow> 'o \<Rightarrow> 'o"
  SSL_new :: "ptr \<Rightarrow> 'o \<Rightarrow> ptr \<times> 'o"
  SSL_set_accept_state :: "ptr \<Rightarrow> 'o \<Rightarrow> 'o"
  SSL_set_connect_state :: "ptr \<Rightarrow> 'o \<Rightarrow> 'o"
  SSL_set_fd :: "ptr \<Rightarrow> int \<Rightarrow> 'o \<Rightarrow> int \<times> 'o"
  SSL_read :: "ptr \<Rightarrow> int \<Rightarrow> 'o \<Rightarrow> int \<times> byte list \<times> 'o"
  SSL_write :: "ptr \<Rightarrow> byte list \<Rightarrow> 'o \<Rightarrow> int \<times> 'o"
  SSL_shutdown :: "ptr \<Rightarrow> 'o \<Rightarrow> 'o"
  SSL_free :: "ptr \<Rightarrow> 'o \<Rightarrow> 'o"
  ERR_clear_error :: "'o \<Rightarrow> 'o"
  SSL_get_error :: "ptr \<Rightarrow> int \<Rightarrow> 'o \<Rightarrow> ssl_error \<times> 'o"
  SSL_set_tlsext_host_name :: "ptr \<Rightarrow> byte list \<Rightarrow> 'o \<Rightarrow> 'o"

definition CIPHER_LIST :: string where
  "CIPHER_LIST = ''HIGH:!ADH:!MD5''"

section \<open>The functions\<close>

record ape_ssl =
  ssl_ctx :: ptr
  ssl_con :: ptr

record 'o ssl_state =
  ssl_lib :: 'o
  ssl_objs :: "ape_ssl heap"
  ssl_brk :: ptr

definition ape_ssl_library_init :: "'o openssl \<Rightarrow> 'o ssl_state \<Rightarrow> 'o ssl_state" where
  "ape_ssl_library_init S s = s\<lparr>ssl_lib := SSL_init S (ssl_lib s)\<rparr>"

text \<open>It returns at once: the code after the \<open>return\<close> is not reached. The stub is empty, on whatever
  state there is without OpenSSL.\<close>

definition ape_ssl_library_destroy :: "'s \<Rightarrow> 's" where
  "ape_ssl_library_destroy s = s"

text \<open>Calls on a context, and allocating and freeing an object.\<close>

definition ctx_set :: "'o openssl \<Rightarrow> ctx_setting \<Rightarrow> ptr \<Rightarrow> 'o ssl_state \<Rightarrow> 'o ssl_state option" where
  "ctx_set S x c s = (if c = NULL then None else Some (s\<lparr>ssl_lib := SSL_CTX_set S x c (ssl_lib s)\<rparr>))"

definition on_lib :: "('o \<Rightarrow> 'r \<times> 'o) \<Rightarrow> 'o ssl_state \<Rightarrow> 'r \<times> 'o ssl_state" where
  "on_lib f s = (let (r, k) = f (ssl_lib s) in (r, s\<lparr>ssl_lib := k\<rparr>))"

definition ssl_malloc :: "ape_ssl \<Rightarrow> 'o ssl_state \<Rightarrow> ptr \<times> 'o ssl_state" where
  "ssl_malloc v s = (ssl_brk s, s\<lparr>ssl_objs := (ssl_objs s)(ssl_brk s \<mapsto> v), ssl_brk := ssl_brk s + 1\<rparr>)"

definition ssl_dealloc :: "ptr \<Rightarrow> 'o ssl_state \<Rightarrow> 'o ssl_state option" where
  "ssl_dealloc p s = do { h \<leftarrow> dealloc (ssl_objs s) p; Some (s\<lparr>ssl_objs := h\<rparr>) }"

text \<open>Giving a context and its object up.\<close>

definition drop_ctx :: "'o openssl \<Rightarrow> ptr \<Rightarrow> ptr \<Rightarrow> 'o ssl_state \<Rightarrow> (ptr \<times> 'o ssl_state) option" where
  "drop_ctx S ctx ssl s = do {
     s1 \<leftarrow> ssl_dealloc ssl (s\<lparr>ssl_lib := SSL_CTX_free S ctx (ssl_lib s)\<rparr>);
     Some (NULL, s1) }"

definition ape_ssl_init_ctx ::
  "'o openssl \<Rightarrow> byte list \<Rightarrow> byte list option \<Rightarrow> 'o ssl_state \<Rightarrow> (ptr \<times> 'o ssl_state) option" where
  "ape_ssl_init_ctx S cert key s0 =
     (let (ctx, s) = on_lib (SSL_CTX_new S Server_method) s0 in
      if ctx = NULL then Some (NULL, s)
      else do {
        let (ssl, s) = ssl_malloc \<lparr>ssl_ctx = ctx, ssl_con = NULL\<rparr> s;
        s \<leftarrow> ctx_set S Info_callback ctx s;
        s \<leftarrow> ctx_set S Op_all ctx s;
        s \<leftarrow> ctx_set S Read_ahead ctx s;
        s \<leftarrow> ctx_set S Moving_write_buffer ctx s;
        let (r, s) = on_lib (SSL_CTX_set_cipher_list S ctx CIPHER_LIST) s;
        if r \<le> 0 then drop_ctx S ctx ssl s
        else do {
          let (r, s) = on_lib (SSL_CTX_use_certificate_chain_file S ctx cert) s;
          if r = 0 then drop_ctx S ctx ssl s
          else do {
            let (r, s) = on_lib (SSL_CTX_use_PrivateKey_file S ctx (case key of Some k \<Rightarrow> k | None \<Rightarrow> cert)) s;
            if r = 0 then drop_ctx S ctx ssl s
            else do {
              let (r, s) = on_lib (SSL_CTX_check_private_key S ctx) s;
              if r = 0 then drop_ctx S ctx ssl s else Some (ssl, s) } } } })"

text \<open>The result of \<open>SSL_CTX_new\<close> is not looked at.\<close>

definition ape_ssl_init_global_client_ctx :: "'o openssl \<Rightarrow> 'o ssl_state \<Rightarrow> (ptr \<times> 'o ssl_state) option" where
  "ape_ssl_init_global_client_ctx S s0 = do {
     let (ctx, s) = on_lib (SSL_CTX_new S Client_method) s0;
     let (ssl, s) = ssl_malloc \<lparr>ssl_ctx = ctx, ssl_con = NULL\<rparr> s;
     s \<leftarrow> ctx_set S Op_all ctx s;
     s \<leftarrow> ctx_set S Read_ahead ctx s;
     s \<leftarrow> ctx_set S Moving_write_buffer ctx s;
     let (r, s) = on_lib (SSL_CTX_set_cipher_list S ctx CIPHER_LIST) s;
     if r \<le> 0 then drop_ctx S ctx ssl s else Some (ssl, s) }"

definition ape_ssl_init_con ::
  "'o openssl \<Rightarrow> ptr \<Rightarrow> int \<Rightarrow> bool \<Rightarrow> 'o ssl_state \<Rightarrow> (ptr \<times> 'o ssl_state) option" where
  "ape_ssl_init_con S par fd accept s0 =
     (if par = NULL then Some (NULL, s0)
      else do {
        v \<leftarrow> rd (ssl_objs s0) par;
        let (con, s) = on_lib (SSL_new S (ssl_ctx v)) s0;
        if con = NULL then Some (NULL, s)
        else do {
          let s = s\<lparr>ssl_lib := (if accept then SSL_set_accept_state S con else SSL_set_connect_state S con) (ssl_lib s)\<rparr>;
          let (r, s) = on_lib (SSL_set_fd S con fd) s;
          if r \<noteq> 1 then Some (NULL, s\<lparr>ssl_lib := SSL_free S con (ssl_lib s)\<rparr>)
          else Some (ssl_malloc \<lparr>ssl_ctx = NULL, ssl_con = con\<rparr> s) } })"

text \<open>What was read is given with the result; more than asked for is a write beyond the block.\<close>

definition ape_ssl_read :: "'o openssl \<Rightarrow> ptr \<Rightarrow> int \<Rightarrow> 'o ssl_state \<Rightarrow> (int \<times> byte list \<times> 'o ssl_state) option" where
  "ape_ssl_read S ssl num s =
     (if ssl = NULL then Some (0, [], s)
      else do {
        v \<leftarrow> rd (ssl_objs s) ssl;
        if ssl_con v = NULL then Some (0, [], s)
        else let (n, bs, k) = SSL_read S (ssl_con v) num (ssl_lib s)
             in if num < int (length bs) then None else Some (n, bs, s\<lparr>ssl_lib := k\<rparr>) })"

definition ape_ssl_write :: "'o openssl \<Rightarrow> ptr \<Rightarrow> byte list \<Rightarrow> 'o ssl_state \<Rightarrow> (int \<times> 'o ssl_state) option" where
  "ape_ssl_write S ssl buf s =
     (if ssl = NULL then Some (0, s)
      else do {
        v \<leftarrow> rd (ssl_objs s) ssl;
        if ssl_con v = NULL then Some (0, s) else Some (on_lib (SSL_write S (ssl_con v) buf) s) })"

definition ape_ssl_shutdown :: "'o openssl \<Rightarrow> ptr \<Rightarrow> 'o ssl_state \<Rightarrow> 'o ssl_state option" where
  "ape_ssl_shutdown S ssl s =
     (if ssl = NULL then Some s
      else do {
        v \<leftarrow> rd (ssl_objs s) ssl;
        Some (if ssl_con v = NULL then s else s\<lparr>ssl_lib := SSL_shutdown S (ssl_con v) (ssl_lib s)\<rparr>) })"

definition ape_ssl_destroy :: "'o openssl \<Rightarrow> ptr \<Rightarrow> 'o ssl_state \<Rightarrow> 'o ssl_state option" where
  "ape_ssl_destroy S ssl s =
     (if ssl = NULL then Some s
      else do {
        v \<leftarrow> rd (ssl_objs s) ssl;
        let k = (if ssl_ctx v \<noteq> NULL then SSL_CTX_free S (ssl_ctx v) (ssl_lib s) else ssl_lib s);
        let k = (if ssl_con v \<noteq> NULL then SSL_free S (ssl_con v) k else k);
        ssl_dealloc ssl (s\<lparr>ssl_lib := k\<rparr>) })"

end
