(* ===== verification/Net.thy ===== *)
theory Net
  imports Timers Pool Buffer Events Ssl
begin

unbundle bit_operations_syntax

text \<open>
  The state of the library (\<open>ape_global\<close> with the memory it points to) and what it is run
  against: the system calls, and the code of the user of the library. \<open>ape_common.h\<close>,
  \<open>ape_socket.h\<close>, \<open>ape_dns.h\<close>.

  There is one \<open>ape_global\<close> (one thread): the functions take and return it whole, and the
  member \<open>ape\<close> of a socket is left out. Whether the code is compiled with
  \<open>APE_DISABLE_SSL\<close>, as \<open>build.zig\<close> does, is a parameter. The public members
  \<open>ctx\<close> and \<open>_ctx\<close>, which no function reads, are left out too.
\<close>

section \<open>Sockets\<close>

type_synonym uint16 = "16 word"

datatype ape_socket_proto = APE_SOCKET_PT_TCP | APE_SOCKET_PT_UDP | APE_SOCKET_PT_SSL | APE_SOCKET_PT_UNIX

datatype ape_socket_type = APE_SOCKET_TP_UNKNOWN | APE_SOCKET_TP_SERVER | APE_SOCKET_TP_CLIENT

datatype ape_socket_state =
  APE_SOCKET_ST_ONLINE | APE_SOCKET_ST_PROGRESS | APE_SOCKET_ST_PENDING | APE_SOCKET_ST_OFFLINE
| APE_SOCKET_ST_SHUTDOWN

datatype ape_socket_data_autorelease =
  APE_DATA_STATIC | APE_DATA_GLOBAL_STATIC | APE_DATA_AUTORELEASE | APE_DATA_OWN | APE_DATA_COPY

definition APE_SOCKET_WOULD_BLOCK :: byte where "APE_SOCKET_WOULD_BLOCK = 1"

definition APE_SOCKET_JOB_WRITEV :: uint32 where "APE_SOCKET_JOB_WRITEV = 2"
definition APE_SOCKET_JOB_SENDFILE :: uint32 where "APE_SOCKET_JOB_SENDFILE = 4"
definition APE_SOCKET_JOB_SHUTDOWN :: uint32 where "APE_SOCKET_JOB_SHUTDOWN = 8"
definition APE_SOCKET_JOB_ACTIVE :: uint32 where "APE_SOCKET_JOB_ACTIVE = 16"
definition APE_POOL_ALL_FLAGS :: uint32 where "APE_POOL_ALL_FLAGS = APE_POOL_ALLOC"

definition APE_SOCKET_BACKLOG :: int where "APE_SOCKET_BACKLOG = 511"

text \<open>Callbacks are function pointers, 0 is NULL.\<close>

record ape_socket_callbacks =
  on_read :: ptr
  on_disconnect :: ptr
  on_connect :: ptr
  on_connected :: ptr
  on_message :: ptr
  on_drain :: ptr
  cb_arg :: ptr

record sockaddr_in =
  sin_port :: uint16
  sin_addr :: uint32

datatype sockaddr = Addr_in sockaddr_in | Addr_un "byte list"

text \<open>A job and a packet are structs that start with an \<open>ape_pool_t\<close>.\<close>

record ape_socket_jobs = ape_pool +
  job_offset :: nat

record ape_socket_packet = ape_pool +
  plen :: nat
  poffset :: nat
  data_type :: ape_socket_data_autorelease

record ape_socket =
  sk_fd :: int
  sk_evtype :: ape_event
  data_in :: "unit buffer"
  jobs :: ape_pool_list
  sk_addr :: sockaddr_in
  callbacks :: ape_socket_callbacks
  parent :: ptr
  delay_timer :: ptr
  dns_state :: ptr
  sk_flags :: byte
  sk_proto :: ape_socket_proto
  sk_type :: ape_socket_type
  sk_state :: ape_socket_state
  ssl_ptr :: ptr
  need_write :: bool
  issecure :: bool
  remote_host :: ptr
  remote_port :: uint16
  local_port :: uint16
  max_buffer_memory_mb :: uint64
  current_buffer_memory_bytes :: uint64

section \<open>Name resolution\<close>

text \<open>A delegate: a descriptor with a function to call. The pending question of a lookup.\<close>

record fd_delegate =
  dg_fd :: int
  dg_type :: ape_event
  dg_on_io :: ptr
  dg_data :: ptr

record ape_dns_state =
  dns_callback :: ptr
  dns_origin :: "byte list"
  dns_arg :: ptr
  dns_invalid :: bool
  dns_done :: bool

section \<open>The logger\<close>

text \<open>\<open>ape_log.h\<close>: a level, the functions of the user and what they are called with.\<close>

datatype ape_log_lvl = APE_LOG_ERROR | APE_LOG_WARN | APE_LOG_INFO | APE_LOG_DEBUG | APE_LOG_COUNT

record ape_logger =
  log_lvl :: ape_log_lvl
  log_init :: ptr
  log_log :: ptr
  log_cleanup :: ptr
  log_cb_args :: ptr
  log_ctx :: ptr

section \<open>The state\<close>

text \<open>\<open>thread_ctx\<close> is the thread's own pointer to the state, set or NULL.\<close>

record ('b, 'k) ape_net = ape_timers +
  events :: "'b fdevent"
  kernel :: 'k
  sockets :: "ape_socket heap"
  job_mem :: "ape_socket_jobs pool_mem"
  packet_mem :: "ape_socket_packet list_mem"
  data_mem :: "byte list heap"
  dns_list :: "fd_delegate list"
  dns_states :: "ape_dns_state heap"
  nbrk :: ptr
  nco :: int
  ndec :: int
  total_memory_buffered :: uint64
  is_running :: bool
  ape_running :: bool
  kill_handler :: ptr
  urandom_fd :: int
  logger :: ape_logger
  thread_ctx :: bool
  ssl_global_ctx :: ptr

section \<open>What the library runs against\<close>

datatype errno = EAGAIN | EINTR | EINPROGRESS | EADDRNOTAVAIL | ETIMEDOUT | EOTHER

datatype sockopt = SO_KEEPALIVE | TCP_KEEPIDLE | TCP_KEEPINTVL | TCP_USER_TIMEOUT | SO_REUSEADDR | SO_REUSEPORT
  | TCP_DEFER_ACCEPT | TCP_CORK

text \<open>
  The system calls and the functions of the C library on addresses, on a state \<open>'k\<close> of the
  kernel. A write is given the number of bytes asked for and the bytes that are there; a result
  larger than these is a read outside the block. A call that fails gives -1 and an error.
\<close>

record 'k net_sys =
  sys_socket :: "bool \<Rightarrow> bool \<Rightarrow> 'k \<Rightarrow> int \<times> 'k"
  sys_nonblock :: "int \<Rightarrow> 'k \<Rightarrow> int \<times> 'k"
  sys_setsockopt :: "int \<Rightarrow> sockopt \<Rightarrow> int \<Rightarrow> 'k \<Rightarrow> int \<times> 'k"
  sys_bind :: "int \<Rightarrow> sockaddr_in \<Rightarrow> 'k \<Rightarrow> int \<times> 'k"
  sys_listen :: "int \<Rightarrow> int \<Rightarrow> 'k \<Rightarrow> int \<times> 'k"
  sys_connect :: "int \<Rightarrow> sockaddr \<Rightarrow> 'k \<Rightarrow> int \<times> errno \<times> 'k"
  sys_accept :: "int \<Rightarrow> 'k \<Rightarrow> int \<times> errno \<times> sockaddr_in \<times> 'k"
  sys_read :: "int \<Rightarrow> nat \<Rightarrow> 'k \<Rightarrow> int \<times> errno \<times> byte list \<times> 'k"
  sys_write :: "int \<Rightarrow> nat \<Rightarrow> byte list \<Rightarrow> 'k \<Rightarrow> int \<times> errno \<times> 'k"
  sys_writev :: "int \<Rightarrow> byte list list \<Rightarrow> 'k \<Rightarrow> int \<times> errno \<times> 'k"
  sys_sendfile :: "int \<Rightarrow> int \<Rightarrow> nat \<Rightarrow> 'k \<Rightarrow> int \<times> errno \<times> 'k"
  sys_open :: "byte list \<Rightarrow> 'k \<Rightarrow> int \<times> 'k"
  sclose :: "int \<Rightarrow> 'k \<Rightarrow> 'k"
  sys_shutdown :: "int \<Rightarrow> 'k \<Rightarrow> 'k"
  sys_recvfrom :: "int \<Rightarrow> nat \<Rightarrow> 'k \<Rightarrow> int \<times> byte list \<times> sockaddr_in \<times> 'k"
  sys_sendto :: "int \<Rightarrow> byte list \<Rightarrow> sockaddr_in \<Rightarrow> 'k \<Rightarrow> int \<times> 'k"
  sys_so_error :: "int \<Rightarrow> 'k \<Rightarrow> int \<times> int \<times> 'k"
  inet_addr :: "byte list \<Rightarrow> uint32"
  inet_pton :: "byte list \<Rightarrow> bool"
  inet_ntop :: "uint32 \<Rightarrow> byte list"

text \<open>
  What the other files use of \<open>ape_ssl.c\<close>, of \<open>SSL_get_error\<close>, \<open>ERR_clear_error\<close> and
  \<open>SSL_set_tlsext_host_name\<close>, and of the struct (its member \<open>con\<close>). The memory of
  OpenSSL and of \<open>ape_ssl.c\<close> is part of the kernel's state here.
\<close>

record 'k net_ssl =
  tls_library_init :: "'k \<Rightarrow> 'k"
  tls_global_ctx :: "'k \<Rightarrow> (ptr \<times> 'k) option"
  tls_con :: "ptr \<Rightarrow> int \<Rightarrow> bool \<Rightarrow> 'k \<Rightarrow> (ptr \<times> 'k) option"
  tls_read :: "ptr \<Rightarrow> int \<Rightarrow> 'k \<Rightarrow> (int \<times> byte list \<times> 'k) option"
  tls_write :: "ptr \<Rightarrow> byte list \<Rightarrow> 'k \<Rightarrow> (int \<times> 'k) option"
  tls_shutdown :: "ptr \<Rightarrow> 'k \<Rightarrow> 'k option"
  tls_destroy :: "ptr \<Rightarrow> 'k \<Rightarrow> 'k option"
  tls_con_of :: "ptr \<Rightarrow> 'k \<Rightarrow> ptr option"
  tls_clear_error :: "'k \<Rightarrow> 'k"
  tls_get_error :: "ptr \<Rightarrow> int \<Rightarrow> 'k \<Rightarrow> ssl_error \<times> 'k"
  tls_host_name :: "ptr \<Rightarrow> byte list \<Rightarrow> 'k \<Rightarrow> 'k"

text \<open>The stubs at the end of \<open>ape_ssl.c\<close>, compiled with \<open>APE_DISABLE_SSL\<close>. The
  last four are not called then.\<close>

definition ssl_stubs :: "'k net_ssl" where
  "ssl_stubs = \<lparr>tls_library_init = (\<lambda>k. k), tls_global_ctx = (\<lambda>k. Some (NULL, k)),
     tls_con = (\<lambda>p fd a k. Some (NULL, k)), tls_read = (\<lambda>p n k. Some (0, [], k)),
     tls_write = (\<lambda>p bs k. Some (0, k)), tls_shutdown = (\<lambda>p. Some), tls_destroy = (\<lambda>p. Some),
     tls_con_of = (\<lambda>p k. None), tls_clear_error = (\<lambda>k. k),
     tls_get_error = (\<lambda>c n k. (SSL_ERROR_OTHER, k)), tls_host_name = (\<lambda>c h k. k)\<rparr>"

text \<open>What a socket reports to its user, with the function pointer and its argument.\<close>

datatype sock_event =
  Read ptr ptr "byte list" ptr
| Disconnect ptr ptr ptr
| Connect ptr ptr ptr ptr
| Connected ptr ptr ptr
| Message ptr ptr "byte list" sockaddr_in ptr
| Drain ptr ptr ptr

text \<open>
  The code around the library: what the user's callbacks do to the state (they may use every
  function), those of the user's timers, lookups and logger, the user's own delegates, and the functions of
  c-ares that call back.
\<close>

record ('k, 'w) net_env =
  nsys :: "'k net_sys"
  ssl_api :: "'k net_ssl option"
  on_event :: "sock_event \<Rightarrow> 'w \<Rightarrow> 'w option"
  user_timer :: "ptr \<Rightarrow> ptr \<Rightarrow> 'w \<Rightarrow> (int \<times> 'w) option"
  user_dns :: "ptr \<Rightarrow> byte list option \<Rightarrow> ptr \<Rightarrow> int \<Rightarrow> 'w \<Rightarrow> 'w option"
  user_delegate :: "ptr \<Rightarrow> 'w \<Rightarrow> fd_delegate option"
  user_io :: "ptr \<Rightarrow> int \<Rightarrow> uint32 \<Rightarrow> ptr \<Rightarrow> 'w \<Rightarrow> 'w option"
  user_log_init :: "ptr \<Rightarrow> ptr \<Rightarrow> 'w \<Rightarrow> (ptr \<times> 'w) option"
  user_log :: "ptr \<Rightarrow> ptr \<Rightarrow> ptr \<Rightarrow> ape_log_lvl \<Rightarrow> byte list \<Rightarrow> byte list \<Rightarrow> 'w \<Rightarrow> 'w option"
  user_log_cleanup :: "ptr \<Rightarrow> ptr \<Rightarrow> ptr \<Rightarrow> 'w \<Rightarrow> 'w option"
  user_kill :: "ptr \<Rightarrow> 'w \<Rightarrow> (int \<times> 'w) option"
  ares_lookup :: "byte list \<Rightarrow> ptr \<Rightarrow> 'w \<Rightarrow> 'w option"
  ares_process_fd :: "int \<Rightarrow> int \<Rightarrow> 'w \<Rightarrow> 'w option"
  ares_cancel :: "'w \<Rightarrow> 'w option"
  ares_destroy :: "'w \<Rightarrow> 'w option"

type_synonym ('b, 'k) net_caller = "('b, 'k, unit) ape_net_ext caller"

type_synonym ('b, 'k) env = "('k, ('b, 'k) ape_net) net_env"

text \<open>The functions of \<open>ape_ssl.c\<close> as they are compiled: without \<open>ssl_api\<close> the stubs.\<close>

definition ssl_of :: "('b, 'k) env \<Rightarrow> 'k net_ssl" where
  "ssl_of E = (case ssl_api E of None \<Rightarrow> ssl_stubs | Some T \<Rightarrow> T)"

text \<open>The numbers of the library's own callbacks.\<close>

definition FN_ape_socket_free :: ptr where "FN_ape_socket_free = 1"
definition FN_ape_socket_destroy :: ptr where "FN_ape_socket_destroy = 2"
definition FN_ape_socket_connected :: ptr where "FN_ape_socket_connected = 3"
definition FN_shutdown_delay_cb :: ptr where "FN_shutdown_delay_cb = 4"
definition FN_params_free :: ptr where "FN_params_free = 5"
definition FN_ready_to_connect :: ptr where "FN_ready_to_connect = 6"
definition FN_ares_io :: ptr where "FN_ares_io = 7"

section \<open>Access to the state\<close>

definition sock :: "ptr \<Rightarrow> ('b, 'k) ape_net \<Rightarrow> ape_socket option" where
  "sock p w = rd (sockets w) p"

definition upd_sock :: "ptr \<Rightarrow> (ape_socket \<Rightarrow> ape_socket) \<Rightarrow> ('b, 'k) ape_net \<Rightarrow> ('b, 'k) ape_net option" where
  "upd_sock p f w = do { h \<leftarrow> wr (sockets w) p f; Some (w\<lparr>sockets := h\<rparr>) }"

text \<open>A system call on the kernel in the state, and a function of \<open>ape_events.c\<close>.\<close>

definition on_kernel :: "('k \<Rightarrow> 'k) \<Rightarrow> ('b, 'k) ape_net \<Rightarrow> ('b, 'k) ape_net" where
  "on_kernel f w = w\<lparr>kernel := f (kernel w)\<rparr>"

definition on_ssl :: "('k \<Rightarrow> 'k option) \<Rightarrow> ('b, 'k) ape_net \<Rightarrow> ('b, 'k) ape_net option" where
  "on_ssl f w = do { k \<leftarrow> f (kernel w); Some (w\<lparr>kernel := k\<rparr>) }"

definition on_events ::
  "('b fdevent \<Rightarrow> ('r \<times> 'b fdevent) option) \<Rightarrow> ('b, 'k) ape_net \<Rightarrow> ('r \<times> ('b, 'k) ape_net) option" where
  "on_events f w = do { (r, ev) \<leftarrow> f (events w); Some (r, w\<lparr>events := ev\<rparr>) }"

text \<open>\<open>free\<close>, which ignores NULL, and \<open>strdup\<close>.\<close>

definition free_data :: "ptr \<Rightarrow> ('b, 'k) ape_net \<Rightarrow> ('b, 'k) ape_net option" where
  "free_data p w = (if p = NULL then Some w else do { h \<leftarrow> dealloc (data_mem w) p; Some (w\<lparr>data_mem := h\<rparr>) })"

definition malloc_data :: "byte list \<Rightarrow> ('b, 'k) ape_net \<Rightarrow> ptr \<times> ('b, 'k) ape_net" where
  "malloc_data bs w = (nbrk w, w\<lparr>data_mem := (data_mem w)(nbrk w \<mapsto> bs), nbrk := nbrk w + 1\<rparr>)"

text \<open>\<open>htons\<close> on a little-endian machine.\<close>

definition htons :: "uint16 \<Rightarrow> uint16" where
  "htons p = push_bit 8 p OR drop_bit 8 p"

text \<open>\<open>timer_dispatch_async\<close>, a timer that is due at once.\<close>

definition timer_dispatch_async :: "ptr \<Rightarrow> ptr \<Rightarrow> ('b, 'k) ape_net \<Rightarrow> ('b, 'k) ape_net option" where
  "timer_dispatch_async cb x w = map_option snd (APE_timer_create 0 cb x w)"

end
