(* ===== verification/Dns.thy ===== *)
theory Dns
  imports Net
begin

unbundle bit_operations_syntax

text \<open>
  \<open>ape_dns.c\<close>: the descriptors c-ares asks to be watched are kept in a table of 32 delegates, in
  which descriptor 0 marks a free entry; a lookup is a question that is freed once it is answered.
  The functions of c-ares are parameters.
\<close>

section \<open>The table of descriptors\<close>

text \<open>Where the delegates are: the event descriptor of entry \<open>i\<close>.\<close>

definition dns_base :: ptr where
  "dns_base = 0x10000000"

definition dns_slot :: "nat \<Rightarrow> ptr" where
  "dns_slot i = dns_base + i"

text \<open>\<open>read ? EVENT_READ : 0 | write ? EVENT_WRITE : 0\<close>, as C groups it.\<close>

definition listen_for :: "bool \<Rightarrow> bool \<Rightarrow> uint32" where
  "listen_for r w = (if r then EVENT_READ else if w then EVENT_WRITE else 0)"

text \<open>The loop: \<open>Inl i\<close> when the descriptor is found, else the last candidate for a free entry.\<close>

fun slot_loop :: "fd_delegate list \<Rightarrow> int \<Rightarrow> nat \<Rightarrow> nat \<Rightarrow> nat + nat" where
  "slot_loop [] s i f = Inr f"
| "slot_loop (d # ds) s i f =
     (if f = 0 \<and> dg_fd d = 0 then slot_loop ds s (i + 1) i
      else if dg_fd d = s then Inl i
      else slot_loop ds s (i + 1) f)"

definition ares_socket_cb ::
  "('b, 'k) env \<Rightarrow> int \<Rightarrow> bool \<Rightarrow> bool \<Rightarrow> ('b, 'k) ape_net \<Rightarrow> ('b, 'k) ape_net option" where
  "ares_socket_cb E s rflag wflag w =
     (let listenfor = listen_for rflag wflag in
      case slot_loop (dns_list w) s 0 0 of
        Inl i \<Rightarrow>
          if listenfor = 0 then do {
            (x, w1) \<leftarrow> on_events (events_del s) (w\<lparr>dns_list := (dns_list w)[i := (dns_list w ! i)\<lparr>dg_fd := 0\<rparr>]\<rparr>);
            Some (on_kernel (sclose (nsys E) s) w1) }
          else do {
            (x, w1) \<leftarrow> on_events (events_mod (dns_slot i) (dg_fd (dns_list w ! i)) (listenfor OR EVENT_LEVEL)) w;
            Some w1 }
      | Inr f \<Rightarrow>
          if length (dns_list w) \<le> f then None
          else do {
            let w1 = on_kernel (\<lambda>k. snd (sys_nonblock (nsys E) s k)) w;
            let w2 = w1\<lparr>dns_list := (dns_list w1)[f := \<lparr>dg_fd = s, dg_type = APE_EVENT_DELEGATE,
                                                        dg_on_io = FN_ares_io, dg_data = NULL\<rparr>]\<rparr>;
            (x, w3) \<leftarrow> on_events (events_add (dns_slot f) s (listenfor OR EVENT_LEVEL)) w2;
            Some w3 })"

definition ares_io :: "('b, 'k) env \<Rightarrow> int \<Rightarrow> uint32 \<Rightarrow> ('b, 'k) ape_net \<Rightarrow> ('b, 'k) ape_net option" where
  "ares_io E fd ev w = ares_process_fd E (if has_flag ev EVENT_READ then fd else - 1)
     (if has_flag ev EVENT_WRITE then fd else - 1) w"

text \<open>\<open>calloc\<close> gives entries of zeros. The two results of c-ares are 0 for success.\<close>

definition ape_dns_init :: "int \<Rightarrow> int \<Rightarrow> ('b, 'k) ape_net \<Rightarrow> int \<times> ('b, 'k) ape_net" where
  "ape_dns_init library_init init_options w =
     (if library_init \<noteq> 0 \<or> init_options \<noteq> 0 then (- 1, w)
      else (0, w\<lparr>dns_list := replicate 32 \<lparr>dg_fd = 0, dg_type = APE_EVENT_SOCKET, dg_on_io = NULL, dg_data = NULL\<rparr>\<rparr>))"

section \<open>Lookups\<close>

definition params_free :: "ptr \<Rightarrow> ('b, 'k) ape_net \<Rightarrow> (int \<times> ('b, 'k) ape_net) option" where
  "params_free p w = do { h \<leftarrow> dealloc (dns_states w) p; Some (0, w\<lparr>dns_states := h\<rparr>) }"

type_synonym ('b, 'k) dns_caller =
  "ptr \<Rightarrow> byte list option \<Rightarrow> ptr \<Rightarrow> int \<Rightarrow> ('b, 'k) ape_net \<Rightarrow> ('b, 'k) ape_net option"

text \<open>The answer of c-ares: a status, and on success the first address.\<close>

definition ares_gethostbyname_cb ::
  "('b, 'k) env \<Rightarrow> ('b, 'k) dns_caller \<Rightarrow> ptr \<Rightarrow> int \<Rightarrow> uint32 \<Rightarrow> ('b, 'k) ape_net \<Rightarrow> ('b, 'k) ape_net option" where
  "ares_gethostbyname_cb E dcall p status host w = do {
     h \<leftarrow> wr (dns_states w) p (\<lambda>d. d\<lparr>dns_done := True\<rparr>);
     d \<leftarrow> rd h p;
     let w1 = w\<lparr>dns_states := h\<rparr>;
     if dns_invalid d then map_option snd (params_free p w1)
     else do {
       w2 \<leftarrow> dcall (dns_callback d) (if status = 0 then Some (inet_ntop (nsys E) host) else None) (dns_arg d) status w1;
       x \<leftarrow> rd (dns_states w2) p;
       timer_dispatch_async FN_params_free p w2 } }"

definition ape_gethostbyname ::
  "('b, 'k) env \<Rightarrow> ('b, 'k) dns_caller \<Rightarrow> byte list \<Rightarrow> ptr \<Rightarrow> ptr \<Rightarrow> ('b, 'k) ape_net
    \<Rightarrow> (ptr \<times> ('b, 'k) ape_net) option" where
  "ape_gethostbyname E dcall host cb x w =
     (if inet_pton (nsys E) host then do { w1 \<leftarrow> dcall cb (Some host) x 0 w; Some (NULL, w1) }
      else do {
        let p = nbrk w;
        let d = \<lparr>dns_callback = cb, dns_origin = host, dns_arg = x, dns_invalid = False, dns_done = False\<rparr>;
        w1 \<leftarrow> ares_lookup E host p (w\<lparr>dns_states := (dns_states w)(p \<mapsto> d), nbrk := p + 1\<rparr>);
        d1 \<leftarrow> rd (dns_states w1) p;
        Some (if dns_done d1 then NULL else p, w1) })"

definition ape_dns_invalidate :: "ptr \<Rightarrow> ('b, 'k) ape_net \<Rightarrow> ('b, 'k) ape_net option" where
  "ape_dns_invalidate p w =
     (if p = NULL then Some w
      else do { h \<leftarrow> wr (dns_states w) p (\<lambda>d. d\<lparr>dns_invalid := True\<rparr>); Some (w\<lparr>dns_states := h\<rparr>) })"

end
