(* ===== verification/Socket.thy ===== *)
theory Socket
  imports Dns
begin

unbundle bit_operations_syntax

text \<open>
  \<open>ape_socket.c\<close>, the life of a socket: creating, listening, connecting, accepting, reading,
  shutting down and freeing, with the timers and callbacks these go through. The job list is in
  theory Jobs, save for what freeing a socket does to it.

  The timer functions take the caller of the timers' callbacks (\<open>call\<close>) as parameter, since a
  timer may be destroyed with its clear function; \<open>net_call\<close> of theory Jobs closes the loop.
\<close>

section \<open>Job slots\<close>

text \<open>The struct sizes on a 64-bit target. Memory from malloc is not initialised.\<close>

definition sizeof_jobs :: nat where "sizeof_jobs = 40"
definition sizeof_packet :: nat where "sizeof_packet = 56"

definition junk_job :: ape_socket_jobs where
  "junk_job = \<lparr>pdata = 0xdead, pnext = 0xdead, pprev = 0xdead, pflags = 0xdead, job_offset = 0xdead\<rparr>"

definition junk_packet :: ape_socket_packet where
  "junk_packet = \<lparr>pdata = 0xdead, pnext = 0xdead, pprev = 0xdead, pflags = 0xdead,
     plen = 0xdead, poffset = 0xdead, data_type = APE_DATA_OWN\<rparr>"

definition ape_init_job_list :: "nat \<Rightarrow> ('b, 'k) ape_net \<Rightarrow> (ape_pool_list \<times> ('b, 'k) ape_net) option" where
  "ape_init_job_list n w = do {
     (l, m) \<leftarrow> ape_init_pool_list junk_job sizeof_jobs n (job_mem w);
     Some (l, w\<lparr>job_mem := m\<rparr>) }"

definition ape_socket_new_packet_queue :: "nat \<Rightarrow> ('b, 'k) ape_net \<Rightarrow> (ptr \<times> ('b, 'k) ape_net) option" where
  "ape_socket_new_packet_queue n w = do {
     (l, m) \<leftarrow> ape_new_pool_list junk_packet sizeof_packet n (packet_mem w);
     Some (l, w\<lparr>packet_mem := m\<rparr>) }"

text \<open>A descriptor in the union with the pointer: the low 32 bits of the word.\<close>

definition set_fd :: "int \<Rightarrow> nat \<Rightarrow> nat" where
  "set_fd fd d = (d div 2 ^ 32) * 2 ^ 32 + nat (fd mod 2 ^ 32)"

definition get_fd :: "nat \<Rightarrow> int" where
  "get_fd d = c_int (int (d mod 2 ^ 32))"

definition job_flag :: "uint32 \<Rightarrow> 'a ape_pool_scheme \<Rightarrow> bool" where
  "job_flag f j \<longleftrightarrow> pflags j AND f \<noteq> 0"

definition job_kind :: "'a ape_pool_scheme \<Rightarrow> uint32" where
  "job_kind j = pflags j AND NOT (APE_POOL_ALL_FLAGS OR APE_SOCKET_JOB_ACTIVE)"

definition ape_socket_job_get_slot ::
  "ptr \<Rightarrow> uint32 \<Rightarrow> ('b, 'k) ape_net \<Rightarrow> (ptr \<times> ('b, 'k) ape_net) option" where
  "ape_socket_job_get_slot p ty w = do {
     s \<leftarrow> sock p w;
     let cur = pl_current (jobs s);
     j \<leftarrow> rd (cells (job_mem w)) cur;
     if (ty = APE_SOCKET_JOB_WRITEV \<and> job_flag APE_SOCKET_JOB_WRITEV j) \<or> \<not> job_flag APE_SOCKET_JOB_ACTIVE j
     then do {
       h \<leftarrow> wr (cells (job_mem w)) cur (\<lambda>j. j\<lparr>pflags := pflags j OR APE_SOCKET_JOB_ACTIVE OR ty\<rparr>);
       Some (cur, w\<lparr>job_mem := (job_mem w)\<lparr>cells := h\<rparr>\<rparr>) }
     else do {
       (nj, l, m) \<leftarrow> (if cur = pl_queue (jobs s) then ape_grow_pool junk_job (jobs s) 2 (job_mem w)
                      else Some (pnext j, jobs s, job_mem w));
       w1 \<leftarrow> upd_sock p (\<lambda>s. s\<lparr>jobs := l\<lparr>pl_current := nj\<rparr>\<rparr>) (w\<lparr>job_mem := m\<rparr>);
       h \<leftarrow> wr (cells m) nj (\<lambda>j. j\<lparr>pflags := pflags j OR APE_SOCKET_JOB_ACTIVE OR ty\<rparr>);
       Some (nj, w1\<lparr>job_mem := m\<lparr>cells := h\<rparr>\<rparr>) } }"

text \<open>Is there a job waiting, or is the socket known to block?\<close>

definition would_block :: "ape_socket \<Rightarrow> bool" where
  "would_block s \<longleftrightarrow> sk_flags s AND APE_SOCKET_WOULD_BLOCK \<noteq> 0"

definition must_queue :: "ptr \<Rightarrow> ('b, 'k) ape_net \<Rightarrow> bool option" where
  "must_queue p w = do {
     s \<leftarrow> sock p w;
     if would_block s then Some True
     else do { j \<leftarrow> rd (cells (job_mem w)) (pl_head (jobs s)); Some (job_flag APE_SOCKET_JOB_ACTIVE j) } }"

section \<open>Creating\<close>

definition ape_socket_release_data ::
  "ptr \<Rightarrow> ape_socket_data_autorelease \<Rightarrow> ('b, 'k) ape_net \<Rightarrow> ('b, 'k) ape_net option" where
  "ape_socket_release_data data ty w = (case ty of
     APE_DATA_AUTORELEASE \<Rightarrow> free_data data w
   | APE_DATA_COPY \<Rightarrow> free_data data w
   | _ \<Rightarrow> Some w)"

definition new_socket :: "int \<Rightarrow> ape_socket_proto \<Rightarrow> ape_pool_list \<Rightarrow> ape_socket" where
  "new_socket fd pt l = \<lparr>sk_fd = fd, sk_evtype = APE_EVENT_SOCKET, data_in = buffer_init, jobs = l,
     sk_addr = \<lparr>sin_port = 0, sin_addr = 0\<rparr>,
     callbacks = \<lparr>on_read = NULL, on_disconnect = NULL, on_connect = NULL, on_connected = NULL,
                  on_message = NULL, on_drain = NULL, cb_arg = NULL\<rparr>,
     parent = NULL, delay_timer = NULL, dns_state = NULL, sk_flags = 0, sk_proto = pt,
     sk_type = APE_SOCKET_TP_UNKNOWN, sk_state = APE_SOCKET_ST_PENDING, ssl_ptr = NULL, need_write = False,
     issecure = (pt = APE_SOCKET_PT_SSL), remote_host = NULL, remote_port = 0, local_port = 0,
     max_buffer_memory_mb = 0, current_buffer_memory_bytes = 0\<rparr>"

definition APE_socket_new ::
  "('b, 'k) env \<Rightarrow> ape_socket_proto \<Rightarrow> int \<Rightarrow> ('b, 'k) ape_net \<Rightarrow> (ptr \<times> ('b, 'k) ape_net) option" where
  "APE_socket_new E pt from w0 =
     (let w = w0\<lparr>nco := c_int (nco w0 + 1)\<rparr>;
          (fd, k) = (if from = 0 then sys_socket (nsys E) (pt = APE_SOCKET_PT_UNIX) (pt = APE_SOCKET_PT_UDP) (kernel w)
                     else (from, kernel w))
      in if from = 0 \<and> fd = - 1 then Some (NULL, w\<lparr>kernel := k\<rparr>)
         else let (r, k) = sys_nonblock (nsys E) fd k; w1 = w\<lparr>kernel := k\<rparr>
              in if r = - 1 then Some (NULL, w1)
                 else do {
                   (l, w2) \<leftarrow> ape_init_job_list 2 w1;
                   Some (nbrk w2, w2\<lparr>sockets := (sockets w2)(nbrk w2 \<mapsto> new_socket fd pt l), nbrk := nbrk w2 + 1\<rparr>) })"

definition APE_socket_setBufferMaxSize :: "ptr \<Rightarrow> uint64 \<Rightarrow> ('b, 'k) ape_net \<Rightarrow> ('b, 'k) ape_net option" where
  "APE_socket_setBufferMaxSize p MB w = upd_sock p (\<lambda>s. s\<lparr>max_buffer_memory_mb := MB\<rparr>) w"

text \<open>The options are set one after the other, until one fails.\<close>

fun set_options :: "'k net_sys \<Rightarrow> int \<Rightarrow> (sockopt \<times> int) list \<Rightarrow> 'k \<Rightarrow> int \<times> 'k" where
  "set_options S fd [] k = (1, k)"
| "set_options S fd ((opt, v) # opts) k =
     (let (r, k1) = sys_setsockopt S fd opt v k in if r = - 1 then (0, k1) else set_options S fd opts k1)"

definition APE_socket_setTimeout ::
  "('b, 'k) env \<Rightarrow> ptr \<Rightarrow> int \<Rightarrow> ('b, 'k) ape_net \<Rightarrow> (int \<times> ('b, 'k) ape_net) option" where
  "APE_socket_setTimeout E p secs w = do {
     s \<leftarrow> sock p w;
     if sk_proto s = APE_SOCKET_PT_UDP then Some (0, w)
     else let (r, k) = set_options (nsys E) (sk_fd s)
            [(SO_KEEPALIVE, 1), (TCP_KEEPIDLE, secs), (TCP_KEEPINTVL, 5), (TCP_KEEPINTVL, 3),
             (TCP_USER_TIMEOUT, (secs * 1000) mod 2 ^ 64)] (kernel w)
          in Some (r, w\<lparr>kernel := k\<rparr>) }"

section \<open>Closing and freeing\<close>

definition ape_socket_close ::
  "('b, 'k) env \<Rightarrow> ptr \<Rightarrow> ('b, 'k) ape_net \<Rightarrow> (int \<times> ('b, 'k) ape_net) option" where
  "ape_socket_close E p w =
     (if p = NULL then Some (0, w)
      else do {
        s \<leftarrow> sock p w;
        if sk_state s = APE_SOCKET_ST_OFFLINE then Some (0, w)
        else do {
          w1 \<leftarrow> ape_dns_invalidate (dns_state s) w;
          w2 \<leftarrow> upd_sock p (\<lambda>s. s\<lparr>sk_state := APE_SOCKET_ST_OFFLINE\<rparr>) w1;
          w3 \<leftarrow> (if on_disconnect (callbacks s) \<noteq> NULL
                 then on_event E (Disconnect (on_disconnect (callbacks s)) p (cb_arg (callbacks s))) w2 else Some w2);
          s3 \<leftarrow> sock p w3;
          let w4 = on_kernel (sclose (nsys E) (sk_fd s3)) w3;
          (r, w5) \<leftarrow> on_events (events_del (sk_fd s3)) w4;
          Some (1, w5) } })"

definition ape_socket_packet_pool_cleaner :: "ape_socket_packet \<Rightarrow> ('b, 'k) ape_net \<Rightarrow> ('b, 'k) ape_net option" where
  "ape_socket_packet_pool_cleaner v w =
     (if pdata v = NULL then Some w
      else ape_socket_release_data (pdata v) (data_type v)
             (w\<lparr>total_memory_buffered := total_memory_buffered w - (of_nat (plen v) - of_nat (poffset v))\<rparr>))"

definition ape_socket_job_pool_cleaner ::
  "('b, 'k) env \<Rightarrow> ape_socket_jobs \<Rightarrow> ('b, 'k) ape_net \<Rightarrow> ('b, 'k) ape_net option" where
  "ape_socket_job_pool_cleaner E j w =
     (if \<not> job_flag APE_SOCKET_JOB_ACTIVE j then Some w
      else if job_kind j = APE_SOCKET_JOB_WRITEV then do {
        (w1, m) \<leftarrow> ape_destroy_pool_list_with_cleaner (pdata j) (Some ape_socket_packet_pool_cleaner) w (packet_mem w);
        Some (w1\<lparr>packet_mem := m\<rparr>) }
      else if job_kind j = APE_SOCKET_JOB_SENDFILE then Some (on_kernel (sclose (nsys E) (get_fd (pdata j))) w)
      else Some w)"

definition ape_socket_free ::
  "('b, 'k) env \<Rightarrow> ('b, 'k) net_caller \<Rightarrow> ptr \<Rightarrow> ('b, 'k) ape_net \<Rightarrow> (int \<times> ('b, 'k) ape_net) option" where
  "ape_socket_free E call p w = do {
     s0 \<leftarrow> sock p w;
     let w0 = w\<lparr>ndec := c_int (ndec w + 1)\<rparr>;
     w0 \<leftarrow> (if issecure s0 then on_ssl (tls_destroy (ssl_of E) (ssl_ptr s0)) w0 else Some w0);
     w1 \<leftarrow> upd_sock p (\<lambda>s. s\<lparr>data_in := buffer_delete (data_in s)\<rparr>) w0;
     s \<leftarrow> sock p w1;
     (w2, m) \<leftarrow> ape_destroy_pool_with_cleaner (pl_head (jobs s)) (Some (ape_socket_job_pool_cleaner E)) w1 (job_mem w1);
     let w3 = w2\<lparr>job_mem := m\<rparr>;
     w4 \<leftarrow> (if delay_timer s \<noteq> NULL then APE_timer_destroy call (delay_timer s) w3 else Some w3);
     s4 \<leftarrow> sock p w4;
     w5 \<leftarrow> free_data (remote_host s4) w4;
     h \<leftarrow> dealloc (sockets w5) p;
     Some (0, w5\<lparr>sockets := h\<rparr>) }"

text \<open>The callback of the timer that \<open>ape_socket_destroy_async\<close> starts.\<close>

definition socket_destroy_cb ::
  "('b, 'k) env \<Rightarrow> ('b, 'k) net_caller \<Rightarrow> ptr \<Rightarrow> ('b, 'k) ape_net \<Rightarrow> (int \<times> ('b, 'k) ape_net) option" where
  "socket_destroy_cb E call p w = do {
     (r, w1) \<leftarrow> ape_socket_close E p w;
     w2 \<leftarrow> (if r \<noteq> 0 then map_option snd (ape_socket_free E call p w1) else Some w1);
     Some (0, w2) }"

definition ape_socket_destroy_async :: "ptr \<Rightarrow> ('b, 'k) ape_net \<Rightarrow> (int \<times> ('b, 'k) ape_net) option" where
  "ape_socket_destroy_async p w =
     (if p = NULL then Some (- 1, w)
      else do {
        s \<leftarrow> sock p w;
        if sk_state s = APE_SOCKET_ST_OFFLINE then Some (- 1, w)
        else do { w1 \<leftarrow> timer_dispatch_async FN_ape_socket_destroy p w; Some (0, w1) } })"

definition ape_socket_destroy ::
  "('b, 'k) env \<Rightarrow> ptr \<Rightarrow> ('b, 'k) ape_net \<Rightarrow> (int \<times> ('b, 'k) ape_net) option" where
  "ape_socket_destroy E p w = do {
     (r, w1) \<leftarrow> ape_socket_close E p w;
     if r = 0 then Some (- 1, w1)
     else do {
       s \<leftarrow> sock p w1;
       w2 \<leftarrow> timer_dispatch_async FN_ape_socket_free p w1;
       Some (0, w2) } }"

section \<open>Shutting down\<close>

definition ape_shutdown :: "('b, 'k) env \<Rightarrow> ptr \<Rightarrow> ('b, 'k) ape_net \<Rightarrow> ('b, 'k) ape_net option" where
  "ape_shutdown E p w = do {
     s \<leftarrow> sock p w;
     if sk_state s \<noteq> APE_SOCKET_ST_ONLINE then Some w
     else do {
       w0 \<leftarrow> (if issecure s then on_ssl (tls_shutdown (ssl_of E) (ssl_ptr s)) w else Some w);
       let w1 = (if sk_proto s \<noteq> APE_SOCKET_PT_UDP then on_kernel (sys_shutdown (nsys E) (sk_fd s)) w0 else w0);
       w2 \<leftarrow> upd_sock p (\<lambda>s. s\<lparr>sk_state := APE_SOCKET_ST_SHUTDOWN\<rparr>) w1;
       map_option snd (if sk_type s = APE_SOCKET_TP_SERVER then ape_socket_destroy E p w2
                       else ape_socket_destroy_async p w2) } }"

definition APE_socket_shutdown :: "('b, 'k) env \<Rightarrow> ptr \<Rightarrow> ('b, 'k) ape_net \<Rightarrow> ('b, 'k) ape_net option" where
  "APE_socket_shutdown E p w =
     (if p = NULL then Some w
      else do {
        s \<leftarrow> sock p w;
        case sk_state s of
          APE_SOCKET_ST_SHUTDOWN \<Rightarrow> Some w
        | APE_SOCKET_ST_PROGRESS \<Rightarrow> map_option snd (ape_socket_destroy E p w)
        | APE_SOCKET_ST_PENDING \<Rightarrow> map_option snd (ape_socket_destroy E p w)
        | APE_SOCKET_ST_OFFLINE \<Rightarrow> Some w
        | APE_SOCKET_ST_ONLINE \<Rightarrow> do {
            q \<leftarrow> must_queue p w;
            if q then map_option snd (ape_socket_job_get_slot p APE_SOCKET_JOB_SHUTDOWN w)
            else ape_shutdown E p w } })"

definition ape_socket_shutdown_delay_cb ::
  "('b, 'k) env \<Rightarrow> ptr \<Rightarrow> ('b, 'k) ape_net \<Rightarrow> (int \<times> ('b, 'k) ape_net) option" where
  "ape_socket_shutdown_delay_cb E p w = do {
     w1 \<leftarrow> APE_socket_shutdown E p w;
     w2 \<leftarrow> upd_sock p (\<lambda>s. s\<lparr>delay_timer := NULL\<rparr>) w1;
     Some (0, w2) }"

definition APE_socket_shutdown_delay :: "ptr \<Rightarrow> int \<Rightarrow> ('b, 'k) ape_net \<Rightarrow> ('b, 'k) ape_net option" where
  "APE_socket_shutdown_delay p ms w =
     (if p = NULL then Some w
      else do {
        s \<leftarrow> sock p w;
        if delay_timer s \<noteq> NULL then Some w
        else do {
          (t, w1) \<leftarrow> APE_timer_create ms FN_shutdown_delay_cb p w;
          upd_sock p (\<lambda>s. s\<lparr>delay_timer := t\<rparr>) w1 } })"

definition APE_socket_shutdown_now :: "('b, 'k) env \<Rightarrow> ptr \<Rightarrow> ('b, 'k) ape_net \<Rightarrow> ('b, 'k) ape_net option" where
  "APE_socket_shutdown_now E p w =
     (if p = NULL then Some w
      else do {
        s \<leftarrow> sock p w;
        case sk_state s of
          APE_SOCKET_ST_SHUTDOWN \<Rightarrow> Some w
        | APE_SOCKET_ST_PROGRESS \<Rightarrow> map_option snd (ape_socket_destroy E p w)
        | APE_SOCKET_ST_PENDING \<Rightarrow> map_option snd (ape_socket_destroy E p w)
        | APE_SOCKET_ST_OFFLINE \<Rightarrow> Some w
        | APE_SOCKET_ST_ONLINE \<Rightarrow> ape_shutdown E p w })"

definition APE_socket_remove_callbacks :: "ptr \<Rightarrow> ('b, 'k) ape_net \<Rightarrow> ('b, 'k) ape_net option" where
  "APE_socket_remove_callbacks p w = upd_sock p (\<lambda>s. s\<lparr>callbacks := (callbacks s)\<lparr>on_connect := NULL,
     on_connected := NULL, on_disconnect := NULL, on_drain := NULL, on_message := NULL, cb_arg := NULL\<rparr>\<rparr>) w"

section \<open>Listening and connecting\<close>

text \<open>The options of \<open>APE_socket_listen\<close> are set whatever the result.\<close>

definition try_option :: "'k net_sys \<Rightarrow> int \<Rightarrow> sockopt \<Rightarrow> int \<Rightarrow> 'k \<Rightarrow> 'k" where
  "try_option S fd opt v k = snd (sys_setsockopt S fd opt v k)"

definition APE_socket_listen ::
  "('b, 'k) env \<Rightarrow> ptr \<Rightarrow> uint16 \<Rightarrow> byte list \<Rightarrow> bool \<Rightarrow> int \<Rightarrow> ('b, 'k) ape_net \<Rightarrow> (int \<times> ('b, 'k) ape_net) option" where
  "APE_socket_listen E p port local_ip defer_accept reuse_port w =
     (if port = 0 then Some (- 1, w)
      else do {
        s \<leftarrow> sock p w;
        let S = nsys E;
        let fd = sk_fd s;
        let k = try_option S fd SO_REUSEADDR 1 (kernel w);
        let k = (if reuse_port \<noteq> 0 then try_option S fd SO_REUSEPORT reuse_port k else k);
        let (r, k) = sys_bind S fd \<lparr>sin_port = htons port, sin_addr = inet_addr S local_ip\<rparr> k;
        let (r, k) = (if r \<noteq> - 1 \<and> sk_proto s \<in> {APE_SOCKET_PT_TCP, APE_SOCKET_PT_SSL}
                      then sys_listen S fd APE_SOCKET_BACKLOG k else (r, k));
        if r = - 1 then Some (- 1, w\<lparr>kernel := sclose S fd k\<rparr>)
        else do {
          let k = (if defer_accept then try_option S fd TCP_DEFER_ACCEPT 2 k else k);
          w1 \<leftarrow> upd_sock p (\<lambda>s. s\<lparr>sk_type := APE_SOCKET_TP_SERVER, sk_state := APE_SOCKET_ST_ONLINE,
                                   local_port := port\<rparr>) (w\<lparr>kernel := k\<rparr>);
          (x, w2) \<leftarrow> on_events (events_add p fd (EVENT_READ OR EVENT_WRITE)) w1;
          Some (0, w2) } })"

text \<open>
  The address \<open>connect\<close> is given, of the size of a \<open>struct sockaddr\<close>: 2 bytes of family
  and 14 of the rest.
\<close>

definition connect_addr :: "'k net_sys \<Rightarrow> ape_socket \<Rightarrow> byte list \<Rightarrow> sockaddr" where
  "connect_addr S s remote_ip =
     (if sk_proto s = APE_SOCKET_PT_UNIX then Addr_un (take 14 (take 107 remote_ip))
      else Addr_in \<lparr>sin_port = htons (remote_port s), sin_addr = inet_addr S remote_ip\<rparr>)"

text \<open>From \<open>retry_connect\<close> on: 0 when connecting, 1 when \<open>bind\<close> failed, 2 when
  \<open>connect\<close> did.\<close>

function connect_try ::
  "'k net_sys \<Rightarrow> int \<Rightarrow> uint16 \<Rightarrow> uint32 \<Rightarrow> sockaddr \<Rightarrow> nat \<Rightarrow> 'k \<Rightarrow> nat \<times> 'k" where
  "connect_try S fd lport any addr ntry k =
     (let (r, k) = (if lport \<noteq> 0 then sys_bind S fd \<lparr>sin_port = htons lport, sin_addr = any\<rparr> k else (0, k))
      in if r = - 1 then (1, k)
         else let (c, e, k) = sys_connect S fd addr k
              in if c \<noteq> - 1 \<or> e = EAGAIN \<or> e = EINPROGRESS then (0, k)
                 else if e = EADDRNOTAVAIL \<and> ntry + 1 < 10 then connect_try S fd lport any addr (ntry + 1) k
                 else (2, k))"
  by pat_completeness auto
termination
  by (relation "measure (\<lambda>(S, fd, lport, any, addr, ntry, k). 10 - ntry)") auto

declare connect_try.simps [simp del]

definition any_ip :: "byte list" where
  "any_ip = [48, 46, 48, 46, 48, 46, 48]"

definition ape_socket_connect_ready_to_connect ::
  "('b, 'k) env \<Rightarrow> byte list option \<Rightarrow> ptr \<Rightarrow> int \<Rightarrow> ('b, 'k) ape_net \<Rightarrow> (int \<times> ('b, 'k) ape_net) option" where
  "ape_socket_connect_ready_to_connect E remote_ip p status w = do {
     w1 \<leftarrow> upd_sock p (\<lambda>s. s\<lparr>dns_state := NULL\<rparr>) w;
     if status \<noteq> 0 then do { (r, w2) \<leftarrow> ape_socket_destroy E p w1; Some (- 1, w2) }
     else do {
       ip \<leftarrow> remote_ip;
       s \<leftarrow> sock p w1;
       let (c, k) = connect_try (nsys E) (sk_fd s) (local_port s) (inet_addr (nsys E) any_ip)
                      (connect_addr (nsys E) s ip) 0 (kernel w1);
       let w2 = w1\<lparr>kernel := k\<rparr>;
       if c = 1 then Some (- 1, w2)
       else if c = 2 then do { (r, w3) \<leftarrow> ape_socket_destroy E p w2; Some (- 1, w3) }
       else do {
         w3 \<leftarrow> upd_sock p (\<lambda>s. s\<lparr>sk_type := APE_SOCKET_TP_CLIENT,
                 sk_state := (if sk_proto s = APE_SOCKET_PT_UDP then APE_SOCKET_ST_ONLINE else APE_SOCKET_ST_PROGRESS)\<rparr>) w2;
         (r, w4) \<leftarrow> on_events (events_add p (sk_fd s) (EVENT_READ OR EVENT_WRITE)) w3;
         w5 \<leftarrow> (if sk_proto s = APE_SOCKET_PT_UDP then timer_dispatch_async FN_ape_socket_connected p w4 else Some w4);
         Some (0, w5) } } }"

text \<open>What a lookup calls: connecting, or the user's function.\<close>

definition net_dns :: "('b, 'k) env \<Rightarrow> ('b, 'k) dns_caller" where
  "net_dns E cb ip x status w =
     (if cb = FN_ready_to_connect then map_option snd (ape_socket_connect_ready_to_connect E ip x status w)
      else user_dns E cb ip x status w)"

definition APE_socket_connect ::
  "('b, 'k) env \<Rightarrow> ptr \<Rightarrow> uint16 \<Rightarrow> byte list \<Rightarrow> uint16 \<Rightarrow> byte list option \<Rightarrow> ('b, 'k) ape_net
    \<Rightarrow> (int \<times> ('b, 'k) ape_net) option" where
  "APE_socket_connect E p port remote_ip_host localport hostname_sni w =
     (if p = NULL then Some (- 1, w)
      else if port = 0 then do { (r, w1) \<leftarrow> ape_socket_destroy E p w; Some (- 1, w1) }
      else do {
        w1 \<leftarrow> upd_sock p (\<lambda>s. s\<lparr>remote_port := port, local_port := localport\<rparr>) w;
        s \<leftarrow> sock p w1;
        if sk_proto s = APE_SOCKET_PT_UNIX then do {
          w2 \<leftarrow> upd_sock p (\<lambda>s. s\<lparr>dns_state := NULL\<rparr>) w1;
          ape_socket_connect_ready_to_connect E (Some remote_ip_host) p 0 w2 }
        else do {
          (d, w2) \<leftarrow> ape_gethostbyname E (net_dns E) remote_ip_host FN_ready_to_connect p w1;
          w3 \<leftarrow> upd_sock p (\<lambda>s. s\<lparr>dns_state := d\<rparr>) w2;
          s3 \<leftarrow> sock p w3;
          if sk_state s3 = APE_SOCKET_ST_OFFLINE then Some (- 1, w3)
          else do {
            let host = (case hostname_sni of Some h \<Rightarrow> Some h
                        | None \<Rightarrow> if dns_state s3 \<noteq> NULL then Some remote_ip_host else None);
            w4 \<leftarrow> (case host of None \<Rightarrow> Some w3
                   | Some h \<Rightarrow> let (q, w4) = malloc_data h w3 in upd_sock p (\<lambda>s. s\<lparr>remote_host := q\<rparr>) w4);
            Some (0, w4) } } })"

text \<open>With SSL, a secure client gets its SSL connection; \<open>ssl->con\<close> is read without a test.\<close>

definition connected_ssl :: "('b, 'k) env \<Rightarrow> ptr \<Rightarrow> ('b, 'k) ape_net \<Rightarrow> ('b, 'k) ape_net option" where
  "connected_ssl E p w = (case ssl_api E of
     None \<Rightarrow> Some w
   | Some T \<Rightarrow> do {
       s \<leftarrow> sock p w;
       if \<not> issecure s then Some w
       else do {
         (c, k) \<leftarrow> tls_con T (ssl_global_ctx w) (sk_fd s) False (kernel w);
         w1 \<leftarrow> upd_sock p (\<lambda>s. s\<lparr>ssl_ptr := c\<rparr>) (w\<lparr>kernel := k\<rparr>);
         if remote_host s = NULL then Some w1
         else do {
           con \<leftarrow> tls_con_of T c k;
           host \<leftarrow> rd (data_mem w1) (remote_host s);
           Some (on_kernel (tls_host_name T con host) w1) } } })"

definition ape_socket_connected :: "('b, 'k) env \<Rightarrow> ptr \<Rightarrow> ('b, 'k) ape_net \<Rightarrow> (int \<times> ('b, 'k) ape_net) option" where
  "ape_socket_connected E p w = do {
     w0 \<leftarrow> connected_ssl E p w;
     s \<leftarrow> sock p w0;
     w1 \<leftarrow> (if on_connected (callbacks s) \<noteq> NULL
            then on_event E (Connected (on_connected (callbacks s)) p (cb_arg (callbacks s))) w0 else Some w0);
     Some (0, w1) }"

section \<open>Accepting\<close>

text \<open>One connection: the client of the descriptor \<open>fd\<close>.\<close>

definition accept_client ::
  "('b, 'k) env \<Rightarrow> ptr \<Rightarrow> int \<Rightarrow> sockaddr_in \<Rightarrow> ('b, 'k) ape_net \<Rightarrow> ('b, 'k) ape_net option" where
  "accept_client E p fd addr w = do {
     s \<leftarrow> sock p w;
     (c, w1) \<leftarrow> APE_socket_new E (sk_proto s) fd w;
     s1 \<leftarrow> sock p w1;
     w2 \<leftarrow> upd_sock c (\<lambda>t. t\<lparr>sk_addr := addr, callbacks := callbacks s1, parent := p,
                               sk_state := APE_SOCKET_ST_ONLINE, sk_type := APE_SOCKET_TP_CLIENT\<rparr>) w1;
     s2 \<leftarrow> sock p w2;
     t \<leftarrow> sock c w2;
     w2 \<leftarrow> (if issecure s2 then do {
              (x, k) \<leftarrow> tls_con (ssl_of E) (ssl_ptr s2) (sk_fd t) True (kernel w2);
              upd_sock c (\<lambda>t. t\<lparr>ssl_ptr := x\<rparr>) (w2\<lparr>kernel := k\<rparr>) }
            else Some w2);
     (r, w3) \<leftarrow> on_events (events_add c (sk_fd t) (EVENT_READ OR EVENT_WRITE)) w2;
     s3 \<leftarrow> sock p w3;
     (if on_connect (callbacks s3) \<noteq> NULL
      then on_event E (Connect (on_connect (callbacks s3)) p c (cb_arg (callbacks s3))) w3 else Some w3) }"

partial_function (option) ape_socket_accept ::
  "('b, 'k) env \<Rightarrow> ptr \<Rightarrow> ('b, 'k) ape_net \<Rightarrow> (int \<times> ('b, 'k) ape_net) option" where
  "ape_socket_accept E p w = do {
     s \<leftarrow> sock p w;
     let (fd, e, addr, k) = sys_accept (nsys E) (sk_fd s) (kernel w);
     let w1 = w\<lparr>kernel := k\<rparr>;
     if fd = - 1 then (if e = EINTR then ape_socket_accept E p w1 else Some (0, w1))
     else do { w2 \<leftarrow> accept_client E p fd addr w1; ape_socket_accept E p w2 } }"

section \<open>Datagrams\<close>

definition MAX_PACKET_SIZE_UDP :: nat where
  "MAX_PACKET_SIZE_UDP = 65535"

partial_function (option) ape_socket_read_udp ::
  "('b, 'k) env \<Rightarrow> ptr \<Rightarrow> ('b, 'k) ape_net \<Rightarrow> (int \<times> ('b, 'k) ape_net) option" where
  "ape_socket_read_udp E p w = do {
     s \<leftarrow> sock p w;
     let (rlen, bs, addr, k) = sys_recvfrom (nsys E) (sk_fd s) MAX_PACKET_SIZE_UDP (kernel w);
     let w1 = w\<lparr>kernel := k\<rparr>;
     if rlen \<le> 0 then Some (1, w1)
     else if int MAX_PACKET_SIZE_UDP \<le> rlen then None
     else do {
       w2 \<leftarrow> (if on_message (callbacks s) \<noteq> NULL
              then on_event E (Message (on_message (callbacks s)) p bs addr (cb_arg (callbacks s))) w1 else Some w1);
       ape_socket_read_udp E p w2 } }"

definition ape_socket_write_udp ::
  "('b, 'k) env \<Rightarrow> ptr \<Rightarrow> byte list \<Rightarrow> byte list \<Rightarrow> uint16 \<Rightarrow> ('b, 'k) ape_net \<Rightarrow> (int \<times> ('b, 'k) ape_net) option" where
  "ape_socket_write_udp E p bs ip port w = do {
     s \<leftarrow> sock p w;
     if sk_proto s \<noteq> APE_SOCKET_PT_UDP then Some (- 1, w)
     else let (r, k) = sys_sendto (nsys E) (sk_fd s) bs \<lparr>sin_port = htons port, sin_addr = inet_addr (nsys E) ip\<rparr> (kernel w)
          in Some (r, w\<lparr>kernel := k\<rparr>) }"

section \<open>Questions\<close>

definition APE_socket_port :: "ptr \<Rightarrow> ('b, 'k) ape_net \<Rightarrow> uint16 option" where
  "APE_socket_port p w = (if p = NULL then Some 0 else do { s \<leftarrow> sock p w; Some (htons (sin_port (sk_addr s))) })"

definition APE_socket_ipv4 :: "('b, 'k) env \<Rightarrow> ptr \<Rightarrow> ('b, 'k) ape_net \<Rightarrow> byte list option option" where
  "APE_socket_ipv4 E p w =
     (if p = NULL then Some None else do { s \<leftarrow> sock p w; Some (Some (inet_ntop (nsys E) (sin_addr (sk_addr s)))) })"

definition APE_socket_is_online :: "ptr \<Rightarrow> ('b, 'k) ape_net \<Rightarrow> bool option" where
  "APE_socket_is_online p w =
     (if p = NULL then Some False else do { s \<leftarrow> sock p w; Some (sk_state s = APE_SOCKET_ST_ONLINE) })"

declare ape_socket_accept.simps [code] ape_socket_read_udp.simps [code]

end
