(* ===== verification/Jobs.thy ===== *)
theory Jobs
  imports Socket
begin

unbundle bit_operations_syntax

text \<open>
  \<open>ape_socket.c\<close>, writing and reading: what cannot be written at once is queued as a job of the
  socket, and the jobs are run when the socket can be written to again. A job to write holds a list of
  packets, used as a ring: the packets from the head to the current slot are pending, and a packet that
  was written moves behind the last slot.
\<close>

section \<open>Queueing data\<close>

text \<open>The packet list of the job, which is created at the first packet.\<close>

definition job_packets :: "ptr \<Rightarrow> ('b, 'k) ape_net \<Rightarrow> (ptr \<times> ('b, 'k) ape_net) option" where
  "job_packets job w = do {
     j \<leftarrow> rd (cells (job_mem w)) job;
     if pdata j \<noteq> NULL then Some (pdata j, w)
     else do {
       (list, w1) \<leftarrow> ape_socket_new_packet_queue 8 w;
       h \<leftarrow> wr (cells (job_mem w1)) job (\<lambda>j. j\<lparr>pdata := list\<rparr>);
       Some (list, w1\<lparr>job_mem := (job_mem w1)\<lparr>cells := h\<rparr>\<rparr>) } }"

text \<open>Filling the current slot of a list of packets; there is always a spare slot after it.\<close>

definition packet_put ::
  "ptr \<Rightarrow> ptr \<Rightarrow> nat \<Rightarrow> nat \<Rightarrow> ape_socket_data_autorelease \<Rightarrow> ape_socket_packet list_mem
    \<Rightarrow> ape_socket_packet list_mem option" where
  "packet_put list data len offset ty pm = do {
     l \<leftarrow> rd (list_objs pm) list;
     let cur = pl_current l;
     h \<leftarrow> wr (cells (pools pm)) cur (\<lambda>v. v\<lparr>pdata := data, plen := len, poffset := offset, data_type := ty\<rparr>);
     let m = (pools pm)\<lparr>cells := h\<rparr>;
     v \<leftarrow> rd h cur;
     (l1, m1) \<leftarrow> (if pnext v = NULL then do { (q, l1, m1) \<leftarrow> ape_grow_pool junk_packet l 8 m; Some (l1, m1) }
                  else Some (l, m));
     v1 \<leftarrow> rd (cells m1) cur;
     Some (pm\<lparr>pools := m1, list_objs := (list_objs pm)(list \<mapsto> l1\<lparr>pl_current := pnext v1\<rparr>)\<rparr>) }"

definition ape_socket_queue_data ::
  "('b, 'k) env \<Rightarrow> ptr \<Rightarrow> ptr \<Rightarrow> nat \<Rightarrow> nat \<Rightarrow> ape_socket_data_autorelease \<Rightarrow> ('b, 'k) ape_net
    \<Rightarrow> ('b, 'k) ape_net option" where
  "ape_socket_queue_data E p data0 len offset ty0 w = do {
     let ty = (if ty0 = APE_DATA_STATIC then APE_DATA_COPY else ty0);
     (data, w1) \<leftarrow> (if ty = APE_DATA_COPY then do {
         bs \<leftarrow> rd (data_mem w) data0;
         if length bs < len then None else Some (malloc_data (take len bs) w) }
       else Some (data0, w));
     (job, w2) \<leftarrow> ape_socket_job_get_slot p APE_SOCKET_JOB_WRITEV w1;
     (list, w3) \<leftarrow> job_packets job w2;
     pm \<leftarrow> packet_put list data len offset ty (packet_mem w3);
     let n = (of_nat len - of_nat offset :: uint64);
     w4 \<leftarrow> upd_sock p (\<lambda>s. s\<lparr>current_buffer_memory_bytes := current_buffer_memory_bytes s + n\<rparr>)
             (w3\<lparr>packet_mem := pm, total_memory_buffered := total_memory_buffered w3 + n\<rparr>);
     s \<leftarrow> sock p w4;
     if max_buffer_memory_mb s \<noteq> 0 \<and> current_buffer_memory_bytes s > max_buffer_memory_mb s * 1024 * 1024
     then APE_socket_shutdown_now E p w4 else Some w4 }"

section \<open>Writing\<close>

datatype write_end = W_done | W_again nat | W_error

text \<open>The loop of \<open>APE_socket_write\<close> on the block \<open>bs\<close>: \<open>t\<close> bytes are written,
  \<open>r\<close> are asked for. A kernel that takes more bytes than the block has left reads outside it.\<close>

partial_function (option) write_loop ::
  "'k net_sys \<Rightarrow> int \<Rightarrow> byte list \<Rightarrow> nat \<Rightarrow> nat \<Rightarrow> nat \<Rightarrow> 'k \<Rightarrow> (write_end \<times> 'k) option" where
  "write_loop S fd bs len t r k =
     (if t < len then
        (let (n, e, k1) = sys_write S fd r (take r (drop t bs)) k in
         if n < 0 then Some (if e = EAGAIN \<and> r \<noteq> 0 then W_again t else W_error, k1)
         else if length (take r (drop t bs)) < nat n then None
         else write_loop S fd bs len (t + nat n) (nat (int r - ape_min n 0)) k1)
      else Some (W_done, k))"

definition set_would_block :: "ptr \<Rightarrow> ('b, 'k) ape_net \<Rightarrow> ('b, 'k) ape_net option" where
  "set_would_block p w = upd_sock p (\<lambda>s. s\<lparr>sk_flags := sk_flags s OR APE_SOCKET_WOULD_BLOCK\<rparr>) w"

text \<open>Writing over SSL: a result other than -1 is taken for success, and -1 because the connection is closed
  (\<open>SSL_ERROR_ZERO_RETURN\<close>) too.\<close>

datatype ssl_end = Ssl_done | Ssl_again | Ssl_failed

definition ssl_try_write ::
  "'k net_ssl \<Rightarrow> ptr \<Rightarrow> ptr \<Rightarrow> nat \<Rightarrow> ('b, 'k) ape_net \<Rightarrow> (ssl_end \<times> ('b, 'k) ape_net) option" where
  "ssl_try_write T p data len w = do {
     s \<leftarrow> sock p w;
     bs \<leftarrow> rd (data_mem w) data;
     if length bs < len then None
     else do {
       (n, k) \<leftarrow> tls_write T (ssl_ptr s) (take len bs) (kernel w);
       let w1 = w\<lparr>kernel := k\<rparr>;
       if n \<noteq> - 1 then Some (Ssl_done, w1)
       else do {
         con \<leftarrow> tls_con_of T (ssl_ptr s) k;
         let (e, k2) = tls_get_error T con n k;
         let w2 = w1\<lparr>kernel := k2\<rparr>;
         case e of
           SSL_ERROR_ZERO_RETURN \<Rightarrow> Some (Ssl_done, w2)
         | SSL_ERROR_OTHER \<Rightarrow> Some (Ssl_failed, w2)
         | _ \<Rightarrow> do { w3 \<leftarrow> upd_sock p (\<lambda>s. s\<lparr>need_write := True\<rparr>) w2; Some (Ssl_again, w3) } } } }"

definition secure_write ::
  "('b, 'k) env \<Rightarrow> ptr \<Rightarrow> ptr \<Rightarrow> nat \<Rightarrow> ('b, 'k) ape_net \<Rightarrow> (write_end \<times> ('b, 'k) ape_net) option" where
  "secure_write E p data len w = (case ssl_api E of
     None \<Rightarrow> Some (W_done, w)
   | Some T \<Rightarrow> do {
       (x, w1) \<leftarrow> ssl_try_write T p data len (on_kernel (tls_clear_error T) w);
       Some (case x of Ssl_done \<Rightarrow> W_done | Ssl_again \<Rightarrow> W_again 0 | Ssl_failed \<Rightarrow> W_error, w1) })"

definition APE_socket_write ::
  "('b, 'k) env \<Rightarrow> ptr \<Rightarrow> ptr \<Rightarrow> nat \<Rightarrow> ape_socket_data_autorelease \<Rightarrow> ('b, 'k) ape_net
    \<Rightarrow> (int \<times> ('b, 'k) ape_net) option" where
  "APE_socket_write E p data len ty w = do {
     online \<leftarrow> APE_socket_is_online p w;
     let ty1 = (if ty = APE_DATA_COPY then APE_DATA_OWN else ty);
     if \<not> online \<or> len = 0 then do { w1 \<leftarrow> ape_socket_release_data data ty1 w; Some (- 1, w1) }
     else do {
       q \<leftarrow> must_queue p w;
       if q then do { w1 \<leftarrow> ape_socket_queue_data E p data len 0 ty w; Some (c_int (int len), w1) }
       else do {
         s \<leftarrow> sock p w;
         (end, w1) \<leftarrow> (if issecure s then secure_write E p data len w
            else do {
              bs \<leftarrow> rd (data_mem w) data;
              (end, k) \<leftarrow> write_loop (nsys E) (sk_fd s) bs len 0 len (kernel w);
              Some (end, w\<lparr>kernel := k\<rparr>) });
         case end of
           W_again t \<Rightarrow> do {
             w2 \<leftarrow> set_would_block p w1;
             w3 \<leftarrow> ape_socket_queue_data E p data len t ty w2;
             Some (c_int (int len), w3) }
         | W_done \<Rightarrow> do { w2 \<leftarrow> ape_socket_release_data data ty1 w1; Some (0, w2) }
         | W_error \<Rightarrow> do {
             w2 \<leftarrow> ape_socket_release_data data ty1 w1;
             w3 \<leftarrow> APE_socket_shutdown_now E p w2;
             Some (- 1, w3) } } } }"

definition APE_socket_writev ::
  "('b, 'k) env \<Rightarrow> ptr \<Rightarrow> byte list list \<Rightarrow> ('b, 'k) ape_net \<Rightarrow> (int \<times> ('b, 'k) ape_net) option" where
  "APE_socket_writev E p iov w = do {
     online \<leftarrow> APE_socket_is_online p w;
     if \<not> online \<or> iov = [] then Some (- 1, w)
     else do {
       s \<leftarrow> sock p w;
       if issecure s then Some (- 1, w)
       else do {
         q \<leftarrow> must_queue p w;
         if q then Some (1, w)
         else do {
           let (n, e, k) = sys_writev (nsys E) (sk_fd s) iov (kernel w);
           let w1 = w\<lparr>kernel := k\<rparr>;
           if n = - 1 then do { w2 \<leftarrow> APE_socket_shutdown_now E p w1; Some (- 1, w2) }
           else Some (0, w1) } } } }"

section \<open>Sending files\<close>

text \<open>The loop as compiled for Linux: the last result and its error.\<close>

partial_function (option) sendfile_loop :: "'k net_sys \<Rightarrow> int \<Rightarrow> int \<Rightarrow> 'k \<Rightarrow> (int \<times> errno \<times> 'k) option" where
  "sendfile_loop S out f k =
     (let (n, e, k1) = sys_sendfile S out f 4096 k in
      if n > 0 then sendfile_loop S out f k1 else Some (n, e, k1))"

definition job_set_fd :: "ptr \<Rightarrow> int \<Rightarrow> ('b, 'k) ape_net \<Rightarrow> ('b, 'k) ape_net option" where
  "job_set_fd job fd w = do {
     h \<leftarrow> wr (cells (job_mem w)) job (\<lambda>j. j\<lparr>pdata := set_fd fd (pdata j)\<rparr>);
     Some (w\<lparr>job_mem := (job_mem w)\<lparr>cells := h\<rparr>\<rparr>) }"

definition APE_sendfile ::
  "('b, 'k) env \<Rightarrow> ptr \<Rightarrow> byte list \<Rightarrow> ('b, 'k) ape_net \<Rightarrow> (int \<times> ('b, 'k) ape_net) option" where
  "APE_sendfile E p file w = do {
     s \<leftarrow> sock p w;
     if sk_state s \<noteq> APE_SOCKET_ST_ONLINE then Some (0, w)
     else do {
       let (fd, k) = sys_open (nsys E) file (kernel w);
       let w1 = w\<lparr>kernel := k\<rparr>;
       if fd = - 1 then Some (0, w1)
       else do {
         q \<leftarrow> must_queue p w1;
         if q then do {
           w2 \<leftarrow> set_would_block p w1;
           (job, w3) \<leftarrow> ape_socket_job_get_slot p APE_SOCKET_JOB_SENDFILE w2;
           w4 \<leftarrow> job_set_fd job fd w3;
           Some (1, w4) }
         else do {
           (n, e, k) \<leftarrow> sendfile_loop (nsys E) (sk_fd s) fd (kernel w1);
           let w2 = w1\<lparr>kernel := k\<rparr>;
           if n = - 1 \<and> e = EAGAIN then do {
             w3 \<leftarrow> set_would_block p w2;
             (job, w4) \<leftarrow> ape_socket_job_get_slot p APE_SOCKET_JOB_SENDFILE w3;
             w5 \<leftarrow> job_set_fd job fd w4;
             h \<leftarrow> wr (cells (job_mem w5)) job (\<lambda>j. j\<lparr>job_offset := 0\<rparr>);
             Some (1, w5\<lparr>job_mem := (job_mem w5)\<lparr>cells := h\<rparr>\<rparr>) }
           else Some (1, on_kernel (sclose (nsys E) fd) w2) } } } }"

section \<open>Running the jobs\<close>

definition max_chunks :: nat where
  "max_chunks = 1024"

text \<open>The pieces of the pending packets, up to \<open>n\<close>. A packet whose data is not there, or is
  shorter than it says, is a fault.\<close>

fun collect_chunks :: "ape_socket_packet heap \<Rightarrow> byte list heap \<Rightarrow> nat \<Rightarrow> ptr \<Rightarrow> byte list list option" where
  "collect_chunks h dm 0 packet = Some []"
| "collect_chunks h dm (Suc n) packet =
     (if packet = NULL then Some []
      else do {
        v \<leftarrow> rd h packet;
        if pdata v = NULL then Some []
        else do {
          bs \<leftarrow> rd dm (pdata v);
          if plen v < poffset v \<or> length bs < plen v then None
          else do {
            rest \<leftarrow> collect_chunks h dm n (pnext v);
            Some (drop (poffset v) (take (plen v) bs) # rest) } } })"

text \<open>\<open>rewrite\<close>: a call that was interrupted is made again.\<close>

partial_function (option) writev_retry ::
  "'k net_sys \<Rightarrow> int \<Rightarrow> byte list list \<Rightarrow> 'k \<Rightarrow> (int \<times> errno \<times> 'k) option" where
  "writev_retry S fd chunks k =
     (let (n, e, k1) = sys_writev S fd chunks k in
      if n = - 1 \<and> e = EINTR then writev_retry S fd chunks k1 else Some (n, e, k1))"

text \<open>A packet that was written: its data is released, and its slot moves behind the last one.\<close>

definition packet_written ::
  "ptr \<Rightarrow> ptr \<Rightarrow> ape_socket_packet \<Rightarrow> ('b, 'k) ape_net \<Rightarrow> (ptr \<times> ('b, 'k) ape_net) option" where
  "packet_written list packet v w = do {
     w1 \<leftarrow> ape_socket_release_data (pdata v) (data_type v) w;
     h \<leftarrow> wr (cells (pools (packet_mem w1))) packet (\<lambda>v. v\<lparr>pdata := NULL\<rparr>);
     l \<leftarrow> rd (list_objs (packet_mem w1)) list;
     (packet1, l1, m) \<leftarrow> ape_pool_head_to_queue l ((pools (packet_mem w1))\<lparr>cells := h\<rparr>);
     Some (packet1, w1\<lparr>packet_mem := (packet_mem w1)\<lparr>pools := m, list_objs := (list_objs (packet_mem w1))(list \<mapsto> l1)\<rparr>\<rparr>) }"

text \<open>Taking \<open>n\<close> written bytes off the list: the packet the loop stops at.\<close>

partial_function (option) consume_packets ::
  "ptr \<Rightarrow> ptr \<Rightarrow> int \<Rightarrow> ('b, 'k) ape_net \<Rightarrow> (ptr \<times> ('b, 'k) ape_net) option" where
  "consume_packets list packet n w =
     (if packet = NULL then Some (packet, w)
      else do {
        v \<leftarrow> rd (cells (pools (packet_mem w))) packet;
        if pdata v = NULL then Some (packet, w)
        else do {
          let n1 = n - (int (plen v) - int (poffset v));
          if n1 < 0 then do {
            h \<leftarrow> wr (cells (pools (packet_mem w))) packet (\<lambda>v. v\<lparr>poffset := nat (int (plen v) + n1)\<rparr>);
            Some (packet, w\<lparr>packet_mem := (packet_mem w)\<lparr>pools := (pools (packet_mem w))\<lparr>cells := h\<rparr>\<rparr>\<rparr>) }
          else do {
            (packet1, w2) \<leftarrow> packet_written list packet v w;
            if n1 = 0 then Some (packet1, w2) else consume_packets list packet1 n1 w2 } } })"

text \<open>The result of running one job: \<open>Some r\<close> when \<open>ape_socket_do_jobs\<close> returns
  \<open>r\<close>, else the job is done.\<close>

partial_function (option) writev_job ::
  "('b, 'k) env \<Rightarrow> ptr \<Rightarrow> ptr \<Rightarrow> ptr \<Rightarrow> ('b, 'k) ape_net \<Rightarrow> (int option \<times> ('b, 'k) ape_net) option" where
  "writev_job E p list packet w = do {
     chunks \<leftarrow> collect_chunks (cells (pools (packet_mem w))) (data_mem w) max_chunks packet;
     s \<leftarrow> sock p w;
     (n, e, k) \<leftarrow> writev_retry (nsys E) (sk_fd s) chunks (kernel w);
     let w1 = w\<lparr>kernel := k\<rparr>;
     if n = - 1 then
       (if e = EAGAIN then do { w2 \<leftarrow> set_would_block p w1; Some (Some 0, w2) }
        else do { w2 \<leftarrow> APE_socket_shutdown_now E p w1; Some (Some (- 1), w2) })
     else do {
       w2 \<leftarrow> upd_sock p (\<lambda>s. s\<lparr>current_buffer_memory_bytes := current_buffer_memory_bytes s - of_int n\<rparr>)
               (w1\<lparr>total_memory_buffered := total_memory_buffered w1 - of_int n\<rparr>);
       l \<leftarrow> rd (list_objs (packet_mem w2)) list;
       (packet1, w3) \<leftarrow> consume_packets list (pl_head l) n w2;
       v \<leftarrow> rd (cells (pools (packet_mem w3))) packet1;
       if pdata v \<noteq> NULL then writev_job E p list packet1 w3 else Some (None, w3) } }"

text \<open>The same over SSL, packet by packet.\<close>

partial_function (option) secure_job ::
  "'k net_ssl \<Rightarrow> ('b, 'k) env \<Rightarrow> ptr \<Rightarrow> ptr \<Rightarrow> ptr \<Rightarrow> ('b, 'k) ape_net \<Rightarrow> (int option \<times> ('b, 'k) ape_net) option" where
  "secure_job T E p list packet w =
     (if packet = NULL then Some (None, w)
      else do {
        v \<leftarrow> rd (cells (pools (packet_mem w))) packet;
        if pdata v = NULL then Some (None, w)
        else do {
          (x, w1) \<leftarrow> ssl_try_write T p (pdata v) (plen v) w;
          case x of
            Ssl_again \<Rightarrow> do { w2 \<leftarrow> set_would_block p w1; Some (Some 0, w2) }
          | Ssl_failed \<Rightarrow> do { w2 \<leftarrow> APE_socket_shutdown_now E p w1; Some (Some 0, w2) }
          | Ssl_done \<Rightarrow> do {
              (packet1, w2) \<leftarrow> packet_written list packet v w1;
              secure_job T E p list packet1 w2 } } })"

definition run_job ::
  "('b, 'k) env \<Rightarrow> ptr \<Rightarrow> ptr \<Rightarrow> ('b, 'k) ape_net \<Rightarrow> (int option \<times> ('b, 'k) ape_net) option" where
  "run_job E p job w = do {
     j \<leftarrow> rd (cells (job_mem w)) job;
     s \<leftarrow> sock p w;
     if job_kind j = APE_SOCKET_JOB_WRITEV then do {
       l \<leftarrow> rd (list_objs (packet_mem w)) (pdata j);
       if issecure s then
         (case ssl_api E of
            None \<Rightarrow> Some (None, w)
          | Some T \<Rightarrow> secure_job T E p (pdata j) (pl_head l) (on_kernel (tls_clear_error T) w))
       else writev_job E p (pdata j) (pl_head l) w }
     else if job_kind j = APE_SOCKET_JOB_SENDFILE then do {
       (n, e, k) \<leftarrow> sendfile_loop (nsys E) (sk_fd s) (get_fd (pdata j)) (kernel w);
       let w1 = w\<lparr>kernel := k\<rparr>;
       if n = - 1 \<and> e = EAGAIN then do { w2 \<leftarrow> set_would_block p w1; Some (Some 0, w2) }
       else do {
         let w2 = on_kernel (sclose (nsys E) (get_fd (pdata j))) w1;
         h \<leftarrow> wr (cells (job_mem w2)) job (\<lambda>j. j\<lparr>job_offset := 0, pdata := NULL\<rparr>);
         Some (None, w2\<lparr>job_mem := (job_mem w2)\<lparr>cells := h\<rparr>\<rparr>) } }
     else if job_kind j = APE_SOCKET_JOB_SHUTDOWN then do { w1 \<leftarrow> ape_shutdown E p w; Some (Some (- 1), w1) }
     else Some (None, w) }"

text \<open>A job that is done is no longer active, and its slot moves behind the current one.\<close>

definition finish_job :: "ptr \<Rightarrow> ptr \<Rightarrow> ('b, 'k) ape_net \<Rightarrow> (ptr \<times> ('b, 'k) ape_net) option" where
  "finish_job p job w = do {
     h \<leftarrow> wr (cells (job_mem w)) job (\<lambda>j. j\<lparr>pflags := pflags j AND NOT APE_SOCKET_JOB_ACTIVE\<rparr>);
     s \<leftarrow> sock p w;
     (nj, l, m) \<leftarrow> ape_pool_head_to_current (jobs s) ((job_mem w)\<lparr>cells := h\<rparr>);
     w1 \<leftarrow> upd_sock p (\<lambda>s. s\<lparr>jobs := l\<rparr>) (w\<lparr>job_mem := m\<rparr>);
     Some (nj, w1) }"

partial_function (option) job_loop ::
  "('b, 'k) env \<Rightarrow> ptr \<Rightarrow> ptr \<Rightarrow> int \<Rightarrow> ('b, 'k) ape_net \<Rightarrow> (int \<times> ('b, 'k) ape_net) option" where
  "job_loop E p job njobsdone w =
     (if job = NULL then Some (njobsdone, w)
      else do {
        j \<leftarrow> rd (cells (job_mem w)) job;
        if \<not> job_flag APE_SOCKET_JOB_ACTIVE j then Some (njobsdone, w)
        else do {
          (r, w1) \<leftarrow> run_job E p job w;
          case r of
            Some x \<Rightarrow> Some (x, w1)
          | None \<Rightarrow> do {
              (nj, w2) \<leftarrow> finish_job p job w1;
              job_loop E p nj (njobsdone + 1) w2 } } })"

definition ape_socket_do_jobs :: "('b, 'k) env \<Rightarrow> ptr \<Rightarrow> ('b, 'k) ape_net \<Rightarrow> (int \<times> ('b, 'k) ape_net) option" where
  "ape_socket_do_jobs E p w = do { s \<leftarrow> sock p w; job_loop E p (pl_head (jobs s)) 0 w }"

section \<open>Reading\<close>

definition junk_byte :: byte where
  "junk_byte = 0xaa"

partial_function (option) reread ::
  "'k net_sys \<Rightarrow> int \<Rightarrow> nat \<Rightarrow> 'k \<Rightarrow> (int \<times> errno \<times> byte list \<times> 'k) option" where
  "reread S fd room k =
     (let (n, e, bs, k1) = sys_read S fd room k in
      if n = - 1 \<and> e = EINTR then reread S fd room k1 else Some (n, e, bs, k1))"

text \<open>Reading once over SSL: the result, or that there was an error. Without SSL the result is a
  variable that is not initialised.\<close>

definition secure_read ::
  "('b, 'k) env \<Rightarrow> ptr \<Rightarrow> nat \<Rightarrow> 'k \<Rightarrow> (int option \<times> byte list \<times> 'k) option" where
  "secure_read E ssl room k = do {
     T \<leftarrow> ssl_api E;
     (n, bs, k1) \<leftarrow> tls_read T ssl (int room) (tls_clear_error T k);
     if n \<ge> 0 then Some (Some n, bs, k1)
     else do {
       con \<leftarrow> tls_con_of T ssl k1;
       let (e, k2) = tls_get_error T con n k1;
       Some (case e of SSL_ERROR_ZERO_RETURN \<Rightarrow> Some 0 | SSL_ERROR_OTHER \<Rightarrow> None | _ \<Rightarrow> Some n, bs, k2) } }"

text \<open>The loop reads until there is nothing more: the last result, and whether it is an error; None when
  \<open>ape_socket_read\<close> returns 0 from within it.\<close>

partial_function (option) read_loop ::
  "('b, 'k) env \<Rightarrow> ptr \<Rightarrow> ('b, 'k) ape_net \<Rightarrow> ((int \<times> bool) option \<times> ('b, 'k) ape_net) option" where
  "read_loop E p w = do {
     s \<leftarrow> sock p w;
     b \<leftarrow> buffer_prepare junk_byte (data_in s) 2048;
     if issecure s then do {
       (r, bs, k) \<leftarrow> secure_read E (ssl_ptr s) (bsize b - bused b) (kernel w);
       case r of
         None \<Rightarrow> do {
           w1 \<leftarrow> upd_sock p (\<lambda>s. s\<lparr>data_in := b\<rparr>) (w\<lparr>kernel := k\<rparr>);
           w2 \<leftarrow> APE_socket_shutdown_now E p w1;
           Some (None, w2) }
       | Some n \<Rightarrow> do {
           b1 \<leftarrow> (if n > 0 then bput b (bused b) bs else Some b);
           w1 \<leftarrow> upd_sock p (\<lambda>s. s\<lparr>data_in := b1\<lparr>bused := bused b1 + nat (ape_max n 0)\<rparr>\<rparr>) (w\<lparr>kernel := k\<rparr>);
           if n > 0 then read_loop E p w1 else Some (Some (n, False), w1) } }
     else do {
       (n, e, bs, k) \<leftarrow> reread (nsys E) (sk_fd s) (bsize b - bused b) (kernel w);
       b1 \<leftarrow> (if n > 0 then bput b (bused b) bs else Some b);
       w1 \<leftarrow> upd_sock p (\<lambda>s. s\<lparr>data_in := b1\<lparr>bused := bused b1 + nat (ape_max n 0)\<rparr>\<rparr>) (w\<lparr>kernel := k\<rparr>);
       if n > 0 then read_loop E p w1 else Some (Some (n, n = - 1 \<and> e \<noteq> EAGAIN), w1) } }"

text \<open>Handing what was read to the user.\<close>

definition deliver :: "('b, 'k) env \<Rightarrow> ptr \<Rightarrow> ('b, 'k) ape_net \<Rightarrow> ('b, 'k) ape_net option" where
  "deliver E p w = do {
     s \<leftarrow> sock p w;
     if bused (data_in s) = 0 then Some w
     else do {
       w1 \<leftarrow> (if on_read (callbacks s) \<noteq> NULL \<and> sk_state s \<noteq> APE_SOCKET_ST_SHUTDOWN
              then do {
                bs \<leftarrow> bdata (data_in s);
                on_event E (Read (on_read (callbacks s)) p (take (bused (data_in s)) bs) (cb_arg (callbacks s))) w }
              else Some w);
       upd_sock p (\<lambda>s. s\<lparr>data_in := (data_in s)\<lparr>bused := 0\<rparr>\<rparr>) w1 } }"

definition ape_socket_read :: "('b, 'k) env \<Rightarrow> ptr \<Rightarrow> ('b, 'k) ape_net \<Rightarrow> (int \<times> ('b, 'k) ape_net) option" where
  "ape_socket_read E p w = do {
     s \<leftarrow> sock p w;
     w1 \<leftarrow> (if issecure s \<and> need_write s then do {
              w1 \<leftarrow> upd_sock p (\<lambda>s. s\<lparr>need_write := False\<rparr>) w;
              map_option snd (ape_socket_do_jobs E p w1) }
            else Some w);
     s1 \<leftarrow> sock p w1;
     if sk_state s1 \<noteq> APE_SOCKET_ST_ONLINE then Some (0, w1)
     else do {
       (r, w2) \<leftarrow> read_loop E p w1;
       case r of
         None \<Rightarrow> Some (0, w2)
       | Some (n, io_error) \<Rightarrow> do {
           w3 \<leftarrow> deliver E p w2;
           s3 \<leftarrow> sock p w3;
           if (n = 0 \<or> io_error) \<and> sk_state s3 \<noteq> APE_SOCKET_ST_SHUTDOWN
           then do { (r, w4) \<leftarrow> ape_socket_destroy E p w3; Some (- 1, w4) }
           else Some (int (bused (data_in s3)), w3) } } }"

section \<open>The timers' callbacks\<close>

text \<open>The library's own callbacks, and the user's. A callback may destroy a timer, whose clear
  function is called in turn: \<open>n\<close> bounds how deep this goes. The library sets no clear
  function, so 2 is enough when the user sets none on \<open>delay_timer\<close>.\<close>

fun net_call :: "('b, 'k) env \<Rightarrow> nat \<Rightarrow> ('b, 'k) net_caller" where
  "net_call E 0 f x w = None"
| "net_call E (Suc n) f x w =
     (if f = FN_ape_socket_free then ape_socket_free E (net_call E n) x w
      else if f = FN_ape_socket_destroy then socket_destroy_cb E (net_call E n) x w
      else if f = FN_ape_socket_connected then ape_socket_connected E x w
      else if f = FN_shutdown_delay_cb then ape_socket_shutdown_delay_cb E x w
      else if f = FN_params_free then params_free x w
      else user_timer E f x w)"

declare write_loop.simps [code] sendfile_loop.simps [code] writev_retry.simps [code] consume_packets.simps [code]
  writev_job.simps [code] secure_job.simps [code] job_loop.simps [code] reread.simps [code] read_loop.simps [code]

end
