(* ===== verification/Jobs_Props.thy ===== *)
theory Jobs_Props
  imports Jobs Pool_Props
begin

unbundle bit_operations_syntax

text \<open>
  Writing to a socket: the ring of packets, and that no byte is lost, sent twice or out of order, for
  any sizes the kernel takes. There is one exception, a fault of the code: the loop that writes at once
  asks again for the length of the whole block, and a kernel that then takes more than is left of it
  reads from behind the block. \<open>overreads\<close> says when.
\<close>

section \<open>What the pool operations leave alone\<close>

definition slot_core :: "'a ape_pool_scheme \<Rightarrow> nat \<times> uint32 \<times> 'a" where
  "slot_core v = (pdata v, pflags v, ape_pool.more v)"

lemma slot_core_link [simp]:
  "slot_core (v\<lparr>pnext := q\<rparr>) = slot_core v" "slot_core (v\<lparr>pprev := q\<rparr>) = slot_core v"
  by (simp_all add: slot_core_def)

lemma head_to_queue_core:
  assumes "ape_pool_head_to_queue l m = Some (p, l', m')"
  shows "keeps slot_core (cells m) (cells m')"
proof -
  obtain v w x where "rd (cells m) (pl_head l) = Some v" "rd (cells m) (pl_queue l) = Some w"
    "rd ((cells m)(pl_queue l \<mapsto> w\<lparr>pnext := pl_head l\<rparr>)) (pl_head l) = Some x"
    "cells m' = (cells m)(pl_queue l \<mapsto> w\<lparr>pnext := pl_head l\<rparr>, pl_head l \<mapsto> x\<lparr>pnext := NULL\<rparr>)"
    using assms by (auto simp: ape_pool_head_to_queue_def Let_def wr_eq_Some simp del: rd_upd split: bind_splits)
  then show ?thesis by (simp only:) (rule keeps_trans [OF keeps_upd keeps_upd], auto simp del: rd_upd)
qed

lemma grow_core:
  assumes ok: "mem_ok m" and n: "0 < n" and sz: "0 < pl_size l" and g: "ape_grow_pool junk l n m = Some (p, l', m')"
    and a: "a < brk m"
  shows "map_option slot_core (rd (cells m') a) = map_option slot_core (rd (cells m) a)"
proof -
  have sz': "pl_size l = (if pl_size l = 0 then sizeof_ape_pool else pl_size l)" using sz by simp
  obtain m1 where m1: "ape_new_pool junk (pl_size l) n m = Some (brk m, m1)"
    and fr: "\<forall>a. a \<notin> set (block_addrs (brk m) (pl_size l) n) \<longrightarrow> cells m1 a = cells m a"
    using new_block [OF ok n sz', where junk = junk] by metis
  have "a \<notin> set (block_addrs (brk m) (pl_size l) n)" using a block_addrs_ge by (meson not_le)
  then have o: "cells m1 a = cells m a" using fr by blast
  obtain v w where v: "rd (cells m1) (pl_queue l) = Some v"
    "rd ((cells m1)(pl_queue l \<mapsto> v\<lparr>pnext := brk m\<rparr>)) (brk m) = Some w"
    "cells m' = (cells m1)(pl_queue l \<mapsto> v\<lparr>pnext := brk m\<rparr>, brk m \<mapsto> w\<lparr>pprev := pl_queue l\<rparr>)"
    using g m1 by (auto simp: ape_grow_pool_def wr_eq_Some simp del: rd_upd split: bind_splits)
  then have "keeps slot_core (cells m1) (cells m')"
    by (simp only:) (rule keeps_trans [OF keeps_upd keeps_upd], auto simp del: rd_upd)
  then show ?thesis using o keeps_rd by (metis rd_def)
qed

section \<open>The ring of packets\<close>

type_synonym packets = "(ptr \<times> byte list) list"

definition packet_at :: "byte list heap \<Rightarrow> ape_socket_packet heap \<Rightarrow> ptr \<Rightarrow> ptr \<times> byte list \<Rightarrow> bool" where
  "packet_at dm h a p \<longleftrightarrow> (\<exists>v bs. rd h a = Some v \<and> pdata v = fst p \<and> data_type v = APE_DATA_COPY
     \<and> rd dm (fst p) = Some bs \<and> plen v = length bs \<and> poffset v < length bs \<and> snd p = drop (poffset v) bs)"

definition spare :: "'a ape_pool_scheme heap \<Rightarrow> ptr \<Rightarrow> bool" where
  "spare h a \<longleftrightarrow> (\<exists>v. rd h a = Some v \<and> pdata v = NULL)"

definition ring_at ::
  "ape_pool_list \<Rightarrow> ape_socket_packet pool_mem \<Rightarrow> byte list heap \<Rightarrow> packets \<Rightarrow> bool" where
  "ring_at l m dm ps \<longleftrightarrow> (\<exists>xs ys. pool_inv m l (xs @ pl_current l # ys)
     \<and> list_all2 (packet_at dm (cells m)) xs ps \<and> (\<forall>a \<in> set (pl_current l # ys). spare (cells m) a)
     \<and> distinct (map fst ps))"

definition ring :: "ptr \<Rightarrow> ape_socket_packet list_mem \<Rightarrow> byte list heap \<Rightarrow> packets \<Rightarrow> bool" where
  "ring list pm dm ps \<longleftrightarrow> (\<exists>l. rd (list_objs pm) list = Some l \<and> ring_at l (pools pm) dm ps)"

definition bytes_of :: "packets \<Rightarrow> byte list" where
  "bytes_of ps = concat (map snd ps)"

lemma bytes_of_simps [simp]: "bytes_of [] = []" "bytes_of (p # ps) = snd p @ bytes_of ps"
  "bytes_of (ps @ qs) = bytes_of ps @ bytes_of qs"
  by (simp_all add: bytes_of_def)

text \<open>The heap without the blocks of a set.\<close>

definition without :: "ptr set \<Rightarrow> byte list heap \<Rightarrow> byte list heap" where
  "without D dm = (\<lambda>d. if d \<in> D then None else dm d)"

lemma without_simps [simp]: "without {} dm = dm" "without D (dm(d := None)) = without (insert d D) dm"
  by (auto simp: without_def)

lemma without_upd: "without D (dm(d := None)) = (without D dm)(d := None)"
  by (auto simp: without_def)

lemma without_put: "dm d = None \<Longrightarrow> without (insert d D) (dm(d \<mapsto> bs)) = without D dm"
  by (auto simp: without_def)

lemma packet_core:
  assumes "packet_at dm h a p" and "map_option slot_core (rd h' a) = map_option slot_core (rd h a)"
  shows "packet_at dm h' a p"
proof -
  obtain v where v: "rd h a = Some v" using assms(1) by (auto simp: packet_at_def)
  then obtain v' where v': "rd h' a = Some v'" "slot_core v' = slot_core v" using assms(2) by (cases "rd h' a") auto
  have "pdata v' = pdata v" "ape_pool.more v' = ape_pool.more v" using v'(2) by (simp_all add: slot_core_def)
  moreover have "plen v' = plen v" "poffset v' = poffset v" "data_type v' = data_type v"
    using calculation(2) by (cases v; cases v'; simp)+
  ultimately show ?thesis using assms(1) v v'(1) by (auto simp: packet_at_def)
qed

lemma spare_core: "spare h a \<Longrightarrow> map_option slot_core (rd h' a) = map_option slot_core (rd h a) \<Longrightarrow> spare h' a"
  by (cases "rd h' a") (auto simp: spare_def slot_core_def)

lemma packets_core:
  assumes "list_all2 (packet_at dm h) xs ps"
    and "\<And>a. a \<in> set xs \<Longrightarrow> map_option slot_core (rd h' a) = map_option slot_core (rd h a)"
  shows "list_all2 (packet_at dm h') xs ps"
  using assms(1) packet_core [OF _ assms(2)] unfolding list_all2_conv_all_nth by (metis nth_mem)

lemma packets_data:
  assumes "list_all2 (packet_at dm h) xs ps" and "\<And>d. d \<in> set (map fst ps) \<Longrightarrow> rd dm' d = rd dm d"
  shows "list_all2 (packet_at dm' h) xs ps"
  using assms by (fastforce simp: list_all2_conv_all_nth packet_at_def)

lemma packet_nonempty: "packet_at dm h a p \<Longrightarrow> snd p \<noteq> [] \<and> fst p \<noteq> NULL"
  by (auto simp: packet_at_def)

text \<open>A new ring.\<close>

lemma new_ring:
  assumes "mem_ok (pools pm)" and "0 < lists_brk pm"
  obtains pm' where "ape_new_pool_list junk_packet sizeof_packet 8 pm = Some (lists_brk pm, pm')"
    and "ring (lists_brk pm) pm' dm []"
proof -
  obtain l m' as where l: "ape_init_pool_list junk_packet sizeof_packet 8 (pools pm) = Some (l, m')"
    "pool_inv m' l as" "length as = 8" "dll pnext pprev (cells m') (pl_head l) as" "pl_current l = pl_head l"
    "\<forall>a \<in> set as. \<exists>v. rd (cells m') a = Some v \<and> pdata v = NULL"
    by (rule init_pool_list_inv [OF assms(1), of 8 junk_packet sizeof_packet]) auto
  obtain ys where "as = pl_current l # ys"
    using l(2,5) by (cases as) (auto simp: pool_inv_def split: option.splits)
  then have "ring_at l m' dm []" using l(2,6) unfolding ring_at_def spare_def by (intro exI [of _ "[]"] exI [of _ ys]) simp
  then show ?thesis
    using l(1) assms(2)
    by (intro that [of "\<lparr>pools = m', list_objs = (list_objs pm)(lists_brk pm \<mapsto> l), lists_brk = lists_brk pm + 1\<rparr>"])
      (auto simp: ape_new_pool_list_def ring_def Let_def)
qed

text \<open>Adding a packet.\<close>

lemma packet_put_spec:
  assumes r: "ring list pm dm ps" and d: "rd dm d = Some bs" "off < length bs" "d \<notin> set (map fst ps)"
  shows "\<exists>pm'. packet_put list d (length bs) off APE_DATA_COPY pm = Some pm'
     \<and> ring list pm' dm (ps @ [(d, drop off bs)])"
proof -
  obtain l xs ys where l: "rd (list_objs pm) list = Some l" and inv: "pool_inv (pools pm) l (xs @ pl_current l # ys)"
    and ps: "list_all2 (packet_at dm (cells (pools pm))) xs ps"
    and sp: "\<forall>a \<in> set (pl_current l # ys). spare (cells (pools pm)) a" and di: "distinct (map fst ps)"
    using r by (auto simp: ring_def ring_at_def)
  let ?c = "pl_current l" and ?m = "pools pm"
  obtain v where v: "rd (cells ?m) ?c = Some v" using sp by (auto simp: spare_def)
  let ?v = "v\<lparr>pdata := d, plen := length bs, poffset := off, data_type := APE_DATA_COPY\<rparr>"
  let ?h = "(cells ?m)(?c \<mapsto> ?v)"
  let ?m1 = "?m\<lparr>cells := ?h\<rparr>"
  have ch: "chain pnext (cells ?m) (pl_head l) (xs @ ?c # ys)" using inv by (simp add: pool_inv_def)
  have dist: "distinct (xs @ ?c # ys)" by (rule pool_inv_dist [OF inv])
  have k: "keeps pflags (cells ?m) ?h" "keeps pnext (cells ?m) ?h" using v by (auto intro: keeps_upd)
  have inv1: "pool_inv ?m1 l (xs @ ?c # ys)"
    by (rule pool_inv_relink [OF inv k(1)]) (use inv keeps_lseg [OF k(2)] ch in \<open>auto simp: pool_inv_def\<close>)
  have c0: "?c \<noteq> NULL" using v by auto
  have pc: "packet_at dm ?h ?c (d, drop off bs)" using d c0 by (simp add: packet_at_def)
  have px: "list_all2 (packet_at dm ?h) xs ps"
    by (rule packets_core [OF ps]) (use dist in auto)
  have sy: "\<forall>a \<in> set ys. spare ?h a" using sp dist by (auto simp: spare_def)
  show ?thesis
  proof (cases ys)
    case (Cons e zs)
    have "chain pnext (cells ?m) (pnext v) ys" using ch v by (simp add: lseg_split)
    then have "pnext v = e" "e \<noteq> NULL" using Cons by (auto split: option.splits)
    then have run: "packet_put list d (length bs) off APE_DATA_COPY pm
        = Some (pm\<lparr>pools := ?m1, list_objs := (list_objs pm)(list \<mapsto> l\<lparr>pl_current := e\<rparr>)\<rparr>)"
      using l v c0 by (simp add: packet_put_def Let_def)
    have "pool_inv ?m1 (l\<lparr>pl_current := e\<rparr>) ((xs @ [?c]) @ e # zs)" using inv1 Cons by (simp add: pool_inv_def)
    then have "ring_at (l\<lparr>pl_current := e\<rparr>) ?m1 dm (ps @ [(d, drop off bs)])"
      unfolding ring_at_def using px pc sy Cons di d(3)
      by (intro exI [of _ "xs @ [?c]"] exI [of _ zs]) (simp add: list_all2_appendI)
    then show ?thesis using run l by (auto simp: ring_def)
  next
    case Nil
    have "chain pnext (cells ?m) (pnext v) ys" using ch v by (simp add: lseg_split)
    then have nx: "pnext v = NULL" using Nil by simp
    obtain p l' m' zs where g: "ape_grow_pool junk_packet l 8 ?m1 = Some (p, l', m')"
      "pool_inv m' l' ((xs @ ?c # ys) @ p # zs)" "l' = l\<lparr>pl_queue := last (p # zs)\<rparr>"
      "\<forall>a \<in> set (p # zs). \<exists>v. rd (cells m') a = Some v \<and> pdata v = NULL"
      using grow_pool_spec [OF inv1, of 8 junk_packet] by (metis zero_less_numeral)
    have ok: "mem_ok ?m1" "0 < pl_size l" "owned ?m1 (xs @ ?c # ys)" using inv1 by (simp_all add: pool_inv_def)
    have core: "map_option slot_core (rd (cells m') a) = map_option slot_core (rd ?h a)" if "a \<in> set (xs @ ?c # ys)" for a
      using grow_core [OF ok(1) _ ok(2) g(1)] owned_below [OF ok(3,1) that] by simp
    have "chain pnext (cells m') (pl_head l') (xs @ ?c # p # zs)" using g(2) Nil by (simp add: pool_inv_def)
    then obtain v1 where v1: "rd (cells m') ?c = Some v1" "pnext v1 = p"
      by (auto simp: lseg_split split: option.splits)
    have run: "packet_put list d (length bs) off APE_DATA_COPY pm
        = Some (pm\<lparr>pools := m', list_objs := (list_objs pm)(list \<mapsto> l'\<lparr>pl_current := p\<rparr>)\<rparr>)"
      using l v c0 g(1) nx v1 by (simp add: packet_put_def Let_def)
    have "pool_inv m' (l'\<lparr>pl_current := p\<rparr>) ((xs @ [?c]) @ p # zs)" using g(2) Nil by (simp add: pool_inv_def)
    moreover have "list_all2 (packet_at dm (cells m')) xs ps" by (rule packets_core [OF px]) (use core in auto)
    moreover have "packet_at dm (cells m') ?c (d, drop off bs)" by (rule packet_core [OF pc]) (use core in auto)
    ultimately have "ring_at (l'\<lparr>pl_current := p\<rparr>) m' dm (ps @ [(d, drop off bs)])"
      unfolding ring_at_def using g(4) di d(3)
      by (intro exI [of _ "xs @ [?c]"] exI [of _ zs]) (simp add: list_all2_appendI spare_def)
    then show ?thesis using run l by (auto simp: ring_def)
  qed
qed

text \<open>The pieces offered to the kernel.\<close>

lemma collect_spec:
  assumes "list_all2 (packet_at dm h) xs ps" and "lseg pnext h p xs c" and "spare h c"
  shows "collect_chunks h dm n p = Some (take n (map snd ps))"
  using assms
proof (induction n arbitrary: p xs ps)
  case (Suc n)
  show ?case
  proof (cases xs)
    case Nil
    then show ?thesis using Suc.prems by (auto simp: spare_def)
  next
    case (Cons a xs')
    obtain q ps' where ps: "ps = q # ps'" "packet_at dm h a q" "list_all2 (packet_at dm h) xs' ps'"
      using Suc.prems(1) Cons by (cases ps) auto
    obtain v bs where v: "rd h a = Some v" "pdata v = fst q" "rd dm (fst q) = Some bs" "plen v = length bs"
      "poffset v < length bs" "snd q = drop (poffset v) bs" using ps(2) by (auto simp: packet_at_def)
    have "lseg pnext h (pnext v) xs' c" "p = a" "a \<noteq> NULL" using Suc.prems(2) Cons v(1) by auto
    then show ?thesis using Suc.IH [OF ps(3) _ Suc.prems(3)] v ps(1) packet_nonempty [OF ps(2)] by simp
  qed
qed simp

text \<open>Changing a slot without its links keeps the pool.\<close>

lemma pool_inv_slot_upd:
  assumes inv: "pool_inv m l as" and v: "rd (cells m) a = Some v" and "pnext v' = pnext v" and "pflags v' = pflags v"
  shows "pool_inv (m\<lparr>cells := (cells m)(a \<mapsto> v')\<rparr>) l as"
proof -
  have k: "keeps pflags (cells m) ((cells m)(a \<mapsto> v'))" "keeps pnext (cells m) ((cells m)(a \<mapsto> v'))"
    using assms by (auto intro: keeps_upd)
  show ?thesis
    by (rule pool_inv_relink [OF inv k(1)]) (use inv keeps_lseg [OF k(2)] in \<open>auto simp: pool_inv_def\<close>)
qed

lemma ringD:
  assumes "ring list pm dm ps"
  obtains l xs ys where "rd (list_objs pm) list = Some l" and "pool_inv (pools pm) l (xs @ pl_current l # ys)"
    and "list_all2 (packet_at dm (cells (pools pm))) xs ps"
    and "\<forall>a \<in> set (pl_current l # ys). spare (cells (pools pm)) a" and "distinct (map fst ps)"
  using assms by (auto simp: ring_def ring_at_def)

text \<open>The packet at the head of the ring.\<close>

lemma ring_head_empty:
  assumes "ring list pm dm []" and "rd (list_objs pm) list = Some l"
  shows "\<exists>v. rd (cells (pools pm)) (pl_head l) = Some v \<and> pdata v = NULL"
proof -
  obtain ys where inv: "pool_inv (pools pm) l (pl_current l # ys)" and sp: "spare (cells (pools pm)) (pl_current l)"
    using ringD [OF assms(1)] assms(2) by (metis append_Nil list.set_intros(1) list_all2_Nil2 option.inject)
  have "pl_head l = pl_current l" using inv by (auto simp: pool_inv_def split: option.splits)
  then show ?thesis using sp by (auto simp: spare_def)
qed

lemma ring_head_split:
  assumes "ring list pm dm (q # ps)" and "rd (list_objs pm) list = Some l"
  obtains xs ys where "pool_inv (pools pm) l (pl_head l # xs @ pl_current l # ys)" and "packet_at dm (cells (pools pm)) (pl_head l) q"
    and "list_all2 (packet_at dm (cells (pools pm))) xs ps" and "\<forall>a \<in> set (pl_current l # ys). spare (cells (pools pm)) a"
    and "distinct (map fst (q # ps))" and "distinct (pl_head l # xs @ pl_current l # ys)"
proof -
  obtain xs ys where inv: "pool_inv (pools pm) l (xs @ pl_current l # ys)"
    and ps: "list_all2 (packet_at dm (cells (pools pm))) xs (q # ps)"
    and sp: "\<forall>a \<in> set (pl_current l # ys). spare (cells (pools pm)) a" and di: "distinct (map fst (q # ps))"
    using ringD [OF assms(1)] assms(2) by (metis option.inject)
  obtain a xs' where xs: "xs = a # xs'" and pa: "packet_at dm (cells (pools pm)) a q"
    and ps': "list_all2 (packet_at dm (cells (pools pm))) xs' ps" using ps by (cases xs) auto
  have "pl_head l = a" using inv xs by (auto simp: pool_inv_def split: option.splits)
  then show ?thesis using that [of xs' ys] inv xs pa ps' sp di pool_inv_dist [OF inv] by simp
qed

lemma packet_atD:
  assumes "packet_at dm h a q" and "rd h a = Some v"
  shows "pdata v = fst q" and "fst q \<noteq> NULL" and "int (plen v) - int (poffset v) = int (length (snd q))"
    and "\<exists>bs. rd dm (fst q) = Some bs \<and> plen v = length bs \<and> snd q = drop (poffset v) bs" and "data_type v = APE_DATA_COPY"
  using assms by (auto simp: packet_at_def)

text \<open>A packet that was sent in part.\<close>

lemma ring_part:
  assumes r: "ring list pm dm (q # ps)" "rd (list_objs pm) list = Some l" and v: "rd (cells (pools pm)) (pl_head l) = Some v"
    and k: "k < length (snd q)"
  shows "ring list (pm\<lparr>pools := (pools pm)\<lparr>cells := (cells (pools pm))(pl_head l \<mapsto> v\<lparr>poffset := poffset v + k\<rparr>)\<rparr>\<rparr>) dm
     ((fst q, drop k (snd q)) # ps)"
proof -
  obtain xs ys where c: "pool_inv (pools pm) l (pl_head l # xs @ pl_current l # ys)" "packet_at dm (cells (pools pm)) (pl_head l) q"
    "list_all2 (packet_at dm (cells (pools pm))) xs ps" "\<forall>a \<in> set (pl_current l # ys). spare (cells (pools pm)) a"
    "distinct (map fst (q # ps))" "distinct (pl_head l # xs @ pl_current l # ys)" by (rule ring_head_split [OF r])
  let ?v = "v\<lparr>poffset := poffset v + k\<rparr>" let ?h = "(cells (pools pm))(pl_head l \<mapsto> ?v)" let ?m = "(pools pm)\<lparr>cells := ?h\<rparr>"
  have h0: "pl_head l \<noteq> NULL" using v by auto
  have inv: "pool_inv ?m l ((pl_head l # xs) @ pl_current l # ys)" using pool_inv_slot_upd [OF c(1) v, of ?v] by simp
  have "packet_at dm ?h (pl_head l) (fst q, drop k (snd q))"
    using c(2) v k h0 by (auto simp: packet_at_def add.commute)
  moreover have "list_all2 (packet_at dm ?h) xs ps" by (rule packets_core [OF c(3)]) (use c(6) in auto)
  ultimately have "list_all2 (packet_at dm ?h) (pl_head l # xs) ((fst q, drop k (snd q)) # ps)" by simp
  moreover have "\<forall>b \<in> set (pl_current l # ys). spare ?h b" using c(4,6) by (auto simp: spare_def)
  ultimately have "ring_at l ?m dm ((fst q, drop k (snd q)) # ps)"
    unfolding ring_at_def using c(5) inv by (intro exI [of _ "pl_head l # xs"] exI [of _ ys]) simp
  then show ?thesis using r(2) by (auto simp: ring_def)
qed

text \<open>A packet that was sent leaves the ring.\<close>

lemma packet_written_spec:
  assumes r: "ring list (packet_mem w) (data_mem w) (q # ps)" "rd (list_objs (packet_mem w)) list = Some l"
    and v: "rd (cells (pools (packet_mem w))) (pl_head l) = Some v"
  shows "\<exists>pm l'. packet_written list (pl_head l) v w
        = Some (pl_head l', w\<lparr>data_mem := (data_mem w)(fst q := None), packet_mem := pm\<rparr>)
     \<and> ring list pm ((data_mem w)(fst q := None)) ps \<and> rd (list_objs pm) list = Some l'
     \<and> lists_brk pm = lists_brk (packet_mem w)"
proof -
  let ?m = "pools (packet_mem w)" and ?dm = "data_mem w" and ?a = "pl_head l"
  obtain xs ys where c: "pool_inv ?m l (?a # xs @ pl_current l # ys)" "packet_at ?dm (cells ?m) ?a q"
    "list_all2 (packet_at ?dm (cells ?m)) xs ps" "\<forall>a \<in> set (pl_current l # ys). spare (cells ?m) a"
    "distinct (map fst (q # ps))" "distinct (?a # xs @ pl_current l # ys)" by (rule ring_head_split [OF r])
  let ?dm1 = "?dm(fst q := None)" let ?h = "(cells ?m)(?a \<mapsto> v\<lparr>pdata := NULL\<rparr>)"
  have rel: "ape_socket_release_data (pdata v) (data_type v) w = Some (w\<lparr>data_mem := ?dm1\<rparr>)"
    using packet_atD [OF c(2) v] by (auto simp: ape_socket_release_data_def free_data_def)
  have inv: "pool_inv (?m\<lparr>cells := ?h\<rparr>) l (?a # xs @ pl_current l # ys)"
    by (rule pool_inv_slot_upd [OF c(1) v]) simp_all
  obtain b rest where br: "xs @ pl_current l # ys = b # rest" by (cases "xs @ pl_current l # ys") auto
  obtain l1 m1 where hq: "ape_pool_head_to_queue l (?m\<lparr>cells := ?h\<rparr>) = Some (b, l1, m1)"
    "pool_inv m1 l1 (b # rest @ [?a])" "l1 = l\<lparr>pl_head := b, pl_queue := ?a\<rparr>"
    using head_to_queue_spec [OF inv [unfolded br]] by metis
  have core: "map_option slot_core (rd (cells m1) x) = map_option slot_core (rd ?h x)" for x
    using keeps_rd [OF head_to_queue_core [OF hq(1)]] by simp
  have "b # rest @ [?a] = xs @ pl_current l1 # ys @ [?a]" using br hq(3) by simp
  then have inv3: "pool_inv m1 l1 (xs @ pl_current l1 # ys @ [?a])" using hq(2) by metis
  have "list_all2 (packet_at ?dm ?h) xs ps" by (rule packets_core [OF c(3)]) (use c(6) in auto)
  then have "list_all2 (packet_at ?dm (cells m1)) xs ps" by (rule packets_core) (rule core)
  moreover have "rd ?dm1 d = rd ?dm d" if "d \<in> set (map fst ps)" for d using that c(5) by (cases "d = fst q") simp_all
  ultimately have px: "list_all2 (packet_at ?dm1 (cells m1)) xs ps" by (rule packets_data)
  have "spare (cells m1) x" if "x \<in> set (pl_current l1 # ys @ [?a])" for x
  proof -
    have "x = ?a \<or> x \<in> set (pl_current l # ys)" using that hq(3) by auto
    then have "spare ?h x" using c(4,6) v by (auto simp: spare_def)
    then show ?thesis by (rule spare_core) (rule core)
  qed
  then have ra: "ring_at l1 m1 ?dm1 ps"
    unfolding ring_at_def using inv3 px c(5) by (intro exI [of _ xs] exI [of _ "ys @ [?a]"]) simp
  let ?pm = "(packet_mem w)\<lparr>pools := m1, list_objs := (list_objs (packet_mem w))(list \<mapsto> l1)\<rparr>"
  have l0: "list \<noteq> NULL" using r(2) by auto
  have "packet_written list ?a v w = Some (pl_head l1, w\<lparr>data_mem := ?dm1, packet_mem := ?pm\<rparr>)"
    using rel v r(2) hq(1,3) by (simp add: packet_written_def)
  moreover have "ring list ?pm ?dm1 ps" "rd (list_objs ?pm) list = Some l1" using ra l0 by (auto simp: ring_def)
  ultimately show ?thesis by (intro exI [of _ ?pm] exI [of _ l1]) simp
qed

text \<open>Taking written bytes off the ring.\<close>

lemma consume_spec:
  assumes "ring list (packet_mem w) (data_mem w) ps" and "rd (list_objs (packet_mem w)) list = Some l"
    and "0 \<le> n" and "n \<le> int (length (bytes_of ps))"
  shows "\<exists>pm dm ps' l'. consume_packets list (pl_head l) n w = Some (pl_head l', w\<lparr>packet_mem := pm, data_mem := dm\<rparr>)
     \<and> ring list pm dm ps' \<and> rd (list_objs pm) list = Some l' \<and> bytes_of ps' = drop (nat n) (bytes_of ps)
     \<and> set (map fst ps') \<subseteq> set (map fst ps) \<and> (\<forall>d. d \<notin> set (map fst ps) \<longrightarrow> dm d = data_mem w d)
     \<and> (\<forall>d. data_mem w d = None \<longrightarrow> dm d = None) \<and> lists_brk pm = lists_brk (packet_mem w)
     \<and> without (set (map fst ps')) dm = without (set (map fst ps)) (data_mem w)"
  using assms
proof (induction ps arbitrary: w n l)
  case Nil
  then have "consume_packets list (pl_head l) n w = Some (pl_head l, w\<lparr>packet_mem := packet_mem w, data_mem := data_mem w\<rparr>)"
    using ring_head_empty [OF Nil.prems(1,2)] by (subst consume_packets.simps) auto
  then show ?case using Nil.prems(1,2) by (intro exI [of _ "packet_mem w"] exI [of _ "data_mem w"] exI [of _ "[]"] exI [of _ l]) simp
next
  case (Cons q ps)
  let ?pm = "packet_mem w" and ?dm = "data_mem w"
  obtain v where v: "rd (cells (pools ?pm)) (pl_head l) = Some v" and pa: "packet_at ?dm (cells (pools ?pm)) (pl_head l) q"
    using ring_head_split [OF Cons.prems(1,2)] by (metis packet_at_def)
  note vq = packet_atD(1-3) [OF pa v]
  have h0: "pl_head l \<noteq> NULL" using v by auto
  let ?n1 = "n - int (length (snd q))"
  show ?case
  proof (cases "?n1 < 0")
    case True
    let ?q = "(fst q, drop (nat n) (snd q))"
    let ?pm1 = "?pm\<lparr>pools := (pools ?pm)\<lparr>cells := (cells (pools ?pm))(pl_head l \<mapsto> v\<lparr>poffset := poffset v + nat n\<rparr>)\<rparr>\<rparr>"
    have off: "nat (int (plen v) + ?n1) = poffset v + nat n" using vq(3) Cons.prems(3) by simp
    have "nat n < length (snd q)" using True Cons.prems(3) by simp
    then have "ring list ?pm1 ?dm (?q # ps)" by (rule ring_part [OF Cons.prems(1,2) v])
    moreover have "consume_packets list (pl_head l) n w = Some (pl_head l, w\<lparr>packet_mem := ?pm1, data_mem := ?dm\<rparr>)"
      using h0 v vq True off by (subst consume_packets.simps) (simp add: Let_def)
    moreover have "bytes_of (?q # ps) = drop (nat n) (bytes_of (q # ps))" using True Cons.prems(3) by simp
    ultimately show ?thesis using Cons.prems(2)
      by (intro exI [of _ ?pm1] exI [of _ ?dm] exI [of _ "?q # ps"] exI [of _ l]) simp
  next
    case False
    let ?dm1 = "?dm(fst q := None)"
    obtain pm1 l1 where w1: "packet_written list (pl_head l) v w = Some (pl_head l1, w\<lparr>data_mem := ?dm1, packet_mem := pm1\<rparr>)"
      "ring list pm1 ?dm1 ps" "rd (list_objs pm1) list = Some l1" "lists_brk pm1 = lists_brk ?pm"
      using packet_written_spec [OF Cons.prems(1,2) v] by blast
    let ?w1 = "w\<lparr>data_mem := ?dm1, packet_mem := pm1\<rparr>"
    have step: "consume_packets list (pl_head l) n w
        = (if ?n1 = 0 then Some (pl_head l1, ?w1) else consume_packets list (pl_head l1) ?n1 ?w1)"
      using h0 v vq False w1(1) by (subst consume_packets.simps) (simp add: Let_def)
    have rg: "ring list (packet_mem ?w1) (data_mem ?w1) ps" "rd (list_objs (packet_mem ?w1)) list = Some l1"
      "0 \<le> ?n1" "?n1 \<le> int (length (bytes_of ps))" using w1 False Cons.prems(4) by simp_all
    obtain pm dm ps' l' where r:
      "consume_packets list (pl_head l1) ?n1 ?w1 = Some (pl_head l', ?w1\<lparr>packet_mem := pm, data_mem := dm\<rparr>)"
      "ring list pm dm ps'" "rd (list_objs pm) list = Some l'" "bytes_of ps' = drop (nat ?n1) (bytes_of ps)"
      "set (map fst ps') \<subseteq> set (map fst ps)" "\<forall>d. d \<notin> set (map fst ps) \<longrightarrow> dm d = data_mem ?w1 d"
      "\<forall>d. data_mem ?w1 d = None \<longrightarrow> dm d = None" "lists_brk pm = lists_brk (packet_mem ?w1)"
      "without (set (map fst ps')) dm = without (set (map fst ps)) (data_mem ?w1)"
      using Cons.IH [OF rg] by blast
    show ?thesis
    proof (cases "?n1 = 0")
      case True
      then have "consume_packets list (pl_head l) n w = Some (pl_head l1, w\<lparr>packet_mem := pm1, data_mem := ?dm1\<rparr>)"
        using step by simp
      moreover have "bytes_of ps = drop (nat n) (bytes_of (q # ps))" using True by simp
      moreover have "without (set (map fst ps)) ?dm1 = without (set (map fst (q # ps))) ?dm" by simp
      moreover have "\<forall>d. d \<notin> set (map fst (q # ps)) \<longrightarrow> ?dm1 d = ?dm d" "\<forall>d. ?dm d = None \<longrightarrow> ?dm1 d = None"
        "set (map fst ps) \<subseteq> set (map fst (q # ps))" by auto
      ultimately show ?thesis using w1(2-4) by blast
    next
      case False2: False
      then have "consume_packets list (pl_head l) n w = Some (pl_head l', w\<lparr>packet_mem := pm, data_mem := dm\<rparr>)"
        using step r(1) by simp
      moreover have "bytes_of ps' = drop (nat n) (bytes_of (q # ps))" using r(4) False by (simp add: nat_diff_distrib)
      moreover have "without (set (map fst ps')) dm = without (set (map fst (q # ps))) ?dm" using r(9) by simp
      ultimately show ?thesis using r(2,3,5,6,7,8) w1(4)
        by (intro exI [of _ pm] exI [of _ dm] exI [of _ ps'] exI [of _ l']) auto
    qed
  qed
qed

section \<open>Job flags\<close>

lemma bit_pow: "m < 32 \<Longrightarrow> bit (2 ^ m :: uint32) n \<longleftrightarrow> n = m"
  by (auto simp: bit_exp_iff)

lemma bit_job_consts:
  "bit APE_SOCKET_JOB_ACTIVE n \<longleftrightarrow> n = 4" "bit APE_SOCKET_JOB_WRITEV n \<longleftrightarrow> n = 1"
  "bit APE_SOCKET_JOB_SENDFILE n \<longleftrightarrow> n = 2" "bit APE_SOCKET_JOB_SHUTDOWN n \<longleftrightarrow> n = 3"
  "bit APE_POOL_ALL_FLAGS n \<longleftrightarrow> n = 0"
  using bit_pow [of 4 n] bit_pow [of 1 n] bit_pow [of 2 n] bit_pow [of 3 n] bit_pow [of 0 n]
  by (simp_all add: APE_SOCKET_JOB_ACTIVE_def APE_SOCKET_JOB_WRITEV_def APE_SOCKET_JOB_SENDFILE_def
      APE_SOCKET_JOB_SHUTDOWN_def APE_POOL_ALL_FLAGS_def APE_POOL_ALLOC_def)

lemma job_flag_bits:
  "job_flag APE_SOCKET_JOB_ACTIVE j \<longleftrightarrow> bit (pflags j) 4" "job_flag APE_SOCKET_JOB_WRITEV j \<longleftrightarrow> bit (pflags j) 1"
  using and_exp_eq_0_iff_not_bit [of "pflags j" 4] and_exp_eq_0_iff_not_bit [of "pflags j" 1]
  by (simp_all add: job_flag_def APE_SOCKET_JOB_ACTIVE_def APE_SOCKET_JOB_WRITEV_def)

lemma bit_job_kind: "bit (job_kind j) n \<longleftrightarrow> bit (pflags j) n \<and> n \<noteq> 0 \<and> n \<noteq> 4"
  unfolding job_kind_def by (auto simp: bit_and_iff bit_or_iff bit_not_iff bit_job_consts dest: bit_imp_possible_bit)

lemma job_kind_set: "job_kind (j\<lparr>pflags := pflags j OR APE_SOCKET_JOB_ACTIVE OR ty\<rparr>) = job_kind j OR (ty AND NOT (APE_POOL_ALL_FLAGS OR APE_SOCKET_JOB_ACTIVE))"
  by (rule bit_word_eqI) (auto simp: bit_job_kind bit_and_iff bit_or_iff bit_not_iff bit_job_consts)

lemma job_kind_more [simp]:
  "job_kind (j\<lparr>pdata := d\<rparr>) = job_kind j" "job_kind (j\<lparr>pflags := pflags j AND NOT APE_SOCKET_JOB_ACTIVE\<rparr>) = job_kind j"
  by (simp add: job_kind_def)
    (rule bit_word_eqI, auto simp: bit_job_kind bit_and_iff bit_or_iff bit_not_iff bit_job_consts)

lemma job_flag_more [simp]:
  "job_flag f (j\<lparr>pdata := d\<rparr>) = job_flag f j"
  "job_flag APE_SOCKET_JOB_ACTIVE (j\<lparr>pflags := pflags j OR APE_SOCKET_JOB_ACTIVE OR ty\<rparr>)"
  "\<not> job_flag APE_SOCKET_JOB_ACTIVE (j\<lparr>pflags := pflags j AND NOT APE_SOCKET_JOB_ACTIVE\<rparr>)"
  by (simp add: job_flag_def) (auto simp: job_flag_bits bit_and_iff bit_or_iff bit_not_iff bit_job_consts)

lemma job_kind_writev:
  assumes "job_kind j = 0 \<or> job_kind j = APE_SOCKET_JOB_WRITEV"
  shows "job_kind (j\<lparr>pflags := pflags j OR APE_SOCKET_JOB_ACTIVE OR APE_SOCKET_JOB_WRITEV\<rparr>) = APE_SOCKET_JOB_WRITEV"
  using assms unfolding job_kind_set
  by (intro bit_word_eqI) (auto simp: bit_and_iff bit_or_iff bit_not_iff bit_job_consts)

lemma job_writev: "job_kind j = APE_SOCKET_JOB_WRITEV \<Longrightarrow> job_flag APE_SOCKET_JOB_WRITEV j"
  using bit_job_kind [of j 1] bit_job_consts(2) [of 1] by (simp add: job_flag_bits)

section \<open>The queue of a socket that only writes\<close>

text \<open>The slots of the jobs: only the first one was ever in use.\<close>

definition idle_slot :: "ape_socket_jobs heap \<Rightarrow> ptr \<Rightarrow> bool" where
  "idle_slot h a \<longleftrightarrow> (\<exists>v. rd h a = Some v \<and> \<not> job_flag APE_SOCKET_JOB_ACTIVE v \<and> job_kind v = 0)"

definition job_pool :: "ape_pool_list \<Rightarrow> ape_socket_jobs pool_mem \<Rightarrow> bool" where
  "job_pool l m \<longleftrightarrow> (\<exists>as. pool_inv m l (pl_head l # as) \<and> as \<noteq> [] \<and> (\<forall>a \<in> set as. idle_slot (cells m) a))"

text \<open>The slots when the head is the current one, and after a shutdown was queued behind it.\<close>

definition slots :: "bool \<Rightarrow> ape_pool_list \<Rightarrow> ape_socket_jobs pool_mem \<Rightarrow> bool" where
  "slots b l m \<longleftrightarrow>
     (if b then \<exists>as v. pool_inv m l (pl_head l # pl_current l # as) \<and> rd (cells m) (pl_current l) = Some v
        \<and> job_flag APE_SOCKET_JOB_ACTIVE v \<and> job_kind v = APE_SOCKET_JOB_SHUTDOWN \<and> (\<forall>a \<in> set as. idle_slot (cells m) a)
      else pl_current l = pl_head l \<and> job_pool l m)"

lemma pool_inv_alloc_upd:
  assumes inv: "pool_inv m l as" and v: "rd (cells m) a = Some v" and v': "pnext v' = pnext v" "pool_is_alloc v' = pool_is_alloc v"
  shows "pool_inv (m\<lparr>cells := (cells m)(a \<mapsto> v')\<rparr>) l as"
proof -
  let ?m = "m\<lparr>cells := (cells m)(a \<mapsto> v')\<rparr>"
  have k: "keeps pnext (cells m) ((cells m)(a \<mapsto> v'))" using v v'(1) by (auto intro: keeps_upd)
  have a0: "a \<noteq> NULL" using v by auto
  have "flagged ?m (set as)" using inv v v'(2) a0 by (auto simp: pool_inv_def owned_def flagged_def)
  then have "owned ?m as"
    using inv by (simp add: pool_inv_def owned_def covered_def closed_blks_def disjoint_blks_def blk_cong [of ?m m])
  moreover have "mem_ok ?m" using inv v by (auto simp: pool_inv_def mem_ok_def rd_Some_iff)
  ultimately show ?thesis using inv keeps_lseg [OF k] by (auto simp: pool_inv_def)
qed

lemma job_pool_upd:
  assumes "job_pool l m" and "rd (cells m) (pl_head l) = Some j" and "pnext j' = pnext j" and "pool_is_alloc j' = pool_is_alloc j"
  shows "job_pool l (m\<lparr>cells := (cells m)(pl_head l \<mapsto> j')\<rparr>)"
proof -
  obtain as where as: "pool_inv m l (pl_head l # as)"
    "as \<noteq> []" "\<forall>a \<in> set as. idle_slot (cells m) a"
    using assms(1) unfolding job_pool_def by blast
  have "pl_head l \<notin> set as" using pool_inv_dist [OF as(1)] by simp
  then have "\<forall>a \<in> set as. idle_slot ((cells m)(pl_head l \<mapsto> j')) a" using as(3) by (auto simp: idle_slot_def)
  then show ?thesis using as(2) pool_inv_alloc_upd [OF as(1) assms(2-4)] unfolding job_pool_def
    by (intro exI [of _ as]) auto
qed

lemma job_alloc [simp]:
  "pool_is_alloc (j\<lparr>pflags := pflags j OR APE_SOCKET_JOB_ACTIVE OR APE_SOCKET_JOB_WRITEV\<rparr>) = pool_is_alloc j"
  "pool_is_alloc (j\<lparr>pflags := pflags j AND NOT APE_SOCKET_JOB_ACTIVE\<rparr>) = pool_is_alloc j"
  using and_exp_eq_0_iff_not_bit [of "pflags (j\<lparr>pflags := pflags j OR APE_SOCKET_JOB_ACTIVE OR APE_SOCKET_JOB_WRITEV\<rparr>)" 0]
    and_exp_eq_0_iff_not_bit [of "pflags (j\<lparr>pflags := pflags j AND NOT APE_SOCKET_JOB_ACTIVE\<rparr>)" 0]
    and_exp_eq_0_iff_not_bit [of "pflags j" 0]
  by (simp_all add: pool_is_alloc_def APE_POOL_ALLOC_def bit_or_iff bit_and_iff bit_not_iff bit_job_consts)

text \<open>A socket that is connected, and the part of the state its queue is in: \<open>j\<close> is the job at
  the head, \<open>n\<close> how much the socket says it holds. A shutdown may wait behind the job, or the
  connection be one over SSL.\<close>

datatype conn_mode = Plain | Ending | Secure

definition conn_in :: "conn_mode \<Rightarrow> ptr \<Rightarrow> ('b, 'k) ape_net \<Rightarrow> int \<Rightarrow> ape_socket_jobs \<Rightarrow> nat \<Rightarrow> bool" where
  "conn_in md p w fd j n \<longleftrightarrow> (\<exists>s. sock p w = Some s \<and> sk_fd s = fd \<and> sk_state s = APE_SOCKET_ST_ONLINE
     \<and> sk_type s = APE_SOCKET_TP_CLIENT \<and> issecure s = (md = Secure) \<and> max_buffer_memory_mb s = 0
     \<and> rd (cells (job_mem w)) (pl_head (jobs s)) = Some j \<and> current_buffer_memory_bytes s = of_nat n
     \<and> slots (md = Ending) (jobs s) (job_mem w) \<and> delay_timer s = NULL \<and> remote_host s = NULL)
     \<and> 0 < nbrk w \<and> (\<forall>a. nbrk w \<le> a \<longrightarrow> data_mem w a = None)
     \<and> mem_ok (pools (packet_mem w)) \<and> 0 < lists_brk (packet_mem w)"

abbreviation conn :: "ptr \<Rightarrow> ('b, 'k) ape_net \<Rightarrow> int \<Rightarrow> ape_socket_jobs \<Rightarrow> nat \<Rightarrow> bool" where
  "conn \<equiv> conn_in Plain"

lemma conn_def: "conn p w fd j n \<longleftrightarrow> (\<exists>s. sock p w = Some s \<and> sk_fd s = fd \<and> sk_state s = APE_SOCKET_ST_ONLINE
     \<and> sk_type s = APE_SOCKET_TP_CLIENT \<and> \<not> issecure s \<and> max_buffer_memory_mb s = 0 \<and> pl_current (jobs s) = pl_head (jobs s)
     \<and> rd (cells (job_mem w)) (pl_head (jobs s)) = Some j \<and> current_buffer_memory_bytes s = of_nat n
     \<and> job_pool (jobs s) (job_mem w) \<and> delay_timer s = NULL \<and> remote_host s = NULL)
     \<and> 0 < nbrk w \<and> (\<forall>a. nbrk w \<le> a \<longrightarrow> data_mem w a = None)
     \<and> mem_ok (pools (packet_mem w)) \<and> 0 < lists_brk (packet_mem w)"
  by (auto simp: conn_in_def slots_def)

text \<open>Over SSL the socket says it holds more than it does.\<close>

definition queued_in :: "conn_mode \<Rightarrow> ptr \<Rightarrow> ('b, 'k) ape_net \<Rightarrow> int \<Rightarrow> packets \<Rightarrow> bool" where
  "queued_in md p w fd ps \<longleftrightarrow> (\<exists>j n. conn_in md p w fd j n \<and> (md = Secure \<or> n = length (bytes_of ps))
     \<and> job_flag APE_SOCKET_JOB_ACTIVE j = (ps \<noteq> [])
     \<and> (job_kind j = 0 \<and> pdata j = NULL \<and> ps = []
        \<or> job_kind j = APE_SOCKET_JOB_WRITEV \<and> ring (pdata j) (packet_mem w) (data_mem w) ps))"

abbreviation queued :: "ptr \<Rightarrow> ('b, 'k) ape_net \<Rightarrow> int \<Rightarrow> packets \<Rightarrow> bool" where
  "queued \<equiv> queued_in Plain"

lemma queued_def: "queued p w fd ps \<longleftrightarrow> (\<exists>j. conn p w fd j (length (bytes_of ps)) \<and> job_flag APE_SOCKET_JOB_ACTIVE j = (ps \<noteq> [])
     \<and> (job_kind j = 0 \<and> pdata j = NULL \<and> ps = []
        \<or> job_kind j = APE_SOCKET_JOB_WRITEV \<and> ring (pdata j) (packet_mem w) (data_mem w) ps))"
  by (auto simp: queued_in_def)

text \<open>A socket that is known to block has something to send.\<close>

definition waits :: "ptr \<Rightarrow> ('b, 'k) ape_net \<Rightarrow> packets \<Rightarrow> bool" where
  "waits p w ps \<longleftrightarrow> (\<forall>s. sock p w = Some s \<longrightarrow> would_block s \<longrightarrow> ps \<noteq> [])"

lemma waits_simps [simp]: "ps \<noteq> [] \<Longrightarrow> waits p w ps" "waits p (w\<lparr>kernel := k\<rparr>) ps = waits p w ps"
  by (simp_all add: waits_def sock_def)

text \<open>The queue does not touch the timers.\<close>

definition timers_of :: "('b, 'k) ape_net \<Rightarrow> ape_timer heap \<times> ape_timer_async heap \<times> ptr \<times> ptr \<times> ptr" where
  "timers_of w = (timer_objs w, async_objs w, tbrk w, thead w, head_async w)"

lemma timers_of_frame [simp]:
  "timers_of (w\<lparr>kernel := x1\<rparr>) = timers_of w" "timers_of (w\<lparr>job_mem := x2\<rparr>) = timers_of w"
  "timers_of (w\<lparr>packet_mem := x3\<rparr>) = timers_of w" "timers_of (w\<lparr>data_mem := x4\<rparr>) = timers_of w"
  "timers_of (w\<lparr>sockets := x5\<rparr>) = timers_of w" "timers_of (w\<lparr>nbrk := x6\<rparr>) = timers_of w"
  "timers_of (w\<lparr>total_memory_buffered := x7\<rparr>) = timers_of w" "timers_of (w\<lparr>events := x8\<rparr>) = timers_of w"
  "timers_of (w\<lparr>nco := x9\<rparr>) = timers_of w"
  by (simp_all add: timers_of_def)

lemma ring_data: "ring list pm dm ps \<Longrightarrow> d \<in> set (map fst ps) \<Longrightarrow> rd dm d \<noteq> None"
  by (fastforce simp: ring_def ring_at_def list_all2_conv_all_nth in_set_conv_nth packet_at_def)

lemma ring_cong:
  assumes "ring list pm dm ps" and "\<And>d. d \<in> set (map fst ps) \<Longrightarrow> rd dm' d = rd dm d"
  shows "ring list pm dm' ps"
proof -
  from assms(1) obtain l xs ys where "rd (list_objs pm) list = Some l" "pool_inv (pools pm) l (xs @ pl_current l # ys)"
    "list_all2 (packet_at dm (cells (pools pm))) xs ps" "\<forall>a \<in> set (pl_current l # ys). spare (cells (pools pm)) a"
    "distinct (map fst ps)" by (rule ringD)
  moreover have "list_all2 (packet_at dm' (cells (pools pm))) xs ps" by (rule packets_data [OF calculation(3) assms(2)])
  ultimately show ?thesis unfolding ring_def ring_at_def by blast
qed

lemma ring_mem_ok: "ring list pm dm ps \<Longrightarrow> mem_ok (pools pm) \<and> list \<noteq> NULL"
  by (auto simp: ring_def ring_at_def pool_inv_def)

lemma packet_put_lists: "packet_put list d n off ty pm = Some pm' \<Longrightarrow> lists_brk pm' = lists_brk pm"
  by (auto simp: packet_put_def Let_def split: bind_splits if_splits)

text \<open>How much the socket says it holds.\<close>

definition buffered :: "ptr \<Rightarrow> ('b, 'k) ape_net \<Rightarrow> uint64" where
  "buffered p w = (case sock p w of None \<Rightarrow> 0 | Some s \<Rightarrow> current_buffer_memory_bytes s)"

text \<open>The SSL connection of a socket.\<close>

definition ssl_at :: "ptr \<Rightarrow> ('b, 'k) ape_net \<Rightarrow> ptr option" where
  "ssl_at p w = map_option ssl_ptr (sock p w)"

lemma queue_data_spec:
  assumes q: "queued_in md p w fd ps" and md: "md \<noteq> Ending" and d: "rd (data_mem w) d = Some bs" "off < length bs"
  shows "\<exists>w'. ape_socket_queue_data E p d (length bs) off APE_DATA_COPY w = Some w'
     \<and> queued_in md p w' fd (ps @ [(nbrk w, drop off bs)]) \<and> kernel w' = kernel w
     \<and> (\<forall>a < nbrk w. data_mem w' a = data_mem w a) \<and> timers_of w' = timers_of w
     \<and> buffered p w' = buffered p w + of_nat (length (drop off bs))
     \<and> data_mem w' = (data_mem w)(nbrk w \<mapsto> bs) \<and> ssl_at p w' = ssl_at p w"
proof -
  obtain j n s where c: "sock p w = Some s" "sk_fd s = fd" "sk_state s = APE_SOCKET_ST_ONLINE"
      "sk_type s = APE_SOCKET_TP_CLIENT \<and> issecure s = (md = Secure)"
      "max_buffer_memory_mb s = 0" "pl_current (jobs s) = pl_head (jobs s)"
      "rd (cells (job_mem w)) (pl_head (jobs s)) = Some j" "current_buffer_memory_bytes s = of_nat n"
    and nn: "md = Secure \<or> n = length (bytes_of ps)" and jp: "job_pool (jobs s) (job_mem w)" and dl: "delay_timer s = NULL" "remote_host s = NULL" and fr: "0 < nbrk w" "\<forall>a. nbrk w \<le> a \<longrightarrow> data_mem w a = None"
    and ok: "mem_ok (pools (packet_mem w))" "0 < lists_brk (packet_mem w)"
    and act: "job_flag APE_SOCKET_JOB_ACTIVE j = (ps \<noteq> [])"
    and st: "job_kind j = 0 \<and> pdata j = NULL \<and> ps = []
        \<or> job_kind j = APE_SOCKET_JOB_WRITEV \<and> ring (pdata j) (packet_mem w) (data_mem w) ps"
    using q md unfolding queued_in_def conn_in_def slots_def by (simp only: if_False simp_thms) blast
  let ?d = "nbrk w" and ?h = "pl_head (jobs s)"
  let ?dm = "(data_mem w)(?d \<mapsto> bs)"
  let ?w1 = "w\<lparr>data_mem := ?dm, nbrk := ?d + 1\<rparr>"
  let ?j = "j\<lparr>pflags := pflags j OR APE_SOCKET_JOB_ACTIVE OR APE_SOCKET_JOB_WRITEV\<rparr>"
  let ?w2 = "?w1\<lparr>job_mem := (job_mem w)\<lparr>cells := (cells (job_mem w))(?h \<mapsto> ?j)\<rparr>\<rparr>"
  have h0: "?h \<noteq> NULL" using c(7) by auto
  have kd: "job_kind ?j = APE_SOCKET_JOB_WRITEV" by (rule job_kind_writev) (use st in blast)
  have slot: "ape_socket_job_get_slot p APE_SOCKET_JOB_WRITEV ?w1 = Some (?h, ?w2)"
    using c(1,6,7) st act job_writev [of j] by (auto simp: ape_socket_job_get_slot_def sock_def Let_def)
  have dd: "rd ?dm ?d = Some bs" using fr(1) by simp
  obtain list j3 w3 where pk: "job_packets ?h ?w2 = Some (list, w3)"
    and w3: "w3 = ?w2\<lparr>job_mem := (job_mem w)\<lparr>cells := (cells (job_mem w))(?h \<mapsto> j3)\<rparr>, packet_mem := packet_mem w3\<rparr>"
    and j3: "job_kind j3 = APE_SOCKET_JOB_WRITEV" "job_flag APE_SOCKET_JOB_ACTIVE j3" "pdata j3 = list"
    and j3': "pnext j3 = pnext j" "pool_is_alloc j3 = pool_is_alloc j" and rg: "ring list (packet_mem w3) ?dm ps" and lb: "0 < lists_brk (packet_mem w3)"
  proof (cases "pdata j = NULL")
    case True
    then have ps: "ps = []" using st ring_mem_ok by fastforce
    obtain pm where pm: "ape_new_pool_list junk_packet sizeof_packet 8 (packet_mem w) = Some (lists_brk (packet_mem w), pm)"
      "ring (lists_brk (packet_mem w)) pm ?dm []" by (rule new_ring [OF ok])
    let ?j3 = "?j\<lparr>pdata := lists_brk (packet_mem w)\<rparr>"
    have "job_packets ?h ?w2 = Some (lists_brk (packet_mem w),
        ?w2\<lparr>packet_mem := pm, job_mem := (job_mem w)\<lparr>cells := (cells (job_mem w))(?h \<mapsto> ?j3)\<rparr>\<rparr>)"
      using True h0 pm(1) by (simp add: job_packets_def ape_socket_new_packet_queue_def)
    moreover have "lists_brk pm = lists_brk (packet_mem w) + 1"
      using pm(1) by (auto simp: ape_new_pool_list_def Let_def split: bind_splits)
    moreover have "job_flag APE_SOCKET_JOB_ACTIVE ?j3" "pool_is_alloc ?j3 = pool_is_alloc j"
      using job_alloc(1) [of j] by (simp_all add: pool_is_alloc_def)
    ultimately show ?thesis using that [of "lists_brk (packet_mem w)" _ ?j3] pm(2) ps kd by simp
  next
    case False
    then have "ring (pdata j) (packet_mem w) (data_mem w) ps" using st by auto
    then have "ring (pdata j) (packet_mem w) ?dm ps"
      by (rule ring_cong) (use ring_data [OF \<open>ring (pdata j) (packet_mem w) (data_mem w) ps\<close>] fr in \<open>force simp: rd_def\<close>)
    moreover have "job_packets ?h ?w2 = Some (pdata j, ?w2)" using False h0 by (simp add: job_packets_def)
    ultimately show ?thesis using that [of "pdata j" ?w2 ?j] kd ok(2) by simp
  qed
  have nd: "?d \<notin> set (map fst ps)"
  proof (cases "ps = []")
    case False
    then have "ring (pdata j) (packet_mem w) (data_mem w) ps" using st by auto
    then show ?thesis using ring_data [of _ _ "data_mem w" ps ?d] fr by (auto simp: rd_def)
  qed simp
  obtain pm where pm: "packet_put list ?d (length bs) off APE_DATA_COPY (packet_mem w3) = Some pm"
    "ring list pm ?dm (ps @ [(?d, drop off bs)])" using packet_put_spec [OF rg dd d(2) nd] by blast
  let ?n = "of_nat (length bs) - of_nat off :: uint64"
  let ?s = "s\<lparr>current_buffer_memory_bytes := current_buffer_memory_bytes s + ?n\<rparr>"
  let ?w4 = "w3\<lparr>packet_mem := pm, total_memory_buffered := total_memory_buffered w3 + ?n, sockets := (sockets w)(p \<mapsto> ?s)\<rparr>"
  have p0: "p \<noteq> NULL" using c(1) by (auto simp: sock_def)
  have s3: "sockets w3 = sockets w" "job_mem w3 = (job_mem w)\<lparr>cells := (cells (job_mem w))(?h \<mapsto> j3)\<rparr>"
    "data_mem w3 = ?dm" "nbrk w3 = ?d + 1" "kernel w3 = kernel w" "timers_of w3 = timers_of w" by (subst w3, simp)+
  have u: "upd_sock p (\<lambda>s. s\<lparr>current_buffer_memory_bytes := current_buffer_memory_bytes s + ?n\<rparr>)
             (w3\<lparr>packet_mem := pm, total_memory_buffered := total_memory_buffered w3 + ?n\<rparr>) = Some ?w4"
    using c(1) s3(1) by (simp add: upd_sock_def sock_def)
  have run: "ape_socket_queue_data E p d (length bs) off APE_DATA_COPY w = Some ?w4"
    using d(1) slot pk pm(1) u c(5) p0 unfolding ape_socket_queue_data_def malloc_data_def
    by (simp add: Let_def sock_def)
  have n: "?n = of_nat (length (drop off bs))" using d(2) by (simp add: of_nat_diff)
  have jp3: "job_pool (jobs s) (job_mem w3)" unfolding s3(2) by (rule job_pool_upd [OF jp c(7) j3'])
  have "conn_in md p ?w4 fd j3 (n + length (drop off bs))"
    unfolding conn_in_def slots_def using c md p0 h0 jp3 dl s3 fr(2) ring_mem_ok [OF pm(2)] packet_put_lists [OF pm(1)] lb n
    by (auto simp: sock_def)
  moreover have "md = Secure \<or> n + length (drop off bs) = length (bytes_of (ps @ [(?d, drop off bs)]))" using nn by auto
  ultimately have "queued_in md p ?w4 fd (ps @ [(?d, drop off bs)])"
    unfolding queued_in_def using j3 pm(2) s3(3) by (intro exI [of _ j3] exI [of _ "n + length (drop off bs)"]) auto
  moreover have "buffered p ?w4 = buffered p w + of_nat (length (drop off bs))"
    using c(1) p0 n by (simp add: buffered_def sock_def)
  moreover have "ssl_at p ?w4 = ssl_at p w" using c(1) p0 by (simp add: ssl_at_def sock_def)
  ultimately show ?thesis using run s3(3,5,6) by (intro exI [of _ ?w4]) simp
qed

section \<open>The state of a queue\<close>

lemma queued_kernel [simp]: "queued_in md p (w\<lparr>kernel := k\<rparr>) fd ps = queued_in md p w fd ps"
  by (simp add: queued_in_def conn_in_def sock_def)

lemma queued_would_block:
  assumes "queued_in md p w fd ps"
  shows "\<exists>w'. set_would_block p w = Some w' \<and> queued_in md p w' fd ps \<and> kernel w' = kernel w \<and> data_mem w' = data_mem w
     \<and> nbrk w' = nbrk w \<and> timers_of w' = timers_of w"
    and "\<exists>w'. upd_sock p (\<lambda>s. s\<lparr>sk_flags := f s\<rparr>) w = Some w' \<and> queued_in md p w' fd ps \<and> kernel w' = kernel w
      \<and> timers_of w' = timers_of w"
proof -
  obtain s where s: "sock p w = Some s" using assms by (auto simp: queued_in_def conn_in_def)
  then have p0: "p \<noteq> NULL" by (auto simp: sock_def)
  have "queued_in md p (w\<lparr>sockets := (sockets w)(p \<mapsto> s\<lparr>sk_flags := g\<rparr>)\<rparr>) fd ps" for g
    using assms s p0 by (auto simp: queued_in_def conn_in_def sock_def)
  then show "\<exists>w'. set_would_block p w = Some w' \<and> queued_in md p w' fd ps \<and> kernel w' = kernel w \<and> data_mem w' = data_mem w
     \<and> nbrk w' = nbrk w \<and> timers_of w' = timers_of w"
    and "\<exists>w'. upd_sock p (\<lambda>s. s\<lparr>sk_flags := f s\<rparr>) w = Some w' \<and> queued_in md p w' fd ps \<and> kernel w' = kernel w
      \<and> timers_of w' = timers_of w"
    using s by (simp_all add: set_would_block_def upd_sock_def sock_def)
qed

lemma queued_must:
  assumes "queued_in md p w fd ps"
  shows "\<exists>s q. sock p w = Some s \<and> must_queue p w = Some q \<and> (\<not> q \<longrightarrow> ps = []) \<and> sk_fd s = fd
     \<and> issecure s = (md = Secure) \<and> sk_state s = APE_SOCKET_ST_ONLINE \<and> p \<noteq> NULL"
proof -
  obtain j s where c: "sock p w = Some s" "sk_fd s = fd" "sk_state s = APE_SOCKET_ST_ONLINE" "issecure s = (md = Secure)"
    "rd (cells (job_mem w)) (pl_head (jobs s)) = Some j" "job_flag APE_SOCKET_JOB_ACTIVE j = (ps \<noteq> [])"
    using assms unfolding queued_in_def conn_in_def by blast
  then have "must_queue p w = Some (would_block s \<or> ps \<noteq> [])" by (simp add: must_queue_def)
  then show ?thesis using c by (auto simp: sock_def)
qed

lemma queued_ring:
  assumes "queued_in md p w fd ps" and "ps \<noteq> []"
  obtains s j l where "sock p w = Some s" and "sk_fd s = fd" and "issecure s = (md = Secure)"
    and "rd (cells (job_mem w)) (pl_head (jobs s)) = Some j" and "job_flag APE_SOCKET_JOB_ACTIVE j"
    and "job_kind j = APE_SOCKET_JOB_WRITEV" and "ring (pdata j) (packet_mem w) (data_mem w) ps"
    and "rd (list_objs (packet_mem w)) (pdata j) = Some l"
    and "collect_chunks (cells (pools (packet_mem w))) (data_mem w) max_chunks (pl_head l)
        = Some (take max_chunks (map snd ps))"
    and "concat (take max_chunks (map snd ps)) \<noteq> []"
proof -
  from assms(1) obtain j n where cn: "conn_in md p w fd j n"
    and act: "job_flag APE_SOCKET_JOB_ACTIVE j = (ps \<noteq> [])"
    and st: "job_kind j = 0 \<and> pdata j = NULL \<and> ps = []
        \<or> job_kind j = APE_SOCKET_JOB_WRITEV \<and> ring (pdata j) (packet_mem w) (data_mem w) ps"
    unfolding queued_in_def by blast
  from cn obtain s where s: "sock p w = Some s" "sk_fd s = fd" "issecure s = (md = Secure)"
    "rd (cells (job_mem w)) (pl_head (jobs s)) = Some j" unfolding conn_in_def by blast
  from st assms(2) have kd: "job_kind j = APE_SOCKET_JOB_WRITEV" and rg: "ring (pdata j) (packet_mem w) (data_mem w) ps" by auto
  from rg obtain l xs ys where l: "rd (list_objs (packet_mem w)) (pdata j) = Some l"
    "pool_inv (pools (packet_mem w)) l (xs @ pl_current l # ys)"
    "list_all2 (packet_at (data_mem w) (cells (pools (packet_mem w)))) xs ps"
    "\<forall>a \<in> set (pl_current l # ys). spare (cells (pools (packet_mem w))) a" by (rule ringD)
  have "lseg pnext (cells (pools (packet_mem w))) (pl_head l) xs (pl_current l)"
    using l(2) by (auto simp: pool_inv_def lseg_split)
  then have co: "collect_chunks (cells (pools (packet_mem w))) (data_mem w) max_chunks (pl_head l)
        = Some (take max_chunks (map snd ps))" using collect_spec [OF l(3)] l(4) by simp
  obtain q ps' where ps: "ps = q # ps'" using assms(2) by (cases ps) auto
  then obtain a where "packet_at (data_mem w) (cells (pools (packet_mem w))) a q" using l(3) by (auto simp: list_all2_Cons2)
  then have "snd q \<noteq> []" using packet_nonempty by blast
  then have "concat (take max_chunks (map snd ps)) \<noteq> []" using ps by (simp add: max_chunks_def)
  then show ?thesis using that s act assms(2) kd rg l(1) co by blast
qed

lemma take_chunks: "length (concat (take m (map snd ps))) \<le> length (bytes_of ps)"
  "take n (concat (take m (map snd ps))) = take n (bytes_of ps)" if "n \<le> length (concat (take m (map snd ps)))" for n ps
proof -
  have e: "bytes_of ps = concat (take m (map snd ps)) @ concat (drop m (map snd ps))"
    unfolding bytes_of_def by (metis append_take_drop_id concat_append)
  then show "length (concat (take m (map snd ps))) \<le> length (bytes_of ps)" by simp
  show "take n (concat (take m (map snd ps))) = take n (bytes_of ps)" using that e by simp
qed

section \<open>A connection that is up\<close>

text \<open>
  The loop of \<open>APE_socket_write\<close> on the block \<open>bs\<close>, of which \<open>t\<close> bytes are written: now or
  later the kernel takes more than is left, as it is always asked for the length of the block.
\<close>

inductive overreads :: "'k net_sys \<Rightarrow> int \<Rightarrow> byte list \<Rightarrow> nat \<Rightarrow> 'k \<Rightarrow> bool" for S fd bs where
  over_now: "t < length bs \<Longrightarrow> sys_write S fd (length bs) (drop t bs) k = (n, e, k') \<Longrightarrow> int (length bs - t) < n
    \<Longrightarrow> overreads S fd bs t k"
| over_later: "t < length bs \<Longrightarrow> sys_write S fd (length bs) (drop t bs) k = (n, e, k') \<Longrightarrow> 0 < n
    \<Longrightarrow> n \<le> int (length bs - t) \<Longrightarrow> overreads S fd bs (t + nat n) k' \<Longrightarrow> overreads S fd bs t k"

text \<open>
  What the queue relies on: \<open>out k fd\<close> are the bytes that were taken from \<open>fd\<close>, and
  \<open>room k fd\<close> is how many more can be taken at once. A call that asks for \<open>r\<close> bytes, with
  \<open>bs\<close> in the block, takes some, at most \<open>r\<close>; those of the block it takes in order, and when it takes
  more than the block has nothing is said of what is sent. Or it would block, when there is no room.
\<close>

locale stream_kernel =
  fixes S :: "'k net_sys" and out :: "'k \<Rightarrow> int \<Rightarrow> byte list" and room :: "'k \<Rightarrow> int \<Rightarrow> nat"
  assumes takes: "sys_write S fd r bs k = (n, e, k') \<Longrightarrow> bs \<noteq> [] \<Longrightarrow> length bs \<le> r \<Longrightarrow>
      n = - 1 \<and> e = EAGAIN \<and> out k' = out k \<and> room k fd = 0
      \<or> 0 < n \<and> n \<le> int r \<and> (n \<le> int (length bs) \<longrightarrow>
          room k fd \<le> room k' fd + nat n \<and> out k' = (out k)(fd := out k fd @ take (nat n) bs))"
    and takesv: "sys_writev S fd css k = (n, e, k') \<Longrightarrow> concat css \<noteq> [] \<Longrightarrow>
      n = - 1 \<and> e = EAGAIN \<and> out k' = out k \<and> room k fd = 0
      \<or> 0 < n \<and> n \<le> int (length (concat css)) \<and> room k fd \<le> room k' fd + nat n
         \<and> out k' = (out k)(fd := out k fd @ take (nat n) (concat css))"
begin

text \<open>Trying to write at once: the loop faults just when the kernel takes more than is left.\<close>

lemma write_loop_from:
  assumes "t \<le> length bs"
  shows "overreads S fd bs t k \<and> write_loop S fd bs (length bs) t (length bs) k = None
     \<or> (\<exists>en k' sent rest. write_loop S fd bs (length bs) t (length bs) k = Some (en, k') \<and> drop t bs = sent @ rest
     \<and> out k' = (out k)(fd := out k fd @ sent)
     \<and> (en = W_done \<and> rest = [] \<or> en = W_again (t + length sent) \<and> rest \<noteq> []))"
  using assms
proof (induction "length bs - t" arbitrary: t k rule: less_induct)
  case less
  show ?case
  proof (cases "t < length bs")
    case False
    then have "write_loop S fd bs (length bs) t (length bs) k = Some (W_done, k)" by (subst write_loop.simps) simp
    then show ?thesis using False by (intro disjI2 exI [of _ W_done] exI [of _ k] exI [of _ "[]"]) simp
  next
    case True
    obtain n e k' where w: "sys_write S fd (length bs) (drop t bs) k = (n, e, k')" by (cases "sys_write S fd (length bs) (drop t bs) k")
    have r: "take (length bs) (drop t bs) = drop t bs" by simp
    have ne: "drop t bs \<noteq> []" "bs \<noteq> []" using True by auto
    from takes [OF w ne(1)] consider
      (again) "n = - 1" "e = EAGAIN" "out k' = out k" | (over) "int (length bs - t) < n"
      | (some) "0 < n" "n \<le> int (length bs - t)" "out k' = (out k)(fd := out k fd @ take (nat n) (drop t bs))" by fastforce
    then show ?thesis
    proof cases
      case again
      then have "write_loop S fd bs (length bs) t (length bs) k = Some (W_again t, k')"
        using w True ne by (subst write_loop.simps) (simp add: r)
      then show ?thesis using again ne
        by (intro disjI2 exI [of _ "W_again t"] exI [of _ k'] exI [of _ "[]"] exI [of _ "drop t bs"]) simp
    next
      case over
      then have "\<not> n < 0" "length (drop t bs) < nat n" by auto
      then have "write_loop S fd bs (length bs) t (length bs) k = None"
        using w True by (subst write_loop.simps) (simp add: r)
      then show ?thesis using over_now [OF True w over] by blast
    next
      case some
      have "\<not> length (drop t bs) < nat n" using some(2) by auto
      then have step: "write_loop S fd bs (length bs) t (length bs) k = write_loop S fd bs (length bs) (t + nat n) (length bs) k'"
        using w True some(1) by (subst write_loop.simps) (simp add: r)
      have "length bs - (t + nat n) < length bs - t" "t + nat n \<le> length bs" using some(1,2) True by linarith+
      note ih = less.hyps [OF this, of k']
      show ?thesis
      proof (cases "write_loop S fd bs (length bs) (t + nat n) (length bs) k' = None")
        case True2: True
        then have "overreads S fd bs (t + nat n) k'" using ih by auto
        then show ?thesis using step True2 over_later [OF True w some(1,2)] by simp
      next
        case False
        then obtain en k2 sent rest where i: "write_loop S fd bs (length bs) (t + nat n) (length bs) k' = Some (en, k2)"
          "drop (t + nat n) bs = sent @ rest" "out k2 = (out k')(fd := out k' fd @ sent)"
          "en = W_done \<and> rest = [] \<or> en = W_again (t + nat n + length sent) \<and> rest \<noteq> []"
          using ih by (elim disjE conjE exE) (simp, blast, blast)
        have "drop t bs = (take (nat n) (drop t bs) @ sent) @ rest"
          using i(2) append_take_drop_id [of "nat n" "drop t bs"] by (simp add: add.commute)
        moreover have "length (take (nat n) (drop t bs)) = nat n" using some(2) by auto
        ultimately show ?thesis using step i some(3)
          by (intro disjI2 exI [of _ en] exI [of _ k2] exI [of _ "take (nat n) (drop t bs) @ sent"] exI [of _ rest])
            (simp add: add.assoc del: length_take)
      qed
    qed
  qed
qed

lemma write_loop_spec:
  "overreads S fd bs 0 k \<and> write_loop S fd bs (length bs) 0 (length bs) k = None
   \<or> (\<exists>en k' sent rest. write_loop S fd bs (length bs) 0 (length bs) k = Some (en, k') \<and> bs = sent @ rest
     \<and> out k' = (out k)(fd := out k fd @ sent)
     \<and> (en = W_done \<and> rest = [] \<or> en = W_again (length sent) \<and> rest \<noteq> []))"
  using write_loop_from [of 0 bs fd k] by simp

lemma write_spec:
  assumes S: "nsys E = S" and q: "queued p w fd ps" and d: "rd (data_mem w) d = Some bs" "bs \<noteq> []"
  shows "APE_socket_write E p d (length bs) APE_DATA_COPY w = None \<and> overreads S fd bs 0 (kernel w)
     \<or> (\<exists>r w' ps'. APE_socket_write E p d (length bs) APE_DATA_COPY w = Some (r, w') \<and> queued p w' fd ps'
     \<and> (\<exists>sent. out (kernel w') = (out (kernel w))(fd := out (kernel w) fd @ sent)
          \<and> sent @ bytes_of ps' = bytes_of ps @ bs)
     \<and> (\<forall>a < nbrk w. data_mem w' a = data_mem w a) \<and> set (map fst ps') \<subseteq> insert (nbrk w) (set (map fst ps))
     \<and> without (set (map fst ps')) (data_mem w') = without (set (map fst ps)) (data_mem w)
     \<and> timers_of w' = timers_of w \<and> (waits p w ps \<longrightarrow> waits p w' ps'))"
proof -
  have new: "data_mem w (nbrk w) = None" using q unfolding queued_def conn_def by blast
  obtain s b where s: "sock p w = Some s" "must_queue p w = Some b" "\<not> b \<longrightarrow> ps = []" "sk_fd s = fd" "\<not> issecure s"
    "sk_state s = APE_SOCKET_ST_ONLINE" "p \<noteq> NULL" using queued_must [OF q] by auto
  have on: "APE_socket_is_online p w = Some True" using s by (simp add: APE_socket_is_online_def)
  have len: "0 < length bs" using d(2) by simp
  show ?thesis
  proof (cases b)
    case True
    obtain w' where w': "ape_socket_queue_data E p d (length bs) 0 APE_DATA_COPY w = Some w'"
      "queued p w' fd (ps @ [(nbrk w, drop 0 bs)])" "kernel w' = kernel w" "\<forall>a < nbrk w. data_mem w' a = data_mem w a" "timers_of w' = timers_of w"
      "data_mem w' = (data_mem w)(nbrk w \<mapsto> bs)"
      using queue_data_spec [OF q _ d(1) len] by auto
    have "APE_socket_write E p d (length bs) APE_DATA_COPY w = Some (c_int (int (length bs)), w')"
      using on s(2) True w'(1) d(2) by (simp add: APE_socket_write_def Let_def)
    then show ?thesis using w'(2-5) without_put [of "data_mem w", OF new, where D = "set (map fst ps)"] w'(6)
      by (intro disjI2 exI [of _ "c_int (int (length bs))"] exI [of _ w'] exI [of _ "ps @ [(nbrk w, bs)]"]) auto
  next
    case False
    show ?thesis
    proof (cases "write_loop S fd bs (length bs) 0 (length bs) (kernel w) = None")
      case True
      then have "APE_socket_write E p d (length bs) APE_DATA_COPY w = None"
        using on s(1,2,4,5) False d S by (simp add: APE_socket_write_def Let_def)
      then show ?thesis using write_loop_spec [of fd bs "kernel w"] True by auto
    next
    case go: False
    obtain en k sent rest where wl: "write_loop S fd bs (length bs) 0 (length bs) (kernel w) = Some (en, k)" "bs = sent @ rest"
      "out k = (out (kernel w))(fd := out (kernel w) fd @ sent)"
      "en = W_done \<and> rest = [] \<or> en = W_again (length sent) \<and> rest \<noteq> []"
      using write_loop_spec [of fd bs "kernel w"] go by blast
    let ?w1 = "w\<lparr>kernel := k\<rparr>"
    have q1: "queued p ?w1 fd ps" using q by simp
    have ps: "ps = []" using s(3) False by simp
    from wl(4) show ?thesis
    proof (elim disjE conjE)
      assume e: "en = W_done" "rest = []"
      have "APE_socket_write E p d (length bs) APE_DATA_COPY w = Some (0, ?w1)"
        using on s(1,2,4,5) False wl(1) d e(1) S by (simp add: APE_socket_write_def Let_def ape_socket_release_data_def)
      then show ?thesis using q1 wl(2,3) e(2) ps
        by (intro disjI2 exI [of _ 0] exI [of _ ?w1] exI [of _ "[]"]) auto
    next
      assume e: "en = W_again (length sent)" "rest \<noteq> []"
      obtain w2 where w2: "set_would_block p ?w1 = Some w2" "queued p w2 fd ps" "kernel w2 = k" "data_mem w2 = data_mem w"
        "nbrk w2 = nbrk w" "timers_of w2 = timers_of w" using queued_would_block(1) [OF q1] by auto
      have "length sent < length bs" using wl(2) e(2) by simp
      then obtain w' where w': "ape_socket_queue_data E p d (length bs) (length sent) APE_DATA_COPY w2 = Some w'"
        "queued p w' fd (ps @ [(nbrk w2, drop (length sent) bs)])" "kernel w' = kernel w2"
        "\<forall>a < nbrk w2. data_mem w' a = data_mem w2 a" "timers_of w' = timers_of w2"
        "data_mem w' = (data_mem w2)(nbrk w2 \<mapsto> bs)"
        using queue_data_spec [OF w2(2), of d bs "length sent" E] d(1) w2(4) by auto
      have "APE_socket_write E p d (length bs) APE_DATA_COPY w = Some (c_int (int (length bs)), w')"
        using on s(1,2,4,5) False wl(1) d e(1) S w2(1) w'(1) by (simp add: APE_socket_write_def Let_def)
      then show ?thesis using w'(2-5) w2(3-6) wl(2,3) ps without_put [of "data_mem w", OF new, where D = "{}"] w'(6)
        by (intro disjI2 exI [of _ "c_int (int (length bs))"] exI [of _ w'] exI [of _ "[(nbrk w, rest)]"]) auto
    qed
    qed
  qed
qed

text \<open>The job goes on until all is written, or the kernel would block.\<close>

lemma writev_job_spec:
  assumes "nsys E = S" and "queued_in md p w fd ps" and "ps \<noteq> []" and "md \<noteq> Secure"
    and "sock p w = Some s" and "rd (cells (job_mem w)) (pl_head (jobs s)) = Some j"
    and "rd (list_objs (packet_mem w)) (pdata j) = Some l"
  shows "\<exists>r w' ps' sent. writev_job E p (pdata j) (pl_head l) w = Some (r, w')
     \<and> out (kernel w') = (out (kernel w))(fd := out (kernel w) fd @ sent) \<and> sent @ bytes_of ps' = bytes_of ps
     \<and> job_mem w' = job_mem w \<and> (\<exists>s'. sock p w' = Some s' \<and> jobs s' = jobs s \<and> (r = None \<longrightarrow> sk_flags s' = sk_flags s))
     \<and> (if r = None then ps' = [] \<and> conn_in md p w' fd j 0 \<and> ring (pdata j) (packet_mem w') (data_mem w') []
        else r = Some 0 \<and> queued_in md p w' fd ps' \<and> ps' \<noteq> [])
     \<and> (r \<noteq> None \<longrightarrow> room (kernel w) fd < length (bytes_of ps))
     \<and> (\<forall>d. data_mem w d = None \<longrightarrow> data_mem w' d = None) \<and> timers_of w' = timers_of w
     \<and> without (set (map fst ps')) (data_mem w') = without (set (map fst ps)) (data_mem w)"
  using assms
proof (induction "length (bytes_of ps)" arbitrary: w ps s l rule: less_induct)
  case less
  obtain s1 j1 l1 where "sock p w = Some s1" "sk_fd s1 = fd" "issecure s1 = (md = Secure)"
    "rd (cells (job_mem w)) (pl_head (jobs s1)) = Some j1" "job_flag APE_SOCKET_JOB_ACTIVE j1"
    "job_kind j1 = APE_SOCKET_JOB_WRITEV" "ring (pdata j1) (packet_mem w) (data_mem w) ps"
    "rd (list_objs (packet_mem w)) (pdata j1) = Some l1"
    "collect_chunks (cells (pools (packet_mem w))) (data_mem w) max_chunks (pl_head l1) = Some (take max_chunks (map snd ps))"
    "concat (take max_chunks (map snd ps)) \<noteq> []" by (rule queued_ring [OF less.prems(2,3)])
  then have s: "sk_fd s = fd" "\<not> issecure s" "sk_fd s = fd" "job_flag APE_SOCKET_JOB_ACTIVE j"
    "job_kind j = APE_SOCKET_JOB_WRITEV" "ring (pdata j) (packet_mem w) (data_mem w) ps"
    "collect_chunks (cells (pools (packet_mem w))) (data_mem w) max_chunks (pl_head l) = Some (take max_chunks (map snd ps))"
    "concat (take max_chunks (map snd ps)) \<noteq> []" using less.prems(4-7) by auto
  let ?css = "take max_chunks (map snd ps)"
  obtain n e k where wv: "sys_writev S fd ?css (kernel w) = (n, e, k)" by (cases "sys_writev S fd ?css (kernel w)")
  let ?w1 = "w\<lparr>kernel := k\<rparr>"
  have q1: "queued_in md p ?w1 fd ps" using less.prems(2) by simp
  note law = takesv [OF wv s(8)]
  have retry: "writev_retry S fd ?css (kernel w) = Some (n, e, k)"
    using wv law by (subst writev_retry.simps) auto
  show ?case
  proof (cases "n = - 1")
    case True
    then have le: "e = EAGAIN" "out k = out (kernel w)" "room (kernel w) fd = 0" using law by auto
    obtain w2 where w2: "set_would_block p ?w1 = Some w2" "queued_in md p w2 fd ps" "kernel w2 = k" "data_mem w2 = data_mem w"
      "timers_of w2 = timers_of w" using queued_would_block(1) [OF q1] by auto
    have w2': "job_mem w2 = job_mem w" "\<exists>s'. sock p w2 = Some s' \<and> jobs s' = jobs s"
      using w2(1) less.prems(5) by (auto simp: set_would_block_def upd_sock_def sock_def wr_eq_Some split: bind_splits)
    have "writev_job E p (pdata j) (pl_head l) w = Some (Some 0, w2)"
      using s(1,7) less.prems(1,5) retry True le(1) w2(1) by (subst writev_job.simps) simp
    moreover have "0 < length (bytes_of ps)"
      using take_chunks(1) [OF order_refl, of max_chunks ps] s(8) by (metis le_less_trans length_greater_0_conv less_le_trans)
    ultimately show ?thesis using w2(2-5) w2' le(2,3) less.prems(3)
      by (intro exI [of _ "Some 0"] exI [of _ w2] exI [of _ ps] exI [of _ "[]"]) auto
  next
    case False
    then have n: "0 < n" "n \<le> int (length (concat ?css))"
      and rm: "room (kernel w) fd \<le> room k fd + nat n"
      and o: "out k = (out (kernel w))(fd := out (kernel w) fd @ take (nat n) (concat ?css))" using law by auto
    have nl: "nat n \<le> length (concat ?css)" using n(2) by linarith
    have nb: "n \<le> int (length (bytes_of ps))" using n(2) take_chunks(1) [OF order_refl, of max_chunks ps] by linarith
    have ob: "out k = (out (kernel w))(fd := out (kernel w) fd @ take (nat n) (bytes_of ps))"
      using o take_chunks(2) [OF nl] by simp
    let ?s = "s\<lparr>current_buffer_memory_bytes := current_buffer_memory_bytes s - of_int n\<rparr>"
    have p0: "p \<noteq> NULL" using less.prems(5) by (auto simp: sock_def)
    let ?w2 = "?w1\<lparr>total_memory_buffered := total_memory_buffered w - of_int n, sockets := (sockets w)(p \<mapsto> ?s)\<rparr>"
    have u: "upd_sock p (\<lambda>s. s\<lparr>current_buffer_memory_bytes := current_buffer_memory_bytes s - of_int n\<rparr>)
               (?w1\<lparr>total_memory_buffered := total_memory_buffered ?w1 - of_int n\<rparr>) = Some ?w2"
      using less.prems(5) by (simp add: upd_sock_def sock_def)
    obtain pm dm ps' l' where co: "consume_packets (pdata j) (pl_head l) n ?w2 = Some (pl_head l', ?w2\<lparr>packet_mem := pm, data_mem := dm\<rparr>)"
      "ring (pdata j) pm dm ps'" "rd (list_objs pm) (pdata j) = Some l'" "bytes_of ps' = drop (nat n) (bytes_of ps)"
      "set (map fst ps') \<subseteq> set (map fst ps)" "\<forall>d. d \<notin> set (map fst ps) \<longrightarrow> dm d = data_mem w d"
      "\<forall>d. data_mem w d = None \<longrightarrow> dm d = None" "lists_brk pm = lists_brk (packet_mem w)"
      "without (set (map fst ps')) dm = without (set (map fst ps)) (data_mem w)"
      using consume_spec [of "pdata j" ?w2 ps l n] s(6) less.prems(7) n(1) nb by auto
    let ?w3 = "?w2\<lparr>packet_mem := pm, data_mem := dm\<rparr>"
    have len: "length (bytes_of ps') = length (bytes_of ps) - nat n" using co(4) by simp
    obtain xs ys where rg: "pool_inv (pools pm) l' (xs @ pl_current l' # ys)"
      "list_all2 (packet_at dm (cells (pools pm))) xs ps'" "\<forall>a \<in> set (pl_current l' # ys). spare (cells (pools pm)) a"
      using ringD [OF co(2)] co(3) by (metis option.inject)
    obtain v where v: "rd (cells (pools pm)) (pl_head l') = Some v" "pdata v \<noteq> NULL \<longleftrightarrow> ps' \<noteq> []"
    proof (cases xs)
      case Nil
      then have "pl_head l' = pl_current l'" using rg(1) by (auto simp: pool_inv_def split: option.splits)
      then show ?thesis using that rg(2,3) Nil by (auto simp: spare_def)
    next
      case (Cons a xs')
      then have "pl_head l' = a" using rg(1) by (auto simp: pool_inv_def split: option.splits)
      moreover obtain q where "packet_at dm (cells (pools pm)) a q" "ps' \<noteq> []" using rg(2) Cons by (cases ps') auto
      moreover have "fst q \<noteq> NULL" using packet_nonempty [OF calculation(2)] by blast
      ultimately show ?thesis using that by (auto simp: packet_at_def)
    qed
    have cn: "conn_in md p ?w3 fd j (length (bytes_of ps'))"
    proof -
      obtain j' where "conn_in md p w fd j' (length (bytes_of ps))" using less.prems(2,4) unfolding queued_in_def by blast
      then have "conn_in md p w fd j (length (bytes_of ps))" using less.prems(5,6) unfolding conn_in_def by auto
      moreover have "of_nat (length (bytes_of ps)) - of_int n = (of_nat (length (bytes_of ps')) :: uint64)"
      proof -
        have "int (length (bytes_of ps')) = int (length (bytes_of ps)) - n" using len nb n(1) by linarith
        then have "(of_int (int (length (bytes_of ps'))) :: uint64) = of_int (int (length (bytes_of ps)) - n)" by simp
        then show ?thesis by (simp only: of_int_diff of_int_of_nat_eq)
      qed
      ultimately show ?thesis unfolding conn_in_def using less.prems(5) p0 co(7,8) ring_mem_ok [OF co(2)] by (auto simp: sock_def)
    qed
    have q3: "queued_in md p ?w3 fd ps'" if "ps' \<noteq> []"
      unfolding queued_in_def using cn s(4,5) co(2) that by auto
    have step: "writev_job E p (pdata j) (pl_head l) w
        = (if ps' \<noteq> [] then writev_job E p (pdata j) (pl_head l') ?w3 else Some (None, ?w3))"
      using s(1,7) less.prems(1,5,7) retry False u co(1) v
      by (subst writev_job.simps) (simp add: Let_def)
    have sk3: "sock p ?w3 = Some ?s" using p0 by (simp add: sock_def)
    show ?thesis
    proof (cases "ps' = []")
      case True
      then have "writev_job E p (pdata j) (pl_head l) w = Some (None, ?w3)" using step by simp
      moreover have "take (nat n) (bytes_of ps) @ bytes_of ps' = bytes_of ps" using co(4) by simp
      ultimately show ?thesis using ob True cn co(2,7,9) sk3
        by (intro exI [of _ None] exI [of _ ?w3] exI [of _ ps'] exI [of _ "take (nat n) (bytes_of ps)"]) simp
    next
      case False2: False
      have shorter: "length (bytes_of ps') < length (bytes_of ps)" using len n(1) nb by linarith
      have j3: "rd (cells (job_mem ?w3)) (pl_head (jobs ?s)) = Some j" using less.prems(6) by simp
      have l3: "rd (list_objs (packet_mem ?w3)) (pdata j) = Some l'" using co(3) by simp
      have kk: "kernel ?w3 = k" "job_mem ?w3 = job_mem w" "jobs ?s = jobs s" "sk_flags ?s = sk_flags s" "data_mem ?w3 = dm" "timers_of ?w3 = timers_of w" by simp_all
      obtain r w' ps2 sent where r: "writev_job E p (pdata j) (pl_head l') ?w3 = Some (r, w')"
        "out (kernel w') = (out k)(fd := out k fd @ sent)" "sent @ bytes_of ps2 = bytes_of ps'" "job_mem w' = job_mem w"
        "\<exists>s'. sock p w' = Some s' \<and> jobs s' = jobs s \<and> (r = None \<longrightarrow> sk_flags s' = sk_flags s)"
        "if r = None then ps2 = [] \<and> conn_in md p w' fd j 0 \<and> ring (pdata j) (packet_mem w') (data_mem w') []
         else r = Some 0 \<and> queued_in md p w' fd ps2 \<and> ps2 \<noteq> []"
        "r \<noteq> None \<longrightarrow> room k fd < length (bytes_of ps')"
        "\<forall>d. dm d = None \<longrightarrow> data_mem w' d = None" "timers_of w' = timers_of w"
        "without (set (map fst ps2)) (data_mem w') = without (set (map fst ps')) dm"
        using less.hyps [OF shorter less.prems(1) q3 [OF False2] False2 less.prems(4) sk3 j3 l3, unfolded kk] by blast
      have "writev_job E p (pdata j) (pl_head l) w = Some (r, w')" using step r(1) False2 by simp
      moreover have "out (kernel w') = (out (kernel w))(fd := out (kernel w) fd @ (take (nat n) (bytes_of ps) @ sent))"
        using r(2) ob by simp
      moreover have "(take (nat n) (bytes_of ps) @ sent) @ bytes_of ps2 = bytes_of ps" using r(3) co(4) by simp
      moreover have "\<forall>d. data_mem w d = None \<longrightarrow> data_mem w' d = None" using r(8) co(7) by blast
      moreover have "r \<noteq> None \<longrightarrow> room (kernel w) fd < length (bytes_of ps)"
        using r(7) rm len nb n(1) by linarith
      moreover have "without (set (map fst ps2)) (data_mem w') = without (set (map fst ps)) (data_mem w)"
        using r(10) co(9) by simp
      ultimately show ?thesis using r(4-6,9) by blast
    qed
  qed
qed

end

end
