(* ===== verification/Loop.thy ===== *)
theory Loop
  imports Jobs
begin

unbundle bit_operations_syntax

text \<open>
  \<open>ape_events_loop.c\<close>: a pass polls the descriptors, handles what was reported one descriptor
  after the other, and then runs the timers. The state is read again after each call, since a callback
  may change it; a socket that was freed is a fault.
\<close>

section \<open>Handling a socket\<close>

text \<open>\<open>bitev\<close> says whether the descriptor can be read, or written.\<close>

definition server_event :: "('b, 'k) env \<Rightarrow> ptr \<Rightarrow> uint32 \<Rightarrow> ('b, 'k) ape_net \<Rightarrow> ('b, 'k) ape_net option" where
  "server_event E p bitev w =
     (if \<not> has_flag bitev EVENT_READ then Some w
      else do {
        s \<leftarrow> sock p w;
        map_option snd (if sk_proto s \<in> {APE_SOCKET_PT_TCP, APE_SOCKET_PT_SSL} then ape_socket_accept E p w
                        else ape_socket_read_udp E p w) })"

text \<open>The first half of the handler of a client: reading. The result says whether the handler ends here.\<close>

definition client_read ::
  "('b, 'k) env \<Rightarrow> ptr \<Rightarrow> uint32 \<Rightarrow> ('b, 'k) ape_net \<Rightarrow> (bool \<times> ('b, 'k) ape_net) option" where
  "client_read E p bitev w = do {
     w1 \<leftarrow> (if has_flag bitev EVENT_WRITE
            then upd_sock p (\<lambda>s. s\<lparr>sk_flags := sk_flags s AND NOT APE_SOCKET_WOULD_BLOCK\<rparr>) w else Some w);
     s \<leftarrow> sock p w1;
     if \<not> has_flag bitev EVENT_READ then Some (False, w1)
     else if sk_proto s = APE_SOCKET_PT_UDP then do { (r, w2) \<leftarrow> ape_socket_read_udp E p w1; Some (False, w2) }
     else do { (r, w2) \<leftarrow> ape_socket_read E p w1; Some (r = - 1, w2) } }"

text \<open>The second half: running the jobs, or learning whether the connection is there. The error is
  read into a \<open>char\<close>: its low byte.\<close>

definition client_write ::
  "('b, 'k) env \<Rightarrow> ptr \<Rightarrow> int \<Rightarrow> ('b, 'k) ape_net \<Rightarrow> ('b, 'k) ape_net option" where
  "client_write E p fd w = do {
     s \<leftarrow> sock p w;
     if sk_state s = APE_SOCKET_ST_ONLINE \<and> \<not> would_block s then do {
       (r, w1) \<leftarrow> ape_socket_do_jobs E p w;
       if r \<noteq> 1 then Some w1
       else do {
         s1 \<leftarrow> sock p w1;
         if on_drain (callbacks s1) = NULL then Some w1
         else on_event E (Drain (on_drain (callbacks s1)) p (cb_arg (callbacks s1))) w1 } }
     else if sk_state s = APE_SOCKET_ST_PROGRESS then do {
       let (ret, e, k) = sys_so_error (nsys E) fd (kernel w);
       let w1 = w\<lparr>kernel := k\<rparr>;
       if ret = 0 \<and> e mod 256 = 0 then do {
         w2 \<leftarrow> upd_sock p (\<lambda>s. s\<lparr>sk_state := APE_SOCKET_ST_ONLINE\<rparr>) w1;
         map_option snd (ape_socket_connected E p w2) }
       else map_option snd (ape_socket_destroy E p w1) }
     else Some w }"

definition client_event ::
  "('b, 'k) env \<Rightarrow> ptr \<Rightarrow> int \<Rightarrow> uint32 \<Rightarrow> ('b, 'k) ape_net \<Rightarrow> ('b, 'k) ape_net option" where
  "client_event E p fd bitev w = do {
     (stop, w1) \<leftarrow> client_read E p bitev w;
     if stop \<or> \<not> has_flag bitev EVENT_WRITE then Some w1 else client_write E p fd w1 }"

definition socket_event ::
  "('b, 'k) env \<Rightarrow> ptr \<Rightarrow> uint32 \<Rightarrow> ('b, 'k) ape_net \<Rightarrow> ('b, 'k) ape_net option" where
  "socket_event E p bitev w = do {
     s \<leftarrow> sock p w;
     case sk_type s of
       APE_SOCKET_TP_SERVER \<Rightarrow> server_event E p bitev w
     | APE_SOCKET_TP_CLIENT \<Rightarrow> client_event E p (sk_fd s) bitev w
     | APE_SOCKET_TP_UNKNOWN \<Rightarrow> Some w }"

section \<open>The loop\<close>

text \<open>A descriptor that is no socket is a delegate: an entry of the name resolution, or the user's.\<close>

definition delegate_at :: "('b, 'k) env \<Rightarrow> ptr \<Rightarrow> ('b, 'k) ape_net \<Rightarrow> fd_delegate option" where
  "delegate_at E evd w =
     (if dns_base \<le> evd \<and> evd < dns_base + length (dns_list w) then Some (dns_list w ! (evd - dns_base))
      else user_delegate E evd w)"

definition delegate_event ::
  "('b, 'k) env \<Rightarrow> fd_delegate \<Rightarrow> uint32 \<Rightarrow> ('b, 'k) ape_net \<Rightarrow> ('b, 'k) ape_net option" where
  "delegate_event E d bitev w =
     (if dg_on_io d = NULL then None
      else if dg_on_io d = FN_ares_io then ares_io E (dg_fd d) bitev w
      else user_io E (dg_on_io d) (dg_fd d) bitev (dg_data d) w)"

definition handle_event :: "('b, 'k) env \<Rightarrow> nat \<Rightarrow> ('b, 'k) ape_net \<Rightarrow> ('b, 'k) ape_net option" where
  "handle_event E i w = do {
     evd \<leftarrow> events_get_current_evd i (events w);
     if evd = NULL then Some w
     else do {
       (bitev, w1) \<leftarrow> on_events (events_revent i) w;
       case sock evd w1 of
         Some s \<Rightarrow> socket_event E evd bitev w1
       | None \<Rightarrow> do { d \<leftarrow> delegate_at E evd w1; delegate_event E d bitev w1 } } }"

text \<open>The \<open>m\<close> events from \<open>i\<close> on.\<close>

fun handle_events :: "('b, 'k) env \<Rightarrow> nat \<Rightarrow> nat \<Rightarrow> ('b, 'k) ape_net \<Rightarrow> ('b, 'k) ape_net option" where
  "handle_events E i 0 w = Some w"
| "handle_events E i (Suc m) w = do { w1 \<leftarrow> handle_event E i w; handle_events E (i + 1) m w1 }"

text \<open>A pass: the time to wait next, and the state.\<close>

definition loop_pass ::
  "('b, 'k) env \<Rightarrow> nat \<Rightarrow> int \<Rightarrow> ('b, 'k) ape_net \<Rightarrow> (int \<times> ('b, 'k) ape_net) option" where
  "loop_pass E depth nexttimeout w = do {
     ev \<leftarrow> events_shrink (events w);
     (nfd, w1) \<leftarrow> on_events (events_poll nexttimeout) (w\<lparr>events := ev\<rparr>);
     if nfd = - 1 then Some (nexttimeout, w1)
     else do {
       w2 \<leftarrow> handle_events E 0 (nat nfd) w1;
       ape_timers_process (net_call E depth) w2 } }"

partial_function (option) event_loop ::
  "('b, 'k) env \<Rightarrow> nat \<Rightarrow> int \<Rightarrow> ('b, 'k) ape_net \<Rightarrow> ('b, 'k) ape_net option" where
  "event_loop E depth nexttimeout w =
     (if is_running w \<and> ape_running w then do {
        (t, w1) \<leftarrow> loop_pass E depth nexttimeout w;
        event_loop E depth t w1 }
      else if is_running w \<and> kill_handler w \<noteq> NULL then do {
        (r, w1) \<leftarrow> user_kill E (kill_handler w) w;
        if r \<noteq> 0 then event_loop E depth nexttimeout (w1\<lparr>ape_running := True\<rparr>) else Some w1 }
      else Some w)"

definition APE_loop_run :: "('b, 'k) env \<Rightarrow> nat \<Rightarrow> ('b, 'k) ape_net \<Rightarrow> ('b, 'k) ape_net option" where
  "APE_loop_run E depth w = event_loop E depth 1 w"

definition APE_loop_stop :: "('b, 'k) ape_net \<Rightarrow> ('b, 'k) ape_net" where
  "APE_loop_stop w = w\<lparr>ape_running := False\<rparr>"

declare event_loop.simps [code]

end
