(* ===== verification/Queue_Props.thy ===== *)
theory Queue_Props
  imports Jobs_Props Loop
begin

unbundle bit_operations_syntax

text \<open>
  A connection over its whole life: any sequence of writes and of events on the descriptor, with any
  progress of the kernel in between.
\<close>

section \<open>Running the queue\<close>

lemma queued_nonempty:
  assumes "queued_in md p w fd ps" and "bytes_of ps = []"
  shows "ps = []"
proof (rule ccontr)
  assume "ps \<noteq> []"
  then have "concat (take max_chunks (map snd ps)) \<noteq> []" by (rule queued_ring [OF assms(1)])
  then show False using take_chunks(1) [OF order_refl, of max_chunks ps] assms(2) by simp
qed

lemma queued_data_cong:
  assumes q: "queued_in md p w fd ps" and "\<And>d. d \<in> set (map fst ps) \<Longrightarrow> dm d = data_mem w d"
    and "0 < n" and "\<forall>a. n \<le> a \<longrightarrow> dm a = None"
  shows "queued_in md p (w\<lparr>data_mem := dm, nbrk := n\<rparr>) fd ps"
proof -
  obtain j l where j: "conn_in md p w fd j l" "md = Secure \<or> l = length (bytes_of ps)" "job_flag APE_SOCKET_JOB_ACTIVE j = (ps \<noteq> [])"
    "job_kind j = 0 \<and> pdata j = NULL \<and> ps = []
        \<or> job_kind j = APE_SOCKET_JOB_WRITEV \<and> ring (pdata j) (packet_mem w) (data_mem w) ps"
    using q unfolding queued_in_def by blast
  have "ring (pdata j) (packet_mem w) dm ps" if "ring (pdata j) (packet_mem w) (data_mem w) ps"
    using that by (rule ring_cong) (use assms(2) in \<open>simp add: rd_def\<close>)
  moreover have "conn_in md p (w\<lparr>data_mem := dm, nbrk := n\<rparr>) fd j l"
    using j(1) assms(3,4) unfolding conn_in_def by (auto simp: sock_def)
  ultimately show ?thesis unfolding queued_in_def using j(2-4) by (intro exI [of _ j] exI [of _ l]) auto
qed

lemma queued_brk: "queued_in md p w fd ps \<Longrightarrow> 0 < nbrk w \<and> (\<forall>a. nbrk w \<le> a \<longrightarrow> data_mem w a = None)"
  by (auto simp: queued_in_def conn_in_def)

lemma queued_fresh:
  assumes "queued_in md p w fd ps" and "d \<in> set (map fst ps)"
  shows "d < nbrk w"
proof -
  have "ps \<noteq> []" using assms(2) by auto
  then obtain list where "ring list (packet_mem w) (data_mem w) ps" using assms(1) unfolding queued_in_def by blast
  then have "rd (data_mem w) d \<noteq> None" using ring_data assms(2) by blast
  then show ?thesis using queued_brk [OF assms(1)] by (metis not_le rd_def)
qed

lemma queued_malloc:
  assumes q: "queued_in md p w fd ps"
  shows "queued_in md p (w\<lparr>data_mem := (data_mem w)(nbrk w \<mapsto> bs), nbrk := nbrk w + 1\<rparr>) fd ps"
  using queued_fresh [OF q] queued_brk [OF q] by (intro queued_data_cong [OF q]) fastforce+

lemma queued_free:
  assumes q: "queued_in md p w fd ps" and d: "d \<notin> set (map fst ps)"
  shows "queued_in md p (w\<lparr>data_mem := (data_mem w)(d := None)\<rparr>) fd ps"
proof -
  have "queued_in md p (w\<lparr>data_mem := (data_mem w)(d := None), nbrk := nbrk w\<rparr>) fd ps"
    using queued_brk [OF q] d by (intro queued_data_cong [OF q]) auto
  then show ?thesis by simp
qed

lemma queuedI:
  assumes "conn_in md p w fd j n" and "md = Secure \<or> n = length (bytes_of ps)"
    and "job_flag APE_SOCKET_JOB_ACTIVE j = (ps \<noteq> [])"
    and "job_kind j = APE_SOCKET_JOB_WRITEV" and "ring (pdata j) (packet_mem w) (data_mem w) ps"
  shows "queued_in md p w fd ps"
  unfolding queued_in_def using assms by blast

text \<open>A job that is done leaves an empty queue.\<close>

lemma finish_job_spec:
  assumes cn: "conn_in md p w fd j n" and md: "md \<noteq> Ending" "md = Secure \<or> n = 0" and s: "sock p w = Some s"
    and k: "job_kind j = APE_SOCKET_JOB_WRITEV" and r: "ring (pdata j) (packet_mem w) (data_mem w) []"
  shows "\<exists>w'. finish_job p (pl_head (jobs s)) w = Some (pl_head (jobs s), w') \<and> queued_in md p w' fd []
     \<and> kernel w' = kernel w \<and> data_mem w' = data_mem w \<and> timers_of w' = timers_of w \<and> sock p w' = sock p w
     \<and> (\<exists>j'. rd (cells (job_mem w')) (pl_head (jobs s)) = Some j' \<and> \<not> job_flag APE_SOCKET_JOB_ACTIVE j')"
proof -
  have c: "pl_current (jobs s) = pl_head (jobs s)" "job_pool (jobs s) (job_mem w)"
    "rd (cells (job_mem w)) (pl_head (jobs s)) = Some j"
    using cn md(1) s unfolding conn_in_def slots_def by auto
  let ?j = "j\<lparr>pflags := pflags j AND NOT APE_SOCKET_JOB_ACTIVE\<rparr>"
  let ?h = "(cells (job_mem w))(pl_head (jobs s) \<mapsto> ?j)"
  let ?w = "w\<lparr>job_mem := (job_mem w)\<lparr>cells := ?h\<rparr>, sockets := (sockets w)(p \<mapsto> s\<lparr>jobs := jobs s\<rparr>)\<rparr>"
  have p0: "p \<noteq> NULL" "pl_head (jobs s) \<noteq> NULL" using s c(3) by (auto simp: sock_def)
  have "finish_job p (pl_head (jobs s)) w = Some (pl_head (jobs s), ?w)"
    using s c(1,3) by (simp add: finish_job_def ape_pool_head_to_current_def upd_sock_def sock_def Let_def)
  moreover have "job_pool (jobs s) ((job_mem w)\<lparr>cells := ?h\<rparr>)" by (rule job_pool_upd [OF c(2,3)]) simp_all
  then have "conn_in md p ?w fd ?j n"
    using cn s c(1) md(1) p0 unfolding conn_in_def slots_def by (auto simp: sock_def)
  then have "queued_in md p ?w fd []"
    using k r md(2) by (intro queuedI [of _ _ _ _ ?j n]) (simp_all del: job_kind_more add: job_kind_more(2) bytes_of_def)
  moreover have "rd (cells (job_mem ?w)) (pl_head (jobs s)) = Some ?j" using p0 by simp
  moreover have "sock p ?w = sock p w" using p0 s by (simp add: sock_def)
  ultimately show ?thesis by (intro exI [of _ ?w]) simp
qed

context stream_kernel
begin

lemma do_jobs_spec:
  assumes E: "nsys E = S" and q: "queued p w fd ps"
  shows "\<exists>r w' ps' sent. ape_socket_do_jobs E p w = Some (r, w') \<and> queued p w' fd ps'
     \<and> out (kernel w') = (out (kernel w))(fd := out (kernel w) fd @ sent) \<and> sent @ bytes_of ps' = bytes_of ps
     \<and> (\<forall>d. data_mem w d = None \<longrightarrow> data_mem w' d = None) \<and> timers_of w' = timers_of w
     \<and> without (set (map fst ps')) (data_mem w') = without (set (map fst ps)) (data_mem w)
     \<and> (waits p w [] \<longrightarrow> waits p w' ps') \<and> (if ps = [] then r = 0 \<and> w' = w
        else r = 1 \<and> ps' = [] \<or> r = 0 \<and> ps' \<noteq> [] \<and> room (kernel w) fd < length (bytes_of ps))"
proof (cases "ps = []")
  case True
  obtain j where j: "conn p w fd j 0" "\<not> job_flag APE_SOCKET_JOB_ACTIVE j"
    using q True unfolding queued_def by (auto simp: bytes_of_def)
  then obtain s where "sock p w = Some s" "rd (cells (job_mem w)) (pl_head (jobs s)) = Some j" unfolding conn_def by blast
  then have "ape_socket_do_jobs E p w = Some (0, w)"
    using j(2) by (auto simp: ape_socket_do_jobs_def job_loop.simps [of E p "pl_head (jobs s)"])
  then show ?thesis using q True by (intro exI [of _ 0] exI [of _ w] exI [of _ "[]"]) simp
next
  case False
  obtain s j l where s: "sock p w = Some s" "\<not> issecure s"
    "rd (cells (job_mem w)) (pl_head (jobs s)) = Some j" "job_flag APE_SOCKET_JOB_ACTIVE j"
    "job_kind j = APE_SOCKET_JOB_WRITEV" "rd (list_objs (packet_mem w)) (pdata j) = Some l"
    using queued_ring [OF q False] by (metis conn_mode.distinct(3))
  obtain r w1 ps' sent where wj: "writev_job E p (pdata j) (pl_head l) w = Some (r, w1)"
    "out (kernel w1) = (out (kernel w))(fd := out (kernel w) fd @ sent)" "sent @ bytes_of ps' = bytes_of ps"
    "\<exists>s'. sock p w1 = Some s' \<and> jobs s' = jobs s \<and> (r = None \<longrightarrow> sk_flags s' = sk_flags s)"
    "if r = None then ps' = [] \<and> conn p w1 fd j 0 \<and> ring (pdata j) (packet_mem w1) (data_mem w1) []
     else r = Some 0 \<and> queued p w1 fd ps' \<and> ps' \<noteq> []"
    "r \<noteq> None \<longrightarrow> room (kernel w) fd < length (bytes_of ps)"
    "\<forall>d. data_mem w d = None \<longrightarrow> data_mem w1 d = None" "timers_of w1 = timers_of w"
    "without (set (map fst ps')) (data_mem w1) = without (set (map fst ps)) (data_mem w)"
    using writev_job_spec [OF E q False _ s(1,3,6)] by blast
  have h0: "pl_head (jobs s) \<noteq> NULL" using s(3) by auto
  have run: "run_job E p (pl_head (jobs s)) w = Some (r, w1)"
    using s wj(1) by (simp add: run_job_def)
  show ?thesis
  proof (cases r)
    case None
    obtain s' where s': "sock p w1 = Some s'" "jobs s' = jobs s" "sk_flags s' = sk_flags s" using wj(4) None by blast
    then have nb: "\<not> would_block s'" if "waits p w []" using that s(1) by (auto simp: waits_def would_block_def)
    obtain w2 j' where w2: "finish_job p (pl_head (jobs s)) w1 = Some (pl_head (jobs s), w2)" "queued p w2 fd []"
      "kernel w2 = kernel w1" "data_mem w2 = data_mem w1" "timers_of w2 = timers_of w1"
      "sock p w2 = sock p w1" "rd (cells (job_mem w2)) (pl_head (jobs s)) = Some j'" "\<not> job_flag APE_SOCKET_JOB_ACTIVE j'"
      using finish_job_spec [of Plain p w1 fd j 0 s'] s' wj(5) s(5) None by auto
    then have wt: "waits p w [] \<longrightarrow> waits p w2 []" using nb s'(1) by (simp add: waits_def)
    have "job_loop E p (pl_head (jobs s)) 1 w2 = Some (1, w2)"
      using w2(7,8) h0 by (subst job_loop.simps) simp
    then have "ape_socket_do_jobs E p w = Some (1, w2)"
      using s(1,3,4) run None w2(1) h0 by (simp add: ape_socket_do_jobs_def job_loop.simps [of E p "pl_head (jobs s)" 0])
    then show ?thesis using w2(2-5) wj None False wt
      by (intro exI [of _ 1] exI [of _ w2] exI [of _ "[]"] exI [of _ sent]) auto
  next
    case (Some x)
    then have "ape_socket_do_jobs E p w = Some (0, w1)"
      using s(1,3,4) run h0 wj(5) by (simp add: ape_socket_do_jobs_def job_loop.simps [of E p "pl_head (jobs s)" 0])
    then show ?thesis using wj Some False by (intro exI [of _ 0] exI [of _ w1] exI [of _ ps'] exI [of _ sent]) auto
  qed
qed

text \<open>An event that says the socket can be written to.\<close>

lemma writable_spec:
  assumes E: "nsys E = S" and quiet: "\<forall>f a w. on_event E (Drain f p a) w = Some w" and q: "queued p w fd ps"
  shows "\<exists>w' ps' sent. socket_event E p EVENT_WRITE w = Some w' \<and> queued p w' fd ps'
     \<and> out (kernel w') = (out (kernel w))(fd := out (kernel w) fd @ sent) \<and> sent @ bytes_of ps' = bytes_of ps
     \<and> (length (bytes_of ps) \<le> room (kernel w) fd \<longrightarrow> ps' = []) \<and> timers_of w' = timers_of w \<and> waits p w' ps'
     \<and> without (set (map fst ps')) (data_mem w') = without (set (map fst ps)) (data_mem w)"
proof -
  let ?f = "\<lambda>s. sk_flags s AND NOT APE_SOCKET_WOULD_BLOCK"
  obtain w1 where w1: "upd_sock p (\<lambda>s. s\<lparr>sk_flags := ?f s\<rparr>) w = Some w1" "queued p w1 fd ps" "kernel w1 = kernel w"
    "timers_of w1 = timers_of w" using queued_would_block(2) [OF q, of ?f] by blast
  then have dm: "data_mem w1 = data_mem w" by (auto simp: upd_sock_def split: Option.bind_splits)
  obtain s where s: "sock p w = Some s" "sk_type s = APE_SOCKET_TP_CLIENT" "sk_state s = APE_SOCKET_ST_ONLINE"
    using q unfolding queued_def conn_def by blast
  then have s1: "sock p w1 = Some (s\<lparr>sk_flags := ?f s\<rparr>)"
    using w1(1) by (auto simp: upd_sock_def sock_def wr_eq_Some split: bind_splits)
  have nb: "\<not> would_block (s\<lparr>sk_flags := ?f s\<rparr>)"
    by (simp add: would_block_def and.assoc)
  have fl: "has_flag EVENT_WRITE EVENT_WRITE" "\<not> has_flag EVENT_WRITE EVENT_READ"
    by (simp_all add: has_flag_def EVENT_WRITE_def EVENT_READ_def)
  have rd: "client_read E p EVENT_WRITE w = Some (False, w1)"
    using w1(1) s1 fl by (simp add: client_read_def)
  obtain r w2 ps' sent where d: "ape_socket_do_jobs E p w1 = Some (r, w2)" "queued p w2 fd ps'"
     "out (kernel w2) = (out (kernel w1))(fd := out (kernel w1) fd @ sent)" "sent @ bytes_of ps' = bytes_of ps"
     "if ps = [] then r = 0 \<and> w2 = w1 else r = 1 \<and> ps' = [] \<or> r = 0 \<and> ps' \<noteq> [] \<and> room (kernel w1) fd < length (bytes_of ps)"
     "timers_of w2 = timers_of w1" "waits p w1 [] \<longrightarrow> waits p w2 ps'"
     "without (set (map fst ps')) (data_mem w2) = without (set (map fst ps)) (data_mem w1)"
    using do_jobs_spec [OF E w1(2)] by blast
  obtain s2 where s2: "sock p w2 = Some s2" using d(2) unfolding queued_def conn_def by blast
  have "client_write E p (sk_fd s) w1 = Some w2"
    using s1 s(3) nb d(1) s2 quiet by (simp add: client_write_def)
  then have "socket_event E p EVENT_WRITE w = Some w2"
    using s(1,2) rd fl by (simp add: socket_event_def client_event_def)
  moreover have "ps' = []" if "length (bytes_of ps) \<le> room (kernel w) fd"
  proof (cases "ps = []")
    case True
    then show ?thesis using d(2,4) queued_nonempty by force
  next
    case False
    then show ?thesis using d(5) that w1(3) by auto
  qed
  moreover have "waits p w2 ps'" using d(7) s1 nb by (simp add: waits_def)
  ultimately show ?thesis using d(2-4,6,8) w1(3,4) dm by metis
qed

end

section \<open>Runs\<close>

text \<open>
  The user writes a block of its own, which the library copies, and frees it; the kernel goes on; the
  descriptor is reported as writable.
\<close>

datatype 'k io_action = Write "byte list" | Progress "'k \<Rightarrow> 'k" | Writable

fun io_step :: "('b, 'k) env \<Rightarrow> ptr \<Rightarrow> 'k io_action \<Rightarrow> ('b, 'k) ape_net \<Rightarrow> ('b, 'k) ape_net option" where
  "io_step E p (Write bs) w = (let (d, w1) = malloc_data bs w in do {
     (r, w2) \<leftarrow> APE_socket_write E p d (length bs) APE_DATA_COPY w1;
     free_data d w2 })"
| "io_step E p (Progress f) w = Some (on_kernel f w)"
| "io_step E p Writable w = socket_event E p EVENT_WRITE w"

fun io_run :: "('b, 'k) env \<Rightarrow> ptr \<Rightarrow> 'k io_action list \<Rightarrow> ('b, 'k) ape_net \<Rightarrow> ('b, 'k) ape_net option" where
  "io_run E p [] w = Some w"
| "io_run E p (a # as) w = do { w1 \<leftarrow> io_step E p a w; io_run E p as w1 }"

definition written :: "'k io_action list \<Rightarrow> byte list" where
  "written as = concat (map (\<lambda>a. case a of Write bs \<Rightarrow> bs | _ \<Rightarrow> []) as)"

lemma written_simps [simp]:
  "written [] = []" "written (Write bs # as) = bs @ written as" "written (Progress f # as) = written as"
  "written (Writable # as) = written as"
  by (simp_all add: written_def)

lemma io_run_append:
  "io_run E p (as @ bs) w = do { w1 \<leftarrow> io_run E p as w; io_run E p bs w1 }"
  by (induction as arbitrary: w) (simp_all split: Option.bind_splits)

text \<open>A run that comes to a write where \<open>bad\<close> holds.\<close>

definition faults_at :: "('k \<Rightarrow> byte list \<Rightarrow> bool) \<Rightarrow> ('b, 'k) env \<Rightarrow> ptr \<Rightarrow> 'k io_action list \<Rightarrow> ('b, 'k) ape_net \<Rightarrow> bool" where
  "faults_at bad E p as w \<longleftrightarrow>
     (\<exists>as1 bs as2 w1. as = as1 @ Write bs # as2 \<and> io_run E p as1 w = Some w1 \<and> bad (kernel w1) bs)"

lemma never_faults [simp]: "\<not> faults_at (\<lambda>k bs. False) E p as w"
  by (simp add: faults_at_def)

lemma faults_at_Cons: "io_step E p a w = Some w1 \<Longrightarrow> faults_at bad E p as w1 \<Longrightarrow> faults_at bad E p (a # as) w"
  unfolding faults_at_def by (elim exE conjE) (rule_tac x = "a # as1" in exI, simp)

lemma queued_buffered: "queued p w fd ps \<Longrightarrow> buffered p w = of_nat (length (bytes_of ps))"
  by (auto simp: queued_def conn_def buffered_def)

text \<open>
  What such a run needs of a connection: an invariant with the packets that are pending, kept by what the
  user does to memory of its own and by the progress of the kernel, under which writing and the event neither
  lose, repeat nor reorder a byte, and keep no memory but that of the packets. \<open>outp\<close> is what was sent.
  Writing a block faults only where \<open>bad\<close> says so of the kernel and the block.
\<close>

locale sender =
  fixes E :: "('b, 'k) env" and p :: ptr and inv :: "('b, 'k) ape_net \<Rightarrow> packets \<Rightarrow> bool" and outp :: "'k \<Rightarrow> byte list"
    and good :: "('k \<Rightarrow> 'k) \<Rightarrow> bool" and bad :: "'k \<Rightarrow> byte list \<Rightarrow> bool"
  assumes there: "inv w ps \<Longrightarrow> (\<exists>s. sock p w = Some s) \<and> 0 < nbrk w \<and> data_mem w (nbrk w) = None \<and> (\<forall>d \<in> set (map fst ps). d < nbrk w)"
    and allocs: "inv w ps \<Longrightarrow> inv (w\<lparr>data_mem := (data_mem w)(nbrk w \<mapsto> bs), nbrk := nbrk w + 1\<rparr>) ps"
    and frees: "inv w ps \<Longrightarrow> d \<notin> set (map fst ps) \<Longrightarrow> inv (w\<lparr>data_mem := (data_mem w)(d := None)\<rparr>) ps"
    and progress: "inv w ps \<Longrightarrow> good f \<Longrightarrow> inv (w\<lparr>kernel := f (kernel w)\<rparr>) ps \<and> outp (f (kernel w)) = outp (kernel w)"
    and writes: "inv w ps \<Longrightarrow> rd (data_mem w) d = Some bs \<Longrightarrow> bs \<noteq> [] \<Longrightarrow>
      APE_socket_write E p d (length bs) APE_DATA_COPY w = None \<and> bad (kernel w) bs
      \<or> (\<exists>r w' ps' sent. APE_socket_write E p d (length bs) APE_DATA_COPY w = Some (r, w') \<and> inv w' ps'
       \<and> outp (kernel w') = outp (kernel w) @ sent \<and> sent @ bytes_of ps' = bytes_of ps @ bs
       \<and> (\<forall>a < nbrk w. data_mem w' a = data_mem w a) \<and> set (map fst ps') \<subseteq> insert (nbrk w) (set (map fst ps))
       \<and> without (set (map fst ps')) (data_mem w') = without (set (map fst ps)) (data_mem w))"
    and writable: "inv w ps \<Longrightarrow>
      \<exists>w' ps' sent. socket_event E p EVENT_WRITE w = Some w' \<and> inv w' ps'
       \<and> outp (kernel w') = outp (kernel w) @ sent \<and> sent @ bytes_of ps' = bytes_of ps
       \<and> without (set (map fst ps')) (data_mem w') = without (set (map fst ps)) (data_mem w)"
begin

lemma step_spec:
  assumes q: "inv w ps" and pr: "\<forall>f. a = Progress f \<longrightarrow> good f"
  shows "io_step E p a w = None \<and> (\<exists>bs. a = Write bs \<and> bad (kernel w) bs)
     \<or> (\<exists>w' ps' sent. io_step E p a w = Some w' \<and> inv w' ps' \<and> outp (kernel w') = outp (kernel w) @ sent
     \<and> sent @ bytes_of ps' = bytes_of ps @ written [a]
     \<and> without (set (map fst ps')) (data_mem w') = without (set (map fst ps)) (data_mem w))"
proof (cases a)
  case (Write bs)
  let ?d = "nbrk w"
  let ?w1 = "w\<lparr>data_mem := (data_mem w)(?d \<mapsto> bs), nbrk := ?d + 1\<rparr>"
  let ?X = "APE_socket_write E p ?d (length bs) APE_DATA_COPY ?w1"
  have q1: "inv ?w1 ps" by (rule allocs [OF q])
  have d0: "?d \<noteq> NULL" "rd (data_mem ?w1) ?d = Some bs" "?d \<notin> set (map fst ps)" "data_mem w ?d = None" using there [OF q] by auto
  show ?thesis
  proof (cases "?X = None \<and> bad (kernel ?w1) bs")
    case True
    then show ?thesis using Write by (simp add: malloc_data_def)
  next
    case fine: False
    obtain r w2 ps' sent where w2: "?X = Some (r, w2)" "inv w2 ps'"
      "outp (kernel w2) = outp (kernel w) @ sent \<and> sent @ bytes_of ps' = bytes_of ps @ bs"
      "data_mem w2 ?d = Some bs" "?d \<notin> set (map fst ps')"
      "without (set (map fst ps')) (data_mem w2) = without (set (map fst ps)) (data_mem ?w1)"
    proof (cases "bs = []")
      case True
      obtain s where s: "sock p w = Some s" "p \<noteq> NULL" using there [OF q] by (auto simp: sock_def)
      have "?X = Some (- 1, ?w1)"
        using True s by (simp add: APE_socket_write_def APE_socket_is_online_def sock_def ape_socket_release_data_def)
      then show ?thesis using that [of _ ?w1 ps "[]"] q1 d0 True by (simp add: rd_def)
    next
      case False
      obtain r w2 ps' sent where w2: "?X = Some (r, w2)" "inv w2 ps'" "outp (kernel w2) = outp (kernel ?w1) @ sent"
        "sent @ bytes_of ps' = bytes_of ps @ bs" "\<forall>a < nbrk ?w1. data_mem w2 a = data_mem ?w1 a"
        "set (map fst ps') \<subseteq> insert (nbrk ?w1) (set (map fst ps))"
        "without (set (map fst ps')) (data_mem w2) = without (set (map fst ps)) (data_mem ?w1)"
        using writes [OF q1 d0(2) False] fine by blast
      have "?d \<notin> set (map fst ps')" using w2(6) d0(3) by auto
      then show ?thesis using that [OF w2(1,2)] w2(3-5,7) by simp
    qed
    let ?w3 = "w2\<lparr>data_mem := (data_mem w2)(?d := None)\<rparr>"
    have "io_step E p a w = Some ?w3"
      using Write d0 w2(1,4) by (simp add: malloc_data_def free_data_def dealloc_def rd_def)
    moreover have "inv ?w3 ps'" by (rule frees [OF w2(2,5)])
    moreover have "without (set (map fst ps')) (data_mem ?w3) = without (set (map fst ps)) (data_mem w)"
      using arg_cong [OF w2(6), of "\<lambda>m. m(?d := None)"] d0(4) fun_upd_idem [of "data_mem w" ?d None] by (simp add: without_upd [symmetric])
    ultimately show ?thesis using w2(3) Write by auto
  qed
next
  case (Progress f)
  then show ?thesis using progress [OF q, of f] pr
    by (intro disjI2 exI [of _ "on_kernel f w"] exI [of _ ps] exI [of _ "[]"]) (simp add: on_kernel_def)
next
  case Writable
  then show ?thesis using writable [OF q] by simp
qed

lemma run_spec:
  assumes pr: "\<forall>f. Progress f \<in> set as \<longrightarrow> good f"
  shows "inv w ps \<Longrightarrow> io_run E p as w = None \<and> faults_at bad E p as w
     \<or> (\<exists>w' ps' sent. io_run E p as w = Some w' \<and> inv w' ps' \<and> outp (kernel w') = outp (kernel w) @ sent
     \<and> sent @ bytes_of ps' = bytes_of ps @ written as
     \<and> without (set (map fst ps')) (data_mem w') = without (set (map fst ps)) (data_mem w))"
  using pr
proof (induction as arbitrary: w ps)
  case Nil
  then show ?case by (intro disjI2 exI [of _ w] exI [of _ ps] exI [of _ "[]"]) simp
next
  case (Cons a as)
  show ?case
  proof (cases "io_step E p a w")
    case None
    then obtain bs where "a = Write bs" "bad (kernel w) bs" using step_spec [OF Cons.prems(1), of a] Cons.prems(2) by auto
    then show ?thesis using None unfolding faults_at_def
      by (intro disjI1 conjI exI [of _ "[]"] exI [of _ bs] exI [of _ as] exI [of _ w]) simp_all
  next
    case (Some w1)
    obtain ps1 s1 where w1: "inv w1 ps1" "outp (kernel w1) = outp (kernel w) @ s1"
      "s1 @ bytes_of ps1 = bytes_of ps @ written [a]"
      "without (set (map fst ps1)) (data_mem w1) = without (set (map fst ps)) (data_mem w)"
      using step_spec [OF Cons.prems(1), of a] Cons.prems(2) Some by auto
    show ?thesis
    proof (cases "io_run E p as w1")
      case None
      then have "faults_at bad E p as w1" using Cons.IH [OF w1(1)] Cons.prems(2) by auto
      then have "faults_at bad E p (a # as) w" using faults_at_Cons [of E p a w w1] Some by blast
      then show ?thesis using Some None by simp
    next
      case Some2: (Some w2)
      obtain ps2 s2 where w2: "inv w2 ps2" "outp (kernel w2) = outp (kernel w1) @ s2"
        "s2 @ bytes_of ps2 = bytes_of ps1 @ written as"
        "without (set (map fst ps2)) (data_mem w2) = without (set (map fst ps1)) (data_mem w1)"
        using Cons.IH [OF w1(1)] Cons.prems(2) Some2 by auto
      have "written (a # as) = written [a] @ written as" by (cases a) simp_all
      then have "(s1 @ s2) @ bytes_of ps2 = bytes_of ps @ written (a # as)" using w2(3) w1(3) by (metis append_assoc)
      then show ?thesis using Some Some2 w1(2,4) w2
        by (intro disjI2 exI [of _ w2] exI [of _ ps2] exI [of _ "s1 @ s2"]) simp
    qed
  qed
qed

end

context stream_kernel
begin

text \<open>A connection without SSL; the queue leaves the timers alone, and a socket that blocks has data.\<close>

lemma plain_sender:
  fixes E :: "('b, 'k) env"
  assumes E: "nsys E = S" and quiet: "\<forall>f a w. on_event E (Drain f p a) w = Some w"
  shows "sender E p (\<lambda>w ps. queued p w fd ps \<and> timers_of w = tm \<and> (wt \<longrightarrow> waits p w ps)) (\<lambda>k. out k fd)
     (\<lambda>f. \<forall>k. out (f k) = out k) (\<lambda>k bs. overreads S fd bs 0 k)"
proof
  fix w :: "('b, 'k) ape_net" and ps d bs
  assume q: "queued p w fd ps \<and> timers_of w = tm \<and> (wt \<longrightarrow> waits p w ps)" and d: "rd (data_mem w) d = Some bs" "bs \<noteq> []"
  then show "APE_socket_write E p d (length bs) APE_DATA_COPY w = None \<and> overreads S fd bs 0 (kernel w)
       \<or> (\<exists>r w' ps' sent. APE_socket_write E p d (length bs) APE_DATA_COPY w = Some (r, w')
       \<and> (queued p w' fd ps' \<and> timers_of w' = tm \<and> (wt \<longrightarrow> waits p w' ps'))
       \<and> out (kernel w') fd = out (kernel w) fd @ sent \<and> sent @ bytes_of ps' = bytes_of ps @ bs
       \<and> (\<forall>a < nbrk w. data_mem w' a = data_mem w a) \<and> set (map fst ps') \<subseteq> insert (nbrk w) (set (map fst ps))
       \<and> without (set (map fst ps')) (data_mem w') = without (set (map fst ps)) (data_mem w))"
    using write_spec [OF E conjunct1 [OF q] d] by (elim disjE exE conjE) (simp, (intro disjI2 exI conjI; (assumption | simp)))
next
  fix w :: "('b, 'k) ape_net" and ps
  assume q: "queued p w fd ps \<and> timers_of w = tm \<and> (wt \<longrightarrow> waits p w ps)"
  obtain w' ps' sent where "socket_event E p EVENT_WRITE w = Some w'" "queued p w' fd ps'"
     "out (kernel w') = (out (kernel w))(fd := out (kernel w) fd @ sent)" "sent @ bytes_of ps' = bytes_of ps"
     "timers_of w' = timers_of w" "waits p w' ps'"
     "without (set (map fst ps')) (data_mem w') = without (set (map fst ps)) (data_mem w)"
    using writable_spec [OF E quiet conjunct1 [OF q]] by blast
  then show "\<exists>w' ps' sent. socket_event E p EVENT_WRITE w = Some w'
       \<and> (queued p w' fd ps' \<and> timers_of w' = tm \<and> (wt \<longrightarrow> waits p w' ps'))
       \<and> out (kernel w') fd = out (kernel w) fd @ sent \<and> sent @ bytes_of ps' = bytes_of ps
       \<and> without (set (map fst ps')) (data_mem w') = without (set (map fst ps)) (data_mem w)"
    using q by (intro exI [of _ w'] exI [of _ ps'] exI [of _ sent]) simp
  show "(\<exists>s. sock p w = Some s) \<and> 0 < nbrk w \<and> data_mem w (nbrk w) = None \<and> (\<forall>d \<in> set (map fst ps). d < nbrk w)"
  proof (intro conjI ballI)
    show "\<exists>s. sock p w = Some s" using q unfolding queued_def conn_def by blast
    show "0 < nbrk w" "data_mem w (nbrk w) = None" using q queued_brk by blast+
    show "d < nbrk w" if "d \<in> set (map fst ps)" for d using q that queued_fresh by blast
  qed
next
  fix w :: "('b, 'k) ape_net" and ps bs
  assume "queued p w fd ps \<and> timers_of w = tm \<and> (wt \<longrightarrow> waits p w ps)"
  then show "queued p (w\<lparr>data_mem := (data_mem w)(nbrk w \<mapsto> bs), nbrk := nbrk w + 1\<rparr>) fd ps
       \<and> timers_of (w\<lparr>data_mem := (data_mem w)(nbrk w \<mapsto> bs), nbrk := nbrk w + 1\<rparr>) = tm
       \<and> (wt \<longrightarrow> waits p (w\<lparr>data_mem := (data_mem w)(nbrk w \<mapsto> bs), nbrk := nbrk w + 1\<rparr>) ps)"
    using queued_malloc [of Plain p w fd ps bs] by (simp add: waits_def sock_def)
qed (auto simp: queued_free queued_kernel waits_def sock_def)

lemma io_run_spec:
  assumes E: "nsys E = S" and quiet: "\<forall>f a w. on_event E (Drain f p a) w = Some w"
    and pr: "\<forall>f k. Progress f \<in> set as \<longrightarrow> out (f k) = out k" and q: "queued p w fd ps"
  shows "io_run E p as w = None \<and> faults_at (\<lambda>k bs. overreads S fd bs 0 k) E p as w
     \<or> (\<exists>w' ps' sent. io_run E p as w = Some w' \<and> queued p w' fd ps'
     \<and> out (kernel w') fd = out (kernel w) fd @ sent \<and> sent @ bytes_of ps' = bytes_of ps @ written as
     \<and> timers_of w' = timers_of w \<and> (waits p w ps \<longrightarrow> waits p w' ps')
     \<and> without (set (map fst ps')) (data_mem w') = without (set (map fst ps)) (data_mem w))"
  using sender.run_spec [OF plain_sender [OF E quiet, of fd "timers_of w" "waits p w ps"], of as w ps] pr q by auto

lemma io_flush_spec:
  assumes E: "nsys E = S" and quiet: "\<forall>f a w. on_event E (Drain f p a) w = Some w"
    and pr: "\<forall>f k. Progress f \<in> set as \<longrightarrow> out (f k) = out k"
    and q: "queued p w fd []" and r: "\<forall>w'. io_run E p as w = Some w' \<longrightarrow> length (written as) \<le> room (kernel w') fd"
  shows "io_run E p as w = None \<and> faults_at (\<lambda>k bs. overreads S fd bs 0 k) E p as w
     \<or> (\<exists>w'. io_run E p (as @ [Writable]) w = Some w' \<and> queued p w' fd []
     \<and> out (kernel w') fd = out (kernel w) fd @ written as)"
proof (cases "io_run E p as w")
  case None
  then show ?thesis using io_run_spec [OF E quiet pr q] by auto
next
  case (Some w1)
  obtain ps1 s1 where w1: "queued p w1 fd ps1"
    "out (kernel w1) fd = out (kernel w) fd @ s1" "s1 @ bytes_of ps1 = bytes_of [] @ written as"
    using io_run_spec [OF E quiet pr q] Some by auto
  have "length (bytes_of ps1) \<le> length (written as)" using arg_cong [OF w1(3), of length] by simp
  then have "length (bytes_of ps1) \<le> room (kernel w1) fd" using r Some by force
  then obtain w2 sent where "socket_event E p EVENT_WRITE w1 = Some w2" "queued p w2 fd []"
     "out (kernel w2) = (out (kernel w1))(fd := out (kernel w1) fd @ sent)" "sent = bytes_of ps1"
    using writable_spec [OF E quiet w1(1)] by auto
  then show ?thesis using w1 Some by (intro disjI2 exI [of _ w2]) (simp add: io_run_append)
qed

end

section \<open>A connection that was accepted\<close>

text \<open>The allocators are in order.\<close>

definition net_ok :: "('b, 'k) ape_net \<Rightarrow> bool" where
  "net_ok w \<longleftrightarrow> 0 < nbrk w \<and> (\<forall>a. nbrk w \<le> a \<longrightarrow> sockets w a = None \<and> data_mem w a = None)
     \<and> mem_ok (job_mem w) \<and> mem_ok (pools (packet_mem w)) \<and> 0 < lists_brk (packet_mem w)"

lemma init_jobs:
  assumes ok: "mem_ok m"
  shows "\<exists>l m' j. ape_init_pool_list junk_job sizeof_jobs 2 m = Some (l, m') \<and> pl_current l = pl_head l
     \<and> rd (cells m') (pl_head l) = Some j \<and> pdata j = NULL \<and> pflags j = APE_POOL_ALLOC \<and> job_pool l m'"
proof -
  obtain l m' as where l: "ape_init_pool_list junk_job sizeof_jobs 2 m = Some (l, m')" "pool_inv m' l as" "length as = 2"
    "pl_current l = pl_head l" by (rule init_pool_list_inv [OF ok, of 2 junk_job sizeof_jobs]) auto
  obtain v1 v2 where v: "pl_head l = brk m" "pl_queue l = brk m + 40" "rd (cells m') (brk m) = Some v1" "pdata v1 = NULL"
    "pflags v1 = APE_POOL_ALLOC" "rd (cells m') (brk m + 40) = Some v2" "pflags v2 = 0"
    using l(1) ok
    by (auto simp: ape_init_pool_list_def ape_new_pool_def pool_malloc_def block_addrs_def sizeof_jobs_def
        new_pool_loop.simps upt_rec mem_ok_def Let_def wr_def rd_def)
  obtain a b where as: "as = [a, b]" using l(3) by (auto simp: numeral_2_eq_2 length_Suc_conv)
  then have "a = brk m" "b = brk m + 40" using l(2) v(1,2) by (auto simp: pool_inv_def split: option.splits)
  then have "job_pool l m'" using l(2) v as unfolding job_pool_def by (intro exI [of _ "[b]"]) (simp add: job_flag_def job_kind_def idle_slot_def)
  then show ?thesis using l v by auto
qed

lemma accept_client_queued_in:
  assumes ok: "net_ok w0" and srv: "sock srv w0 = Some s" "issecure s = (sk_proto s = APE_SOCKET_PT_SSL)" and fd: "fd \<noteq> 0"
    and quiet: "\<forall>ev w. on_event E ev w = Some w" and a: "accept_client E srv fd addr w0 = Some w"
  shows "queued_in (if issecure s then Secure else Plain) (nbrk w0) w fd [] \<and> timers_of w = timers_of w0
     \<and> waits (nbrk w0) w [] \<and> buffered (nbrk w0) w = 0"
proof -
  let ?p = "nbrk w0"
  obtain r k where k: "sys_nonblock (nsys E) fd (kernel w0) = (r, k)" by (cases "sys_nonblock (nsys E) fd (kernel w0)")
  have brk: "0 < ?p" "sockets w0 ?p = None" "mem_ok (job_mem w0)" using ok by (simp_all add: net_ok_def)
  obtain l m j where l: "ape_init_pool_list junk_job sizeof_jobs 2 (job_mem w0) = Some (l, m)" "pl_current l = pl_head l"
     "rd (cells m) (pl_head l) = Some j" "pdata j = NULL" "pflags j = APE_POOL_ALLOC" "job_pool l m" using init_jobs [OF brk(3)] by blast
  let ?n = "new_socket fd (sk_proto s) l"
  let ?w1 = "w0\<lparr>nco := c_int (nco w0 + 1), kernel := k, job_mem := m, sockets := (sockets w0)(?p \<mapsto> ?n), nbrk := ?p + 1\<rparr>"
  have r: "r \<noteq> - 1"
  proof
    assume "r = - 1"
    then have "APE_socket_new E (sk_proto s) fd w0 = Some (NULL, w0\<lparr>nco := c_int (nco w0 + 1), kernel := k\<rparr>)"
      using fd k by (simp add: APE_socket_new_def)
    then show False using a srv(1) by (simp add: accept_client_def sock_def upd_sock_def)
  qed
  have new: "APE_socket_new E (sk_proto s) fd w0 = Some (?p, ?w1)"
    using fd k r l(1) by (simp add: APE_socket_new_def ape_init_job_list_def Let_def)
  have ne: "srv \<noteq> ?p" "srv \<noteq> NULL" using srv(1) brk(2) by (auto simp: sock_def rd_Some_iff)
  define t where "t = ?n\<lparr>sk_addr := addr, callbacks := callbacks s, parent := srv, sk_state := APE_SOCKET_ST_ONLINE,
      sk_type := APE_SOCKET_TP_CLIENT\<rparr>"
  define w2 where "w2 = ?w1\<lparr>sockets := (sockets w0)(?p \<mapsto> t)\<rparr>"
  have t0: "t\<lparr>ssl_ptr := NULL\<rparr> = t" by (simp add: t_def new_socket_def)
  obtain x k' ev where w: "w = w2\<lparr>kernel := k', sockets := (sockets w0)(?p \<mapsto> t\<lparr>ssl_ptr := x\<rparr>), events := ev\<rparr>"
  proof (cases "issecure s")
    case True
    then show ?thesis
      using a new srv(1) ne brk(1) quiet that [unfolded w2_def] unfolding accept_client_def
      by (auto simp: sock_def upd_sock_def on_events_def t_def [symmetric] split: Option.bind_splits if_splits)
  next
    case False
    then obtain ev where "w = w2\<lparr>events := ev\<rparr>"
      using a new srv(1) ne brk(1) quiet unfolding w2_def
      by (auto simp: accept_client_def sock_def upd_sock_def on_events_def t_def [symmetric]
          split: Option.bind_splits if_splits)
    then have "w = w2\<lparr>kernel := k, sockets := (sockets w0)(?p \<mapsto> t\<lparr>ssl_ptr := NULL\<rparr>), events := ev\<rparr>"
      unfolding t0 by (simp add: w2_def)
    then show ?thesis by (rule that)
  qed
  have sk: "sock ?p w = Some (t\<lparr>ssl_ptr := x\<rparr>)" using brk(1) by (simp add: w sock_def)
  have j: "job_kind j = 0" "\<not> job_flag APE_SOCKET_JOB_ACTIVE j"
    using l(5) by (simp_all add: job_kind_def job_flag_def APE_POOL_ALLOC_def APE_POOL_ALL_FLAGS_def APE_SOCKET_JOB_ACTIVE_def)
  have "conn_in (if issecure s then Secure else Plain) ?p w fd j 0"
    using l srv(2) brk(1) ok sk unfolding conn_in_def slots_def by (auto simp: w w2_def t_def new_socket_def net_ok_def)
  moreover have "waits ?p w []" "buffered ?p w = 0"
    using sk by (simp_all add: waits_def buffered_def t_def new_socket_def would_block_def)
  moreover have "timers_of w = timers_of w0" by (simp add: w w2_def)
  ultimately show ?thesis using l(4) j unfolding queued_in_def by (intro conjI exI [of _ j] exI [of _ 0]) auto
qed

lemma accept_client_queued:
  assumes "net_ok w0" and "sock srv w0 = Some s" and "sk_proto s \<noteq> APE_SOCKET_PT_SSL \<and> \<not> issecure s" and "fd \<noteq> 0"
    and "\<forall>ev w. on_event E ev w = Some w" and "accept_client E srv fd addr w0 = Some w"
  shows "queued (nbrk w0) w fd [] \<and> timers_of w = timers_of w0 \<and> waits (nbrk w0) w []"
  using accept_client_queued_in [OF assms(1,2) _ assms(4-6)] assms(3) by simp

end
