(* ===== verification/Netlib.thy ===== *)
theory Netlib
  imports Loop
begin

text \<open>
  \<open>ape_log.c\<close> and \<open>ape_netlib.c\<close>: the logger, and creating and destroying the state of
  the library. The thread's pointer to the state is in \<open>thread_ctx\<close>: the functions that get the
  state from it fault when it is not set.
\<close>

section \<open>The logger\<close>

definition log_num :: "ape_log_lvl \<Rightarrow> nat" where
  "log_num l = (case l of APE_LOG_ERROR \<Rightarrow> 0 | APE_LOG_WARN \<Rightarrow> 1 | APE_LOG_INFO \<Rightarrow> 2
     | APE_LOG_DEBUG \<Rightarrow> 3 | APE_LOG_COUNT \<Rightarrow> 4)"

definition APE_getloglabel :: "ape_log_lvl \<Rightarrow> string" where
  "APE_getloglabel lvl = [''ERROR'', ''WARN'', ''INFO'', ''DEBUG'', ''''] ! log_num lvl"

text \<open>\<open>&APE_get()->logger\<close>.\<close>

definition APE_get :: "('b, 'k) ape_net \<Rightarrow> ('b, 'k) ape_net option" where
  "APE_get w = (if thread_ctx w then Some w else None)"

definition log_cleanup_call :: "('b, 'k) env \<Rightarrow> ('b, 'k) ape_net \<Rightarrow> ('b, 'k) ape_net option" where
  "log_cleanup_call E w =
     (if log_cleanup (logger w) \<noteq> NULL
      then user_log_cleanup E (log_cleanup (logger w)) (log_ctx (logger w)) (log_cb_args (logger w)) w
      else Some w)"

definition APE_setlogger ::
  "('b, 'k) env \<Rightarrow> ape_log_lvl \<Rightarrow> ptr \<Rightarrow> ptr \<Rightarrow> ptr \<Rightarrow> ptr \<Rightarrow> ('b, 'k) ape_net \<Rightarrow> ('b, 'k) ape_net option" where
  "APE_setlogger E lvl ini lg cleanup ctx w0 = do {
     w \<leftarrow> APE_get w0;
     w1 \<leftarrow> log_cleanup_call E w;
     let w2 = w1\<lparr>logger := (logger w1)\<lparr>log_lvl := lvl, log_init := ini, log_log := lg,
                                          log_cleanup := cleanup, log_ctx := ctx\<rparr>\<rparr>;
     if ini = NULL then Some w2
     else do {
       (x, w3) \<leftarrow> user_log_init E ini ctx w2;
       Some (w3\<lparr>logger := (logger w3)\<lparr>log_cb_args := x\<rparr>\<rparr>) } }"

definition APE_log ::
  "('b, 'k) env \<Rightarrow> ape_log_lvl \<Rightarrow> byte list \<Rightarrow> byte list \<Rightarrow> ('b, 'k) ape_net \<Rightarrow> (int \<times> ('b, 'k) ape_net) option" where
  "APE_log E lvl tag buff w0 = do {
     w \<leftarrow> APE_get w0;
     let l = logger w;
     if log_log l \<noteq> NULL \<and> log_num lvl \<le> log_num (log_lvl l) then do {
       w1 \<leftarrow> user_log E (log_log l) (log_ctx l) (log_cb_args l) lvl tag buff w;
       Some (1, w1) }
     else Some (0, w) }"

text \<open>The text \<open>vasprintf\<close> makes of the arguments is given.\<close>

definition APE_logf ::
  "('b, 'k) env \<Rightarrow> ape_log_lvl \<Rightarrow> byte list \<Rightarrow> byte list \<Rightarrow> ('b, 'k) ape_net \<Rightarrow> (int \<times> ('b, 'k) ape_net) option" where
  "APE_logf E lvl tag formatted w = (let (buff, w1) = malloc_data formatted w in do {
     text \<leftarrow> rd (data_mem w1) buff;
     (logged, w2) \<leftarrow> APE_log E lvl tag text w1;
     w3 \<leftarrow> free_data buff w2;
     Some (logged, w3) })"

section \<open>Creating and destroying the state\<close>

definition no_logger :: ape_logger where
  "no_logger = \<lparr>log_lvl = APE_LOG_ERROR, log_init = NULL, log_log = NULL, log_cleanup = NULL,
     log_cb_args = NULL, log_ctx = NULL\<rparr>"

definition urandom :: "byte list" where
  "urandom = [47, 100, 101, 118, 47, 117, 114, 97, 110, 100, 111, 109]"

text \<open>
  The memory the state is in is not initialised: \<open>w\<close> is what is there, and the heaps. The
  handler is that of the platform; \<open>ini\<close> is \<open>events_init\<close> on its backends, whose
  result is not looked at, and neither are those of c-ares. The result is NULL (false) or the state.
\<close>

definition APE_init ::
  "('b, 'k) env \<Rightarrow> fdevent_handler \<Rightarrow> ('b fdevent \<Rightarrow> int \<times> 'b fdevent) \<Rightarrow> int \<Rightarrow> int
    \<Rightarrow> ('b, 'k) ape_net \<Rightarrow> (bool \<times> ('b, 'k) ape_net) option" where
  "APE_init E hdl ini ares_library_init ares_init_options w = do {
     let w1 = w\<lparr>events := (events w)\<lparr>handler := hdl\<rparr>, is_running := True, run_in_low_resolution := 0,
                 thead := NULL, head_async := NULL, last_identifier := 0, kill_handler := NULL\<rparr>;
     let (d, w2) = ape_dns_init ares_library_init ares_init_options w1;
     (g, k) \<leftarrow> tls_global_ctx (ssl_of E) (tls_library_init (ssl_of E) (kernel w2));
     let w3 = w2\<lparr>kernel := k, ssl_global_ctx := g, events := snd (ini (events w2)), total_memory_buffered := 0\<rparr>;
     let (fd, k) = sys_open (nsys E) urandom (kernel w3);
     let w4 = w3\<lparr>kernel := k, urandom_fd := fd\<rparr>;
     Some (if fd = 0 then (False, w4)
           else let w5 = w4\<lparr>logger := no_logger\<rparr>
                in if thread_ctx w5 then (False, w5) else (True, w5\<lparr>thread_ctx := True\<rparr>)) }"

fun dns_unwatch :: "fd_delegate list \<Rightarrow> ('b, 'k) ape_net \<Rightarrow> ('b, 'k) ape_net option" where
  "dns_unwatch [] w = Some w"
| "dns_unwatch (d # ds) w = do { (r, w1) \<leftarrow> on_events (events_del (dg_fd d)) w; dns_unwatch ds w1 }"

definition APE_destroy :: "('b, 'k) env \<Rightarrow> nat \<Rightarrow> ('b, 'k) ape_net \<Rightarrow> ('b, 'k) ape_net option" where
  "APE_destroy E depth w = do {
     w1 \<leftarrow> ares_cancel E w;
     w2 \<leftarrow> dns_unwatch (dns_list w1) w1;
     w3 \<leftarrow> ares_destroy E (w2\<lparr>dns_list := []\<rparr>);
     ev \<leftarrow> events_destroy (events w3);
     w4 \<leftarrow> APE_timers_destroy_all (net_call E depth) (w3\<lparr>events := ev\<rparr>);
     w4 \<leftarrow> (if ssl_global_ctx w4 = NULL then Some w4
            else do {
              w4 \<leftarrow> on_ssl (tls_shutdown (ssl_of E) (ssl_global_ctx w4)) w4;
              on_ssl (tls_destroy (ssl_of E) (ssl_global_ctx w4)) w4 });
     let w4 = on_kernel ape_ssl_library_destroy w4;
     w5 \<leftarrow> log_cleanup_call E (on_kernel (sclose (nsys E) (urandom_fd w4)) w4);
     Some (w5\<lparr>thread_ctx := False\<rparr>) }"

end
