(* ===== verification/Demo.thy ===== *)
theory Demo
  imports Queue_Props Netlib
begin

text \<open>
  Concrete surroundings the properties of the sockets are applied to: a kernel with a buffer of bounded
  size for what is sent, that also keeps a log of its calls, a user who does nothing when called back, and
  the state of the library after it was created. The descriptors are only counted.
\<close>

datatype sys_call = C_close int | C_shutdown int | C_connect int sockaddr | C_sendfile int int | C_bind int

record tcp =
  tk_out :: "int \<Rightarrow> byte list"
  tk_room :: "int \<Rightarrow> nat"
  tk_in :: "byte list list"
  tk_log :: "sys_call list"

definition tcp_log :: "sys_call \<Rightarrow> tcp \<Rightarrow> tcp" where
  "tcp_log c k = k\<lparr>tk_log := tk_log k @ [c]\<rparr>"

text \<open>A call that asks for \<open>r\<close> bytes gets as many as there is room for.\<close>

definition tcp_take :: "int \<Rightarrow> nat \<Rightarrow> byte list \<Rightarrow> tcp \<Rightarrow> int \<times> errno \<times> tcp" where
  "tcp_take fd r bs k =
     (if tk_room k fd = 0 then (- 1, EAGAIN, k)
      else let n = min r (tk_room k fd)
           in (int n, EOTHER, k\<lparr>tk_out := (tk_out k)(fd := tk_out k fd @ take n bs),
                               tk_room := (tk_room k)(fd := tk_room k fd - n)\<rparr>))"

text \<open>Each read gives the next piece that came in, as far as there is room for it; an empty piece is the
  end of the stream.\<close>

definition tcp_give :: "nat \<Rightarrow> tcp \<Rightarrow> int \<times> errno \<times> byte list \<times> tcp" where
  "tcp_give n k = (case tk_in k of
     [] \<Rightarrow> (- 1, EAGAIN, [], k)
   | bs # bss \<Rightarrow> if bs = [] then (0, EOTHER, [], k) else if length bs \<le> n then (int (length bs), EOTHER, bs, k\<lparr>tk_in := bss\<rparr>)
                 else (int n, EOTHER, take n bs, k\<lparr>tk_in := drop n bs # bss\<rparr>))"

definition tcp_sys :: "tcp net_sys" where
  "tcp_sys = \<lparr>sys_socket = (\<lambda>un udp k. (3, k)), sys_nonblock = (\<lambda>fd k. (0, k)),
     sys_setsockopt = (\<lambda>fd opt v k. (0, k)), sys_bind = (\<lambda>fd a k. (0, tcp_log (C_bind fd) k)),
     sys_listen = (\<lambda>fd n k. (0, k)),
     sys_connect = (\<lambda>fd a k. (- 1, EADDRNOTAVAIL, tcp_log (C_connect fd a) k)),
     sys_accept = (\<lambda>fd k. (- 1, EAGAIN, \<lparr>sin_port = 0, sin_addr = 0\<rparr>, k)),
     sys_read = (\<lambda>fd n k. tcp_give n k), sys_write = tcp_take,
     sys_writev = (\<lambda>fd css k. tcp_take fd (length (concat css)) (concat css) k),
     sys_sendfile = (\<lambda>fd f n k. (0, EOTHER, tcp_log (C_sendfile fd f) k)), sys_open = (\<lambda>name k. (9, k)),
     sclose = (\<lambda>fd. tcp_log (C_close fd)), sys_shutdown = (\<lambda>fd. tcp_log (C_shutdown fd)),
     sys_recvfrom = (\<lambda>fd n k. (0, [], \<lparr>sin_port = 0, sin_addr = 0\<rparr>, k)),
     sys_sendto = (\<lambda>fd bs a k. (int (length bs), k)), sys_so_error = (\<lambda>fd k. (0, 0, k)),
     inet_addr = (\<lambda>s. 0), inet_pton = (\<lambda>s. True), inet_ntop = (\<lambda>a. [])\<rparr>"

text \<open>A kernel on which nothing happens.\<close>

definition still_sys :: "'k net_sys" where
  "still_sys = \<lparr>sys_socket = (\<lambda>un udp k. (3, k)), sys_nonblock = (\<lambda>fd k. (0, k)),
     sys_setsockopt = (\<lambda>fd opt v k. (0, k)), sys_bind = (\<lambda>fd a k. (0, k)), sys_listen = (\<lambda>fd n k. (0, k)),
     sys_connect = (\<lambda>fd a k. (0, EOTHER, k)), sys_accept = (\<lambda>fd k. (- 1, EAGAIN, \<lparr>sin_port = 0, sin_addr = 0\<rparr>, k)),
     sys_read = (\<lambda>fd n k. (- 1, EAGAIN, [], k)), sys_write = (\<lambda>fd r bs k. (- 1, EAGAIN, k)),
     sys_writev = (\<lambda>fd css k. (- 1, EAGAIN, k)), sys_sendfile = (\<lambda>fd f n k. (0, EOTHER, k)), sys_open = (\<lambda>name k. (9, k)),
     sclose = (\<lambda>fd k. k), sys_shutdown = (\<lambda>fd k. k), sys_recvfrom = (\<lambda>fd n k. (0, [], \<lparr>sin_port = 0, sin_addr = 0\<rparr>, k)),
     sys_sendto = (\<lambda>fd bs a k. (int (length bs), k)), sys_so_error = (\<lambda>fd k. (0, 0, k)),
     inet_addr = (\<lambda>s. 0), inet_pton = (\<lambda>s. True), inet_ntop = (\<lambda>a. [])\<rparr>"

definition env_of :: "'k net_sys \<Rightarrow> ('b, 'k) env" where
  "env_of S = \<lparr>nsys = S, ssl_api = None, on_event = (\<lambda>ev w. Some w), user_timer = (\<lambda>f x w. Some (0, w)),
     user_dns = (\<lambda>f ip x st w. Some w), user_delegate = (\<lambda>d w. None), user_io = (\<lambda>f fd ev x w. Some w),
     user_log_init = (\<lambda>f x w. Some (x, w)), user_log = (\<lambda>f x y l t b w. Some w),
     user_log_cleanup = (\<lambda>f x y w. Some w), user_kill = (\<lambda>f w. Some (0, w)),
     ares_lookup = (\<lambda>h p w. Some w), ares_process_fd = (\<lambda>r wr w. Some w), ares_cancel = Some, ares_destroy = Some\<rparr>"

definition count_ops :: "unit fd_ops" where
  "count_ops = \<lparr>op_add = Some (\<lambda>evd fd b m. Some (0, m)), op_mod = Some (\<lambda>evd fd b m. Some (0, m)),
     op_del = Some (\<lambda>fd m. Some (0, m)), op_poll = Some (\<lambda>t m. Some (0, m)), op_revent = None, op_reload = None,
     op_setsize = Some (\<lambda>n m. Some m), op_get_current_evd = None, op_free = Some\<rparr>"

text \<open>The first address for sockets and blocks is 100.\<close>

definition net0 :: "'k \<Rightarrow> (unit, 'k) ape_net" where
  "net0 k = \<lparr>timer_objs = (\<lambda>_. None), async_objs = (\<lambda>_. None), tbrk = 1, thead = NULL, head_async = NULL,
     last_identifier = 0, run_in_low_resolution = 0, clock = (\<lambda>n. 1000000000 + of_nat n * 1000000), samples = 0,
     events = \<lparr>evm = \<lparr>basemem = 32, backend = ()\<rparr>, nfd = 0, handler = EVENT_EPOLL, fops = count_ops\<rparr>,
     kernel = k, sockets = (\<lambda>_. None), job_mem = empty_mem,
     packet_mem = \<lparr>pools = empty_mem, list_objs = (\<lambda>_. None), lists_brk = 1\<rparr>, data_mem = (\<lambda>_. None),
     dns_list = [], dns_states = (\<lambda>_. None), nbrk = 100, nco = 0, ndec = 0, total_memory_buffered = 0,
     is_running = True, ape_running = True, kill_handler = NULL, urandom_fd = 3, logger = no_logger, thread_ctx = True, ssl_global_ctx = NULL\<rparr>"

text \<open>A listening socket at 50, and a client of it, accepted on descriptor 7, at 100.\<close>

definition server0 :: "'k \<Rightarrow> (unit, 'k) ape_net" where
  "server0 k = (net0 k)\<lparr>sockets := [50 \<mapsto> (new_socket 4 APE_SOCKET_PT_TCP
       \<lparr>pl_head = 1, pl_queue = 1, pl_current = 1, pl_size = sizeof_jobs\<rparr>)
         \<lparr>sk_state := APE_SOCKET_ST_ONLINE, sk_type := APE_SOCKET_TP_SERVER\<rparr>]\<rparr>"

definition tcp0 :: tcp where
  "tcp0 = \<lparr>tk_out = (\<lambda>_. []), tk_room = (\<lambda>_. 3), tk_in = [], tk_log = []\<rparr>"

definition client0 :: "'k net_sys \<Rightarrow> 'k \<Rightarrow> (unit, 'k) ape_net option" where
  "client0 S k = accept_client (env_of S) 50 7 \<lparr>sin_port = 0, sin_addr = 0\<rparr> (server0 k)"

lemma env_of_simps [simp]: "nsys (env_of S) = S" "on_event (env_of S) ev w = Some w"
  by (simp_all add: env_of_def)

lemma server0_simps [simp]: "nbrk (server0 k) = 100" "kernel (server0 k) = k"
  by (simp_all add: server0_def net0_def)

lemma server0_ok: "net_ok (server0 k)"
  by (simp add: net_ok_def server0_def net0_def)

lemma client0_Some:
  assumes "fst (sys_nonblock S 7 k) = 0"
  shows "\<exists>w. client0 S k = Some w \<and> kernel w = snd (sys_nonblock S 7 k)"
proof -
  obtain l m j where "ape_init_pool_list junk_job sizeof_jobs 2 (empty_mem :: ape_socket_jobs pool_mem) = Some (l, m)"
    using init_jobs [OF mem_ok_empty] by blast
  then show ?thesis using assms
    by (cases "sys_nonblock S 7 k")
      (simp add: client0_def accept_client_def APE_socket_new_def server0_def net0_def new_socket_def sock_def upd_sock_def
        ape_init_job_list_def on_events_def events_add_def count_ops_def env_of_def Let_def)
qed

lemma client0_tcp:
  "\<exists>w s. client0 tcp_sys tcp0 = Some w \<and> tk_out (kernel w) 7 = [] \<and> sock 50 (server0 tcp0) = Some s
     \<and> sk_proto s \<noteq> APE_SOCKET_PT_SSL \<and> \<not> issecure s"
  using client0_Some [of tcp_sys tcp0] by (auto simp: tcp_sys_def tcp0_def sock_def server0_def new_socket_def)

interpretation tcp: stream_kernel tcp_sys tk_out tk_room
  by unfold_locales
    (auto simp: tcp_sys_def tcp_take_def Let_def fun_eq_iff dest: less_le_trans [OF length_greater_0_conv [THEN iffD2]] split: if_splits)

text \<open>A write that it cuts short leaves no room, so the next one cannot take too much.\<close>

lemma overreads_inside: "overreads S fd bs t k \<Longrightarrow> t < length bs"
  by (erule overreads.cases) simp_all

lemma tcp_calm_from: "overreads tcp_sys fd bs t k \<Longrightarrow> t \<noteq> 0 \<and> tk_room k fd \<noteq> 0"
proof (induction rule: overreads.induct)
  case (over_now t k n e k')
  then show ?case by (auto simp: tcp_sys_def tcp_take_def Let_def split: if_splits)
next
  case (over_later t k n e k')
  then show ?case using overreads_inside [OF over_later.hyps(5)]
    by (auto simp: tcp_sys_def tcp_take_def Let_def split: if_splits)
qed

lemma tcp_calm [simp]: "\<not> overreads tcp_sys fd bs 0 k"
  using tcp_calm_from by blast

interpretation tcp_send: sender "env_of tcp_sys" p "\<lambda>w ps. queued p w fd ps \<and> timers_of w = tm \<and> (wt \<longrightarrow> waits p w ps)"
  "\<lambda>k. tk_out k fd" "\<lambda>f. \<forall>k. tk_out (f k) = tk_out k" "\<lambda>k bs. overreads tcp_sys fd bs 0 k" for p fd tm wt
  by (rule tcp.plain_sender) simp_all

text \<open>A socket at 50 that is connected on descriptor 4 and has one slot for jobs, at 1.\<close>

definition one_job :: "uint32 \<Rightarrow> nat \<Rightarrow> ape_socket_jobs pool_mem" where
  "one_job flags d = \<lparr>cells = [1 \<mapsto> \<lparr>pdata = d, pnext = NULL, pprev = NULL, pflags = flags, job_offset = 0\<rparr>],
     blocks = [1 \<mapsto> (sizeof_jobs, 1)], brk = 41\<rparr>"

definition peer0 :: "ape_socket" where
  "peer0 = (new_socket 4 APE_SOCKET_PT_TCP \<lparr>pl_head = 1, pl_queue = 1, pl_current = 1, pl_size = sizeof_jobs\<rparr>)
     \<lparr>sk_state := APE_SOCKET_ST_ONLINE, sk_type := APE_SOCKET_TP_CLIENT\<rparr>"

definition connected0 :: "uint32 \<Rightarrow> 'k \<Rightarrow> (unit, 'k) ape_net" where
  "connected0 flags k = (net0 k)\<lparr>job_mem := one_job flags NULL, sockets := [50 \<mapsto> peer0]\<rparr>"

end
