(* ===== verification/Flow.thy ===== *)
theory Flow
  imports Demo
begin

unbundle bit_operations_syntax

text \<open>
  The properties of writing to a connection.
\<close>

section \<open>Every byte, once and in order\<close>

text \<open>C1: A connection that was accepted, over any sequence of writes, of events that say it can be
  written to and of progress of the kernel, on a kernel whose calls take some of what they are given or would
  block (no other error): the bytes the kernel took are the bytes that were written, in order and each once, up
  to a rest whose length is what the socket says it holds. The kernel may take any part at a time, and the
  only fault is that of the loop that writes at once, at a write where the kernel takes a part of the
  block and then more than is left of it.\<close>

theorem socket_stream:
  assumes "stream_kernel S out room" and "nsys E = S" and "\<forall>ev w. on_event E ev w = Some w"
    and "net_ok w0" and "sock srv w0 = Some s" and "sk_proto s \<noteq> APE_SOCKET_PT_SSL \<and> \<not> issecure s" and "fd \<noteq> 0"
    and "accept_client E srv fd addr w0 = Some w"
    and "\<forall>f k. Progress f \<in> set as \<longrightarrow> out (f k) = out k"
  shows "io_run E (nbrk w0) as w = None \<and> faults_at (\<lambda>k bs. overreads S fd bs 0 k) E (nbrk w0) as w
     \<or> (\<exists>w' rest. io_run E (nbrk w0) as w = Some w'
     \<and> out (kernel w') fd @ rest = out (kernel w) fd @ written as
     \<and> buffered (nbrk w0) w' = of_nat (length rest))"
proof -
  have "queued (nbrk w0) w fd []" using accept_client_queued assms(3-8) by metis
  from stream_kernel.io_run_spec [OF assms(1,2) _ assms(9) this] assms(3) show ?thesis
    by (auto dest!: queued_buffered)
qed

theorem socket_stream_witness:
  "\<exists>w w' rest. client0 tcp_sys tcp0 = Some w
     \<and> io_run (env_of tcp_sys) 100 [Write [1, 2, 3, 4, 5], Write [6], Writable] w = Some w'
     \<and> tk_out (kernel w') 7 @ rest = [1, 2, 3, 4, 5, 6] \<and> buffered 100 w' = of_nat (length rest)"
proof -
  obtain w s where w: "client0 tcp_sys tcp0 = Some w" "tk_out (kernel w) 7 = []" and
    s: "sock 50 (server0 tcp0) = Some s" "sk_proto s \<noteq> APE_SOCKET_PT_SSL \<and> \<not> issecure s" using client0_tcp by blast
  then show ?thesis
    using socket_stream [OF tcp.stream_kernel_axioms, of "env_of tcp_sys" "server0 tcp0" 50 s 7
        "\<lparr>sin_port = 0, sin_addr = 0\<rparr>" w "[Write [1, 2, 3, 4, 5], Write [6], Writable]"] w server0_ok [of tcp0]
    by (auto simp del: io_run.simps simp: client0_def)
qed

text \<open>C23: When the kernel has room for all that was written, one event that says the connection can be
  written to empties the queue: everything written has then been sent, unless the writes before it came to the
  fault of the loop that writes at once.\<close>

theorem socket_flush:
  assumes "stream_kernel S out room" and "nsys E = S" and "\<forall>ev w. on_event E ev w = Some w"
    and "net_ok w0" and "sock srv w0 = Some s" and "sk_proto s \<noteq> APE_SOCKET_PT_SSL \<and> \<not> issecure s" and "fd \<noteq> 0"
    and "accept_client E srv fd addr w0 = Some w"
    and "\<forall>f k. Progress f \<in> set as \<longrightarrow> out (f k) = out k"
    and "\<forall>w'. io_run E (nbrk w0) as w = Some w' \<longrightarrow> length (written as) \<le> room (kernel w') fd"
  shows "io_run E (nbrk w0) as w = None \<and> faults_at (\<lambda>k bs. overreads S fd bs 0 k) E (nbrk w0) as w
     \<or> (\<exists>w'. io_run E (nbrk w0) (as @ [Writable]) w = Some w'
     \<and> out (kernel w') fd = out (kernel w) fd @ written as \<and> buffered (nbrk w0) w' = 0)"
proof -
  have "queued (nbrk w0) w fd []" using accept_client_queued assms(3-8) by metis
  from stream_kernel.io_flush_spec [OF assms(1,2) _ assms(9) this assms(10)] assms(3) show ?thesis
    by (auto dest!: queued_buffered)
qed

definition drained :: "tcp \<Rightarrow> tcp" where
  "drained k = k\<lparr>tk_room := \<lambda>_. 10\<rparr>"

lemma drained_room: "tk_out (drained k) = tk_out k" "tk_room (drained k) fd = 10"
  by (simp_all add: drained_def)

theorem socket_flush_witness:
  "\<exists>w w'. client0 tcp_sys tcp0 = Some w
     \<and> io_run (env_of tcp_sys) 100 ([Write [1, 2, 3, 4, 5], Write [6], Progress drained] @ [Writable]) w = Some w'
     \<and> tk_out (kernel w') 7 = [1, 2, 3, 4, 5, 6] \<and> buffered 100 w' = 0"
proof -
  obtain w s where w: "client0 tcp_sys tcp0 = Some w" "tk_out (kernel w) 7 = []" and
    s: "sock 50 (server0 tcp0) = Some s" "sk_proto s \<noteq> APE_SOCKET_PT_SSL \<and> \<not> issecure s" using client0_tcp by blast
  have "length (written [Write [1, 2, 3, 4, 5], Write [6], Progress drained]) \<le> tk_room (kernel w') 7"
    if "io_run (env_of tcp_sys) 100 [Write [1, 2, 3, 4, 5], Write [6], Progress drained] w = Some w'" for w'
    using that by (auto simp: on_kernel_def drained_room split: Option.bind_splits)
  then show ?thesis
    using socket_flush [OF tcp.stream_kernel_axioms, of "env_of tcp_sys" "server0 tcp0" 50 s 7
        "\<lparr>sin_port = 0, sin_addr = 0\<rparr>" w "[Write [1, 2, 3, 4, 5], Write [6], Progress drained]"] w s server0_ok [of tcp0] drained_room(1)
    by (auto simp del: io_run.simps simp: client0_def)
qed

section \<open>Retrying a write that was cut short\<close>

text \<open>C38: The loop of \<open>APE_socket_write\<close> never lowers the number of bytes it asks for: when the
  kernel takes a part of a block, and on the next call has room for more than is left, it is handed bytes
  from behind the block.\<close>

theorem write_retry_overreads:
  assumes "nsys E = S" and "sock p w = Some s" and "sk_state s = APE_SOCKET_ST_ONLINE" and "\<not> issecure s"
    and "must_queue p w = Some False" and "rd (data_mem w) d = Some bs"
    and "sys_write S (sk_fd s) (length bs) bs (kernel w) = (n, e, k)" and "0 < n" and "n < int (length bs)"
    and "sys_write S (sk_fd s) (length bs) (drop (nat n) bs) k = (m, e', k')" and "int (length bs) - n < m"
  shows "APE_socket_write E p d (length bs) ty w = None"
proof -
  have p0: "p \<noteq> NULL" using assms(2) by (auto simp: sock_def)
  have lt: "nat n < length bs" "length bs - nat n < nat m" using assms(8,9,11) by linarith+
  have "write_loop S (sk_fd s) bs (length bs) (nat n) (length bs) k = None"
    using assms(8-11) lt by (subst write_loop.simps) (simp add: Let_def)
  then have "write_loop S (sk_fd s) bs (length bs) 0 (length bs) (kernel w) = None"
    using assms(7-9) lt by (subst write_loop.simps) (cases "bs = []", simp_all)
  then show ?thesis
    using p0 assms(1-6) lt by (cases bs) (simp_all add: APE_socket_write_def APE_socket_is_online_def Let_def)
qed

text \<open>A kernel that takes two bytes, and then all it is asked for.\<close>

definition burst_sys :: "nat net_sys" where
  "burst_sys = still_sys\<lparr>sys_write := \<lambda>fd r bs k. (if k = 0 then 2 else int r, EOTHER, k + 1)\<rparr>"

theorem write_retry_overreads_witness:
  "APE_socket_write (env_of burst_sys) 50 60 3 APE_DATA_COPY ((connected0 APE_POOL_ALLOC 0)\<lparr>data_mem := [60 \<mapsto> [1, 2, 3]]\<rparr>) = None"
proof -
  let ?w = "(connected0 APE_POOL_ALLOC (0 :: nat))\<lparr>data_mem := [60 \<mapsto> [1, 2, 3]]\<rparr>"
  have "must_queue 50 ?w = Some False" by code_simp
  moreover have "sock 50 ?w = Some peer0" "rd (data_mem ?w) 60 = Some [1, 2, 3]" "kernel ?w = 0"
    by (simp_all add: connected0_def sock_def net0_def)
  moreover have "sk_state peer0 = APE_SOCKET_ST_ONLINE" "\<not> issecure peer0"
    by (simp_all add: peer0_def new_socket_def)
  moreover have "sys_write burst_sys fd r bs k = (if k = 0 then 2 else int r, EOTHER, k + 1)" for fd r bs k
    by (simp add: burst_sys_def)
  ultimately show ?thesis
    using write_retry_overreads [of "env_of burst_sys" burst_sys 50 ?w peer0 60 "[1, 2, 3]" 2 EOTHER 1 3 EOTHER 2 APE_DATA_COPY]
    by (simp add: eval_nat_numeral)
qed

section \<open>Slots that are used again\<close>

text \<open>The kind of a slot is not cleared when its job is done. When the slot is then taken for a job
  of another kind it has both, which \<open>ape_socket_do_jobs\<close> takes for neither: the job is passed over
  as if it were done, and the file is not sent, the connection not shut down or the data not written.\<close>

theorem reused_slot_skipped:
  assumes "sock p w = Some s" and "rd (cells (job_mem w)) (pl_current (jobs s)) = Some j"
    and "\<not> job_flag APE_SOCKET_JOB_ACTIVE j" and "job_kind j \<noteq> kind"
    and "job_kind j \<in> {APE_SOCKET_JOB_WRITEV, APE_SOCKET_JOB_SENDFILE, APE_SOCKET_JOB_SHUTDOWN}"
    and "kind \<in> {APE_SOCKET_JOB_WRITEV, APE_SOCKET_JOB_SENDFILE, APE_SOCKET_JOB_SHUTDOWN}"
  shows "\<exists>w'. ape_socket_job_get_slot p kind w = Some (pl_current (jobs s), w')
     \<and> run_job E p (pl_current (jobs s)) w' = Some (None, w')"
proof -
  let ?j = "j\<lparr>pflags := pflags j OR APE_SOCKET_JOB_ACTIVE OR kind\<rparr>"
  let ?w = "w\<lparr>job_mem := (job_mem w)\<lparr>cells := (cells (job_mem w))(pl_current (jobs s) \<mapsto> ?j)\<rparr>\<rparr>"
  have "job_kind ?j \<notin> {APE_SOCKET_JOB_WRITEV, APE_SOCKET_JOB_SENDFILE, APE_SOCKET_JOB_SHUTDOWN}"
    using assms(4-6) unfolding job_kind_set
    by (auto simp: APE_SOCKET_JOB_WRITEV_def APE_SOCKET_JOB_SENDFILE_def APE_SOCKET_JOB_SHUTDOWN_def
        APE_POOL_ALL_FLAGS_def APE_POOL_ALLOC_def APE_SOCKET_JOB_ACTIVE_def)
  then show ?thesis using assms(1-3)
    by (intro exI [of _ ?w]) (auto simp: ape_socket_job_get_slot_def run_job_def sock_def Let_def)
qed

text \<open>Sending a file after a write was flushed: the file is neither sent nor closed.\<close>

theorem reused_slot_skipped_witness:
  "\<exists>w'. ape_socket_job_get_slot 50 APE_SOCKET_JOB_SENDFILE (connected0 (APE_POOL_ALLOC OR APE_SOCKET_JOB_WRITEV) tcp0) = Some (1, w')
     \<and> run_job (env_of tcp_sys) 50 1 w' = Some (None, w')"
  using reused_slot_skipped [of 50 "connected0 (APE_POOL_ALLOC OR APE_SOCKET_JOB_WRITEV) tcp0" peer0
    "\<lparr>pdata = NULL, pnext = NULL, pprev = NULL, pflags = APE_POOL_ALLOC OR APE_SOCKET_JOB_WRITEV, job_offset = 0\<rparr>"
    APE_SOCKET_JOB_SENDFILE "env_of tcp_sys"]
  by (simp add: connected0_def one_job_def peer0_def net0_def new_socket_def sock_def job_flag_def job_kind_def
      APE_SOCKET_JOB_WRITEV_def APE_SOCKET_JOB_SENDFILE_def APE_SOCKET_JOB_ACTIVE_def APE_POOL_ALLOC_def APE_POOL_ALL_FLAGS_def)

section \<open>Destroying a socket that is being shut down\<close>

text \<open>\<open>ape_socket_destroy\<close> does not look whether the socket is being shut down already: after
  \<open>APE_socket_shutdown_now\<close> on a client the timer that closes and frees it is still to come. The next
  pass over the timers frees the socket first, and the other timer then uses it.\<close>

theorem shutdown_then_destroy_faults:
  "do { w1 \<leftarrow> APE_socket_shutdown_now (env_of tcp_sys) 50 (connected0 APE_POOL_ALLOC tcp0);
        (r, w2) \<leftarrow> ape_socket_destroy (env_of tcp_sys) 50 w1;
        map_option fst (ape_timers_process (net_call (env_of tcp_sys) 3) w2) } = None
   \<and> do { w1 \<leftarrow> APE_socket_shutdown_now (env_of tcp_sys) 50 (connected0 APE_POOL_ALLOC tcp0);
        (t, w2) \<leftarrow> ape_timers_process (net_call (env_of tcp_sys) 3) w1;
        Some (Option.is_none (sock 50 w2), tk_log (kernel w2)) } = Some (True, [C_shutdown 4, C_close 4])
   \<and> do { (r, w1) \<leftarrow> ape_socket_destroy (env_of tcp_sys) 50 (connected0 APE_POOL_ALLOC tcp0);
        (t, w2) \<leftarrow> ape_timers_process (net_call (env_of tcp_sys) 3) w1;
        Some (r, Option.is_none (sock 50 w2), tk_log (kernel w2)) } = Some (0, True, [C_close 4])"
  by code_simp

end
