(* ===== verification/Read_Props.thy ===== *)
theory Read_Props
  imports Demo Buffer_Props
begin

unbundle bit_operations_syntax

text \<open>
  Reading from a connection: what came in is handed to the user, whole and in order, and a connection
  that the peer has closed is destroyed.
\<close>

section \<open>Reading until there is nothing more\<close>

text \<open>One round of the loop: None is an error.\<close>

definition read_once :: "('b, 'k) env \<Rightarrow> ape_socket \<Rightarrow> nat \<Rightarrow> 'k \<Rightarrow> (int option \<times> byte list \<times> 'k) option" where
  "read_once E s n k = (if issecure s then secure_read E (ssl_ptr s) n k
     else do {
       (m, e, bs, k1) \<leftarrow> reread (nsys E) (sk_fd s) n k;
       Some (if m = - 1 \<and> e \<noteq> EAGAIN then None else Some m, bs, k1) })"

lemma read_loop_once:
  assumes s: "sock p w = Some s" and b: "buffer_prepare junk_byte (data_in s) 2048 = Some b"
    and o: "read_once E s (bsize b - bused b) (kernel w) = Some (Some m, bs, k)"
  shows "read_loop E p w = do {
     b1 \<leftarrow> (if m > 0 then bput b (bused b) bs else Some b);
     let w1 = w\<lparr>kernel := k, sockets := (sockets w)(p \<mapsto> s\<lparr>data_in := b1\<lparr>bused := bused b1 + nat (ape_max m 0)\<rparr>\<rparr>)\<rparr>;
     if m > 0 then read_loop E p w1 else Some (Some (m, False), w1) }"
proof -
  have u: "upd_sock p (\<lambda>s. s\<lparr>data_in := b2\<rparr>) (w\<lparr>kernel := k\<rparr>)
      = Some (w\<lparr>kernel := k, sockets := (sockets w)(p \<mapsto> s\<lparr>data_in := b2\<rparr>)\<rparr>)" for b2 k
    using s by (simp add: upd_sock_def sock_def)
  show ?thesis
  proof (cases "issecure s")
    case True
    then show ?thesis using s b o by (subst read_loop.simps) (simp add: read_once_def u Let_def)
  next
    case False
    then obtain e where "reread (nsys E) (sk_fd s) (bsize b - bused b) (kernel w) = Some (m, e, bs, k)" "\<not> (m = - 1 \<and> e \<noteq> EAGAIN)"
      using o by (auto simp: read_once_def split: Option.bind_splits if_splits)
    then show ?thesis using s b False by (subst read_loop.simps) (auto simp: u Let_def split: Option.bind_splits)
  qed
qed

text \<open>
  What a socket reads from: \<open>inp k\<close> are the bytes that wait, \<open>closed k\<close> says that nothing
  follows them. A round gives some of the bytes, as many as there is room for at most; when there are none it
  gives 0 on a closed stream and would block on another.
\<close>

locale inbound =
  fixes E :: "('b, 'k) env" and ends :: "ape_socket \<Rightarrow> bool" and inp :: "'k \<Rightarrow> byte list" and closed up :: "'k \<Rightarrow> bool"
  assumes once: "ends s \<Longrightarrow> up k \<Longrightarrow> 0 < n \<Longrightarrow> \<exists>m bs k'. read_once E s n k = Some (Some m, bs, k') \<and> up k'
      \<and> (m \<le> 0 \<and> (m = 0) = closed k \<and> inp k = [] \<and> inp k' = []
         \<or> 0 < m \<and> m = int (length bs) \<and> length bs \<le> n \<and> inp k = bs @ inp k' \<and> closed k' = closed k)"
    and keeps: "ends (s\<lparr>data_in := b\<rparr>) = ends s"
begin

lemma read_loop_spec:
  "sock p w = Some s \<Longrightarrow> ends s \<Longrightarrow> up (kernel w) \<Longrightarrow> buf_ok (data_in s) \<Longrightarrow>
    \<exists>m k b. read_loop E p w = Some (Some (m, False), w\<lparr>kernel := k, sockets := (sockets w)(p \<mapsto> s\<lparr>data_in := b\<rparr>)\<rparr>)
      \<and> (m = 0) = closed (kernel w) \<and> buf_ok b \<and> contents b = contents (data_in s) @ inp (kernel w) \<and> inp k = []"
proof (induction "length (inp (kernel w))" arbitrary: w s rule: less_induct)
  case less
  have p0: "p \<noteq> NULL" using less.prems(1) by (auto simp: sock_def)
  obtain b1 where b1: "buffer_prepare junk_byte (data_in s) 2048 = Some b1" "room (data_in s) b1 2048"
    using prepare_room [OF less.prems(4)] by blast
  let ?n = "bsize b1 - bused b1"
  have used: "bused b1 = bused (data_in s)" "0 < ?n" "buf_ok b1" "contents b1 = contents (data_in s)"
    using b1(2) by (auto simp: room_def buf_ok_def contents_def)
  obtain m bs k where rd: "read_once E s ?n (kernel w) = Some (Some m, bs, k)" "up k" and
    c: "m \<le> 0 \<and> (m = 0) = closed (kernel w) \<and> inp (kernel w) = [] \<and> inp k = []
     \<or> 0 < m \<and> m = int (length bs) \<and> length bs \<le> ?n \<and> inp (kernel w) = bs @ inp k \<and> closed k = closed (kernel w)"
    using once [OF less.prems(2,3) used(2)] by metis
  note step = read_loop_once [OF less.prems(1) b1(1) rd(1)]
  from c show ?case
  proof (elim disjE conjE)
    assume n: "m \<le> 0" "(m = 0) = closed (kernel w)" "inp (kernel w) = []" "inp k = []"
    then have "read_loop E p w = Some (Some (m, False), w\<lparr>kernel := k, sockets := (sockets w)(p \<mapsto> s\<lparr>data_in := b1\<rparr>)\<rparr>)"
      using step by (simp add: ape_max_def)
    then show ?thesis using n used by (intro exI [of _ m] exI [of _ k] exI [of _ b1]) simp
  next
    assume n: "0 < m" "m = int (length bs)" "length bs \<le> ?n" "inp (kernel w) = bs @ inp k" "closed k = closed (kernel w)"
    have rm: "room (data_in s) b1 ?n" using b1(2) used(1) by (auto simp: room_def)
    obtain b2 d where b2: "bput b1 (bused (data_in s)) bs = Some b2" "room (data_in s) b2 ?n"
      "bdata b2 = Some d" "take (bused (data_in s) + length bs) d = contents (data_in s) @ bs"
      using room_put [OF rm n(3)] by blast
    let ?b = "b2\<lparr>bused := bused (data_in s) + length bs\<rparr>"
    have ok: "buf_ok ?b" "contents ?b = contents (data_in s) @ bs" using room_used [OF b2(2-4) refl n(3)] by simp_all
    let ?s = "s\<lparr>data_in := ?b\<rparr>"
    let ?w = "w\<lparr>kernel := k, sockets := (sockets w)(p \<mapsto> ?s)\<rparr>"
    have "bused b2 = bused (data_in s)" using b2(2) by (auto simp: room_def)
    then have step1: "read_loop E p w = read_loop E p ?w"
      using step n(1,2) b2(1) used(1) by (simp add: ape_max_def Let_def)
    have shorter: "length (inp (kernel ?w)) < length (inp (kernel w))" using n by simp
    have s1: "sock p ?w = Some ?s" using p0 by (simp add: sock_def)
    have q: "ends ?s" "up (kernel ?w)" "buf_ok (data_in ?s)" using less.prems(2) rd(2) keeps ok(1) by simp_all
    obtain m' k' b where "read_loop E p ?w = Some (Some (m', False), w\<lparr>kernel := k', sockets := (sockets w)(p \<mapsto> s\<lparr>data_in := b\<rparr>)\<rparr>)"
      "(m' = 0) = closed k" "buf_ok b" "contents b = contents ?b @ inp k" "inp k' = []"
      using less.hyps [OF shorter s1 q] by auto
    then show ?thesis using step1 ok(2) n(4,5) by (intro exI [of _ m'] exI [of _ k'] exI [of _ b]) simp
  qed
qed

text \<open>The handler of a read event, when nothing has to be written first.\<close>

lemma socket_read_spec:
  assumes s: "sock p w = Some s" "sk_state s = APE_SOCKET_ST_ONLINE" "ends s" "up (kernel w)" "issecure s \<longrightarrow> \<not> need_write s"
    and b: "buf_ok (data_in s)" "bused (data_in s) = 0" and cb: "on_read (callbacks s) \<noteq> NULL"
    and obs: "\<forall>ev w. on_event E ev w = Some (on_kernel (seen ev) w)" and bs: "inp (kernel w) = bs" "bs \<noteq> []"
  shows "\<exists>k b. inp k = [] \<and> buf_ok b \<and> bused b = 0
     \<and> (let w' = w\<lparr>kernel := seen (Read (on_read (callbacks s)) p bs (cb_arg (callbacks s))) k,
                    sockets := (sockets w)(p \<mapsto> s\<lparr>data_in := b\<rparr>)\<rparr>
        in ape_socket_read E p w
          = (if closed (kernel w) then map_option (\<lambda>(r, w). (- 1, w)) (ape_socket_destroy E p w') else Some (0, w')))"
proof -
  obtain m k b1 where r: "read_loop E p w = Some (Some (m, False), w\<lparr>kernel := k, sockets := (sockets w)(p \<mapsto> s\<lparr>data_in := b1\<rparr>)\<rparr>)"
      "(m = 0) = closed (kernel w)" "buf_ok b1" "contents b1 = contents (data_in s) @ inp (kernel w)" "inp k = []"
    using read_loop_spec [OF s(1,3,4) b(1)] by blast
  have p0: "p \<noteq> NULL" using s(1) by (auto simp: sock_def)
  have c: "contents (data_in s) = []" using b contents_length [OF b(1)] by simp
  then have c1: "contents b1 = bs" using r(4) bs(1) by simp
  then have c2: "bused b1 \<noteq> 0" using bs(2) contents_length [OF r(3)] by (metis length_0_conv)
  obtain d where d: "bdata b1 = Some d" "take (bused b1) d = bs"
    using c1 bs(2) by (auto simp: contents_def split: option.splits)
  let ?b = "b1\<lparr>bused := 0\<rparr>"
  let ?w = "w\<lparr>kernel := seen (Read (on_read (callbacks s)) p bs (cb_arg (callbacks s))) k,
                    sockets := (sockets w)(p \<mapsto> s\<lparr>data_in := ?b\<rparr>)\<rparr>"
  have dl: "deliver E p (w\<lparr>kernel := k, sockets := (sockets w)(p \<mapsto> s\<lparr>data_in := b1\<rparr>)\<rparr>) = Some ?w"
    using p0 c2 cb s(2) d obs by (simp add: deliver_def sock_def on_kernel_def upd_sock_def)
  have "ape_socket_read E p w = (if closed (kernel w)
      then map_option (\<lambda>(r, w). (- 1, w)) (ape_socket_destroy E p ?w) else Some (0, ?w))"
    using s r(1,2) dl p0
    by (cases "ape_socket_destroy E p ?w") (auto simp: ape_socket_read_def sock_def)
  moreover have "buf_ok ?b" using r(3) by (auto simp: buf_ok_def split: option.splits)
  ultimately show ?thesis using r(5) by (intro exI [of _ k] exI [of _ ?b]) (simp add: Let_def)
qed

end

section \<open>A stream that comes in\<close>

text \<open>The system call, on the descriptor \<open>fd\<close>.\<close>

locale stream_source =
  fixes S :: "'k net_sys" and inp :: "'k \<Rightarrow> int \<Rightarrow> byte list" and closed :: "'k \<Rightarrow> int \<Rightarrow> bool"
  assumes reads: "sys_read S fd n k = (m, e, bs, k') \<Longrightarrow> 0 < n \<Longrightarrow>
      m = (if closed k fd then 0 else - 1) \<and> (closed k fd \<or> e = EAGAIN) \<and> inp k fd = [] \<and> inp k' fd = []
      \<or> 0 < m \<and> m = int (length bs) \<and> length bs \<le> n \<and> inp k fd = bs @ inp k' fd \<and> closed k' fd = closed k fd"
begin

lemma plain_inbound:
  assumes E: "nsys E = S"
  shows "inbound E (\<lambda>s. \<not> issecure s \<and> sk_fd s = fd) (\<lambda>k. inp k fd) (\<lambda>k. closed k fd) (\<lambda>k. True)"
proof
  fix s :: ape_socket and n :: nat and k
  assume s: "\<not> issecure s \<and> sk_fd s = fd" and n: "0 < n"
  obtain m e bs k' where rd: "sys_read S fd n k = (m, e, bs, k')" by (cases "sys_read S fd n k")
  note c = reads [OF rd n]
  then have "reread S fd n k = Some (m, e, bs, k')" using rd by (subst reread.simps) auto
  then have "read_once E s n k = Some (Some m, bs, k')" using s E c by (auto simp: read_once_def)
  then show "\<exists>m bs k'. read_once E s n k = Some (Some m, bs, k') \<and> True
      \<and> (m \<le> 0 \<and> (m = 0) = closed k fd \<and> inp k fd = [] \<and> inp k' fd = []
         \<or> 0 < m \<and> m = int (length bs) \<and> length bs \<le> n \<and> inp k fd = bs @ inp k' fd \<and> closed k' fd = closed k fd)"
    using c by (intro exI [of _ m] exI [of _ bs] exI [of _ k']) (cases "closed k fd", auto)
qed simp

end

interpretation tcp_in: stream_source tcp_sys "\<lambda>k fd. concat (takeWhile (\<lambda>bs. bs \<noteq> []) (tk_in k))" "\<lambda>k fd. [] \<in> set (tk_in k)"
proof
  fix fd n k m e bs k'
  assume "sys_read tcp_sys fd n k = (m, e, bs, k')" and "0 < n"
  then have g: "tcp_give n k = (m, e, bs, k')" by (simp add: tcp_sys_def)
  show "m = (if [] \<in> set (tk_in k) then 0 else - 1) \<and> ([] \<in> set (tk_in k) \<or> e = EAGAIN) \<and> concat (takeWhile (\<lambda>bs. bs \<noteq> []) (tk_in k)) = []
      \<and> concat (takeWhile (\<lambda>bs. bs \<noteq> []) (tk_in k')) = []
    \<or> 0 < m \<and> m = int (length bs) \<and> length bs \<le> n
      \<and> concat (takeWhile (\<lambda>bs. bs \<noteq> []) (tk_in k)) = bs @ concat (takeWhile (\<lambda>bs. bs \<noteq> []) (tk_in k'))
      \<and> ([] \<in> set (tk_in k')) = ([] \<in> set (tk_in k))"
    using g \<open>0 < n\<close> by (cases "tk_in k") (auto simp: tcp_give_def split: if_splits)
qed

interpretation tcp_reader: inbound "env_of tcp_sys" "\<lambda>s. \<not> issecure s \<and> sk_fd s = fd"
  "\<lambda>k. concat (takeWhile (\<lambda>bs. bs \<noteq> []) (tk_in k))" "\<lambda>k. [] \<in> set (tk_in k)" "\<lambda>k. True" for fd
  by (rule tcp_in.plain_inbound) simp

section \<open>The properties\<close>

text \<open>C12: A read event on a connection hands everything that came in to the user in one call, whatever
  the sizes of the reads, and leaves nothing in the buffer; if the peer has closed the connection the
  socket is destroyed after that call, otherwise it is left as it was.\<close>

theorem read_delivers:
  assumes "stream_source S inp closed" and "nsys E = S" and "sock p w = Some s" and "sk_state s = APE_SOCKET_ST_ONLINE"
    and "\<not> issecure s" and "buf_ok (data_in s)" and "bused (data_in s) = 0" and "on_read (callbacks s) \<noteq> NULL"
    and "\<forall>ev w. on_event E ev w = Some (on_kernel (seen ev) w)" and "inp (kernel w) (sk_fd s) = bs" and "bs \<noteq> []"
  shows "\<exists>k b. inp k (sk_fd s) = [] \<and> buf_ok b \<and> bused b = 0
     \<and> (let w' = w\<lparr>kernel := seen (Read (on_read (callbacks s)) p bs (cb_arg (callbacks s))) k,
                    sockets := (sockets w)(p \<mapsto> s\<lparr>data_in := b\<rparr>)\<rparr>
        in ape_socket_read E p w
          = (if closed (kernel w) (sk_fd s) then map_option (\<lambda>(r, w). (- 1, w)) (ape_socket_destroy E p w')
             else Some (0, w')))"
  using inbound.socket_read_spec [OF stream_source.plain_inbound [OF assms(1,2)] assms(3,4) _ _ _ assms(6-11)] assms(5) by simp

definition reader0 :: "byte list list \<Rightarrow> (unit, tcp) ape_net" where
  "reader0 bss = (connected0 APE_POOL_ALLOC (tcp0\<lparr>tk_in := bss\<rparr>))
     \<lparr>sockets := [50 \<mapsto> peer0\<lparr>callbacks := (callbacks peer0)\<lparr>on_read := 9\<rparr>\<rparr>]\<rparr>"

theorem read_delivers_witness:
  "\<exists>k b. buf_ok b \<and> bused b = 0 \<and> ape_socket_read (env_of tcp_sys) 50 (reader0 [[1, 2], [3]])
     = Some (0, (reader0 [[1, 2], [3]])\<lparr>kernel := k,
         sockets := (sockets (reader0 [[1, 2], [3]]))(50 \<mapsto> peer0\<lparr>callbacks := (callbacks peer0)\<lparr>on_read := 9\<rparr>, data_in := b\<rparr>)\<rparr>)"
proof -
  let ?s = "peer0\<lparr>callbacks := (callbacks peer0)\<lparr>on_read := 9\<rparr>\<rparr>"
  have "sock 50 (reader0 [[1, 2], [3]]) = Some ?s" "tk_in (kernel (reader0 [[1, 2], [3]])) = [[1, 2], [3]]"
    by (simp_all add: reader0_def connected0_def net0_def tcp0_def sock_def)
  moreover have "sk_state ?s = APE_SOCKET_ST_ONLINE" "\<not> issecure ?s" "buf_ok (data_in ?s)" "bused (data_in ?s) = 0"
    by (simp_all add: peer0_def new_socket_def buf_ok_def buffer_init_def)
  moreover have "\<forall>ev w. on_event (env_of tcp_sys) ev w = Some (on_kernel (\<lambda>k. k) w)" by (simp add: on_kernel_def)
  ultimately show ?thesis
    using read_delivers [OF tcp_in.stream_source_axioms, of "env_of tcp_sys" 50 "reader0 [[1, 2], [3]]" ?s "\<lambda>ev k. k" "[1, 2, 3]"]
    by (auto simp: Let_def)
qed

end
