(* ===== verification/States.thy ===== *)
theory States
  imports Demo
begin

unbundle bit_operations_syntax

text \<open>
  The states of a socket are ordered by how far its life has gone. Every operation of the library only
  moves a socket forward. What the user's code does is a script of calls of the library, chosen from the state,
  which runs inside callbacks to any depth; so any number of passes of the event loop only moves
  a socket forward as long as no script connects or listens on an old socket again: one that is being shut
  down is never online again.
\<close>

section \<open>The order of the states\<close>

definition life :: "ape_socket_state \<Rightarrow> nat" where
  "life s = (case s of APE_SOCKET_ST_PENDING \<Rightarrow> 0 | APE_SOCKET_ST_PROGRESS \<Rightarrow> 1 | APE_SOCKET_ST_ONLINE \<Rightarrow> 2
     | APE_SOCKET_ST_SHUTDOWN \<Rightarrow> 3 | APE_SOCKET_ST_OFFLINE \<Rightarrow> 4)"

lemma life_inj: "life a = life b \<longleftrightarrow> a = b"
  by (cases a; cases b) (simp_all add: life_def)

instantiation ape_socket_state :: linorder
begin

definition less_eq_ape_socket_state :: "ape_socket_state \<Rightarrow> ape_socket_state \<Rightarrow> bool" where
  "less_eq_ape_socket_state a b \<longleftrightarrow> life a \<le> life b"

definition less_ape_socket_state :: "ape_socket_state \<Rightarrow> ape_socket_state \<Rightarrow> bool" where
  "less_ape_socket_state a b \<longleftrightarrow> life a < life b"

instance
  by standard (auto simp: less_eq_ape_socket_state_def less_ape_socket_state_def life_inj)

end

lemma state_le [simp]:
  "s \<le> APE_SOCKET_ST_OFFLINE" "APE_SOCKET_ST_PENDING \<le> s" "APE_SOCKET_ST_ONLINE \<le> APE_SOCKET_ST_SHUTDOWN"
  "APE_SOCKET_ST_PROGRESS \<le> APE_SOCKET_ST_ONLINE"
  by (cases s; simp add: less_eq_ape_socket_state_def life_def)+

section \<open>Moving forward\<close>

text \<open>Each socket that was there is still there in a later or the same state, or was freed.\<close>

definition ages :: "('b, 'k) ape_net \<Rightarrow> ('b, 'k) ape_net \<Rightarrow> bool" where
  "ages w w' \<longleftrightarrow> nbrk w \<le> nbrk w' \<and> (\<forall>p < nbrk w. \<forall>s'. sockets w' p = Some s' \<longrightarrow>
     (\<exists>s. sockets w p = Some s \<and> sk_state s \<le> sk_state s'))"

definition fwd :: "('b, 'k) ape_net \<Rightarrow> ('b, 'k) ape_net option \<Rightarrow> bool" where
  "fwd w m \<longleftrightarrow> (\<forall>w'. m = Some w' \<longrightarrow> ages w w')"

definition fwds :: "('b, 'k) ape_net \<Rightarrow> ('r \<times> ('b, 'k) ape_net) option \<Rightarrow> bool" where
  "fwds w m \<longleftrightarrow> (\<forall>r w'. m = Some (r, w') \<longrightarrow> ages w w')"

named_theorems fwd_rules \<open>the operations move forward\<close>

lemma ages_refl [simp]: "ages w w"
  by (simp add: ages_def)

lemma ages_trans: "ages w w1 \<Longrightarrow> ages w1 w2 \<Longrightarrow> ages w w2"
  unfolding ages_def by (meson less_le_trans order_trans)

text \<open>What is not the sockets does not matter.\<close>

lemma ages_frame [simp]:
  "ages w (w1\<lparr>kernel := x1\<rparr>) = ages w w1" "ages w (w1\<lparr>events := x2\<rparr>) = ages w w1" "ages w (w1\<lparr>job_mem := x3\<rparr>) = ages w w1"
  "ages w (w1\<lparr>packet_mem := x4\<rparr>) = ages w w1" "ages w (w1\<lparr>data_mem := x5\<rparr>) = ages w w1"
  "ages w (w1\<lparr>dns_list := x6\<rparr>) = ages w w1" "ages w (w1\<lparr>dns_states := x7\<rparr>) = ages w w1"
  "ages w (w1\<lparr>nco := x8\<rparr>) = ages w w1" "ages w (w1\<lparr>ndec := x9\<rparr>) = ages w w1"
  "ages w (w1\<lparr>total_memory_buffered := x10\<rparr>) = ages w w1" "ages w (w1\<lparr>ape_running := x11\<rparr>) = ages w w1"
  "ages w (w1\<lparr>timer_objs := x12\<rparr>) = ages w w1" "ages w (w1\<lparr>async_objs := x13\<rparr>) = ages w w1"
  "ages w (w1\<lparr>tbrk := x14\<rparr>) = ages w w1" "ages w (w1\<lparr>thead := x15\<rparr>) = ages w w1" "ages w (w1\<lparr>head_async := x16\<rparr>) = ages w w1"
  "ages w (w1\<lparr>last_identifier := x17\<rparr>) = ages w w1" "ages w (w1\<lparr>samples := x18\<rparr>) = ages w w1"
  by (simp_all add: ages_def)

lemma ages_alloc:
  "ages w w1 \<Longrightarrow> ages w (w1\<lparr>sockets := (sockets w1)(nbrk w1 := x), nbrk := nbrk w1 + 1\<rparr>)"
  "ages w w1 \<Longrightarrow> ages w (w1\<lparr>nbrk := nbrk w1 + 1\<rparr>)"
  "ages w w1 \<Longrightarrow> ages w (w1\<lparr>sockets := (sockets w1)(p := None)\<rparr>)"
  by (auto simp: ages_def)

lemma ages_upd:
  assumes "ages w w1" and "sock p w1 = Some s" and "sk_state s \<le> sk_state s'"
  shows "ages w (w1\<lparr>sockets := (sockets w1)(p \<mapsto> s')\<rparr>)"
  using assms unfolding ages_def sock_def rd_Some_iff by auto (metis order_trans)

section \<open>Rules\<close>

lemma fwd_None [fwd_rules]: "fwd w None" "fwds w None"
  by (simp_all add: fwd_def fwds_def)

lemma fwd_Some [fwd_rules]: "ages w w1 \<Longrightarrow> fwd w (Some w1)" "ages w w1 \<Longrightarrow> fwds w (Some (r, w1))"
  by (simp_all add: fwd_def fwds_def)

lemma fwd_if [fwd_rules]:
  "(c \<Longrightarrow> fwd w a) \<Longrightarrow> (\<not> c \<Longrightarrow> fwd w b) \<Longrightarrow> fwd w (if c then a else b)"
  "(c \<Longrightarrow> fwds w x) \<Longrightarrow> (\<not> c \<Longrightarrow> fwds w y) \<Longrightarrow> fwds w (if c then x else y)"
  by simp_all

lemma fwd_snd [fwd_rules]: "fwds w m \<Longrightarrow> fwd w (map_option snd m)"
  by (auto simp: fwd_def fwds_def)

text \<open>A step that gives a state, a result with a state, or only a result.\<close>

lemma fwd_bind [fwd_rules]:
  "fwd w m \<Longrightarrow> (\<And>w1. ages w w1 \<Longrightarrow> m = Some w1 \<Longrightarrow> fwd w (f w1)) \<Longrightarrow> fwd w (Option.bind m f)"
  "fwd w m \<Longrightarrow> (\<And>w1. ages w w1 \<Longrightarrow> m = Some w1 \<Longrightarrow> fwds w (g w1)) \<Longrightarrow> fwds w (Option.bind m g)"
  "fwds w n \<Longrightarrow> (\<And>r w1. ages w w1 \<Longrightarrow> n = Some (r, w1) \<Longrightarrow> fwd w (h r w1)) \<Longrightarrow> fwd w (Option.bind n (\<lambda>(r, w1). h r w1))"
  "fwds w n \<Longrightarrow> (\<And>r w1. ages w w1 \<Longrightarrow> n = Some (r, w1) \<Longrightarrow> fwds w (i r w1)) \<Longrightarrow> fwds w (Option.bind n (\<lambda>(r, w1). i r w1))"
  by (auto simp: fwd_def fwds_def split: Option.bind_splits)

lemma fwd_read:
  "(\<And>x. m = Some x \<Longrightarrow> fwd w (f x)) \<Longrightarrow> fwd w (Option.bind m f)"
  "(\<And>x. m = Some x \<Longrightarrow> fwds w (g x)) \<Longrightarrow> fwds w (Option.bind m g)"
  by (auto simp: fwd_def fwds_def split: Option.bind_splits)

lemma fwd_upd_sock [fwd_rules]:
  "ages w w1 \<Longrightarrow> (\<And>s. sock p w1 = Some s \<Longrightarrow> sk_state s \<le> sk_state (f s)) \<Longrightarrow> fwd w (upd_sock p f w1)"
  by (auto simp: fwd_def upd_sock_def sock_def wr_eq_Some intro!: ages_upd split: Option.bind_splits)

lemma fwd_on_events [fwd_rules]: "ages w w1 \<Longrightarrow> fwds w (on_events f w1)"
  by (auto simp: fwds_def on_events_def split: Option.bind_splits)

lemma fwd_on_ssl [fwd_rules]: "ages w w1 \<Longrightarrow> fwd w (on_ssl f w1)"
  by (auto simp: fwd_def on_ssl_def split: Option.bind_splits)

lemma on_ssl_sockets: "on_ssl f w = Some w' \<Longrightarrow> sockets w' = sockets w"
  by (auto simp: on_ssl_def split: Option.bind_splits)

lemma ages_on_kernel [simp]: "ages w (on_kernel f w1) = ages w w1"
  by (simp add: on_kernel_def)

lemmas fwd_reads = fwd_read [where m = "m :: ape_socket option" for m]
  fwd_read [where m = "m :: ape_socket_jobs option" for m] fwd_read [where m = "m :: ape_socket_packet option" for m]
  fwd_read [where m = "m :: (nat \<Rightarrow> 'x option) option" for m] fwd_read [where m = "m :: bool option" for m]
  fwd_read [where m = "m :: byte list option" for m] fwd_read [where m = "m :: ape_pool_list option" for m]
  fwd_read [where m = "m :: ape_socket_packet list_mem option" for m] fwd_read [where m = "m :: byte list list option" for m]
  fwd_read [where m = "m :: unit buffer option" for m] fwd_read [where m = "m :: ape_dns_state option" for m]
  fwd_read [where m = "m :: ape_timer option" for m] fwd_read [where m = "m :: ape_timer_async option" for m]
  fwd_read [where m = "m :: nat option" for m] fwd_read [where m = "m :: fd_delegate option" for m]
  fwd_read [where m = "m :: ('y \<times> ape_pool_list \<times> 'x pool_mem) option" for m]

section \<open>The operations\<close>

lemma fwd_timer_create [fwd_rules]:
  fixes w1 :: "('b, 'k) ape_net"
  shows "ages w w1 \<Longrightarrow> fwds w (APE_timer_create ms cb x w1)"
  by (auto simp: APE_timer_create_def mach_absolute_time_def fwds_def Let_def split: Option.bind_splits if_splits)

lemma fwd_dispatch [fwd_rules]: "ages w w1 \<Longrightarrow> fwd w (timer_dispatch_async cb x w1)"
  unfolding timer_dispatch_async_def by (intro fwd_rules)

lemma fwd_free_data [fwd_rules]: "ages w w1 \<Longrightarrow> fwd w (free_data p w1)"
  by (auto simp: free_data_def fwd_def split: Option.bind_splits if_splits)

lemma fwd_release_data [fwd_rules]: "ages w w1 \<Longrightarrow> fwd w (ape_socket_release_data d ty w1)"
  by (auto simp: ape_socket_release_data_def split: ape_socket_data_autorelease.splits intro!: fwd_rules)

lemma fwd_invalidate [fwd_rules]: "ages w w1 \<Longrightarrow> fwd w (ape_dns_invalidate d w1)"
  by (auto simp: ape_dns_invalidate_def Let_def intro!: fwd_rules fwd_reads)

lemma fwd_params_free [fwd_rules]: "ages w w1 \<Longrightarrow> fwds w (params_free d w1)"
  by (auto simp: params_free_def intro!: fwd_rules fwd_reads)

text \<open>Calls out of the library that only move forward. This is proved of every script below.\<close>

locale forward_env =
  fixes E :: "('b, 'k) env"
  assumes on_event_fwd: "ages w w1 \<Longrightarrow> fwd w (on_event E ev w1)"
    and user_timer_fwd: "ages w w1 \<Longrightarrow> fwds w (user_timer E f x w1)"
    and user_io_fwd: "ages w w1 \<Longrightarrow> fwd w (user_io E f fd bits x w1)"
    and ares_fwd: "ages w w1 \<Longrightarrow> fwd w (ares_process_fd E rfd wfd w1)"
    and user_kill_fwd: "ages w w1 \<Longrightarrow> fwds w (user_kill E f w1)"
begin

lemmas env_rules = on_event_fwd user_timer_fwd user_io_fwd ares_fwd user_kill_fwd

lemma close_fwd [fwd_rules]: "ages w w1 \<Longrightarrow> fwds w (ape_socket_close E p w1)"
  by (auto simp: ape_socket_close_def Let_def intro!: fwd_rules fwd_reads env_rules)

lemma destroy_async_fwd [fwd_rules]: "ages w w1 \<Longrightarrow> fwds w (ape_socket_destroy_async p w1)"
  by (auto simp: ape_socket_destroy_async_def intro!: fwd_rules fwd_reads)

lemma destroy_fwd [fwd_rules]: "ages w w1 \<Longrightarrow> fwds w (ape_socket_destroy E p w1)"
  by (auto simp: ape_socket_destroy_def intro!: fwd_rules fwd_reads)

lemma ape_shutdown_fwd [fwd_rules]: "ages w w1 \<Longrightarrow> fwd w (ape_shutdown E p w1)"
  by (auto simp: ape_shutdown_def Let_def sock_def on_kernel_def split: if_splits dest!: on_ssl_sockets intro!: fwd_rules fwd_reads)

lemma get_slot_fwd [fwd_rules]: "ages w w1 \<Longrightarrow> fwds w (ape_socket_job_get_slot p ty w1)"
  by (auto simp: ape_socket_job_get_slot_def Let_def intro!: fwd_rules fwd_reads)

lemma shutdown_fwd [fwd_rules]: "ages w w1 \<Longrightarrow> fwd w (APE_socket_shutdown E p w1)"
  by (auto simp: APE_socket_shutdown_def split: ape_socket_state.splits intro!: fwd_rules fwd_reads)

lemma shutdown_now_fwd [fwd_rules]: "ages w w1 \<Longrightarrow> fwd w (APE_socket_shutdown_now E p w1)"
  by (auto simp: APE_socket_shutdown_now_def split: ape_socket_state.splits intro!: fwd_rules fwd_reads)

lemma shutdown_delay_cb_fwd [fwd_rules]: "ages w w1 \<Longrightarrow> fwds w (ape_socket_shutdown_delay_cb E p w1)"
  by (auto simp: ape_socket_shutdown_delay_cb_def intro!: fwd_rules fwd_reads)

lemma would_block_fwd [fwd_rules]: "ages w w1 \<Longrightarrow> fwd w (set_would_block p w1)"
  by (auto simp: set_would_block_def intro!: fwd_rules)

lemma job_packets_fwd [fwd_rules]: "ages w w1 \<Longrightarrow> fwds w (job_packets job w1)"
  by (auto simp: job_packets_def ape_socket_new_packet_queue_def fwds_def split: Option.bind_splits if_splits)

lemma ages_malloc: "ages w w1 \<Longrightarrow> malloc_data bs w1 = (q, w2) \<Longrightarrow> ages w w2"
  by (auto simp: malloc_data_def ages_def)

lemma malloc_fwd [fwd_rules]: "ages w w1 \<Longrightarrow> fwds w (Some (malloc_data bs w1))"
  by (auto simp: malloc_data_def fwds_def ages_def)

lemma queue_data_fwd [fwd_rules]: "ages w w1 \<Longrightarrow> fwd w (ape_socket_queue_data E p d n off ty w1)"
  unfolding ape_socket_queue_data_def Let_def
  by (intro fwd_rules fwd_reads) (auto intro!: fwd_rules fwd_reads)

lemmas kernel_reads = fwd_read [where m = "m :: (write_end \<times> 'k) option" for m]
  fwd_read [where m = "m :: (int \<times> errno \<times> 'k) option" for m]
  fwd_read [where m = "m :: (int \<times> errno \<times> byte list \<times> 'k) option" for m]
  fwd_read [where m = "m :: (int \<times> 'k) option" for m] fwd_read [where m = "m :: (ptr \<times> 'k) option" for m]
  fwd_read [where m = "m :: (int option \<times> byte list \<times> 'k) option" for m]

lemma ssl_try_write_fwd [fwd_rules]:
  "ages w w1 \<Longrightarrow> fwds w (ssl_try_write T p d n w1)" for T :: "'k net_ssl" and w :: "('b, 'k) ape_net"
  unfolding ssl_try_write_def Let_def
  by (auto split: prod.splits ssl_error.splits intro!: fwd_rules fwd_reads kernel_reads)

lemma secure_write_fwd [fwd_rules]: "ages w w1 \<Longrightarrow> fwds w (secure_write E p d n w1)"
  unfolding secure_write_def by (auto split: option.splits intro!: fwd_rules)

lemma write_end_fwd [fwd_rules]:
  "(\<And>t. e = W_again t \<Longrightarrow> fwds w (a t)) \<Longrightarrow> (e = W_done \<Longrightarrow> fwds w b) \<Longrightarrow> (e = W_error \<Longrightarrow> fwds w c)
    \<Longrightarrow> fwds w (case e of W_done \<Rightarrow> b | W_again t \<Rightarrow> a t | W_error \<Rightarrow> c)"
  by (cases e) simp_all

lemma write_fwd [fwd_rules]: "ages w w1 \<Longrightarrow> fwds w (APE_socket_write E p d n ty w1)"
  unfolding APE_socket_write_def Let_def by (auto intro!: fwd_rules fwd_reads kernel_reads)

text \<open>Loops: by induction on the recursive calls, for the results there are.\<close>

lemma result_fwd:
  "(\<And>x. m = Some x \<Longrightarrow> ages w w1 \<longrightarrow> fwds w (Some x)) \<Longrightarrow> ages w w1 \<Longrightarrow> fwds w m"
  by (cases m) (auto simp: fwd_None)

lemma packet_written_fwd [fwd_rules]: "ages w w1 \<Longrightarrow> fwds w (packet_written list packet v w1)"
  unfolding packet_written_def by (auto intro!: fwd_rules fwd_reads)

lemma consume_fwd [fwd_rules]: "ages w w1 \<Longrightarrow> fwds w (consume_packets list packet n w1)"
proof (erule result_fwd [rotated])
  show "ages w w1 \<longrightarrow> fwds w (Some x)" if "consume_packets list packet n w1 = Some x" for x
    using that
  proof (induction rule: consume_packets.raw_induct [rotated, consumes 1])
    case (1 rec list packet n w1 x)
    have rec: "ages w w2 \<Longrightarrow> fwds w (rec l q m w2)" for l q m w2
      by (rule result_fwd) (use 1(1) in blast)
    show ?case unfolding 1(2) [symmetric] by (auto simp: Let_def intro!: fwd_rules fwd_reads rec)
  qed
qed

lemma writev_job_fwd [fwd_rules]: "ages w w1 \<Longrightarrow> fwds w (writev_job E p list packet w1)"
proof (erule result_fwd [rotated])
  have "F = E \<longrightarrow> ages w w1 \<longrightarrow> fwds w (Some x)" if "writev_job F p list packet w1 = Some x" for F x
    using that
  proof (induction rule: writev_job.raw_induct [rotated, consumes 1])
    case (1 rec F p list packet w1 x)
    have rec: "ages w w2 \<Longrightarrow> fwds w (rec E q l r w2)" for q l r w2
      by (rule result_fwd) (use 1(1) in blast)
    show ?case unfolding 1(2) [symmetric] by (auto simp: Let_def intro!: fwd_rules fwd_reads kernel_reads rec)
  qed
  then show "ages w w1 \<longrightarrow> fwds w (Some x)" if "writev_job E p list packet w1 = Some x" for x using that by blast
qed

lemma secure_job_fwd [fwd_rules]: "ages w w1 \<Longrightarrow> fwds w (secure_job T E p list packet w1)"
proof (erule result_fwd [rotated])
  have "F = E \<longrightarrow> ages w w1 \<longrightarrow> fwds w (Some x)" if "secure_job T F p list packet w1 = Some x" for F x
    using that
  proof (induction rule: secure_job.raw_induct [rotated, consumes 1])
    case (1 rec T F p list packet w1 x)
    have rec: "ages w w2 \<Longrightarrow> fwds w (rec U E q l r w2)" for U q l r w2
      by (rule result_fwd) (use 1(1) in blast)
    show ?case unfolding 1(2) [symmetric] by (auto split: ssl_end.splits intro!: fwd_rules fwd_reads rec)
  qed
  then show "ages w w1 \<longrightarrow> fwds w (Some x)" if "secure_job T E p list packet w1 = Some x" for x using that by blast
qed

lemma run_job_fwd [fwd_rules]: "ages w w1 \<Longrightarrow> fwds w (run_job E p job w1)"
  unfolding run_job_def Let_def by (auto split: option.splits intro!: fwd_rules fwd_reads kernel_reads)

lemma finish_job_fwd [fwd_rules]: "ages w w1 \<Longrightarrow> fwds w (finish_job p job w1)"
  unfolding finish_job_def by (auto intro!: fwd_rules fwd_reads)

lemma option_fwd [fwd_rules]:
  "(\<And>x. r = Some x \<Longrightarrow> fwds w (a x)) \<Longrightarrow> (r = None \<Longrightarrow> fwds w b) \<Longrightarrow> fwds w (case r of None \<Rightarrow> b | Some x \<Rightarrow> a x)"
  by (cases r) simp_all

lemma job_loop_fwd [fwd_rules]: "ages w w1 \<Longrightarrow> fwds w (job_loop E p job n w1)"
proof (erule result_fwd [rotated])
  have "F = E \<longrightarrow> ages w w1 \<longrightarrow> fwds w (Some x)" if "job_loop F p job n w1 = Some x" for F x
    using that
  proof (induction rule: job_loop.raw_induct [rotated, consumes 1])
    case (1 rec F p job n w1 x)
    have rec: "ages w w2 \<Longrightarrow> fwds w (rec E q l r w2)" for q l r w2
      by (rule result_fwd) (use 1(1) in blast)
    show ?case unfolding 1(2) [symmetric] by (auto intro!: fwd_rules fwd_reads rec)
  qed
  then show "ages w w1 \<longrightarrow> fwds w (Some x)" if "job_loop E p job n w1 = Some x" for x using that by blast
qed

lemma do_jobs_fwd [fwd_rules]: "ages w w1 \<Longrightarrow> fwds w (ape_socket_do_jobs E p w1)"
  unfolding ape_socket_do_jobs_def by (auto intro!: fwd_rules fwd_reads)

lemma read_loop_fwd [fwd_rules]: "ages w w1 \<Longrightarrow> fwds w (read_loop E p w1)"
proof (erule result_fwd [rotated])
  have "F = E \<longrightarrow> ages w w1 \<longrightarrow> fwds w (Some x)" if "read_loop F p w1 = Some x" for F x
    using that
  proof (induction rule: read_loop.raw_induct [rotated, consumes 1])
    case (1 rec F p w1 x)
    have rec: "ages w w2 \<Longrightarrow> fwds w (rec E q w2)" for q w2
      by (rule result_fwd) (use 1(1) in blast)
    show ?case unfolding 1(2) [symmetric]
      by (auto simp: Let_def split: option.splits intro!: fwd_rules fwd_reads kernel_reads rec)
  qed
  then show "ages w w1 \<longrightarrow> fwds w (Some x)" if "read_loop E p w1 = Some x" for x using that by blast
qed

lemma connected_ssl_fwd [fwd_rules]: "ages w w1 \<Longrightarrow> fwd w (connected_ssl E p w1)"
  unfolding connected_ssl_def by (auto split: option.splits intro!: fwd_rules fwd_reads kernel_reads)

lemma connected_fwd [fwd_rules]: "ages w w1 \<Longrightarrow> fwds w (ape_socket_connected E p w1)"
  by (auto simp: ape_socket_connected_def intro!: fwd_rules fwd_reads env_rules)

lemma deliver_fwd [fwd_rules]: "ages w w1 \<Longrightarrow> fwd w (deliver E p w1)"
  unfolding deliver_def by (auto intro!: fwd_rules fwd_reads env_rules)

lemma read_fwd [fwd_rules]: "ages w w1 \<Longrightarrow> fwds w (ape_socket_read E p w1)"
  unfolding ape_socket_read_def
  by (auto split: option.splits intro!: fwd_rules fwd_reads)

lemma read_udp_fwd [fwd_rules]: "ages w w1 \<Longrightarrow> fwds w (ape_socket_read_udp E p w1)"
proof (erule result_fwd [rotated])
  have "F = E \<longrightarrow> ages w w1 \<longrightarrow> fwds w (Some x)" if "ape_socket_read_udp F p w1 = Some x" for F x
    using that
  proof (induction rule: ape_socket_read_udp.raw_induct [rotated, consumes 1])
    case (1 rec F p w1 x)
    have rec: "ages w w2 \<Longrightarrow> fwds w (rec E q w2)" for q w2
      by (rule result_fwd) (use 1(1) in blast)
    show ?case unfolding 1(2) [symmetric]
      by (auto simp: Let_def split: prod.splits intro!: fwd_rules fwd_reads env_rules rec)
  qed
  then show "ages w w1 \<longrightarrow> fwds w (Some x)" if "ape_socket_read_udp E p w1 = Some x" for x using that by blast
qed

lemma new_fwd [fwd_rules]: "ages w w1 \<Longrightarrow> fwds w (APE_socket_new E pt fd w1)"
  unfolding APE_socket_new_def ape_init_job_list_def Let_def
  by (auto simp: fwds_def ages_def split: prod.splits if_splits Option.bind_splits)

lemma new_pending:
  assumes "APE_socket_new E pt fd w = Some (c, w1)" and "sock c w1 = Some s"
  shows "sk_state s = APE_SOCKET_ST_PENDING"
  using assms unfolding APE_socket_new_def Let_def
  by (auto simp: sock_def new_socket_def split: prod.splits if_splits Option.bind_splits)

lemma accept_client_fwd [fwd_rules]: "ages w w1 \<Longrightarrow> fwd w (accept_client E p fd addr w1)"
  unfolding accept_client_def
  by (auto intro!: fwd_rules fwd_reads kernel_reads env_rules dest: new_pending)

lemma accept_fwd [fwd_rules]: "ages w w1 \<Longrightarrow> fwds w (ape_socket_accept E p w1)"
proof (erule result_fwd [rotated])
  have "F = E \<longrightarrow> ages w w1 \<longrightarrow> fwds w (Some x)" if "ape_socket_accept F p w1 = Some x" for F x
    using that
  proof (induction rule: ape_socket_accept.raw_induct [rotated, consumes 1])
    case (1 rec F p w1 x)
    have rec: "ages w w2 \<Longrightarrow> fwds w (rec E q w2)" for q w2
      by (rule result_fwd) (use 1(1) in blast)
    show ?case unfolding 1(2) [symmetric]
      by (auto simp: Let_def split: prod.splits intro!: fwd_rules fwd_reads rec)
  qed
  then show "ages w w1 \<longrightarrow> fwds w (Some x)" if "ape_socket_accept E p w1 = Some x" for x using that by blast
qed

text \<open>The rest of the interface. Listening and connecting are for a socket that is new.\<close>

lemma writev_fwd [fwd_rules]: "ages w w1 \<Longrightarrow> fwds w (APE_socket_writev E p iov w1)"
  unfolding APE_socket_writev_def Let_def by (auto split: prod.splits intro!: fwd_rules fwd_reads)

lemma job_set_fd_fwd [fwd_rules]: "ages w w1 \<Longrightarrow> fwd w (job_set_fd job fd w1)"
  by (auto simp: job_set_fd_def fwd_def split: Option.bind_splits)

lemma sendfile_fwd [fwd_rules]: "ages w w1 \<Longrightarrow> fwds w (APE_sendfile E p file w1)"
  unfolding APE_sendfile_def Let_def
  by (auto split: prod.splits intro!: fwd_rules fwd_reads kernel_reads)

lemma shutdown_delay_fwd [fwd_rules]: "ages w w1 \<Longrightarrow> fwd w (APE_socket_shutdown_delay p ms w1)"
  unfolding APE_socket_shutdown_delay_def by (auto intro!: fwd_rules fwd_reads)

lemma settings_fwd [fwd_rules]:
  "ages w w1 \<Longrightarrow> fwd w (APE_socket_setBufferMaxSize p mb w1)" "ages w w1 \<Longrightarrow> fwd w (APE_socket_remove_callbacks p w1)"
  "ages w w1 \<Longrightarrow> fwds w (APE_socket_setTimeout E p secs w1)" "ages w w1 \<Longrightarrow> fwds w (ape_socket_write_udp E p bs ip port w1)"
  unfolding APE_socket_setBufferMaxSize_def APE_socket_remove_callbacks_def APE_socket_setTimeout_def ape_socket_write_udp_def Let_def
  by (auto split: prod.splits intro!: fwd_rules fwd_reads)

lemma async_fwd [fwd_rules]: "ages w w1 \<Longrightarrow> fwd w (Some (snd (APE_async cb x w1)))" for w1 :: "('b, 'k) ape_net"
  by (auto simp: APE_async_def fwd_def)

lemma clearbyid_fwd [fwd_rules]: "ages w w1 \<Longrightarrow> fwd w (APE_timer_clearbyid i force w1)" for w1 :: "('b, 'k) ape_net"
  by (auto simp: APE_timer_clearbyid_def upd_timer_def fwd_def split: Option.bind_splits if_splits)

lemma upd_new_fwd: "ages w w1 \<Longrightarrow> nbrk w \<le> p \<Longrightarrow> fwd w (upd_sock p f w1)"
  by (auto simp: fwd_def upd_sock_def ages_def wr_eq_Some split: Option.bind_splits)

lemma listen_fwd: "ages w w1 \<Longrightarrow> nbrk w \<le> p \<Longrightarrow> fwds w (APE_socket_listen E p port ip d r w1)"
  unfolding APE_socket_listen_def Let_def
  by (auto split: prod.splits intro!: fwd_rules fwd_reads upd_new_fwd)

lemma ready_fwd: "ages w w1 \<Longrightarrow> nbrk w \<le> p \<Longrightarrow> fwds w (ape_socket_connect_ready_to_connect E ip p st w1)"
  unfolding ape_socket_connect_ready_to_connect_def Let_def
  by (auto split: prod.splits intro!: fwd_rules fwd_reads upd_new_fwd)

lemma net_dns_fwd: "ages w w1 \<Longrightarrow> nbrk w \<le> p \<Longrightarrow> fwd w (net_dns E FN_ready_to_connect ip p st w1)"
  by (auto simp: net_dns_def intro!: fwd_rules ready_fwd)

lemma gethost_fwd:
  assumes "inet_pton (nsys E) host" and "ages w w1" and "nbrk w \<le> p"
  shows "fwds w (ape_gethostbyname E (net_dns E) host FN_ready_to_connect p w1)"
  using assms by (auto simp: ape_gethostbyname_def intro!: fwd_rules net_dns_fwd)

lemma connect_fwd:
  assumes "inet_pton (nsys E) host" and "ages w w1" and "nbrk w \<le> p"
  shows "fwds w (APE_socket_connect E p port host lport sni w1)"
  unfolding APE_socket_connect_def Let_def using assms
  by (auto split: prod.splits option.splits intro!: fwd_rules fwd_reads upd_new_fwd gethost_fwd ready_fwd dest: ages_malloc)

lemma server_event_fwd [fwd_rules]: "ages w w1 \<Longrightarrow> fwd w (server_event E p bits w1)"
  unfolding server_event_def by (intro fwd_rules fwd_reads)

lemma client_read_fwd [fwd_rules]: "ages w w1 \<Longrightarrow> fwds w (client_read E p bits w1)"
  unfolding client_read_def by (intro fwd_rules fwd_reads) (auto intro!: fwd_rules)

lemma client_write_fwd [fwd_rules]: "ages w w1 \<Longrightarrow> fwd w (client_write E p fd w1)"
  unfolding client_write_def Let_def
  by (intro fwd_rules fwd_reads env_rules) (auto simp: sock_def split: prod.splits intro!: fwd_rules)

lemma socket_event_fwd [fwd_rules]: "ages w w1 \<Longrightarrow> fwd w (socket_event E p bits w1)"
  unfolding socket_event_def client_event_def
  by (auto split: ape_socket_type.split intro!: fwd_rules fwd_reads)

lemma handle_event_fwd [fwd_rules]: "ages w w1 \<Longrightarrow> fwd w (handle_event E i w1)"
  unfolding handle_event_def delegate_event_def ares_io_def
  by (auto split: option.split intro!: fwd_rules fwd_reads env_rules)

lemma handle_events_fwd [fwd_rules]: "ages w w1 \<Longrightarrow> fwd w (handle_events E i n w1)"
  by (induction n arbitrary: i w1) (auto intro!: fwd_rules)

text \<open>Freeing: the cleaners, run over the slots.\<close>

definition fwd_cleaner :: "('b, 'k) ape_net \<Rightarrow> ('i \<Rightarrow> ('b, 'k) ape_net \<Rightarrow> ('b, 'k) ape_net option) \<Rightarrow> bool" where
  "fwd_cleaner w c \<longleftrightarrow> (\<forall>v w1. ages w w1 \<longrightarrow> fwd w (c v w1))"

lemma collect_fwd:
  assumes c: "fwd_cleaner w c"
  shows "destroy_collect cl pool t f h w1 = Some x \<Longrightarrow> cl = Some c \<longrightarrow> ages w w1 \<longrightarrow> ages w (snd (snd (snd x)))"
proof (induction rule: destroy_collect.raw_induct [rotated, consumes 1])
  case (1 rec cl pool t f h w1 x)
  have "cl = Some c \<Longrightarrow> x = (h, t, f, w1) \<or> (\<exists>v w2 q t' f' h'. c v w1 = Some w2 \<and> rec cl q t' f' h' w2 = Some x)"
    using 1(2) by (auto simp: run_cleaner_def split: Option.bind_splits if_splits)
  moreover have "ages w w1 \<Longrightarrow> c v w1 = Some w2 \<Longrightarrow> ages w w2" for v w2
    using c by (auto simp: fwd_def fwd_cleaner_def)
  ultimately show ?case using 1(1) by fastforce
qed

lemma destroy_pool_fwd:
  assumes c: "fwd_cleaner w c" and a: "ages w w1"
    and d: "ape_destroy_pool_with_cleaner p (Some c) w1 m = Some (w2, m2)"
  shows "ages w w2"
proof -
  obtain h t f where "destroy_collect (Some c) p NULL NULL (cells m) w1 = Some (h, t, f, w2)"
    using d by (auto simp: ape_destroy_pool_with_cleaner_def split: Option.bind_splits)
  from collect_fwd [OF c this] show ?thesis using a by simp
qed

lemma packet_cleaner_fwd: "fwd_cleaner w ape_socket_packet_pool_cleaner"
  by (auto simp: fwd_cleaner_def ape_socket_packet_pool_cleaner_def intro!: fwd_rules)

lemma job_cleaner_fwd: "fwd_cleaner w (ape_socket_job_pool_cleaner E)"
  using destroy_pool_fwd [OF packet_cleaner_fwd]
  by (auto simp: fwd_cleaner_def ape_socket_job_pool_cleaner_def ape_destroy_pool_list_with_cleaner_def fwd_def
      split: Option.bind_splits if_splits)

text \<open>Timers, with a caller that moves forward.\<close>

definition fwd_call :: "('b, 'k) ape_net \<Rightarrow> ('b, 'k) net_caller \<Rightarrow> bool" where
  "fwd_call w call \<longleftrightarrow> (\<forall>f x w1. ages w w1 \<longrightarrow> fwds w (call f x w1))"

lemma call_ptr_fwd [fwd_rules]: "fwd_call w call \<Longrightarrow> ages w w1 \<Longrightarrow> fwds w (call_ptr call f x w1)"
  by (auto simp: fwd_call_def call_ptr_def intro!: fwd_rules)

lemma timer_destroy_fwd [fwd_rules]: "fwd_call w call \<Longrightarrow> ages w w1 \<Longrightarrow> fwds w (ape_timer_destroy call p w1)"
  unfolding ape_timer_destroy_def Let_def
  by (auto split: prod.splits intro!: fwd_rules fwd_reads fwd_read [where m = "dll_unlink a b c d e f g" for a b c d e f g])

lemma destroy_jobs_fwd:
  "ages w w1 \<Longrightarrow> (\<And>w2 m2. ages w w2 \<Longrightarrow> fwds w (f w2 m2))
    \<Longrightarrow> fwds w (Option.bind (ape_destroy_pool_with_cleaner p (Some (ape_socket_job_pool_cleaner E)) w1 m) (\<lambda>(w2, m2). f w2 m2))"
  using destroy_pool_fwd [OF job_cleaner_fwd]
  by (cases "ape_destroy_pool_with_cleaner p (Some (ape_socket_job_pool_cleaner E)) w1 m") (auto simp: fwd_None)

lemma socket_free_fwd [fwd_rules]: "fwd_call w call \<Longrightarrow> ages w w1 \<Longrightarrow> fwds w (ape_socket_free E call p w1)"
  unfolding ape_socket_free_def APE_timer_destroy_def Let_def
  by (intro fwd_rules fwd_reads destroy_jobs_fwd) (auto simp: dealloc_eq_Some ages_alloc)

lemma destroy_cb_fwd [fwd_rules]: "fwd_call w call \<Longrightarrow> ages w w1 \<Longrightarrow> fwds w (socket_destroy_cb E call p w1)"
  unfolding socket_destroy_cb_def by (intro fwd_rules fwd_reads)

lemma net_call_fwd: "fwd_call w (net_call E n)"
proof (induction n)
  case (Suc n)
  have "fwds w (net_call E (Suc n) f x w1)" if "ages w w1" for f x w1
    unfolding net_call.simps using Suc that by (intro fwd_rules env_rules)
  then show ?case by (simp add: fwd_call_def)
qed (simp add: fwd_call_def fwd_None)

lemma async_loop_fwd:
  assumes c: "fwd_call w call" and a: "ages w w1"
  shows "fwd w (process_async_loop call p w1)"
proof -
  have "call' = call \<longrightarrow> ages w w1 \<longrightarrow> ages w x" if "process_async_loop call' p w1 = Some x" for call' x
    using that
  proof (induction rule: process_async_loop.raw_induct [rotated, consumes 1])
    case (1 rec call' p w1 x)
    have rec: "ages w w2 \<Longrightarrow> fwd w (rec call q w2)" for q w2
      using 1(1) by (auto simp: fwd_def)
    have "call' = call \<longrightarrow> ages w w1 \<longrightarrow> fwd w (Some x)" unfolding 1(2) [symmetric]
      using c by (auto intro!: fwd_rules fwd_reads rec)
    then show ?case by (simp add: fwd_def)
  qed
  then show ?thesis using a by (auto simp: fwd_def)
qed

lemma process_timer_fwd:
  assumes "fwd_call w call" and "ages w w1" and "process_timer call p i l w1 = Some (q, j, m, w2)"
  shows "ages w w2"
proof -
  have d: "ape_timer_destroy call p w3 = Some (q, w2) \<Longrightarrow> ages w w3 \<Longrightarrow> ages w w2" for w3
    using timer_destroy_fwd [OF assms(1)] by (auto simp: fwds_def)
  have c: "call_ptr call f x w3 = Some (r, w4) \<Longrightarrow> ages w w3 \<Longrightarrow> ages w w4" for f x w3 r w4
    using call_ptr_fwd [OF assms(1)] by (auto simp: fwds_def)
  show ?thesis using assms(2,3)
    by (auto simp: process_timer_def mach_absolute_time_def upd_timer_def Let_def dest!: d c split: Option.bind_splits if_splits)
qed

lemma process_loop_fwd:
  assumes c: "fwd_call w call"
  shows "process_loop call p i l w1 = Some (j, m, w2) \<Longrightarrow> ages w w1 \<Longrightarrow> ages w w2"
proof -
  have "call' = call \<longrightarrow> ages w w1 \<longrightarrow> ages w (snd (snd x))" if "process_loop call' p i l w1 = Some x" for call' x
    using that
  proof (induction rule: process_loop.raw_induct [rotated, consumes 1])
    case (1 rec call' p i l w1 x)
    consider "x = (i, l, w1)"
      | q i' l' w2 where "process_timer call' p i l w1 = Some (q, i', l', w2)" "rec call' q i' l' w2 = Some x"
      using 1(2) by (auto split: Option.bind_splits if_splits)
    then show ?case
    proof cases
      case 2
      show ?thesis
      proof (intro impI)
        assume e: "call' = call" and "ages w w1"
        then have "ages w w2" using 2(1) process_timer_fwd [OF c] by blast
        then show "ages w (snd (snd x))" using 1(1) [OF 2(2)] e by blast
      qed
    qed simp
  qed
  then show "process_loop call p i l w1 = Some (j, m, w2) \<Longrightarrow> ages w w1 \<Longrightarrow> ages w w2" by fastforce
qed

lemma timers_process_fwd [fwd_rules]:
  assumes "fwd_call w call" and "ages w w1"
  shows "fwds w (ape_timers_process call w1)"
proof -
  have a: "process_async call w2 = Some w3 \<Longrightarrow> ages w w2 \<Longrightarrow> ages w w3" for w2 w3
    using async_loop_fwd [OF assms(1), of "w2\<lparr>head_async := NULL\<rparr>" "head_async w2"]
    by (auto simp: process_async_def fwd_def)
  show ?thesis using assms(2)
    by (auto simp: fwds_def ape_timers_process_def Let_def mach_absolute_time_def
        dest!: a process_loop_fwd [OF assms(1)] split: Option.bind_splits if_splits prod.splits)
qed

lemma loop_pass_fwd [fwd_rules]: "ages w w1 \<Longrightarrow> fwds w (loop_pass E depth t w1)"
  unfolding loop_pass_def
  by (auto intro!: fwd_rules net_call_fwd fwd_read [where m = "m :: 'b fdevent option" for m])

lemma kill_fwd: "user_kill E f w = Some (r, w1) \<Longrightarrow> ages w w1"
  using user_kill_fwd [of w w] by (simp add: fwds_def)

end

section \<open>The user's code\<close>

text \<open>
  One call of the library. Sockets are made together with their first use, as a server or as a client
  that connects to a numeric address or a path: looking a host name up is left out. A callback has
  blocks of its own, and \<open>User_own\<close> is what else it does to the state outside the library.
\<close>

datatype 'k user_call =
    User_write ptr ptr nat ape_socket_data_autorelease
  | User_writev ptr "byte list list"
  | User_sendfile ptr "byte list"
  | User_write_udp ptr "byte list" "byte list" uint16
  | User_shutdown ptr
  | User_shutdown_now ptr
  | User_shutdown_delay ptr int
  | User_destroy ptr
  | User_buffer_max ptr uint64
  | User_timeout ptr int
  | User_remove_callbacks ptr
  | User_callbacks ptr ape_socket_callbacks
  | User_ssl ptr ptr
  | User_serve ape_socket_proto uint16 "byte list" bool int
  | User_connect ape_socket_proto uint16 "byte list" uint16 "byte list option"
  | User_timer int ptr ptr
  | User_async ptr ptr
  | User_clear uint64 bool
  | User_malloc "byte list"
  | User_free ptr
  | User_stop
  | User_own "'k \<Rightarrow> 'k"

fun run_call :: "('b, 'k) env \<Rightarrow> 'k user_call \<Rightarrow> ('b, 'k) ape_net \<Rightarrow> ('b, 'k) ape_net option" where
  "run_call E (User_write p d n ty) w = map_option snd (APE_socket_write E p d n ty w)"
| "run_call E (User_writev p iov) w = map_option snd (APE_socket_writev E p iov w)"
| "run_call E (User_sendfile p file) w = map_option snd (APE_sendfile E p file w)"
| "run_call E (User_write_udp p bs ip port) w = map_option snd (ape_socket_write_udp E p bs ip port w)"
| "run_call E (User_shutdown p) w = APE_socket_shutdown E p w"
| "run_call E (User_shutdown_now p) w = APE_socket_shutdown_now E p w"
| "run_call E (User_shutdown_delay p ms) w = APE_socket_shutdown_delay p ms w"
| "run_call E (User_destroy p) w = map_option snd (ape_socket_destroy E p w)"
| "run_call E (User_buffer_max p mb) w = APE_socket_setBufferMaxSize p mb w"
| "run_call E (User_timeout p secs) w = map_option snd (APE_socket_setTimeout E p secs w)"
| "run_call E (User_remove_callbacks p) w = APE_socket_remove_callbacks p w"
| "run_call E (User_callbacks p cbs) w = upd_sock p (\<lambda>s. s\<lparr>callbacks := cbs\<rparr>) w"
| "run_call E (User_ssl p c) w = upd_sock p (\<lambda>s. s\<lparr>ssl_ptr := c\<rparr>) w"
| "run_call E (User_serve pt port ip defer reuse) w = do {
     (c, w1) \<leftarrow> APE_socket_new E pt 0 w;
     if c = NULL then Some w1 else map_option snd (APE_socket_listen E c port ip defer reuse w1) }"
| "run_call E (User_connect pt port host lport sni) w =
     (if \<not> inet_pton (nsys E) host then None
      else do {
        (c, w1) \<leftarrow> APE_socket_new E pt 0 w;
        if c = NULL then Some w1 else map_option snd (APE_socket_connect E c port host lport sni w1) })"
| "run_call E (User_timer ms f x) w = map_option snd (APE_timer_create ms f x w)"
| "run_call E (User_async f x) w = Some (snd (APE_async f x w))"
| "run_call E (User_clear i force) w = APE_timer_clearbyid i force w"
| "run_call E (User_malloc bs) w = Some (snd (malloc_data bs w))"
| "run_call E (User_free d) w = free_data d w"
| "run_call E User_stop w = Some (APE_loop_stop w)"
| "run_call E (User_own f) w = Some (on_kernel f w)"

text \<open>A script: each call is chosen from the state it is made in.\<close>

type_synonym ('b, 'k) calls = "(('b, 'k) ape_net \<Rightarrow> 'k user_call) list"

primrec run_calls :: "('b, 'k) env \<Rightarrow> ('b, 'k) calls \<Rightarrow> ('b, 'k) ape_net \<Rightarrow> ('b, 'k) ape_net option" where
  "run_calls E [] w = Some w"
| "run_calls E (c # cs) w = do { w1 \<leftarrow> run_call E (c w) w; run_calls E cs w1 }"

text \<open>c-ares, with no lookup on the way: it has its descriptors watched or no longer.\<close>

primrec watch_calls :: "('b, 'k) env \<Rightarrow> (int \<times> bool \<times> bool) list \<Rightarrow> ('b, 'k) ape_net \<Rightarrow> ('b, 'k) ape_net option" where
  "watch_calls E [] w = Some w"
| "watch_calls E (q # qs) w = do { w1 \<leftarrow> ares_socket_cb E (fst q) (fst (snd q)) (snd (snd q)) w; watch_calls E qs w1 }"

record ('b, 'k) user_code =
  at_event :: "sock_event \<Rightarrow> ('b, 'k) ape_net \<Rightarrow> ('b, 'k) calls"
  at_timer :: "ptr \<Rightarrow> ptr \<Rightarrow> ('b, 'k) ape_net \<Rightarrow> int \<times> ('b, 'k) calls"
  at_io :: "ptr \<Rightarrow> int \<Rightarrow> uint32 \<Rightarrow> ptr \<Rightarrow> ('b, 'k) ape_net \<Rightarrow> ('b, 'k) calls"
  at_kill :: "ptr \<Rightarrow> ('b, 'k) ape_net \<Rightarrow> int \<times> ('b, 'k) calls"
  at_ares :: "int \<Rightarrow> int \<Rightarrow> ('b, 'k) ape_net \<Rightarrow> (int \<times> bool \<times> bool) list"

text \<open>The calls of a script call back in turn: \<open>n\<close> bounds how deep.\<close>

primrec user_env :: "('b, 'k) env \<Rightarrow> ('b, 'k) user_code \<Rightarrow> nat \<Rightarrow> ('b, 'k) env" where
  "user_env E U 0 = E\<lparr>on_event := (\<lambda>ev w. None), user_timer := (\<lambda>f x w. None), user_io := (\<lambda>f fd bits x w. None),
     user_kill := (\<lambda>f w. None), ares_process_fd := (\<lambda>rfd wfd w. None)\<rparr>"
| "user_env E U (Suc n) = E\<lparr>on_event := (\<lambda>ev w. run_calls (user_env E U n) (at_event U ev w) w),
     user_timer := (\<lambda>f x w. map_option (Pair (fst (at_timer U f x w))) (run_calls (user_env E U n) (snd (at_timer U f x w)) w)),
     user_io := (\<lambda>f fd bits x w. run_calls (user_env E U n) (at_io U f fd bits x w) w),
     user_kill := (\<lambda>f w. map_option (Pair (fst (at_kill U f w))) (run_calls (user_env E U n) (snd (at_kill U f w)) w)),
     ares_process_fd := (\<lambda>rfd wfd w. watch_calls (user_env E U n) (at_ares U rfd wfd w) w)\<rparr>"

lemma new_brk:
  assumes "APE_socket_new E pt fd w = Some (c, w1)" and "c \<noteq> NULL"
  shows "nbrk w \<le> c"
  using assms unfolding APE_socket_new_def Let_def ape_init_job_list_def
  by (auto split: prod.splits if_splits Option.bind_splits)

lemma fwds_pair: "fwd w m \<Longrightarrow> fwds w (map_option (Pair r) m)"
  by (auto simp: fwd_def fwds_def)

context forward_env
begin

lemma made_fwd:
  assumes "ages w w1" and "\<And>c w2. ages w w2 \<Longrightarrow> nbrk w \<le> c \<Longrightarrow> fwds w (f c w2)"
  shows "fwd w (do { (c, w2) \<leftarrow> APE_socket_new E pt fd w1; if c = NULL then Some w2 else map_option snd (f c w2) })"
proof (intro fwd_bind(3) new_fwd fwd_if fwd_Some fwd_snd assms)
  fix c w2 assume "APE_socket_new E pt fd w1 = Some (c, w2)" and "c \<noteq> NULL"
  then have "nbrk w1 \<le> c" by (rule new_brk)
  then show "nbrk w \<le> c" using assms(1) by (simp add: ages_def)
qed

lemma call_fwd: "ages w w1 \<Longrightarrow> fwd w (run_call E c w1)"
proof (cases c)
  case User_serve
  then show "ages w w1 \<Longrightarrow> ?thesis" by (simp only: run_call.simps) (rule made_fwd, assumption, rule listen_fwd)
next
  case User_connect
  then show "ages w w1 \<Longrightarrow> ?thesis" by (simp only: run_call.simps) (intro fwd_if fwd_None made_fwd connect_fwd; simp)
next
  case (User_malloc bs)
  then show "ages w w1 \<Longrightarrow> ?thesis" by (cases "malloc_data bs w1") (auto intro!: fwd_rules dest: ages_malloc)
qed (auto simp: APE_loop_stop_def intro!: fwd_rules)

lemma calls_fwd: "ages w w1 \<Longrightarrow> fwd w (run_calls E cs w1)"
  by (induction cs arbitrary: w1) (auto intro!: fwd_rules call_fwd)

lemma ares_cb_fwd: "ages w w1 \<Longrightarrow> fwd w (ares_socket_cb E fd r v w1)"
  by (auto simp: ares_socket_cb_def Let_def split: sum.splits intro!: fwd_rules)

lemma watch_fwd: "ages w w1 \<Longrightarrow> fwd w (watch_calls E qs w1)"
  by (induction qs arbitrary: w1) (auto intro!: fwd_rules ares_cb_fwd)

end

text \<open>So every script, to any depth, only moves forward.\<close>

lemma user_forward: "forward_env (user_env E U n)"
proof (induction n)
  case 0
  show ?case by unfold_locales (simp_all add: fwd_None)
next
  case (Suc n)
  show ?case
    by unfold_locales
      (simp_all add: fwds_pair forward_env.calls_fwd [OF Suc] forward_env.watch_fwd [OF Suc])
qed

interpretation users: forward_env "user_env E U n"
  by (rule user_forward)

section \<open>Any number of passes\<close>

inductive loop_reaches :: "('b, 'k) env \<Rightarrow> nat \<Rightarrow> int \<Rightarrow> ('b, 'k) ape_net \<Rightarrow> int \<Rightarrow> ('b, 'k) ape_net \<Rightarrow> bool"
  for E :: "('b, 'k) env" and depth and t0 and w0 where
  reach_start: "loop_reaches E depth t0 w0 t0 w0"
| reach_pass: "loop_reaches E depth t0 w0 t w \<Longrightarrow> is_running w \<Longrightarrow> ape_running w \<Longrightarrow> loop_pass E depth t w = Some (t1, w1)
    \<Longrightarrow> loop_reaches E depth t0 w0 t1 w1"
| reach_kill: "loop_reaches E depth t0 w0 t w \<Longrightarrow> is_running w \<Longrightarrow> \<not> ape_running w \<Longrightarrow> kill_handler w \<noteq> NULL
    \<Longrightarrow> user_kill E (kill_handler w) w = Some (r, w1)
    \<Longrightarrow> loop_reaches E depth t0 w0 t (if r \<noteq> 0 then w1\<lparr>ape_running := True\<rparr> else w1)"

text \<open>These are the states of \<open>event_loop\<close>, the last included if it ends.\<close>

lemma loop_reaches_first:
  assumes "loop_reaches E depth t1 w1 t2 w2" and "loop_reaches E depth t0 w0 t1 w1"
  shows "loop_reaches E depth t0 w0 t2 w2"
  using assms
proof (induction rule: loop_reaches.induct)
  case (reach_pass t w t2 w2)
  then show ?case using loop_reaches.reach_pass by blast
next
  case (reach_kill t w r w2)
  then show ?case using loop_reaches.reach_kill by blast
qed

lemma event_loop_reaches: "event_loop E depth t w = Some w' \<Longrightarrow> \<exists>t'. loop_reaches E depth t w t' w'"
proof (induction rule: event_loop.raw_induct [rotated, consumes 1])
  case (1 rec E depth t w w')
  consider "w' = w" | t1 w1 where "is_running w" "ape_running w" "loop_pass E depth t w = Some (t1, w1)" "rec E depth t1 w1 = Some w'"
    | r w1 where "is_running w" "\<not> ape_running w" "kill_handler w \<noteq> NULL" "user_kill E (kill_handler w) w = Some (r, w1)" "r = 0" "w' = w1"
    | r w1 where "is_running w" "\<not> ape_running w" "kill_handler w \<noteq> NULL" "user_kill E (kill_handler w) w = Some (r, w1)" "r \<noteq> 0"
        "rec E depth t (w1\<lparr>ape_running := True\<rparr>) = Some w'"
    using 1(2) by (auto split: Option.bind_splits if_splits)
  then show ?case
  proof cases
    case 1
    then show ?thesis by (auto intro: reach_start)
  next
    case 2
    obtain t' where "loop_reaches E depth t1 w1 t' w'" using 1(1) [OF 2(4)] by blast
    then have "loop_reaches E depth t w t' w'"
      by (rule loop_reaches_first) (rule reach_pass [OF reach_start 2(1-3)])
    then show ?thesis by blast
  next
    case 3
    then show ?thesis using reach_kill [OF reach_start 3(1-4), where t = t] by auto
  next
    case 4
    obtain t' where "loop_reaches E depth t (w1\<lparr>ape_running := True\<rparr>) t' w'" using 1(1) [OF 4(6)] by blast
    then have "loop_reaches E depth t w t' w'"
      by (rule loop_reaches_first) (use reach_kill [OF reach_start 4(1-4), where t = t] 4(5) in simp)
    then show ?thesis by blast
  qed
qed

context forward_env
begin

lemma reaches_fwd: "loop_reaches E depth t w t' w' \<Longrightarrow> ages w w'"
proof (induction rule: loop_reaches.induct)
  case (reach_pass t w1 t1 w2)
  then show ?case using loop_pass_fwd [of w w1 depth t] by (simp add: fwds_def)
next
  case (reach_kill t w1 r w2)
  then show ?case using user_kill_fwd [of w w1] by (simp add: fwds_def)
qed simp

end

section \<open>The property\<close>

text \<open>C14: Over any number of passes of the event loop, whatever the descriptors report and the kernel answers,
  and whatever calls of the library the user's code makes in its callbacks, a socket only moves forward through
  pending, in progress, online, shutting down and offline, or is freed: one that is being shut down or is
  closed is never used as an open one again. The user's code may make and use sockets, timers and blocks of its own
  as it likes, its calls nested to any depth \<open>n\<close>; it listens and connects only on
  sockets that are new, and looks no host name up, so that c-ares has only descriptors to watch.\<close>

theorem sockets_never_reopen:
  assumes "loop_reaches (user_env E U n) depth t w t' w'" and "p < nbrk w" and "sock p w' = Some s'"
  shows "\<exists>s. sock p w = Some s \<and> sk_state s \<le> sk_state s'"
  using users.reaches_fwd [OF assms(1)] assms(2,3) by (auto simp: ages_def sock_def rd_Some_iff)

text \<open>A user whose timer shuts the socket 50 down, starts another timer and tries to write on the socket.\<close>

definition leaver :: "(unit, tcp) user_code" where
  "leaver = \<lparr>at_event = (\<lambda>ev w. []), at_timer = (\<lambda>f x w. (0, [\<lambda>w. User_shutdown 50, \<lambda>w. User_timer 5 21 0, \<lambda>w. User_write 50 7 3 APE_DATA_STATIC])),
     at_io = (\<lambda>f fd bits x w. []), at_kill = (\<lambda>f w. (0, [])), at_ares = (\<lambda>rfd wfd w. [])\<rparr>"

definition leaving0 :: "(unit, tcp) ape_net option" where
  "leaving0 = map_option snd (APE_timer_create 0 20 0 (connected0 APE_POOL_ALLOC tcp0))"

definition leaver_env :: "(unit, tcp) env" where
  "leaver_env = user_env (env_of tcp_sys) leaver 1"

theorem sockets_never_reopen_witness:
  "\<exists>w t' w' s s'. leaving0 = Some w \<and> loop_reaches leaver_env 3 1 w t' w' \<and> sock 50 w' = Some s'
     \<and> sk_state s' = APE_SOCKET_ST_SHUTDOWN \<and> sock 50 w = Some s \<and> sk_state s \<le> sk_state s'"
proof -
  have e: "map_option (\<lambda>w. (nbrk w, is_running w, ape_running w,
        map_option (\<lambda>(t, w'). map_option sk_state (sock 50 w')) (loop_pass leaver_env 3 1 w))) leaving0
      = Some (100, True, True, Some (Some APE_SOCKET_ST_SHUTDOWN))"
    by code_simp
  then obtain w t' w' s' where w: "leaving0 = Some w" "nbrk w = 100" "is_running w" "ape_running w"
    "loop_pass leaver_env 3 1 w = Some (t', w')" "sock 50 w' = Some s'" "sk_state s' = APE_SOCKET_ST_SHUTDOWN"
    by auto
  have r: "loop_reaches leaver_env 3 1 w t' w'" by (rule reach_pass [OF reach_start w(3-5)])
  then have "\<exists>s. sock 50 w = Some s \<and> sk_state s \<le> sk_state s'"
    using sockets_never_reopen [OF r [unfolded leaver_env_def] _ w(6)] w(2) by simp
  then show ?thesis using w r by blast
qed

end
