(* ===== verification/Free_Props.thy ===== *)
theory Free_Props
  imports Queue_Props Demo
begin

unbundle bit_operations_syntax

text \<open>
  Freeing a socket, whatever is still queued: nothing faults, and the data of every packet is freed
  once. The list of packets itself is only freed while its job is waiting.
\<close>

section \<open>The packets\<close>

lemma clean_all_append:
  "clean_all cl h (as @ bs) s = do { s1 \<leftarrow> clean_all cl h as s; clean_all cl h bs s1 }"
  by (induction as arbitrary: s) (simp_all split: Option.bind_splits)

lemma clean_spare:
  "\<forall>a \<in> set ys. spare h a \<Longrightarrow> clean_all (Some ape_socket_packet_pool_cleaner) h ys w = Some w"
  by (induction ys) (auto simp: spare_def run_cleaner_def ape_socket_packet_pool_cleaner_def)

lemma clean_packets:
  assumes "list_all2 (packet_at (data_mem w) h) xs ps" and "distinct (map fst ps)"
  shows "clean_all (Some ape_socket_packet_pool_cleaner) h xs w
     = Some (w\<lparr>total_memory_buffered := total_memory_buffered w - of_nat (length (bytes_of ps)),
              data_mem := without (set (map fst ps)) (data_mem w)\<rparr>)"
  using assms
proof (induction ps arbitrary: xs w rule: list.induct)
  case (Cons q ps)
  obtain a xs' where xs: "xs = a # xs'" "packet_at (data_mem w) h a q" "list_all2 (packet_at (data_mem w) h) xs' ps"
    using Cons.prems(1) by (cases xs) auto
  obtain v bs where v: "rd h a = Some v" "pdata v = fst q" "data_type v = APE_DATA_COPY" "rd (data_mem w) (fst q) = Some bs"
    "plen v = length bs" "poffset v < length bs" "snd q = drop (poffset v) bs" using xs(2) by (auto simp: packet_at_def)
  have d0: "fst q \<noteq> NULL" using v(4) by auto
  have n: "of_nat (plen v) - of_nat (poffset v) = (of_nat (length (snd q)) :: uint64)" using v(5-7) by (simp add: of_nat_diff)
  let ?w = "w\<lparr>total_memory_buffered := total_memory_buffered w - of_nat (length (snd q)), data_mem := (data_mem w)(fst q := None)\<rparr>"
  have step: "ape_socket_packet_pool_cleaner v w = Some ?w"
    using v(2-4) d0 n by (simp add: ape_socket_packet_pool_cleaner_def ape_socket_release_data_def free_data_def)
  have "rd (data_mem ?w) d = rd (data_mem w) d" if "d \<in> set (map fst ps)" for d
    using that Cons.prems(2) by (cases "d = fst q") simp_all
  then have "list_all2 (packet_at (data_mem ?w) h) xs' ps" by (rule packets_data [OF xs(3)])
  from Cons.IH [OF this] Cons.prems(2) show ?case
    using v(1) step xs(1) by (simp add: run_cleaner_def diff_diff_eq del: fun_upd_apply)
qed simp

section \<open>The jobs\<close>

lemma clean_idle:
  "\<forall>a \<in> set as. \<exists>v. rd h a = Some v \<and> \<not> job_flag APE_SOCKET_JOB_ACTIVE v \<Longrightarrow>
    clean_all (Some (ape_socket_job_pool_cleaner E)) h as w = Some w"
  by (induction as) (auto simp: run_cleaner_def ape_socket_job_pool_cleaner_def)

text \<open>The job to write takes its list of packets with it.\<close>

lemma clean_writev:
  assumes r: "ring (pdata j) (packet_mem w) (data_mem w) ps" and j: "job_flag APE_SOCKET_JOB_ACTIVE j" "job_kind j = APE_SOCKET_JOB_WRITEV"
  shows "\<exists>pm. ape_socket_job_pool_cleaner E j w
     = Some (w\<lparr>total_memory_buffered := total_memory_buffered w - of_nat (length (bytes_of ps)),
              data_mem := without (set (map fst ps)) (data_mem w), packet_mem := pm\<rparr>)
     \<and> list_objs pm = (list_objs (packet_mem w))(pdata j := None)"
proof -
  obtain l xs ys where l: "rd (list_objs (packet_mem w)) (pdata j) = Some l" "pool_inv (pools (packet_mem w)) l (xs @ pl_current l # ys)"
    "list_all2 (packet_at (data_mem w) (cells (pools (packet_mem w)))) xs ps"
    "\<forall>a \<in> set (pl_current l # ys). spare (cells (pools (packet_mem w))) a" "distinct (map fst ps)" by (rule ringD [OF r])
  have "clean_all (Some ape_socket_packet_pool_cleaner) (cells (pools (packet_mem w))) (xs @ pl_current l # ys) w
     = Some (w\<lparr>total_memory_buffered := total_memory_buffered w - of_nat (length (bytes_of ps)),
              data_mem := without (set (map fst ps)) (data_mem w)\<rparr>)"
    unfolding clean_all_append clean_packets [OF l(3,5)] using clean_spare [OF l(4)] by simp
  from destroy_pool_spec [OF l(2) this] show ?thesis
    using l(1) j by (auto simp: ape_socket_job_pool_cleaner_def ape_destroy_pool_list_with_cleaner_def)
qed

text \<open>The whole socket.\<close>

lemma socket_free_spec:
  assumes q: "queued p w fd ps" and s1: "sock p w = Some s"
  shows "\<exists>w'. ape_socket_free E call p w = Some (0, w') \<and> sockets w' = (sockets w)(p := None)
     \<and> data_mem w' = without (set (map fst ps)) (data_mem w)
     \<and> total_memory_buffered w' = total_memory_buffered w - of_nat (length (bytes_of ps))
     \<and> (\<exists>as. pl_head (jobs s) \<in> set as \<and> (\<forall>a. cells (job_mem w') a = (if a \<in> set as then None else cells (job_mem w) a)))
     \<and> (\<exists>j. rd (cells (job_mem w)) (pl_head (jobs s)) = Some j
         \<and> list_objs (packet_mem w') = (if ps = [] then list_objs (packet_mem w) else (list_objs (packet_mem w))(pdata j := None)))"
proof -
  obtain j where j: "rd (cells (job_mem w)) (pl_head (jobs s)) = Some j" "job_pool (jobs s) (job_mem w)"
    "job_flag APE_SOCKET_JOB_ACTIVE j = (ps \<noteq> [])"
    "ps = [] \<or> job_kind j = APE_SOCKET_JOB_WRITEV \<and> ring (pdata j) (packet_mem w) (data_mem w) ps"
    using q s1 unfolding queued_def conn_def by auto
  have s: "sock p w = Some s" "delay_timer s = NULL" "remote_host s = NULL" "\<not> issecure s"
    using q s1 unfolding queued_def conn_def by auto
  obtain as where as: "pool_inv (job_mem w) (jobs s) (pl_head (jobs s) # as)"
    "\<forall>a \<in> set as. \<exists>v. rd (cells (job_mem w)) a = Some v \<and> \<not> job_flag APE_SOCKET_JOB_ACTIVE v"
    using j(2) unfolding job_pool_def idle_slot_def by blast
  have p0: "p \<noteq> NULL" "sockets w p = Some s" using s(1) by (auto simp: sock_def rd_Some_iff)
  let ?s = "s\<lparr>data_in := buffer_delete (data_in s)\<rparr>"
  let ?w1 = "w\<lparr>ndec := c_int (ndec w + 1), sockets := (sockets w)(p \<mapsto> ?s)\<rparr>"
  obtain w2 where w2: "clean_all (Some (ape_socket_job_pool_cleaner E)) (cells (job_mem w)) (pl_head (jobs s) # as) ?w1 = Some w2"
    "sockets w2 = (sockets w)(p \<mapsto> ?s)" "data_mem w2 = without (set (map fst ps)) (data_mem w)"
    "total_memory_buffered w2 = total_memory_buffered w - of_nat (length (bytes_of ps))"
    "list_objs (packet_mem w2) = (if ps = [] then list_objs (packet_mem w) else (list_objs (packet_mem w))(pdata j := None))"
  proof (cases "ps = []")
    case True
    then show ?thesis using that [of ?w1] j(1,3) clean_idle [OF as(2), of E ?w1]
      by (simp add: run_cleaner_def ape_socket_job_pool_cleaner_def)
  next
    case False
    then have "ring (pdata j) (packet_mem ?w1) (data_mem ?w1) ps" "job_kind j = APE_SOCKET_JOB_WRITEV" using j(4) by simp_all
    from clean_writev [OF this(1) _ this(2), of E] obtain pm where
      "ape_socket_job_pool_cleaner E j ?w1
        = Some (?w1\<lparr>total_memory_buffered := total_memory_buffered w - of_nat (length (bytes_of ps)),
              data_mem := without (set (map fst ps)) (data_mem w), packet_mem := pm\<rparr>)"
      "list_objs pm = (list_objs (packet_mem w))(pdata j := None)" using j(3) False by auto
    then show ?thesis using that j(1) False clean_idle [OF as(2), of E] by (simp add: run_cleaner_def)
  qed
  obtain m where m: "ape_destroy_pool_with_cleaner (pl_head (jobs s)) (Some (ape_socket_job_pool_cleaner E)) ?w1 (job_mem w) = Some (w2, m)"
    "\<forall>a. cells m a = (if a \<in> set (pl_head (jobs s) # as) then None else cells (job_mem w) a)"
    using destroy_pool_spec [OF as(1) w2(1)] by blast
  have "ape_socket_free E call p w = Some (0, w2\<lparr>job_mem := m, sockets := (sockets w2)(p := None)\<rparr>)"
    using p0 s m(1) w2(2) by (simp add: ape_socket_free_def upd_sock_def sock_def free_data_def Let_def)
  moreover have "\<exists>as'. pl_head (jobs s) \<in> set as' \<and> (\<forall>a. cells m a = (if a \<in> set as' then None else cells (job_mem w) a))"
    using m(2) by (intro exI [of _ "pl_head (jobs s) # as"]) simp
  ultimately show ?thesis using w2(2-5) j(1)
    by (intro exI [of _ "w2\<lparr>job_mem := m, sockets := (sockets w2)(p := None)\<rparr>"]) simp
qed

section \<open>The property\<close>

text \<open>The list of packets of the current job of a socket.\<close>

definition packet_list :: "ptr \<Rightarrow> ('b, 'k) ape_net \<Rightarrow> ptr" where
  "packet_list p w = (case sock p w of None \<Rightarrow> NULL
     | Some s \<Rightarrow> (case rd (cells (job_mem w)) (pl_head (jobs s)) of None \<Rightarrow> NULL | Some j \<Rightarrow> pdata j))"

text \<open>C15: An accepted connection can be freed after any sequence of writes, events and progress of
  the kernel that did not fault: nothing faults, the socket is gone, the count of what the library holds goes
  down by what this socket held, and the data in memory is just what it was when the connection was accepted:
  every copy that was made for the queue has been freed, and nothing else.
  The list of packets goes with its job while data is queued; when the queue has been emptied the list
  is left allocated with nothing pointing to it.\<close>

theorem socket_free_releases:
  assumes "stream_kernel S out room" and "nsys E = S" and "\<forall>ev w. on_event E ev w = Some w"
    and "net_ok w0" and "sock srv w0 = Some s" and "sk_proto s \<noteq> APE_SOCKET_PT_SSL \<and> \<not> issecure s" and "fd \<noteq> 0"
    and "accept_client E srv fd addr w0 = Some w" and "\<forall>f k. Progress f \<in> set as \<longrightarrow> out (f k) = out k"
    and "io_run E (nbrk w0) as w = Some w1"
  shows "\<exists>w'. ape_socket_free E call (nbrk w0) w1 = Some (0, w') \<and> sock (nbrk w0) w' = None
     \<and> total_memory_buffered w' = total_memory_buffered w1 - buffered (nbrk w0) w1
     \<and> data_mem w' = data_mem w
     \<and> (\<forall>l. list_objs (packet_mem w') l
         = (if l = packet_list (nbrk w0) w1 \<and> out (kernel w1) fd \<noteq> out (kernel w) fd @ written as then None
            else list_objs (packet_mem w1) l))"
proof -
  have "queued (nbrk w0) w fd []" using accept_client_queued assms(3-8) by metis
  from stream_kernel.io_run_spec [OF assms(1,2) _ assms(9) this] assms(3,10)
  obtain ps sent where ps: "queued (nbrk w0) w1 fd ps" "out (kernel w1) fd = out (kernel w) fd @ sent"
    "sent @ bytes_of ps = bytes_of [] @ written as" "without (set (map fst ps)) (data_mem w1) = data_mem w"
    by auto
  have e: "out (kernel w1) fd = out (kernel w) fd @ written as \<longleftrightarrow> ps = []"
    using ps queued_nonempty [OF ps(1)] by auto
  obtain t where t: "sock (nbrk w0) w1 = Some t" using ps(1) unfolding queued_def conn_def by blast
  obtain w' j where w': "ape_socket_free E call (nbrk w0) w1 = Some (0, w')" "sockets w' = (sockets w1)(nbrk w0 := None)"
     "data_mem w' = without (set (map fst ps)) (data_mem w1)"
     "total_memory_buffered w' = total_memory_buffered w1 - of_nat (length (bytes_of ps))"
     "rd (cells (job_mem w1)) (pl_head (jobs t)) = Some j"
     "list_objs (packet_mem w') = (if ps = [] then list_objs (packet_mem w1) else (list_objs (packet_mem w1))(pdata j := None))"
    using socket_free_spec [OF ps(1) t] by blast
  show ?thesis
    using w' e queued_buffered [OF ps(1)] t ps(4)
    by (intro exI [of _ w']) (simp add: packet_list_def sock_def rd_def)
qed

theorem socket_free_releases_witness:
  "\<exists>w w1 w'. client0 tcp_sys tcp0 = Some w
     \<and> io_run (env_of tcp_sys) 100 [Write [1, 2, 3, 4, 5], Write [6]] w = Some w1
     \<and> ape_socket_free (env_of tcp_sys) (net_call (env_of tcp_sys) 3) 100 w1 = Some (0, w') \<and> sock 100 w' = None
     \<and> total_memory_buffered w' = total_memory_buffered w1 - buffered 100 w1 \<and> data_mem w' = data_mem w"
proof -
  obtain w s where w: "client0 tcp_sys tcp0 = Some w" and s: "sock 50 (server0 tcp0) = Some s" "sk_proto s \<noteq> APE_SOCKET_PT_SSL \<and> \<not> issecure s"
    using client0_tcp by blast
  have a: "accept_client (env_of tcp_sys) 50 7 \<lparr>sin_port = 0, sin_addr = 0\<rparr> (server0 tcp0) = Some w"
    using w by (simp add: client0_def)
  have "queued 100 w 7 []" using accept_client_queued [OF server0_ok s _ _ a] by simp
  then obtain w1 where "io_run (env_of tcp_sys) 100 [Write [1, 2, 3, 4, 5], Write [6]] w = Some w1"
    using tcp.io_run_spec [of "env_of tcp_sys" 100 "[Write [1, 2, 3, 4, 5], Write [6]]" w 7 "[]"]
    by (auto simp del: io_run.simps)
  then show ?thesis
    using socket_free_releases [OF tcp.stream_kernel_axioms _ _ server0_ok s _ a,
        of "[Write [1, 2, 3, 4, 5], Write [6]]" w1 "net_call (env_of tcp_sys) 3"] w
    by (auto simp del: io_run.simps)
qed

end
