(* ===== verification/Conn_Props.thy ===== *)
theory Conn_Props
  imports Queue_Props Demo
begin

unbundle bit_operations_syntax

text \<open>
  Accepting, connecting and looking names up.
\<close>

section \<open>Accepting\<close>

text \<open>
  \<open>waiting k fd\<close> are the connections waiting on the listening descriptor. A call of \<open>accept\<close>
  gives the first of them, or is interrupted, only so often in a row (\<open>patience\<close>), or would block
  when none waits, or fails with another error (\<open>ECONNABORTED\<close>, \<open>EMFILE\<close>), with which the first
  may be lost; \<open>fails\<close> changes with such an error, and only then. No connection comes in meanwhile. Making
  a descriptor non-blocking works.
\<close>

locale backlog =
  fixes S :: "'k net_sys" and waiting :: "'k \<Rightarrow> int \<Rightarrow> int list" and patience :: "'k \<Rightarrow> nat" and fails :: "'k \<Rightarrow> nat"
  assumes accepts: "sys_accept S fd k = (c, e, a, k') \<Longrightarrow>
      0 < c \<and> waiting k fd = c # waiting k' fd \<and> fails k' = fails k
      \<or> c = - 1 \<and> e = EINTR \<and> waiting k' fd = waiting k fd \<and> patience k' < patience k \<and> fails k' = fails k
      \<or> c = - 1 \<and> e = EAGAIN \<and> waiting k fd = [] \<and> waiting k' fd = [] \<and> fails k' = fails k
      \<or> c = - 1 \<and> e \<noteq> EINTR \<and> e \<noteq> EAGAIN \<and> (waiting k' fd = waiting k fd \<or> waiting k' fd = tl (waiting k fd))
         \<and> fails k' \<noteq> fails k"
    and nonblock: "sys_nonblock S fd k = (r, k') \<Longrightarrow> r \<noteq> - 1 \<and> waiting k' = waiting k \<and> fails k' = fails k"

text \<open>A backend that takes every descriptor.\<close>

definition can_add :: "'b fdevent \<Rightarrow> bool" where
  "can_add ev \<longleftrightarrow> (\<exists>f g. op_add (fops ev) = Some f \<and> op_setsize (fops ev) = Some g
     \<and> (\<forall>evd fd b m. f evd fd b m \<noteq> None) \<and> (\<forall>n m. g n m \<noteq> None))"

lemma can_add_run:
  assumes "can_add ev"
  shows "\<exists>r ev'. events_add evd fd b ev = Some (r, ev') \<and> can_add ev'"
proof -
  obtain f g where f: "op_add (fops ev) = Some f" "op_setsize (fops ev) = Some g"
    "\<forall>evd fd b m. f evd fd b m \<noteq> None" "\<forall>n m. g n m \<noteq> None" using assms unfolding can_add_def by blast
  let ?ev = "ev\<lparr>nfd := nfd ev + 1\<rparr>"
  obtain ev1 where ev1: "(if nfd ?ev > basemem (evm ?ev) then events_setsize ?ev (c_int (push_bit 1 (basemem (evm ?ev))))
             else Some ?ev) = Some ev1" "fops ev1 = fops ev"
  proof (cases "nfd ?ev > basemem (evm ?ev)")
    case True
    let ?n = "c_int (push_bit 1 (basemem (evm ?ev)))"
    obtain m1 where "g ?n ((evm ?ev)\<lparr>basemem := ?n\<rparr>) = Some m1" using f(4) by (meson not_None_eq)
    then show ?thesis using that [of "?ev\<lparr>evm := m1\<rparr>"] True f(2) by (simp add: events_setsize_def)
  qed (use that in simp)
  obtain r m where "f evd fd b (evm ev1) = Some (r, m)" using f(3) by fastforce
  then have "events_add evd fd b ev = Some (if r = - 1 then - 1 else 1, ev1\<lparr>evm := m\<rparr>)"
    using ev1 f(1) by (simp add: events_add_def Let_def)
  moreover have "can_add (ev1\<lparr>evm := m\<rparr>)" using ev1(2) f unfolding can_add_def by auto
  ultimately show ?thesis by blast
qed

text \<open>What the library and its user agree on of a socket, whatever is written to it or kept with it.\<close>

definition core :: "ape_socket \<Rightarrow> int \<times> ptr \<times> ape_socket_callbacks \<times> ape_socket_proto \<times> ape_socket_state \<times> ape_socket_type \<times> bool" where
  "core t = (sk_fd t, parent t, callbacks t, sk_proto t, sk_state t, sk_type t, issecure t)"

definition accepted :: "ptr \<Rightarrow> ape_socket \<Rightarrow> int \<Rightarrow> ape_socket \<Rightarrow> bool" where
  "accepted srv s fd t \<longleftrightarrow> sk_fd t = fd \<and> parent t = srv \<and> callbacks t = callbacks s \<and> sk_proto t = sk_proto s
     \<and> sk_state t = APE_SOCKET_ST_ONLINE \<and> sk_type t = APE_SOCKET_TP_CLIENT"

lemma accepted_core: "core s = core s' \<Longrightarrow> core t = core t' \<Longrightarrow> accepted srv s fd t = accepted srv s' fd t'"
  by (simp add: core_def accepted_def)

text \<open>The sockets below an address are those that were there.\<close>

definition same_cores :: "nat \<Rightarrow> ('b, 'k) ape_net \<Rightarrow> ('b, 'k) ape_net \<Rightarrow> bool" where
  "same_cores n w w' \<longleftrightarrow> (\<forall>q < n. map_option core (sock q w') = map_option core (sock q w))"

lemma same_cores_refl [simp]: "same_cores n w w"
  by (simp add: same_cores_def)

lemma same_cores_trans: "same_cores n w w1 \<Longrightarrow> same_cores m w1 w2 \<Longrightarrow> n \<le> m \<Longrightarrow> same_cores n w w2"
  by (simp add: same_cores_def)

lemma same_coresD:
  assumes "same_cores n w w'" and "q < n" and "sock q w = Some s"
  obtains s' where "sock q w' = Some s'" and "core s' = core s"
  using assms by (force simp: same_cores_def)

text \<open>A user whose function for new connections may do anything but close them, change their callbacks or
  use up those that wait.\<close>

definition tame :: "('k \<Rightarrow> 'x) \<Rightarrow> ('b, 'k) env \<Rightarrow> bool" where
  "tame left E \<longleftrightarrow> (\<forall>f srv c x w. net_ok w \<and> can_add (events w) \<longrightarrow>
     (\<exists>w'. on_event E (Connect f srv c x) w = Some w' \<and> net_ok w' \<and> can_add (events w') \<and> nbrk w \<le> nbrk w'
        \<and> left (kernel w') = left (kernel w) \<and> same_cores (nbrk w) w w'))"

lemma tameD:
  assumes "tame left E" and "net_ok w" and "can_add (events w)"
  obtains w' where "on_event E (Connect f srv c x) w = Some w'" and "net_ok w'" and "can_add (events w')" and "nbrk w \<le> nbrk w'"
    and "left (kernel w') = left (kernel w)" and "same_cores (nbrk w) w w'"
  using assms unfolding tame_def by blast

lemma tame_quiet: "\<forall>ev w. on_event E ev w = Some w \<Longrightarrow> tame left E"
  by (simp add: tame_def)

text \<open>
  What accepting does to the state. The connections \<open>xs\<close> were accepted, in order, each as a
  socket of its own, at \<open>cs\<close>; those that are left, \<open>ys\<close>, are none unless \<open>accept\<close> failed with an
  error other than \<open>EINTR\<close> and \<open>EAGAIN\<close>. The sockets that were there are as they were.
\<close>

definition admits :: "('k \<Rightarrow> int \<Rightarrow> int list) \<Rightarrow> ('k \<Rightarrow> nat) \<Rightarrow> ptr \<Rightarrow> ape_socket \<Rightarrow> ('b, 'k) ape_net \<Rightarrow> ('b, 'k) ape_net \<Rightarrow> bool" where
  "admits waiting fails srv s w w' \<longleftrightarrow> (\<exists>xs ys cs. waiting (kernel w) (sk_fd s) = xs @ ys
     \<and> (if fails (kernel w') = fails (kernel w) then ys = [] \<and> waiting (kernel w') (sk_fd s) = []
        else waiting (kernel w') (sk_fd s) = ys \<or> waiting (kernel w') (sk_fd s) = tl ys)
     \<and> length cs = length xs \<and> sorted_wrt (<) cs
     \<and> (\<forall>i < length xs. nbrk w \<le> cs ! i \<and> (\<exists>t. sock (cs ! i) w' = Some t \<and> accepted srv s (xs ! i) t))
     \<and> same_cores (nbrk w) w w')"

lemma admits_kernel:
  "waiting k = waiting (kernel w) \<Longrightarrow> fails k = fails (kernel w)
    \<Longrightarrow> admits waiting fails srv s (w\<lparr>kernel := k\<rparr>) w' = admits waiting fails srv s w w'"
  by (simp add: admits_def same_cores_def sock_def)

lemma ape_init_mem_ok: "mem_ok m \<Longrightarrow> ape_init_pool_list junk_job sizeof_jobs 2 m = Some (l, m') \<Longrightarrow> mem_ok m'"
  by (rule init_pool_list_inv [of m 2 junk_job sizeof_jobs]) (auto simp: pool_inv_def)

context backlog
begin

lemma accept_client_run:
  assumes E: "nsys E = S" and tm: "tame (\<lambda>k. (waiting k, fails k)) E" and ok: "net_ok w" "can_add (events w)"
    and s: "sock srv w = Some s" "\<not> issecure s" and fd: "0 < fd"
  shows "\<exists>w' t. accept_client E srv fd addr w = Some w' \<and> net_ok w' \<and> can_add (events w') \<and> nbrk w < nbrk w'
     \<and> waiting (kernel w') = waiting (kernel w) \<and> fails (kernel w') = fails (kernel w)
     \<and> sock (nbrk w) w' = Some t \<and> accepted srv s fd t
     \<and> same_cores (nbrk w) w w'"
proof -
  let ?p = "nbrk w"
  obtain r k where k: "sys_nonblock S fd (kernel w) = (r, k)" by (cases "sys_nonblock S fd (kernel w)")
  have rk: "r \<noteq> - 1" "waiting k = waiting (kernel w)" "fails k = fails (kernel w)" using nonblock [OF k] by auto
  have brk: "0 < ?p" "sockets w ?p = None" "mem_ok (job_mem w)" using ok by (simp_all add: net_ok_def)
  obtain l m where l: "ape_init_pool_list junk_job sizeof_jobs 2 (job_mem w) = Some (l, m)" using init_jobs [OF brk(3)] by blast
  let ?n = "new_socket fd (sk_proto s) l"
  let ?w1 = "w\<lparr>nco := c_int (nco w + 1), kernel := k, job_mem := m, sockets := (sockets w)(?p \<mapsto> ?n), nbrk := ?p + 1\<rparr>"
  have new: "APE_socket_new E (sk_proto s) fd w = Some (?p, ?w1)"
    using fd k rk(1) l E by (simp add: APE_socket_new_def ape_init_job_list_def Let_def)
  have ne: "srv \<noteq> ?p" "srv \<noteq> NULL" using s(1) brk(2) by (auto simp: sock_def rd_Some_iff)
  let ?t = "?n\<lparr>sk_addr := addr, callbacks := callbacks s, parent := srv, sk_state := APE_SOCKET_ST_ONLINE,
      sk_type := APE_SOCKET_TP_CLIENT\<rparr>"
  obtain x ev where ev: "events_add ?p fd (EVENT_READ OR EVENT_WRITE) (events w) = Some (x, ev)" "can_add ev"
    using can_add_run [OF ok(2)] by blast
  let ?w' = "?w1\<lparr>sockets := (sockets w)(?p \<mapsto> ?t), events := ev\<rparr>"
  have fdn: "sk_fd ?n = fd" by (simp add: new_socket_def)
  have run: "accept_client E srv fd addr w = (if on_connect (callbacks s) \<noteq> NULL
      then on_event E (Connect (on_connect (callbacks s)) srv ?p (cb_arg (callbacks s))) ?w' else Some ?w')"
    using new s ne brk(1) fdn ev(1)
    by (simp add: accept_client_def sock_def upd_sock_def on_events_def)
  have ok': "net_ok ?w'" "can_add (events ?w')" using ok(1) ape_init_mem_ok [OF brk(3) l] ev(2) by (auto simp: net_ok_def)
  have t: "accepted srv s fd ?t" "sock ?p ?w' = Some ?t" using brk(1) by (simp_all add: accepted_def new_socket_def sock_def)
  have same: "same_cores ?p w ?w'" by (simp add: same_cores_def sock_def rd_def)
  obtain w2 where w2: "accept_client E srv fd addr w = Some w2" "net_ok w2" "can_add (events w2)" "nbrk ?w' \<le> nbrk w2"
    "waiting (kernel w2) = waiting (kernel ?w')" "fails (kernel w2) = fails (kernel ?w')" "same_cores (nbrk ?w') ?w' w2"
  proof (cases "on_connect (callbacks s) \<noteq> NULL")
    case True
    then have "accept_client E srv fd addr w
        = on_event E (Connect (on_connect (callbacks s)) srv ?p (cb_arg (callbacks s))) ?w'" using run by simp
    moreover obtain w2 where "on_event E (Connect (on_connect (callbacks s)) srv ?p (cb_arg (callbacks s))) ?w' = Some w2"
      "net_ok w2" "can_add (events w2)" "nbrk ?w' \<le> nbrk w2"
      "(waiting (kernel w2), fails (kernel w2)) = (waiting (kernel ?w'), fails (kernel ?w'))" "same_cores (nbrk ?w') ?w' w2"
      by (rule tameD [OF tm ok'])
    ultimately show ?thesis using that by (simp only: prod.inject)
  next
    case False
    then show ?thesis using that [of ?w'] run ok' by simp
  qed
  obtain t2 where t2: "sock ?p w2 = Some t2" "core t2 = core ?t" by (rule same_coresD [OF w2(7) _ t(2)]) simp
  have "accepted srv s fd t2" using t(1) accepted_core [OF refl t2(2)] by simp
  moreover have "same_cores ?p w w2" by (rule same_cores_trans [OF same w2(7)]) simp
  ultimately show ?thesis using w2 t2(1) rk(2,3) by (intro exI [of _ w2] exI [of _ t2]) simp
qed

lemma accept_spec:
  assumes E: "nsys E = S" and tm: "tame (\<lambda>k. (waiting k, fails k)) E"
  shows "net_ok w \<Longrightarrow> can_add (events w) \<Longrightarrow> sock srv w = Some s \<Longrightarrow> \<not> issecure s \<Longrightarrow>
    \<exists>w'. ape_socket_accept E srv w = Some (0, w') \<and> admits waiting fails srv s w w'"
proof (induction "(length (waiting (kernel w) (sk_fd s)), patience (kernel w))" arbitrary: w s
    rule: wf_induct_rule [OF wf_lex_prod [OF wf_less wf_less]])
  case (1 w s)
  obtain c e a k where k: "sys_accept S (sk_fd s) (kernel w) = (c, e, a, k)" by (cases "sys_accept S (sk_fd s) (kernel w)")
  let ?w1 = "w\<lparr>kernel := k\<rparr>"
  have p: "net_ok ?w1" "can_add (events ?w1)" "sock srv ?w1 = Some s" using 1(2-4) by (simp_all add: net_ok_def sock_def)
  have same1: "same_cores n w ?w1" for n by (simp add: same_cores_def sock_def)
  from accepts [OF k] consider (one) "0 < c" "waiting (kernel w) (sk_fd s) = c # waiting k (sk_fd s)" "fails k = fails (kernel w)"
    | (intr) "c = - 1" "e = EINTR" "waiting k (sk_fd s) = waiting (kernel w) (sk_fd s)" "patience k < patience (kernel w)" "fails k = fails (kernel w)"
    | (none) "c = - 1" "e \<noteq> EINTR" "waiting (kernel w) (sk_fd s) = []" "waiting k (sk_fd s) = []" "fails k = fails (kernel w)"
    | (fails) "c = - 1" "e \<noteq> EINTR" "e \<noteq> EAGAIN"
      "waiting k (sk_fd s) = waiting (kernel w) (sk_fd s) \<or> waiting k (sk_fd s) = tl (waiting (kernel w) (sk_fd s))"
      "fails k \<noteq> fails (kernel w)" by blast
  then show ?case
  proof cases
    case intr
    have "ape_socket_accept E srv w = ape_socket_accept E srv ?w1"
      using 1(4) k E intr(1,2) by (subst ape_socket_accept.simps) simp
    moreover obtain w' where "ape_socket_accept E srv ?w1 = Some (0, w')" "admits waiting fails srv s ?w1 w'"
      using 1(1) [OF _ p 1(5)] intr(3,4) by auto
    moreover have "admits waiting fails srv s ?w1 w' = admits waiting fails srv s w w'"
      using intr(3,5) by (simp add: admits_def same_cores_def sock_def)
    ultimately show ?thesis by (intro exI [of _ w']) simp
  next
    case none
    have "ape_socket_accept E srv w = Some (0, ?w1)"
      using 1(4) k E none(1,2) by (subst ape_socket_accept.simps) simp
    moreover have "admits waiting fails srv s w ?w1"
      using none same1 unfolding admits_def by (intro exI [of _ "[]"]) simp
    ultimately show ?thesis by blast
  next
    case fails
    have "ape_socket_accept E srv w = Some (0, ?w1)"
      using 1(4) k E fails(1,2) by (subst ape_socket_accept.simps) simp
    moreover have "admits waiting fails srv s w ?w1"
      using fails same1 unfolding admits_def
      by (intro exI [of _ "[]"] exI [of _ "waiting (kernel w) (sk_fd s)"]) auto
    ultimately show ?thesis by blast
  next
    case one
    obtain w2 t where w2: "accept_client E srv c a ?w1 = Some w2" "net_ok w2" "can_add (events w2)" "nbrk w < nbrk w2"
      "waiting (kernel w2) = waiting k" "fails (kernel w2) = fails k" "sock (nbrk w) w2 = Some t" "accepted srv s c t" "same_cores (nbrk w) ?w1 w2"
      using accept_client_run [OF E tm p 1(5) one(1), of a] by auto
    note w2 = w2(1-5,7-9,6)
    have same2: "same_cores (nbrk w) w w2" by (rule same_cores_trans [OF same1 w2(8)]) simp
    have lt: "srv < nbrk w" using 1(2,4) by (metis net_ok_def not_le option.distinct(1) rd_Some_iff sock_def)
    obtain s2 where s2: "sock srv w2 = Some s2" "core s2 = core s" by (rule same_coresD [OF same2 lt 1(4)])
    then have fd2: "sk_fd s2 = sk_fd s" "\<not> issecure s2" using 1(5) by (simp_all add: core_def)
    obtain w' where w': "ape_socket_accept E srv w2 = Some (0, w')" "admits waiting fails srv s2 w2 w'"
      using 1(1) [OF _ w2(2,3) s2(1) fd2(2)] fd2(1) w2(5) one(2) by auto
    then obtain xs ys cs where a: "waiting k (sk_fd s) = xs @ ys"
      "if fails (kernel w') = fails (kernel w) then ys = [] \<and> waiting (kernel w') (sk_fd s) = []
       else waiting (kernel w') (sk_fd s) = ys \<or> waiting (kernel w') (sk_fd s) = tl ys"
      "length cs = length xs" "sorted_wrt (<) cs"
      "\<forall>i < length xs. nbrk w2 \<le> cs ! i \<and> (\<exists>t. sock (cs ! i) w' = Some t \<and> accepted srv s (xs ! i) t)"
      "same_cores (nbrk w2) w2 w'"
      unfolding admits_def fd2(1) w2(5,9) one(3) accepted_core [OF s2(2) refl] by blast
    obtain t' where t': "sock (nbrk w) w' = Some t'" "core t' = core t" by (rule same_coresD [OF a(6) w2(4,6)])
    have run: "ape_socket_accept E srv w = Some (0, w')"
      using 1(4) k E one(1) w2(1) w'(1) by (subst ape_socket_accept.simps) simp
    have all: "nbrk w \<le> (nbrk w # cs) ! i \<and> (\<exists>t. sock ((nbrk w # cs) ! i) w' = Some t \<and> accepted srv s ((c # xs) ! i) t)"
      if i: "i < length (c # xs)" for i
    proof (cases i)
      case 0
      then show ?thesis using t' w2(7) accepted_core [OF refl t'(2)] by simp
    next
      case (Suc n)
      then show ?thesis using a(5) [rule_format, of n] i w2(4) by auto
    qed
    have "\<forall>x \<in> set cs. nbrk w < x" using a(3,5) w2(4) by (metis in_set_conv_nth order_less_le_trans)
    then have sorted: "sorted_wrt (<) (nbrk w # cs)" using a(4) by simp
    have same: "same_cores (nbrk w) w w'" using same_cores_trans [OF same2 a(6)] w2(4) by simp
    have "waiting (kernel w) (sk_fd s) = (c # xs) @ ys" using one(2) a(1) by simp
    then have "admits waiting fails srv s w w'"
      unfolding admits_def using a(2,3) sorted same all
      by (intro exI [of _ "c # xs"] exI [of _ ys] exI [of _ "nbrk w # cs"]) (auto simp del: sorted_wrt.simps)
    then show ?thesis using run by blast
  qed
qed

end

text \<open>A kernel with a list of what the calls of \<open>accept\<close> find: a descriptor, 0 for an interruption, a negative number
  for another error.\<close>

definition queue_sys :: "int list net_sys" where
  "queue_sys = still_sys\<lparr>sys_accept := \<lambda>fd k. case k of [] \<Rightarrow> (- 1, EAGAIN, \<lparr>sin_port = 0, sin_addr = 0\<rparr>, [])
       | c # k \<Rightarrow> (if 0 < c then c else - 1, if c = 0 then EINTR else EOTHER, \<lparr>sin_port = 0, sin_addr = 0\<rparr>, k)\<rparr>"

abbreviation queue_fails :: "int list \<Rightarrow> nat" where
  "queue_fails k \<equiv> length (filter (\<lambda>c. c < 0) k)"

abbreviation queue_waiting :: "int list \<Rightarrow> int \<Rightarrow> int list" where
  "queue_waiting k fd \<equiv> filter (\<lambda>c. 0 < c) k"

interpretation waits: backlog queue_sys queue_waiting length queue_fails
  by unfold_locales (auto simp: queue_sys_def still_sys_def split: list.splits)

text \<open>A user who keeps a block of memory for every connection.\<close>

definition keeper_env :: "'k net_sys \<Rightarrow> (unit, 'k) env" where
  "keeper_env S = (env_of S)\<lparr>on_event := \<lambda>ev w. Some (case ev of Connect f srv c x \<Rightarrow> snd (malloc_data [0] w) | _ \<Rightarrow> w)\<rparr>"

lemma keeper_simps [simp]: "nsys (keeper_env S) = S"
  by (simp add: keeper_env_def)

lemma keeper_tame: "tame left (keeper_env S)"
  by (auto simp: tame_def keeper_env_def malloc_data_def net_ok_def same_cores_def sock_def)

text \<open>C22: Accepting ends, and accepts all connections that wait, each once and in order, as far as no call of
  \<open>accept\<close> fails but by being interrupted: every one becomes a socket of its own that is online, has the
  callbacks of the listening one and is its child. An interrupted call is made again; another error ends it, with the
  rest left to wait. The sockets that were there are left as they were. The user's function for
  new connections may do anything that keeps the sockets; the listening socket is not one over SSL, and making
  a descriptor non-blocking has to work.\<close>

theorem accept_takes_all:
  assumes "backlog S waiting patience fails" and "nsys E = S" and "tame (\<lambda>k. (waiting k, fails k)) E"
    and "net_ok w" and "can_add (events w)" and "sock srv w = Some s" and "\<not> issecure s"
  shows "\<exists>w'. ape_socket_accept E srv w = Some (0, w') \<and> admits waiting fails srv s w w'"
  using backlog.accept_spec [OF assms] .

text \<open>The listening socket at 50, with a function for new connections.\<close>

definition calling_listener :: ape_socket where
  "calling_listener = (new_socket 4 APE_SOCKET_PT_TCP \<lparr>pl_head = 1, pl_queue = 1, pl_current = 1, pl_size = sizeof_jobs\<rparr>)
     \<lparr>sk_state := APE_SOCKET_ST_ONLINE, sk_type := APE_SOCKET_TP_SERVER,
      callbacks := \<lparr>on_read = 0, on_disconnect = 0, on_connect = 30, on_connected = 0, on_message = 0, on_drain = 0, cb_arg = 0\<rparr>\<rparr>"

definition calling0 :: "'k \<Rightarrow> (unit, 'k) ape_net" where
  "calling0 k = (net0 k)\<lparr>sockets := [50 \<mapsto> calling_listener]\<rparr>"

lemma calling0_simps: "sock 50 (calling0 k) = Some calling_listener" "\<not> issecure calling_listener" "sk_fd calling_listener = 4"
  "net_ok (calling0 k)" "can_add (events (calling0 k))" "kernel (calling0 k) = k"
  by (simp_all add: sock_def calling0_def calling_listener_def new_socket_def net_ok_def net0_def can_add_def count_ops_def)

theorem accept_takes_all_witness:
  "\<exists>w' xs ys cs. ape_socket_accept (keeper_env queue_sys) 50 (calling0 [6, 0, 8]) = Some (0, w')
     \<and> [6, 8] = xs @ ys \<and> length cs = length xs \<and> sorted_wrt (<) cs
     \<and> (\<forall>i < length xs. \<exists>t. sock (cs ! i) w' = Some t \<and> parent t = 50 \<and> sk_fd t = xs ! i \<and> on_connect (callbacks t) = 30)
     \<and> (queue_fails (kernel w') = 0 \<longrightarrow> ys = [])"
proof -
  note c0 = calling0_simps(1) [of "[6 :: int, 0, 8]"] calling0_simps(2,3) calling0_simps(4-6) [of "[6 :: int, 0, 8]"]
  obtain w' where w': "ape_socket_accept (keeper_env queue_sys) 50 (calling0 [6, 0, 8]) = Some (0, w')"
    "admits queue_waiting queue_fails 50 calling_listener (calling0 [6, 0, 8]) w'"
    using accept_takes_all [OF waits.backlog_axioms keeper_simps keeper_tame c0(4,5,1,2)] by blast
  moreover have "queue_fails (kernel (calling0 [6, 0, 8])) = 0" "queue_waiting (kernel (calling0 [6, 0, 8])) 4 = [6, 8]"
    by (simp_all add: c0(6))
  ultimately obtain xs ys cs where r: "[6, 8] = xs @ ys" "queue_fails (kernel w') = 0 \<longrightarrow> ys = []" "length cs = length xs"
    "sorted_wrt (<) cs" "\<forall>i < length xs. \<exists>t. sock (cs ! i) w' = Some t \<and> accepted 50 calling_listener (xs ! i) t"
    unfolding admits_def c0(3) by (metis (no_types, lifting))
  have "on_connect (callbacks calling_listener) = 30" by (simp add: calling_listener_def)
  then have "\<forall>i < length xs. \<exists>t. sock (cs ! i) w' = Some t \<and> parent t = 50 \<and> sk_fd t = xs ! i \<and> on_connect (callbacks t) = 30"
    using r(5) unfolding accepted_def by metis
  then show ?thesis using w'(1) r(1-4) by blast
qed

section \<open>Connecting\<close>

text \<open>The attempts, counted by the kernel.\<close>

lemma connect_try_count:
  assumes c: "\<forall>k fd a. cnt (snd (snd (sys_connect S fd a k))) = cnt k + (1 :: nat)" and b: "\<forall>k fd a. cnt (snd (sys_bind S fd a k)) = cnt k"
  shows "n < 10 \<Longrightarrow> connect_try S fd lport any addr n k = (x, k') \<Longrightarrow>
     cnt k' \<le> cnt k + (10 - n) \<and> x \<in> {0, 1, 2} \<and> (lport = 0 \<longrightarrow> x \<noteq> 1 \<and> cnt k < cnt k')"
proof (induction "10 - n" arbitrary: n k rule: less_induct)
  case less
  obtain r k1 where k1: "(if lport \<noteq> 0 then sys_bind S fd \<lparr>sin_port = htons lport, sin_addr = any\<rparr> k else (0, k)) = (r, k1)"
    by fastforce
  have e1: "cnt k1 = cnt k" "lport = 0 \<Longrightarrow> r = 0"
    using k1 b [rule_format, of fd "\<lparr>sin_port = htons lport, sin_addr = any\<rparr>" k] by (auto split: if_splits)
  obtain y e k2 where k2: "sys_connect S fd addr k1 = (y, e, k2)" by (cases "sys_connect S fd addr k1")
  have e2: "cnt k2 = cnt k + 1" using c [rule_format, of fd addr k1] k2 e1 by simp
  have st: "connect_try S fd lport any addr n k = (if r = - 1 then (1, k1)
      else if y \<noteq> - 1 \<or> e = EAGAIN \<or> e = EINPROGRESS then (0, k2)
      else if e = EADDRNOTAVAIL \<and> n + 1 < 10 then connect_try S fd lport any addr (n + 1) k2 else (2, k2))"
    using k1 k2 by (subst connect_try.simps) (simp only: split Let_def)
  show ?case
  proof (cases "r \<noteq> - 1 \<and> \<not> (y \<noteq> - 1 \<or> e = EAGAIN \<or> e = EINPROGRESS) \<and> e = EADDRNOTAVAIL \<and> n + 1 < 10")
    case True
    then have rec: "connect_try S fd lport any addr (n + 1) k2 = (x, k')" "n + 1 < 10"
      using st less.prems by simp_all
    have shorter: "10 - (n + 1) < 10 - n" using less.prems(1) by linarith
    show ?thesis using less.hyps [OF shorter rec(2,1)] e2 less.prems(1) by auto
  next
    case False
    then show ?thesis using st less.prems e1 e2 by (auto split: if_splits)
  qed
qed

text \<open>C31: Connecting ends after at most ten attempts, whatever the kernel answers; it makes at least
  one unless a local port is asked for and cannot be bound.\<close>

theorem connect_attempts_bounded:
  assumes "\<forall>k fd a. cnt (snd (snd (sys_connect S fd a k))) = cnt k + (1 :: nat)"
    and "\<forall>k fd a. cnt (snd (sys_bind S fd a k)) = cnt k"
    and "connect_try S fd lport any addr 0 k = (x, k')"
  shows "cnt k' \<le> cnt k + 10 \<and> x \<in> {0, 1, 2} \<and> (lport = 0 \<longrightarrow> x \<noteq> 1 \<and> cnt k < cnt k')"
  using connect_try_count [OF assms(1,2) _ assms(3)] by simp

definition connects :: "tcp \<Rightarrow> nat" where
  "connects k = length (filter (\<lambda>c. case c of C_connect fd a \<Rightarrow> True | _ \<Rightarrow> False) (tk_log k))"

text \<open>All ten are made when no address is available.\<close>

theorem connect_attempts_bounded_witness:
  "\<exists>x k'. connect_try tcp_sys 7 0 0 (Addr_un [47, 120]) 0 tcp0 = (x, k') \<and> x \<in> {0, 1, 2} \<and> connects k' \<le> 10 \<and> connects k' = 10"
proof -
  obtain x k' where r: "connect_try tcp_sys 7 0 0 (Addr_un [47, 120]) 0 tcp0 = (x, k')" by fastforce
  have "\<forall>k fd a. connects (snd (snd (sys_connect tcp_sys fd a k))) = connects k + 1"
    "\<forall>k fd a. connects (snd (sys_bind tcp_sys fd a k)) = connects k" "connects tcp0 = 0"
    by (simp_all add: connects_def tcp_sys_def tcp_log_def tcp0_def)
  moreover have "connects (snd (connect_try tcp_sys 7 0 0 (Addr_un [47, 120]) 0 tcp0)) = 10" by code_simp
  ultimately show ?thesis using connect_attempts_bounded [OF _ _ r, of connects] r by auto
qed

section \<open>Looking names up\<close>

text \<open>The table: where an entry for a descriptor that is not there goes.\<close>

lemma slot_loop_spec:
  assumes "\<forall>d \<in> set ds. dg_fd d \<noteq> s"
  shows "\<exists>f. slot_loop ds s i f0 = Inr f \<and> (f = f0 \<or> i \<le> f \<and> f < i + length ds \<and> dg_fd (ds ! (f - i)) = 0)
     \<and> (f0 = 0 \<and> 0 < i \<and> (\<exists>d \<in> set ds. dg_fd d = 0) \<longrightarrow> f \<noteq> 0)"
  using assms
proof (induction ds arbitrary: i f0)
  case (Cons d ds)
  show ?case
  proof (cases "f0 = 0 \<and> dg_fd d = 0")
    case True
    obtain f where "slot_loop ds s (i + 1) i = Inr f" "f = i \<or> i + 1 \<le> f \<and> f < i + 1 + length ds \<and> dg_fd (ds ! (f - (i + 1))) = 0"
      using Cons.IH [of "i + 1" i] Cons.prems by auto
    moreover have "f \<noteq> i \<Longrightarrow> i + 1 \<le> f \<Longrightarrow> (d # ds) ! (f - i) = ds ! (f - (i + 1))" by (simp add: nth_Cons')
    ultimately show ?thesis using True by (cases "f = i") auto
  next
    case False
    obtain f where "slot_loop ds s (i + 1) f0 = Inr f"
      "f = f0 \<or> i + 1 \<le> f \<and> f < i + 1 + length ds \<and> dg_fd (ds ! (f - (i + 1))) = 0"
      "f0 = 0 \<and> (\<exists>d \<in> set ds. dg_fd d = 0) \<longrightarrow> f \<noteq> 0"
      using Cons.IH [of "i + 1" f0] Cons.prems by auto
    moreover have "i + 1 \<le> f \<Longrightarrow> (d # ds) ! (f - i) = ds ! (f - (i + 1))" by (simp add: nth_Cons')
    ultimately show ?thesis using False Cons.prems by auto
  qed
qed simp

lemma slot_loop_table:
  assumes "\<forall>d \<in> set ds. dg_fd d \<noteq> s" and "ds \<noteq> []"
  shows "\<exists>f < length ds. slot_loop ds s 0 0 = Inr f \<and> (if \<exists>d \<in> set ds. dg_fd d = 0 then dg_fd (ds ! f) = 0 else f = 0)"
proof -
  obtain d ds' where ds: "ds = d # ds'" using assms(2) by (cases ds) auto
  obtain f where f: "slot_loop ds' s 1 0 = Inr f" "f = 0 \<or> 1 \<le> f \<and> f < 1 + length ds' \<and> dg_fd (ds' ! (f - 1)) = 0"
    "(\<exists>d \<in> set ds'. dg_fd d = 0) \<longrightarrow> f \<noteq> 0"
    using slot_loop_spec [of ds' s 1 0] assms(1) ds by auto
  have run: "slot_loop ds s 0 0 = Inr f" using f(1) assms(1) ds by simp
  show ?thesis
  proof (cases "f = 0")
    case True
    then show ?thesis using run f(3) ds by auto
  next
    case False
    then have "f < length ds" "dg_fd (ds ! f) = 0" using f(2) ds by (auto simp: nth_Cons')
    then show ?thesis using run by (metis nth_mem)
  qed
qed

text \<open>A descriptor that c-ares opens gets one entry of the table, a free one if there is any, and no
  other entry changes. When all 32 are taken it replaces the first one, whose descriptor can then no
  longer be changed or removed.\<close>

theorem dns_table_entry:
  assumes "length (dns_list w) = 32" and "\<forall>d \<in> set (dns_list w). dg_fd d \<noteq> s" and "can_add (events w)"
  shows "\<exists>w' f. ares_socket_cb E s r wt w = Some w' \<and> f < 32
     \<and> dns_list w' = (dns_list w)[f := \<lparr>dg_fd = s, dg_type = APE_EVENT_DELEGATE, dg_on_io = FN_ares_io, dg_data = NULL\<rparr>]
     \<and> (if \<exists>d \<in> set (dns_list w). dg_fd d = 0 then dg_fd (dns_list w ! f) = 0 else f = 0)"
proof -
  have "dns_list w \<noteq> []" using assms(1) by auto
  then obtain f where f: "f < 32" "slot_loop (dns_list w) s 0 0 = Inr f"
    "if \<exists>d \<in> set (dns_list w). dg_fd d = 0 then dg_fd (dns_list w ! f) = 0 else f = 0"
    using slot_loop_table [OF assms(2)] assms(1) by metis
  obtain x ev where "events_add (dns_slot f) s (listen_for r wt OR EVENT_LEVEL) (events w) = Some (x, ev)"
    using can_add_run [OF assms(3)] by blast
  then have "\<exists>w'. ares_socket_cb E s r wt w = Some w'
     \<and> dns_list w' = (dns_list w)[f := \<lparr>dg_fd = s, dg_type = APE_EVENT_DELEGATE, dg_on_io = FN_ares_io, dg_data = NULL\<rparr>]"
    using f(1,2) assms(1) by (simp add: ares_socket_cb_def Let_def on_events_def on_kernel_def)
  then show ?thesis using f(1,3) by blast
qed

theorem dns_table_entry_witness:
  "\<exists>w' f. ares_socket_cb (env_of tcp_sys) 5 True False (snd (ape_dns_init 0 0 (net0 tcp0))) = Some w'
     \<and> f < 32 \<and> dg_fd (dns_list w' ! f) = 5"
proof -
  let ?w = "snd (ape_dns_init 0 0 (net0 tcp0))"
  have w: "length (dns_list ?w) = 32" "\<forall>d \<in> set (dns_list ?w). dg_fd d \<noteq> 5" "can_add (events ?w)"
    by (simp_all add: ape_dns_init_def can_add_def net0_def count_ops_def)
  show ?thesis using dns_table_entry [OF w, of "env_of tcp_sys" True False] w(1)
    by (metis fd_delegate.select_convs(1) nth_list_update_eq)
qed

text \<open>C30: Closing a socket whose name is being looked up keeps the answer from it: when c-ares answers
  later, the question is freed and nothing else happens, whatever function the answer was for.\<close>

theorem closed_lookup_ignored:
  assumes "sock q w = Some s" and "sk_state s \<noteq> APE_SOCKET_ST_OFFLINE" and "rd (dns_states w) (dns_state s) = Some d"
    and "\<forall>ev w. on_event E ev w = Some w" and "ape_socket_close E q w = Some (x, w1)"
  shows "ares_gethostbyname_cb E dcall (dns_state s) status host w1
     = Some (w1\<lparr>dns_states := (dns_states w)(dns_state s := None)\<rparr>)"
proof -
  have p: "q \<noteq> NULL" "dns_state s \<noteq> NULL" using assms(1,3) by (auto simp: sock_def)
  have "dns_states w1 = (dns_states w)(dns_state s \<mapsto> d\<lparr>dns_invalid := True\<rparr>)"
    using assms p
    by (auto simp: ape_socket_close_def ape_dns_invalidate_def sock_def upd_sock_def on_events_def on_kernel_def Let_def
        split: Option.bind_splits if_splits)
  then show ?thesis using p(2) by (simp add: ares_gethostbyname_cb_def params_free_def)
qed

definition looking0 :: "(unit, tcp) ape_net" where
  "looking0 = (connected0 APE_POOL_ALLOC tcp0)\<lparr>sockets := [50 \<mapsto> peer0\<lparr>sk_state := APE_SOCKET_ST_PENDING, dns_state := 70\<rparr>],
     dns_states := [70 \<mapsto> \<lparr>dns_callback = FN_ready_to_connect, dns_origin = [], dns_arg = 50, dns_invalid = False, dns_done = False\<rparr>]\<rparr>"

theorem closed_lookup_ignored_witness:
  "\<exists>w1. ape_socket_close (env_of tcp_sys) 50 looking0 = Some (1, w1)
     \<and> ares_gethostbyname_cb (env_of tcp_sys) (net_dns (env_of tcp_sys)) 70 0 0 w1
       = Some (w1\<lparr>dns_states := (dns_states looking0)(70 := None)\<rparr>)"
proof -
  let ?s = "peer0\<lparr>sk_state := APE_SOCKET_ST_PENDING, dns_state := 70\<rparr>"
  have s: "sock 50 looking0 = Some ?s" "rd (dns_states looking0) (dns_state ?s) \<noteq> None"
    by (simp_all add: looking0_def sock_def)
  then obtain d where d: "rd (dns_states looking0) (dns_state ?s) = Some d" by blast
  have "map_option fst (ape_socket_close (env_of tcp_sys) 50 looking0) = Some 1" by code_simp
  then obtain w1 where w1: "ape_socket_close (env_of tcp_sys) 50 looking0 = Some (1, w1)" by auto
  have "ares_gethostbyname_cb (env_of tcp_sys) (net_dns (env_of tcp_sys)) (dns_state ?s) 0 0 w1
     = Some (w1\<lparr>dns_states := (dns_states looking0)(dns_state ?s := None)\<rparr>)"
    by (rule closed_lookup_ignored [OF s(1) _ d _ w1]) simp_all
  then show ?thesis using w1 by simp
qed

end
