(* ===== verification/Hash_Ref.thy ===== *)
theory Hash_Ref
  imports Hash_Claims
begin

unbundle bit_operations_syntax

text \<open>
  \<open>MurmurHash2\<close> against a reference definition: the key is cut into blocks of four bytes, each read as a
  little-endian number and mixed into the hash by a fold, the rest is mixed in the same way with its own
  rule. The reference knows no pointers, lengths or fall-through.
\<close>

section \<open>The reference\<close>

text \<open>The number a list of bytes stands for, the least significant byte first.\<close>

fun le_word :: "byte list \<Rightarrow> uint32" where
  "le_word [] = 0"
| "le_word (b # bs) = ucast b + 256 * le_word bs"

fun blocks4 :: "byte list \<Rightarrow> byte list list \<times> byte list" where
  "blocks4 (b0 # b1 # b2 # b3 # bs) = (let (xs, rest) = blocks4 bs in ([b0, b1, b2, b3] # xs, rest))"
| "blocks4 bs = ([], bs)"

definition mix_block :: "uint32 \<Rightarrow> byte list \<Rightarrow> uint32" where
  "mix_block h bs = (h * murmur_m) XOR murmur_k (le_word bs)"

definition mix_rest :: "uint32 \<Rightarrow> byte list \<Rightarrow> uint32" where
  "mix_rest h bs = (if bs = [] then h else (h XOR le_word bs) * murmur_m)"

definition mix_final :: "uint32 \<Rightarrow> uint32" where
  "mix_final h = (let h1 = (h XOR drop_bit 13 h) * murmur_m in h1 XOR drop_bit 15 h1)"

definition murmur_ref :: "byte list \<Rightarrow> uint32 \<Rightarrow> uint32" where
  "murmur_ref key seed =
     (let (xs, rest) = blocks4 key
      in mix_final (mix_rest (foldl mix_block (seed XOR of_nat (length key)) xs) rest))"

section \<open>Numbers and bits\<close>

lemma blocks4_rest: "length (snd (blocks4 bs)) < 4"
  by (induction bs rule: blocks4.induct) (auto split: prod.splits)

lemma byte_and_shift: "(ucast (b :: byte) :: uint32) AND push_bit 8 w = 0"
  by (rule bit_eqI) (auto simp: bit_simps dest: bit_imp_le_length)

lemma le_word_Cons: "le_word (b # bs) = ucast b OR push_bit 8 (le_word bs)"
proof -
  have "push_bit 8 (le_word bs) = 256 * le_word bs" by (simp add: push_bit_eq_mult)
  then show ?thesis using byte_and_shift [of b "le_word bs"] by (simp add: disjunctive_add_eq_or)
qed

lemma le_word_or:
  "le_word [b0] = ucast b0"
  "le_word [b0, b1] = ucast b0 OR push_bit 8 (ucast b1)"
  "le_word [b0, b1, b2] = ucast b0 OR push_bit 8 (ucast b1) OR push_bit 16 (ucast b2)"
  "le_word [b0, b1, b2, b3] = load_le32 b0 b1 b2 b3"
  by (simp_all del: le_word.simps(2) add: le_word_Cons load_le32_def push_bit_or ac_simps push_bit_push_bit)

text \<open>On bytes that do not overlap the exclusive or is the or.\<close>

lemma xor_or_bytes:
  "(h XOR push_bit 8 (ucast (b1 :: byte))) XOR ucast (b0 :: byte) = h XOR (ucast b0 OR push_bit 8 (ucast b1) :: uint32)"
  "(h XOR push_bit 16 (ucast (b2 :: byte))) XOR (ucast b0 OR push_bit 8 (ucast b1))
     = h XOR (ucast b0 OR push_bit 8 (ucast b1) OR push_bit 16 (ucast b2) :: uint32)"
  by (rule bit_eqI; auto simp: bit_simps dest: bit_imp_le_length)+

section \<open>The loop and the rest\<close>

lemma murmur_loop_blocks:
  "murmur_loop (key @ zs) (int (length key)) h
     = Some (snd (blocks4 key) @ zs, int (length (snd (blocks4 key))), foldl mix_block h (fst (blocks4 key)))"
proof (induction key arbitrary: h rule: blocks4.induct)
  case (1 b0 b1 b2 b3 bs)
  show ?case
    using "1.IH" [of "mix_block h [b0, b1, b2, b3]"]
    by (simp add: mix_block_def le_word_or split: prod.splits del: le_word.simps)
qed (auto simp: murmur_loop_stop)

lemma murmur_tail_rest:
  "length rest < 4 \<Longrightarrow> murmur_tail (rest @ zs) (int (length rest)) h = Some (mix_rest h rest)"
proof -
  assume "length rest < 4"
  then consider "rest = []" | b0 where "rest = [b0]" | b0 b1 where "rest = [b0, b1]" | b0 b1 b2 where "rest = [b0, b1, b2]"
    by (cases rest; cases "tl rest"; cases "tl (tl rest)") (auto simp: neq_Nil_conv)
  then show ?thesis
    by cases (simp_all add: murmur_tail_def mix_rest_def le_word_or xor_or_bytes numeral_2_eq_2 del: le_word.simps(2))
qed

text \<open>C27: Given a block that starts with the key, \<open>MurmurHash2\<close> computes the reference for it, for
  every key and seed, and looks at nothing behind the key.\<close>

theorem murmur_is_reference:
  "MurmurHash2 (key @ behind) (int (length key)) seed = Some (murmur_ref key seed)"
  using murmur_loop_blocks [of key behind "seed XOR of_nat (length key)"]
    murmur_tail_rest [OF blocks4_rest [of key], of behind]
  by (simp add: MurmurHash2_def murmur_ref_def mix_final_def Let_def split_beta)

end
