(* ===== verification/Start_Props.thy ===== *)
theory Start_Props
  imports Conn_Props Timers_Props Loop
begin

unbundle bit_operations_syntax

text \<open>
  From creating the library to serving connections: the state \<open>APE_init\<close> makes over epoll is well
  formed, and a socket can be made in such a state and set to listen.
\<close>

section \<open>Creating the library\<close>

text \<open>The events over epoll, as \<open>USE_EPOLL_HANDLER\<close> links them.\<close>

definition epoll_start :: "'e epoll_sys \<Rightarrow> 'e epoll_dev fdevent \<Rightarrow> int \<times> 'e epoll_dev fdevent" where
  "epoll_start sys = events_init (event_epoll_init sys) no_init no_init"

text \<open>What the components rely on: the heaps and allocators, the timers, an events backend that works,
  and the table of the name resolution.\<close>

definition well_formed :: "('b, 'k) ape_net \<Rightarrow> bool" where
  "well_formed w \<longleftrightarrow> net_ok w \<and> (\<exists>xs as. tinv w xs as) \<and> can_add (events w) \<and> length (dns_list w) = 32"

lemma can_add_epoll: "fops ev = epoll_ops sys \<Longrightarrow> can_add ev"
  by (auto simp: can_add_def epoll_ops_def event_epoll_add_def event_epoll_setsize_def Let_def split: prod.splits)

lemma epoll_start_spec:
  assumes "fst (sys_epoll_create sys (ep_kernel (backend (evm ev)))) \<noteq> - 1" and "handler ev = EVENT_EPOLL"
  shows "fops (snd (epoll_start sys ev)) = epoll_ops sys \<and> nfd (snd (epoll_start sys ev)) = 0
     \<and> basemem (evm (snd (epoll_start sys ev))) = 32"
  using assms by (auto simp: epoll_start_def events_init_def event_epoll_init_def APE_DEFAULT_EVENTS_SIZE_def Let_def split: prod.splits)

definition no_timers :: "('b, 'k) ape_net \<Rightarrow> bool" where
  "no_timers w \<longleftrightarrow> 0 < tbrk w \<and> timer_objs w = Map.empty \<and> async_objs w = Map.empty"

lemma tinv_empty: "no_timers w \<Longrightarrow> thead w = NULL \<Longrightarrow> head_async w = NULL \<Longrightarrow> tinv w [] []"
  by (simp add: no_timers_def tinv_def tlist_def alist_def tcalls_def acalls_def tfresh_def dll_empty)

text \<open>What \<open>APE_init\<close> sets.\<close>

lemma APE_init_returns:
  assumes "tls_global_ctx (ssl_of E) (tls_library_init (ssl_of E) (kernel w)) = Some (g, k)"
  obtains ok w' where "APE_init E h ini a b w = Some (ok, w')"
proof -
  have "APE_init E h ini a b w \<noteq> None" using assms by (simp add: APE_init_def ape_dns_init_def Let_def split_beta)
  then show ?thesis using that by auto
qed

lemma APE_init_fields:
  assumes "APE_init E EVENT_EPOLL (epoll_start sys) 0 0 w = Some (ok, w')"
    and "tls_global_ctx (ssl_of E) (tls_library_init (ssl_of E) (kernel w)) = Some (g, kg)"
    and "fst (sys_epoll_create sys (ep_kernel (backend (evm (events w))))) \<noteq> - 1"
  shows "can_add (events w')" "length (dns_list w') = 32" "\<forall>d \<in> set (dns_list w'). dg_fd d = 0"
    "thead w' = NULL" "head_async w' = NULL" "timer_objs w' = timer_objs w" "async_objs w' = async_objs w"
    "tbrk w' = tbrk w" "nbrk w' = nbrk w" "sockets w' = sockets w" "data_mem w' = data_mem w" "job_mem w' = job_mem w"
    "packet_mem w' = packet_mem w" "is_running w'" "ok \<longrightarrow> thread_ctx w' \<and> \<not> thread_ctx w" "\<not> ok \<longrightarrow> thread_ctx w' = thread_ctx w"
    "ok \<longleftrightarrow> fst (sys_open (nsys E) urandom kg) \<noteq> 0 \<and> \<not> thread_ctx w" "ssl_global_ctx w' = g"
    "kernel w' = snd (sys_open (nsys E) urandom kg)"
proof -
  let ?ev = "(events w)\<lparr>handler := EVENT_EPOLL\<rparr>"
  have "fops (snd (epoll_start sys ?ev)) = epoll_ops sys" using epoll_start_spec [of sys ?ev] assms(3) by simp
  then have ops: "can_add (snd (epoll_start sys ?ev))" by (rule can_add_epoll)
  obtain fd k where o: "sys_open (nsys E) urandom kg = (fd, k)" by fastforce
  let ?w = "w\<lparr>is_running := True, run_in_low_resolution := 0,
     thead := NULL, head_async := NULL, last_identifier := 0, kill_handler := NULL,
     dns_list := replicate 32 \<lparr>dg_fd = 0, dg_type = APE_EVENT_SOCKET, dg_on_io = NULL, dg_data = NULL\<rparr>,
     events := snd (epoll_start sys ?ev), total_memory_buffered := 0, kernel := k, urandom_fd := fd, ssl_global_ctx := g\<rparr>"
  have ok: "ok \<longleftrightarrow> fd \<noteq> 0 \<and> \<not> thread_ctx w"
    and w': "w' = (if fd = 0 then ?w else if thread_ctx w then ?w\<lparr>logger := no_logger\<rparr>
        else ?w\<lparr>logger := no_logger, thread_ctx := True\<rparr>)"
    using assms(1,2) by (auto simp: APE_init_def ape_dns_init_def Let_def o split: if_splits)
  show "can_add (events w')" "length (dns_list w') = 32" "\<forall>d \<in> set (dns_list w'). dg_fd d = 0"
    "thead w' = NULL" "head_async w' = NULL" "timer_objs w' = timer_objs w" "async_objs w' = async_objs w"
    "tbrk w' = tbrk w" "nbrk w' = nbrk w" "sockets w' = sockets w" "data_mem w' = data_mem w" "job_mem w' = job_mem w"
    "packet_mem w' = packet_mem w" "is_running w'" "ok \<longrightarrow> thread_ctx w' \<and> \<not> thread_ctx w" "\<not> ok \<longrightarrow> thread_ctx w' = thread_ctx w"
    "ok \<longleftrightarrow> fst (sys_open (nsys E) urandom kg) \<noteq> 0 \<and> \<not> thread_ctx w" "ssl_global_ctx w' = g"
    "kernel w' = snd (sys_open (nsys E) urandom kg)"
    unfolding w' using ops ok o by simp_all
qed

lemma APE_init_well_formed:
  assumes "APE_init E EVENT_EPOLL (epoll_start sys) 0 0 w = Some (ok, w')"
    and "tls_global_ctx (ssl_of E) (tls_library_init (ssl_of E) (kernel w)) = Some (g, k)" and "\<forall>k. fst (sys_epoll_create sys k) \<noteq> - 1"
    and "net_ok w" and "no_timers w"
  shows "well_formed w' \<and> tinv w' [] []"
proof -
  note f = APE_init_fields [OF assms(1,2) assms(3) [rule_format]]
  have t: "tinv w' [] []" using f(4-8) assms(5) by (intro tinv_empty) (auto simp: no_timers_def)
  moreover have "net_ok w'" using f(9-13) assms(4) by (simp add: net_ok_def)
  ultimately show ?thesis using f(1,2) by (auto simp: well_formed_def)
qed

text \<open>C21: Over epoll \<open>APE_init\<close> makes a well-formed state, in which no descriptor is watched for
  c-ares and no timer runs, whatever was in the memory it was given; it does not fault when making the SSL
  context of the clients does not. It gives NULL only when the thread has a
  state already or the random device is opened as descriptor 0; a device that cannot be opened is not noticed,
  and neither is an SSL context that could not be made. A second call in the thread always gives NULL.\<close>

theorem init_well_formed:
  assumes "net_ok w" and "no_timers w" and "\<forall>k. fst (sys_epoll_create sys k) \<noteq> - 1"
    and "tls_global_ctx (ssl_of E) (tls_library_init (ssl_of E) (kernel w)) = Some (g, k)"
  shows "\<exists>ok w'. APE_init E EVENT_EPOLL (epoll_start sys) 0 0 w = Some (ok, w')
     \<and> well_formed w' \<and> tinv w' [] [] \<and> (\<forall>d \<in> set (dns_list w'). dg_fd d = 0) \<and> is_running w' \<and> ssl_global_ctx w' = g
     \<and> (ok \<longleftrightarrow> fst (sys_open (nsys E) urandom k) \<noteq> 0 \<and> \<not> thread_ctx w)
     \<and> (ok \<longrightarrow> (\<forall>ok2 w2. APE_init E EVENT_EPOLL (epoll_start sys) 0 0 w' = Some (ok2, w2) \<longrightarrow> \<not> ok2))"
proof -
  obtain ok w' where w': "APE_init E EVENT_EPOLL (epoll_start sys) 0 0 w = Some (ok, w')"
    by (rule APE_init_returns [OF assms(4)])
  note f = APE_init_fields [OF w' assms(4) assms(3) [rule_format]]
  have wf: "well_formed w'" "tinv w' [] []" using APE_init_well_formed [OF w' assms(4,3,1,2)] by blast+
  have "\<not> ok2" if "APE_init E EVENT_EPOLL (epoll_start sys) 0 0 w' = Some (ok2, w2)" and ok for ok2 w2
  proof -
    have "tls_global_ctx (ssl_of E) (tls_library_init (ssl_of E) (kernel w')) \<noteq> None"
    proof
      assume "tls_global_ctx (ssl_of E) (tls_library_init (ssl_of E) (kernel w')) = None"
      then show False using that(1) by (simp add: APE_init_def ape_dns_init_def Let_def split_beta)
    qed
    then obtain g2 k2 where "tls_global_ctx (ssl_of E) (tls_library_init (ssl_of E) (kernel w')) = Some (g2, k2)" by auto
    from APE_init_fields(17) [OF that(1) this assms(3) [rule_format]] show ?thesis using f(15) that(2) by auto
  qed
  then show ?thesis using w' wf f(3,14,17,18) by blast
qed

section \<open>Listening\<close>

text \<open>The kernel lets the port be bound and listened on, after the option \<open>SO_REUSEADDR\<close>.\<close>

definition can_listen :: "'k net_sys \<Rightarrow> int \<Rightarrow> uint16 \<Rightarrow> byte list \<Rightarrow> 'k \<Rightarrow> bool" where
  "can_listen S fd port ip k \<longleftrightarrow>
     (let (r, k1) = sys_bind S fd \<lparr>sin_port = htons port, sin_addr = inet_addr S ip\<rparr> (try_option S fd SO_REUSEADDR 1 k)
      in r \<noteq> - 1 \<and> fst (sys_listen S fd APE_SOCKET_BACKLOG k1) \<noteq> - 1)"

lemma new_socket_run:
  assumes E: "nsys E = S" and ok: "net_ok w" "can_add (events w)"
    and k: "sys_socket S False False (kernel w) = (fd, k)" "fd \<noteq> - 1" "sys_nonblock S fd k = (r, k1)" "r \<noteq> - 1"
  shows "\<exists>w' s. APE_socket_new E APE_SOCKET_PT_TCP 0 w = Some (nbrk w, w') \<and> net_ok w' \<and> can_add (events w')
     \<and> sock (nbrk w) w' = Some s \<and> sk_proto s = APE_SOCKET_PT_TCP \<and> \<not> issecure s \<and> sk_state s = APE_SOCKET_ST_PENDING
     \<and> sk_fd s = fd \<and> kernel w' = k1 \<and> nbrk w' = nbrk w + 1"
proof -
  have brk: "0 < nbrk w" "mem_ok (job_mem w)" using ok(1) by (simp_all add: net_ok_def)
  obtain l m where l: "ape_init_pool_list junk_job sizeof_jobs 2 (job_mem w) = Some (l, m)" using init_jobs [OF brk(2)] by blast
  let ?s = "new_socket fd APE_SOCKET_PT_TCP l"
  let ?w = "w\<lparr>nco := c_int (nco w + 1), kernel := k1, job_mem := m, sockets := (sockets w)(nbrk w \<mapsto> ?s), nbrk := nbrk w + 1\<rparr>"
  have "APE_socket_new E APE_SOCKET_PT_TCP 0 w = Some (nbrk w, ?w)"
    using k l E by (simp add: APE_socket_new_def ape_init_job_list_def Let_def)
  moreover have "net_ok ?w" using ok(1) ape_init_mem_ok [OF brk(2) l] by (auto simp: net_ok_def)
  ultimately show ?thesis using ok(2) brk(1)
    by (intro exI [of _ ?w] exI [of _ ?s]) (simp add: sock_def new_socket_def)
qed

text \<open>When the kernel does not let it, the descriptor is closed and the socket stays as it was.\<close>

lemma listen_run:
  assumes E: "nsys E = S" and ok: "net_ok w" "can_add (events w)" and p: "port \<noteq> 0"
    and s: "sock p w = Some s" "sk_proto s = APE_SOCKET_PT_TCP"
  shows "\<exists>w' s'. APE_socket_listen E p port ip False 0 w = Some (if can_listen S (sk_fd s) port ip (kernel w) then 0 else - 1, w')
     \<and> net_ok w' \<and> can_add (events w') \<and> nbrk w' = nbrk w \<and> sock p w' = Some s'
     \<and> s' = (if can_listen S (sk_fd s) port ip (kernel w)
         then s\<lparr>sk_type := APE_SOCKET_TP_SERVER, sk_state := APE_SOCKET_ST_ONLINE, local_port := port\<rparr> else s)"
proof -
  let ?a = "\<lparr>sin_port = htons port, sin_addr = inet_addr S ip\<rparr>"
  obtain r k3 where k3: "sys_bind S (sk_fd s) ?a (try_option S (sk_fd s) SO_REUSEADDR 1 (kernel w)) = (r, k3)" by fastforce
  obtain r' k4 where k4: "sys_listen S (sk_fd s) APE_SOCKET_BACKLOG k3 = (r', k4)" by fastforce
  have can: "can_listen S (sk_fd s) port ip (kernel w) \<longleftrightarrow> r \<noteq> - 1 \<and> r' \<noteq> - 1" by (simp add: can_listen_def k3 k4)
  have s0: "rd (sockets w) p = Some s" "p \<noteq> NULL" using s(1) by (auto simp: sock_def)
  show ?thesis
  proof (cases "r \<noteq> - 1 \<and> r' \<noteq> - 1")
    case True
    let ?s = "s\<lparr>sk_type := APE_SOCKET_TP_SERVER, sk_state := APE_SOCKET_ST_ONLINE, local_port := port\<rparr>"
    obtain x ev where ev: "events_add p (sk_fd s) (EVENT_READ OR EVENT_WRITE) (events w) = Some (x, ev)" "can_add ev"
      using can_add_run [OF ok(2)] by blast
    let ?w = "w\<lparr>kernel := k4, sockets := (sockets w)(p \<mapsto> ?s), events := ev\<rparr>"
    have "APE_socket_listen E p port ip False 0 w = Some (0, ?w)"
      using True k3 k4 p s s0 ev(1) E by (simp add: APE_socket_listen_def upd_sock_def on_events_def sock_def Let_def)
    moreover have "p < nbrk w" using ok(1) s0 by (metis net_ok_def not_le option.distinct(1) rd_Some_iff)
    moreover from this have "net_ok ?w" using ok(1) by (auto simp: net_ok_def)
    ultimately show ?thesis using True can ev(2) s0(2) by (intro exI [of _ ?w] exI [of _ ?s]) (simp add: sock_def)
  next
    case False
    let ?w = "\<lambda>k. w\<lparr>kernel := sclose S (sk_fd s) k\<rparr>"
    have "APE_socket_listen E p port ip False 0 w = Some (- 1, ?w (if r = - 1 then k3 else k4))"
      using False k3 k4 p s s0 E by (auto simp: APE_socket_listen_def sock_def Let_def)
    moreover have "net_ok (?w k)" for k using ok(1) by (simp add: net_ok_def)
    ultimately show ?thesis using False can ok(2) s(1)
      by (intro exI [of _ "?w (if r = - 1 then k3 else k4)"] exI [of _ s]) (simp add: sock_def)
  qed
qed

section \<open>A concrete start\<close>

text \<open>A kernel with an epoll that accepts every descriptor, and the memory before the library is created.\<close>

definition epoll0 :: "unit epoll_sys" where
  "epoll0 = \<lparr>sys_epoll_create = (\<lambda>k. (8, k)), sys_epoll_ctl = (\<lambda>e op fd ev k. (0, k)),
     sys_epoll_wait = (\<lambda>e n t k. (0, [], k)), sys_dup = (\<lambda>fd k. (fd + 1, k)), sys_close = (\<lambda>fd k. k)\<rparr>"

definition fresh0 :: "int list \<Rightarrow> (unit epoll_dev, int list) ape_net" where
  "fresh0 k = \<lparr>timer_objs = (\<lambda>_. None), async_objs = (\<lambda>_. None), tbrk = 1, thead = 77, head_async = 78,
     last_identifier = 79, run_in_low_resolution = 80, clock = (\<lambda>n. of_nat n), samples = 0,
     events = \<lparr>evm = \<lparr>basemem = 99, backend = \<lparr>ep_events = None, epoll_fd = 98, ep_kernel = ()\<rparr>\<rparr>, nfd = 97,
       handler = EVENT_POLL, fops = epoll_ops epoll0\<rparr>,
     kernel = k, sockets = (\<lambda>_. None), job_mem = empty_mem,
     packet_mem = \<lparr>pools = empty_mem, list_objs = (\<lambda>_. None), lists_brk = 1\<rparr>, data_mem = (\<lambda>_. None),
     dns_list = [], dns_states = (\<lambda>_. None), nbrk = 100, nco = 0, ndec = 0, total_memory_buffered = 96,
     is_running = False, ape_running = True, kill_handler = 95, urandom_fd = 94, logger = no_logger, thread_ctx = False, ssl_global_ctx = 93\<rparr>"

lemma fresh0_ok: "net_ok (fresh0 k)" "no_timers (fresh0 k)" "\<forall>k. fst (sys_epoll_create epoll0 k) \<noteq> - 1"
  by (simp_all add: net_ok_def no_timers_def fresh0_def epoll0_def)

lemma fresh0_thread [simp]: "\<not> thread_ctx (fresh0 k)" "kernel (fresh0 k) = k"
  by (simp_all add: fresh0_def)

lemma stubs_global: "tls_global_ctx (ssl_of (env_of S)) (tls_library_init (ssl_of (env_of S)) k) = Some (NULL, k)"
  by (simp add: ssl_of_def env_of_def ssl_stubs_def)

theorem init_well_formed_witness:
  "\<exists>w. APE_init (env_of queue_sys) EVENT_EPOLL (epoll_start epoll0) 0 0 (fresh0 [6]) = Some (True, w) \<and> well_formed w"
  using init_well_formed [OF fresh0_ok stubs_global, of queue_sys "[6]"] by (auto simp: queue_sys_def still_sys_def fresh0_def)

end
