(* ===== verification/Ssl_Props.thy ===== *)
theory Ssl_Props
  imports Ssl
begin

text \<open>
  Every context and connection that OpenSSL hands out is held by exactly one object, or was given back.
  The error paths of \<open>ape_ssl_init_ctx\<close> and \<open>ape_ssl_init_con\<close> leave nothing behind.
\<close>

section \<open>Handles and their owners\<close>

definition owners :: "(ape_ssl \<Rightarrow> ptr) \<Rightarrow> ape_ssl heap \<Rightarrow> ptr \<Rightarrow> ptr set" where
  "owners f h c = {p. \<exists>v. h p = Some v \<and> f v = c}"

text \<open>A live handle has one owner, and what an object holds is live.\<close>

definition owned :: "(ape_ssl \<Rightarrow> ptr) \<Rightarrow> ape_ssl heap \<Rightarrow> ptr set \<Rightarrow> bool" where
  "owned f h C \<longleftrightarrow> (\<forall>c. c \<noteq> NULL \<longrightarrow> (if c \<in> C then \<exists>p. owners f h c = {p} else owners f h c = {}))"

lemma owners_upd: "h p = None \<Longrightarrow> owners f (h(p \<mapsto> v)) c = (if f v = c then insert p (owners f h c) else owners f h c)"
  by (auto simp: owners_def)

lemma owners_del: "owners f (h(p := None)) c = owners f h c - {p}"
  by (auto simp: owners_def)

lemma owned_NULL [simp]: "owned f h (insert NULL C) = owned f h C" "owned f h (C - {NULL}) = owned f h C"
  by (auto simp: owned_def)

lemma owned_new: "owned f h C \<Longrightarrow> h p = None \<Longrightarrow> f v \<notin> C \<Longrightarrow> owned f (h(p \<mapsto> v)) (insert (f v) C)"
  by (auto simp: owned_def owners_upd)

lemma owned_new_NULL: "owned f h C \<Longrightarrow> h p = None \<Longrightarrow> f v = NULL \<Longrightarrow> owned f (h(p \<mapsto> v)) C"
  by (auto simp: owned_def owners_upd)

lemma owned_del: "owned f h C \<Longrightarrow> h p = Some v \<Longrightarrow> owned f (h(p := None)) (C - {f v})"
proof -
  assume o: "owned f h C" and p: "h p = Some v"
  have "if c \<in> C - {f v} then \<exists>q. owners f h c - {p} = {q} else owners f h c - {p} = {}" if c: "c \<noteq> NULL" for c
  proof (cases "c = f v")
    case True
    then have "p \<in> owners f h c" using p by (simp add: owners_def)
    then show ?thesis using o c True unfolding owned_def by (metis Diff_iff Diff_insert_absorb empty_iff insertE insertI1 insert_absorb insert_not_empty)
  next
    case False
    then have "p \<notin> owners f h c" using p by (simp add: owners_def)
    then show ?thesis using o c False unfolding owned_def by auto
  qed
  then show ?thesis by (simp add: owned_def owners_del)
qed

lemma owned_live: "owned f h C \<Longrightarrow> h p = Some v \<Longrightarrow> f v \<noteq> NULL \<Longrightarrow> f v \<in> C"
  unfolding owned_def owners_def by (metis (mono_tags, lifting) empty_iff mem_Collect_eq)

lemma owned_nothing: "owned f (\<lambda>_. None) C \<Longrightarrow> C \<subseteq> {NULL}"
  unfolding owned_def owners_def by force

section \<open>Using the functions\<close>

datatype ssl_act =
  Lib_init | Init_ctx "byte list" "byte list option" | Init_global | Init_con ptr int bool
| Secure_read ptr int | Secure_write ptr "byte list" | Secure_shutdown ptr | Secure_destroy ptr

fun ssl_step :: "'o openssl \<Rightarrow> ssl_act \<Rightarrow> 'o ssl_state \<Rightarrow> 'o ssl_state option" where
  "ssl_step S Lib_init s = Some (ape_ssl_library_init S s)"
| "ssl_step S (Init_ctx cert key) s = map_option snd (ape_ssl_init_ctx S cert key s)"
| "ssl_step S Init_global s = map_option snd (ape_ssl_init_global_client_ctx S s)"
| "ssl_step S (Init_con p fd acc) s = map_option snd (ape_ssl_init_con S p fd acc s)"
| "ssl_step S (Secure_read p n) s = map_option (snd \<circ> snd) (ape_ssl_read S p n s)"
| "ssl_step S (Secure_write p bs) s = map_option snd (ape_ssl_write S p bs s)"
| "ssl_step S (Secure_shutdown p) s = ape_ssl_shutdown S p s"
| "ssl_step S (Secure_destroy p) s = ape_ssl_destroy S p s"

text \<open>A pointer that is passed is NULL or that of an object that was not destroyed, and a length is not negative.\<close>

fun ssl_legal :: "ssl_act \<Rightarrow> 'o ssl_state \<Rightarrow> bool" where
  "ssl_legal (Init_con p fd acc) s \<longleftrightarrow> p = NULL \<or> ssl_objs s p \<noteq> None"
| "ssl_legal (Secure_read p n) s \<longleftrightarrow> 0 \<le> n \<and> (p = NULL \<or> ssl_objs s p \<noteq> None)"
| "ssl_legal (Secure_write p bs) s \<longleftrightarrow> p = NULL \<or> ssl_objs s p \<noteq> None"
| "ssl_legal (Secure_shutdown p) s \<longleftrightarrow> p = NULL \<or> ssl_objs s p \<noteq> None"
| "ssl_legal (Secure_destroy p) s \<longleftrightarrow> p = NULL \<or> ssl_objs s p \<noteq> None"
| "ssl_legal a s \<longleftrightarrow> True"

inductive ssl_used :: "'o openssl \<Rightarrow> 'o ssl_state \<Rightarrow> 'o ssl_state \<Rightarrow> bool" for S s0 where
  start: "ssl_used S s0 s0"
| step: "ssl_used S s0 s \<Longrightarrow> ssl_legal a s \<Longrightarrow> ssl_step S a s = Some s' \<Longrightarrow> ssl_used S s0 s'"

fun ssl_run :: "'o openssl \<Rightarrow> ssl_act list \<Rightarrow> 'o ssl_state \<Rightarrow> 'o ssl_state option" where
  "ssl_run S [] s = Some s"
| "ssl_run S (a # as) s = (if ssl_legal a s then do { s1 \<leftarrow> ssl_step S a s; ssl_run S as s1 } else None)"

lemma ssl_run_used: "ssl_run S as s = Some s' \<Longrightarrow> ssl_used S s0 s \<Longrightarrow> ssl_used S s0 s'"
  by (induction as arbitrary: s) (auto split: if_splits Option.bind_splits intro: ssl_used.step)

section \<open>OpenSSL's promises\<close>

text \<open>
  \<open>ctxs\<close> and \<open>cons\<close> are the live contexts and connections. Only the functions that make
  and free them change these; a connection of NULL is NULL.
\<close>

locale tls =
  fixes S :: "'o openssl" and ctxs cons :: "'o \<Rightarrow> ptr set"
  assumes ctx_new: "SSL_CTX_new S m k = (c, k') \<Longrightarrow> cons k' = cons k \<and>
      (if c = NULL then ctxs k' = ctxs k else c \<notin> ctxs k \<and> ctxs k' = insert c (ctxs k))"
    and ctx_free: "c \<in> ctxs k \<Longrightarrow> cons (SSL_CTX_free S c k) = cons k \<and> ctxs (SSL_CTX_free S c k) = ctxs k - {c}"
    and con_new: "SSL_new S x k = (c, k') \<Longrightarrow> ctxs k' = ctxs k \<and>
      (if c = NULL then cons k' = cons k else c \<notin> cons k \<and> cons k' = insert c (cons k))"
    and con_free: "c \<in> cons k \<Longrightarrow> ctxs (SSL_free S c k) = ctxs k \<and> cons (SSL_free S c k) = cons k - {c}"
    and keeps_init: "ctxs (SSL_init S k) = ctxs k" "cons (SSL_init S k) = cons k"
    and keeps_set: "ctxs (SSL_CTX_set S y c k) = ctxs k" "cons (SSL_CTX_set S y c k) = cons k"
    and keeps_cipher: "ctxs (snd (SSL_CTX_set_cipher_list S c l k)) = ctxs k" "cons (snd (SSL_CTX_set_cipher_list S c l k)) = cons k"
    and keeps_cert: "ctxs (snd (SSL_CTX_use_certificate_chain_file S c f k)) = ctxs k"
      "cons (snd (SSL_CTX_use_certificate_chain_file S c f k)) = cons k"
    and keeps_key: "ctxs (snd (SSL_CTX_use_PrivateKey_file S c f k)) = ctxs k" "cons (snd (SSL_CTX_use_PrivateKey_file S c f k)) = cons k"
    and keeps_check: "ctxs (snd (SSL_CTX_check_private_key S c k)) = ctxs k" "cons (snd (SSL_CTX_check_private_key S c k)) = cons k"
    and keeps_state: "ctxs (SSL_set_accept_state S c k) = ctxs k" "cons (SSL_set_accept_state S c k) = cons k"
      "ctxs (SSL_set_connect_state S c k) = ctxs k" "cons (SSL_set_connect_state S c k) = cons k"
    and keeps_fd: "ctxs (snd (SSL_set_fd S c fd k)) = ctxs k" "cons (snd (SSL_set_fd S c fd k)) = cons k"
    and keeps_shutdown: "ctxs (SSL_shutdown S c k) = ctxs k" "cons (SSL_shutdown S c k) = cons k"
    and keeps_write: "ctxs (snd (SSL_write S c bs k)) = ctxs k" "cons (snd (SSL_write S c bs k)) = cons k"
    and reads: "SSL_read S c n k = (r, bs, k') \<Longrightarrow> ctxs k' = ctxs k \<and> cons k' = cons k \<and> int (length bs) \<le> max 0 n"
begin

definition held :: "'o ssl_state \<Rightarrow> bool" where
  "held s \<longleftrightarrow> 0 < ssl_brk s \<and> (\<forall>a. ssl_brk s \<le> a \<longrightarrow> ssl_objs s a = None)
     \<and> owned ssl_ctx (ssl_objs s) (ctxs (ssl_lib s)) \<and> owned ssl_con (ssl_objs s) (cons (ssl_lib s))"

text \<open>The same handles and objects, whatever else OpenSSL did.\<close>

definition same :: "'o ssl_state \<Rightarrow> 'o ssl_state \<Rightarrow> bool" where
  "same s s' \<longleftrightarrow> ssl_objs s' = ssl_objs s \<and> ssl_brk s' = ssl_brk s \<and> ctxs (ssl_lib s') = ctxs (ssl_lib s)
     \<and> cons (ssl_lib s') = cons (ssl_lib s)"

lemmas keeps = keeps_init keeps_set keeps_cipher keeps_cert keeps_key keeps_check keeps_state keeps_fd keeps_shutdown keeps_write

lemma on_lib_same:
  assumes "on_lib f s = (r, s')" and "\<And>k. ctxs (snd (f k)) = ctxs k" and "\<And>k. cons (snd (f k)) = cons k"
  shows "same s s'"
  using assms(1) assms(2,3) [of "ssl_lib s"] by (auto simp: on_lib_def same_def Let_def split: prod.splits)

lemma ctx_set_same: "c \<noteq> NULL \<Longrightarrow> \<exists>s'. ctx_set S x c s = Some s' \<and> same s s'"
  by (simp add: ctx_set_def same_def keeps)

lemma same_refl [simp]: "same s s" by (simp add: same_def)
lemma same_trans [trans]: "same s s' \<Longrightarrow> same s' s'' \<Longrightarrow> same s s''" by (simp add: same_def)

lemma same_held: "same s s' \<Longrightarrow> held s' = held s" by (simp add: same_def held_def)

lemma held_fresh: "held s \<Longrightarrow> 0 < ssl_brk s \<and> ssl_objs s (ssl_brk s) = None"
  by (simp add: held_def)

text \<open>A new object for a new context.\<close>

lemma new_ctx:
  assumes h: "held s" and c: "on_lib (SSL_CTX_new S m) s = (c, s1)" "c \<noteq> NULL"
    and p: "ssl_malloc \<lparr>ssl_ctx = c, ssl_con = NULL\<rparr> s1 = (p, s2)"
  shows "held s2 \<and> p = ssl_brk s \<and> ssl_objs s2 = (ssl_objs s)(p \<mapsto> \<lparr>ssl_ctx = c, ssl_con = NULL\<rparr>)"
proof -
  obtain k where k: "SSL_CTX_new S m (ssl_lib s) = (c, k)" "s1 = s\<lparr>ssl_lib := k\<rparr>"
    using c(1) by (auto simp: on_lib_def Let_def split: prod.splits)
  have n: "cons k = cons (ssl_lib s)" "c \<notin> ctxs (ssl_lib s)" "ctxs k = insert c (ctxs (ssl_lib s))"
    using ctx_new [OF k(1)] c(2) by auto
  let ?v = "\<lparr>ssl_ctx = c, ssl_con = NULL\<rparr>"
  have s2: "p = ssl_brk s" "s2 = s\<lparr>ssl_lib := k, ssl_objs := (ssl_objs s)(p \<mapsto> ?v), ssl_brk := p + 1\<rparr>"
    using p k(2) by (auto simp: ssl_malloc_def)
  have "owned ssl_ctx ((ssl_objs s)(p \<mapsto> ?v)) (ctxs k)" using owned_new [of ssl_ctx "ssl_objs s" _ p ?v] h n s2(1) by (simp add: held_def)
  moreover have "owned ssl_con ((ssl_objs s)(p \<mapsto> ?v)) (cons k)"
    using owned_new_NULL [of ssl_con "ssl_objs s" _ p ?v] h n s2(1) by (simp add: held_def)
  ultimately show ?thesis using h s2 by (auto simp: held_def)
qed

text \<open>Giving it up again.\<close>

lemma drop_new:
  assumes h: "held s" and p: "ssl_objs s p = Some \<lparr>ssl_ctx = c, ssl_con = NULL\<rparr>" "p \<noteq> NULL" "c \<noteq> NULL" and s': "same s s'"
  shows "\<exists>s''. drop_ctx S c p s' = Some (NULL, s'') \<and> held s'' \<and> ssl_objs s'' = (ssl_objs s)(p := None)"
proof -
  have live: "c \<in> ctxs (ssl_lib s')" using owned_live [of ssl_ctx "ssl_objs s" _ p] h p s' by (force simp: held_def same_def)
  let ?k = "SSL_CTX_free S c (ssl_lib s')"
  have k: "cons ?k = cons (ssl_lib s)" "ctxs ?k = ctxs (ssl_lib s) - {c}" using ctx_free [OF live] s' by (simp_all add: same_def)
  let ?s = "s'\<lparr>ssl_lib := ?k, ssl_objs := (ssl_objs s)(p := None)\<rparr>"
  have "drop_ctx S c p s' = Some (NULL, ?s)"
    using p s' by (simp add: drop_ctx_def ssl_dealloc_def dealloc_def rd_def same_def)
  moreover have "owned ssl_ctx ((ssl_objs s)(p := None)) (ctxs ?k)" "owned ssl_con ((ssl_objs s)(p := None)) (cons ?k)"
    using owned_del [of ssl_ctx "ssl_objs s" "ctxs (ssl_lib s)" p "\<lparr>ssl_ctx = c, ssl_con = NULL\<rparr>"]
      owned_del [of ssl_con "ssl_objs s" "cons (ssl_lib s)" p "\<lparr>ssl_ctx = c, ssl_con = NULL\<rparr>"] h k p(1)
    by (simp_all add: held_def)
  ultimately show ?thesis using h s' by (auto simp: held_def same_def)
qed

text \<open>What the functions that make objects may do: fail and leave everything as it was, or add an object.\<close>

definition makes :: "'o ssl_state \<Rightarrow> (ptr \<times> 'o ssl_state) option \<Rightarrow> bool" where
  "makes s r \<longleftrightarrow> (\<exists>p s'. r = Some (p, s') \<and> held s' \<and>
     (if p = NULL then ssl_objs s' = ssl_objs s else ssl_objs s p = None \<and> (\<exists>v. ssl_objs s' = (ssl_objs s)(p \<mapsto> v))))"

lemma makes_drop:
  assumes "held s" and "ssl_objs s p = None" and "held s2" and "ssl_objs s2 = (ssl_objs s)(p \<mapsto> \<lparr>ssl_ctx = c, ssl_con = NULL\<rparr>)"
    and "p \<noteq> NULL" and "c \<noteq> NULL" and "same s2 s'"
  shows "makes s (drop_ctx S c p s')" and "makes s (Some (p, s'))"
proof -
  have "(ssl_objs s2)(p := None) = ssl_objs s" using assms(2,4) by auto
  then show "makes s (drop_ctx S c p s')"
    using drop_new [OF assms(3) _ assms(5,6,7)] assms(4) unfolding makes_def by fastforce
  show "makes s (Some (p, s'))"
    using assms same_held [OF assms(7)] by (auto simp: makes_def same_def)
qed

text \<open>The calls in between change no handle.\<close>

lemma makes_set:
  assumes "c \<noteq> NULL" and "same s2 s1" and "\<And>s'. same s2 s' \<Longrightarrow> makes s (f s')"
  shows "makes s (ctx_set S x c s1 \<bind> f)"
proof -
  obtain s' where "ctx_set S x c s1 = Some s'" "same s1 s'" using ctx_set_same [OF assms(1)] by blast
  then show ?thesis using assms(3) same_trans [OF assms(2)] by simp
qed

lemma makes_call:
  "same s2 s1 \<Longrightarrow> (\<And>k. ctxs (snd (g k)) = ctxs k) \<Longrightarrow> (\<And>k. cons (snd (g k)) = cons k)
    \<Longrightarrow> (\<And>r s'. same s2 s' \<Longrightarrow> makes s (f r s')) \<Longrightarrow> makes s (let (r, s') = on_lib g s1 in f r s')"
  using on_lib_same [of g s1] same_trans [of s2 s1] by (cases "on_lib g s1") auto

lemma makes_if: "(b \<Longrightarrow> makes s x) \<Longrightarrow> (\<not> b \<Longrightarrow> makes s y) \<Longrightarrow> makes s (if b then x else y)"
  by simp

lemmas makes_intros = makes_set makes_call makes_if

lemma init_global_spec:
  assumes h: "held s" and ok: "fst (SSL_CTX_new S Client_method (ssl_lib s)) \<noteq> NULL"
  shows "makes s (ape_ssl_init_global_client_ctx S s)"
proof -
  obtain c s1 where c: "on_lib (SSL_CTX_new S Client_method) s = (c, s1)" by fastforce
  then have c0: "c \<noteq> NULL" using ok by (auto simp: on_lib_def Let_def split: prod.splits)
  obtain p s2 where p: "ssl_malloc \<lparr>ssl_ctx = c, ssl_con = NULL\<rparr> s1 = (p, s2)" by fastforce
  note n = new_ctx [OF h c c0 p] held_fresh [OF h]
  then have f: "ssl_objs s p = None" "p \<noteq> NULL" by auto
  note mk = makes_drop [OF h f(1) conjunct1 [OF n(1)] conjunct2 [OF conjunct2 [OF n(1)]] f(2) c0]
  show ?thesis unfolding ape_ssl_init_global_client_ctx_def c p split Let_def [of "(_, _)"]
    by (intro makes_intros mk c0 same_refl) (simp_all add: keeps)
qed

lemma init_ctx_spec:
  assumes h: "held s"
  shows "makes s (ape_ssl_init_ctx S cert key s)"
proof -
  obtain c s1 where c: "on_lib (SSL_CTX_new S Server_method) s = (c, s1)" by fastforce
  show ?thesis
  proof (cases "c = NULL")
    case True
    obtain k where k: "SSL_CTX_new S Server_method (ssl_lib s) = (NULL, k)" "s1 = s\<lparr>ssl_lib := k\<rparr>"
      using c True by (auto simp: on_lib_def Let_def split: prod.splits)
    then have sm: "same s s1" using ctx_new [OF k(1)] by (simp add: same_def)
    then have "held s1" using h same_held [OF sm] by simp
    then show ?thesis using True c sm by (simp add: ape_ssl_init_ctx_def makes_def same_def)
  next
    case c0: False
    obtain p s2 where p: "ssl_malloc \<lparr>ssl_ctx = c, ssl_con = NULL\<rparr> s1 = (p, s2)" by fastforce
    note n = new_ctx [OF h c c0 p] held_fresh [OF h]
    then have f: "ssl_objs s p = None" "p \<noteq> NULL" by auto
    note mk = makes_drop [OF h f(1) conjunct1 [OF n(1)] conjunct2 [OF conjunct2 [OF n(1)]] f(2) c0]
    show ?thesis unfolding ape_ssl_init_ctx_def c p split Let_def [of "(_, _)"] if_not_P [OF c0]
      by (intro makes_intros mk c0 same_refl) (simp_all add: keeps)
  qed
qed

text \<open>A connection is owned by its object once it is bound to its descriptor, and freed when it cannot be.\<close>

lemma init_con_spec:
  assumes h: "held s" and par: "par = NULL \<or> ssl_objs s par \<noteq> None"
  shows "makes s (ape_ssl_init_con S par fd acc s)"
proof (cases "par = NULL")
  case True
  then show ?thesis using h by (simp add: ape_ssl_init_con_def makes_def)
next
  case False
  then obtain v where v: "rd (ssl_objs s) par = Some v" using par by (auto simp: rd_def)
  obtain c s1 where c: "on_lib (SSL_new S (ssl_ctx v)) s = (c, s1)" by fastforce
  then obtain k where k: "SSL_new S (ssl_ctx v) (ssl_lib s) = (c, k)" "s1 = s\<lparr>ssl_lib := k\<rparr>"
    by (auto simp: on_lib_def Let_def split: prod.splits)
  note n = con_new [OF k(1)]
  show ?thesis
  proof (cases "c = NULL")
    case True
    then have sm: "same s s1" using n k(2) by (simp add: same_def)
    then have "held s1" using h same_held [OF sm] by simp
    then show ?thesis using False v c sm True by (simp add: ape_ssl_init_con_def makes_def same_def)
  next
    case c0: False
    then have live: "c \<notin> cons (ssl_lib s)" "cons k = insert c (cons (ssl_lib s))" "ctxs k = ctxs (ssl_lib s)" using n by simp_all
    let ?s2 = "s1\<lparr>ssl_lib := (if acc then SSL_set_accept_state S c else SSL_set_connect_state S c) k\<rparr>"
    have s2: "same s1 ?s2" using k(2) by (simp add: same_def keeps)
    obtain r s3 where r: "on_lib (SSL_set_fd S c fd) ?s2 = (r, s3)" by fastforce
    have "same ?s2 s3" by (rule on_lib_same [OF r]) (simp_all add: keeps)
    then have s3: "ssl_objs s3 = ssl_objs s" "ssl_brk s3 = ssl_brk s" "ctxs (ssl_lib s3) = ctxs (ssl_lib s)"
      "cons (ssl_lib s3) = insert c (cons (ssl_lib s))" using s2 k(2) live by (simp_all add: same_def)
    have eq: "ape_ssl_init_con S par fd acc s = (if r \<noteq> 1 then Some (NULL, s3\<lparr>ssl_lib := SSL_free S c (ssl_lib s3)\<rparr>)
        else Some (ssl_malloc \<lparr>ssl_ctx = NULL, ssl_con = c\<rparr> s3))"
      using False v c c0 r k(2) by (simp add: ape_ssl_init_con_def)
    have "c \<in> cons (ssl_lib s3)" using s3(4) by simp
    note fr = con_free [OF this]
    have "held (s3\<lparr>ssl_lib := SSL_free S c (ssl_lib s3)\<rparr>)" using h fr s3 live(1) by (simp add: held_def)
    moreover have "makes s (Some (ssl_malloc \<lparr>ssl_ctx = NULL, ssl_con = c\<rparr> s3))"
    proof -
      let ?v = "\<lparr>ssl_ctx = NULL, ssl_con = c\<rparr>" and ?p = "ssl_brk s"
      have "owned ssl_con ((ssl_objs s)(?p \<mapsto> ?v)) (cons (ssl_lib s3))" "owned ssl_ctx ((ssl_objs s)(?p \<mapsto> ?v)) (ctxs (ssl_lib s3))"
        using owned_new [of ssl_con "ssl_objs s" _ ?p ?v] owned_new_NULL [of ssl_ctx "ssl_objs s" _ ?p ?v] h live(1) s3
        by (simp_all add: held_def)
      then show ?thesis using h s3 by (auto simp: makes_def ssl_malloc_def held_def)
    qed
    ultimately show ?thesis unfolding eq using s3(1) by (simp add: makes_def)
  qed
qed

lemma destroy_spec:
  assumes h: "held s" and p: "ssl_objs s p = Some v" "p \<noteq> NULL"
  shows "\<exists>s'. ape_ssl_destroy S p s = Some s' \<and> held s' \<and> ssl_objs s' = (ssl_objs s)(p := None)"
proof -
  have o: "owned ssl_ctx (ssl_objs s) (ctxs (ssl_lib s))" "owned ssl_con (ssl_objs s) (cons (ssl_lib s))" using h by (simp_all add: held_def)
  define k1 where "k1 = (if ssl_ctx v \<noteq> NULL then SSL_CTX_free S (ssl_ctx v) (ssl_lib s) else ssl_lib s)"
  define k2 where "k2 = (if ssl_con v \<noteq> NULL then SSL_free S (ssl_con v) k1 else k1)"
  have k1: "cons k1 = cons (ssl_lib s)" "owned ssl_ctx ((ssl_objs s)(p := None)) (ctxs k1)"
    using ctx_free [OF owned_live [OF o(1) p(1)]] owned_del [OF o(1) p(1)] by (auto simp: k1_def simp del: neq0_conv)
  have live: "ssl_con v \<noteq> NULL \<Longrightarrow> ssl_con v \<in> cons k1" using owned_live [OF o(2) p(1)] unfolding k1(1) .
  have "ctxs k2 = ctxs k1" "owned ssl_con ((ssl_objs s)(p := None)) (cons k2)"
    using con_free [OF live] owned_del [OF o(2) p(1)] k1(1) by (auto simp: k2_def simp del: neq0_conv)
  then have "held (s\<lparr>ssl_lib := k2, ssl_objs := (ssl_objs s)(p := None)\<rparr>)" using h k1(2) by (simp add: held_def)
  then show ?thesis using p
    by (intro exI [of _ "s\<lparr>ssl_lib := k2, ssl_objs := (ssl_objs s)(p := None)\<rparr>"])
      (simp add: ape_ssl_destroy_def ssl_dealloc_def dealloc_def rd_def Let_def k1_def k2_def)
qed

lemma io_spec:
  assumes "held s" and "p = NULL \<or> ssl_objs s p \<noteq> None"
  shows "\<exists>s'. ape_ssl_shutdown S p s = Some s' \<and> held s'"
    and "\<exists>n s'. ape_ssl_write S p bs s = Some (n, s') \<and> held s'"
    and "0 \<le> m \<Longrightarrow> \<exists>n bs s'. ape_ssl_read S p m s = Some (n, bs, s') \<and> held s'"
proof -
  have io: "held (s\<lparr>ssl_lib := k\<rparr>)" if "ctxs k = ctxs (ssl_lib s)" "cons k = cons (ssl_lib s)" for k
    using assms(1) that by (simp add: held_def)
  show "\<exists>s'. ape_ssl_shutdown S p s = Some s' \<and> held s'" using assms io
    by (auto simp: ape_ssl_shutdown_def rd_def keeps)
  show "\<exists>n s'. ape_ssl_write S p bs s = Some (n, s') \<and> held s'" using assms io keeps_write
    by (auto simp: ape_ssl_write_def on_lib_def rd_def Let_def split_beta)
  show "\<exists>n bs s'. ape_ssl_read S p m s = Some (n, bs, s') \<and> held s'" if m: "0 \<le> m"
  proof (cases "p = NULL")
    case True
    then show ?thesis using assms(1) by (simp add: ape_ssl_read_def)
  next
    case False
    then obtain v where v: "ssl_objs s p = Some v" using assms(2) by auto
    obtain n bs k where k: "SSL_read S (ssl_con v) m (ssl_lib s) = (n, bs, k)" by (cases "SSL_read S (ssl_con v) m (ssl_lib s)")
    then show ?thesis using reads [OF k] io [of k] False v m assms(1) by (simp add: ape_ssl_read_def rd_def)
  qed
qed

text \<open>One step: it keeps the invariant, and faults only when there is no context for all clients.\<close>

lemma step_held:
  assumes h: "held s" and a: "ssl_legal a s"
    and ok: "a = Init_global \<Longrightarrow> fst (SSL_CTX_new S Client_method (ssl_lib s)) \<noteq> NULL"
  shows "\<exists>s'. ssl_step S a s = Some s' \<and> held s'"
proof (cases a)
  case Lib_init
  then show ?thesis using h by (simp add: ape_ssl_library_init_def held_def keeps)
next
  case (Init_ctx cert key)
  then show ?thesis using init_ctx_spec [OF h, of cert key] by (auto simp: makes_def)
next
  case Init_global
  then show ?thesis using init_global_spec [OF h ok] by (auto simp: makes_def)
next
  case (Init_con p fd acc)
  then show ?thesis using init_con_spec [OF h, of p fd acc] a by (auto simp: makes_def)
next
  case (Secure_read p n)
  then show ?thesis using io_spec(3) [OF h, of p n] a by auto
next
  case (Secure_write p bs)
  then show ?thesis using io_spec(2) [OF h, of p bs] a by auto
next
  case (Secure_shutdown p)
  then show ?thesis using io_spec(1) [OF h, of p] a by auto
next
  case (Secure_destroy p)
  show ?thesis
  proof (cases "p = NULL")
    case True
    then show ?thesis using h Secure_destroy by (simp add: ape_ssl_destroy_def)
  next
    case False
    then obtain v where "ssl_objs s p = Some v" using a Secure_destroy by auto
    then show ?thesis using destroy_spec [OF h _ False] Secure_destroy by auto
  qed
qed

lemma global_faults: "fst (SSL_CTX_new S Client_method (ssl_lib s)) = NULL \<Longrightarrow> ssl_step S Init_global s = None"
  by (auto simp: ape_ssl_init_global_client_ctx_def on_lib_def ssl_malloc_def ctx_set_def Let_def split: prod.splits)

lemma step_Some:
  assumes h: "held s" and a: "ssl_legal a s" and st: "ssl_step S a s = Some s'"
  shows "held s'"
proof (cases "a = Init_global \<and> fst (SSL_CTX_new S Client_method (ssl_lib s)) = NULL")
  case True
  then show ?thesis using st global_faults [of s] by auto
next
  case False
  then show ?thesis using step_held [OF h a] st by auto
qed

lemma used_held: "ssl_used S s0 s \<Longrightarrow> held s0 \<Longrightarrow> held s"
  by (induction rule: ssl_used.induct) (auto intro: step_Some)

end

section \<open>No handle is lost\<close>

text \<open>C26: However the functions are used, as long as the pointers passed to them are NULL or come from
  them and were not destroyed: every context and connection OpenSSL has made is held by one object or was
  freed, also when a certificate, a key or a descriptor was refused; when all objects are destroyed nothing is
  left. No call faults, save that of \<open>ape_ssl_init_global_client_ctx\<close> when OpenSSL makes no
  context.\<close>

theorem ssl_handles_owned:
  assumes "tls S ctxs cons" and "ssl_used S s0 s" and "0 < ssl_brk s0" and "ssl_objs s0 = Map.empty"
    and "ctxs (ssl_lib s0) = {}" and "cons (ssl_lib s0) = {}"
  shows "owned ssl_ctx (ssl_objs s) (ctxs (ssl_lib s)) \<and> owned ssl_con (ssl_objs s) (cons (ssl_lib s))
     \<and> (ssl_objs s = Map.empty \<longrightarrow> ctxs (ssl_lib s) \<subseteq> {NULL} \<and> cons (ssl_lib s) \<subseteq> {NULL})
     \<and> (ssl_legal a s \<longrightarrow> (ssl_step S a s = None \<longleftrightarrow> a = Init_global \<and> fst (SSL_CTX_new S Client_method (ssl_lib s)) = NULL))"
proof -
  have "tls.held ctxs cons s0" using assms(3-6) by (simp add: tls.held_def [OF assms(1)] owned_def owners_def)
  then have h: "tls.held ctxs cons s" by (rule tls.used_held [OF assms(1,2)])
  have o: "owned ssl_ctx (ssl_objs s) (ctxs (ssl_lib s))" "owned ssl_con (ssl_objs s) (cons (ssl_lib s))"
    using h by (simp_all add: tls.held_def [OF assms(1)])
  moreover have "ssl_step S a s = None \<longleftrightarrow> a = Init_global \<and> fst (SSL_CTX_new S Client_method (ssl_lib s)) = NULL"
    if "ssl_legal a s"
    using tls.step_held [OF assms(1) h that] tls.global_faults [OF assms(1), of s] by (metis option.distinct(1))
  ultimately show ?thesis using owned_nothing by metis
qed

text \<open>An OpenSSL where nothing happens, and one that counts: handles are numbered, a certificate is good if it is not empty, and a
  connection echoes the length of what is written.\<close>

record tls_count =
  tc_ctxs :: "ptr set"
  tc_cons :: "ptr set"
  tc_next :: ptr

definition count_new :: "(tls_count \<Rightarrow> ptr set) \<Rightarrow> ((ptr set \<Rightarrow> ptr set) \<Rightarrow> tls_count \<Rightarrow> tls_count) \<Rightarrow> tls_count \<Rightarrow> ptr \<times> tls_count" where
  "count_new get upd k = (if tc_next k = NULL \<or> tc_next k \<in> get k then (NULL, k) else (tc_next k, (upd (insert (tc_next k)) k)\<lparr>tc_next := tc_next k + 1\<rparr>))"

definition still_tls :: "'o openssl" where
  "still_tls = \<lparr>SSL_init = (\<lambda>k. k), SSL_CTX_new = (\<lambda>m k. (3, k)), SSL_CTX_set = (\<lambda>x c k. k),
     SSL_CTX_set_cipher_list = (\<lambda>c l k. (1, k)), SSL_CTX_use_certificate_chain_file = (\<lambda>c f k. (1, k)),
     SSL_CTX_use_PrivateKey_file = (\<lambda>c f k. (1, k)), SSL_CTX_check_private_key = (\<lambda>c k. (1, k)),
     SSL_CTX_free = (\<lambda>c k. k), SSL_new = (\<lambda>c k. (5, k)),
     SSL_set_accept_state = (\<lambda>c k. k), SSL_set_connect_state = (\<lambda>c k. k), SSL_set_fd = (\<lambda>c fd k. (1, k)),
     SSL_read = (\<lambda>c n k. (0, [], k)), SSL_write = (\<lambda>c bs k. (int (length bs), k)), SSL_shutdown = (\<lambda>c k. k),
     SSL_free = (\<lambda>c k. k), ERR_clear_error = (\<lambda>k. k), SSL_get_error = (\<lambda>c n k. (SSL_ERROR_OTHER, k)),
     SSL_set_tlsext_host_name = (\<lambda>c h k. k)\<rparr>"

definition count_tls :: "tls_count openssl" where
  "count_tls = still_tls\<lparr>SSL_CTX_new := (\<lambda>m. count_new tc_ctxs tc_ctxs_update),
     SSL_CTX_use_certificate_chain_file := (\<lambda>c f k. (if f = [] then 0 else 1, k)),
     SSL_CTX_free := (\<lambda>c k. k\<lparr>tc_ctxs := tc_ctxs k - {c}\<rparr>), SSL_new := (\<lambda>c. count_new tc_cons tc_cons_update),
     SSL_set_fd := (\<lambda>c fd k. (if fd < 0 then 0 else 1, k)), SSL_free := (\<lambda>c k. k\<lparr>tc_cons := tc_cons k - {c}\<rparr>)\<rparr>"

interpretation counting: tls count_tls tc_ctxs tc_cons
  by unfold_locales (auto simp: count_tls_def still_tls_def count_new_def split: if_splits)

definition tls0 :: "tls_count ssl_state" where
  "tls0 = \<lparr>ssl_lib = \<lparr>tc_ctxs = {}, tc_cons = {}, tc_next = 1\<rparr>, ssl_objs = Map.empty, ssl_brk = 1\<rparr>"

text \<open>A context, a certificate that is refused, a connection of the first, and its destruction.\<close>

definition tls_acts :: "ssl_act list" where
  "tls_acts = [Init_ctx [65] None, Init_ctx [] None, Init_con 1 4 True, Init_con 1 (- 1) True, Secure_destroy 3, Secure_destroy 1]"

theorem ssl_handles_owned_witness:
  "\<exists>s. ssl_used count_tls tls0 s \<and> ssl_objs s = Map.empty \<and> tc_ctxs (ssl_lib s) \<subseteq> {NULL} \<and> tc_next (ssl_lib s) = 5"
proof -
  have "\<exists>s. ssl_run count_tls tls_acts tls0 = Some s \<and> (\<forall>p. ssl_objs s p = None) \<and> tc_next (ssl_lib s) = 5"
    by (simp add: tls_acts_def tls0_def count_tls_def still_tls_def count_new_def ape_ssl_init_ctx_def ape_ssl_init_con_def ape_ssl_destroy_def
        on_lib_def ssl_malloc_def ctx_set_def drop_ctx_def ssl_dealloc_def dealloc_def rd_def Let_def)
  then obtain s where s: "ssl_run count_tls tls_acts tls0 = Some s" "ssl_objs s = Map.empty" "tc_next (ssl_lib s) = 5" by auto
  then have "ssl_used count_tls tls0 s" using ssl_run_used [OF _ ssl_used.start] by blast
  then show ?thesis using ssl_handles_owned [OF counting.tls_axioms, of tls0 s Lib_init] s by (auto simp: tls0_def)
qed

end
