(* ===== verification/Shutdown_Props.thy ===== *)
theory Shutdown_Props
  imports Flow Start_Props
begin

unbundle bit_operations_syntax

text \<open>
  Shutting a connection down while there is data to send: the shutdown becomes a job behind that of the
  data, and is carried out when the data is gone.
\<close>

section \<open>Queueing the shutdown\<close>

lemma job_kind_shutdown:
  "job_kind j = 0 \<Longrightarrow> job_kind (j\<lparr>pflags := pflags j OR APE_SOCKET_JOB_ACTIVE OR APE_SOCKET_JOB_SHUTDOWN\<rparr>) = APE_SOCKET_JOB_SHUTDOWN"
  unfolding job_kind_set by (intro bit_word_eqI) (auto simp: bit_and_iff bit_or_iff bit_not_iff bit_job_consts)

lemma job_alloc_shutdown:
  "pool_is_alloc (j\<lparr>pflags := pflags j OR APE_SOCKET_JOB_ACTIVE OR APE_SOCKET_JOB_SHUTDOWN\<rparr>) = pool_is_alloc j"
  using and_exp_eq_0_iff_not_bit [of "pflags (j\<lparr>pflags := pflags j OR APE_SOCKET_JOB_ACTIVE OR APE_SOCKET_JOB_SHUTDOWN\<rparr>)" 0]
    and_exp_eq_0_iff_not_bit [of "pflags j" 0]
  by (simp add: pool_is_alloc_def APE_POOL_ALLOC_def bit_or_iff bit_job_consts)

lemma job_kinds [simp]:
  "APE_SOCKET_JOB_SHUTDOWN \<noteq> APE_SOCKET_JOB_WRITEV" "APE_SOCKET_JOB_SHUTDOWN \<noteq> APE_SOCKET_JOB_SENDFILE"
  by (simp_all add: APE_SOCKET_JOB_SHUTDOWN_def APE_SOCKET_JOB_WRITEV_def APE_SOCKET_JOB_SENDFILE_def)

text \<open>The slot after the head is taken, as the head has data.\<close>

lemma take_second_slot:
  assumes s: "sock p w = Some s" and sl: "slots False (jobs s) (job_mem w)"
    and j: "rd (cells (job_mem w)) (pl_head (jobs s)) = Some j" "job_flag APE_SOCKET_JOB_ACTIVE j"
  shows "\<exists>l m. ape_socket_job_get_slot p APE_SOCKET_JOB_SHUTDOWN w
        = Some (pl_current l, w\<lparr>job_mem := m, sockets := (sockets w)(p \<mapsto> s\<lparr>jobs := l\<rparr>)\<rparr>)
     \<and> slots True l m \<and> pl_head l = pl_head (jobs s) \<and> rd (cells m) (pl_head l) = Some j"
proof -
  let ?h = "pl_head (jobs s)"
  obtain bs where bs: "pool_inv (job_mem w) (jobs s) (?h # bs)" "bs \<noteq> []" "\<forall>a \<in> set bs. idle_slot (cells (job_mem w)) a"
    and cur: "pl_current (jobs s) = ?h" using sl unfolding slots_def job_pool_def by auto
  then obtain a as where as: "bs = a # as" by (cases bs) auto
  have dist: "distinct (?h # a # as)" using pool_inv_dist [OF bs(1)] as by simp
  have "pl_queue (jobs s) = last (a # as)" using bs(1) as by (simp add: pool_inv_def)
  then have q: "pl_queue (jobs s) \<noteq> ?h" using last_in_set [of "a # as"] dist by auto
  have nj: "pnext j = a" using bs(1) j(1) as by (auto simp: pool_inv_def split: option.splits)
  obtain v where v: "rd (cells (job_mem w)) a = Some v" "job_kind v = 0" using bs(3) as by (auto simp: idle_slot_def)
  have n0: "a \<noteq> NULL" "p \<noteq> NULL" using v s by (auto simp: sock_def)
  let ?v = "v\<lparr>pflags := pflags v OR APE_SOCKET_JOB_ACTIVE OR APE_SOCKET_JOB_SHUTDOWN\<rparr>"
  let ?l = "(jobs s)\<lparr>pl_current := a\<rparr>" let ?m = "(job_mem w)\<lparr>cells := (cells (job_mem w))(a \<mapsto> ?v)\<rparr>"
  have "pool_inv ?m (jobs s) (?h # a # as)"
    using pool_inv_alloc_upd [OF bs(1) v(1), of ?v] job_alloc_shutdown [of v] as by simp
  then have "pool_inv ?m ?l (?h # a # as)" by (auto simp: pool_inv_def)
  moreover have "\<forall>b \<in> set as. idle_slot (cells ?m) b" using bs(3) as dist by (auto simp: idle_slot_def)
  ultimately have "slots True ?l ?m"
    using job_kind_shutdown [OF v(2)] n0 unfolding slots_def by (auto intro!: exI [of _ as] exI [of _ ?v])
  moreover have "ape_socket_job_get_slot p APE_SOCKET_JOB_SHUTDOWN w
        = Some (pl_current ?l, w\<lparr>job_mem := ?m, sockets := (sockets w)(p \<mapsto> s\<lparr>jobs := ?l\<rparr>)\<rparr>)"
    using s cur j q nj v(1) n0 by (simp add: ape_socket_job_get_slot_def upd_sock_def sock_def wr_Some Let_def)
  ultimately show ?thesis using j(1) dist n0
    by (intro exI [of _ ?l] exI [of _ ?m]) auto
qed

lemma shutdown_queues:
  assumes q: "queued p w fd ps" and ne: "ps \<noteq> []"
  shows "\<exists>w'. APE_socket_shutdown E p w = Some w' \<and> queued_in Ending p w' fd ps \<and> kernel w' = kernel w
     \<and> timers_of w' = timers_of w"
proof -
  obtain j where cn: "conn_in Plain p w fd j (length (bytes_of ps))" and j: "job_flag APE_SOCKET_JOB_ACTIVE j"
    "job_kind j = APE_SOCKET_JOB_WRITEV" "ring (pdata j) (packet_mem w) (data_mem w) ps"
    using q ne unfolding queued_def by auto
  obtain s where s: "sock p w = Some s" "slots False (jobs s) (job_mem w)" "rd (cells (job_mem w)) (pl_head (jobs s)) = Some j"
    "sk_state s = APE_SOCKET_ST_ONLINE" using cn unfolding conn_in_def by auto
  obtain l m where lm: "ape_socket_job_get_slot p APE_SOCKET_JOB_SHUTDOWN w
        = Some (pl_current l, w\<lparr>job_mem := m, sockets := (sockets w)(p \<mapsto> s\<lparr>jobs := l\<rparr>)\<rparr>)"
     "slots True l m" "pl_head l = pl_head (jobs s)" "rd (cells m) (pl_head l) = Some j"
    using take_second_slot [OF s(1-3) j(1)] by blast
  let ?w = "w\<lparr>job_mem := m, sockets := (sockets w)(p \<mapsto> s\<lparr>jobs := l\<rparr>)\<rparr>"
  have p0: "p \<noteq> NULL" using s(1) by (auto simp: sock_def)
  have "must_queue p w = Some True" using s j(1) by (simp add: must_queue_def)
  then have "APE_socket_shutdown E p w = Some ?w" using s p0 lm(1) by (simp add: APE_socket_shutdown_def)
  moreover have "conn_in Ending p ?w fd j (length (bytes_of ps))"
    using cn s(1) lm(2-4) p0 unfolding conn_in_def by (auto simp: sock_def)
  then have "queued_in Ending p ?w fd ps" using j ne unfolding queued_in_def by auto
  ultimately show ?thesis by (intro exI [of _ ?w]) simp
qed

section \<open>Carrying it out\<close>

lemma job_link [simp]: "job_kind (j\<lparr>pnext := q\<rparr>) = job_kind j" "job_flag f (j\<lparr>pnext := q\<rparr>) = job_flag f j"
  by (simp_all add: job_kind_def job_flag_def)

text \<open>The job of the data is done: the next one is the shutdown.\<close>

lemma finish_shows_shutdown:
  assumes cn: "conn_in Ending p w fd j n" and s: "sock p w = Some s"
  shows "\<exists>c w' l v. finish_job p (pl_head (jobs s)) w = Some (c, w') \<and> c \<noteq> NULL \<and> sock p w' = Some (s\<lparr>jobs := l\<rparr>)
     \<and> rd (cells (job_mem w')) c = Some v \<and> job_flag APE_SOCKET_JOB_ACTIVE v \<and> job_kind v = APE_SOCKET_JOB_SHUTDOWN
     \<and> kernel w' = kernel w \<and> timers_of w' = timers_of w"
proof -
  let ?h = "pl_head (jobs s)" and ?c = "pl_current (jobs s)"
  obtain as v where as: "pool_inv (job_mem w) (jobs s) (?h # ?c # as)" "rd (cells (job_mem w)) ?c = Some v"
     "job_flag APE_SOCKET_JOB_ACTIVE v" "job_kind v = APE_SOCKET_JOB_SHUTDOWN" and j: "rd (cells (job_mem w)) ?h = Some j"
    using cn s unfolding conn_in_def slots_def by auto
  have hc: "?h \<noteq> ?c" using pool_inv_dist [OF as(1)] by simp
  have nj: "pnext j = ?c" using as(1) j by (auto simp: pool_inv_def split: option.splits)
  have n0: "?h \<noteq> NULL" "?c \<noteq> NULL" "p \<noteq> NULL" using as(2) j s by (auto simp: sock_def)
  let ?h1 = "(cells (job_mem w))(?h \<mapsto> j\<lparr>pflags := pflags j AND NOT APE_SOCKET_JOB_ACTIVE\<rparr>)"
  obtain l m where l: "ape_pool_head_to_current (jobs s) ((job_mem w)\<lparr>cells := ?h1\<rparr>) = Some (?c, l, m)"
    "rd (cells m) ?c = Some (v\<lparr>pnext := ?h\<rparr>)"
    using as(2) j hc nj n0 by (auto simp: ape_pool_head_to_current_def wr_Some Let_def)
  let ?w = "w\<lparr>job_mem := m, sockets := (sockets w)(p \<mapsto> s\<lparr>jobs := l\<rparr>)\<rparr>"
  have "finish_job p ?h w = Some (?c, ?w)"
    using s j n0 l(1) by (simp add: finish_job_def upd_sock_def sock_def)
  then show ?thesis using l(2) as(3,4) n0
    by (intro exI [of _ ?c] exI [of _ ?w] exI [of _ l] exI [of _ "v\<lparr>pnext := ?h\<rparr>"]) (simp add: sock_def)
qed

text \<open>What a shut down connection looks like: its destruction is scheduled, on the list of timers.\<close>

definition ended :: "ptr \<Rightarrow> ('b, 'k) ape_net \<Rightarrow> bool" where
  "ended p w \<longleftrightarrow> (\<exists>s xs as q t. sock p w = Some s \<and> sk_state s = APE_SOCKET_ST_SHUTDOWN \<and> sk_type s = APE_SOCKET_TP_CLIENT
     \<and> tinv w xs as \<and> q \<in> set xs \<and> rd (timer_objs w) q = Some t \<and> callback t = FN_ape_socket_destroy \<and> arg t = p)"

lemma tinv_timers_of: "timers_of w' = timers_of w \<Longrightarrow> tinv w' xs as = tinv w xs as"
  by (simp add: timers_of_def tinv_def tlist_def alist_def tfresh_def tcalls_def acalls_def)

lemma ended_flags:
  assumes "ended p w"
  obtains w' s where "upd_sock p (\<lambda>s. s\<lparr>sk_flags := f s\<rparr>) w = Some w'" and "ended p w'" and "kernel w' = kernel w"
    and "sock p w' = Some s" and "sk_state s = APE_SOCKET_ST_SHUTDOWN" and "sk_type s = APE_SOCKET_TP_CLIENT"
proof -
  from assms obtain s xs as q t where s: "sock p w = Some s" "sk_state s = APE_SOCKET_ST_SHUTDOWN" "sk_type s = APE_SOCKET_TP_CLIENT"
    and t: "tinv w xs as" "q \<in> set xs" "rd (timer_objs w) q = Some t" "callback t = FN_ape_socket_destroy" "arg t = p"
    unfolding ended_def by blast
  have p0: "p \<noteq> NULL" using s(1) by (auto simp: sock_def)
  let ?s = "s\<lparr>sk_flags := f s\<rparr>" let ?w = "w\<lparr>sockets := (sockets w)(p \<mapsto> ?s)\<rparr>"
  have "tinv ?w xs as" using t(1) tinv_timers_of [of ?w w] by simp
  then have "ended p ?w" using s(2,3) t(2-5) p0 unfolding ended_def
    by (intro exI [of _ ?s] exI [of _ xs] exI [of _ as] exI [of _ q] exI [of _ t]) (simp add: sock_def)
  moreover have "upd_sock p (\<lambda>s. s\<lparr>sk_flags := f s\<rparr>) w = Some ?w" using s(1) by (simp add: upd_sock_def sock_def)
  ultimately show ?thesis using that [of ?w ?s] s(2,3) p0 by (simp add: sock_def)
qed

lemma create_keeps: "APE_timer_create ms cb x w = Some (q, w') \<Longrightarrow> sockets w' = sockets w \<and> kernel w' = kernel w"
  by (auto simp: APE_timer_create_def mach_absolute_time_def Let_def split: if_splits Option.bind_splits prod.splits)

lemma shutdown_ends:
  assumes s: "sock p w = Some s" "sk_state s = APE_SOCKET_ST_ONLINE" "sk_type s = APE_SOCKET_TP_CLIENT" "\<not> issecure s"
    and t: "tinv w xs as"
  shows "\<exists>w'. ape_shutdown E p w = Some w' \<and> ended p w'
     \<and> kernel w' = (if sk_proto s \<noteq> APE_SOCKET_PT_UDP then sys_shutdown (nsys E) (sk_fd s) (kernel w) else kernel w)"
proof -
  let ?w1 = "if sk_proto s \<noteq> APE_SOCKET_PT_UDP then on_kernel (sys_shutdown (nsys E) (sk_fd s)) w else w"
  let ?s = "s\<lparr>sk_state := APE_SOCKET_ST_SHUTDOWN\<rparr>"
  define w2 where "w2 = ?w1\<lparr>sockets := (sockets w)(p \<mapsto> ?s)\<rparr>"
  have p0: "p \<noteq> NULL" using s(1) by (auto simp: sock_def)
  have w2: "upd_sock p (\<lambda>s. s\<lparr>sk_state := APE_SOCKET_ST_SHUTDOWN\<rparr>) ?w1 = Some w2" "sock p w2 = Some ?s"
    "timers_of w2 = timers_of w" "kernel w2 = kernel ?w1"
    using s(1) p0 by (simp_all add: w2_def upd_sock_def sock_def on_kernel_def timers_of_def)
  have t2: "tinv w2 xs as" using t tinv_timers_of [OF w2(3)] by simp
  have cb: "FN_ape_socket_destroy \<noteq> NULL" by (simp add: FN_ape_socket_destroy_def)
  obtain q w3 x where w3: "APE_timer_create 0 FN_ape_socket_destroy p w2 = Some (q, w3)" "evolves w2 w3 [q] []"
    "rd (timer_objs w3) q = Some x" "callback x = FN_ape_socket_destroy" "arg x = p"
    using create_evolves [OF t2 cb, of 0 p] by blast
  note k3 = create_keeps [OF w3(1)]
  have "tinv w3 ([q] @ xs) ([] @ as)" using w3(2) t2 unfolding evolves_def by blast
  then have "ended p w3" using w2(2) s(3) k3 w3(3-5) unfolding ended_def
    by (intro exI [of _ ?s] exI [of _ "[q] @ xs"] exI [of _ "[] @ as"] exI [of _ q] exI [of _ x]) (simp add: sock_def)
  moreover have "ape_shutdown E p w = Some w3"
    using s p0 w2(1,2) w3(1) by (simp add: ape_shutdown_def ape_socket_destroy_async_def timer_dispatch_async_def)
  ultimately show ?thesis using k3 w2(4) by (intro exI [of _ w3]) (simp add: on_kernel_def)
qed

text \<open>Shutting a descriptor down takes back nothing of what was sent.\<close>

locale closing_kernel = stream_kernel +
  assumes half: "out (sys_shutdown S fd k) = out k"
begin

lemma do_jobs_closing:
  assumes E: "nsys E = S" and q: "queued_in Ending p w fd ps" and ne: "ps \<noteq> []" and t: "tinv w xs as"
  shows "\<exists>r w' ps' sent. ape_socket_do_jobs E p w = Some (r, w') \<and> r \<noteq> 1
     \<and> out (kernel w') = (out (kernel w))(fd := out (kernel w) fd @ sent) \<and> sent @ bytes_of ps' = bytes_of ps
     \<and> (if ps' = [] then ended p w' else queued_in Ending p w' fd ps' \<and> tinv w' xs as \<and> room (kernel w) fd < length (bytes_of ps))"
proof -
  obtain s j l where s: "sock p w = Some s" "\<not> issecure s"
    "rd (cells (job_mem w)) (pl_head (jobs s)) = Some j" "job_flag APE_SOCKET_JOB_ACTIVE j"
    "job_kind j = APE_SOCKET_JOB_WRITEV" "rd (list_objs (packet_mem w)) (pdata j) = Some l"
    using queued_ring [OF q ne] by (metis conn_mode.distinct(5))
  obtain r w1 ps' sent where wj: "writev_job E p (pdata j) (pl_head l) w = Some (r, w1)"
    "out (kernel w1) = (out (kernel w))(fd := out (kernel w) fd @ sent)" "sent @ bytes_of ps' = bytes_of ps"
    "\<exists>s'. sock p w1 = Some s' \<and> jobs s' = jobs s"
    "if r = None then ps' = [] \<and> conn_in Ending p w1 fd j 0 \<and> ring (pdata j) (packet_mem w1) (data_mem w1) []
     else r = Some 0 \<and> queued_in Ending p w1 fd ps' \<and> ps' \<noteq> []"
    "r \<noteq> None \<longrightarrow> room (kernel w) fd < length (bytes_of ps)" "timers_of w1 = timers_of w"
    using writev_job_spec [OF E q ne _ s(1,3,6)] by blast
  have h0: "pl_head (jobs s) \<noteq> NULL" using s(3) by auto
  have run: "run_job E p (pl_head (jobs s)) w = Some (r, w1)"
    using s wj(1) by (simp add: run_job_def)
  show ?thesis
  proof (cases r)
    case None
    obtain s' where s': "sock p w1 = Some s'" "jobs s' = jobs s" using wj(4) by blast
    have cn: "conn_in Ending p w1 fd j 0" and on: "sk_state s' = APE_SOCKET_ST_ONLINE" "sk_type s' = APE_SOCKET_TP_CLIENT" "\<not> issecure s'"
      using wj(5) None s' unfolding conn_in_def by auto
    obtain c w2 l' v where w2: "finish_job p (pl_head (jobs s)) w1 = Some (c, w2)" "c \<noteq> NULL" "sock p w2 = Some (s'\<lparr>jobs := l'\<rparr>)"
      "rd (cells (job_mem w2)) c = Some v" "job_flag APE_SOCKET_JOB_ACTIVE v" "job_kind v = APE_SOCKET_JOB_SHUTDOWN"
      "kernel w2 = kernel w1" "timers_of w2 = timers_of w1"
      using finish_shows_shutdown [OF cn s'(1)] s'(2) by auto
    have "tinv w2 xs as" using t tinv_timers_of [of w2 w] w2(8) wj(7) by simp
    then obtain w3 where w3: "ape_shutdown E p w2 = Some w3" "ended p w3" "out (kernel w3) = out (kernel w2)"
      using shutdown_ends [of p w2 "s'\<lparr>jobs := l'\<rparr>" xs as E] w2(3) on E half by auto
    have "run_job E p c w2 = Some (Some (- 1), w3)" using w2(3-6) w3(1) by (simp add: run_job_def)
    then have "job_loop E p c 1 w2 = Some (- 1, w3)" using w2(2,4,5) by (subst job_loop.simps) simp
    then have "ape_socket_do_jobs E p w = Some (- 1, w3)"
      using s(1,3,4) run None w2(1) h0 by (simp add: ape_socket_do_jobs_def job_loop.simps [of E p "pl_head (jobs s)" 0])
    then show ?thesis using w3 w2(7) wj(2,3,5) None
      by (intro exI [of _ "- 1"] exI [of _ w3] exI [of _ "[]"] exI [of _ sent]) simp
  next
    case (Some x)
    then have "ape_socket_do_jobs E p w = Some (0, w1)"
      using s(1,3,4) run h0 wj(5) by (simp add: ape_socket_do_jobs_def job_loop.simps [of E p "pl_head (jobs s)" 0])
    moreover have "tinv w1 xs as" using t tinv_timers_of [OF wj(7)] by simp
    ultimately show ?thesis using wj Some by (intro exI [of _ 0] exI [of _ w1] exI [of _ ps'] exI [of _ sent]) auto
  qed
qed

text \<open>An event that says the connection can be written to, before the shutdown and after it.\<close>

lemma writable_closing:
  assumes E: "nsys E = S" and q: "queued_in Ending p w fd ps" and ne: "ps \<noteq> []" and t: "tinv w xs as"
  shows "\<exists>w' ps' sent. socket_event E p EVENT_WRITE w = Some w'
     \<and> out (kernel w') = (out (kernel w))(fd := out (kernel w) fd @ sent) \<and> sent @ bytes_of ps' = bytes_of ps
     \<and> (if ps' = [] then ended p w' else queued_in Ending p w' fd ps' \<and> tinv w' xs as \<and> room (kernel w) fd < length (bytes_of ps))"
proof -
  let ?f = "\<lambda>s. sk_flags s AND NOT APE_SOCKET_WOULD_BLOCK"
  obtain w1 where w1: "upd_sock p (\<lambda>s. s\<lparr>sk_flags := ?f s\<rparr>) w = Some w1" "queued_in Ending p w1 fd ps" "kernel w1 = kernel w"
    "timers_of w1 = timers_of w" using queued_would_block(2) [OF q, of ?f] by blast
  obtain s where s: "sock p w = Some s" "sk_type s = APE_SOCKET_TP_CLIENT" "sk_state s = APE_SOCKET_ST_ONLINE"
    using q unfolding queued_in_def conn_in_def by blast
  then have s1: "sock p w1 = Some (s\<lparr>sk_flags := ?f s\<rparr>)"
    using w1(1) by (auto simp: upd_sock_def sock_def wr_eq_Some split: bind_splits)
  have nb: "\<not> would_block (s\<lparr>sk_flags := ?f s\<rparr>)" by (simp add: would_block_def and.assoc)
  have fl: "has_flag EVENT_WRITE EVENT_WRITE" "\<not> has_flag EVENT_WRITE EVENT_READ"
    by (simp_all add: has_flag_def EVENT_WRITE_def EVENT_READ_def)
  have t1: "tinv w1 xs as" using t tinv_timers_of [OF w1(4)] by simp
  obtain r w2 ps' sent where d: "ape_socket_do_jobs E p w1 = Some (r, w2)" "r \<noteq> 1"
     "out (kernel w2) = (out (kernel w))(fd := out (kernel w) fd @ sent)" "sent @ bytes_of ps' = bytes_of ps"
     "if ps' = [] then ended p w2 else queued_in Ending p w2 fd ps' \<and> tinv w2 xs as \<and> room (kernel w) fd < length (bytes_of ps)"
    using do_jobs_closing [OF E w1(2) ne t1] unfolding w1(3) by blast
  have "client_read E p EVENT_WRITE w = Some (False, w1)" using w1(1) s1 fl by (simp add: client_read_def)
  moreover have "client_write E p (sk_fd s) w1 = Some w2" using s1 s(3) nb d(1,2) by (simp add: client_write_def)
  ultimately have "socket_event E p EVENT_WRITE w = Some w2" using s(1,2) fl by (simp add: socket_event_def client_event_def)
  then show ?thesis using d(3-5) by blast
qed

end

lemma writable_ended:
  assumes "ended p w"
  shows "\<exists>w'. socket_event E p EVENT_WRITE w = Some w' \<and> ended p w' \<and> kernel w' = kernel w"
proof -
  obtain s where s: "sock p w = Some s" "sk_type s = APE_SOCKET_TP_CLIENT" using assms unfolding ended_def by blast
  obtain w1 s1 where w1: "upd_sock p (\<lambda>s. s\<lparr>sk_flags := sk_flags s AND NOT APE_SOCKET_WOULD_BLOCK\<rparr>) w = Some w1" "ended p w1"
    "kernel w1 = kernel w" "sock p w1 = Some s1" "sk_state s1 = APE_SOCKET_ST_SHUTDOWN"
    by (rule ended_flags [OF assms, of "\<lambda>s. sk_flags s AND NOT APE_SOCKET_WOULD_BLOCK"])
  have fl: "has_flag EVENT_WRITE EVENT_WRITE" "\<not> has_flag EVENT_WRITE EVENT_READ"
    by (simp_all add: has_flag_def EVENT_WRITE_def EVENT_READ_def)
  have "socket_event E p EVENT_WRITE w = Some w1"
    using s w1 fl by (simp add: socket_event_def client_event_def client_read_def client_write_def)
  then show ?thesis using w1(2,3) by blast
qed

section \<open>From the shutdown on\<close>

text \<open>Of \<open>whole\<close> a part is still queued, or the connection was shut down and nothing is.\<close>

definition closing :: "('k \<Rightarrow> int \<Rightarrow> byte list) \<Rightarrow> ptr \<Rightarrow> int \<Rightarrow> byte list \<Rightarrow> ('b, 'k) ape_net \<Rightarrow> bool" where
  "closing out p fd whole w \<longleftrightarrow>
     (\<exists>ps xs as. ps \<noteq> [] \<and> queued_in Ending p w fd ps \<and> tinv w xs as \<and> out (kernel w) fd @ bytes_of ps = whole)
     \<or> ended p w \<and> out (kernel w) fd = whole"

lemma ended_kernel [simp]: "ended p (w\<lparr>kernel := k\<rparr>) = ended p w"
  by (simp add: ended_def sock_def tinv_timers_of [of "w\<lparr>kernel := k\<rparr>" w])

context closing_kernel
begin

lemma closing_event:
  assumes E: "nsys E = S" and c: "closing out p fd whole w"
  shows "\<exists>w'. socket_event E p EVENT_WRITE w = Some w' \<and> closing out p fd whole w'
     \<and> (length whole \<le> length (out (kernel w) fd) + room (kernel w) fd \<longrightarrow> ended p w' \<and> out (kernel w') fd = whole)"
  using c unfolding closing_def [of out p fd whole w]
proof (elim disjE exE conjE)
  fix ps xs as assume ne: "ps \<noteq> []" and q: "queued_in Ending p w fd ps" and t: "tinv w xs as"
    and whole: "out (kernel w) fd @ bytes_of ps = whole"
  obtain w' ps' sent where w': "socket_event E p EVENT_WRITE w = Some w'"
     "out (kernel w') = (out (kernel w))(fd := out (kernel w) fd @ sent)" "sent @ bytes_of ps' = bytes_of ps"
     "if ps' = [] then ended p w' else queued_in Ending p w' fd ps' \<and> tinv w' xs as \<and> room (kernel w) fd < length (bytes_of ps)"
    using writable_closing [OF E q ne t] by blast
  have o: "out (kernel w') fd @ bytes_of ps' = whole" using w'(2,3) whole by simp
  have "closing out p fd whole w'" using w'(4) o unfolding closing_def by (cases "ps' = []") auto
  moreover have "length whole = length (out (kernel w) fd) + length (bytes_of ps)" using whole by auto
  ultimately show ?thesis using w'(1,4) o by (cases "ps' = []") auto
next
  assume "ended p w" and "out (kernel w) fd = whole"
  then show ?thesis using writable_ended [of p w E] unfolding closing_def by auto
qed

lemma closing_run:
  assumes E: "nsys E = S" and pr: "\<forall>f k. Progress f \<in> set as \<longrightarrow> out (f k) = out k" and nw: "\<forall>bs. Write bs \<notin> set as"
  shows "closing out p fd whole w \<Longrightarrow> \<exists>w'. io_run E p as w = Some w' \<and> closing out p fd whole w'"
  using pr nw
proof (induction as arbitrary: w)
  case (Cons a as)
  have "\<exists>w1. io_step E p a w = Some w1 \<and> closing out p fd whole w1"
  proof (cases a)
    case (Progress f)
    then have "out (f k) = out k" for k using Cons.prems(2) by auto
    then have "closing out p fd whole (on_kernel f w)"
      using Cons.prems(1) by (auto simp: closing_def on_kernel_def tinv_timers_of [of "w\<lparr>kernel := f (kernel w)\<rparr>" w])
    then show ?thesis using Progress by simp
  next
    case Writable
    then show ?thesis using closing_event [OF E Cons.prems(1)] by auto
  qed (use Cons.prems(3) in auto)
  then obtain w1 where w1: "io_step E p a w = Some w1" "closing out p fd whole w1" by blast
  then show ?case using Cons.IH [OF w1(2)] Cons.prems(2,3) by auto
qed auto

text \<open>The call itself: at once when nothing is queued.\<close>

lemma shutdown_closing:
  assumes E: "nsys E = S" and q: "queued p w fd ps" and wt: "waits p w ps" and t: "tinv w xs as"
  shows "\<exists>w'. APE_socket_shutdown E p w = Some w' \<and> closing out p fd (out (kernel w) fd @ bytes_of ps) w'"
proof (cases "ps = []")
  case True
  obtain j s where s: "sock p w = Some s" "sk_state s = APE_SOCKET_ST_ONLINE" "sk_type s = APE_SOCKET_TP_CLIENT" "\<not> issecure s"
    "rd (cells (job_mem w)) (pl_head (jobs s)) = Some j" "\<not> job_flag APE_SOCKET_JOB_ACTIVE j"
    using q True unfolding queued_def conn_def by auto
  then have "must_queue p w = Some False" using wt True by (simp add: must_queue_def waits_def)
  moreover obtain w' where "ape_shutdown E p w = Some w'" "ended p w'" "out (kernel w') = out (kernel w)"
    using shutdown_ends [OF s(1-4) t, of E] E half by auto
  ultimately show ?thesis using s(1,2) True
    by (intro exI [of _ w']) (auto simp: APE_socket_shutdown_def closing_def bytes_of_def sock_def)
next
  case False
  obtain w' where w': "APE_socket_shutdown E p w = Some w'" "queued_in Ending p w' fd ps" "kernel w' = kernel w"
     "timers_of w' = timers_of w" using shutdown_queues [OF q False] by blast
  then show ?thesis using False t tinv_timers_of [OF w'(4)] unfolding closing_def
    by (intro exI [of _ w']) (auto intro!: exI [of _ ps])
qed

lemma closing_rest:
  assumes "closing out p fd whole w"
  shows "\<exists>rest. out (kernel w) fd @ rest = whole
     \<and> (if rest = [] then ended p w else \<exists>s. sock p w = Some s \<and> sk_state s = APE_SOCKET_ST_ONLINE)"
  using assms unfolding closing_def
proof (elim disjE exE conjE)
  fix ps xs as assume ne: "ps \<noteq> []" and q: "queued_in Ending p w fd ps" and whole: "out (kernel w) fd @ bytes_of ps = whole"
  have "concat (take max_chunks (map snd ps)) \<noteq> []" by (rule queued_ring [OF q ne])
  then have "bytes_of ps \<noteq> []" using take_chunks(1) [OF order_refl, of max_chunks ps] by auto
  moreover have "\<exists>s. sock p w = Some s \<and> sk_state s = APE_SOCKET_ST_ONLINE" using q unfolding queued_in_def conn_in_def by blast
  ultimately show ?thesis using whole by (intro exI [of _ "bytes_of ps"]) simp
qed auto

end

interpretation tcp_close: closing_kernel tcp_sys tk_out tk_room
  by unfold_locales (simp add: tcp_sys_def tcp_log_def)

text \<open>C3: A connection that was accepted and written to in any way is shut down by
  \<open>APE_socket_shutdown\<close>. The kernel may take any part at a time: as long as a byte of what was written
  is not sent the socket stays online; once the last one is, it is shut down, with a timer that destroys it,
  and further events leave it so. One event is enough when the kernel has room for the rest. The only
  fault is that of the loop that writes at once, before the shutdown.\<close>

theorem shutdown_after_data:
  assumes "closing_kernel S out room" and "nsys E = S" and "\<forall>ev w. on_event E ev w = Some w"
    and "net_ok w0" and "tinv w0 xs ts" and "sock srv w0 = Some s" and "sk_proto s \<noteq> APE_SOCKET_PT_SSL \<and> \<not> issecure s" and "fd \<noteq> 0"
    and "accept_client E srv fd addr w0 = Some w"
    and "\<forall>f k. Progress f \<in> set (as @ bs) \<longrightarrow> out (f k) = out k" and "\<forall>d. Write d \<notin> set bs"
  shows "io_run E (nbrk w0) as w = None \<and> faults_at (\<lambda>k bs. overreads S fd bs 0 k) E (nbrk w0) as w
     \<or> (\<exists>w1 w2 w3 w4 rest. io_run E (nbrk w0) as w = Some w1 \<and> APE_socket_shutdown E (nbrk w0) w1 = Some w2
     \<and> io_run E (nbrk w0) bs w2 = Some w3 \<and> out (kernel w3) fd @ rest = out (kernel w) fd @ written as
     \<and> (if rest = [] then ended (nbrk w0) w3
        else \<exists>s. sock (nbrk w0) w3 = Some s \<and> sk_state s = APE_SOCKET_ST_ONLINE)
     \<and> socket_event E (nbrk w0) EVENT_WRITE w3 = Some w4
     \<and> (length rest \<le> room (kernel w3) fd \<longrightarrow> ended (nbrk w0) w4 \<and> out (kernel w4) fd = out (kernel w) fd @ written as))"
proof (cases "io_run E (nbrk w0) as w")
  case None
  have sk: "stream_kernel S out room" using assms(1) by (simp add: closing_kernel_def)
  have "queued (nbrk w0) w fd []" using accept_client_queued [OF assms(4,6-8,3,9)] by blast
  from stream_kernel.io_run_spec [OF sk assms(2) _ _ this, of as] show ?thesis using None assms(3,10) by auto
next
  case Some: (Some w1)
  let ?p = "nbrk w0" let ?whole = "out (kernel w) fd @ written as"
  have sk: "stream_kernel S out room" using assms(1) by (simp add: closing_kernel_def)
  have q: "queued ?p w fd []" "timers_of w = timers_of w0" "waits ?p w []"
    using accept_client_queued [OF assms(4,6-8,3,9)] by blast+
  obtain ps sent where w1: "io_run E ?p as w = Some w1" "queued ?p w1 fd ps" "out (kernel w1) fd = out (kernel w) fd @ sent"
     "sent @ bytes_of ps = bytes_of [] @ written as" "timers_of w1 = timers_of w" "waits ?p w1 ps"
    using stream_kernel.io_run_spec [OF sk assms(2) _ _ q(1), of as] assms(3,10) q(3) Some by auto
  have t1: "tinv w1 xs ts" using assms(5) tinv_timers_of [of w1 w0] w1(5) q(2) by simp
  have whole: "out (kernel w1) fd @ bytes_of ps = ?whole" using w1(3,4) by simp
  obtain w2 where w2: "APE_socket_shutdown E ?p w1 = Some w2" "closing out ?p fd ?whole w2"
    using closing_kernel.shutdown_closing [OF assms(1,2) w1(2,6) t1] whole by auto
  obtain w3 where w3: "io_run E ?p bs w2 = Some w3" "closing out ?p fd ?whole w3"
    using closing_kernel.closing_run [OF assms(1,2) _ assms(11) w2(2)] assms(10) by auto
  obtain rest where rest: "out (kernel w3) fd @ rest = ?whole"
    "if rest = [] then ended ?p w3 else \<exists>s. sock ?p w3 = Some s \<and> sk_state s = APE_SOCKET_ST_ONLINE"
    using closing_kernel.closing_rest [OF assms(1) w3(2)] by blast
  obtain w4 where w4: "socket_event E ?p EVENT_WRITE w3 = Some w4"
    "length ?whole \<le> length (out (kernel w3) fd) + room (kernel w3) fd \<longrightarrow> ended ?p w4 \<and> out (kernel w4) fd = ?whole"
    using closing_kernel.closing_event [OF assms(1,2) w3(2)] by blast
  have "length ?whole = length (out (kernel w3) fd) + length rest" using rest(1) by (metis length_append)
  then show ?thesis using w1(1) w2(1) w3(1) rest w4
    by (intro disjI2 exI [of _ w1] exI [of _ w2] exI [of _ w3] exI [of _ w4] exI [of _ rest]) simp
qed

theorem shutdown_after_data_witness:
  "\<exists>w w1 w2 w4. client0 tcp_sys tcp0 = Some w \<and> io_run (env_of tcp_sys) 100 [Write [1, 2, 3, 4, 5]] w = Some w1
     \<and> APE_socket_shutdown (env_of tcp_sys) 100 w1 = Some w2
     \<and> socket_event (env_of tcp_sys) 100 EVENT_WRITE (on_kernel (\<lambda>k. k\<lparr>tk_room := \<lambda>_. 9\<rparr>) w2) = Some w4
     \<and> ended 100 w4 \<and> tk_out (kernel w4) 7 = [1, 2, 3, 4, 5]"
proof -
  let ?more = "\<lambda>k. k\<lparr>tk_room := \<lambda>_. 9\<rparr>"
  obtain w s where w: "client0 tcp_sys tcp0 = Some w" "tk_out (kernel w) 7 = []" and
    s: "sock 50 (server0 tcp0) = Some s" "sk_proto s \<noteq> APE_SOCKET_PT_SSL \<and> \<not> issecure s" using client0_tcp by blast
  have t: "tinv (server0 tcp0) [] []" by (intro tinv_empty) (simp_all add: server0_def net0_def no_timers_def)
  have a: "accept_client (env_of tcp_sys) 50 7 \<lparr>sin_port = 0, sin_addr = 0\<rparr> (server0 tcp0) = Some w"
    using w(1) by (simp add: client0_def)
  have "\<forall>ev w. on_event (env_of tcp_sys :: (unit, tcp) env) ev w = Some w" by simp
  from shutdown_after_data [OF tcp_close.closing_kernel_axioms env_of_simps(1) this server0_ok t s _ a,
      of "[Write [1, 2, 3, 4, 5]]" "[Progress ?more]"]
  obtain w1 w2 w3 w4 rest where r: "io_run (env_of tcp_sys) 100 [Write [1, 2, 3, 4, 5]] w = Some w1"
     "APE_socket_shutdown (env_of tcp_sys) 100 w1 = Some w2" "io_run (env_of tcp_sys) 100 [Progress ?more] w2 = Some w3"
     "tk_out (kernel w3) 7 @ rest = [1, 2, 3, 4, 5]" "socket_event (env_of tcp_sys) 100 EVENT_WRITE w3 = Some w4"
     "length rest \<le> tk_room (kernel w3) 7 \<longrightarrow> ended 100 w4 \<and> tk_out (kernel w4) 7 = [1, 2, 3, 4, 5]"
    using w(2) by auto
  have w3: "w3 = on_kernel ?more w2" using r(3) by simp
  have "length rest \<le> 5" using arg_cong [OF r(4), of length] by simp
  then have "length rest \<le> tk_room (kernel w3) 7" by (simp add: w3 on_kernel_def)
  then show ?thesis using w(1) r(1,2,5,6) w3 by blast
qed

end
