(* ===== verification/Secure.thy ===== *)
theory Secure
  imports Net
begin

text \<open>
  The functions of \<open>ape_ssl.c\<close> as what the sockets are compiled with: the kernel is then the
  state of OpenSSL with the objects of type \<open>ape_ssl_t\<close>. \<open>ssl->con\<close>, and the calls that
  \<open>ape_socket.c\<close> makes on OpenSSL itself, are the last four.
\<close>

definition ape_ssl_api :: "'o openssl \<Rightarrow> 'o ssl_state net_ssl" where
  "ape_ssl_api S = \<lparr>tls_library_init = ape_ssl_library_init S, tls_global_ctx = ape_ssl_init_global_client_ctx S,
     tls_con = ape_ssl_init_con S, tls_read = ape_ssl_read S, tls_write = ape_ssl_write S,
     tls_shutdown = ape_ssl_shutdown S, tls_destroy = ape_ssl_destroy S,
     tls_con_of = (\<lambda>p s. map_option ssl_con (rd (ssl_objs s) p)),
     tls_clear_error = (\<lambda>s. s\<lparr>ssl_lib := ERR_clear_error S (ssl_lib s)\<rparr>),
     tls_get_error = (\<lambda>c n. on_lib (SSL_get_error S c n)),
     tls_host_name = (\<lambda>c h s. s\<lparr>ssl_lib := SSL_set_tlsext_host_name S c h (ssl_lib s)\<rparr>)\<rparr>"

end
