(* ===== verification/Secure_Props.thy ===== *)
theory Secure_Props
  imports Demo Secure Ssl_Props
begin

unbundle bit_operations_syntax

text \<open>
  A connection over SSL: what is written to it goes through OpenSSL, in order and each byte once. OpenSSL
  may ask to be called again, and then has to be called with the same block.
\<close>

section \<open>What a job over SSL changes\<close>

definition moved ::
  "ptr \<Rightarrow> ape_socket \<Rightarrow> 'k \<Rightarrow> byte list heap \<Rightarrow> ape_socket_packet list_mem \<Rightarrow> bool \<Rightarrow> byte
    \<Rightarrow> ('b, 'k) ape_net \<Rightarrow> ('b, 'k) ape_net" where
  "moved p s k dm pm nw fl w = w\<lparr>kernel := k, data_mem := dm, packet_mem := pm,
     sockets := (sockets w)(p \<mapsto> s\<lparr>need_write := nw, sk_flags := fl\<rparr>)\<rparr>"

lemma moved_simps [simp]:
  "kernel (moved p s k dm pm nw fl w) = k" "data_mem (moved p s k dm pm nw fl w) = dm"
  "packet_mem (moved p s k dm pm nw fl w) = pm" "job_mem (moved p s k dm pm nw fl w) = job_mem w"
  "nbrk (moved p s k dm pm nw fl w) = nbrk w" "timers_of (moved p s k dm pm nw fl w) = timers_of w"
  by (simp_all add: moved_def)

lemma moved_sock:
  assumes "sock p w = Some s"
  shows "sock p (moved p s k dm pm nw fl w) = Some (s\<lparr>need_write := nw, sk_flags := fl\<rparr>)"
  using assms by (auto simp: moved_def sock_def)

lemma moved_refl:
  assumes "sock p w = Some s"
  shows "moved p s (kernel w) (data_mem w) (packet_mem w) (need_write s) (sk_flags s) w = w"
proof -
  have "(sockets w)(p \<mapsto> s) = sockets w" using assms by (auto simp: sock_def rd_Some_iff)
  then show ?thesis by (simp add: moved_def)
qed

lemma moved_conn:
  assumes "conn_in md p w fd j n" and "sock p w = Some s"
    and "\<And>a. data_mem w a = None \<Longrightarrow> dm a = None" and "mem_ok (pools pm)" and "lists_brk pm = lists_brk (packet_mem w)"
  shows "conn_in md p (moved p s k dm pm nw fl w) fd j n"
  using assms unfolding conn_in_def by (auto simp: moved_sock)

lemma moved_held [simp]:
  assumes "sock p w = Some s"
  shows "buffered p (moved p s k dm pm nw fl w) = buffered p w" and "ssl_at p (moved p s k dm pm nw fl w) = ssl_at p w"
  using assms by (simp_all add: buffered_def ssl_at_def moved_sock)

text \<open>Over SSL a packet is sent as a whole.\<close>

definition whole :: "byte list heap \<Rightarrow> packets \<Rightarrow> bool" where
  "whole dm ps \<longleftrightarrow> (\<forall>q \<in> set ps. rd dm (fst q) = Some (snd q) \<and> snd q \<noteq> [])"

lemma whole_simps [simp]: "whole dm []"
  "whole dm (q # ps) \<longleftrightarrow> rd dm (fst q) = Some (snd q) \<and> snd q \<noteq> [] \<and> whole dm ps"
  by (auto simp: whole_def)

lemma whole_cong: "whole dm ps \<Longrightarrow> \<forall>d \<in> set (map fst ps). dm' d = dm d \<Longrightarrow> whole dm' ps"
  by (auto simp: whole_def rd_def split: if_splits)

section \<open>Writing through OpenSSL\<close>

text \<open>
  \<open>sent k c\<close> are the bytes SSL has taken for \<open>c\<close>, \<open>up\<close> says that the connection is there.
  A write takes all or nothing. When it takes nothing the error says that it has to be made again, and until
  then only the same write may be made: \<open>pending\<close> is its data. While the connection is \<open>opened\<close>
  every write is taken.
\<close>

locale tls_stream =
  fixes T :: "'k net_ssl" and sent :: "'k \<Rightarrow> ptr \<Rightarrow> byte list" and up :: "'k \<Rightarrow> ptr \<Rightarrow> bool"
    and pending :: "'k \<Rightarrow> ptr \<Rightarrow> byte list option" and opened :: "'k \<Rightarrow> ptr \<Rightarrow> bool"
  assumes writes: "up k c \<Longrightarrow> bs \<noteq> [] \<Longrightarrow> pending k c \<in> {None, Some bs} \<Longrightarrow>
      \<exists>n k'. tls_write T c bs k = Some (n, k') \<and>
        (n \<noteq> - 1 \<and> up k' c \<and> sent k' c = sent k c @ bs \<and> pending k' c = None \<and> (opened k c \<longrightarrow> opened k' c)
         \<or> n = - 1 \<and> \<not> opened k c \<and> (\<exists>con e k2. tls_con_of T c k' = Some con \<and> tls_get_error T con n k' = (e, k2)
             \<and> e \<in> {SSL_ERROR_WANT_READ, SSL_ERROR_WANT_WRITE}
             \<and> up k2 c \<and> sent k2 c = sent k c \<and> pending k2 c = Some bs))"
    and clears: "up k c \<Longrightarrow> up (tls_clear_error T k) c \<and> sent (tls_clear_error T k) c = sent k c
      \<and> pending (tls_clear_error T k) c = pending k c \<and> (opened k c \<longrightarrow> opened (tls_clear_error T k) c)"
begin

text \<open>A write that has to be made again is that of the first packet.\<close>

definition ready :: "'k \<Rightarrow> ptr \<Rightarrow> packets \<Rightarrow> bool" where
  "ready k c ps \<longleftrightarrow> up k c \<and> (\<forall>bs. pending k c = Some bs \<longrightarrow> (\<exists>d qs. ps = (d, bs) # qs))"

lemma ready_clears: "ready k c ps \<Longrightarrow> ready (tls_clear_error T k) c ps" "ready k c ps \<Longrightarrow> sent (tls_clear_error T k) c = sent k c"
  "ready k c ps \<Longrightarrow> opened k c \<longrightarrow> opened (tls_clear_error T k) c"
  using clears by (simp_all add: ready_def)

lemma ready_append: "ready k c ps \<Longrightarrow> ready k c (ps @ qs)"
  by (force simp: ready_def)

lemma try_write_spec:
  assumes s: "sock p w = Some s" "ssl_ptr s = c" and d: "rd (data_mem w) d = Some bs" "bs \<noteq> []"
    and k: "up (kernel w) c" "pending (kernel w) c \<in> {None, Some bs}"
  shows "\<exists>k'. ssl_try_write T p d (length bs) w = Some (Ssl_done, w\<lparr>kernel := k'\<rparr>)
       \<and> up k' c \<and> sent k' c = sent (kernel w) c @ bs \<and> pending k' c = None \<and> (opened (kernel w) c \<longrightarrow> opened k' c)
     \<or> ssl_try_write T p d (length bs) w
          = Some (Ssl_again, moved p s k' (data_mem w) (packet_mem w) True (sk_flags s) w) \<and> \<not> opened (kernel w) c
       \<and> up k' c \<and> sent k' c = sent (kernel w) c \<and> pending k' c = Some bs"
proof -
  obtain n k' where n: "tls_write T c bs (kernel w) = Some (n, k')" and
    o: "n \<noteq> - 1 \<and> up k' c \<and> sent k' c = sent (kernel w) c @ bs \<and> pending k' c = None \<and> (opened (kernel w) c \<longrightarrow> opened k' c)
         \<or> n = - 1 \<and> \<not> opened (kernel w) c \<and> (\<exists>con e k2. tls_con_of T c k' = Some con \<and> tls_get_error T con n k' = (e, k2)
             \<and> e \<in> {SSL_ERROR_WANT_READ, SSL_ERROR_WANT_WRITE}
             \<and> up k2 c \<and> sent k2 c = sent (kernel w) c \<and> pending k2 c = Some bs)"
    using writes [OF k(1) d(2) k(2)] by blast
  have "\<exists>w'. upd_sock p (\<lambda>s. s\<lparr>need_write := True\<rparr>) (w\<lparr>kernel := k2\<rparr>) = Some w'
      \<and> w' = moved p s k2 (data_mem w) (packet_mem w) True (sk_flags s) w" for k2
    using s(1) by (simp add: upd_sock_def sock_def moved_def)
  then show ?thesis using o n s d by (auto simp: ssl_try_write_def)
qed

text \<open>The job: packet after packet, until one has to be sent again.\<close>

lemma secure_job_spec:
  assumes "ring list (packet_mem w) (data_mem w) ps" and "rd (list_objs (packet_mem w)) list = Some l"
    and "whole (data_mem w) ps" and "sock p w = Some s" and "ssl_ptr s = c" and "ready (kernel w) c ps"
  shows "\<exists>r k dm pm nw fl ps' sn. secure_job T E p list (pl_head l) w = Some (r, moved p s k dm pm nw fl w)
     \<and> ring list pm dm ps' \<and> whole dm ps' \<and> ready k c ps' \<and> sent k c = sent (kernel w) c @ sn
     \<and> sn @ bytes_of ps' = bytes_of ps \<and> (\<forall>d. data_mem w d = None \<longrightarrow> dm d = None)
     \<and> lists_brk pm = lists_brk (packet_mem w) \<and> (if r = None then ps' = [] \<and> fl = sk_flags s else r = Some 0 \<and> ps' \<noteq> [])
     \<and> (opened (kernel w) c \<longrightarrow> ps' = []) \<and> without (set (map fst ps')) dm = without (set (map fst ps)) (data_mem w)"
  using assms
proof (induction ps arbitrary: w l)
  case Nil
  obtain v where "rd (cells (pools (packet_mem w))) (pl_head l) = Some v" "pdata v = NULL"
    using ring_head_empty [OF Nil.prems(1,2)] by blast
  then have "secure_job T E p list (pl_head l) w = Some (None, w)" by (subst secure_job.simps) simp
  then show ?case using Nil.prems moved_refl [OF Nil.prems(4)]
    by (intro exI [of _ None] exI [of _ "kernel w"] exI [of _ "data_mem w"] exI [of _ "packet_mem w"]
        exI [of _ "need_write s"] exI [of _ "sk_flags s"] exI [of _ "[]"]) simp
next
  case (Cons q ps)
  obtain xs ys where h: "packet_at (data_mem w) (cells (pools (packet_mem w))) (pl_head l) q" "distinct (map fst (q # ps))"
    by (rule ring_head_split [OF Cons.prems(1,2)])
  then obtain v where v: "rd (cells (pools (packet_mem w))) (pl_head l) = Some v" by (auto simp: packet_at_def)
  note pv = packet_atD [OF h(1) v]
  have bs: "rd (data_mem w) (fst q) = Some (snd q)" "snd q \<noteq> []" using Cons.prems(3) by simp_all
  have len: "plen v = length (snd q)" using pv(4) bs(1) by auto
  have h0: "pl_head l \<noteq> NULL" using v by auto
  have unf: "secure_job T E p list (pl_head l) w = (case ssl_try_write T p (fst q) (length (snd q)) w of None \<Rightarrow> None
      | Some (x, w1) \<Rightarrow> (case x of
            Ssl_again \<Rightarrow> do { w2 \<leftarrow> set_would_block p w1; Some (Some 0, w2) }
          | Ssl_failed \<Rightarrow> do { w2 \<leftarrow> APE_socket_shutdown_now E p w1; Some (Some 0, w2) }
          | Ssl_done \<Rightarrow> do {
              (packet1, w2) \<leftarrow> packet_written list (pl_head l) v w1;
              secure_job T E p list packet1 w2 }))"
    using v h0 pv(1,2) len by (subst secure_job.simps) (simp split: option.splits)
  have up: "up (kernel w) c" "pending (kernel w) c \<in> {None, Some (snd q)}"
    using Cons.prems(6) unfolding ready_def by (blast, metis insertCI list.sel(1) option.exhaust snd_conv)
  from try_write_spec [OF Cons.prems(4,5) bs up] obtain k' where "ssl_try_write T p (fst q) (length (snd q)) w = Some (Ssl_done, w\<lparr>kernel := k'\<rparr>)
       \<and> up k' c \<and> sent k' c = sent (kernel w) c @ snd q \<and> pending k' c = None \<and> (opened (kernel w) c \<longrightarrow> opened k' c)
     \<or> ssl_try_write T p (fst q) (length (snd q)) w
          = Some (Ssl_again, moved p s k' (data_mem w) (packet_mem w) True (sk_flags s) w) \<and> \<not> opened (kernel w) c
       \<and> up k' c \<and> sent k' c = sent (kernel w) c \<and> pending k' c = Some (snd q)" by blast
  then show ?case
  proof (elim disjE conjE)
    assume tw: "ssl_try_write T p (fst q) (length (snd q)) w = Some (Ssl_done, w\<lparr>kernel := k'\<rparr>)"
      and k': "up k' c" "sent k' c = sent (kernel w) c @ snd q" "pending k' c = None" "opened (kernel w) c \<longrightarrow> opened k' c"
    let ?w1 = "w\<lparr>kernel := k'\<rparr>" let ?dm = "(data_mem w)(fst q := None)"
    obtain pm l' where pw: "packet_written list (pl_head l) v ?w1
        = Some (pl_head l', ?w1\<lparr>data_mem := ?dm, packet_mem := pm\<rparr>)"
      "ring list pm ?dm ps" "rd (list_objs pm) list = Some l'" "lists_brk pm = lists_brk (packet_mem w)"
      using packet_written_spec [of list ?w1 q ps l v] Cons.prems(1,2) v by auto
    let ?w2 = "?w1\<lparr>data_mem := ?dm, packet_mem := pm\<rparr>"
    have "fst q \<notin> set (map fst ps)" using h(2) by simp
    then have "\<forall>d \<in> set (map fst ps). ?dm d = data_mem w d" by (metis fun_upd_other)
    then have wh: "whole ?dm ps" using Cons.prems(3) whole_cong [of "data_mem w" ps ?dm] by (simp only: whole_simps)
    have sk: "sock p ?w2 = Some s" using Cons.prems(4) by (simp add: sock_def)
    have a: "ring list (packet_mem ?w2) (data_mem ?w2) ps" "rd (list_objs (packet_mem ?w2)) list = Some l'"
      "whole (data_mem ?w2) ps" "ready (kernel ?w2) c ps" using pw(2,3) wh k' by (simp_all add: ready_def)
    obtain r k dm pm2 nw fl ps' sn where ih: "secure_job T E p list (pl_head l') ?w2 = Some (r, moved p s k dm pm2 nw fl ?w2)"
      "ring list pm2 dm ps'" "whole dm ps'" "ready k c ps'" "sent k c = sent (kernel ?w2) c @ sn"
      "sn @ bytes_of ps' = bytes_of ps" "\<forall>d. data_mem ?w2 d = None \<longrightarrow> dm d = None" "lists_brk pm2 = lists_brk (packet_mem ?w2)"
      "if r = None then ps' = [] \<and> fl = sk_flags s else r = Some 0 \<and> ps' \<noteq> []"
      "opened (kernel ?w2) c \<longrightarrow> ps' = []" "without (set (map fst ps')) dm = without (set (map fst ps)) (data_mem ?w2)"
      using Cons.IH [OF a(1-3) sk Cons.prems(5) a(4)] by blast
    have "moved p s k dm pm2 nw fl ?w2 = moved p s k dm pm2 nw fl w" by (simp add: moved_def)
    then have "secure_job T E p list (pl_head l) w = Some (r, moved p s k dm pm2 nw fl w)"
      using unf tw pw(1) ih(1) by simp
    then show ?thesis using ih k'(2,4) pw(4)
      by (intro exI [of _ r] exI [of _ k] exI [of _ dm] exI [of _ pm2] exI [of _ nw] exI [of _ fl] exI [of _ ps']
          exI [of _ "snd q @ sn"]) auto
  next
    assume tw: "ssl_try_write T p (fst q) (length (snd q)) w
          = Some (Ssl_again, moved p s k' (data_mem w) (packet_mem w) True (sk_flags s) w)"
      and k': "\<not> opened (kernel w) c" "up k' c" "sent k' c = sent (kernel w) c" "pending k' c = Some (snd q)"
    let ?w1 = "moved p s k' (data_mem w) (packet_mem w) True (sk_flags s) w"
      and ?w2 = "moved p s k' (data_mem w) (packet_mem w) True (sk_flags s OR APE_SOCKET_WOULD_BLOCK) w"
    have "set_would_block p ?w1 = Some ?w2"
      using Cons.prems(4) by (auto simp: set_would_block_def upd_sock_def moved_def sock_def)
    then have "secure_job T E p list (pl_head l) w = Some (Some 0, ?w2)" using unf tw by simp
    moreover have "ready k' c (q # ps)" using k' by (cases q) (simp add: ready_def)
    ultimately show ?thesis using Cons.prems k'(1,3)
      by (intro exI [of _ "Some 0"] exI [of _ k'] exI [of _ "data_mem w"] exI [of _ "packet_mem w"] exI [of _ True]
          exI [of _ "sk_flags s OR APE_SOCKET_WOULD_BLOCK"] exI [of _ "q # ps"] exI [of _ "[]"]) simp
  qed
qed

text \<open>A connection over SSL, with what is waiting to be sent.\<close>

definition going :: "ptr \<Rightarrow> int \<Rightarrow> ptr \<Rightarrow> ('b, 'k) ape_net \<Rightarrow> packets \<Rightarrow> bool" where
  "going p fd c w ps \<longleftrightarrow> queued_in Secure p w fd ps \<and> ssl_at p w = Some c \<and> whole (data_mem w) ps \<and> ready (kernel w) c ps"

lemma going_moved:
  assumes g: "going p fd c w ps" and s: "sock p w = Some s" and k: "ready k c ps"
  shows "going p fd c (moved p s k (data_mem w) (packet_mem w) nw fl w) ps"
proof -
  obtain j n where j: "conn_in Secure p w fd j n" "job_flag APE_SOCKET_JOB_ACTIVE j = (ps \<noteq> [])"
    "job_kind j = 0 \<and> pdata j = NULL \<and> ps = [] \<or> job_kind j = APE_SOCKET_JOB_WRITEV \<and> ring (pdata j) (packet_mem w) (data_mem w) ps"
    using g unfolding going_def queued_in_def by blast
  then have "mem_ok (pools (packet_mem w))" unfolding conn_in_def by blast
  then have "conn_in Secure p (moved p s k (data_mem w) (packet_mem w) nw fl w) fd j n"
    by (intro moved_conn [OF j(1) s]) simp_all
  then show ?thesis using j(2,3) g k s unfolding going_def queued_in_def by auto
qed

lemma secure_do_jobs:
  assumes T: "ssl_api E = Some T" and g: "going p fd c w ps"
  shows "\<exists>r w' ps' sn. ape_socket_do_jobs E p w = Some (r, w') \<and> going p fd c w' ps'
     \<and> sent (kernel w') c = sent (kernel w) c @ sn \<and> sn @ bytes_of ps' = bytes_of ps \<and> buffered p w' = buffered p w
     \<and> (opened (kernel w) c \<longrightarrow> ps' = []) \<and> without (set (map fst ps')) (data_mem w') = without (set (map fst ps)) (data_mem w)"
proof -
  obtain j n where j: "conn_in Secure p w fd j n" "job_flag APE_SOCKET_JOB_ACTIVE j = (ps \<noteq> [])"
    "job_kind j = 0 \<and> pdata j = NULL \<and> ps = [] \<or> job_kind j = APE_SOCKET_JOB_WRITEV \<and> ring (pdata j) (packet_mem w) (data_mem w) ps"
    using g unfolding going_def queued_in_def by blast
  then obtain s where s: "sock p w = Some s" "rd (cells (job_mem w)) (pl_head (jobs s)) = Some j" "issecure s" "ssl_ptr s = c"
    using g unfolding conn_in_def going_def ssl_at_def by auto
  then have h0: "pl_head (jobs s) \<noteq> NULL" by auto
  show ?thesis
  proof (cases "ps = []")
    case True
    then have "ape_socket_do_jobs E p w = Some (0, w)" using s(1,2) j(2) h0
      by (simp add: ape_socket_do_jobs_def job_loop.simps [of E p "pl_head (jobs s)"])
    then show ?thesis using g True by (intro exI [of _ 0] exI [of _ w] exI [of _ "[]"] exI [of _ "[]"]) simp
  next
    case False
    then have kd: "job_kind j = APE_SOCKET_JOB_WRITEV" and rg: "ring (pdata j) (packet_mem w) (data_mem w) ps" using j(3) by auto
    obtain l where l: "rd (list_objs (packet_mem w)) (pdata j) = Some l" using ringD [OF rg] by blast
    let ?w0 = "on_kernel (tls_clear_error T) w"
    have k0: "ready (kernel ?w0) c ps" "sent (kernel ?w0) c = sent (kernel w) c" "opened (kernel w) c \<longrightarrow> opened (kernel ?w0) c"
      using ready_clears [of "kernel w" c ps] g by (simp_all add: going_def on_kernel_def)
    have w0: "sock p ?w0 = Some s" "packet_mem ?w0 = packet_mem w" "data_mem ?w0 = data_mem w"
      using s(1) by (simp_all add: on_kernel_def sock_def)
    obtain r k dm pm nw fl ps' sn where sj: "secure_job T E p (pdata j) (pl_head l) ?w0 = Some (r, moved p s k dm pm nw fl ?w0)"
      "ring (pdata j) pm dm ps'" "whole dm ps'" "ready k c ps'" "sent k c = sent (kernel ?w0) c @ sn"
      "sn @ bytes_of ps' = bytes_of ps" "\<forall>d. data_mem w d = None \<longrightarrow> dm d = None" "lists_brk pm = lists_brk (packet_mem w)"
      "if r = None then ps' = [] \<and> fl = sk_flags s else r = Some 0 \<and> ps' \<noteq> []"
      "opened (kernel ?w0) c \<longrightarrow> ps' = []" "without (set (map fst ps')) dm = without (set (map fst ps)) (data_mem w)"
      using secure_job_spec [where list = "pdata j" and w = ?w0 and ps = ps and l = l and s = s and c = c and E = E and p = p]
        w0 rg l g s(4) k0(1) by (auto simp: going_def)
    let ?w1 = "moved p s k dm pm nw fl w"
    have "moved p s k dm pm nw fl ?w0 = ?w1" by (simp add: moved_def on_kernel_def)
    then have run: "run_job E p (pl_head (jobs s)) w = Some (r, ?w1)"
      using s(1-3) T l kd sj(1) by (simp add: run_job_def)
    have c1: "conn_in Secure p ?w1 fd j n"
      using sj(7,8) ring_mem_ok [OF sj(2)] by (intro moved_conn [OF j(1) s(1)]) simp_all
    have hl: "buffered p ?w1 = buffered p w" "ssl_at p ?w1 = Some c"
      using s(1,4) by (simp_all, simp add: ssl_at_def)
    show ?thesis
    proof (cases r)
      case None
      obtain w2 j' where w2: "finish_job p (pl_head (jobs s)) ?w1 = Some (pl_head (jobs s), w2)" "queued_in Secure p w2 fd []"
        "kernel w2 = k" "data_mem w2 = dm" "sock p w2 = sock p ?w1" "rd (cells (job_mem w2)) (pl_head (jobs s)) = Some j'"
        "\<not> job_flag APE_SOCKET_JOB_ACTIVE j'"
        using finish_job_spec [OF c1, where s = "s\<lparr>need_write := nw, sk_flags := fl\<rparr>"] moved_sock [OF s(1)] kd sj(2,9) None by auto
      note w2 = w2(1-3,5-7,4)
      have "job_loop E p (pl_head (jobs s)) 1 w2 = Some (1, w2)" using w2(5,6) h0 by (subst job_loop.simps) simp
      then have "ape_socket_do_jobs E p w = Some (1, w2)"
        using s(1,2) j(2) False run None w2(1) h0 by (simp add: ape_socket_do_jobs_def job_loop.simps [of E p "pl_head (jobs s)" 0])
      moreover have "buffered p w2 = buffered p w" "ssl_at p w2 = Some c"
        using hl w2(4) by (simp_all add: buffered_def ssl_at_def)
      ultimately show ?thesis using sj(4-6,9,11) w2(2,3,7) None k0(2)
        by (intro exI [of _ 1] exI [of _ w2] exI [of _ "[]"] exI [of _ sn]) (simp add: going_def)
    next
      case (Some x)
      then have "ape_socket_do_jobs E p w = Some (0, ?w1)"
        using s(1,2) j(2) False run h0 sj(9) by (simp add: ape_socket_do_jobs_def job_loop.simps [of E p "pl_head (jobs s)" 0])
      moreover have "queued_in Secure p ?w1 fd ps'"
        using sj(2,9) kd j(2) False Some by (intro queuedI [OF c1]) simp_all
      ultimately show ?thesis using sj(3-6,10,11) hl k0(2,3)
        by (intro exI [of _ 0] exI [of _ ?w1] exI [of _ ps'] exI [of _ sn]) (simp add: going_def)
    qed
  qed
qed

text \<open>An event that says the socket can be written to. What the socket says it holds is not changed, whatever
  was sent.\<close>

lemma secure_writable:
  assumes T: "ssl_api E = Some T" and quiet: "\<forall>f a w. on_event E (Drain f p a) w = Some w" and g: "going p fd c w ps"
  shows "\<exists>w' ps' sn. socket_event E p EVENT_WRITE w = Some w' \<and> going p fd c w' ps'
     \<and> sent (kernel w') c = sent (kernel w) c @ sn \<and> sn @ bytes_of ps' = bytes_of ps \<and> buffered p w' = buffered p w
     \<and> (opened (kernel w) c \<longrightarrow> ps' = []) \<and> without (set (map fst ps')) (data_mem w') = without (set (map fst ps)) (data_mem w)"
proof -
  obtain s where s: "sock p w = Some s" "sk_type s = APE_SOCKET_TP_CLIENT" "sk_state s = APE_SOCKET_ST_ONLINE"
    using g unfolding going_def queued_in_def conn_in_def by blast
  let ?f = "sk_flags s AND NOT APE_SOCKET_WOULD_BLOCK"
  let ?w1 = "moved p s (kernel w) (data_mem w) (packet_mem w) (need_write s) ?f w"
  have g1: "going p fd c ?w1 ps" by (rule going_moved [OF g s(1)]) (use g in \<open>simp add: going_def\<close>)
  have s1: "sock p ?w1 = Some (s\<lparr>sk_flags := ?f\<rparr>)" using moved_sock [OF s(1)] by simp
  have nb: "\<not> would_block (s\<lparr>sk_flags := ?f\<rparr>)" by (simp add: would_block_def and.assoc)
  have u: "upd_sock p (\<lambda>s. s\<lparr>sk_flags := sk_flags s AND NOT APE_SOCKET_WOULD_BLOCK\<rparr>) w = Some ?w1"
    using s(1) by (simp add: upd_sock_def sock_def moved_def)
  have fl: "has_flag EVENT_WRITE EVENT_WRITE" "\<not> has_flag EVENT_WRITE EVENT_READ"
    by (simp_all add: has_flag_def EVENT_WRITE_def EVENT_READ_def)
  have rd: "client_read E p EVENT_WRITE w = Some (False, ?w1)" using u s1 fl by (simp add: client_read_def)
  obtain r w2 ps' sn where d: "ape_socket_do_jobs E p ?w1 = Some (r, w2)" "going p fd c w2 ps'"
     "sent (kernel w2) c = sent (kernel w) c @ sn" "sn @ bytes_of ps' = bytes_of ps" "buffered p w2 = buffered p w" "opened (kernel w) c \<longrightarrow> ps' = []"
     "without (set (map fst ps')) (data_mem w2) = without (set (map fst ps)) (data_mem w)"
    using secure_do_jobs [OF T g1] s(1) by auto
  obtain s2 where s2: "sock p w2 = Some s2" using d(2) unfolding going_def queued_in_def conn_in_def by blast
  have "client_write E p (sk_fd s) ?w1 = Some w2"
    using s1 s(3) nb d(1) s2 quiet by (simp add: client_write_def)
  then have "socket_event E p EVENT_WRITE w = Some w2"
    using s(1,2) rd fl by (simp add: socket_event_def client_event_def)
  then show ?thesis using d(2-7) by blast
qed

lemma secure_queue:
  assumes q: "queued_in Secure p w fd ps" and c: "ssl_at p w = Some c" and wh: "whole (data_mem w) ps"
    and d: "rd (data_mem w) d = Some bs" "bs \<noteq> []" and k: "ready (kernel w) c (ps @ [(nbrk w, bs)])"
  shows "\<exists>w'. ape_socket_queue_data E p d (length bs) 0 APE_DATA_COPY w = Some w' \<and> going p fd c w' (ps @ [(nbrk w, bs)])
     \<and> kernel w' = kernel w \<and> (\<forall>a < nbrk w. data_mem w' a = data_mem w a) \<and> data_mem w' = (data_mem w)(nbrk w \<mapsto> bs)"
proof -
  obtain w' where w': "ape_socket_queue_data E p d (length bs) 0 APE_DATA_COPY w = Some w'"
     "queued_in Secure p w' fd (ps @ [(nbrk w, bs)])" "kernel w' = kernel w" "\<forall>a < nbrk w. data_mem w' a = data_mem w a"
     "data_mem w' = (data_mem w)(nbrk w \<mapsto> bs)" "ssl_at p w' = ssl_at p w"
    using queue_data_spec [OF q _ d(1), of 0 E] d(2) by auto
  have "\<forall>d \<in> set (map fst ps). data_mem w' d = data_mem w d" using queued_fresh [OF q] w'(4) by blast
  then have "whole (data_mem w') ps" by (rule whole_cong [OF wh])
  then have "whole (data_mem w') (ps @ [(nbrk w, bs)])" using queued_brk [OF q] d(2) w'(5) by (auto simp: whole_def)
  then show ?thesis using w' c k by (intro exI [of _ w']) (simp add: going_def)
qed

text \<open>Writing: at once, when nothing waits. What OpenSSL wants to be given again is queued.\<close>

lemma secure_write_spec:
  assumes T: "ssl_api E = Some T" and g: "going p fd c w ps" and d: "rd (data_mem w) d = Some bs" "bs \<noteq> []"
  shows "\<exists>r w' ps' sn. APE_socket_write E p d (length bs) APE_DATA_COPY w = Some (r, w') \<and> going p fd c w' ps'
     \<and> sent (kernel w') c = sent (kernel w) c @ sn \<and> sn @ bytes_of ps' = bytes_of ps @ bs
     \<and> (\<forall>a < nbrk w. data_mem w' a = data_mem w a) \<and> set (map fst ps') \<subseteq> insert (nbrk w) (set (map fst ps))
     \<and> without (set (map fst ps')) (data_mem w') = without (set (map fst ps)) (data_mem w)"
proof -
  have new: "data_mem w (nbrk w) = None" using queued_brk [of Secure p w fd ps] g by (simp add: going_def)
  have q: "queued_in Secure p w fd ps" and wh: "whole (data_mem w) ps" and rdy: "ready (kernel w) c ps"
    and c: "ssl_at p w = Some c" using g by (simp_all add: going_def)
  obtain s b where s: "sock p w = Some s" "must_queue p w = Some b" "\<not> b \<longrightarrow> ps = []" "issecure s"
    "sk_state s = APE_SOCKET_ST_ONLINE" "p \<noteq> NULL" using queued_must [OF q] by auto
  then have sc: "ssl_ptr s = c" using c by (simp add: ssl_at_def)
  have on: "APE_socket_is_online p w = Some True" using s by (simp add: APE_socket_is_online_def)
  show ?thesis
  proof (cases b)
    case True
    obtain w' where w': "ape_socket_queue_data E p d (length bs) 0 APE_DATA_COPY w = Some w'" "going p fd c w' (ps @ [(nbrk w, bs)])"
     "kernel w' = kernel w" "\<forall>a < nbrk w. data_mem w' a = data_mem w a" "data_mem w' = (data_mem w)(nbrk w \<mapsto> bs)"
      using secure_queue [OF q c wh d ready_append [OF rdy]] by blast
    have "APE_socket_write E p d (length bs) APE_DATA_COPY w = Some (c_int (int (length bs)), w')"
      using on s(2) True w'(1) d(2) by (simp add: APE_socket_write_def Let_def)
    then show ?thesis using w'(2-5) without_put [of "data_mem w", OF new, where D = "set (map fst ps)"]
      by (intro exI [of _ "c_int (int (length bs))"] exI [of _ w'] exI [of _ "ps @ [(nbrk w, bs)]"] exI [of _ "[]"]) simp
  next
    case False
    then have ps: "ps = []" using s(3) by simp
    let ?w0 = "on_kernel (tls_clear_error T) w"
    have w0: "sock p ?w0 = Some s" "data_mem ?w0 = data_mem w" "packet_mem ?w0 = packet_mem w"
      using s(1) by (simp_all add: on_kernel_def sock_def)
    have k0: "ready (kernel ?w0) c []" "sent (kernel ?w0) c = sent (kernel w) c"
      using ready_clears [of "kernel w" c ps] rdy ps by (simp_all add: on_kernel_def)
    then have k1: "up (kernel ?w0) c" "pending (kernel ?w0) c \<in> {None, Some bs}"
      unfolding ready_def by (blast, metis insertCI list.distinct(1) option.exhaust)
    from try_write_spec [OF w0(1) sc _ d(2) k1] d(1) w0(2) obtain k' where
      "ssl_try_write T p d (length bs) ?w0 = Some (Ssl_done, ?w0\<lparr>kernel := k'\<rparr>)
         \<and> up k' c \<and> sent k' c = sent (kernel ?w0) c @ bs \<and> pending k' c = None \<and> (opened (kernel ?w0) c \<longrightarrow> opened k' c)
       \<or> ssl_try_write T p d (length bs) ?w0
          = Some (Ssl_again, moved p s k' (data_mem ?w0) (packet_mem ?w0) True (sk_flags s) ?w0) \<and> \<not> opened (kernel ?w0) c
         \<and> up k' c \<and> sent k' c = sent (kernel ?w0) c \<and> pending k' c = Some bs" by metis
    then show ?thesis
    proof (elim disjE conjE)
      assume tw: "ssl_try_write T p d (length bs) ?w0 = Some (Ssl_done, ?w0\<lparr>kernel := k'\<rparr>)"
        and k': "up k' c" "sent k' c = sent (kernel ?w0) c @ bs" "pending k' c = None"
      have "APE_socket_write E p d (length bs) APE_DATA_COPY w = Some (0, w\<lparr>kernel := k'\<rparr>)"
        using on s(1,2,4) False tw d T
        by (simp add: APE_socket_write_def Let_def secure_write_def ape_socket_release_data_def on_kernel_def)
      moreover have "going p fd c (w\<lparr>kernel := k'\<rparr>) []"
        using q c ps k' by (simp add: going_def ready_def ssl_at_def sock_def)
      ultimately show ?thesis using k'(2) k0(2) ps
        by (intro exI [of _ 0] exI [of _ "w\<lparr>kernel := k'\<rparr>"] exI [of _ "[]"] exI [of _ bs]) simp
    next
      assume tw: "ssl_try_write T p d (length bs) ?w0
          = Some (Ssl_again, moved p s k' (data_mem ?w0) (packet_mem ?w0) True (sk_flags s) ?w0)"
        and k': "up k' c" "sent k' c = sent (kernel ?w0) c" "pending k' c = Some bs"
      let ?w1 = "moved p s k' (data_mem w) (packet_mem w) True (sk_flags s) w"
        and ?w2 = "moved p s k' (data_mem w) (packet_mem w) True (sk_flags s OR APE_SOCKET_WOULD_BLOCK) w"
      have wb: "set_would_block p ?w1 = Some ?w2" using s(1) by (auto simp: set_would_block_def upd_sock_def moved_def sock_def)
      have sw: "secure_write E p d (length bs) w = Some (W_again 0, ?w1)"
        using tw T by (simp add: secure_write_def moved_def on_kernel_def)
      let ?w3 = "moved p s (kernel w) (data_mem w) (packet_mem w) True (sk_flags s OR APE_SOCKET_WOULD_BLOCK) w"
      have "?w2 = ?w3\<lparr>kernel := k'\<rparr>" by (simp add: moved_def)
      moreover have "going p fd c ?w3 ps" by (rule going_moved [OF g s(1) rdy])
      ultimately have q2: "queued_in Secure p ?w2 fd []" unfolding going_def using ps by (simp only: queued_kernel)
      obtain w' where w': "ape_socket_queue_data E p d (length bs) 0 APE_DATA_COPY ?w2 = Some w'"
        "going p fd c w' ([] @ [(nbrk ?w2, bs)])" "kernel w' = kernel ?w2" "\<forall>a < nbrk ?w2. data_mem w' a = data_mem ?w2 a"
        "data_mem w' = (data_mem ?w2)(nbrk ?w2 \<mapsto> bs)"
        using secure_queue [OF q2, of c d bs E] c s(1) d k' by (auto simp: ready_def)
      have "APE_socket_write E p d (length bs) APE_DATA_COPY w = Some (c_int (int (length bs)), w')"
        using on s(1,2,4) False sw wb w'(1) d(2) by (simp add: APE_socket_write_def Let_def)
      then show ?thesis using w'(2-5) k'(2) k0(2) ps without_put [of "data_mem w", OF new, where D = "{}"]
        by (intro exI [of _ "c_int (int (length bs))"] exI [of _ w'] exI [of _ "[(nbrk w, bs)]"] exI [of _ "[]"]) simp
    qed
  qed
qed

text \<open>So a connection over SSL can be used as the others. The kernel may go on as long as it leaves the
  connection and its last write alone.\<close>

lemma secure_sender:
  fixes E :: "('b, 'k) env"
  assumes T: "ssl_api E = Some T" and quiet: "\<forall>f a w. on_event E (Drain f p a) w = Some w"
  shows "sender E p (going p fd c) (\<lambda>k. sent k c)
     (\<lambda>f. \<forall>k. (up k c \<longrightarrow> up (f k) c) \<and> sent (f k) c = sent k c \<and> pending (f k) c = pending k c) (\<lambda>k bs. False)"
proof
  fix w :: "('b, 'k) ape_net" and ps
  assume g: "going p fd c w ps"
  then have q: "queued_in Secure p w fd ps" and wh: "whole (data_mem w) ps" by (simp_all add: going_def)
  note fresh = queued_brk [OF q] queued_fresh [OF q]
  show "(\<exists>s. sock p w = Some s) \<and> 0 < nbrk w \<and> data_mem w (nbrk w) = None \<and> (\<forall>d \<in> set (map fst ps). d < nbrk w)"
    using g fresh by (auto simp: going_def ssl_at_def)
  have "\<forall>d \<in> set (map fst ps). ((data_mem w)(nbrk w \<mapsto> bs)) d = data_mem w d" for bs
    using fresh(2) by fastforce
  then have "whole ((data_mem w)(nbrk w \<mapsto> bs)) ps" for bs by (rule whole_cong [OF wh])
  then show "going p fd c (w\<lparr>data_mem := (data_mem w)(nbrk w \<mapsto> bs), nbrk := nbrk w + 1\<rparr>) ps" for bs
    using g queued_malloc [OF q] by (simp add: going_def ssl_at_def sock_def)
  show "going p fd c (w\<lparr>data_mem := (data_mem w)(d := None)\<rparr>) ps" if d: "d \<notin> set (map fst ps)" for d
  proof -
    have "\<forall>a \<in> set (map fst ps). ((data_mem w)(d := None)) a = data_mem w a" using d by (metis fun_upd_other)
    then have "whole ((data_mem w)(d := None)) ps" by (rule whole_cong [OF wh])
    then show ?thesis using g queued_free [OF q d] by (simp add: going_def ssl_at_def sock_def)
  qed
  show "going p fd c (w\<lparr>kernel := f (kernel w)\<rparr>) ps \<and> sent (f (kernel w)) c = sent (kernel w) c"
    if "\<forall>k. (up k c \<longrightarrow> up (f k) c) \<and> sent (f k) c = sent k c \<and> pending (f k) c = pending k c" for f
    using g that by (simp add: going_def ready_def ssl_at_def sock_def)
  show "APE_socket_write E p d (length bs) APE_DATA_COPY w = None \<and> False
       \<or> (\<exists>r w' ps' sn. APE_socket_write E p d (length bs) APE_DATA_COPY w = Some (r, w') \<and> going p fd c w' ps'
       \<and> sent (kernel w') c = sent (kernel w) c @ sn \<and> sn @ bytes_of ps' = bytes_of ps @ bs
       \<and> (\<forall>a < nbrk w. data_mem w' a = data_mem w a) \<and> set (map fst ps') \<subseteq> insert (nbrk w) (set (map fst ps))
       \<and> without (set (map fst ps')) (data_mem w') = without (set (map fst ps)) (data_mem w))"
    if "rd (data_mem w) d = Some bs" "bs \<noteq> []" for d bs
    using secure_write_spec [OF T g that] by (rule disjI2)
  show "\<exists>w' ps' sn. socket_event E p EVENT_WRITE w = Some w' \<and> going p fd c w' ps'
       \<and> sent (kernel w') c = sent (kernel w) c @ sn \<and> sn @ bytes_of ps' = bytes_of ps
       \<and> without (set (map fst ps')) (data_mem w') = without (set (map fst ps)) (data_mem w)"
    using secure_writable [OF T quiet g] by blast
qed

end

section \<open>OpenSSL's promises\<close>

text \<open>
  The same of OpenSSL itself. The context has \<open>SSL_MODE_ACCEPT_MOVING_WRITE_BUFFER\<close>, so that the
  data of a write that is made again only has to be equal, and not partial writes. \<open>retry\<close> is the
  data OpenSSL waits for, \<open>taken\<close> what it has taken of a connection; while the connection is
  \<open>opened\<close> it takes every write. A connection is \<open>live\<close> as long as no write fails for good: of
  one that has failed nothing is said.
\<close>

locale openssl_stream =
  fixes S :: "'o openssl" and taken :: "'o \<Rightarrow> ptr \<Rightarrow> byte list" and live :: "'o \<Rightarrow> ptr \<Rightarrow> bool"
    and retry :: "'o \<Rightarrow> ptr \<Rightarrow> byte list option" and opened :: "'o \<Rightarrow> ptr \<Rightarrow> bool"
  assumes writes: "live k con \<Longrightarrow> bs \<noteq> [] \<Longrightarrow> retry k con \<in> {None, Some bs} \<Longrightarrow> SSL_write S con bs k = (n, k') \<Longrightarrow>
        n = int (length bs) \<and> live k' con \<and> taken k' con = taken k con @ bs \<and> retry k' con = None \<and> (opened k con \<longrightarrow> opened k' con)
        \<or> n = - 1 \<and> \<not> opened k con \<and> (\<exists>e k2. SSL_get_error S con n k' = (e, k2) \<and> e \<in> {SSL_ERROR_WANT_READ, SSL_ERROR_WANT_WRITE}
             \<and> live k2 con \<and> taken k2 con = taken k con \<and> retry k2 con = Some bs)"
    and clears: "live k con \<Longrightarrow> live (ERR_clear_error S k) con \<and> taken (ERR_clear_error S k) con = taken k con
      \<and> retry (ERR_clear_error S k) con = retry k con \<and> (opened k con \<longrightarrow> opened (ERR_clear_error S k) con)"
begin

text \<open>What \<open>ape_ssl.c\<close> makes of it, for the object \<open>v\<close> of a connection.\<close>

lemma api_stream:
  assumes v: "ssl_con v \<noteq> NULL"
  shows "tls_stream (ape_ssl_api S) (\<lambda>k c. taken (ssl_lib k) (ssl_con v))
     (\<lambda>k c. rd (ssl_objs k) c = Some v \<and> live (ssl_lib k) (ssl_con v)) (\<lambda>k c. retry (ssl_lib k) (ssl_con v))
     (\<lambda>k c. opened (ssl_lib k) (ssl_con v))"
proof
  fix k :: "'o ssl_state" and c and bs :: "byte list"
  assume k: "rd (ssl_objs k) c = Some v \<and> live (ssl_lib k) (ssl_con v)"
  show "(rd (ssl_objs (tls_clear_error (ape_ssl_api S) k)) c = Some v \<and> live (ssl_lib (tls_clear_error (ape_ssl_api S) k)) (ssl_con v))
     \<and> taken (ssl_lib (tls_clear_error (ape_ssl_api S) k)) (ssl_con v) = taken (ssl_lib k) (ssl_con v)
     \<and> retry (ssl_lib (tls_clear_error (ape_ssl_api S) k)) (ssl_con v) = retry (ssl_lib k) (ssl_con v)
     \<and> (opened (ssl_lib k) (ssl_con v) \<longrightarrow> opened (ssl_lib (tls_clear_error (ape_ssl_api S) k)) (ssl_con v))"
    using k clears by (simp add: ape_ssl_api_def)
  assume bs: "bs \<noteq> []" "retry (ssl_lib k) (ssl_con v) \<in> {None, Some bs}"
  have c0: "c \<noteq> NULL" using k by auto
  obtain n o' where w: "SSL_write S (ssl_con v) bs (ssl_lib k) = (n, o')" by (cases "SSL_write S (ssl_con v) bs (ssl_lib k)")
  have "tls_write (ape_ssl_api S) c bs k = Some (n, k\<lparr>ssl_lib := o'\<rparr>)"
    using k v c0 w by (simp add: ape_ssl_api_def ape_ssl_write_def on_lib_def)
  then show "\<exists>n k'. tls_write (ape_ssl_api S) c bs k = Some (n, k') \<and>
        (n \<noteq> - 1 \<and> (rd (ssl_objs k') c = Some v \<and> live (ssl_lib k') (ssl_con v))
           \<and> taken (ssl_lib k') (ssl_con v) = taken (ssl_lib k) (ssl_con v) @ bs \<and> retry (ssl_lib k') (ssl_con v) = None
           \<and> (opened (ssl_lib k) (ssl_con v) \<longrightarrow> opened (ssl_lib k') (ssl_con v))
         \<or> n = - 1 \<and> \<not> opened (ssl_lib k) (ssl_con v) \<and> (\<exists>con e k2. tls_con_of (ape_ssl_api S) c k' = Some con \<and> tls_get_error (ape_ssl_api S) con n k' = (e, k2)
             \<and> e \<in> {SSL_ERROR_WANT_READ, SSL_ERROR_WANT_WRITE}
             \<and> (rd (ssl_objs k2) c = Some v \<and> live (ssl_lib k2) (ssl_con v))
             \<and> taken (ssl_lib k2) (ssl_con v) = taken (ssl_lib k) (ssl_con v) \<and> retry (ssl_lib k2) (ssl_con v) = Some bs))"
    using writes [OF _ bs w] k by (intro exI [of _ n] exI [of _ "k\<lparr>ssl_lib := o'\<rparr>"]) (auto simp: ape_ssl_api_def on_lib_def)
qed

end

section \<open>A secure connection that was accepted\<close>


text \<open>An OpenSSL with one connection, 5, that takes nothing until a gate opens.\<close>

record gate =
  g_taken :: "byte list"
  g_again :: "byte list option"
  g_open :: bool

definition gate_write :: "ptr \<Rightarrow> byte list \<Rightarrow> gate \<Rightarrow> int \<times> gate" where
  "gate_write c bs k = (if g_open k then (int (length bs), k\<lparr>g_taken := g_taken k @ bs, g_again := None\<rparr>)
     else (- 1, k\<lparr>g_again := Some bs\<rparr>))"

definition gate_tls :: "gate openssl" where
  "gate_tls = still_tls\<lparr>SSL_write := gate_write, SSL_get_error := (\<lambda>c n k. (SSL_ERROR_WANT_WRITE, k))\<rparr>"

definition gate_taken :: "gate \<Rightarrow> ptr \<Rightarrow> byte list" where "gate_taken k c = g_taken k"

definition gate_again :: "gate \<Rightarrow> ptr \<Rightarrow> byte list option" where "gate_again k c = g_again k"

definition gate_opened :: "gate \<Rightarrow> ptr \<Rightarrow> bool" where "gate_opened k c = g_open k"

definition gate_live :: "gate \<Rightarrow> ptr \<Rightarrow> bool" where "gate_live k c \<longleftrightarrow> c = 5"

interpretation gate: openssl_stream gate_tls gate_taken gate_live gate_again gate_opened
  by unfold_locales (auto simp: gate_tls_def still_tls_def gate_taken_def gate_again_def gate_live_def gate_opened_def gate_write_def split: if_splits)

definition gate_con :: ape_ssl where "gate_con = \<lparr>ssl_ctx = NULL, ssl_con = 5\<rparr>"

interpretation gate_api: tls_stream "ape_ssl_api gate_tls" "\<lambda>k c. gate_taken (ssl_lib k) (ssl_con gate_con)"
  "\<lambda>k c. rd (ssl_objs k) c = Some gate_con \<and> gate_live (ssl_lib k) (ssl_con gate_con)"
  "\<lambda>k c. gate_again (ssl_lib k) (ssl_con gate_con)" "\<lambda>k c. gate_opened (ssl_lib k) (ssl_con gate_con)"
  by (rule gate.api_stream) (simp add: gate_con_def)

text \<open>The context of the server is the object 1.\<close>

definition gate0 :: "gate ssl_state" where
  "gate0 = \<lparr>ssl_lib = \<lparr>g_taken = [], g_again = None, g_open = False\<rparr>, ssl_objs = [1 \<mapsto> \<lparr>ssl_ctx = 3, ssl_con = NULL\<rparr>], ssl_brk = 2\<rparr>"









section \<open>A write that OpenSSL does not make\<close>

text \<open>C39: A write on a connection over SSL for which \<open>SSL_write\<close> returns anything but -1, in
  particular the 0 by which OpenSSL says that it took nothing, is reported as a success: \<open>APE_socket_write\<close>
  returns 0, the data is released as after a complete write and not queued, and the socket stays online with
  nothing left to send. Nothing but the state of OpenSSL changes.\<close>

theorem secure_write_zero_lost:
  assumes "ssl_api E = Some (ape_ssl_api S)" and "sock p w = Some s" and "p \<noteq> NULL" and "sk_state s = APE_SOCKET_ST_ONLINE"
    and "issecure s" and "must_queue p w = Some False" and "rd (data_mem w) d = Some bs" and "bs \<noteq> []"
    and "rd (ssl_objs (kernel w)) (ssl_ptr s) = Some v" and "ssl_con v \<noteq> NULL"
    and "SSL_write S (ssl_con v) bs (ERR_clear_error S (ssl_lib (kernel w))) = (n, lib)" and "n \<noteq> - 1"
  shows "APE_socket_write E p d (length bs) ty w
      = map_option (Pair 0) (ape_socket_release_data d (if ty = APE_DATA_COPY then APE_DATA_OWN else ty)
          (w\<lparr>kernel := (kernel w)\<lparr>ssl_lib := lib\<rparr>\<rparr>))"
proof -
  let ?T = "ape_ssl_api S" and ?w0 = "on_kernel (tls_clear_error (ape_ssl_api S)) w"
  have c0: "ssl_ptr s \<noteq> NULL" using assms(9) by auto
  have "tls_write ?T (ssl_ptr s) bs (kernel ?w0) = Some (n, (kernel w)\<lparr>ssl_lib := lib\<rparr>)"
    using assms(9-11) c0 by (simp add: ape_ssl_api_def ape_ssl_write_def on_lib_def on_kernel_def)
  then have "ssl_try_write ?T p d (length bs) ?w0 = Some (Ssl_done, w\<lparr>kernel := (kernel w)\<lparr>ssl_lib := lib\<rparr>\<rparr>)"
    using assms(2,7,12) by (simp add: ssl_try_write_def on_kernel_def sock_def)
  then have "secure_write E p d (length bs) w = Some (W_done, w\<lparr>kernel := (kernel w)\<lparr>ssl_lib := lib\<rparr>\<rparr>)"
    using assms(1) by (simp add: secure_write_def)
  moreover have "APE_socket_is_online p w = Some True" using assms(2-4) by (simp add: APE_socket_is_online_def)
  ultimately show ?thesis using assms(2,5,6,8)
    by (simp add: APE_socket_write_def Let_def map_option_case Option.bind_eq_None_conv split: option.split)
qed

text \<open>A connection whose OpenSSL returns 0 for every write: 3 bytes are lost, and what was 3 bytes on the heap stays
  the caller's.\<close>

definition shut_tls :: "gate openssl" where
  "shut_tls = gate_tls\<lparr>SSL_write := (\<lambda>c bs k. (0, k))\<rparr>"

definition shut_env :: "(unit, gate ssl_state) env" where
  "shut_env = (env_of still_sys)\<lparr>ssl_api := Some (ape_ssl_api shut_tls)\<rparr>"

definition shut_state :: "(unit, gate ssl_state) ape_net" where
  "shut_state = (net0 (gate0\<lparr>ssl_objs := [2 \<mapsto> gate_con]\<rparr>))\<lparr>
     sockets := [50 \<mapsto> (new_socket 4 APE_SOCKET_PT_SSL \<lparr>pl_head = 1, pl_queue = 1, pl_current = 1, pl_size = sizeof_jobs\<rparr>)
       \<lparr>sk_state := APE_SOCKET_ST_ONLINE, sk_type := APE_SOCKET_TP_CLIENT, ssl_ptr := 2\<rparr>],
     job_mem := one_job APE_POOL_ALLOC NULL, data_mem := [7 \<mapsto> [1, 2, 3]]\<rparr>"

theorem secure_write_zero_lost_witness:
  "APE_socket_write shut_env 50 7 3 APE_DATA_COPY shut_state = Some (0, shut_state)
   \<and> APE_socket_write shut_env 50 7 3 APE_DATA_AUTORELEASE shut_state = Some (0, shut_state\<lparr>data_mem := Map.empty\<rparr>)"
proof -
  obtain s where s: "sock 50 shut_state = Some s" "sk_state s = APE_SOCKET_ST_ONLINE" "issecure s" "ssl_ptr s = 2"
    "must_queue 50 shut_state = Some False"
    by (simp add: shut_state_def sock_def new_socket_def net0_def must_queue_def would_block_def one_job_def job_flag_def
        APE_SOCKET_JOB_ACTIVE_def APE_POOL_ALLOC_def APE_SOCKET_WOULD_BLOCK_def)
  have d: "rd (data_mem shut_state) 7 = Some [1, 2, 3]" "rd (ssl_objs (kernel shut_state)) 2 = Some gate_con"
    "ssl_con gate_con \<noteq> NULL" "data_mem shut_state = [7 \<mapsto> [1, 2, 3]]"
    by (simp_all add: shut_state_def gate_con_def net0_def)
  have wr: "SSL_write shut_tls (ssl_con gate_con) [1, 2, 3] (ERR_clear_error shut_tls (ssl_lib (kernel shut_state)))
      = (0, ssl_lib (kernel shut_state))"
    by (simp add: shut_tls_def gate_tls_def still_tls_def)
  have "ssl_api shut_env = Some (ape_ssl_api shut_tls)" by (simp add: shut_env_def)
  from secure_write_zero_lost [OF this s(1) _ s(2,3,5) d(1) _ d(2) [folded s(4)] d(3) wr] show ?thesis
    using d(4) by (simp add: ape_socket_release_data_def free_data_def dealloc_def rd_def numeral_3_eq_3)
qed

end
