(* ===== verification/Secure_Read.thy ===== *)
theory Secure_Read
  imports Read_Props Secure_Props
begin

text \<open>
  Reading from a connection over SSL.
\<close>

text \<open>
  \<open>inp k con\<close> is what OpenSSL has for the reader of a connection, \<open>closed k con\<close> that the
  peer has ended it. A read that gives nothing is 0, or its error says that the connection was ended or that
  the call has to be made again.
\<close>

locale openssl_source =
  fixes S :: "'o openssl" and inp :: "'o \<Rightarrow> ptr \<Rightarrow> byte list" and closed live :: "'o \<Rightarrow> ptr \<Rightarrow> bool"
  assumes reads: "live k con \<Longrightarrow> 0 < n \<Longrightarrow> SSL_read S con (int n) k = (m, bs, k') \<Longrightarrow>
      0 < m \<and> m = int (length bs) \<and> length bs \<le> n \<and> live k' con \<and> inp k con = bs @ inp k' con \<and> closed k' con = closed k con
      \<or> m = 0 \<and> bs = [] \<and> live k' con \<and> closed k con \<and> inp k con = [] \<and> inp k' con = []
      \<or> m < 0 \<and> bs = [] \<and> inp k con = [] \<and> (\<exists>e k2. SSL_get_error S con m k' = (e, k2) \<and> live k2 con \<and> inp k2 con = []
          \<and> (e = SSL_ERROR_ZERO_RETURN \<and> closed k con
             \<or> e \<in> {SSL_ERROR_WANT_READ, SSL_ERROR_WANT_WRITE} \<and> \<not> closed k con))"
    and clears: "live k con \<Longrightarrow> live (ERR_clear_error S k) con \<and> inp (ERR_clear_error S k) con = inp k con
      \<and> closed (ERR_clear_error S k) con = closed k con"
begin

lemma secure_read_spec:
  assumes T: "ssl_api E = Some (ape_ssl_api S)" and v: "rd (ssl_objs k) c = Some v" "ssl_con v = con" "con \<noteq> NULL"
    and l: "live (ssl_lib k) con" and n: "0 < n"
  shows "\<exists>m bs k'. secure_read E c n k = Some (Some m, bs, k') \<and> rd (ssl_objs k') c = Some v \<and> live (ssl_lib k') con
      \<and> (m \<le> 0 \<and> (m = 0) = closed (ssl_lib k) con \<and> inp (ssl_lib k) con = [] \<and> inp (ssl_lib k') con = []
         \<or> 0 < m \<and> m = int (length bs) \<and> length bs \<le> n \<and> inp (ssl_lib k) con = bs @ inp (ssl_lib k') con
           \<and> closed (ssl_lib k') con = closed (ssl_lib k) con)"
proof -
  have c0: "c \<noteq> NULL" using v(1) by auto
  let ?o = "ERR_clear_error S (ssl_lib k)"
  have o: "live ?o con" "inp ?o con = inp (ssl_lib k) con" "closed ?o con = closed (ssl_lib k) con" using clears [OF l] by simp_all
  obtain m bs o' where r: "SSL_read S con (int n) ?o = (m, bs, o')" by (cases "SSL_read S con (int n) ?o")
  note rs = reads [OF o(1) n r]
  then have "\<not> int n < int (length bs)" by auto
  then have tr: "tls_read (ape_ssl_api S) c (int n) (tls_clear_error (ape_ssl_api S) k) = Some (m, bs, k\<lparr>ssl_lib := o'\<rparr>)"
    using v r c0 by (simp add: ape_ssl_api_def ape_ssl_read_def)
  from rs show ?thesis
  proof (elim disjE conjE exE)
    fix e o2
    assume m: "m < 0" "bs = []" "inp ?o con = []" and e: "SSL_get_error S con m o' = (e, o2)" "live o2 con" "inp o2 con = []"
      "e = SSL_ERROR_ZERO_RETURN" "closed ?o con"
    then have "secure_read E c n k = Some (Some 0, [], k\<lparr>ssl_lib := o2\<rparr>)"
      using T tr v by (simp add: secure_read_def ape_ssl_api_def on_lib_def)
    then show ?thesis using m e o v(1) by (intro exI [of _ 0] exI [of _ "[]"] exI [of _ "k\<lparr>ssl_lib := o2\<rparr>"]) simp
  next
    fix e o2
    assume m: "m < 0" "bs = []" "inp ?o con = []" and e: "SSL_get_error S con m o' = (e, o2)" "live o2 con" "inp o2 con = []"
      "e \<in> {SSL_ERROR_WANT_READ, SSL_ERROR_WANT_WRITE}" "\<not> closed ?o con"
    then have "secure_read E c n k = Some (Some m, [], k\<lparr>ssl_lib := o2\<rparr>)"
      using T tr v by (auto simp: secure_read_def ape_ssl_api_def on_lib_def)
    then show ?thesis using m e o v(1) by (intro exI [of _ m] exI [of _ "[]"] exI [of _ "k\<lparr>ssl_lib := o2\<rparr>"]) simp
  next
    assume m: "m = 0" "bs = []" "live o' con" "closed ?o con" "inp ?o con = []" "inp o' con = []"
    then have "secure_read E c n k = Some (Some 0, [], k\<lparr>ssl_lib := o'\<rparr>)" using T tr by (simp add: secure_read_def)
    then show ?thesis using m o v(1) by (intro exI [of _ 0] exI [of _ "[]"] exI [of _ "k\<lparr>ssl_lib := o'\<rparr>"]) simp
  next
    assume m: "0 < m" "m = int (length bs)" "length bs \<le> n" "live o' con" "inp ?o con = bs @ inp o' con" "closed o' con = closed ?o con"
    then have "secure_read E c n k = Some (Some m, bs, k\<lparr>ssl_lib := o'\<rparr>)" using T tr by (simp add: secure_read_def)
    then show ?thesis using m o v(1) by (intro exI [of _ m] exI [of _ bs] exI [of _ "k\<lparr>ssl_lib := o'\<rparr>"]) simp
  qed
qed

lemma secure_inbound:
  assumes T: "ssl_api E = Some (ape_ssl_api S)" and v: "ssl_con v = con" "con \<noteq> NULL"
  shows "inbound E (\<lambda>s. issecure s \<and> ssl_ptr s = c) (\<lambda>k. inp (ssl_lib k) con) (\<lambda>k. closed (ssl_lib k) con)
     (\<lambda>k. rd (ssl_objs k) c = Some v \<and> live (ssl_lib k) con)"
proof
  fix s :: ape_socket and k :: "'o ssl_state" and n :: nat
  assume s: "issecure s \<and> ssl_ptr s = c" and k: "rd (ssl_objs k) c = Some v \<and> live (ssl_lib k) con" and n: "0 < n"
  then show "\<exists>m bs k'. read_once E s n k = Some (Some m, bs, k') \<and> (rd (ssl_objs k') c = Some v \<and> live (ssl_lib k') con)
      \<and> (m \<le> 0 \<and> (m = 0) = closed (ssl_lib k) con \<and> inp (ssl_lib k) con = [] \<and> inp (ssl_lib k') con = []
         \<or> 0 < m \<and> m = int (length bs) \<and> length bs \<le> n \<and> inp (ssl_lib k) con = bs @ inp (ssl_lib k') con
           \<and> closed (ssl_lib k') con = closed (ssl_lib k) con)"
    using secure_read_spec [OF T _ v, of k c n] by (simp add: read_once_def)
qed simp

end


text \<open>An OpenSSL with one connection, 5, that gives one piece after the other and then wants to read.\<close>

definition piece_tls :: "byte list list openssl" where
  "piece_tls = still_tls\<lparr>SSL_read := (\<lambda>c n k. case k of [] \<Rightarrow> (- 1, [], [])
       | bs # bss \<Rightarrow> if bs = [] then (0, [], k) else if int (length bs) \<le> n then (int (length bs), bs, bss)
                     else (n, take (nat n) bs, drop (nat n) bs # bss)),
     SSL_get_error := (\<lambda>c n k. (SSL_ERROR_WANT_READ, k))\<rparr>"

interpretation pieces: openssl_source piece_tls "\<lambda>k c. concat (takeWhile (\<lambda>bs. bs \<noteq> []) k)" "\<lambda>k c. [] \<in> set k" "\<lambda>k c. True"
proof
  fix k con n m bs k'
  assume n: "0 < n" and "SSL_read piece_tls con (int n) k = (m, bs, k')"
  then have r: "(case k of [] \<Rightarrow> (- 1, [], [])
       | bs # bss \<Rightarrow> if bs = [] then (0, [], k) else if int (length bs) \<le> int n then (int (length bs), bs, bss)
                     else (int n, take (nat (int n)) bs, drop (nat (int n)) bs # bss)) = (m, bs, k')" by (simp add: piece_tls_def still_tls_def)
  have e: "SSL_get_error piece_tls con m k' = (SSL_ERROR_WANT_READ, k')" by (simp add: piece_tls_def still_tls_def)
  show "0 < m \<and> m = int (length bs) \<and> length bs \<le> n \<and> True
        \<and> concat (takeWhile (\<lambda>bs. bs \<noteq> []) k) = bs @ concat (takeWhile (\<lambda>bs. bs \<noteq> []) k') \<and> ([] \<in> set k') = ([] \<in> set k)
      \<or> m = 0 \<and> bs = [] \<and> True \<and> [] \<in> set k \<and> concat (takeWhile (\<lambda>bs. bs \<noteq> []) k) = [] \<and> concat (takeWhile (\<lambda>bs. bs \<noteq> []) k') = []
      \<or> m < 0 \<and> bs = [] \<and> concat (takeWhile (\<lambda>bs. bs \<noteq> []) k) = [] \<and> (\<exists>e k2. SSL_get_error piece_tls con m k' = (e, k2)
          \<and> True \<and> concat (takeWhile (\<lambda>bs. bs \<noteq> []) k2) = []
          \<and> (e = SSL_ERROR_ZERO_RETURN \<and> [] \<in> set k \<or> e \<in> {SSL_ERROR_WANT_READ, SSL_ERROR_WANT_WRITE} \<and> [] \<notin> set k))"
    using r n e by (cases k) (auto split: if_splits)
qed (simp add: piece_tls_def still_tls_def)

interpretation piece_reader: inbound "(env_of still_sys)\<lparr>ssl_api := Some (ape_ssl_api piece_tls)\<rparr>"
  "\<lambda>s. issecure s \<and> ssl_ptr s = c" "\<lambda>k. concat (takeWhile (\<lambda>bs. bs \<noteq> []) (ssl_lib k))" "\<lambda>k. [] \<in> set (ssl_lib k)"
  "\<lambda>k. rd (ssl_objs k) c = Some gate_con \<and> True" for c
  by (rule pieces.secure_inbound [of _ gate_con 5]) (simp_all add: gate_con_def)




end
