(* ===== verification/Websocket.thy ===== *)
theory Websocket
  imports Prelude
begin

unbundle bit_operations_syntax

text \<open>
  \<open>src/websocket.zig\<close>: writing frames, and the parser of what comes in, a state machine that is
  given one byte after the other. None is a panic: a conversion or an addition that overflows, or memory that
  cannot be had. A field of 2 or 3 bits is a number, with the overflow written out.
\<close>

section \<open>What it runs on\<close>

datatype shutdown_action = Queue | Now

datatype data_lifetime = Static | Own | Copy

text \<open>The operations of \<open>apenetwork.Client\<close> that are used: \<open>write\<close>,
  \<open>tcpBufferStart\<close> and \<open>tcpBufferEnd\<close>, and \<open>close\<close>.\<close>

record 'w net_client =
  nc_write :: "byte list \<Rightarrow> data_lifetime \<Rightarrow> 'w \<Rightarrow> 'w option"
  nc_cork :: "bool \<Rightarrow> 'w \<Rightarrow> 'w option"
  nc_close :: "shutdown_action \<Rightarrow> 'w \<Rightarrow> 'w option"

text \<open>\<open>std.ArrayList(u8)\<close>. The allocator is a parameter: from a capacity, and the one needed, to the new
  capacity, or None when there is no memory.\<close>

type_synonym allocator = "nat \<Rightarrow> nat \<Rightarrow> nat option"

record array_list =
  items :: "byte list"
  capacity :: nat

definition ensure_capacity :: "allocator \<Rightarrow> nat \<Rightarrow> array_list \<Rightarrow> array_list option" where
  "ensure_capacity grow n a = (if n \<le> capacity a then Some a else do { c \<leftarrow> grow (capacity a) n; Some (a\<lparr>capacity := c\<rparr>) })"

definition append_byte :: "allocator \<Rightarrow> byte \<Rightarrow> array_list \<Rightarrow> array_list option" where
  "append_byte grow b a = do {
     a1 \<leftarrow> ensure_capacity grow (length (items a) + 1) a;
     Some (a1\<lparr>items := items a @ [b]\<rparr>) }"

section \<open>Frames\<close>

definition maximum_preallocated_bytes_per_frame :: nat where
  "maximum_preallocated_bytes_per_frame = 1024 * 1024"

datatype connection_type = Client_end | Server_end

datatype parsing_state = Step_key | Step_start | Step_length | Step_short_length | Step_extended_length | Step_data

datatype frame_state = Frame_start | Frame_continue | Frame_finish

datatype op_code = Op_continuation | Op_text | Op_binary | Op_close | Op_ping | Op_pong | Op_unknown byte

definition op_of :: "byte \<Rightarrow> op_code" where
  "op_of b = (if b = 0x0 then Op_continuation else if b = 0x1 then Op_text else if b = 0x2 then Op_binary
     else if b = 0x8 then Op_close else if b = 0x9 then Op_ping else if b = 0xA then Op_pong else Op_unknown b)"

fun op_int :: "op_code \<Rightarrow> byte" where
  "op_int Op_continuation = 0x0" | "op_int Op_text = 0x1" | "op_int Op_binary = 0x2"
| "op_int Op_close = 0x8" | "op_int Op_ping = 0x9" | "op_int Op_pong = 0xA" | "op_int (Op_unknown b) = b"

text \<open>The bytes of a number, the lowest first.\<close>

fun le_bytes :: "nat \<Rightarrow> 'a::len word \<Rightarrow> byte list" where
  "le_bytes 0 x = []"
| "le_bytes (Suc n) x = ucast x # le_bytes n (drop_bit 8 x)"

definition be_bytes :: "nat \<Rightarrow> 'a::len word \<Rightarrow> byte list" where
  "be_bytes n x = rev (le_bytes n x)"

fun le_u64 :: "byte list \<Rightarrow> uint64" where
  "le_u64 [] = 0"
| "le_u64 (b # bs) = ucast b OR push_bit 8 (le_u64 bs)"

text \<open>\<open>@byteSwap\<close> of a number of \<open>n\<close> bytes.\<close>

definition byte_swap :: "nat \<Rightarrow> uint64 \<Rightarrow> uint64" where
  "byte_swap n x = le_u64 (be_bytes n x)"

section \<open>Writing\<close>

text \<open>What a client is: \<open>closed\<close> is its only state. The header is that of no frame when there is too much
  data for it.\<close>

definition ws_head :: "connection_type \<Rightarrow> op_code \<Rightarrow> nat \<Rightarrow> byte list" where
  "ws_head ty opcode n =
     (let h0 = 0x80 OR op_int opcode; mask = (if ty = Client_end then 0x80 else 0)
      in if n \<le> 125 then [h0, mask OR of_nat n]
         else if n \<le> 65535 then [h0, 126] @ be_bytes 2 (of_nat n :: 16 word)
         else if n \<le> 0xFFFFFFFF then [h0, 127] @ be_bytes 8 (of_nat n :: uint64)
         else [])"

fun write_pieces :: "'w net_client \<Rightarrow> (byte list \<times> data_lifetime) list \<Rightarrow> 'w \<Rightarrow> 'w option" where
  "write_pieces C [] w = Some w"
| "write_pieces C ((bs, lt) # ps) w = do { w1 \<leftarrow> nc_write C bs lt w; write_pieces C ps w1 }"

definition ws_writev ::
  "'w net_client \<Rightarrow> connection_type \<Rightarrow> bool \<Rightarrow> (byte list \<times> data_lifetime) list \<Rightarrow> op_code \<Rightarrow> 'w \<Rightarrow> 'w option" where
  "ws_writev C ty closed datav opcode w =
     (if closed then Some w
      else do {
        w1 \<leftarrow> nc_cork C True w;
        let n = sum_list (map (length \<circ> fst) datav);
        if 2 ^ 64 \<le> n then None
        else do {
          w2 \<leftarrow> (if n \<le> 0xFFFFFFFF then nc_write C (ws_head ty opcode n) Copy w1 else Some w1);
          w3 \<leftarrow> (if n \<noteq> 0 then write_pieces C datav w2 else Some w2);
          nc_cork C False w3 } })"

definition ws_write ::
  "'w net_client \<Rightarrow> connection_type \<Rightarrow> bool \<Rightarrow> byte list \<Rightarrow> op_code \<Rightarrow> data_lifetime \<Rightarrow> 'w \<Rightarrow> 'w option" where
  "ws_write C ty closed data opcode lt w = ws_writev C ty closed [(data, lt)] opcode w"

text \<open>The flag is set before the frame is written.\<close>

definition ws_close :: "'w net_client \<Rightarrow> connection_type \<Rightarrow> bool \<Rightarrow> 'w \<Rightarrow> (bool \<times> 'w) option" where
  "ws_close C ty closed w =
     (if closed then Some (closed, w)
      else do {
        let closed = True;
        w1 \<leftarrow> ws_write C ty closed [] Op_close Static w;
        w2 \<leftarrow> nc_close C Queue w1;
        Some (closed, w2) })"

definition ws_ping :: "'w net_client \<Rightarrow> connection_type \<Rightarrow> bool \<Rightarrow> byte list \<Rightarrow> 'w \<Rightarrow> 'w option" where
  "ws_ping C ty closed data w = (if closed then Some w else ws_write C ty closed data Op_ping Copy w)"

definition ws_pong :: "'w net_client \<Rightarrow> connection_type \<Rightarrow> bool \<Rightarrow> byte list \<Rightarrow> 'w \<Rightarrow> 'w option" where
  "ws_pong C ty closed data w = (if closed then Some w else ws_write C ty closed data Op_pong Copy w)"

section \<open>The parser\<close>

record ws_state =
  buffer :: array_list
  closed :: bool
  frame_length :: uint64
  frame_header :: byte
  frame_prevheader :: byte
  length_pos :: nat
  cipher_key :: "byte list"
  cipher_pos :: nat
  data_inkey :: nat
  masking :: bool
  step :: parsing_state

text \<open>The callback is given the client, which it may close, the data, whether it is binary, and the part of the
  message it is.\<close>

record 'w ws_env =
  ws_client :: "'w net_client"
  ws_type :: connection_type
  ws_grow :: allocator
  ws_message :: "(bool \<Rightarrow> byte list \<Rightarrow> bool \<Rightarrow> frame_state \<Rightarrow> 'w \<Rightarrow> (bool \<times> 'w) option) option"

definition ws_init :: ws_state where
  "ws_init = \<lparr>buffer = \<lparr>items = [], capacity = 0\<rparr>, closed = False, frame_length = 0, frame_header = 0,
     frame_prevheader = 0, length_pos = 0, cipher_key = [0, 0, 0, 0], cipher_pos = 0, data_inkey = 0,
     masking = False, step = Step_start\<rparr>"

definition end_message :: "'w ws_env \<Rightarrow> ws_state \<Rightarrow> 'w \<Rightarrow> (ws_state \<times> 'w) option" where
  "end_message E s w =
     (let opcode = op_of (frame_header s AND 0x0f);
          is_binary = (opcode = Op_binary \<or> opcode = Op_continuation \<and> frame_prevheader s AND 0x0F = 0x2);
          is_fin = (frame_header s AND 0xf0 = 0x80);
          fs = (if is_fin then Frame_finish else if opcode = Op_continuation then Frame_continue else Frame_start)
      in do {
        (c, w1) \<leftarrow>
          (if opcode \<in> {Op_continuation, Op_text, Op_binary} then
             (case ws_message E of None \<Rightarrow> Some (closed s, w) | Some f \<Rightarrow> f (closed s) (items (buffer s)) is_binary fs w)
           else if opcode = Op_close then ws_close (ws_client E) (ws_type E) (closed s) w
           else if opcode = Op_ping then
             map_option (Pair (closed s)) (ws_pong (ws_client E) (ws_type E) (closed s) (items (buffer s)) w)
           else Some (closed s, w));
        Some (s\<lparr>closed := c, step := Step_start\<rparr>, w1) })"

definition process_byte :: "'w ws_env \<Rightarrow> byte \<Rightarrow> ws_state \<times> 'w \<Rightarrow> (ws_state \<times> 'w) option" where
  "process_byte E byte = (\<lambda>(s, w).
     case step s of
       Step_start \<Rightarrow> Some (s\<lparr>frame_header := byte, step := Step_length, data_inkey := 0, cipher_pos := 0,
           length_pos := 0, frame_length := 0, buffer := (buffer s)\<lparr>items := []\<rparr>\<rparr>, w)
     | Step_length \<Rightarrow>
         (let m = (byte AND 0x80 \<noteq> 0); n = byte AND 0x7f;
              s1 = (if n = 126 then s\<lparr>masking := m, step := Step_short_length\<rparr>
                    else if n = 127 then s\<lparr>masking := m, step := Step_extended_length\<rparr>
                    else s\<lparr>masking := m, frame_length := ucast n, step := (if m then Step_key else Step_data)\<rparr>)
          in if \<not> m \<and> frame_length s1 = 0 then end_message E s1 w else Some (s1, w))
     | Step_key \<Rightarrow>
         if length (cipher_key s) \<le> cipher_pos s then None
         else let s1 = s\<lparr>cipher_key := (cipher_key s)[cipher_pos s := byte]\<rparr>
              in if cipher_pos s = 3 then
                   (let s2 = s1\<lparr>step := Step_data\<rparr> in if frame_length s2 = 0 then end_message E s2 w else Some (s2, w))
                 else if 3 < cipher_pos s + 1 then None
                 else Some (s1\<lparr>cipher_pos := cipher_pos s + 1\<rparr>, w)
     | Step_data \<Rightarrow>
         if length (cipher_key s) \<le> data_inkey s then None
         else do {
           let decoded = byte XOR (cipher_key s ! data_inkey s);
           a \<leftarrow> (if capacity (buffer s) = 0
                 then ensure_capacity (ws_grow E) (min (unat (frame_length s)) maximum_preallocated_bytes_per_frame) (buffer s)
                 else Some (buffer s));
           a1 \<leftarrow> append_byte (ws_grow E) decoded a;
           let s1 = s\<lparr>buffer := a1\<rparr>;
           if length (items a1) = unat (frame_length s1) then end_message E s1 w
           else Some (s1\<lparr>data_inkey := (data_inkey s + 1) mod 4\<rparr>, w) }
     | _ \<Rightarrow>
         let len = frame_length s OR push_bit (8 * length_pos s) (ucast byte);
             short = (step s = Step_short_length);
             done_reading = (length_pos s = (if short then 1 else 7))
         in if short \<and> done_reading \<and> 0xFFFF < len then None
            else if done_reading then
              Some (s\<lparr>frame_length := byte_swap (if short then 2 else 8) len,
                      step := (if masking s then Step_key else Step_data)\<rparr>, w)
            else if 7 < length_pos s + 1 then None
            else Some (s\<lparr>frame_length := len, length_pos := length_pos s + 1\<rparr>, w))"

fun process_data :: "'w ws_env \<Rightarrow> byte list \<Rightarrow> ws_state \<times> 'w \<Rightarrow> (ws_state \<times> 'w) option" where
  "process_data E [] x = Some x"
| "process_data E (b # bs) x = do { x1 \<leftarrow> process_byte E b x; process_data E bs x1 }"

end
