(* ===== verification/Http.thy ===== *)
theory Http
  imports Websocket
begin

unbundle bit_operations_syntax

text \<open>
  \<open>src/http.zig\<close>: the requests of HTTP, the upgrade to WebSocket with the key of the handshake
  (\<open>src/websocket.zig\<close>), and the callbacks of the server. llhttp is a parameter: what a piece of data makes
  it call, and what it returns. So is the application. None is a panic.
\<close>

section \<open>The standard library\<close>

definition bytes :: "string \<Rightarrow> byte list" where
  "bytes s = map of_char s"

definition ascii_lower :: "byte \<Rightarrow> byte" where
  "ascii_lower b = (if 0x41 \<le> b \<and> b \<le> 0x5A then b OR 0x20 else b)"

text \<open>\<open>std.fmt\<close>: printing a number, and \<open>parseInt\<close> for base 10, which skips underscores between the
  digits.\<close>

fun fmt_dec :: "nat \<Rightarrow> byte list" where
  "fmt_dec n = (if n < 10 then [0x30 + of_nat n] else fmt_dec (n div 10) @ [0x30 + of_nat (n mod 10)])"

declare fmt_dec.simps [simp del]

fun parse_digits :: "nat \<Rightarrow> byte list \<Rightarrow> nat \<Rightarrow> nat option" where
  "parse_digits limit [] n = Some n"
| "parse_digits limit (b # bs) n =
     (if b = 0x5F then parse_digits limit bs n
      else if b < 0x30 \<or> 0x39 < b then None
      else let m = 10 * n + unat (b - 0x30) in if limit < m then None else parse_digits limit bs m)"

definition parse_u32 :: "byte list \<Rightarrow> nat option" where
  "parse_u32 bs =
     (let ds = (if bs \<noteq> [] \<and> hd bs \<in> {0x2B, 0x2D} then tl bs else bs)
      in if ds = [] \<or> hd ds = 0x5F \<or> List.last ds = 0x5F then None
         else parse_digits (if hd bs = 0x2D then 0 else 2 ^ 32 - 1) ds 0)"

text \<open>\<open>std.crypto.hash.Sha1\<close>. The words of the schedule are kept the last one first.\<close>

fun be_words :: "byte list \<Rightarrow> uint32 list" where
  "be_words (a # b # c # d # bs) =
     (push_bit 24 (ucast a) OR push_bit 16 (ucast b) OR push_bit 8 (ucast c) OR ucast d) # be_words bs"
| "be_words _ = []"

definition sha1_pad :: "byte list \<Rightarrow> byte list" where
  "sha1_pad bs = bs @ 0x80 # replicate ((119 - length bs mod 64) mod 64) 0 @ be_bytes 8 (of_nat (8 * length bs) :: uint64)"

definition rotl :: "nat \<Rightarrow> uint32 \<Rightarrow> uint32" where
  "rotl n x = push_bit n x OR drop_bit (32 - n) x"

fun sha1_schedule :: "nat \<Rightarrow> uint32 list \<Rightarrow> uint32 list" where
  "sha1_schedule 0 ws = ws"
| "sha1_schedule (Suc n) ws = sha1_schedule n (rotl 1 (ws ! 2 XOR ws ! 7 XOR ws ! 13 XOR ws ! 15) # ws)"

type_synonym sha1_state = "uint32 \<times> uint32 \<times> uint32 \<times> uint32 \<times> uint32"

definition sha1_round :: "nat \<Rightarrow> uint32 \<Rightarrow> sha1_state \<Rightarrow> sha1_state" where
  "sha1_round t x = (\<lambda>(a, b, c, d, e).
     let (f, k) = (if t < 20 then ((b AND c) OR (NOT b AND d), 0x5A827999)
        else if t < 40 then (b XOR c XOR d, 0x6ED9EBA1)
        else if t < 60 then ((b AND c) OR (b AND d) OR (c AND d), 0x8F1BBCDC)
        else (b XOR c XOR d, 0xCA62C1D6))
     in (rotl 5 a + f + e + k + x, a, rotl 30 b, c, d))"

fun sha1_rounds :: "nat \<Rightarrow> uint32 list \<Rightarrow> sha1_state \<Rightarrow> sha1_state" where
  "sha1_rounds t [] s = s"
| "sha1_rounds t (x # xs) s = sha1_rounds (Suc t) xs (sha1_round t x s)"

definition sha1_block :: "uint32 list \<Rightarrow> sha1_state \<Rightarrow> sha1_state" where
  "sha1_block ws s =
     (let (a, b, c, d, e) = s; (a', b', c', d', e') = sha1_rounds 0 (rev (sha1_schedule 64 (rev ws))) s
      in (a + a', b + b', c + c', d + d', e + e'))"

fun sha1_blocks :: "nat \<Rightarrow> uint32 list \<Rightarrow> sha1_state \<Rightarrow> sha1_state" where
  "sha1_blocks 0 ws s = s"
| "sha1_blocks (Suc n) ws s = sha1_blocks n (drop 16 ws) (sha1_block (take 16 ws) s)"

definition sha1 :: "byte list \<Rightarrow> byte list" where
  "sha1 bs =
     (let ws = be_words (sha1_pad bs);
          (a, b, c, d, e) = sha1_blocks (length ws div 16) ws (0x67452301, 0xEFCDAB89, 0x98BADCFE, 0x10325476, 0xC3D2E1F0)
      in concat (map (be_bytes 4) [a, b, c, d, e]))"

text \<open>\<open>std.base64.standard\<close>\<close>

definition b64_digit :: "byte \<Rightarrow> byte" where
  "b64_digit n = (if n < 26 then 0x41 + n else if n < 52 then 0x61 + (n - 26) else if n < 62 then 0x30 + (n - 52)
     else if n = 62 then 0x2B else 0x2F)"

fun b64 :: "byte list \<Rightarrow> byte list" where
  "b64 [] = []"
| "b64 [a] = [b64_digit (drop_bit 2 a), b64_digit (push_bit 4 (a AND 3)), 0x3D, 0x3D]"
| "b64 [a, b] = [b64_digit (drop_bit 2 a), b64_digit (push_bit 4 (a AND 3) OR drop_bit 4 b), b64_digit (push_bit 2 (b AND 0xF)), 0x3D]"
| "b64 (a # b # c # bs) = b64_digit (drop_bit 2 a) # b64_digit (push_bit 4 (a AND 3) OR drop_bit 4 b)
     # b64_digit (push_bit 2 (b AND 0xF) OR drop_bit 6 c) # b64_digit (c AND 0x3F) # b64 bs"

section \<open>The key of the handshake\<close>

definition ws_guid :: "byte list" where
  "ws_guid = bytes ''258EAFA5-E914-47DA-95CA-C5AB0DC85B11''"

definition ws_hardcoded_header :: "byte list" where
  "ws_hardcoded_header = bytes ''HTTP/1.1 101 Switching Protocols'' @ [13, 10] @ bytes ''Upgrade: websocket'' @ [13, 10]
     @ bytes ''Connection: Upgrade'' @ [13, 10]"

text \<open>The two parts are put together in a buffer of 64 bytes. None is an error.\<close>

definition get_sha1_accept_key :: "byte list \<Rightarrow> byte list option" where
  "get_sha1_accept_key key =
     (if 32 < length key then None
      else if 64 < length key \<or> 64 < length key + length ws_guid then None
      else Some (sha1 (key @ ws_guid)))"

definition get_b64_accept_key :: "byte list \<Rightarrow> byte list option" where
  "get_b64_accept_key key = do { h \<leftarrow> get_sha1_accept_key key; Some (b64 h) }"

section \<open>Requests\<close>

text \<open>What a parser of llhttp does with some data: it calls back, goes on by the result, and returns an error code with
  its state.\<close>

datatype ll_event = On_url "byte list" | On_header_field "byte list" | On_header_value "byte list" | On_header_field_complete
  | On_header_value_complete | On_headers_complete | On_body "byte list" | On_message_complete

datatype ll_errno = HPE_OK | HPE_PAUSED_UPGRADE | HPE_ERROR nat

datatype 'p ll_run = LL_return ll_errno 'p | LL_call ll_event "int \<Rightarrow> 'p ll_run"

type_synonym 'p llhttp = "'p \<Rightarrow> byte list \<Rightarrow> 'p ll_run"

text \<open>What the allocators give: the new capacity of a list, and whether a block of a size, an entry of a table, a request
  context and the context of the application can be had.\<close>

record memory =
  mem_grow :: allocator
  mem_block :: "nat \<Rightarrow> bool"
  mem_put :: "(byte list \<Rightarrow> byte list option) \<Rightarrow> bool"
  mem_request :: bool
  mem_user :: bool

text \<open>\<open>HttpRequestCtx\<close>; the context of the application is what \<open>T.init\<close> gives.\<close>

record ('p, 'u) http_request =
  ll_state :: 'p
  headers :: "byte list \<Rightarrow> byte list option"
  req_done :: bool
  responded :: bool
  acc_field :: array_list
  acc_value :: array_list
  acc_url :: array_list
  acc_body :: array_list
  websocket_state :: "ws_state option"
  user_ctx :: "'u option"

abbreviation empty_list :: array_list where
  "empty_list \<equiv> \<lparr>items = [], capacity = 0\<rparr>"

definition request_init :: "'p \<Rightarrow> ('p, 'u) http_request" where
  "request_init p0 = \<lparr>ll_state = p0, headers = (\<lambda>_. None), req_done = False, responded = False, acc_field = empty_list,
     acc_value = empty_list, acc_url = empty_list, acc_body = empty_list, websocket_state = None, user_ctx = None\<rparr>"

definition MAX_BODY_LEN :: nat where
  "MAX_BODY_LEN = 1024 * 1024 * 4"

text \<open>The callbacks of the parser give -1 for an error. What was done before it stays.\<close>

definition append_slice :: "allocator \<Rightarrow> byte list \<Rightarrow> array_list \<Rightarrow> int \<times> array_list" where
  "append_slice grow data a = (case ensure_capacity grow 32 a of
       None \<Rightarrow> (- 1, a)
     | Some a1 \<Rightarrow> (case ensure_capacity grow (length (items a1) + length data) a1 of
         None \<Rightarrow> (- 1, a1)
       | Some a2 \<Rightarrow> (0, a2\<lparr>items := items a1 @ data\<rparr>)))"

definition http_on_header_value_complete :: "memory \<Rightarrow> ('p, 'u) http_request \<Rightarrow> int \<times> ('p, 'u) http_request" where
  "http_on_header_value_complete M c =
     (let key = List.map ascii_lower (items (acc_field c)); value = items (acc_value c)
      in if mem_block M (length key) \<and> mem_block M (length value) \<and> mem_put M (headers c) then
           (0, c\<lparr>headers := (headers c)(key \<mapsto> value), acc_field := (acc_field c)\<lparr>items := []\<rparr>,
                 acc_value := (acc_value c)\<lparr>items := []\<rparr>\<rparr>)
         else (0, c))"

definition http_on_body :: "memory \<Rightarrow> byte list \<Rightarrow> ('p, 'u) http_request \<Rightarrow> int \<times> ('p, 'u) http_request" where
  "http_on_body M data c =
     (let prepared =
        (if capacity (acc_body c) = 0 then
           (case headers c (bytes ''content-length'') of
              None \<Rightarrow> Some c
            | Some cl \<Rightarrow> do {
                n \<leftarrow> parse_u32 cl;
                if MAX_BODY_LEN < n then None
                else do { a \<leftarrow> ensure_capacity (mem_grow M) n (acc_body c); Some (c\<lparr>acc_body := a\<rparr>) } })
         else Some c)
      in case prepared of
           None \<Rightarrow> (- 1, c)
         | Some c1 \<Rightarrow>
             if capacity (acc_body c1) < length (items (acc_body c1)) + length data then (- 1, c1)
             else (0, c1\<lparr>acc_body := (acc_body c1)\<lparr>items := items (acc_body c1) @ data\<rparr>\<rparr>))"

fun http_callback :: "memory \<Rightarrow> ll_event \<Rightarrow> ('p, 'u) http_request \<Rightarrow> int \<times> ('p, 'u) http_request" where
  "http_callback M (On_url data) c = (let (r, a) = append_slice (mem_grow M) data (acc_url c) in (r, c\<lparr>acc_url := a\<rparr>))"
| "http_callback M (On_header_field data) c = (let (r, a) = append_slice (mem_grow M) data (acc_field c) in (r, c\<lparr>acc_field := a\<rparr>))"
| "http_callback M (On_header_value data) c = (let (r, a) = append_slice (mem_grow M) data (acc_value c) in (r, c\<lparr>acc_value := a\<rparr>))"
| "http_callback M On_header_field_complete c = (0, c)"
| "http_callback M On_header_value_complete c = http_on_header_value_complete M c"
| "http_callback M On_headers_complete c = (0, c)"
| "http_callback M (On_body data) c = http_on_body M data c"
| "http_callback M On_message_complete c = (0, c\<lparr>req_done := True\<rparr>)"

primrec llhttp_execute :: "memory \<Rightarrow> 'p ll_run \<Rightarrow> ('p, 'u) http_request \<Rightarrow> ll_errno \<times> ('p, 'u) http_request" where
  "llhttp_execute M (LL_return e p) c = (e, c\<lparr>ll_state := p\<rparr>)"
| "llhttp_execute M (LL_call ev k) c = (let (r, c1) = http_callback M ev c in llhttp_execute M (k r) c1)"

datatype parse_return = Cont | Parsed | Websocket_upgrade | Parse_error ll_errno

definition client_onhttpdata ::
  "memory \<Rightarrow> 'p llhttp \<Rightarrow> byte list \<Rightarrow> ('p, 'u) http_request \<Rightarrow> parse_return \<times> ('p, 'u) http_request" where
  "client_onhttpdata M ll data c =
     (let (e, c1) = llhttp_execute M (ll (ll_state c) data) c
      in (case e of HPE_OK \<Rightarrow> if req_done c1 then Parsed else Cont | HPE_PAUSED_UPGRADE \<Rightarrow> Websocket_upgrade | _ \<Rightarrow> Parse_error e, c1))"

definition getURL :: "('p, 'u) http_request \<Rightarrow> byte list option" where
  "getURL c = (if req_done c then Some (items (acc_url c)) else None)"

definition getBody :: "('p, 'u) http_request \<Rightarrow> byte list" where
  "getBody c = items (acc_body c)"

section \<open>Responses\<close>

definition reason :: "nat \<Rightarrow> string" where
  "reason code = (case map_of [(100, ''Continue''), (101, ''Switching Protocols''), (200, ''OK''), (201, ''Created''),
     (202, ''Accepted''), (204, ''No Content''), (301, ''Moved Permanently''), (302, ''Found''), (304, ''Not Modified''),
     (400, ''Bad Request''), (401, ''Unauthorized''), (403, ''Forbidden''), (404, ''Not Found''), (405, ''Method Not Allowed''),
     (409, ''Conflict''), (418, ''I'' @ [CHR 0x27] @ ''m a teapot''), (429, ''Too Many Requests''), (500, ''Internal Server Error''),
     (501, ''Not Implemented''), (502, ''Bad Gateway''), (503, ''Service Unavailable'')] code of
     Some r \<Rightarrow> r | None \<Rightarrow> ''Unknown Status'')"

definition response_head :: "nat \<Rightarrow> nat \<Rightarrow> byte list" where
  "response_head code n = bytes ''HTTP/1.1 '' @ fmt_dec code @ bytes '' '' @ bytes (reason code) @ [13, 10]
     @ bytes ''Content-Length: '' @ fmt_dec n @ [13, 10, 13, 10]"

definition response :: "'w net_client \<Rightarrow> nat \<Rightarrow> byte list \<Rightarrow> bool \<Rightarrow> ('p, 'u) http_request \<Rightarrow> 'w \<Rightarrow> (('p, 'u) http_request \<times> 'w) option" where
  "response C code data close c w =
     (if responded c then Some (c, w)
      else do {
        w1 \<leftarrow> nc_cork C True w;
        w2 \<leftarrow> (if 256 < length (response_head code (length data)) then Some w1
               else do {
                 w2 \<leftarrow> nc_write C (response_head code (length data)) Copy w1;
                 w3 \<leftarrow> (if data \<noteq> [] then nc_write C data Copy w2 else Some w2);
                 if close then nc_close C Queue w3 else Some w3 });
        w3 \<leftarrow> nc_cork C False w2;
        Some (c\<lparr>responded := True\<rparr>, w3) })"

text \<open>The handshake. A key that is too long is a panic.\<close>

definition acceptWebSocket :: "'w net_client \<Rightarrow> ('p, 'u) http_request \<Rightarrow> 'w \<Rightarrow> (bool \<times> ('p, 'u) http_request \<times> 'w) option" where
  "acceptWebSocket C c w = (case headers c (bytes ''sec-websocket-key'') of
       None \<Rightarrow> Some (False, c, w)
     | Some wskey \<Rightarrow> do {
         b64key \<leftarrow> get_b64_accept_key wskey;
         w1 \<leftarrow> nc_cork C True w;
         w2 \<leftarrow> nc_write C ws_hardcoded_header Static w1;
         w3 \<leftarrow> nc_write C (bytes ''Sec-WebSocket-Accept: '') Static w2;
         w4 \<leftarrow> nc_write C b64key Copy w3;
         w5 \<leftarrow> nc_write C ([13, 10] @ bytes ''Sec-WebSocket-Origin: 127.0.0.1'' @ [13, 10, 13, 10]) Static w4;
         w6 \<leftarrow> nc_cork C False w5;
         Some (True, c\<lparr>websocket_state := Some ws_init\<rparr>, w6) })"

section \<open>The server\<close>

text \<open>The type of the application, with the functions it may have. They are given the request and may use the client;
  a result True is an error, for \<open>onUpradeToWebSocket\<close> that it refuses.\<close>

record ('p, 'u, 'w) application =
  app_init :: "('p, 'u) http_request \<Rightarrow> 'w \<Rightarrow> ('u \<times> 'w) option"
  app_deinit :: "'u \<Rightarrow> 'w \<Rightarrow> 'w option"
  onRequest :: "('u \<Rightarrow> ('p, 'u) http_request \<Rightarrow> 'w \<Rightarrow> (bool \<times> ('p, 'u) http_request \<times> 'w) option) option"
  onUpradeToWebSocket :: "('u \<Rightarrow> ('p, 'u) http_request \<Rightarrow> 'w \<Rightarrow> (bool \<times> ('p, 'u) http_request \<times> 'w) option) option"
  onMessage :: "('u \<Rightarrow> bool \<Rightarrow> byte list \<Rightarrow> 'w \<Rightarrow> (bool \<times> bool \<times> 'w) option) option"
  onUpgradedToWebSocket :: "('u \<Rightarrow> bool \<Rightarrow> 'w \<Rightarrow> (bool \<times> 'w) option) option"
  onDisconnect :: "('u \<Rightarrow> 'w \<Rightarrow> 'w option) option"

text \<open>The callback of the parser of frames. A missing context of the application is a panic.\<close>

definition onwsmessage :: "'w net_client \<Rightarrow> ('u \<Rightarrow> bool \<Rightarrow> byte list \<Rightarrow> 'w \<Rightarrow> (bool \<times> bool \<times> 'w) option) \<Rightarrow> 'u option
    \<Rightarrow> bool \<Rightarrow> byte list \<Rightarrow> bool \<Rightarrow> frame_state \<Rightarrow> 'w \<Rightarrow> (bool \<times> 'w) option" where
  "onwsmessage C on_frame u c message is_binary fs w = do {
     x \<leftarrow> u;
     (err, c1, w1) \<leftarrow> on_frame x c message w;
     if err then ws_close C Server_end c1 w1 else Some (c1, w1) }"

definition request_ws_env :: "memory \<Rightarrow> ('u \<Rightarrow> bool \<Rightarrow> byte list \<Rightarrow> 'w \<Rightarrow> (bool \<times> bool \<times> 'w) option) option \<Rightarrow> 'w net_client
    \<Rightarrow> 'u option \<Rightarrow> 'w ws_env" where
  "request_ws_env M on_frame C u = \<lparr>ws_client = C, ws_type = Server_end, ws_grow = mem_grow M,
     ws_message = (case on_frame of None \<Rightarrow> None | Some f \<Rightarrow> Some (onwsmessage C f u))\<rparr>"

definition http_connect :: "memory \<Rightarrow> 'p \<Rightarrow> ('p, 'u) http_request option" where
  "http_connect M p0 = (if mem_request M then Some (request_init p0) else None)"

definition start_user :: "memory \<Rightarrow> ('p, 'u, 'w) application \<Rightarrow> ('p, 'u) http_request \<Rightarrow> 'w \<Rightarrow> (('u \<times> ('p, 'u) http_request) option \<times> 'w) option" where
  "start_user M A c w =
     (if mem_user M then do { (u, w1) \<leftarrow> app_init A c w; Some (Some (u, c\<lparr>user_ctx := Some u\<rparr>), w1) } else Some (None, w))"

definition http_upgrade ::
  "memory \<Rightarrow> ('p, 'u, 'w) application \<Rightarrow> 'w net_client \<Rightarrow> ('p, 'u) http_request \<Rightarrow> 'w \<Rightarrow> (bool \<times> ('p, 'u) http_request \<times> 'w) option" where
  "http_upgrade M A C c w = (case (onUpradeToWebSocket A, onMessage A) of
       (Some ask, Some f) \<Rightarrow> do {
         (x, w1) \<leftarrow> start_user M A c w;
         case x of
           None \<Rightarrow> Some (True, c, w1)
         | Some (u, c1) \<Rightarrow> do {
             (refused, c2, w2) \<leftarrow> ask u c1 w1;
             if refused then Some (True, c2, w2)
             else do {
               (accepted, c3, w3) \<leftarrow> acceptWebSocket C c2 w2;
               if \<not> accepted then Some (True, c3, w3)
               else (case (onUpgradedToWebSocket A, websocket_state c3) of
                   (Some g, Some ws) \<Rightarrow> do { (cl, w4) \<leftarrow> g u (closed ws) w3; Some (False, c3\<lparr>websocket_state := Some (ws\<lparr>closed := cl\<rparr>)\<rparr>, w4) }
                 | _ \<Rightarrow> Some (False, c3, w3)) } } }
     | _ \<Rightarrow> Some (True, c, w))"

definition http_parsed ::
  "memory \<Rightarrow> ('p, 'u, 'w) application \<Rightarrow> ('p, 'u) http_request \<Rightarrow> 'w \<Rightarrow> (bool \<times> ('p, 'u) http_request \<times> 'w) option" where
  "http_parsed M A c w = do {
     (x, w1) \<leftarrow> start_user M A c w;
     case x of
       None \<Rightarrow> Some (True, c, w1)
     | Some (u, c1) \<Rightarrow> (case onRequest A of None \<Rightarrow> Some (False, c1, w1) | Some f \<Rightarrow> f u c1 w1) }"

text \<open>Data that came in. True is an error; it is answered with 400, unless there was an answer before.\<close>

definition http_ondata ::
  "memory \<Rightarrow> 'p llhttp \<Rightarrow> ('p, 'u, 'w) application \<Rightarrow> 'w net_client \<Rightarrow> byte list \<Rightarrow> ('p, 'u) http_request option \<times> 'w
    \<Rightarrow> (bool \<times> ('p, 'u) http_request option \<times> 'w) option" where
  "http_ondata M ll A C data = (\<lambda>(ctx, w). case ctx of
       None \<Rightarrow> do { w1 \<leftarrow> nc_close C Now w; Some (True, None, w1) }
     | Some c \<Rightarrow> do {
         (err, c1, w1) \<leftarrow> (case websocket_state c of
             Some ws \<Rightarrow> do {
               (ws1, w1) \<leftarrow> process_data (request_ws_env M (onMessage A) C (user_ctx c)) data (ws, w);
               Some (False, c\<lparr>websocket_state := Some ws1\<rparr>, w1) }
           | None \<Rightarrow>
               (let (r, c1) = client_onhttpdata M ll data c
                in case r of
                     Parse_error e \<Rightarrow> Some (True, c1, w)
                   | Websocket_upgrade \<Rightarrow> http_upgrade M A C c1 w
                   | Parsed \<Rightarrow> http_parsed M A c1 w
                   | Cont \<Rightarrow> Some (False, c1, w)));
         if err then do { (c2, w2) \<leftarrow> response C 400 [] True c1 w1; Some (True, Some c2, w2) }
         else Some (False, Some c1, w1) })"

definition http_disconnect :: "('p, 'u, 'w) application \<Rightarrow> ('p, 'u) http_request option \<Rightarrow> 'w \<Rightarrow> 'w option" where
  "http_disconnect A ctx w = (case ctx of
       None \<Rightarrow> Some w
     | Some c \<Rightarrow> (case user_ctx c of
         None \<Rightarrow> Some w
       | Some u \<Rightarrow> do {
           w1 \<leftarrow> (case onDisconnect A of None \<Rightarrow> Some w | Some f \<Rightarrow> f u w);
           app_deinit A u w1 }))"

end
