(* ===== verification/Websocket_Props.thy ===== *)
theory Websocket_Props
  imports Websocket
begin

unbundle bit_operations_syntax

text \<open>
  What the parser makes of the frames of RFC 6455, however they are cut into pieces, and what it makes of
  any other bytes.
\<close>

section \<open>Numbers as bytes\<close>

lemma length_le_bytes [simp]: "length (le_bytes n x) = n"
  by (induction n arbitrary: x) simp_all

lemma length_be_bytes [simp]: "length (be_bytes n x) = n"
  by (simp add: be_bytes_def)

lemma byte_bit: "8 \<le> n \<Longrightarrow> \<not> bit (b :: byte) n"
  using bit_imp_le_length [of b n] by auto

lemma be_bytes_nonempty [simp]: "be_bytes n x = [] \<longleftrightarrow> n = 0"
  using length_be_bytes [of n x] by (metis length_0_conv)

lemma le_word_bound: "8 * length bs \<le> n \<Longrightarrow> \<not> bit (le_u64 bs) n"
  by (induction bs arbitrary: n) (auto simp: bit_or_iff bit_push_bit_iff bit_simps byte_bit)

lemma le_word_snoc: "le_u64 (bs @ [b]) = le_u64 bs OR push_bit (8 * length bs) (ucast b)"
  by (induction bs) (simp_all add: push_bit_or or.assoc push_bit_push_bit ac_simps)

lemma le_bytes_word: "length bs \<le> 8 \<Longrightarrow> le_bytes (length bs) (le_u64 bs) = bs"
proof (induction bs)
  case (Cons b bs)
  have "ucast (ucast b OR push_bit 8 (le_u64 bs)) = b"
    by (rule bit_word_eqI) (auto simp: bit_or_iff bit_push_bit_iff bit_simps)
  moreover have "drop_bit 8 (ucast b OR push_bit 8 (le_u64 bs)) = le_u64 bs"
  proof (rule bit_word_eqI)
    fix n assume "n < LENGTH(64)"
    moreover have "\<not> bit (le_u64 bs) n" if "56 \<le> n"
      using that Cons.prems by (intro le_word_bound) simp
    ultimately show "bit (drop_bit 8 (ucast b OR push_bit 8 (le_u64 bs))) n = bit (le_u64 bs) n"
      by (cases "56 \<le> n") (auto simp: bit_or_iff bit_push_bit_iff bit_simps byte_bit)
  qed
  ultimately show ?case using Cons by simp
qed simp

lemma byte_swap_word: "length bs \<le> 8 \<Longrightarrow> byte_swap (length bs) (le_u64 bs) = le_u64 (rev bs)"
  by (simp add: byte_swap_def be_bytes_def le_bytes_word)

lemma le_word_bytes: "le_u64 (le_bytes n x) = take_bit (8 * n) (x :: uint64)"
proof (induction n arbitrary: x)
  case (Suc n)
  show ?case
    unfolding le_bytes.simps le_u64.simps Suc
    by (rule bit_word_eqI) (auto simp: bit_or_iff bit_push_bit_iff bit_take_bit_iff bit_simps)
qed simp

lemma byte_swap_be: "n \<le> 8 \<Longrightarrow> byte_swap n (le_u64 (be_bytes n x)) = take_bit (8 * n) (x :: uint64)"
  using byte_swap_word [of "be_bytes n x"] by (simp add: be_bytes_def le_word_bytes)

lemma le_bytes_nth: "le_bytes n x = map (\<lambda>i. ucast (drop_bit (8 * i) x)) [0..<n]"
proof (induction n arbitrary: x)
  case (Suc n)
  show ?case
    by (simp add: Suc upt_conv_Cons map_Suc_upt [symmetric] drop_bit_drop_bit add.commute del: upt_Suc)
qed simp

lemma le_bytes_of_nat: "8 * n \<le> LENGTH('a) \<Longrightarrow> 8 * n \<le> LENGTH('b) \<Longrightarrow>
  le_bytes n (of_nat m :: 'a::len word) = le_bytes n (of_nat m :: 'b::len word)"
  unfolding le_bytes_nth
  by (rule map_cong [OF refl], rule bit_word_eqI) (auto simp: bit_simps)

section \<open>The frames of the protocol\<close>

text \<open>The length of the data can be given in three forms.\<close>

datatype len_form = Short | Medium | Long

fun fits :: "len_form \<Rightarrow> nat \<Rightarrow> bool" where
  "fits Short n \<longleftrightarrow> n \<le> 125" | "fits Medium n \<longleftrightarrow> n < 2 ^ 16" | "fits Long n \<longleftrightarrow> n < 2 ^ 64"

fun len_bytes :: "len_form \<Rightarrow> byte \<Rightarrow> nat \<Rightarrow> byte list" where
  "len_bytes Short m n = [m OR of_nat n]"
| "len_bytes Medium m n = (m OR 126) # be_bytes 2 (of_nat n :: uint64)"
| "len_bytes Long m n = (m OR 127) # be_bytes 8 (of_nat n :: uint64)"

fun cipher :: "byte list \<Rightarrow> nat \<Rightarrow> byte list \<Rightarrow> byte list" where
  "cipher key i [] = []"
| "cipher key i (b # bs) = (b XOR key ! i) # cipher key ((i + 1) mod 4) bs"

record ws_frame =
  fr_head :: byte
  fr_form :: len_form
  fr_key :: "byte list"
  fr_data :: "byte list"

definition fr_valid :: "ws_frame \<Rightarrow> bool" where
  "fr_valid f \<longleftrightarrow> fits (fr_form f) (length (fr_data f)) \<and> length (fr_key f) = 4"

text \<open>A frame as a client sends it.\<close>

definition fr_wire :: "ws_frame \<Rightarrow> byte list" where
  "fr_wire f = fr_head f # len_bytes (fr_form f) 0x80 (length (fr_data f)) @ fr_key f @ cipher (fr_key f) 0 (fr_data f)"

text \<open>What a frame means: its header and its data, and whether the client is closed.\<close>

definition ws_handle :: "'w ws_env \<Rightarrow> byte \<Rightarrow> byte list \<Rightarrow> bool \<times> 'w \<Rightarrow> (bool \<times> 'w) option" where
  "ws_handle E h data = (\<lambda>(c, w). case op_of (h AND 0x0f) of
       Op_close \<Rightarrow> ws_close (ws_client E) (ws_type E) c w
     | Op_ping \<Rightarrow> map_option (Pair c) (ws_pong (ws_client E) (ws_type E) c data w)
     | Op_pong \<Rightarrow> Some (c, w)
     | Op_unknown b \<Rightarrow> Some (c, w)
     | opcode \<Rightarrow> (case ws_message E of None \<Rightarrow> Some (c, w) | Some f \<Rightarrow>
          f c data (opcode = Op_binary)
            (if h AND 0xf0 = 0x80 then Frame_finish else if opcode = Op_continuation then Frame_continue else Frame_start) w))"

fun ws_handle_all :: "'w ws_env \<Rightarrow> (byte \<times> byte list) list \<Rightarrow> bool \<times> 'w \<Rightarrow> (bool \<times> 'w) option" where
  "ws_handle_all E [] x = Some x"
| "ws_handle_all E ((h, data) # fs) x = do { x1 \<leftarrow> ws_handle E h data x; ws_handle_all E fs x1 }"

lemma length_cipher [simp]: "length (cipher key i bs) = length bs"
  by (induction bs arbitrary: i) simp_all

lemma cipher_twice: "cipher key i (cipher key i bs) = bs"
  by (induction bs arbitrary: i) (simp_all add: xor.assoc)

lemma cipher_zero: "\<forall>j < 4. key ! j = 0 \<Longrightarrow> i < 4 \<Longrightarrow> cipher key i bs = bs"
  by (induction bs arbitrary: i) simp_all

section \<open>The parser without its effects\<close>

text \<open>What a byte does to the parser, and whether a message ends with it.\<close>

definition ws_parse :: "allocator \<Rightarrow> byte \<Rightarrow> ws_state \<Rightarrow> (ws_state \<times> bool) option" where
  "ws_parse grow b s = (case step s of
       Step_start \<Rightarrow> Some (s\<lparr>frame_header := b, step := Step_length, data_inkey := 0, cipher_pos := 0,
           length_pos := 0, frame_length := 0, buffer := (buffer s)\<lparr>items := []\<rparr>\<rparr>, False)
     | Step_length \<Rightarrow>
         (let m = (b AND 0x80 \<noteq> 0); n = b AND 0x7f;
              s1 = (if n = 126 then s\<lparr>masking := m, step := Step_short_length\<rparr>
                    else if n = 127 then s\<lparr>masking := m, step := Step_extended_length\<rparr>
                    else s\<lparr>masking := m, frame_length := ucast n, step := (if m then Step_key else Step_data)\<rparr>)
          in Some (s1, \<not> m \<and> frame_length s1 = 0))
     | Step_key \<Rightarrow>
         if length (cipher_key s) \<le> cipher_pos s \<or> 3 < cipher_pos s then None
         else let s1 = s\<lparr>cipher_key := (cipher_key s)[cipher_pos s := b]\<rparr>
              in if cipher_pos s = 3 then Some (s1\<lparr>step := Step_data\<rparr>, frame_length s = 0)
                 else Some (s1\<lparr>cipher_pos := cipher_pos s + 1\<rparr>, False)
     | Step_data \<Rightarrow>
         if length (cipher_key s) \<le> data_inkey s then None
         else do {
           a \<leftarrow> (if capacity (buffer s) = 0
                 then ensure_capacity grow (min (unat (frame_length s)) maximum_preallocated_bytes_per_frame) (buffer s)
                 else Some (buffer s));
           a1 \<leftarrow> append_byte grow (b XOR (cipher_key s ! data_inkey s)) a;
           Some (if length (items a1) = unat (frame_length s) then (s\<lparr>buffer := a1\<rparr>, True)
                 else (s\<lparr>buffer := a1, data_inkey := (data_inkey s + 1) mod 4\<rparr>, False)) }
     | _ \<Rightarrow>
         let len = frame_length s OR push_bit (8 * length_pos s) (ucast b);
             short = (step s = Step_short_length)
         in if length_pos s = (if short then 1 else 7) then
              (if short \<and> 0xFFFF < len then None
               else Some (s\<lparr>frame_length := byte_swap (if short then 2 else 8) len,
                      step := (if masking s then Step_key else Step_data)\<rparr>, False))
            else if 7 < length_pos s + 1 then None
            else Some (s\<lparr>frame_length := len, length_pos := length_pos s + 1\<rparr>, False))"

text \<open>The messages in a piece of data.\<close>

fun ws_parse_all :: "allocator \<Rightarrow> byte list \<Rightarrow> ws_state \<Rightarrow> (ws_state \<times> (byte \<times> byte list) list) option" where
  "ws_parse_all grow [] s = Some (s, [])"
| "ws_parse_all grow (b # bs) s = do {
     (s1, ends) \<leftarrow> ws_parse grow b s;
     if ends then do {
       (s2, ms) \<leftarrow> ws_parse_all grow bs (s1\<lparr>step := Step_start\<rparr>);
       Some (s2, (frame_header s1, items (buffer s1)) # ms) }
     else ws_parse_all grow bs s1 }"

lemma process_byte_parse:
  "process_byte E b (s, w) = do { (s1, ends) \<leftarrow> ws_parse (ws_grow E) b s; if ends then end_message E s1 w else Some (s1, w) }"
proof (cases "step s")
  case Step_data
  have s: "s\<lparr>buffer := a, data_inkey := i\<rparr> = s\<lparr>data_inkey := i, buffer := a\<rparr>" for a i by simp
  show ?thesis using Step_data by (auto simp: process_byte_def ws_parse_def Let_def s split: Option.bind_splits)
qed (auto simp: process_byte_def ws_parse_def Let_def)

lemma ws_parse_closed:
  "ws_parse grow b (s\<lparr>closed := c\<rparr>) = map_option (\<lambda>(s1, ends). (s1\<lparr>closed := c\<rparr>, ends)) (ws_parse grow b s)"
  by (cases "step s") (auto simp: ws_parse_def Let_def split: Option.bind_splits)

lemma ws_parse_same:
  assumes "ws_parse grow b s = Some (s1, ends)"
  shows "frame_prevheader s1 = frame_prevheader s" "closed s1 = closed s"
  using assms by (cases "step s"; auto simp: ws_parse_def Let_def split: if_splits Option.bind_splits)+

lemma ws_parse_all_closed:
  "ws_parse_all grow bs (s\<lparr>closed := c\<rparr>) = map_option (\<lambda>(s1, ms). (s1\<lparr>closed := c\<rparr>, ms)) (ws_parse_all grow bs s)"
proof (induction bs arbitrary: s)
  case (Cons b bs)
  show ?case
  proof (cases "ws_parse grow b s")
    case (Some x)
    obtain s1 ends where x: "x = (s1, ends)" by (cases x)
    have st: "s1\<lparr>closed := c, step := Step_start\<rparr> = s1\<lparr>step := Step_start, closed := c\<rparr>" by simp
    show ?thesis using Some x Cons.IH [of s1] Cons.IH [of "s1\<lparr>step := Step_start\<rparr>"]
      by (cases ends) (auto simp: ws_parse_closed st split: Option.bind_splits)
  qed (simp add: ws_parse_closed)
qed simp

lemma ws_parse_append:
  "ws_parse_all grow (as @ bs) s
   = do { (s1, ms) \<leftarrow> ws_parse_all grow as s; (s2, ms') \<leftarrow> ws_parse_all grow bs s1; Some (s2, ms @ ms') }"
proof (induction as arbitrary: s)
  case Nil
  show ?case by (cases "ws_parse_all grow bs s") auto
next
  case (Cons a as)
  show ?case
  proof (cases "ws_parse grow a s")
    case (Some x)
    then show ?thesis by (cases x) (auto simp: Cons.IH split: Option.bind_splits)
  qed simp
qed

lemma process_data_append:
  "process_data E (as @ bs) x = do { x1 \<leftarrow> process_data E as x; process_data E bs x1 }"
  by (induction as arbitrary: x) (simp_all split: Option.bind_splits)

lemma end_message_handle:
  assumes "frame_prevheader s = 0"
  shows "end_message E s w = map_option (\<lambda>(c, w1). (s\<lparr>step := Step_start, closed := c\<rparr>, w1))
    (ws_handle E (frame_header s) (items (buffer s)) (closed s, w))"
  using assms
  by (cases "op_of (frame_header s AND 0x0f)"; cases "ws_message E")
    (auto simp: end_message_def ws_handle_def Let_def split: Option.bind_splits)

text \<open>The parser is this one, with the messages handled one after the other.\<close>

lemma process_data_parse:
  "frame_prevheader s = 0 \<Longrightarrow> process_data E bs (s, w) = do {
     (s1, ms) \<leftarrow> ws_parse_all (ws_grow E) bs s;
     (c, w1) \<leftarrow> ws_handle_all E ms (closed s, w);
     Some (s1\<lparr>closed := c\<rparr>, w1) }"
proof (induction bs arbitrary: s w)
  case (Cons b bs)
  show ?case
  proof (cases "ws_parse (ws_grow E) b s")
    case (Some x)
    obtain s1 ends where x: "x = (s1, ends)" by (cases x)
    have s1: "frame_prevheader s1 = 0" "closed s1 = closed s" using ws_parse_same Some x Cons.prems by auto
    show ?thesis
    proof (cases ends)
      case False
      then show ?thesis using Some x s1 Cons.IH [OF s1(1)] by (simp add: process_byte_parse)
    next
      case True
      have s: "s1\<lparr>closed := c, step := Step_start\<rparr> = s1\<lparr>step := Step_start, closed := c\<rparr>" for c by simp
      show ?thesis
      proof (cases "ws_handle E (frame_header s1) (items (buffer s1)) (closed s, w)")
        case None
        then show ?thesis using Some x True s1 by (auto simp: process_byte_parse end_message_handle split: Option.bind_splits)
      next
        case (Some y)
        obtain c w1 where y: "y = (c, w1)" by (cases y)
        have "frame_prevheader (s1\<lparr>step := Step_start, closed := c\<rparr>) = 0" using s1(1) by simp
        from Cons.IH [OF this, of w1] show ?thesis using \<open>ws_parse (ws_grow E) b s = Some x\<close> x True Some y s1
          by (auto simp: process_byte_parse end_message_handle s ws_parse_all_closed split: Option.bind_splits)
      qed
    qed
  qed (simp add: process_byte_parse)
qed simp

section \<open>The steps of the parser\<close>

text \<open>Between frames.\<close>

definition ws_idle :: "ws_state \<Rightarrow> bool" where
  "ws_idle s \<longleftrightarrow> step s = Step_start \<and> length (cipher_key s) = 4 \<and> frame_prevheader s = 0"

text \<open>A message has been read; what follows it.\<close>

definition ws_next :: "allocator \<Rightarrow> byte list \<Rightarrow> ws_state \<Rightarrow> (ws_state \<times> (byte \<times> byte list) list) option" where
  "ws_next grow bs s = do {
     (s1, ms) \<leftarrow> ws_parse_all grow bs (s\<lparr>step := Step_start\<rparr>);
     Some (s1, (frame_header s, items (buffer s)) # ms) }"

lemma parse_step:
  "ws_parse grow b s = Some (s1, ends) \<Longrightarrow>
    ws_parse_all grow (b # bs) s = (if ends then ws_next grow bs s1 else ws_parse_all grow bs s1)"
  by (simp add: ws_next_def)

text \<open>The header and the length.\<close>

definition at_length :: "ws_state \<Rightarrow> byte \<Rightarrow> ws_state" where
  "at_length s h = s\<lparr>frame_header := h, step := Step_length, data_inkey := 0, cipher_pos := 0,
     length_pos := 0, frame_length := 0, buffer := (buffer s)\<lparr>items := []\<rparr>\<rparr>"

lemma parse_head: "step s = Step_start \<Longrightarrow> ws_parse_all grow (h # bs) s = ws_parse_all grow bs (at_length s h)"
  by (subst parse_step) (auto simp: ws_parse_def at_length_def)

text \<open>The byte with the length, for each form.\<close>

lemma len_byte_all:
  "list_all (\<lambda>n. ((0x80 :: byte) OR of_nat n) AND 0x7f = of_nat n \<and> (of_nat n :: byte) AND 0x7f = of_nat n
     \<and> ((0x80 :: byte) OR of_nat n) AND 0x80 \<noteq> 0 \<and> (of_nat n :: byte) AND 0x80 = 0 \<and> (of_nat n :: byte) \<noteq> 126
     \<and> (of_nat n :: byte) \<noteq> 127 \<and> ucast (of_nat n :: byte) = (of_nat n :: uint64)) [0..<126]"
  by code_simp

lemma len_byte:
  assumes "n \<le> 125"
  shows "((0x80 :: byte) OR of_nat n) AND 0x7f = of_nat n" "(of_nat n :: byte) AND 0x7f = of_nat n"
    "((0x80 :: byte) OR of_nat n) AND 0x80 \<noteq> 0" "(of_nat n :: byte) AND 0x80 = 0" "(of_nat n :: byte) \<noteq> 126"
    "(of_nat n :: byte) \<noteq> 127" "ucast (of_nat n :: byte) = (of_nat n :: uint64)"
proof -
  have "n \<in> set [0..<126]" using assms by simp
  from bspec [OF len_byte_all [unfolded list_all_iff] this]
  show "((0x80 :: byte) OR of_nat n) AND 0x7f = of_nat n" "(of_nat n :: byte) AND 0x7f = of_nat n"
    "((0x80 :: byte) OR of_nat n) AND 0x80 \<noteq> 0" "(of_nat n :: byte) AND 0x80 = 0" "(of_nat n :: byte) \<noteq> 126"
    "(of_nat n :: byte) \<noteq> 127" "ucast (of_nat n :: byte) = (of_nat n :: uint64)" by blast+
qed

lemma le_word_2: "length bs = 2 \<Longrightarrow> le_u64 bs \<le> 0xFFFF"
proof -
  assume "length bs = 2"
  then have "\<not> bit (le_u64 bs) k" if "16 \<le> k" for k using le_word_bound [of bs k] that by simp
  then have "take_bit 16 (le_u64 bs) = le_u64 bs"
    by (intro bit_word_eqI) (metis bit_take_bit_iff not_le)
  then have "le_u64 bs = le_u64 bs AND mask 16" by (simp add: take_bit_eq_mask)
  then have "le_u64 bs \<le> mask 16" using word_and_le1 by metis
  then show ?thesis by (simp add: mask_eq_exp_minus_1)
qed

text \<open>The bytes of a longer length.\<close>

text \<open>The bytes of a longer length.\<close>

lemma parse_long:
  assumes "step s = (if short then Step_short_length else Step_extended_length)" and "frame_length s = le_u64 got"
    and "length_pos s = length got" and "length got + length rest = (if short then 2 else 8)" and "rest \<noteq> []"
  shows "ws_parse_all grow (rest @ bs) s = ws_parse_all grow bs (s\<lparr>frame_length :=
       byte_swap (if short then 2 else 8) (le_u64 (got @ rest)), length_pos := (if short then 1 else 7),
       step := (if masking s then Step_key else Step_data)\<rparr>)"
  using assms
proof (induction rest arbitrary: s got)
  case (Cons b rest)
  have l: "frame_length s OR push_bit (8 * length_pos s) (ucast b) = le_u64 (got @ [b])"
    using Cons.prems(2,3) by (simp add: le_word_snoc)
  show ?case
  proof (cases "rest = []")
    case True
    then have p: "length_pos s = (if short then 1 else 7)" using Cons.prems(3,4) by (auto split: if_splits)
    then have ok: "\<not> (short \<and> 0xFFFF < le_u64 (got @ [b]))"
      using Cons.prems(4) True le_word_2 [of "got @ [b]"] by (auto simp: not_less)
    have "ws_parse grow b s = Some (s\<lparr>frame_length := byte_swap (if short then 2 else 8) (le_u64 (got @ [b])),
        step := (if masking s then Step_key else Step_data)\<rparr>, False)"
      using Cons.prems(1) ok p l by (auto simp: ws_parse_def Let_def)
    moreover have "s\<lparr>frame_length := x, length_pos := length_pos s, step := y\<rparr> = s\<lparr>frame_length := x, step := y\<rparr>" for x y
      by (cases s) simp
    ultimately show ?thesis using True unfolding p [symmetric] by simp
  next
    case False
    let ?s = "s\<lparr>frame_length := le_u64 (got @ [b]), length_pos := length_pos s + 1\<rparr>"
    have p: "length_pos s \<noteq> (if short then 1 else 7)" "length_pos s < 7"
      using False Cons.prems(3,4) by (cases rest; auto split: if_splits)+
    then have "ws_parse grow b s = Some (?s, False)"
      using Cons.prems(1) l by (auto simp: ws_parse_def Let_def)
    then have "ws_parse_all grow ((b # rest) @ bs) s = ws_parse_all grow (rest @ bs) ?s" by simp
    also have "\<dots> = ws_parse_all grow bs (?s\<lparr>frame_length :=
       byte_swap (if short then 2 else 8) (le_u64 ((got @ [b]) @ rest)), length_pos := (if short then 1 else 7),
       step := (if masking ?s then Step_key else Step_data)\<rparr>)"
      using Cons.prems False by (intro Cons.IH) auto
    finally show ?thesis by simp
  qed
qed simp

lemma take_16: "n < 2 ^ 16 \<Longrightarrow> take_bit 16 (of_nat n :: uint64) = of_nat n"
  by (simp add: take_bit_of_nat take_bit_nat_eq_self)

lemma word_len: "n < 2 ^ 64 \<Longrightarrow> unat (of_nat n :: uint64) = n" "n < 2 ^ 64 \<Longrightarrow> (of_nat n :: uint64) = 0 \<longleftrightarrow> n = 0"
proof -
  assume n: "n < 2 ^ 64"
  then show u: "unat (of_nat n :: uint64) = n" by (simp add: unat_of_nat)
  show "(of_nat n :: uint64) = 0 \<longleftrightarrow> n = 0" using u unat_eq_zero [of "of_nat n :: uint64"] by simp
qed

text \<open>After the length of a masked frame.\<close>

definition at_key :: "ws_state \<Rightarrow> byte \<Rightarrow> len_form \<Rightarrow> nat \<Rightarrow> ws_state" where
  "at_key s h form n = (at_length s h)\<lparr>masking := True, frame_length := of_nat n,
     length_pos := (case form of Short \<Rightarrow> 0 | Medium \<Rightarrow> 1 | Long \<Rightarrow> 7), step := Step_key\<rparr>"

lemma parse_length:
  assumes "fits form n"
  shows "ws_parse_all grow (len_bytes form 0x80 n @ bs) (at_length s h) = ws_parse_all grow bs (at_key s h form n)"
proof -
  have long: "ws_parse_all grow (be_bytes (if short then 2 else 8) (of_nat n :: uint64) @ bs)
      ((at_length s h)\<lparr>masking := True, step := (if short then Step_short_length else Step_extended_length)\<rparr>)
      = ws_parse_all grow bs ((at_length s h)\<lparr>masking := True, frame_length := take_bit (if short then 16 else 64) (of_nat n),
          length_pos := (if short then 1 else 7), step := Step_key\<rparr>)" for short
    using parse_long [of "(at_length s h)\<lparr>masking := True, step := (if short then Step_short_length else Step_extended_length)\<rparr>"
        short "[]" "be_bytes (if short then 2 else 8) (of_nat n :: uint64)" grow bs]
      byte_swap_be [of "if short then 2 else 8" "of_nat n"]
    by (cases short) (simp_all add: at_length_def)
  show ?thesis
  proof (cases form)
    case Short
    then show ?thesis using assms len_byte [of n]
      by (cases s) (simp add: ws_parse_def at_length_def at_key_def Let_def)
  next
    case Medium
    have "ws_parse grow 0xFE (at_length s h) = Some ((at_length s h)\<lparr>masking := True, step := Step_short_length\<rparr>, False)"
      by (simp add: ws_parse_def at_length_def Let_def)
    then show ?thesis using Medium assms long [of True] take_16 [of n]
      by (simp add: at_key_def)
  next
    case Long
    have "ws_parse grow 0xFF (at_length s h) = Some ((at_length s h)\<lparr>masking := True, step := Step_extended_length\<rparr>, False)"
      by (simp add: ws_parse_def at_length_def Let_def)
    moreover have "take_bit 64 (of_nat n) = (of_nat n :: uint64)" by (rule take_bit_length_eq [where 'a = 64, simplified])
    ultimately show ?thesis using Long assms long [of False] by (simp add: at_key_def)
  qed
qed

text \<open>The key.\<close>

lemma parse_key:
  assumes "step s = Step_key" and "length (cipher_key s) = 4" and "cipher_pos s = 0" and "length key = 4"
  shows "ws_parse_all grow (key @ bs) s =
     (let s1 = s\<lparr>cipher_key := key, cipher_pos := 3, step := Step_data\<rparr>
      in if frame_length s = 0 then ws_next grow bs s1 else ws_parse_all grow bs s1)"
proof -
  obtain a b c d where k: "key = [a, b, c, d]" using assms(4) by (auto simp: numeral_eq_Suc length_Suc_conv)
  obtain a' b' c' d' where k': "cipher_key s = [a', b', c', d']" using assms(2) by (auto simp: numeral_eq_Suc length_Suc_conv)
  then show ?thesis using assms(1,3) k
    by (cases s) (simp add: ws_parse_def ws_next_def numeral_3_eq_3 Let_def)
qed

text \<open>The data, deciphered byte after byte.\<close>

definition roomy :: "allocator \<Rightarrow> bool" where
  "roomy grow \<longleftrightarrow> (\<forall>c n. \<exists>c'. grow c n = Some c' \<and> n \<le> c')"

lemma append_roomy:
  assumes "roomy grow"
  shows "\<exists>c. append_byte grow b a = Some \<lparr>items = items a @ [b], capacity = c\<rparr>"
    and "\<exists>a1. ensure_capacity grow n a = Some a1 \<and> items a1 = items a"
proof -
  have e: "\<exists>c. ensure_capacity grow n a = Some (a\<lparr>capacity := c\<rparr>)" for n
  proof (cases "n \<le> capacity a")
    case True
    then show ?thesis by (intro exI [of _ "capacity a"]) (simp add: ensure_capacity_def)
  next
    case False
    moreover obtain c' where "grow (capacity a) n = Some c'" using assms unfolding roomy_def by blast
    ultimately show ?thesis by (intro exI [of _ c']) (simp add: ensure_capacity_def)
  qed
  then show "\<exists>a1. ensure_capacity grow n a = Some a1 \<and> items a1 = items a" by fastforce
  show "\<exists>c. append_byte grow b a = Some \<lparr>items = items a @ [b], capacity = c\<rparr>"
    using e [of "length (items a) + 1"] by (cases a) (auto simp: append_byte_def)
qed

lemma parse_payload:
  assumes "roomy grow" and "step s = Step_data" and "length (cipher_key s) = 4" and "data_inkey s < 4"
    and "unat (frame_length s) = length (items (buffer s)) + length rest" and "rest \<noteq> []"
  shows "\<exists>c i. ws_parse_all grow (cipher (cipher_key s) (data_inkey s) rest @ bs) s
     = ws_next grow bs (s\<lparr>buffer := \<lparr>items = items (buffer s) @ rest, capacity = c\<rparr>, data_inkey := i\<rparr>)"
  using assms(2-)
proof (induction rest arbitrary: s)
  case (Cons b rest)
  let ?k = "cipher_key s ! data_inkey s"
  obtain a where a: "(if capacity (buffer s) = 0
      then ensure_capacity grow (min (unat (frame_length s)) maximum_preallocated_bytes_per_frame) (buffer s)
      else Some (buffer s)) = Some a" "items a = items (buffer s)"
    using append_roomy(2) [OF assms(1)] by (cases "capacity (buffer s) = 0") auto
  obtain c where c: "append_byte grow b a = Some \<lparr>items = items (buffer s) @ [b], capacity = c\<rparr>"
    using append_roomy(1) [OF assms(1), of b a] a(2) by auto
  let ?s = "s\<lparr>buffer := \<lparr>items = items (buffer s) @ [b], capacity = c\<rparr>\<rparr>"
  let ?s1 = "?s\<lparr>data_inkey := (data_inkey s + 1) mod 4\<rparr>"
  have x: "(b XOR ?k) XOR ?k = b" by (simp add: xor.assoc)
  have step: "ws_parse grow (b XOR ?k) s = Some (if rest = [] then (?s, True) else (?s1, False))"
    using Cons.prems a(1) c by (simp add: ws_parse_def x Let_def)
  show ?case
  proof (cases "rest = []")
    case True
    have "?s\<lparr>data_inkey := data_inkey s\<rparr> = ?s" by simp
    then show ?thesis using True step by (intro exI [of _ c] exI [of _ "data_inkey s"]) (simp add: ws_next_def)
  next
    case False
    have "\<exists>c i. ws_parse_all grow (cipher (cipher_key ?s1) (data_inkey ?s1) rest @ bs) ?s1
     = ws_next grow bs (?s1\<lparr>buffer := \<lparr>items = items (buffer ?s1) @ rest, capacity = c\<rparr>, data_inkey := i\<rparr>)"
      by (rule Cons.IH) (use Cons.prems False in auto)
    then show ?thesis using step False by simp
  qed
qed simp

section \<open>Frames\<close>

text \<open>A frame of a client, whatever the form of its length: it is one message, its data deciphered, and the parser is
  idle again.\<close>

lemma next_message:
  assumes "frame_header s = h" and "items (buffer s) = data" and "s\<lparr>step := Step_start\<rparr> = s'"
  shows "ws_next grow bs s = do { (s2, ms) \<leftarrow> ws_parse_all grow bs s'; Some (s2, (h, data) # ms) }"
  using assms by (simp add: ws_next_def)

lemma parse_data:
  assumes g: "roomy grow" and s: "step s = Step_data" "length (cipher_key s) = 4" "data_inkey s = 0" "items (buffer s) = []"
    and n: "frame_length s = of_nat (length data)" "length data < 2 ^ 64"
  shows "\<exists>s'. step s' = Step_start \<and> frame_prevheader s' = frame_prevheader s \<and> cipher_key s' = cipher_key s \<and> closed s' = closed s
     \<and> (if frame_length s = 0 then ws_next grow (cipher (cipher_key s) 0 data @ bs) s
        else ws_parse_all grow (cipher (cipher_key s) 0 data @ bs) s)
       = do { (s2, ms) \<leftarrow> ws_parse_all grow bs s'; Some (s2, (frame_header s, data) # ms) }"
proof (cases "data = []")
  case True
  then show ?thesis using n s by (intro exI [of _ "s\<lparr>step := Step_start\<rparr>"]) (auto simp: ws_next_def)
next
  case False
  have u: "unat (frame_length s) = length (items (buffer s)) + length data" using n s(4) word_len(1) by simp
  then have z: "frame_length s \<noteq> 0" using False by auto
  obtain c i where "ws_parse_all grow (cipher (cipher_key s) 0 data @ bs) s
     = ws_next grow bs (s\<lparr>buffer := \<lparr>items = data, capacity = c\<rparr>, data_inkey := i\<rparr>)"
    using parse_payload [OF g s(1,2) _ u False, of bs] s(3,4) by auto
  then show ?thesis using z
    by (intro exI [of _ "s\<lparr>buffer := \<lparr>items = data, capacity = c\<rparr>, data_inkey := i, step := Step_start\<rparr>"])
      (simp add: ws_next_def)
qed

lemma parse_frame:
  assumes g: "roomy grow" and s: "ws_idle s" and f: "fr_valid f"
  shows "\<exists>s'. ws_idle s' \<and> cipher_key s' = fr_key f \<and> closed s' = closed s \<and> ws_parse_all grow (fr_wire f @ bs) s =
     do { (s2, ms) \<leftarrow> ws_parse_all grow bs s'; Some (s2, (fr_head f, fr_data f) # ms) }"
proof -
  let ?n = "length (fr_data f)"
  let ?s1 = "at_key s (fr_head f) (fr_form f) ?n"
  let ?s2 = "?s1\<lparr>cipher_key := fr_key f, cipher_pos := 3, step := Step_data\<rparr>"
  have st: "step s = Step_start" "length (cipher_key s) = 4" "frame_prevheader s = 0" using s by (simp_all add: ws_idle_def)
  have v: "fits (fr_form f) ?n" "length (fr_key f) = 4" using f by (simp_all add: fr_valid_def)
  have n64: "?n < 2 ^ 64" using v(1) by (cases "fr_form f") simp_all
  have s2: "frame_prevheader ?s2 = 0" "frame_header ?s2 = fr_head f" "closed ?s2 = closed s" "items (buffer ?s2) = []"
    "frame_length ?s2 = of_nat ?n" "data_inkey ?s2 = 0" "cipher_key ?s2 = fr_key f" "step ?s2 = Step_data"
    "frame_length ?s2 = frame_length ?s1"
    using st(3) by (simp_all add: at_key_def at_length_def)
  have "ws_parse_all grow (fr_wire f @ bs) s = ws_parse_all grow (fr_key f @ cipher (fr_key f) 0 (fr_data f) @ bs) ?s1"
    unfolding fr_wire_def append_Cons append_assoc parse_head [OF st(1)] parse_length [OF v(1)] ..
  also have "\<dots> = (if frame_length ?s2 = 0 then ws_next grow (cipher (fr_key f) 0 (fr_data f) @ bs) ?s2
      else ws_parse_all grow (cipher (fr_key f) 0 (fr_data f) @ bs) ?s2)"
    using st(2) v(2) s2(9) by (subst parse_key) (simp_all add: at_key_def at_length_def Let_def)
  finally have run: "ws_parse_all grow (fr_wire f @ bs) s = \<dots>" .
  obtain s' where "step s' = Step_start" "frame_prevheader s' = 0" "cipher_key s' = fr_key f" "closed s' = closed s"
    "ws_parse_all grow (fr_wire f @ bs) s = do { (s2, ms) \<leftarrow> ws_parse_all grow bs s'; Some (s2, (fr_head f, fr_data f) # ms) }"
    using parse_data [OF g s2(8) _ s2(6,4,5) n64, of bs] v(2) unfolding s2(1-3,7) run [symmetric] by blast
  then show ?thesis using v(2) by (intro exI [of _ s']) (simp add: ws_idle_def)
qed

lemma parse_frames:
  assumes "roomy grow"
  shows "ws_idle s \<Longrightarrow> \<forall>f \<in> set fs. fr_valid f \<Longrightarrow> \<exists>s'. ws_idle s' \<and> closed s' = closed s
     \<and> ws_parse_all grow (concat (map fr_wire fs)) s = Some (s', map (\<lambda>f. (fr_head f, fr_data f)) fs)"
proof (induction fs arbitrary: s)
  case (Cons f fs)
  have f: "fr_valid f" "\<forall>f \<in> set fs. fr_valid f" using Cons.prems(2) by simp_all
  obtain s1 where s1: "ws_idle s1" "closed s1 = closed s" "ws_parse_all grow (fr_wire f @ concat (map fr_wire fs)) s =
     do { (s2, ms) \<leftarrow> ws_parse_all grow (concat (map fr_wire fs)) s1; Some (s2, (fr_head f, fr_data f) # ms) }"
    using parse_frame [OF assms Cons.prems(1) f(1)] by blast
  then show ?case using Cons.IH [OF s1(1) f(2)] by auto
qed simp

lemma process_message:
  assumes "frame_prevheader s = 0" and "frame_prevheader s' = 0" and "closed s' = closed s"
    and "ws_parse_all (ws_grow E) bs s = do { (s2, ms) \<leftarrow> ws_parse_all (ws_grow E) bs' s'; Some (s2, (h, data) # ms) }"
  shows "process_data E bs (s, w) = do { (c, w1) \<leftarrow> ws_handle E h data (closed s, w); process_data E bs' (s'\<lparr>closed := c\<rparr>, w1) }"
proof -
  have "frame_prevheader (s'\<lparr>closed := c\<rparr>) = 0" for c using assms(2) by simp
  note p = process_data_parse [OF this]
  show ?thesis
    by (auto simp: process_data_parse [OF assms(1)] p assms(3,4) ws_parse_all_closed split: Option.bind_splits)
qed

text \<open>What an unmasked frame becomes, which the parser takes as well. The key is the one that is there.\<close>

lemma parse_unmasked:
  assumes g: "roomy grow" and s: "ws_idle s" and n: "length data \<le> 125"
  shows "\<exists>s'. ws_idle s' \<and> cipher_key s' = cipher_key s \<and> closed s' = closed s \<and>
     ws_parse_all grow (h # of_nat (length data) # cipher (cipher_key s) 0 data @ bs) s =
     do { (s2, ms) \<leftarrow> ws_parse_all grow bs s'; Some (s2, (h, data) # ms) }"
proof -
  let ?s2 = "(at_length s h)\<lparr>masking := False, frame_length := of_nat (length data), step := Step_data\<rparr>"
  have st: "step s = Step_start" "length (cipher_key s) = 4" "frame_prevheader s = 0" using s by (simp_all add: ws_idle_def)
  have n64: "length data < 2 ^ 64" using n by simp
  have s2: "frame_prevheader ?s2 = 0" "frame_header ?s2 = h" "closed ?s2 = closed s" "items (buffer ?s2) = []"
    "frame_length ?s2 = of_nat (length data)" "data_inkey ?s2 = 0" "cipher_key ?s2 = cipher_key s" "step ?s2 = Step_data"
    using st(3) by (simp_all add: at_length_def)
  have "ws_parse grow (of_nat (length data)) (at_length s h) = Some (?s2, frame_length ?s2 = 0)"
    using len_byte [OF n] by (simp add: ws_parse_def at_length_def Let_def)
  then have run: "ws_parse_all grow (h # of_nat (length data) # cipher (cipher_key s) 0 data @ bs) s =
      (if frame_length ?s2 = 0 then ws_next grow (cipher (cipher_key s) 0 data @ bs) ?s2
       else ws_parse_all grow (cipher (cipher_key s) 0 data @ bs) ?s2)"
    unfolding parse_head [OF st(1)] by (simp only: parse_step)
  obtain s' where "step s' = Step_start" "frame_prevheader s' = 0" "cipher_key s' = cipher_key s" "closed s' = closed s"
    "ws_parse_all grow (h # of_nat (length data) # cipher (cipher_key s) 0 data @ bs) s
      = do { (s2, ms) \<leftarrow> ws_parse_all grow bs s'; Some (s2, (h, data) # ms) }"
    using parse_data [OF g s2(8) _ s2(6,4,5) n64, of bs] st(2) unfolding s2(1-3,7) run [symmetric] by blast
  then show ?thesis using st(2) by (intro exI [of _ s']) (simp add: ws_idle_def)
qed

text \<open>An unmasked frame whose length is in one of the longer forms ends with the byte that says so.\<close>

lemma parse_unmasked_long:
  assumes s: "ws_idle s" and b: "b \<in> {126, 127}"
  shows "\<exists>s'. ws_idle s' \<and> cipher_key s' = cipher_key s \<and> closed s' = closed s \<and> ws_parse_all grow (h # b # bs) s =
     do { (s2, ms) \<leftarrow> ws_parse_all grow bs s'; Some (s2, (h, []) # ms) }"
proof -
  have st: "step s = Step_start" "length (cipher_key s) = 4" "frame_prevheader s = 0" using s by (simp_all add: ws_idle_def)
  obtain s2 where s2: "ws_parse grow b (at_length s h) = Some (s2, True)" "frame_prevheader s2 = 0" "frame_header s2 = h"
    "closed s2 = closed s" "items (buffer s2) = []" "cipher_key s2 = cipher_key s"
    using b st(3) by (auto simp: ws_parse_def at_length_def Let_def)
  then show ?thesis using st(2) unfolding parse_head [OF st(1)] parse_step [OF s2(1)]
    by (intro exI [of _ "s2\<lparr>step := Step_start\<rparr>"]) (simp add: ws_idle_def ws_next_def)
qed

section \<open>Any bytes at all\<close>

text \<open>What always holds of the parser. The data is shorter than the length of the frame.\<close>

definition ws_inv :: "ws_state \<Rightarrow> bool" where
  "ws_inv s \<longleftrightarrow> frame_prevheader s = 0 \<and> length (cipher_key s) = 4 \<and> data_inkey s < 4 \<and> cipher_pos s \<le> 3
     \<and> (step s = Step_length \<longrightarrow> frame_length s = 0 \<and> length_pos s = 0 \<and> items (buffer s) = [])
     \<and> (step s \<in> {Step_short_length, Step_extended_length} \<longrightarrow> masking s \<and> items (buffer s) = []
         \<and> (\<exists>bs. frame_length s = le_u64 bs \<and> length bs = length_pos s
              \<and> length_pos s \<le> (if step s = Step_short_length then 1 else 7)))
     \<and> (step s = Step_key \<longrightarrow> items (buffer s) = [])
     \<and> (step s = Step_data \<longrightarrow> length (items (buffer s)) < unat (frame_length s))"

lemma length_step_inv:
  assumes s: "ws_inv s" and st: "step s \<in> {Step_short_length, Step_extended_length}"
  shows "\<exists>s1. ws_parse grow b s = Some (s1, False) \<and> ws_inv s1"
proof -
  let ?short = "step s = Step_short_length"
  obtain bs where bs: "frame_length s = le_u64 bs" "length bs = length_pos s" "length_pos s \<le> (if ?short then 1 else 7)"
    "masking s" "items (buffer s) = []" using s st unfolding ws_inv_def by auto
  have k: "frame_prevheader s = 0" "length (cipher_key s) = 4" "data_inkey s < 4" "cipher_pos s \<le> 3" using s by (simp_all add: ws_inv_def)
  have l: "frame_length s OR push_bit (8 * length_pos s) (ucast b) = le_u64 (bs @ [b])" using bs(1,2) by (simp add: le_word_snoc)
  show ?thesis
  proof (cases "length_pos s = (if ?short then 1 else 7)")
    case True
    have ok: "\<not> (?short \<and> 0xFFFF < le_u64 (bs @ [b]))" using True bs(2) le_word_2 [of "bs @ [b]"] by (auto simp: not_less)
    let ?s1 = "s\<lparr>frame_length := byte_swap (if ?short then 2 else 8) (le_u64 (bs @ [b])), step := Step_key\<rparr>"
    have "ws_parse grow b s = Some (?s1, False)" using st True ok l bs(4) by (auto simp: ws_parse_def Let_def)
    moreover have "ws_inv ?s1" using k bs(5) by (simp add: ws_inv_def)
    ultimately show ?thesis by blast
  next
    case False
    let ?s1 = "s\<lparr>frame_length := le_u64 (bs @ [b]), length_pos := length_pos s + 1\<rparr>"
    have p: "length_pos s + 1 \<le> (if ?short then 1 else 7)" using False bs(3) by (auto split: if_splits)
    then have "ws_parse grow b s = Some (?s1, False)"
      using st False l by (auto simp: ws_parse_def Let_def split: if_splits)
    moreover have "ws_inv ?s1" using k bs p st unfolding ws_inv_def
      by (auto intro!: exI [of _ "bs @ [b]"] simp del: le_u64.simps)
    ultimately show ?thesis by blast
  qed
qed

lemma ws_inv_start:
  assumes "frame_prevheader s = 0" and "length (cipher_key s) = 4" and "data_inkey s < 4" and "cipher_pos s \<le> 3"
  shows "ws_inv (s\<lparr>step := Step_start\<rparr>)"
  using assms by (simp add: ws_inv_def)

lemma parse_inv:
  assumes r: "roomy grow" and s: "ws_inv s"
  shows "\<exists>s1 ends. ws_parse grow b s = Some (s1, ends)
     \<and> (if ends then ws_inv (s1\<lparr>step := Step_start\<rparr>) \<and> length (items (buffer s1)) < 2 ^ 64 else ws_inv s1)"
proof -
  have k: "frame_prevheader s = 0" "length (cipher_key s) = 4" "data_inkey s < 4" "cipher_pos s \<le> 3" using s by (simp_all add: ws_inv_def)
  show ?thesis
  proof (cases "step s")
    case Step_start
    then show ?thesis using k by (auto simp: ws_parse_def ws_inv_def)
  next
    case Step_length
    have l: "frame_length s = 0" "length_pos s = 0" "items (buffer s) = []" using s Step_length by (simp_all add: ws_inv_def)
    have "\<exists>bs. (0 :: uint64) = le_u64 bs \<and> bs = []" by simp
    then show ?thesis using Step_length k l
      by (cases "b AND 0x80 = 0"; cases "b AND 0x7f = 126"; cases "b AND 0x7f = 127")
        (auto simp: ws_parse_def ws_inv_def Let_def unat_gt_0)
  next
    case Step_key
    then have i: "items (buffer s) = []" using s by (simp add: ws_inv_def)
    show ?thesis using Step_key k i
      by (cases "cipher_pos s = 3"; cases "frame_length s = 0") (auto simp: ws_parse_def ws_inv_def Let_def unat_gt_0)
  next
    case Step_data
    then have i: "length (items (buffer s)) < unat (frame_length s)" using s by (simp add: ws_inv_def)
    have u: "unat (frame_length s) < 2 ^ 64" using unsigned_less [of "frame_length s"] by simp
    obtain a where a: "(if capacity (buffer s) = 0
        then ensure_capacity grow (min (unat (frame_length s)) maximum_preallocated_bytes_per_frame) (buffer s)
        else Some (buffer s)) = Some a" "items a = items (buffer s)"
      using append_roomy(2) [OF r] by (cases "capacity (buffer s) = 0") auto
    obtain c where c: "append_byte grow (b XOR (cipher_key s ! data_inkey s)) a
        = Some \<lparr>items = items (buffer s) @ [b XOR (cipher_key s ! data_inkey s)], capacity = c\<rparr>"
      using append_roomy(1) [OF r, of _ a] a(2) by auto
    show ?thesis using Step_data k i u a(1) c by (simp add: ws_parse_def ws_inv_def Let_def) blast
  next
    case Step_short_length
    then show ?thesis using length_step_inv [OF s, of grow b] by auto
  next
    case Step_extended_length
    then show ?thesis using length_step_inv [OF s, of grow b] by auto
  qed
qed

lemma parse_all_inv:
  assumes r: "roomy grow"
  shows "ws_inv s \<Longrightarrow> \<exists>s1 ms. ws_parse_all grow bs s = Some (s1, ms) \<and> ws_inv s1 \<and> (\<forall>(h, data) \<in> set ms. length data < 2 ^ 64)"
proof (induction bs arbitrary: s)
  case (Cons b bs)
  obtain s1 ends where s1: "ws_parse grow b s = Some (s1, ends)"
    "if ends then ws_inv (s1\<lparr>step := Step_start\<rparr>) \<and> length (items (buffer s1)) < 2 ^ 64 else ws_inv s1"
    using parse_inv [OF r Cons.prems] by blast
  then show ?case using Cons.IH [of s1] Cons.IH [of "s1\<lparr>step := Step_start\<rparr>"] by (cases ends) auto
qed simp

text \<open>Callbacks and operations of the client that do not fault.\<close>

definition ws_total :: "'w ws_env \<Rightarrow> bool" where
  "ws_total E \<longleftrightarrow> (\<forall>f. ws_message E = Some f \<longrightarrow> (\<forall>c bs b fs w. f c bs b fs w \<noteq> None))
     \<and> (\<forall>bs lt w. nc_write (ws_client E) bs lt w \<noteq> None) \<and> (\<forall>b w. nc_cork (ws_client E) b w \<noteq> None)
     \<and> (\<forall>a w. nc_close (ws_client E) a w \<noteq> None)"

lemma ws_write_total:
  assumes "ws_total E" and "length bs < 2 ^ 64"
  shows "\<exists>w'. ws_write (ws_client E) ty c bs op lt w = Some w'"
proof -
  have t: "\<exists>w'. nc_write (ws_client E) bs lt w = Some w'" "\<exists>w'. nc_cork (ws_client E) b w = Some w'" for bs lt w b
    using assms(1) unfolding ws_total_def by auto
  obtain w1 where w1: "nc_cork (ws_client E) True w = Some w1" using t(2) by blast
  obtain w2 where w2: "(if length bs \<le> 0xFFFFFFFF then nc_write (ws_client E) (ws_head ty op (length bs)) Copy w1 else Some w1) = Some w2"
    using t(1) [of "ws_head ty op (length bs)" Copy w1] by (cases "length bs \<le> 0xFFFFFFFF") auto
  obtain w3 where w3: "(if length bs \<noteq> 0 then write_pieces (ws_client E) [(bs, lt)] w2 else Some w2) = Some w3"
    using t(1) [of bs lt w2] by (cases "length bs \<noteq> 0") auto
  obtain w4 where "nc_cork (ws_client E) False w3 = Some w4" using t(2) by blast
  then show ?thesis using w1 w2 w3 assms(2) by (simp add: ws_write_def ws_writev_def Let_def)
qed

lemma ws_handle_total:
  assumes t: "ws_total E" and n: "length data < 2 ^ 64"
  shows "\<exists>c' w'. ws_handle E h data (c, w) = Some (c', w')"
proof -
  have cl: "\<exists>w'. nc_close (ws_client E) Queue w = Some w'" for w using t unfolding ws_total_def by auto
  have "\<exists>c' w'. ws_close (ws_client E) ty c w = Some (c', w')" for ty
  proof (cases c)
    case False
    obtain w1 where "ws_write (ws_client E) ty True [] Op_close Static w = Some w1"
      using ws_write_total [OF t, of "[]" ty True Op_close Static w] by auto
    then show ?thesis using cl [of w1] False by (auto simp: ws_close_def)
  qed (auto simp: ws_close_def)
  moreover have "\<exists>w'. ws_pong (ws_client E) ty c data w = Some w'" for ty
    using ws_write_total [OF t n] by (simp add: ws_pong_def)
  moreover have "\<exists>c' w'. f c data b fs w = Some (c', w')" if "ws_message E = Some f" for f b fs
    using t that unfolding ws_total_def by fastforce
  ultimately show ?thesis unfolding ws_handle_def
    by (cases "ws_message E") (auto split: op_code.split)
qed

lemma ws_handle_all_total:
  assumes "ws_total E"
  shows "\<forall>(h, data) \<in> set ms. length data < 2 ^ 64 \<Longrightarrow> \<exists>c' w'. ws_handle_all E ms (c, w) = Some (c', w')"
proof (induction ms arbitrary: c w)
  case (Cons m ms)
  obtain h data where m: "m = (h, data)" by (cases m)
  obtain c1 w1 where "ws_handle E h data (c, w) = Some (c1, w1)"
    using ws_handle_total [OF assms, of data h c w] Cons.prems m by auto
  then show ?case using Cons.IH [of c1 w1] Cons.prems m by simp
qed simp

end
