(* ===== verification/Websocket_Claims.thy ===== *)
theory Websocket_Claims
  imports Websocket_Props
begin

unbundle bit_operations_syntax

text \<open>
  What the parser and the writer of \<open>src/websocket.zig\<close> promise, for any callback and any client
  under them.
\<close>

text \<open>The reads of a connection, one after the other.\<close>

fun ws_feed :: "'w ws_env \<Rightarrow> byte list list \<Rightarrow> ws_state \<times> 'w \<Rightarrow> (ws_state \<times> 'w) option" where
  "ws_feed E [] x = Some x"
| "ws_feed E (bs # bss) x = do { x1 \<leftarrow> process_data E bs x; ws_feed E bss x1 }"

lemma ws_feed_concat: "ws_feed E bss x = process_data E (concat bss) x"
  by (induction bss arbitrary: x) (simp_all add: process_data_append split: Option.bind_splits)

lemma ws_idle_init [simp]: "ws_idle ws_init" "closed ws_init = False" "cipher_key ws_init = [0, 0, 0, 0]"
  by (simp_all add: ws_idle_def ws_init_def)

lemma cipher_init [simp]: "cipher [0, 0, 0, 0] 0 data = data"
  by (rule cipher_zero) (auto simp: less_Suc_eq numeral_eq_Suc)

lemma ws_idle_inv: "ws_idle s \<Longrightarrow> frame_prevheader s = 0"
  by (simp add: ws_idle_def)

text \<open>Something to evaluate on: the messages are noted, and the bytes that are written.\<close>

definition wire_client :: "byte list net_client" where
  "wire_client = \<lparr>nc_write = (\<lambda>bs lt w. Some (w @ bs)), nc_cork = (\<lambda>b w. Some w), nc_close = (\<lambda>a w. Some w)\<rparr>"

type_synonym noted = "(byte list \<times> bool \<times> frame_state) list \<times> byte list"

definition note_env :: "noted ws_env" where
  "note_env = \<lparr>ws_client = \<lparr>nc_write = (\<lambda>bs lt (ms, w). Some (ms, w @ bs)), nc_cork = (\<lambda>b w. Some w), nc_close = (\<lambda>a w. Some w)\<rparr>,
     ws_type = Server_end, ws_grow = (\<lambda>c n. Some n),
     ws_message = Some (\<lambda>c data bin fs (ms, w). Some (c, (ms @ [(data, bin, fs)], w)))\<rparr>"

lemma note_env_ok: "roomy (ws_grow note_env)" "ws_total note_env"
  by (auto simp: roomy_def ws_total_def note_env_def)

section \<open>Frames in pieces\<close>

text \<open>C7: The frames of a client, with any of the three forms of length, cut into any pieces: each is handled
  once, in order, with its header and its deciphered data, and when all have come in the parser is between frames.\<close>

theorem ws_frames_handled:
  assumes "roomy (ws_grow E)" and "ws_idle s" and "\<forall>f \<in> set fs. fr_valid f" and "concat chunks = concat (map fr_wire fs)"
  shows "map_option (\<lambda>(s, w). (ws_idle s, closed s, w)) (ws_feed E chunks (s, w))
     = map_option (\<lambda>(c, w). (True, c, w)) (ws_handle_all E (map (\<lambda>f. (fr_head f, fr_data f)) fs) (closed s, w))"
proof -
  obtain s' where s': "ws_idle s'" "closed s' = closed s"
    "ws_parse_all (ws_grow E) (concat chunks) s = Some (s', map (\<lambda>f. (fr_head f, fr_data f)) fs)"
    using parse_frames [OF assms(1-3)] assms(4) by auto
  have "ws_idle (s'\<lparr>closed := c\<rparr>)" for c using s'(1) by (simp add: ws_idle_def)
  then show ?thesis
    by (auto simp: ws_feed_concat process_data_parse [OF ws_idle_inv [OF assms(2)]] s'(3) split: Option.bind_splits)
qed

theorem ws_frames_handled_witness:
  "map_option (\<lambda>(s, w). (ws_idle s, closed s, w))
      (ws_feed note_env [[0x01], [0x82, 1, 2], [3, 4, 0x49, 0x6b, 0x80, 0xFE, 0, 1, 9, 9], [9, 9, 0x28],
         [0x89, 0x81, 5, 6, 7, 8, 2, 0x88, 0x80, 0, 0, 0, 0]] (ws_init, ([], [])))
   = Some (True, True, ([([0x48, 0x69], False, Frame_start), ([0x21], False, Frame_finish)], [0x8A, 1, 7]))"
proof -
  let ?fs = "[\<lparr>fr_head = 0x01, fr_form = Short, fr_key = [1, 2, 3, 4], fr_data = [0x48, 0x69]\<rparr>,
    \<lparr>fr_head = 0x80, fr_form = Medium, fr_key = [9, 9, 9, 9], fr_data = [0x21]\<rparr>,
    \<lparr>fr_head = 0x89, fr_form = Short, fr_key = [5, 6, 7, 8], fr_data = [7]\<rparr>,
    \<lparr>fr_head = 0x88, fr_form = Short, fr_key = [0, 0, 0, 0], fr_data = []\<rparr>]"
  have v: "\<forall>f \<in> set ?fs. fr_valid f" by (simp add: fr_valid_def)
  have "concat [[0x01], [0x82, 1, 2], [3, 4, 0x49, 0x6b, 0x80, 0xFE, 0, 1, 9, 9], [9, 9, 0x28],
         [0x89, 0x81, 5, 6, 7, 8, 2, 0x88, 0x80, 0, 0, 0, 0]] = concat (map fr_wire ?fs)"
    by (simp add: fr_wire_def be_bytes_def numeral_2_eq_2)
  note run = ws_frames_handled [OF note_env_ok(1) ws_idle_init(1) v this, of "([], [])"]
  have "ws_handle_all note_env (map (\<lambda>f. (fr_head f, fr_data f)) ?fs) (False, ([], []))
    = Some (True, ([([0x48, 0x69], False, Frame_start), ([0x21], False, Frame_finish)], [0x8A, 1, 7]))" by (simp add: ws_handle_def note_env_def ws_pong_def ws_write_def ws_writev_def ws_head_def ws_close_def op_of_def Let_def)
  with run show ?thesis by simp
qed

section \<open>Any bytes\<close>

text \<open>C10: Whatever comes in, with callbacks that do not fault and memory to be had: no index leaves its array, no number
  overflows, and the data read is always shorter than the length of its frame (\<open>ws_inv\<close>). How the bytes are
  cut into reads makes no difference.\<close>

theorem ws_any_bytes:
  assumes "roomy (ws_grow E)" and "ws_total E"
  shows "\<exists>s' w'. ws_feed E chunks (ws_init, w) = Some (s', w') \<and> ws_inv s' \<and> ws_feed E [concat chunks] (ws_init, w) = Some (s', w')"
proof -
  have i: "ws_inv ws_init" "frame_prevheader ws_init = 0" by (simp_all add: ws_inv_def ws_init_def)
  obtain s1 ms where s1: "ws_parse_all (ws_grow E) (concat chunks) ws_init = Some (s1, ms)" "ws_inv s1"
    "\<forall>(h, data) \<in> set ms. length data < 2 ^ 64" using parse_all_inv [OF assms(1) i(1)] by blast
  obtain c w' where "ws_handle_all E ms (closed ws_init, w) = Some (c, w')"
    using ws_handle_all_total [OF assms(2) s1(3)] by blast
  moreover have "ws_inv (s1\<lparr>closed := c\<rparr>)" using s1(2) by (simp add: ws_inv_def)
  ultimately show ?thesis
    by (simp add: ws_feed_concat process_data_parse [OF i(2)] s1(1))
qed

theorem ws_any_bytes_witness:
  "\<exists>s' w'. ws_feed note_env [[0xFF, 0xFF], [1, 2, 3, 4, 5, 6, 7, 8, 9, 10], [11, 12, 13]] (ws_init, ([], [])) = Some (s', w')
     \<and> ws_inv s'"
  using ws_any_bytes [OF note_env_ok, of "[[0xFF, 0xFF], [1, 2, 3, 4, 5, 6, 7, 8, 9, 10], [11, 12, 13]]" "([], [])"] by blast

section \<open>From one end to the other\<close>

lemma wire_write:
  assumes "length data \<le> 0xFFFFFFFF"
  shows "ws_write wire_client ty False data opcode lt w = Some (w @ ws_head ty opcode (length data) @ data)"
  using assms by (simp add: ws_write_def ws_writev_def wire_client_def Let_def)

text \<open>C19: What the server writes, read by the parser: up to 125 bytes of data are one message, with that data. With more
  the message is empty, since an unmasked frame without a short length is taken to be over, and its length and its data
  are read as further frames.\<close>

theorem ws_server_read_back:
  assumes "roomy (ws_grow E)" and "length data \<le> 0xFFFFFFFF"
  shows "\<exists>s'. ws_idle s' \<and> do { out \<leftarrow> ws_write wire_client Server_end False data opcode lt []; process_data E out (ws_init, w) }
     = (let h = 0x80 OR op_int opcode in
        if length data \<le> 125 then do { (c, w1) \<leftarrow> ws_handle E h data (False, w); Some (s'\<lparr>closed := c\<rparr>, w1) }
        else do { (c, w1) \<leftarrow> ws_handle E h [] (False, w);
          process_data E (be_bytes (if length data \<le> 65535 then 2 else 8) (of_nat (length data) :: uint64) @ data)
            (s'\<lparr>closed := c\<rparr>, w1) })"
proof -
  let ?h = "0x80 OR op_int opcode" and ?n = "length data"
  note run = wire_write [OF assms(2), of Server_end opcode lt "[]"]
  note pd = process_data_parse [OF ws_idle_inv [OF ws_idle_init(1)]]
  show ?thesis
  proof (cases "?n \<le> 125")
    case True
    obtain s' where s': "ws_idle s'" "ws_parse_all (ws_grow E) (?h # of_nat ?n # data) ws_init = Some (s', [(?h, data)])"
      using parse_unmasked [OF assms(1) ws_idle_init(1) True, of ?h "[]"] by (auto simp del: ws_parse_all.simps(2))
    then show ?thesis using True run
      by (intro exI [of _ s']) (auto simp: ws_head_def pd Let_def split: Option.bind_splits)
  next
    case False
    let ?b = "if ?n \<le> 65535 then 126 else 127 :: byte"
    let ?rest = "be_bytes (if ?n \<le> 65535 then 2 else 8) (of_nat ?n :: uint64) @ data"
    have two: "be_bytes 2 (of_nat ?n :: 16 word) = be_bytes 2 (of_nat ?n :: uint64)"
      unfolding be_bytes_def by (subst le_bytes_of_nat [where 'b = 64]) simp_all
    have b: "?b \<in> {126, 127}" by simp
    obtain s' where s': "ws_idle s'" "closed s' = False" "ws_parse_all (ws_grow E) (?h # ?b # ?rest) ws_init
       = do { (s2, ms) \<leftarrow> ws_parse_all (ws_grow E) ?rest s'; Some (s2, (?h, []) # ms) }"
      using parse_unmasked_long [OF ws_idle_init(1) b, of "ws_grow E" ?h ?rest] by auto
    note process_message [OF ws_idle_inv [OF ws_idle_init(1)] ws_idle_inv [OF s'(1)] _ s'(3), of w]
    then show ?thesis using False run s'(1,2) assms(2)
      by (intro exI [of _ s'], cases "?n \<le> 65535") (simp_all add: ws_head_def two Let_def del: process_data.simps)
  qed
qed

theorem ws_server_read_back_witness:
  "\<exists>s'. do { out \<leftarrow> ws_write wire_client Server_end False [0x48, 0x69] Op_binary Copy []; process_data note_env out (ws_init, ([], [])) }
     = Some (s', ([([0x48, 0x69], True, Frame_finish)], [])) \<and> ws_idle s'"
proof -
  have "ws_handle note_env (0x80 OR op_int Op_binary) [0x48, 0x69] (False, ([], []))
    = Some (False, ([([0x48, 0x69], True, Frame_finish)], []))" by code_simp
  then show ?thesis
    using ws_server_read_back [OF note_env_ok(1), of "[0x48, 0x69]" Op_binary Copy "([], [])"]
    by (auto simp: Let_def ws_idle_def)
qed

text \<open>C40: A frame without a mask is deciphered all the same, with the key of the last frame that had one.\<close>

theorem ws_unmasked_after_masked:
  assumes "roomy (ws_grow E)" and "ws_idle s" and "fr_valid f" and "length data \<le> 125"
  shows "map_option (\<lambda>(s, w). (closed s, w)) (process_data E (fr_wire f @ h # of_nat (length data) # data) (s, w))
     = ws_handle_all E [(fr_head f, fr_data f), (h, cipher (fr_key f) 0 data)] (closed s, w)"
proof -
  obtain s1 where s1: "ws_idle s1" "cipher_key s1 = fr_key f" "ws_parse_all (ws_grow E) (fr_wire f @ h # of_nat (length data) # data) s
     = do { (s2, ms) \<leftarrow> ws_parse_all (ws_grow E) (h # of_nat (length data) # data) s1; Some (s2, (fr_head f, fr_data f) # ms) }"
    using parse_frame [OF assms(1-3)] by blast
  obtain s2 where "ws_parse_all (ws_grow E) (h # of_nat (length data) # data) s1 = Some (s2, [(h, cipher (fr_key f) 0 data)])"
    using parse_unmasked [OF assms(1) s1(1), of "cipher (fr_key f) 0 data" h "[]"] assms(4) s1(2)
    by (auto simp: cipher_twice simp del: ws_parse_all.simps(2))
  then show ?thesis
    by (auto simp: process_data_parse [OF ws_idle_inv [OF assms(2)]] s1(3) simp del: ws_parse_all.simps(2) process_data.simps
        split: Option.bind_splits)
qed

theorem ws_unmasked_after_masked_witness:
  "map_option (\<lambda>(s, w). (closed s, w)) (process_data note_env
      [0x81, 0x81, 1, 2, 3, 4, 0x49, 0x81, 2, 0x48, 0x69] (ws_init, ([], [])))
   = Some (False, ([([0x48], False, Frame_finish), ([0x49, 0x6b], False, Frame_finish)], []))"
proof -
  let ?f = "\<lparr>fr_head = 0x81, fr_form = Short, fr_key = [1, 2, 3, 4], fr_data = [0x48]\<rparr>"
  have f: "fr_valid ?f" by (simp add: fr_valid_def)
  have "ws_handle_all note_env [(0x81, [0x48]), (0x81, cipher [1, 2, 3, 4] 0 [0x48, 0x69])] (False, ([], []))
    = Some (False, ([([0x48], False, Frame_finish), ([0x49, 0x6b], False, Frame_finish)], []))" by code_simp
  then show ?thesis
    using ws_unmasked_after_masked [OF note_env_ok(1) ws_idle_init(1) f, where data = "[0x48, 0x69]" and h = "0x81" and w = "([], [])"]
    by (simp add: fr_wire_def del: process_data.simps)
qed

end
