(* ===== verification/Http_Props.thy ===== *)
theory Http_Props
  imports Http Websocket_Claims
begin

unbundle bit_operations_syntax

text \<open>
  Requests: what is known of them when they have come in, how much of a body is taken, and what becomes of a
  second request.
\<close>

section \<open>What llhttp does\<close>

text \<open>Some calls, as long as they give 0; then a result.\<close>

primrec ll_script :: "ll_event list \<Rightarrow> ll_errno \<Rightarrow> 'p \<Rightarrow> 'p ll_run" where
  "ll_script [] e p = LL_return e p"
| "ll_script (ev # evs) e p = LL_call ev (\<lambda>r. if r = 0 then ll_script evs e p else LL_return (HPE_ERROR 21) p)"

fun http_events :: "memory \<Rightarrow> ll_event list \<Rightarrow> ('p, 'u) http_request \<Rightarrow> ('p, 'u) http_request option" where
  "http_events M [] c = Some c"
| "http_events M (ev # evs) c = (let (r, c1) = http_callback M ev c in if r = 0 then http_events M evs c1 else None)"

lemma http_events_append: "http_events M (as @ bs) c = do { c1 \<leftarrow> http_events M as c; http_events M bs c1 }"
  by (induction as arbitrary: c) (simp_all add: split_beta)

lemma execute_script:
  "http_events M evs c = Some c1 \<Longrightarrow> llhttp_execute M (ll_script evs e p) c = (e, c1\<lparr>ll_state := p\<rparr>)"
  by (induction evs arbitrary: c) (auto simp: split_beta Let_def split: if_splits)

text \<open>The body by itself.\<close>

definition body_room :: "memory \<Rightarrow> byte list option \<Rightarrow> array_list \<Rightarrow> array_list option" where
  "body_room M cl a = (case cl of None \<Rightarrow> Some a | Some bs \<Rightarrow> if capacity a \<noteq> 0 then Some a
     else do { n \<leftarrow> parse_u32 bs; if MAX_BODY_LEN < n then None else ensure_capacity (mem_grow M) n a })"

definition body_list :: "memory \<Rightarrow> byte list option \<Rightarrow> byte list \<Rightarrow> array_list \<Rightarrow> int \<times> array_list" where
  "body_list M cl data a = (case body_room M cl a of None \<Rightarrow> (- 1, a)
     | Some a1 \<Rightarrow> if capacity a1 < length (items a1) + length data then (- 1, a1) else (0, a1\<lparr>items := items a1 @ data\<rparr>))"

lemma on_body_list:
  "http_on_body M data c = (let (r, a) = body_list M (headers c (bytes ''content-length'')) data (acc_body c) in (r, c\<lparr>acc_body := a\<rparr>))"
proof -
  have c: "c\<lparr>acc_body := acc_body c\<rparr> = c" by simp
  show ?thesis
  proof (cases "headers c (bytes ''content-length'')")
    case None
    then show ?thesis by (simp add: http_on_body_def body_list_def body_room_def Let_def)
  next
    case (Some cl)
    then show ?thesis
      by (cases "parse_u32 cl"; cases "capacity (acc_body c) = 0"; cases "ensure_capacity (mem_grow M) (the (parse_u32 cl)) (acc_body c)")
        (simp_all add: http_on_body_def body_list_def body_room_def Let_def)
  qed
qed

text \<open>The callbacks leave the rest of a request alone.\<close>

lemma callback_same:
  assumes "http_callback M ev c = (r, c1)"
  shows "responded c1 = responded c" "websocket_state c1 = websocket_state c" "user_ctx c1 = user_ctx c" "ll_state c1 = ll_state c"
    and "req_done c1 = (req_done c \<or> ev = On_message_complete)"
  using assms by (cases ev; auto simp: http_on_header_value_complete_def on_body_list Let_def split: prod.splits if_splits)+

lemma callback_ll_state:
  "http_callback M ev (c\<lparr>ll_state := p\<rparr>) = (let (r, c1) = http_callback M ev c in (r, c1\<lparr>ll_state := p\<rparr>))"
  by (cases ev) (simp_all add: http_on_header_value_complete_def on_body_list Let_def split_beta)

lemma events_ll_state:
  "http_events M evs (c\<lparr>ll_state := p\<rparr>) = map_option (\<lambda>c1. c1\<lparr>ll_state := p\<rparr>) (http_events M evs c)"
  by (induction evs arbitrary: c) (simp_all add: callback_ll_state split_beta Let_def)

lemma events_same:
  assumes "http_events M evs c = Some c1"
  shows "responded c1 = responded c \<and> websocket_state c1 = websocket_state c \<and> user_ctx c1 = user_ctx c
     \<and> ll_state c1 = ll_state c \<and> req_done c1 = (req_done c \<or> On_message_complete \<in> set evs)"
  using assms
proof (induction evs arbitrary: c)
  case (Cons ev evs)
  obtain r c2 where c2: "http_callback M ev c = (r, c2)" by (cases "http_callback M ev c")
  then have "http_events M evs c2 = Some c1" using Cons.prems by (auto split: if_splits)
  then show ?case using Cons.IH callback_same [OF c2] by auto
qed simp

section \<open>A request that has come in\<close>

text \<open>Its parts, each cut into pieces as the data happens to come in.\<close>

record http_message =
  rq_url :: "byte list list"
  rq_fields :: "(byte list list \<times> byte list list) list"
  rq_body :: "byte list list"

definition field_events :: "byte list list \<times> byte list list \<Rightarrow> ll_event list" where
  "field_events = (\<lambda>(ks, vs). List.map On_header_field ks @ [On_header_field_complete]
     @ List.map On_header_value vs @ [On_header_value_complete])"

definition request_events :: "http_message \<Rightarrow> ll_event list" where
  "request_events rq = List.map On_url (rq_url rq) @ concat (List.map field_events (rq_fields rq)) @ [On_headers_complete]
     @ List.map On_body (rq_body rq) @ [On_message_complete]"

text \<open>Names without regard to case; the last of several fields with a name counts.\<close>

definition header_map :: "(byte list list \<times> byte list list) list \<Rightarrow> byte list \<Rightarrow> byte list option" where
  "header_map fs = fold (\<lambda>(ks, vs) m. m(List.map ascii_lower (concat ks) \<mapsto> concat vs)) fs (\<lambda>_. None)"

definition plenty :: "memory \<Rightarrow> bool" where
  "plenty M \<longleftrightarrow> roomy (mem_grow M) \<and> (\<forall>n. mem_block M n) \<and> (\<forall>m. mem_put M m)"

lemma append_slice_roomy:
  assumes "roomy grow"
  shows "\<exists>cp. append_slice grow data a = (0, \<lparr>items = items a @ data, capacity = cp\<rparr>)"
proof -
  obtain a1 where a1: "ensure_capacity grow 32 a = Some a1" "items a1 = items a" using append_roomy(2) [OF assms] by blast
  obtain a2 where a2: "ensure_capacity grow (length (items a1) + length data) a1 = Some a2" "items a2 = items a1"
    using append_roomy(2) [OF assms] by blast
  show ?thesis using a1 a2 by (intro exI [of _ "capacity a2"]) (cases a2, simp add: append_slice_def)
qed

text \<open>The pieces of one part.\<close>

lemma url_events:
  assumes "plenty M"
  shows "\<exists>cp. http_events M (List.map On_url bss) c = Some (c\<lparr>acc_url := \<lparr>items = items (acc_url c) @ concat bss, capacity = cp\<rparr>\<rparr>)"
proof (induction bss arbitrary: c)
  case Nil
  show ?case by (intro exI [of _ "capacity (acc_url c)"]) simp
next
  case (Cons bs bss)
  obtain cp where "append_slice (mem_grow M) bs (acc_url c) = (0, \<lparr>items = items (acc_url c) @ bs, capacity = cp\<rparr>)"
    using append_slice_roomy assms unfolding plenty_def by blast
  then show ?case using Cons [of "c\<lparr>acc_url := \<lparr>items = items (acc_url c) @ bs, capacity = cp\<rparr>\<rparr>"] by simp
qed

lemma field_name_events:
  assumes "plenty M"
  shows "\<exists>cp. http_events M (List.map On_header_field bss) c
     = Some (c\<lparr>acc_field := \<lparr>items = items (acc_field c) @ concat bss, capacity = cp\<rparr>\<rparr>)"
proof (induction bss arbitrary: c)
  case Nil
  show ?case by (intro exI [of _ "capacity (acc_field c)"]) simp
next
  case (Cons bs bss)
  obtain cp where "append_slice (mem_grow M) bs (acc_field c) = (0, \<lparr>items = items (acc_field c) @ bs, capacity = cp\<rparr>)"
    using append_slice_roomy assms unfolding plenty_def by blast
  then show ?case using Cons [of "c\<lparr>acc_field := \<lparr>items = items (acc_field c) @ bs, capacity = cp\<rparr>\<rparr>"] by simp
qed

lemma field_value_events:
  assumes "plenty M"
  shows "\<exists>cp. http_events M (List.map On_header_value bss) c
     = Some (c\<lparr>acc_value := \<lparr>items = items (acc_value c) @ concat bss, capacity = cp\<rparr>\<rparr>)"
proof (induction bss arbitrary: c)
  case Nil
  show ?case by (intro exI [of _ "capacity (acc_value c)"]) simp
next
  case (Cons bs bss)
  obtain cp where "append_slice (mem_grow M) bs (acc_value c) = (0, \<lparr>items = items (acc_value c) @ bs, capacity = cp\<rparr>)"
    using append_slice_roomy assms unfolding plenty_def by blast
  then show ?case using Cons [of "c\<lparr>acc_value := \<lparr>items = items (acc_value c) @ bs, capacity = cp\<rparr>\<rparr>"] by simp
qed

lemma one_field_events:
  assumes M: "plenty M" and e: "items (acc_field c) = []" "items (acc_value c) = []"
  shows "\<exists>c1. http_events M (field_events (ks, vs)) c = Some c1 \<and> items (acc_field c1) = [] \<and> items (acc_value c1) = []
     \<and> headers c1 = (headers c)(List.map ascii_lower (concat ks) \<mapsto> concat vs) \<and> acc_url c1 = acc_url c \<and> acc_body c1 = acc_body c"
proof -
  obtain cp where c2: "http_events M (List.map On_header_field ks) c = Some (c\<lparr>acc_field := \<lparr>items = concat ks, capacity = cp\<rparr>\<rparr>)"
    using field_name_events [OF M, of ks c] e(1) by auto
  let ?c2 = "c\<lparr>acc_field := \<lparr>items = concat ks, capacity = cp\<rparr>\<rparr>"
  obtain cp' where "http_events M (List.map On_header_value vs) ?c2 = Some (?c2\<lparr>acc_value := \<lparr>items = concat vs, capacity = cp'\<rparr>\<rparr>)"
    using field_value_events [OF M, of vs ?c2] e(2) by auto
  then show ?thesis using c2 M
    by (simp add: field_events_def http_events_append http_on_header_value_complete_def plenty_def Let_def)
qed

lemma fields_events:
  assumes M: "plenty M"
  shows "items (acc_field c) = [] \<Longrightarrow> items (acc_value c) = [] \<Longrightarrow>
    \<exists>c1. http_events M (concat (List.map field_events fs)) c = Some c1
     \<and> headers c1 = fold (\<lambda>(ks, vs) m. m(List.map ascii_lower (concat ks) \<mapsto> concat vs)) fs (headers c)
     \<and> acc_url c1 = acc_url c \<and> acc_body c1 = acc_body c \<and> items (acc_field c1) = [] \<and> items (acc_value c1) = []"
proof (induction fs arbitrary: c)
  case (Cons f fs)
  obtain ks vs where f: "f = (ks, vs)" by (cases f)
  obtain c1 where c1: "http_events M (field_events f) c = Some c1" "items (acc_field c1) = []" "items (acc_value c1) = []"
    "headers c1 = (headers c)(List.map ascii_lower (concat ks) \<mapsto> concat vs)" "acc_url c1 = acc_url c" "acc_body c1 = acc_body c"
    using one_field_events [OF M Cons.prems] f by blast
  show ?case using Cons.IH [OF c1(2,3)] c1(1,4-6) f by (auto simp: http_events_append)
qed simp

text \<open>The body has to fit in what its length says.\<close>

lemma body_events:
  assumes "capacity (acc_body c) \<noteq> 0" and "length (items (acc_body c)) + length (concat bss) \<le> capacity (acc_body c)"
  shows "http_events M (List.map On_body bss) c = Some (c\<lparr>acc_body := (acc_body c)\<lparr>items := items (acc_body c) @ concat bss\<rparr>\<rparr>)"
  using assms
proof (induction bss arbitrary: c)
  case (Cons bs bss)
  have "http_callback M (On_body bs) c = (0, c\<lparr>acc_body := (acc_body c)\<lparr>items := items (acc_body c) @ bs\<rparr>\<rparr>)"
    using Cons.prems by (simp add: http_on_body_def)
  then show ?case using Cons.IH [of "c\<lparr>acc_body := (acc_body c)\<lparr>items := items (acc_body c) @ bs\<rparr>\<rparr>"] Cons.prems by simp
qed simp

definition body_fits :: "http_message \<Rightarrow> bool" where
  "body_fits rq \<longleftrightarrow> rq_body rq = [] \<or> (\<exists>cl n. header_map (rq_fields rq) (bytes ''content-length'') = Some cl
     \<and> parse_u32 cl = Some n \<and> length (concat (rq_body rq)) \<le> n \<and> 0 < n \<and> n \<le> MAX_BODY_LEN)"

lemma all_body_events:
  assumes M: "plenty M" and a: "acc_body c = empty_list" and cl: "headers c (bytes ''content-length'') = Some cl"
    and n: "parse_u32 cl = Some n" "length (concat bss) \<le> n" "0 < n" "n \<le> MAX_BODY_LEN"
  shows "\<exists>cp. http_events M (List.map On_body bss) c = Some (c\<lparr>acc_body := \<lparr>items = concat bss, capacity = cp\<rparr>\<rparr>)"
proof (cases bss)
  case Nil
  then show ?thesis using a by (intro exI [of _ 0]) (cases c, simp)
next
  case (Cons bs bss')
  obtain cp where cp: "mem_grow M 0 n = Some cp" "n \<le> cp" using M unfolding plenty_def roomy_def by blast
  let ?c = "c\<lparr>acc_body := \<lparr>items = [], capacity = cp\<rparr>\<rparr>"
  have "http_callback M (On_body bs) c = http_callback M (On_body bs) ?c"
    using a cl n cp by (simp add: on_body_list body_list_def body_room_def ensure_capacity_def)
  then have "http_events M (List.map On_body bss) c = http_events M (List.map On_body bss) ?c" by (simp add: Cons)
  moreover have "http_events M (List.map On_body bss) ?c = Some (?c\<lparr>acc_body := \<lparr>items = concat bss, capacity = cp\<rparr>\<rparr>)"
    using body_events [of ?c bss M] cp n by simp
  ultimately show ?thesis by (intro exI [of _ cp]) simp
qed

lemma request_done:
  assumes M: "plenty M" and rq: "body_fits rq" and c: "items (acc_field c) = []" "items (acc_value c) = []"
    and b: "acc_body c = empty_list" and h: "headers c = (\<lambda>_. None)"
  shows "\<exists>c1. http_events M (request_events rq) c = Some c1 \<and> headers c1 = header_map (rq_fields rq)
     \<and> items (acc_url c1) = items (acc_url c) @ concat (rq_url rq) \<and> getBody c1 = concat (rq_body rq) \<and> req_done c1"
proof -
  obtain cp where u: "http_events M (List.map On_url (rq_url rq)) c
     = Some (c\<lparr>acc_url := \<lparr>items = items (acc_url c) @ concat (rq_url rq), capacity = cp\<rparr>\<rparr>)" using url_events [OF M] by blast
  let ?c = "c\<lparr>acc_url := \<lparr>items = items (acc_url c) @ concat (rq_url rq), capacity = cp\<rparr>\<rparr>"
  obtain c2 where c2: "http_events M (concat (List.map field_events (rq_fields rq))) ?c = Some c2"
    "headers c2 = header_map (rq_fields rq)" "acc_url c2 = acc_url ?c" "acc_body c2 = empty_list"
    using fields_events [OF M, of ?c "rq_fields rq"] c b h by (auto simp: header_map_def)
  obtain cp' where "http_events M (List.map On_body (rq_body rq)) c2 = Some (c2\<lparr>acc_body := \<lparr>items = concat (rq_body rq), capacity = cp'\<rparr>\<rparr>)"
  proof (cases "rq_body rq = []")
    case True
    then show ?thesis using that [of 0] c2(4) by (cases c2) simp
  next
    case False
    then show ?thesis using rq all_body_events [OF M c2(4)] c2(2) that unfolding body_fits_def by metis
  qed
  then show ?thesis using u c2(1-3) by (simp add: request_events_def http_events_append getBody_def)
qed

text \<open>Without a body it can follow another one.\<close>

lemma bodyless_done:
  assumes M: "plenty M" and rq: "rq_body rq = []" and c: "items (acc_field c) = []" "items (acc_value c) = []"
  shows "\<exists>c1. http_events M (request_events rq) c = Some c1 \<and> req_done c1 \<and> items (acc_field c1) = [] \<and> items (acc_value c1) = []
     \<and> items (acc_url c1) = items (acc_url c) @ concat (rq_url rq)"
proof -
  obtain cp where u: "http_events M (List.map On_url (rq_url rq)) c
     = Some (c\<lparr>acc_url := \<lparr>items = items (acc_url c) @ concat (rq_url rq), capacity = cp\<rparr>\<rparr>)" using url_events [OF M] by blast
  let ?c = "c\<lparr>acc_url := \<lparr>items = items (acc_url c) @ concat (rq_url rq), capacity = cp\<rparr>\<rparr>"
  obtain c2 where "http_events M (concat (List.map field_events (rq_fields rq))) ?c = Some c2"
    "acc_url c2 = acc_url ?c" "items (acc_field c2) = []" "items (acc_value c2) = []"
    using fields_events [OF M, of ?c "rq_fields rq"] c by auto
  then show ?thesis using u rq by (simp add: request_events_def http_events_append)
qed

section \<open>Data in pieces\<close>

fun http_parse :: "memory \<Rightarrow> 'p llhttp \<Rightarrow> byte list list \<Rightarrow> ('p, 'u) http_request \<Rightarrow> ('p, 'u) http_request" where
  "http_parse M ll [] c = c"
| "http_parse M ll (d # ds) c = http_parse M ll ds (snd (client_onhttpdata M ll d c))"

text \<open>Reads, with what the parser calls for each of them and its state afterwards.\<close>

fun ll_reads :: "'p llhttp \<Rightarrow> 'p \<Rightarrow> (byte list \<times> ll_event list \<times> 'p) list \<Rightarrow> bool" where
  "ll_reads ll p [] \<longleftrightarrow> True"
| "ll_reads ll p ((d, evs, p') # xs) \<longleftrightarrow> ll p d = ll_script evs HPE_OK p' \<and> ll_reads ll p' xs"

lemma parse_reads:
  "ll_reads ll (ll_state c) xs \<Longrightarrow> http_events M (concat (List.map (\<lambda>x. fst (snd x)) xs)) c = Some c1 \<Longrightarrow>
    \<exists>p. http_parse M ll (List.map fst xs) c = c1\<lparr>ll_state := p\<rparr>"
proof (induction xs arbitrary: c c1)
  case Nil
  then show ?case by (intro exI [of _ "ll_state c"]) simp
next
  case (Cons x xs)
  obtain d evs p where x: "x = (d, evs, p)" by (cases x)
  obtain c2 where c2: "http_events M evs c = Some c2" "http_events M (concat (List.map (\<lambda>x. fst (snd x)) xs)) c2 = Some c1"
    using Cons.prems(2) x by (auto simp: http_events_append split: Option.bind_splits)
  have "http_events M (concat (List.map (\<lambda>x. fst (snd x)) xs)) (c2\<lparr>ll_state := p\<rparr>) = Some (c1\<lparr>ll_state := p\<rparr>)"
    using c2(2) by (simp add: events_ll_state)
  then have "\<exists>p'. http_parse M ll (List.map fst xs) (c2\<lparr>ll_state := p\<rparr>) = (c1\<lparr>ll_state := p\<rparr>)\<lparr>ll_state := p'\<rparr>"
    using Cons.IH [of "c2\<lparr>ll_state := p\<rparr>" "c1\<lparr>ll_state := p\<rparr>"] Cons.prems(1) x by simp
  moreover have "ll (ll_state c) d = ll_script evs HPE_OK p" using Cons.prems(1) x by simp
  ultimately show ?case using x by (simp add: client_onhttpdata_def execute_script [OF c2(1)])
qed

lemma request_init_simps [simp]:
  "ll_state (request_init p) = p" "headers (request_init p) = (\<lambda>_. None)" "acc_body (request_init p) = empty_list"
  "items (acc_url (request_init p)) = []" "items (acc_field (request_init p)) = []" "items (acc_value (request_init p)) = []"
  "websocket_state (request_init p) = None" "\<not> responded (request_init p)" "\<not> req_done (request_init p)"
  by (simp_all add: request_init_def)

end
