(* ===== verification/Http_Claims.thy ===== *)
theory Http_Claims
  imports Http_Props
begin

unbundle bit_operations_syntax

text \<open>
  What \<open>src/http.zig\<close> promises of the requests of a connection, and where it does not.
\<close>

section \<open>Requests\<close>

text \<open>C11: A request that comes in over any number of reads, with its parts cut into any pieces: the headers are those sent,
  with names in lower case, the URL and the body are complete. The body has to be no longer than its
  Content-Length, of at most \<open>MAX_BODY_LEN\<close>.\<close>

theorem request_received:
  assumes "plenty M" and "body_fits rq" and "ll_reads ll p0 xs" and "concat (List.map (\<lambda>x. fst (snd x)) xs) = request_events rq"
  shows "let c = (http_parse M ll (List.map fst xs) (request_init p0) :: ('p, 'u) http_request)
     in headers c = header_map (rq_fields rq) \<and> getURL c = Some (concat (rq_url rq)) \<and> getBody c = concat (rq_body rq)"
proof -
  obtain c1 :: "('p, 'u) http_request" where c1: "http_events M (request_events rq) (request_init p0) = Some c1"
    "headers c1 = header_map (rq_fields rq)" "items (acc_url c1) = concat (rq_url rq)" "getBody c1 = concat (rq_body rq)" "req_done c1"
    using request_done [OF assms(1,2), of "request_init p0 :: ('p, 'u) http_request"] by auto
  obtain p where "http_parse M ll (List.map fst xs) (request_init p0) = c1\<lparr>ll_state := p\<rparr>"
    using parse_reads [of ll "request_init p0 :: ('p, 'u) http_request" xs M c1] assms(3,4) c1(1) by auto
  then show ?thesis using c1(2-5) by (simp add: getURL_def getBody_def)
qed

text \<open>A parser for the examples: its state is what it still calls, and what it returns.\<close>

type_synonym script = "(ll_event list \<times> ll_errno) list"

fun script_ll :: "script llhttp" where
  "script_ll [] d = LL_return HPE_OK []"
| "script_ll ((evs, e) # s) d = ll_script evs e s"

definition all_memory :: memory where
  "all_memory = \<lparr>mem_grow = (\<lambda>c n. Some n), mem_block = (\<lambda>n. True), mem_put = (\<lambda>m. True), mem_request = True, mem_user = True\<rparr>"

lemma all_memory_plenty: "plenty all_memory"
  by (simp add: plenty_def all_memory_def roomy_def)

definition post_request :: http_message where
  "post_request = \<lparr>rq_url = [[0x2F], [0x61]], rq_fields = [([bytes ''Content-'', bytes ''Length''], [[0x33]])],
     rq_body = [[1, 2], [3]]\<rparr>"

lemma bytes_simps [simp]: "bytes [] = []" "bytes (c # cs) = of_char c # bytes cs"
  by (simp_all add: bytes_def)

lemma post_request_fits: "body_fits post_request"
  by (simp add: body_fits_def post_request_def header_map_def ascii_lower_def parse_u32_def MAX_BODY_LEN_def)

theorem request_received_witness:
  "let c = (http_parse all_memory script_ll [[], []] (request_init [(take 3 (request_events post_request), HPE_OK),
       (drop 3 (request_events post_request), HPE_OK)]) :: (script, unit) http_request)
   in headers c (bytes ''content-length'') = Some [0x33] \<and> getURL c = Some [0x2F, 0x61] \<and> getBody c = [1, 2, 3]"
proof -
  have "header_map (rq_fields post_request) (bytes ''content-length'') = Some [0x33]"
    by (simp add: post_request_def header_map_def ascii_lower_def)
  then show ?thesis
    using request_received [OF all_memory_plenty post_request_fits, of script_ll
      "[(take 3 (request_events post_request), HPE_OK), (drop 3 (request_events post_request), HPE_OK)]"
      "[([], take 3 (request_events post_request), [(drop 3 (request_events post_request), HPE_OK)]),
        ([], drop 3 (request_events post_request), [])]", where 'u = unit]
    by (simp add: Let_def post_request_def del: bytes_simps)
qed

text \<open>C16: Whatever the parser calls and whatever the memory gives, a body is never longer than the block allocated for
  it, and that was allocated for at most \<open>MAX_BODY_LEN\<close> bytes.\<close>

lemma execute_inv:
  assumes "\<And>ev c. P c \<Longrightarrow> P (snd (http_callback M ev c))" and "\<And>p c. P c \<Longrightarrow> P (c\<lparr>ll_state := p\<rparr>)" and "P c"
  shows "P (snd (llhttp_execute M r c))"
  using assms(3)
proof (induction r arbitrary: c)
  case (LL_return e p)
  then show ?case using assms(2) by simp
next
  case (LL_call ev k)
  then show ?case using assms(1) by (simp add: split_beta)
qed

definition body_ok :: "memory \<Rightarrow> ('p, 'u) http_request \<Rightarrow> bool" where
  "body_ok M c \<longleftrightarrow> length (getBody c) \<le> capacity (acc_body c)
     \<and> (capacity (acc_body c) = 0 \<or> (\<exists>n. n \<le> MAX_BODY_LEN \<and> mem_grow M 0 n = Some (capacity (acc_body c))))"

lemma body_list_ok:
  assumes "length (items a) \<le> capacity a" and "capacity a = 0 \<or> (\<exists>n. n \<le> MAX_BODY_LEN \<and> mem_grow M 0 n = Some (capacity a))"
    and "body_list M cl data a = (r, a1)"
  shows "length (items a1) \<le> capacity a1 \<and> (capacity a1 = 0 \<or> (\<exists>n. n \<le> MAX_BODY_LEN \<and> mem_grow M 0 n = Some (capacity a1)))"
proof (cases "body_room M cl a")
  case None
  then show ?thesis using assms by (simp add: body_list_def)
next
  case (Some a2)
  have "length (items a2) \<le> capacity a2 \<and> (capacity a2 = 0 \<or> (\<exists>n. n \<le> MAX_BODY_LEN \<and> mem_grow M 0 n = Some (capacity a2)))"
    using Some assms(1,2) by (cases cl) (auto simp: body_room_def ensure_capacity_def split: if_splits Option.bind_splits)
  then show ?thesis using Some assms(3) by (auto simp: body_list_def split: if_splits)
qed

lemma callback_body_ok:
  assumes "body_ok M c"
  shows "body_ok M (snd (http_callback M ev c))"
proof (cases ev)
  case (On_body data)
  obtain r a where "body_list M (headers c (bytes ''content-length'')) data (acc_body c) = (r, a)" by fastforce
  then show ?thesis using On_body assms body_list_ok [of "acc_body c" M] by (simp add: body_ok_def getBody_def on_body_list)
qed (use assms in \<open>simp_all add: body_ok_def getBody_def http_on_header_value_complete_def split_beta Let_def\<close>)

lemma parse_body_ok: "body_ok M c \<Longrightarrow> body_ok M (http_parse M ll ds c)"
proof (induction ds arbitrary: c)
  case (Cons d ds)
  have "body_ok M (snd (llhttp_execute M (ll (ll_state c) d) c))"
    using execute_inv [of "body_ok M" M, OF callback_body_ok] Cons.prems by (simp add: body_ok_def getBody_def)
  then show ?case using Cons.IH by (simp add: client_onhttpdata_def split_beta Let_def)
qed simp

theorem body_bounded:
  "let c = (http_parse M ll ds (request_init p0) :: ('p, 'u) http_request); n = capacity (acc_body c)
   in length (getBody c) \<le> n \<and> (n = 0 \<or> (\<exists>m. m \<le> MAX_BODY_LEN \<and> mem_grow M 0 m = Some n))"
  using parse_body_ok [of M "request_init p0 :: ('p, 'u) http_request" ll ds]
  by (simp add: body_ok_def getBody_def Let_def)

section \<open>The key of the handshake\<close>

lemma length_sha1 [simp]: "length (sha1 bs) = 20"
  by (simp add: sha1_def Let_def split_beta)

lemma length_b64: "length (b64 bs) = 4 * ((length bs + 2) div 3)"
  by (induction bs rule: b64.induct) (simp_all, presburger)

lemma length_ws_guid [simp]: "length ws_guid = 36"
  by (simp add: ws_guid_def bytes_def)

text \<open>A key of up to 28 bytes has an answer, of 28 characters, which fits in the buffer of 30; a longer one is an error.\<close>

lemma accept_key_length:
  "case get_b64_accept_key key of None \<Rightarrow> 28 < length key | Some b \<Rightarrow> length key \<le> 28 \<and> length b = 28"
  by (simp add: get_b64_accept_key_def get_sha1_accept_key_def length_b64)

section \<open>A second request\<close>

lemma length_fmt_dec: "n < 10 ^ k \<Longrightarrow> 0 < k \<Longrightarrow> length (fmt_dec n) \<le> k"
proof (induction n arbitrary: k rule: fmt_dec.induct)
  case (1 n)
  show ?case
  proof (cases "n < 10")
    case True
    then show ?thesis using 1 by (simp add: fmt_dec.simps [of n])
  next
    case False
    then obtain j where k: "k = Suc j" "0 < j" using 1(2,3) by (cases k; cases "k = 1") auto
    then have "n div 10 < 10 ^ j" using 1(2) by (simp add: less_mult_imp_div_less mult.commute)
    then show ?thesis using 1(1) [OF False, of j] k False by (simp add: fmt_dec.simps [of n])
  qed
qed

text \<open>An application that answers every request.\<close>

definition answering :: "'w net_client \<Rightarrow> byte list \<Rightarrow> ('p, unit, 'w) application" where
  "answering C body = \<lparr>app_init = (\<lambda>c w. Some ((), w)), app_deinit = (\<lambda>u w. Some w),
     onRequest = Some (\<lambda>u c w. do { (c1, w1) \<leftarrow> response C 200 body False c w; Some (False, c1, w1) }),
     onUpradeToWebSocket = None, onMessage = None, onUpgradedToWebSocket = None, onDisconnect = None\<rparr>"

lemma wire_response:
  assumes "\<not> responded c" and "length body < 2 ^ 64"
  shows "response wire_client 200 body False c w = Some (c\<lparr>responded := True\<rparr>, w @ response_head 200 (length body) @ body)"
proof -
  have "length (fmt_dec (length body)) \<le> 20" using assms(2) by (intro length_fmt_dec) simp_all
  moreover have "length (fmt_dec 200) \<le> 3" by (intro length_fmt_dec) simp_all
  ultimately have "\<not> 256 < length (response_head 200 (length body))" by (simp add: response_head_def reason_def bytes_def)
  then show ?thesis using assms(1) by (simp add: response_def wire_client_def)
qed

text \<open>C18: Two requests on a connection, to an application that answers every request: the first is answered, the second is
  not, because the flags of the first one are never reset. Its URL is the two of them one after the other.\<close>

theorem second_request_unanswered:
  assumes "plenty M" and "mem_user M" and "rq_body rq1 = []" and "rq_body rq2 = []" and "length body < 2 ^ 64"
    and "ll p0 d1 = ll_script (request_events rq1) HPE_OK p1" and "ll p1 d2 = ll_script (request_events rq2) HPE_OK p2"
  shows "\<exists>c1 c2. http_ondata M ll (answering wire_client body) wire_client d1 (Some (request_init (p0 :: 'p)), [])
       = Some (False, Some c1, response_head 200 (length body) @ body)
     \<and> http_ondata M ll (answering wire_client body) wire_client d2 (Some c1, response_head 200 (length body) @ body)
       = Some (False, Some c2, response_head 200 (length body) @ body)
     \<and> getURL c2 = Some (concat (rq_url rq1) @ concat (rq_url rq2))"
proof -
  let ?c0 = "request_init p0 :: ('p, unit) http_request" and ?A = "answering wire_client body :: ('p, unit, byte list) application"
  let ?out = "response_head 200 (length body) @ body"
  have app: "app_init ?A c w = Some ((), w)" "onRequest ?A = Some (\<lambda>u c w. do { (c1, w1) \<leftarrow> response wire_client 200 body False c w; Some (False, c1, w1) })"
    for c w by (simp_all add: answering_def)
  obtain e1 where e1: "http_events M (request_events rq1) ?c0 = Some e1" "req_done e1" "items (acc_field e1) = []" "items (acc_value e1) = []"
    "items (acc_url e1) = concat (rq_url rq1)" using bodyless_done [OF assms(1,3), of ?c0] by auto
  have s1: "\<not> responded e1" "websocket_state e1 = None" using events_same [OF e1(1)] by simp_all
  let ?c1 = "e1\<lparr>ll_state := p1, user_ctx := Some (), responded := True\<rparr>"
  have "http_ondata M ll ?A wire_client d1 (Some ?c0, []) = Some (False, Some ?c1, ?out)"
    using assms(2,6) e1(2) s1 app
    by (simp add: http_ondata_def client_onhttpdata_def execute_script [OF e1(1)] http_parsed_def start_user_def wire_response [OF _ assms(5)])
  moreover obtain e2 where e2: "http_events M (request_events rq2) ?c1 = Some e2" "req_done e2"
    "items (acc_url e2) = concat (rq_url rq1) @ concat (rq_url rq2)" using bodyless_done [OF assms(1,4), of ?c1] e1(3-5) by auto
  have s2: "responded e2" using events_same [OF e2(1)] by simp
  have "http_ondata M ll ?A wire_client d2 (Some ?c1, ?out) = Some (False, Some (e2\<lparr>ll_state := p2, user_ctx := Some ()\<rparr>), ?out)"
    using assms(2,7) e2(2) s1(2) s2 app
    by (simp add: http_ondata_def client_onhttpdata_def execute_script [OF e2(1)] http_parsed_def start_user_def response_def)
  ultimately show ?thesis using e2(2,3) by (auto simp: getURL_def)
qed

definition get_request :: "byte \<Rightarrow> http_message" where
  "get_request b = \<lparr>rq_url = [[0x2F, b]], rq_fields = [], rq_body = []\<rparr>"

theorem second_request_unanswered_witness:
  "\<exists>c1 c2. http_ondata all_memory script_ll (answering wire_client [7]) wire_client [1]
       (Some (request_init [(request_events (get_request 1), HPE_OK), (request_events (get_request 2), HPE_OK)]), [])
       = Some (False, Some c1, response_head 200 1 @ [7])
     \<and> http_ondata all_memory script_ll (answering wire_client [7]) wire_client [2] (Some c1, response_head 200 1 @ [7])
       = Some (False, Some c2, response_head 200 1 @ [7])
     \<and> getURL c2 = Some [0x2F, 1, 0x2F, 2]"
proof -
  have m: "mem_user all_memory" by (simp add: all_memory_def)
  have rq: "rq_body (get_request b) = []" "rq_url (get_request b) = [[0x2F, b]]" for b by (simp_all add: get_request_def)
  have n: "length [7 :: byte] < 2 ^ 64" "length [7 :: byte] = 1" by simp_all
  show ?thesis
    using second_request_unanswered [OF all_memory_plenty m rq(1) rq(1) n(1), of script_ll
        "[(request_events (get_request 1), HPE_OK), (request_events (get_request 2), HPE_OK)]" "[1]" 1
        "[(request_events (get_request 2), HPE_OK)]" "[2]" 2 "[]"]
    by (simp add: rq n(2))
qed

end
