(* ===== verification/Websocket_Net.thy ===== *)
theory Websocket_Net
  imports Http_Claims Shutdown_Props
begin

unbundle bit_operations_syntax

text \<open>
  The WebSocket server of \<open>src/main.zig\<close> on a connection of the library: the Zig interface of a
  client (\<open>pkg/libapenetwork/main.zig\<close>), the parser over it, and the echo of every message, with reads,
  write events and the progress of the kernel in any order.
\<close>

section \<open>The client in Zig\<close>

fun data_kind :: "data_lifetime \<Rightarrow> ape_socket_data_autorelease" where
  "data_kind Static = APE_DATA_STATIC" | "data_kind Own = APE_DATA_OWN" | "data_kind Copy = APE_DATA_COPY"

text \<open>The data is a block of the caller; one that is copied is given back by the caller, one that is owned by the
  library, and static data never.\<close>

definition Client_write :: "('b, 'k) env \<Rightarrow> ptr \<Rightarrow> byte list \<Rightarrow> data_lifetime \<Rightarrow> ('b, 'k) ape_net \<Rightarrow> ('b, 'k) ape_net option" where
  "Client_write E p bs lt w = (let (d, w1) = malloc_data bs w in do {
     (r, w2) \<leftarrow> APE_socket_write E p d (length bs) (data_kind lt) w1;
     if lt = Copy then free_data d w2 else Some w2 })"

text \<open>\<open>tcpBufferStart\<close> and \<open>tcpBufferEnd\<close>; an error is ignored.\<close>

definition Client_tcpBuffer :: "('b, 'k) env \<Rightarrow> ptr \<Rightarrow> bool \<Rightarrow> ('b, 'k) ape_net \<Rightarrow> ('b, 'k) ape_net option" where
  "Client_tcpBuffer E p on w = do {
     s \<leftarrow> sock p w;
     let (r, k) = sys_setsockopt (nsys E) (sk_fd s) TCP_CORK (if on then 1 else 0) (kernel w);
     Some (w\<lparr>kernel := k\<rparr>) }"

definition Client_close :: "('b, 'k) env \<Rightarrow> ptr \<Rightarrow> shutdown_action \<Rightarrow> ('b, 'k) ape_net \<Rightarrow> ('b, 'k) ape_net option" where
  "Client_close E p action w = (case action of Now \<Rightarrow> APE_socket_shutdown_now E p w | Queue \<Rightarrow> APE_socket_shutdown E p w)"

definition zig_client :: "('b, 'k) env \<Rightarrow> ptr \<Rightarrow> ('b, 'k) ape_net net_client" where
  "zig_client E p = \<lparr>nc_write = Client_write E p, nc_cork = Client_tcpBuffer E p, nc_close = Client_close E p\<rparr>"

section \<open>The application\<close>

text \<open>It sends every message back, takes every upgrade, and does not answer requests.\<close>

definition onWebSocketMessage :: "'w net_client \<Rightarrow> bool \<Rightarrow> byte list \<Rightarrow> 'w \<Rightarrow> (bool \<times> bool \<times> 'w) option" where
  "onWebSocketMessage C c message w = do { w1 \<leftarrow> ws_write C Server_end c message Op_text Copy w; Some (False, c, w1) }"

definition HttpRequestHandler :: "'w net_client \<Rightarrow> ('p, unit, 'w) application" where
  "HttpRequestHandler C = \<lparr>app_init = (\<lambda>c w. Some ((), w)), app_deinit = (\<lambda>u w. Some w), onRequest = Some (\<lambda>u c w. Some (False, c, w)),
     onUpradeToWebSocket = Some (\<lambda>u c w. Some (False, c, w)), onMessage = Some (\<lambda>u. onWebSocketMessage C),
     onUpgradedToWebSocket = None, onDisconnect = Some (\<lambda>u w. Some w)\<rparr>"

definition echo_env :: "memory \<Rightarrow> ('b, 'k) env \<Rightarrow> ptr \<Rightarrow> ('b, 'k) ape_net ws_env" where
  "echo_env M E p = request_ws_env M (Some (\<lambda>u. onWebSocketMessage (zig_client E p))) (zig_client E p) (Some ())"

text \<open>Data comes in, the kernel goes on, the descriptor can be written to.\<close>

datatype 'k ws_action = Incoming "byte list" | Passing "'k \<Rightarrow> 'k" | Can_write

fun ws_run :: "memory \<Rightarrow> ('b, 'k) env \<Rightarrow> ptr \<Rightarrow> 'k ws_action list \<Rightarrow> ws_state \<times> ('b, 'k) ape_net
    \<Rightarrow> (ws_state \<times> ('b, 'k) ape_net) option" where
  "ws_run M E p [] x = Some x"
| "ws_run M E p (Incoming bs # as) x = do { x1 \<leftarrow> process_data (echo_env M E p) bs x; ws_run M E p as x1 }"
| "ws_run M E p (Passing f # as) (s, w) = ws_run M E p as (s, on_kernel f w)"
| "ws_run M E p (Can_write # as) (s, w) = do { w1 \<leftarrow> socket_event E p EVENT_WRITE w; ws_run M E p as (s, w1) }"

definition incoming :: "'k ws_action list \<Rightarrow> byte list" where
  "incoming as = concat (map (\<lambda>a. case a of Incoming bs \<Rightarrow> bs | _ \<Rightarrow> []) as)"

lemma ws_run_append: "ws_run M E p (as @ bs) x = do { x1 \<leftarrow> ws_run M E p as x; ws_run M E p bs x1 }"
proof (induction as arbitrary: x)
  case (Cons a as)
  then show ?case by (cases a; cases x) (auto split: Option.bind_splits)
qed simp

lemma incoming_simps [simp]:
  "incoming [] = []" "incoming (Incoming bs # as) = bs @ incoming as" "incoming (Passing f # as) = incoming as"
  "incoming (Can_write # as) = incoming as"
  by (simp_all add: incoming_def)

section \<open>What is sent\<close>

text \<open>The answer to a message, and to all of them up to the one that closes.\<close>

definition ws_answer :: "byte \<Rightarrow> byte list \<Rightarrow> byte list" where
  "ws_answer h data = (case op_of (h AND 0x0f) of
       Op_close \<Rightarrow> [] | Op_pong \<Rightarrow> [] | Op_unknown b \<Rightarrow> []
     | Op_ping \<Rightarrow> ws_head Server_end Op_pong (length data) @ data
     | _ \<Rightarrow> ws_head Server_end Op_text (length data) @ data)"

definition is_close :: "byte \<times> byte list \<Rightarrow> bool" where
  "is_close m \<longleftrightarrow> op_of (fst m AND 0x0f) = Op_close"

definition ws_answers :: "(byte \<times> byte list) list \<Rightarrow> byte list" where
  "ws_answers ms = concat (map (\<lambda>(h, data). ws_answer h data) (takeWhile (Not \<circ> is_close) ms))"

lemma ws_answers_append: "ws_answers (ms @ ms') = ws_answers ms @ (if list_ex is_close ms then [] else ws_answers ms')"
  by (induction ms) (auto simp: ws_answers_def)

text \<open>The connection: with the client open, or closed and being shut down.\<close>

definition served :: "('k \<Rightarrow> int \<Rightarrow> byte list) \<Rightarrow> ptr \<Rightarrow> int \<Rightarrow> bool \<Rightarrow> byte list \<Rightarrow> ('b, 'k) ape_net \<Rightarrow> bool" where
  "served out p fd c whole w \<longleftrightarrow>
     (if c then closing out p fd whole w
      else \<exists>ps xs ts. queued p w fd ps \<and> waits p w ps \<and> tinv w xs ts \<and> out (kernel w) fd @ bytes_of ps = whole)"

lemma write_pieces_one [simp]: "write_pieces C [(bs, lt)] w = nc_write C bs lt w"
  by (cases "nc_write C bs lt w") simp_all

text \<open>A result that is there, unless the kernel is one on which the loop that writes at once can fault.\<close>

definition fine :: "'k net_sys \<Rightarrow> int \<Rightarrow> 'a option \<Rightarrow> bool" where
  "fine S fd X \<longleftrightarrow> X \<noteq> None \<or> (\<forall>bs k. \<not> overreads S fd bs 0 k)"

lemma fine_part: "fine S fd X \<Longrightarrow> (Y = None \<Longrightarrow> X = None) \<Longrightarrow> fine S fd Y"
  by (auto simp: fine_def)

lemma fine_bind:
  assumes "fine S fd (do { x \<leftarrow> X; f x })"
  shows "fine S fd X" and "X = Some x \<Longrightarrow> fine S fd (f x)"
  using assms by (auto simp: fine_def)

text \<open>A kernel on which setting \<open>TCP_CORK\<close> sends nothing that was not handed over.\<close>

locale corked_kernel = closing_kernel +
  assumes cork: "out (snd (sys_setsockopt S fd TCP_CORK v k)) = out k"
begin

lemma served_step:
  assumes E: "nsys E = S" and quiet: "\<forall>f a w. on_event E (Drain f p a) w = Some w" and s: "served out p fd False whole w"
    and a: "\<forall>f k. a = Progress f \<longrightarrow> out (f k) = out k" and fn: "fine S fd (io_step E p a w)"
  shows "\<exists>w'. io_step E p a w = Some w' \<and> served out p fd False (whole @ written [a]) w'"
proof -
  obtain ps xs ts where q: "queued p w fd ps" "waits p w ps" "tinv w xs ts" "out (kernel w) fd @ bytes_of ps = whole"
    using s unfolding served_def by auto
  have pr: "\<forall>f. a = Progress f \<longrightarrow> (\<forall>k. out (f k) = out k)" using a by blast
  obtain w' ps' sent where w': "io_step E p a w = Some w'" "queued p w' fd ps'" "timers_of w' = timers_of w" "waits p w' ps'"
    "out (kernel w') fd = out (kernel w) fd @ sent" "sent @ bytes_of ps' = bytes_of ps @ written [a]"
    using sender.step_spec [OF plain_sender [OF E quiet, of fd "timers_of w" True], of w ps a] q pr fn unfolding fine_def by blast
  have "tinv w' xs ts" using q(3) tinv_timers_of [OF w'(3)] by simp
  moreover have "out (kernel w') fd @ bytes_of ps' = whole @ written [a]" using w'(5,6) q(4) by (metis append_assoc)
  ultimately show ?thesis using w'(1,2,4) unfolding served_def by auto
qed

lemma served_cork:
  assumes E: "nsys E = S" and s: "served out p fd False whole w"
  shows "\<exists>w'. Client_tcpBuffer E p b w = Some w' \<and> served out p fd False whole w'"
proof -
  define k where "k = snd (sys_setsockopt S fd TCP_CORK (if b then 1 else 0) (kernel w))"
  let ?w = "w\<lparr>kernel := k\<rparr>"
  obtain ps xs ts where q: "queued p w fd ps" "waits p w ps" "tinv w xs ts" "out (kernel w) fd @ bytes_of ps = whole"
    using s unfolding served_def by auto
  obtain s where "sock p w = Some s" "sk_fd s = fd" using q(1) unfolding queued_def conn_def by blast
  then have run: "Client_tcpBuffer E p b w = Some ?w" using E by (simp add: Client_tcpBuffer_def k_def split_beta Let_def)
  have "tinv ?w xs ts" using q(3) by (simp add: tinv_timers_of [of ?w w])
  moreover have "out k = out (kernel w)" by (simp add: k_def cork)
  ultimately have "served out p fd False whole ?w" using q unfolding served_def by auto
  then show ?thesis using run by blast
qed

lemma served_write:
  assumes E: "nsys E = S" and quiet: "\<forall>f a w. on_event E (Drain f p a) w = Some w" and s: "served out p fd False whole w"
    and fn: "fine S fd (Client_write E p bs Copy w)"
  shows "\<exists>w'. Client_write E p bs Copy w = Some w' \<and> served out p fd False (whole @ bs) w'"
  using served_step [OF E quiet s, of "Write bs"] fn by (simp add: Client_write_def)

lemma served_frame:
  assumes E: "nsys E = S" and quiet: "\<forall>f a w. on_event E (Drain f p a) w = Some w" and s: "served out p fd False whole w"
    and n: "length data < 2 ^ 64" and fn: "fine S fd (ws_write (zig_client E p) ty False data opcode Copy w)"
  shows "\<exists>w'. ws_write (zig_client E p) ty False data opcode Copy w = Some w'
     \<and> served out p fd False (whole @ ws_head ty opcode (length data) @ data) w'"
proof -
  note wr = served_write [OF E quiet] and ck = served_cork [OF E, of p fd]
  let ?hd = "if length data \<le> 0xFFFFFFFF then ws_head ty opcode (length data) else []"
  let ?head = "\<lambda>w. if length data \<le> 0xFFFFFFFF then Client_write E p (ws_head ty opcode (length data)) Copy w else Some w"
  let ?body = "\<lambda>w. if length data \<noteq> 0 then Client_write E p data Copy w else Some w"
  have eq: "ws_write (zig_client E p) ty False data opcode Copy w = do {
      w1 \<leftarrow> Client_tcpBuffer E p True w; w2 \<leftarrow> ?head w1; w3 \<leftarrow> ?body w2; Client_tcpBuffer E p False w3 }"
    using n by (cases "data = []"; cases "length data \<le> 0xFFFFFFFF")
      (simp_all add: ws_write_def ws_writev_def zig_client_def Let_def del: write_pieces.simps)
  obtain w1 where w1: "Client_tcpBuffer E p True w = Some w1" "served out p fd False whole w1" using ck [OF s] by blast
  have f1: "fine S fd (do { w2 \<leftarrow> ?head w1; w3 \<leftarrow> ?body w2; Client_tcpBuffer E p False w3 })"
    using fine_bind(2) [OF fn [unfolded eq] w1(1)] .
  obtain w2 where w2: "?head w1 = Some w2" "served out p fd False (whole @ ?hd) w2"
    using wr [OF w1(2)] w1(2) fine_bind(1) [OF f1] by (cases "length data \<le> 0xFFFFFFFF") auto
  note f2 = fine_bind(2) [OF f1 w2(1)]
  obtain w3 where w3: "?body w2 = Some w3" "served out p fd False ((whole @ ?hd) @ data) w3"
    using wr [OF w2(2), of data] w2(2) fine_bind(1) [OF f2] by (cases "length data \<noteq> 0") auto
  obtain w4 where w4: "Client_tcpBuffer E p False w3 = Some w4" "served out p fd False ((whole @ ?hd) @ data) w4" using ck [OF w3(2)] by blast
  have "?hd = ws_head ty opcode (length data)" by (simp add: ws_head_def Let_def)
  then show ?thesis using eq w1(1) w2(1) w3(1) w4 by (intro exI [of _ w4]) simp
qed

lemma served_close:
  assumes E: "nsys E = S" and s: "served out p fd False whole w"
  shows "\<exists>w'. ws_close (zig_client E p) ty False w = Some (True, w') \<and> served out p fd True whole w'"
proof -
  obtain ps xs ts where q: "queued p w fd ps" "waits p w ps" "tinv w xs ts" "out (kernel w) fd @ bytes_of ps = whole"
    using s unfolding served_def by auto
  then show ?thesis using shutdown_closing [OF E q(1-3)]
    by (auto simp: ws_close_def ws_write_def ws_writev_def zig_client_def Client_close_def served_def)
qed

lemma served_handle:
  assumes E: "nsys E = S" and quiet: "\<forall>f a w. on_event E (Drain f p a) w = Some w" and s: "served out p fd c whole w"
    and n: "length data < 2 ^ 64" and fn: "fine S fd (ws_handle (echo_env M E p) h data (c, w))"
  shows "\<exists>w'. ws_handle (echo_env M E p) h data (c, w) = Some (c \<or> is_close (h, data), w')
     \<and> served out p fd (c \<or> is_close (h, data)) (whole @ (if c then [] else ws_answer h data)) w'"
proof (cases c)
  case True
  then show ?thesis using s
    by (intro exI [of _ w]; cases "op_of (h AND 0x0f)") (simp_all add: ws_handle_def echo_env_def request_ws_env_def ws_close_def ws_pong_def
        onwsmessage_def onWebSocketMessage_def ws_write_def ws_writev_def)
next
  case False
  then have s: "served out p fd False whole w" using s by simp
  note h = ws_handle_def echo_env_def request_ws_env_def ws_pong_def onwsmessage_def onWebSocketMessage_def ws_answer_def is_close_def
  let ?W = "\<lambda>op. ws_write (zig_client E p) Server_end False data op Copy w"
  note fr = served_frame [OF E quiet s n fine_part [OF fn]]
  have "\<exists>w'. ?W Op_text = Some w' \<and> served out p fd False (whole @ ws_head Server_end Op_text (length data) @ data) w'"
    if "op_of (h AND 0x0f) \<in> {Op_text, Op_binary, Op_continuation}" by (rule fr) (use that False in \<open>auto simp: h\<close>)
  moreover have "\<exists>w'. ?W Op_pong = Some w' \<and> served out p fd False (whole @ ws_head Server_end Op_pong (length data) @ data) w'"
    if "op_of (h AND 0x0f) = Op_ping" by (rule fr) (use that False in \<open>auto simp: h\<close>)
  ultimately show ?thesis using False served_close [OF E s, of Server_end] s
    by (cases "op_of (h AND 0x0f)") (auto simp: h)
qed

lemma served_handle_all:
  assumes E: "nsys E = S" and quiet: "\<forall>f a w. on_event E (Drain f p a) w = Some w"
  shows "served out p fd c whole w \<Longrightarrow> \<forall>(h, data) \<in> set ms. length data < 2 ^ 64 \<Longrightarrow>
    fine S fd (ws_handle_all (echo_env M E p) ms (c, w)) \<Longrightarrow>
    \<exists>w'. ws_handle_all (echo_env M E p) ms (c, w) = Some (c \<or> list_ex is_close ms, w')
     \<and> served out p fd (c \<or> list_ex is_close ms) (whole @ (if c then [] else ws_answers ms)) w'"
proof (induction ms arbitrary: c whole w)
  case Nil
  then show ?case by (cases c) (simp_all add: ws_answers_def)
next
  case (Cons m ms)
  obtain h data where m: "m = (h, data)" by (cases m)
  have n: "length data < 2 ^ 64" "\<forall>(h, data) \<in> set ms. length data < 2 ^ 64" using Cons.prems(2) m by auto
  have fn: "fine S fd (do { x1 \<leftarrow> ws_handle (echo_env M E p) h data (c, w); ws_handle_all (echo_env M E p) ms x1 })"
    using Cons.prems(3) m by simp
  obtain w1 where w1: "ws_handle (echo_env M E p) h data (c, w) = Some (c \<or> is_close m, w1)"
    "served out p fd (c \<or> is_close m) (whole @ (if c then [] else ws_answer h data)) w1"
    using served_handle [OF E quiet Cons.prems(1) n(1)] fine_bind(1) [OF fn] m by blast
  have f1: "fine S fd (ws_handle_all (echo_env M E p) ms (c \<or> is_close m, w1))" by (rule fine_bind(2) [OF fn w1(1)])
  have "(if c then [] else ws_answer h data) @ (if c \<or> is_close m then [] else ws_answers ms) = (if c then [] else ws_answers (m # ms))"
    by (auto simp: ws_answers_def m is_close_def ws_answer_def)
  then show ?case using Cons.IH [OF w1(2) n(2) f1] w1(1) m by (auto simp: disj_assoc)
qed

lemma served_passing:
  assumes "served out p fd c whole w" and "\<forall>k. out (f k) = out k"
  shows "served out p fd c whole (on_kernel f w)"
  using assms unfolding served_def closing_def on_kernel_def
  by (auto simp: tinv_timers_of [of "w\<lparr>kernel := f (kernel w)\<rparr>" w] split: if_splits)

lemma served_event:
  assumes E: "nsys E = S" and quiet: "\<forall>f a w. on_event E (Drain f p a) w = Some w" and s: "served out p fd c whole w"
  shows "\<exists>w'. socket_event E p EVENT_WRITE w = Some w' \<and> served out p fd c whole w'
     \<and> (length whole \<le> length (out (kernel w) fd) + room (kernel w) fd \<longrightarrow> out (kernel w') fd = whole \<and> (c \<longrightarrow> ended p w'))"
proof (cases c)
  case True
  then show ?thesis using closing_event [OF E, of p fd whole w] s unfolding served_def by auto
next
  case False
  then obtain ps xs ts where q: "queued p w fd ps" "waits p w ps" "tinv w xs ts" "out (kernel w) fd @ bytes_of ps = whole"
    using s unfolding served_def by auto
  obtain w' ps' sent where w': "socket_event E p EVENT_WRITE w = Some w'" "queued p w' fd ps'"
     "out (kernel w') = (out (kernel w))(fd := out (kernel w) fd @ sent)" "sent @ bytes_of ps' = bytes_of ps"
     "length (bytes_of ps) \<le> room (kernel w) fd \<longrightarrow> ps' = []" "timers_of w' = timers_of w" "waits p w' ps'"
    using writable_spec [OF E quiet q(1)] by blast
  have o: "out (kernel w') fd @ bytes_of ps' = whole" using w'(3,4) q(4) by (simp add: append_assoc [symmetric] del: append_assoc) simp
  have "tinv w' xs ts" using q(3) tinv_timers_of [OF w'(6)] by simp
  then have "served out p fd False whole w'" using w'(2,7) o unfolding served_def by auto
  moreover have "out (kernel w') fd = whole" if "length whole \<le> length (out (kernel w) fd) + room (kernel w) fd"
  proof -
    have "length (bytes_of ps) \<le> room (kernel w) fd" using that q(4) by auto
    then show ?thesis using w'(5) o by (simp add: bytes_of_def)
  qed
  ultimately show ?thesis using w'(1) False by (intro exI [of _ w']) simp
qed

lemma ws_run_served:
  assumes E: "nsys E = S" and quiet: "\<forall>f a w. on_event E (Drain f p a) w = Some w" and g: "roomy (mem_grow M)"
  shows "ws_inv s \<Longrightarrow> served out p fd (closed s) whole w \<Longrightarrow> \<forall>f k. Passing f \<in> set as \<longrightarrow> out (f k) = out k \<Longrightarrow>
    fine S fd (ws_run M E p as (s, w)) \<Longrightarrow>
    \<exists>s1 ms c w'. ws_run M E p as (s, w) = Some (s1\<lparr>closed := c\<rparr>, w') \<and> ws_parse_all (mem_grow M) (incoming as) s = Some (s1, ms)
     \<and> c = (closed s \<or> list_ex is_close ms) \<and> served out p fd c (whole @ (if closed s then [] else ws_answers ms)) w'"
proof (induction as arbitrary: s w whole)
  case Nil
  then show ?case by (intro exI [of _ s] exI [of _ "[]"] exI [of _ "closed s"] exI [of _ w], cases "closed s")
      (simp_all add: ws_answers_def)
next
  case (Cons a as)
  have pr: "\<forall>f k. Passing f \<in> set as \<longrightarrow> out (f k) = out k" using Cons.prems(3) by simp
  show ?case
  proof (cases a)
    case (Incoming bs)
    have pv: "frame_prevheader s = 0" using Cons.prems(1) by (simp add: ws_inv_def)
    obtain s1 ms where s1: "ws_parse_all (mem_grow M) bs s = Some (s1, ms)" "ws_inv s1" "\<forall>(h, data) \<in> set ms. length data < 2 ^ 64"
      using parse_all_inv [OF g Cons.prems(1)] by blast
    let ?c = "closed s \<or> list_ex is_close ms"
    have eg: "ws_grow (echo_env M E p) = mem_grow M" by (simp add: echo_env_def request_ws_env_def)
    have pd: "process_data (echo_env M E p) bs (s, w) = do {
        (c, w1) \<leftarrow> ws_handle_all (echo_env M E p) ms (closed s, w); Some (s1\<lparr>closed := c\<rparr>, w1) }"
      using process_data_parse [OF pv, of "echo_env M E p" bs w] s1(1) by (simp add: eg)
    have fn: "fine S fd (do { x1 \<leftarrow> process_data (echo_env M E p) bs (s, w); ws_run M E p as x1 })"
      using Cons.prems(4) Incoming by simp
    have "fine S fd (ws_handle_all (echo_env M E p) ms (closed s, w))"
      by (rule fine_part [OF fine_bind(1) [OF fn]]) (simp add: pd)
    then obtain w1 where w1: "ws_handle_all (echo_env M E p) ms (closed s, w) = Some (?c, w1)"
      "served out p fd ?c (whole @ (if closed s then [] else ws_answers ms)) w1"
      using served_handle_all [OF E quiet Cons.prems(2) s1(3)] by blast
    have run: "process_data (echo_env M E p) bs (s, w) = Some (s1\<lparr>closed := ?c\<rparr>, w1)" using pd w1(1) by simp
    have i: "ws_inv (s1\<lparr>closed := ?c\<rparr>)" using s1(2) by (simp add: ws_inv_def)
    have sv: "served out p fd (closed (s1\<lparr>closed := ?c\<rparr>)) (whole @ (if closed s then [] else ws_answers ms)) w1" using w1(2) by simp
    obtain s2 ms2 c w2 where s2: "ws_run M E p as (s1\<lparr>closed := ?c\<rparr>, w1) = Some (s2\<lparr>closed := c\<rparr>, w2)"
      "ws_parse_all (mem_grow M) (incoming as) (s1\<lparr>closed := ?c\<rparr>) = Some (s2, ms2)" "c = (?c \<or> list_ex is_close ms2)"
      "served out p fd c ((whole @ (if closed s then [] else ws_answers ms)) @ (if ?c then [] else ws_answers ms2)) w2"
      using Cons.IH [OF i sv pr fine_bind(2) [OF fn run]] by auto
    obtain s3 where s3: "ws_parse_all (mem_grow M) (incoming as) s1 = Some (s3, ms2)" "s2 = s3\<lparr>closed := ?c\<rparr>"
      using s2(2) by (auto simp: ws_parse_all_closed)
    have "s2\<lparr>closed := c\<rparr> = s3\<lparr>closed := c\<rparr>" using s3(2) by simp
    moreover have "(if closed s then [] else ws_answers ms) @ (if ?c then [] else ws_answers ms2)
      = (if closed s then [] else ws_answers (ms @ ms2))" by (auto simp: ws_answers_append)
    ultimately show ?thesis using Incoming run s1(1) s2(1,3,4) s3(1)
      by (intro exI [of _ s3] exI [of _ "ms @ ms2"] exI [of _ c] exI [of _ w2]) (auto simp: ws_parse_append)
  next
    case (Passing f)
    have "served out p fd (closed s) whole (on_kernel f w)" by (rule served_passing [OF Cons.prems(2)]) (use Cons.prems(3) Passing in auto)
    from Cons.IH [OF Cons.prems(1) this pr] show ?thesis using Cons.prems(4) Passing by simp
  next
    case Can_write
    obtain w1 where w1: "socket_event E p EVENT_WRITE w = Some w1" "served out p fd (closed s) whole w1"
      using served_event [OF E quiet Cons.prems(2)] by blast
    from Cons.IH [OF Cons.prems(1) w1(2) pr] show ?thesis using Cons.prems(4) Can_write w1(1) by simp
  qed
qed

lemma served_rest:
  assumes "served out p fd c whole w"
  shows "\<exists>rest. out (kernel w) fd @ rest = whole \<and> (if c \<and> rest = [] then ended p w
     else \<exists>s. sock p w = Some s \<and> sk_state s = APE_SOCKET_ST_ONLINE)"
proof (cases c)
  case True
  then show ?thesis using closing_rest [of p fd whole w] assms unfolding served_def by fastforce
next
  case False
  then obtain ps where "queued p w fd ps" "out (kernel w) fd @ bytes_of ps = whole" using assms unfolding served_def by auto
  then show ?thesis using False unfolding queued_def conn_def by (intro exI [of _ "bytes_of ps"]) auto
qed

end

interpretation tcp_cork: corked_kernel tcp_sys tk_out tk_room
  by unfold_locales (simp add: tcp_sys_def)

end
