(* ===== verification/Zape.thy ===== *)
theory Zape
  imports Websocket_Net
begin

unbundle bit_operations_syntax

text \<open>
  The whole server of \<open>src/main.zig\<close> on a connection of the library: the request that asks for the
  upgrade, the handshake, and then the frames, over any reads.
\<close>

section \<open>Writing what is not copied\<close>

text \<open>The library copies static data as well when it has to queue it.\<close>

lemma write_static: "APE_socket_write E p d n APE_DATA_STATIC w = APE_socket_write E p d n APE_DATA_COPY w"
proof -
  have r: "ape_socket_release_data d APE_DATA_STATIC = Some" "ape_socket_release_data d APE_DATA_OWN = Some"
    by (simp_all add: ape_socket_release_data_def fun_eq_iff)
  have q: "ape_socket_queue_data E p d n t APE_DATA_STATIC = ape_socket_queue_data E p d n t APE_DATA_COPY" for t
    by (simp add: ape_socket_queue_data_def fun_eq_iff)
  have ty: "(if APE_DATA_STATIC = APE_DATA_COPY then APE_DATA_OWN else APE_DATA_STATIC) = APE_DATA_STATIC"
    "(if APE_DATA_COPY = APE_DATA_COPY then APE_DATA_OWN else APE_DATA_COPY) = APE_DATA_OWN" by simp_all
  show ?thesis unfolding APE_socket_write_def Let_def ty r q ..
qed

context sender
begin

lemma static_spec:
  assumes q: "inv w ps" and bs: "bs \<noteq> []"
  shows "Client_write E p bs Static w = None \<and> bad (kernel w) bs
     \<or> (\<exists>w' ps' sent. Client_write E p bs Static w = Some w' \<and> inv w' ps' \<and> outp (kernel w') = outp (kernel w) @ sent
     \<and> sent @ bytes_of ps' = bytes_of ps @ bs)"
proof -
  let ?w1 = "w\<lparr>data_mem := (data_mem w)(nbrk w \<mapsto> bs), nbrk := nbrk w + 1\<rparr>"
  have d: "rd (data_mem ?w1) (nbrk w) = Some bs" using there [OF q] by (simp add: rd_def)
  have eq: "Client_write E p bs Static w = do {
      (r, w2) \<leftarrow> APE_socket_write E p (nbrk w) (length bs) APE_DATA_COPY ?w1; Some w2 }"
    by (simp add: Client_write_def malloc_data_def write_static)
  from writes [OF allocs [OF q] d bs] show ?thesis
    by (elim disjE exE conjE) (simp add: eq, (intro disjI2 exI conjI; (assumption | simp add: eq)))
qed

end

section \<open>The handshake\<close>

definition handshake :: "byte list \<Rightarrow> byte list" where
  "handshake b64key = ws_hardcoded_header @ bytes ''Sec-WebSocket-Accept: '' @ b64key @ [13, 10]
     @ bytes ''Sec-WebSocket-Origin: 127.0.0.1'' @ [13, 10, 13, 10]"

context corked_kernel
begin

lemma served_static:
  assumes E: "nsys E = S" and quiet: "\<forall>f a w. on_event E (Drain f p a) w = Some w" and s: "served out p fd False whole w"
    and bs: "bs \<noteq> []" and fn: "fine S fd (Client_write E p bs Static w)"
  shows "\<exists>w'. Client_write E p bs Static w = Some w' \<and> served out p fd False (whole @ bs) w'"
proof -
  obtain ps xs ts where q: "queued p w fd ps" "waits p w ps" "tinv w xs ts" "out (kernel w) fd @ bytes_of ps = whole"
    using s unfolding served_def by auto
  obtain w' ps' sent where w': "Client_write E p bs Static w = Some w'" "queued p w' fd ps'" "timers_of w' = timers_of w" "waits p w' ps'"
    "out (kernel w') fd = out (kernel w) fd @ sent" "sent @ bytes_of ps' = bytes_of ps @ bs"
    using sender.static_spec [OF plain_sender [OF E quiet, of fd "timers_of w" True], of w ps bs] q bs fn
    unfolding fine_def by blast
  have "tinv w' xs ts" using q(3) tinv_timers_of [OF w'(3)] by simp
  moreover have "out (kernel w') fd @ bytes_of ps' = whole @ bs" using w'(5,6) q(4) by (metis append_assoc)
  ultimately show ?thesis using w'(1,2,4) unfolding served_def by auto
qed

lemma served_accept:
  assumes E: "nsys E = S" and quiet: "\<forall>f a w. on_event E (Drain f p a) w = Some w" and s: "served out p fd False whole w"
    and key: "headers c (bytes ''sec-websocket-key'') = Some key" "get_b64_accept_key key = Some b"
    and fn: "fine S fd (acceptWebSocket (zig_client E p) c w)"
  shows "\<exists>w'. acceptWebSocket (zig_client E p) c w = Some (True, c\<lparr>websocket_state := Some ws_init\<rparr>, w')
     \<and> served out p fd False (whole @ handshake b) w'"
proof -
  note ck = served_cork [OF E] and st = served_static [OF E quiet] and wr = served_write [OF E quiet]
  let ?fin = "[13, 10] @ bytes ''Sec-WebSocket-Origin: 127.0.0.1'' @ [13, 10, 13, 10]"
  have ne: "ws_hardcoded_header \<noteq> []" "bytes ''Sec-WebSocket-Accept: '' \<noteq> []" "?fin \<noteq> []"
    by (simp_all add: ws_hardcoded_header_def)
  have eq: "acceptWebSocket (zig_client E p) c w = do {
      w1 \<leftarrow> Client_tcpBuffer E p True w; w2 \<leftarrow> Client_write E p ws_hardcoded_header Static w1;
      w3 \<leftarrow> Client_write E p (bytes ''Sec-WebSocket-Accept: '') Static w2; w4 \<leftarrow> Client_write E p b Copy w3;
      w5 \<leftarrow> Client_write E p ?fin Static w4; w6 \<leftarrow> Client_tcpBuffer E p False w5;
      Some (True, c\<lparr>websocket_state := Some ws_init\<rparr>, w6) }"
    using key by (simp add: acceptWebSocket_def zig_client_def del: bytes_simps)
  obtain w1 where w1: "Client_tcpBuffer E p True w = Some w1" "served out p fd False whole w1" using ck [OF s] by blast
  note f1 = fine_bind(2) [OF fn [unfolded eq] w1(1)]
  obtain w2 where w2: "Client_write E p ws_hardcoded_header Static w1 = Some w2" "served out p fd False (whole @ ws_hardcoded_header) w2"
    using st [OF w1(2) ne(1) fine_bind(1) [OF f1]] by blast
  note f2 = fine_bind(2) [OF f1 w2(1)]
  obtain w3 where w3: "Client_write E p (bytes ''Sec-WebSocket-Accept: '') Static w2 = Some w3"
    "served out p fd False ((whole @ ws_hardcoded_header) @ bytes ''Sec-WebSocket-Accept: '') w3"
    using st [OF w2(2) ne(2) fine_bind(1) [OF f2]] by blast
  note f3 = fine_bind(2) [OF f2 w3(1)]
  obtain w4 where w4: "Client_write E p b Copy w3 = Some w4"
    "served out p fd False (((whole @ ws_hardcoded_header) @ bytes ''Sec-WebSocket-Accept: '') @ b) w4"
    using wr [OF w3(2)] fine_bind(1) [OF f3] by blast
  note f4 = fine_bind(2) [OF f3 w4(1)]
  obtain w5 where w5: "Client_write E p ?fin Static w4 = Some w5"
    "served out p fd False ((((whole @ ws_hardcoded_header) @ bytes ''Sec-WebSocket-Accept: '') @ b) @ ?fin) w5"
    using st [OF w4(2) ne(3) fine_bind(1) [OF f4]] by blast
  obtain w6 where w6: "Client_tcpBuffer E p False w5 = Some w6"
    "served out p fd False ((((whole @ ws_hardcoded_header) @ bytes ''Sec-WebSocket-Accept: '') @ b) @ ?fin) w6" using ck [OF w5(2)] by blast
  have "(((whole @ ws_hardcoded_header) @ bytes ''Sec-WebSocket-Accept: '') @ b) @ ?fin = whole @ handshake b" by (simp add: handshake_def)
  then show ?thesis using eq w1(1) w2(1) w3(1) w4(1) w5(1) w6 by (intro exI [of _ w6]) (simp del: bytes_simps)
qed

end

section \<open>Running the server\<close>

fun http_run :: "memory \<Rightarrow> 'p llhttp \<Rightarrow> ('b, 'k) env \<Rightarrow> ptr \<Rightarrow> 'k ws_action list
    \<Rightarrow> ('p, unit) http_request option \<times> ('b, 'k) ape_net \<Rightarrow> (('p, unit) http_request option \<times> ('b, 'k) ape_net) option" where
  "http_run M ll E p [] x = Some x"
| "http_run M ll E p (Incoming bs # as) x = do {
     (err, x1) \<leftarrow> http_ondata M ll (HttpRequestHandler (zig_client E p)) (zig_client E p) bs x; http_run M ll E p as x1 }"
| "http_run M ll E p (Passing f # as) (c, w) = http_run M ll E p as (c, on_kernel f w)"
| "http_run M ll E p (Can_write # as) (c, w) = do { w1 \<leftarrow> socket_event E p EVENT_WRITE w; http_run M ll E p as (c, w1) }"

definition reads :: "'k ws_action list \<Rightarrow> byte list list" where
  "reads as = concat (List.map (\<lambda>a. case a of Incoming bs \<Rightarrow> [bs] | _ \<Rightarrow> []) as)"

lemma reads_simps [simp]:
  "reads [] = []" "reads (Incoming bs # as) = bs # reads as" "reads (Passing f # as) = reads as" "reads (Can_write # as) = reads as"
  by (simp_all add: reads_def)

lemma http_run_append: "http_run M ll E p (as @ bs) x = do { x1 \<leftarrow> http_run M ll E p as x; http_run M ll E p bs x1 }"
proof (induction as arbitrary: x)
  case (Cons a as)
  then show ?case by (cases a; cases x) (auto split: Option.bind_splits)
qed simp

text \<open>After the upgrade it is the server of frames.\<close>

lemma http_run_ws:
  "websocket_state c = Some ws \<Longrightarrow> user_ctx c = Some () \<Longrightarrow> http_run M ll E p as (Some c, w)
     = map_option (\<lambda>(ws', w'). (Some (c\<lparr>websocket_state := Some ws'\<rparr>), w')) (ws_run M E p as (ws, w))"
proof (induction as arbitrary: c ws w)
  case (Cons a as)
  show ?case
  proof (cases a)
    case (Incoming bs)
    have env: "request_ws_env M (onMessage (HttpRequestHandler (zig_client E p))) (zig_client E p) (Some ()) = echo_env M E p"
      by (simp add: echo_env_def HttpRequestHandler_def)
    show ?thesis
    proof (cases "process_data (echo_env M E p) bs (ws, w)")
      case None
      then show ?thesis using Incoming Cons.prems by (simp add: http_ondata_def env)
    next
      case (Some x)
      obtain ws1 w1 where x: "x = (ws1, w1)" by (cases x)
      then show ?thesis using Incoming Cons.prems Some Cons.IH [of "c\<lparr>websocket_state := Some ws1\<rparr>" ws1 w1]
        by (simp add: http_ondata_def env)
    qed
  next
    case (Passing f)
    then show ?thesis using Cons by simp
  next
    case Can_write
    then show ?thesis using Cons by (cases "socket_event E p EVENT_WRITE w") simp_all
  qed
qed simp

definition ll_end :: "'p \<Rightarrow> (byte list \<times> ll_event list \<times> 'p) list \<Rightarrow> 'p" where
  "ll_end p xs = (if xs = [] then p else snd (snd (List.last xs)))"

context corked_kernel
begin

text \<open>The reads before the one that completes the request.\<close>

lemma http_run_reads:
  assumes E: "nsys E = S" and quiet: "\<forall>f a w. on_event E (Drain f p a) w = Some w"
  shows "ll_reads ll (ll_state c) xs \<Longrightarrow> reads as = List.map fst xs \<Longrightarrow> \<forall>x \<in> set xs. On_message_complete \<notin> set (fst (snd x)) \<Longrightarrow>
    http_events M (concat (List.map (\<lambda>x. fst (snd x)) xs)) c = Some c1 \<Longrightarrow> websocket_state c = None \<Longrightarrow> \<not> req_done c \<Longrightarrow>
    served out p fd False whole w \<Longrightarrow> \<forall>f k. Passing f \<in> set as \<longrightarrow> out (f k) = out k \<Longrightarrow>
    \<exists>w'. http_run M ll E p as (Some c, w) = Some (Some (c1\<lparr>ll_state := ll_end (ll_state c) xs\<rparr>), w') \<and> served out p fd False whole w'"
proof (induction as arbitrary: xs c c1 w)
  case Nil
  then show ?case by (cases c) (auto simp: ll_end_def)
next
  case (Cons a as)
  have pr: "\<forall>f k. Passing f \<in> set as \<longrightarrow> out (f k) = out k" using Cons.prems(8) by simp
  show ?case
  proof (cases a)
    case (Incoming bs)
    obtain evs q xs' where xs: "xs = (bs, evs, q) # xs'" using Cons.prems(2) Incoming by (cases xs) auto
    obtain c2 where c2: "http_events M evs c = Some c2" "http_events M (concat (List.map (\<lambda>x. fst (snd x)) xs')) c2 = Some c1"
      using Cons.prems(4) xs by (auto simp: http_events_append split: Option.bind_splits)
    have st: "websocket_state c2 = None" "\<not> req_done c2" using events_same [OF c2(1)] Cons.prems(3,5,6) xs by auto
    have run: "http_ondata M ll (HttpRequestHandler (zig_client E p)) (zig_client E p) bs (Some c, w) = Some (False, Some (c2\<lparr>ll_state := q\<rparr>), w)"
      using Cons.prems(1,5) xs st by (simp add: http_ondata_def client_onhttpdata_def execute_script [OF c2(1)])
    have "http_events M (concat (List.map (\<lambda>x. fst (snd x)) xs')) (c2\<lparr>ll_state := q\<rparr>) = Some (c1\<lparr>ll_state := q\<rparr>)"
      using c2(2) by (simp add: events_ll_state)
    then have "\<exists>w'. http_run M ll E p as (Some (c2\<lparr>ll_state := q\<rparr>), w)
        = Some (Some ((c1\<lparr>ll_state := q\<rparr>)\<lparr>ll_state := ll_end (ll_state (c2\<lparr>ll_state := q\<rparr>)) xs'\<rparr>), w') \<and> served out p fd False whole w'"
      using Cons.prems(1-3,7) xs Incoming st pr by (intro Cons.IH) auto
    moreover have "ll_end q xs' = ll_end (ll_state c) xs" by (simp add: ll_end_def xs)
    ultimately show ?thesis using Incoming run by simp
  next
    case (Passing f)
    have "served out p fd False whole (on_kernel f w)" by (rule served_passing [OF Cons.prems(7)]) (use Cons.prems(8) Passing in auto)
    from Cons.IH [OF Cons.prems(1) _ Cons.prems(3-6) this pr] show ?thesis using Passing Cons.prems(2) by simp
  next
    case Can_write
    obtain w1 where w1: "socket_event E p EVENT_WRITE w = Some w1" "served out p fd False whole w1"
      using served_event [OF E quiet Cons.prems(7)] by blast
    from Cons.IH [OF Cons.prems(1) _ Cons.prems(3-6) w1(2) pr] show ?thesis using Can_write Cons.prems(2) w1(1) by simp
  qed
qed

text \<open>The read that completes it.\<close>

lemma http_upgrade_read:
  assumes E: "nsys E = S" and quiet: "\<forall>f a w. on_event E (Drain f p a) w = Some w" and s: "served out p fd False whole w"
    and ll: "ll (ll_state c) d = ll_script evs HPE_PAUSED_UPGRADE q" "http_events M evs c = Some c1" "websocket_state c = None" "mem_user M"
    and key: "headers c1 (bytes ''sec-websocket-key'') = Some key" "get_b64_accept_key key = Some b"
    and fn: "fine S fd (http_ondata M ll (HttpRequestHandler (zig_client E p)) (zig_client E p) d (Some c, w))"
  shows "\<exists>c2 w'. http_ondata M ll (HttpRequestHandler (zig_client E p)) (zig_client E p) d (Some c, w) = Some (False, Some c2, w')
     \<and> websocket_state c2 = Some ws_init \<and> user_ctx c2 = Some () \<and> served out p fd False (whole @ handshake b) w'"
proof -
  let ?c = "c1\<lparr>ll_state := q, user_ctx := Some ()\<rparr>"
  have k: "headers ?c (bytes ''sec-websocket-key'') = Some key" using key(1) by simp
  let ?A = "HttpRequestHandler (zig_client E p) :: (_, unit, _) application"
  have app: "app_init ?A c w = Some ((), w)" "onUpradeToWebSocket ?A = Some (\<lambda>u c w. Some (False, c, w))"
    "onMessage ?A = Some (\<lambda>u. onWebSocketMessage (zig_client E p))" "onUpgradedToWebSocket ?A = None" for c w
    by (simp_all add: HttpRequestHandler_def)
  have "fine S fd (acceptWebSocket (zig_client E p) ?c w)"
    by (rule fine_part [OF fn]) (use ll in \<open>simp add: http_ondata_def client_onhttpdata_def execute_script [OF ll(2)] http_upgrade_def
      start_user_def app\<close>)
  then obtain w' where w': "acceptWebSocket (zig_client E p) ?c w = Some (True, ?c\<lparr>websocket_state := Some ws_init\<rparr>, w')"
    "served out p fd False (whole @ handshake b) w'" using served_accept [OF E quiet s k key(2)] by blast
  have "http_ondata M ll ?A (zig_client E p) d (Some c, w) = Some (False, Some (?c\<lparr>websocket_state := Some ws_init\<rparr>), w')"
    using ll w'(1) by (simp add: http_ondata_def client_onhttpdata_def execute_script [OF ll(2)] http_upgrade_def start_user_def app)
  then show ?thesis using w'(2) by auto
qed

end

section \<open>The server from the request to the last frame\<close>

text \<open>C2: The server of \<open>main.zig\<close> on a connection that was accepted. A request for an upgrade comes in over any
  number of reads, then whatever comes in, cut into reads in any way, with write events and the progress of the
  kernel in between. The messages are those of the frames that came in; what is sent are the
  handshake for the key of the request and the answers up to the close frame, in order and once, up to a rest that is
  still queued. It stays online until then: a close frame shuts it down once the last byte is sent. A write
  event sends all of the rest when there is room for it. All this holds of every run that does not fault, on a
  kernel whose calls take some of what they are given or would block, in parts of any size; and a run does not
  fault unless the kernel is one on which the loop that writes at once can be handed bytes from behind a block.\<close>

theorem zape_echo_server:
  assumes "corked_kernel S out room" and "nsys E = S" and "\<forall>ev w. on_event E ev w = Some w"
    and "net_ok w0" and "tinv w0 ts as" and "sock srv w0 = Some s" and "sk_proto s \<noteq> APE_SOCKET_PT_SSL \<and> \<not> issecure s" and "fd \<noteq> 0"
    and "accept_client E srv fd addr w0 = Some w" and "plenty M" and "mem_user M" and "mem_request M"
    and "\<forall>f k. Passing f \<in> set (as1 @ as2) \<longrightarrow> out (f k) = out k"
    and "ll_reads ll (p0 :: 'p) xs" and "reads as1 = List.map fst xs" and "\<forall>x \<in> set xs. On_message_complete \<notin> set (fst (snd x))"
    and "ll (ll_end p0 xs) d = ll_script evs HPE_PAUSED_UPGRADE q"
    and "concat (List.map (\<lambda>x. fst (snd x)) xs) @ evs = request_events rq" and "body_fits rq"
    and "header_map (rq_fields rq) (bytes ''sec-websocket-key'') = Some key" and "get_b64_accept_key key = Some b"
  shows "http_run M ll E (nbrk w0) (as1 @ Incoming d # as2) (http_connect M p0, w) = None \<and> (\<exists>bs k. overreads S fd bs 0 k)
     \<or> (\<exists>c st w1 w2 st0 ms rest. http_run M ll E (nbrk w0) (as1 @ Incoming d # as2) (http_connect M p0, w) = Some (Some c, w1)
     \<and> websocket_state c = Some st \<and> ws_parse_all (mem_grow M) (incoming as2) ws_init = Some (st0, ms)
     \<and> (\<forall>fs. (\<forall>f \<in> set fs. fr_valid f) \<and> incoming as2 = concat (List.map fr_wire fs) \<longrightarrow> ms = List.map (\<lambda>f. (fr_head f, fr_data f)) fs)
     \<and> closed st = list_ex is_close ms \<and> out (kernel w1) fd @ rest = out (kernel w) fd @ handshake b @ ws_answers ms
     \<and> (if closed st \<and> rest = [] then ended (nbrk w0) w1
        else \<exists>s. sock (nbrk w0) w1 = Some s \<and> sk_state s = APE_SOCKET_ST_ONLINE)
     \<and> socket_event E (nbrk w0) EVENT_WRITE w1 = Some w2
     \<and> (length rest \<le> room (kernel w1) fd \<longrightarrow> out (kernel w2) fd = out (kernel w) fd @ handshake b @ ws_answers ms
         \<and> (closed st \<longrightarrow> ended (nbrk w0) w2)))"
proof (cases "fine S fd (http_run M ll E (nbrk w0) (as1 @ Incoming d # as2) (http_connect M p0, w))")
  case False
  then show ?thesis unfolding fine_def by blast
next
  case fn: True
  let ?p = "nbrk w0" let ?whole = "\<lambda>ms. (out (kernel w) fd @ handshake b) @ ws_answers ms"
  let ?c0 = "request_init p0 :: ('p, unit) http_request"
  have q: "queued ?p w fd []" "timers_of w = timers_of w0" "waits ?p w []"
    using accept_client_queued [OF assms(4,6-8,3,9)] by blast+
  have "tinv w ts as" using assms(5) tinv_timers_of [OF q(2)] by simp
  then have sv: "served out ?p fd False (out (kernel w) fd) w"
    using q(1,3) unfolding served_def by (simp add: bytes_of_def) (intro exI [of _ "[]"], auto)
  have quiet: "\<forall>f a w. on_event E (Drain f ?p a) w = Some w" using assms(3) by blast
  have g: "roomy (mem_grow M)" using assms(10) by (simp add: plenty_def)
  obtain c2 where c2: "http_events M (request_events rq) ?c0 = Some c2" "headers c2 = header_map (rq_fields rq)"
    using request_done [OF assms(10,19), of ?c0] by auto
  then obtain c1 where c1: "http_events M (concat (List.map (\<lambda>x. fst (snd x)) xs)) ?c0 = Some c1" "http_events M evs c1 = Some c2"
    unfolding assms(18) [symmetric] by (auto simp: http_events_append split: Option.bind_splits)
  let ?c1 = "c1\<lparr>ll_state := ll_end p0 xs\<rparr>"
  obtain w3 where w3: "http_run M ll E ?p as1 (Some ?c0, w) = Some (Some ?c1, w3)" "served out ?p fd False (out (kernel w) fd) w3"
    using corked_kernel.http_run_reads [OF assms(1,2) quiet, of ll ?c0 xs as1 M c1 fd "out (kernel w) fd" w] assms(13-16) c1(1) sv by auto
  have e1: "http_events M evs ?c1 = Some (c2\<lparr>ll_state := ll_end p0 xs\<rparr>)" "websocket_state ?c1 = None"
    using c1 events_same [OF c1(1)] by (simp_all add: events_ll_state)
  have h: "headers (c2\<lparr>ll_state := ll_end p0 xs\<rparr>) (bytes ''sec-websocket-key'') = Some key" using c2(2) assms(20) by simp
  have l: "ll (ll_state ?c1) d = ll_script evs HPE_PAUSED_UPGRADE q" using assms(17) by simp
  have f1: "fine S fd (do {
      (err, x1) \<leftarrow> http_ondata M ll (HttpRequestHandler (zig_client E ?p)) (zig_client E ?p) d (Some ?c1, w3); http_run M ll E ?p as2 x1 })"
    using fn w3(1) assms(12) by (simp add: http_run_append http_connect_def)
  obtain c w4 where c: "http_ondata M ll (HttpRequestHandler (zig_client E ?p)) (zig_client E ?p) d (Some ?c1, w3) = Some (False, Some c, w4)"
    "websocket_state c = Some ws_init" "user_ctx c = Some ()" "served out ?p fd False (out (kernel w) fd @ handshake b) w4"
    using corked_kernel.http_upgrade_read [where ll = ll and c = ?c1 and d = d and evs = evs and q = q and M = M,
        OF assms(1,2) quiet w3(2) l e1 assms(11) h assms(21) fine_bind(1) [OF f1]] by blast
  have "fine S fd (http_run M ll E ?p as2 (Some c, w4))" using fine_bind(2) [OF f1 c(1)] by simp
  then have f2: "fine S fd (ws_run M E ?p as2 (ws_init, w4))"
    by (rule fine_part) (simp add: http_run_ws [OF c(2,3)])
  have i: "ws_inv ws_init" by (simp add: ws_inv_def ws_init_def)
  obtain s1 ms cl w1 where s1: "ws_run M E ?p as2 (ws_init, w4) = Some (s1\<lparr>closed := cl\<rparr>, w1)"
    "ws_parse_all (mem_grow M) (incoming as2) ws_init = Some (s1, ms)" "cl = list_ex is_close ms" "served out ?p fd cl (?whole ms) w1"
    using corked_kernel.ws_run_served [OF assms(1,2) quiet g i, of fd "out (kernel w) fd @ handshake b" w4 as2] c(4) assms(13) f2 by auto
  have run: "http_run M ll E ?p (as1 @ Incoming d # as2) (http_connect M p0, w)
      = Some (Some (c\<lparr>websocket_state := Some (s1\<lparr>closed := cl\<rparr>)\<rparr>), w1)"
    using w3(1) c(1) http_run_ws [OF c(2,3), of M ll E ?p as2 w4] s1(1) assms(12) by (simp add: http_run_append http_connect_def)
  have fr: "ms = List.map (\<lambda>f. (fr_head f, fr_data f)) fs" if "\<forall>f \<in> set fs. fr_valid f" "incoming as2 = concat (List.map fr_wire fs)" for fs
    using parse_frames [OF g ws_idle_init(1) that(1)] s1(2) that(2) by auto
  obtain rest where rest: "out (kernel w1) fd @ rest = ?whole ms"
    "if cl \<and> rest = [] then ended ?p w1 else \<exists>s. sock ?p w1 = Some s \<and> sk_state s = APE_SOCKET_ST_ONLINE"
    using corked_kernel.served_rest [OF assms(1) s1(4)] by blast
  obtain w2 where w2: "socket_event E ?p EVENT_WRITE w1 = Some w2"
    "length (?whole ms) \<le> length (out (kernel w1) fd) + room (kernel w1) fd \<longrightarrow> out (kernel w2) fd = ?whole ms \<and> (cl \<longrightarrow> ended ?p w2)"
    using corked_kernel.served_event [OF assms(1,2) quiet s1(4)] by blast
  have "length (?whole ms) = length (out (kernel w1) fd) + length rest" using rest(1) by (metis length_append)
  then show ?thesis using run s1(2,3) fr rest w2
    by (intro disjI2 exI [of _ "c\<lparr>websocket_state := Some (s1\<lparr>closed := cl\<rparr>)\<rparr>"] exI [of _ "s1\<lparr>closed := cl\<rparr>"] exI [of _ w1] exI [of _ w2]
        exI [of _ s1] exI [of _ ms] exI [of _ rest]) simp
qed

definition upgrade_request :: http_message where
  "upgrade_request = \<lparr>rq_url = [[0x2F]], rq_fields = [([bytes ''Sec-WebSocket-'', bytes ''Key''], [bytes ''abc''])], rq_body = []\<rparr>"

theorem zape_echo_server_witness:
  "\<exists>w b c st w1 w2. client0 tcp_sys tcp0 = Some w \<and> get_b64_accept_key (bytes ''abc'') = Some b
     \<and> http_run all_memory script_ll (env_of tcp_sys) 100
       [Incoming [1], Can_write, Incoming [2], Can_write, Incoming [0x81, 0x82, 1, 2, 3], Incoming [4, 0x49, 0x6b, 0x88, 0x80, 0, 0, 0, 0],
        Passing (\<lambda>k. k\<lparr>tk_room := \<lambda>_. 1000\<rparr>)]
       (http_connect all_memory [(take 3 (request_events upgrade_request), HPE_OK),
          (drop 3 (request_events upgrade_request), HPE_PAUSED_UPGRADE)], w) = Some (Some c, w1)
     \<and> websocket_state c = Some st \<and> closed st \<and> socket_event (env_of tcp_sys) 100 EVENT_WRITE w1 = Some w2 \<and> ended 100 w2
     \<and> tk_out (kernel w2) 7 = handshake b @ [0x81, 2, 0x48, 0x69]"
proof -
  let ?more = "\<lambda>k. k\<lparr>tk_room := \<lambda>_. 1000\<rparr>"
  let ?as1 = "[Incoming [1], Can_write]"
  let ?as2 = "[Can_write, Incoming [0x81, 0x82, 1, 2, 3], Incoming [4, 0x49, 0x6b, 0x88, 0x80, 0, 0, 0, 0]]"
  let ?ev1 = "take 3 (request_events upgrade_request)" and ?ev2 = "drop 3 (request_events upgrade_request)"
  let ?p0 = "[(?ev1, HPE_OK), (?ev2, HPE_PAUSED_UPGRADE)]"
  let ?fs = "[\<lparr>fr_head = 0x81, fr_form = Short, fr_key = [1, 2, 3, 4], fr_data = [0x48, 0x69]\<rparr>,
    \<lparr>fr_head = 0x88, fr_form = Short, fr_key = [0, 0, 0, 0], fr_data = []\<rparr>]"
  obtain w s where w: "client0 tcp_sys tcp0 = Some w" "tk_out (kernel w) 7 = []" and
    s: "sock 50 (server0 tcp0) = Some s" "sk_proto s \<noteq> APE_SOCKET_PT_SSL \<and> \<not> issecure s" using client0_tcp by blast
  have t: "tinv (server0 tcp0) [] []" by (intro tinv_empty) (simp_all add: server0_def net0_def no_timers_def)
  have a: "accept_client (env_of tcp_sys) 50 7 \<lparr>sin_port = 0, sin_addr = 0\<rparr> (server0 tcp0) = Some w"
    using w(1) by (simp add: client0_def)
  have quiet: "\<forall>ev w. on_event (env_of tcp_sys :: (unit, tcp) env) ev w = Some w" by simp
  have m: "mem_user all_memory" "mem_request all_memory" by (simp_all add: all_memory_def)
  have pr: "\<forall>f k. Passing f \<in> set (?as1 @ ?as2 @ [Passing ?more]) \<longrightarrow> tk_out (f k) = tk_out k" by auto
  let ?xs = "[([1 :: byte], ?ev1, [(?ev2, HPE_PAUSED_UPGRADE)])]"
  have l: "ll_reads script_ll ?p0 ?xs" "reads ?as1 = List.map fst ?xs" "\<forall>x \<in> set ?xs. On_message_complete \<notin> set (fst (snd x))"
    "script_ll (ll_end ?p0 ?xs) [2] = ll_script ?ev2 HPE_PAUSED_UPGRADE []"
    "concat (List.map (\<lambda>x. fst (snd x)) ?xs) @ ?ev2 = request_events upgrade_request" "body_fits upgrade_request"
    "header_map (rq_fields upgrade_request) (bytes ''sec-websocket-key'') = Some (bytes ''abc'')"
    by (simp_all add: ll_end_def upgrade_request_def request_events_def field_events_def body_fits_def header_map_def ascii_lower_def)
  obtain b where b: "get_b64_accept_key (bytes ''abc'') = Some b"
    using accept_key_length [of "bytes ''abc''"] by (cases "get_b64_accept_key (bytes ''abc'')") auto
  obtain c st w1 w2 ms rest where r: "http_run all_memory script_ll (env_of tcp_sys) 100 (?as1 @ Incoming [2] # ?as2 @ [Passing ?more])
       (http_connect all_memory ?p0, w) = Some (Some c, w1)" "websocket_state c = Some st"
    "\<forall>fs. (\<forall>f \<in> set fs. fr_valid f) \<and> incoming (?as2 @ [Passing ?more]) = concat (List.map fr_wire fs)
       \<longrightarrow> ms = List.map (\<lambda>f. (fr_head f, fr_data f)) fs"
    "closed st = list_ex is_close ms" "tk_out (kernel w1) 7 @ rest = handshake b @ ws_answers ms"
    "socket_event (env_of tcp_sys) 100 EVENT_WRITE w1 = Some w2"
    "length rest \<le> tk_room (kernel w1) 7 \<longrightarrow> tk_out (kernel w2) 7 = handshake b @ ws_answers ms \<and> (closed st \<longrightarrow> ended 100 w2)"
    using zape_echo_server [OF tcp_cork.corked_kernel_axioms env_of_simps(1) quiet server0_ok t s _ a all_memory_plenty m pr l b,
        unfolded w(2) append_Nil server0_simps(1)] tcp_calm by fastforce
  have "ms = List.map (\<lambda>f. (fr_head f, fr_data f)) ?fs" using spec [OF r(3), of ?fs] by (simp add: fr_valid_def fr_wire_def)
  then have ms: "ws_answers ms = [0x81, 2, 0x48, 0x69]" "list_ex is_close ms"
    by (simp_all add: ws_answers_def ws_answer_def is_close_def op_of_def ws_head_def Let_def)
  obtain w' where "w1 = on_kernel ?more w'"
    using r(1) unfolding append_Cons append_Nil append_assoc [symmetric] http_run_append by (auto split: Option.bind_splits)
  then have "tk_room (kernel w1) 7 = 1000" by (simp add: on_kernel_def)
  moreover have "length b = 28" using accept_key_length [of "bytes ''abc''"] b by simp
  then have "length rest \<le> 1000" using arg_cong [OF r(5), of length] ms(1) by (simp add: handshake_def ws_hardcoded_header_def)
  ultimately show ?thesis using w(1) b r(1,2,4,6,7) ms by auto
qed

section \<open>A request that stops the server\<close>

text \<open>C17: A request for an upgrade whose key is longer than 28 bytes is a panic, on any client: the program ends, and with it
  every other connection.\<close>

theorem long_key_panics:
  assumes "plenty M" and "mem_user M" and "rq_body rq = []" and "ll p0 d = ll_script (request_events rq) HPE_PAUSED_UPGRADE q"
    and "header_map (rq_fields rq) (bytes ''sec-websocket-key'') = Some key" and "28 < length key"
  shows "http_ondata M ll (HttpRequestHandler C) C d (Some (request_init (p0 :: 'p)), w) = None"
proof -
  let ?A = "HttpRequestHandler C :: ('p, unit, _) application"
  have app: "app_init ?A c w = Some ((), w)" "onUpradeToWebSocket ?A = Some (\<lambda>u c w. Some (False, c, w))"
    "onMessage ?A = Some (\<lambda>u. onWebSocketMessage C)" for c w by (simp_all add: HttpRequestHandler_def)
  have "body_fits rq" using assms(3) by (simp add: body_fits_def)
  then obtain c1 :: "('p, unit) http_request" where c1: "http_events M (request_events rq) (request_init p0) = Some c1"
    "headers c1 = header_map (rq_fields rq)" using request_done [OF assms(1), of rq "request_init p0"] by auto
  have "get_b64_accept_key key = None" using accept_key_length [of key] assms(6) by (auto split: option.splits)
  then show ?thesis using assms(2,4,5) c1(2)
    by (simp add: http_ondata_def client_onhttpdata_def execute_script [OF c1(1)] http_upgrade_def start_user_def app acceptWebSocket_def
        del: bytes_simps)
qed

definition long_key_request :: http_message where
  "long_key_request = \<lparr>rq_url = [[0x2F]], rq_fields = [([bytes ''Sec-WebSocket-Key''], [replicate 29 0x61])], rq_body = []\<rparr>"

theorem long_key_panics_witness:
  "http_ondata all_memory script_ll (HttpRequestHandler wire_client) wire_client [1]
     (Some (request_init [(request_events long_key_request, HPE_PAUSED_UPGRADE)]), []) = None"
  by (rule long_key_panics [where rq = long_key_request and q = "[]" and key = "replicate 29 0x61", OF all_memory_plenty])
    (simp_all add: all_memory_def long_key_request_def header_map_def ascii_lower_def)

end
