(* ===== verification/Zig_Server.thy ===== *)
theory Zig_Server
  imports Zape Start_Props
begin

unbundle bit_operations_syntax

text \<open>
  The rest of \<open>pkg/libapenetwork/main.zig\<close>: the server that listens, asynchronous calls and the loop,
  and how \<open>src/main.zig\<close> starts. A Zig function that is passed to C is the number of its callback.
\<close>

section \<open>The interface\<close>

record server =
  server_socket :: ptr
  server_port :: uint16
  server_address :: "byte list"

text \<open>Whether there is a socket is not looked at. Without the library \<open>APE_get\<close> is NULL, which listening follows.\<close>

definition Server_init :: "('b, 'k) env \<Rightarrow> uint16 \<Rightarrow> byte list \<Rightarrow> ('b, 'k) ape_net \<Rightarrow> (server \<times> ('b, 'k) ape_net) option" where
  "Server_init E port address w0 = do {
     w \<leftarrow> APE_get w0;
     (p, w1) \<leftarrow> APE_socket_new E APE_SOCKET_PT_TCP 0 w;
     Some (\<lparr>server_socket = p, server_port = port, server_address = address\<rparr>, w1) }"

definition Server_deinit :: "('b, 'k) env \<Rightarrow> server \<Rightarrow> ('b, 'k) ape_net \<Rightarrow> ('b, 'k) ape_net option" where
  "Server_deinit E srv w = APE_socket_shutdown E (server_socket srv) w"

text \<open>False is the error. The callbacks are set once the socket listens; \<open>self\<close> is the address of the
  server.\<close>

definition Server_start :: "('b, 'k) env \<Rightarrow> server \<Rightarrow> ptr \<Rightarrow> ptr \<Rightarrow> ptr \<Rightarrow> ptr \<Rightarrow> ('b, 'k) ape_net \<Rightarrow> (bool \<times> ('b, 'k) ape_net) option" where
  "Server_start E srv self connect disconnect ondata w = do {
     (r, w1) \<leftarrow> APE_socket_listen E (server_socket srv) (server_port srv) (server_address srv) False 0 w;
     if r = - 1 then Some (False, w1)
     else do {
       w2 \<leftarrow> upd_sock (server_socket srv) (\<lambda>s. s\<lparr>callbacks := (callbacks s)\<lparr>cb_arg := self, on_connect := connect,
         on_disconnect := disconnect, on_read := ondata\<rparr>\<rparr>) w1;
       Some (True, w2) } }"

definition callAsync :: "ptr \<Rightarrow> ptr \<Rightarrow> ('b, 'k) ape_net \<Rightarrow> (ptr \<times> ('b, 'k) ape_net) option" where
  "callAsync f args w = do { w1 \<leftarrow> APE_get w; Some (APE_async f args w1) }"

definition deleteAsync :: "('b, 'k) env \<Rightarrow> nat \<Rightarrow> ptr \<Rightarrow> ('b, 'k) ape_net \<Rightarrow> ('b, 'k) ape_net option" where
  "deleteAsync E depth ref w = do { w1 \<leftarrow> APE_get w; APE_async_destroy (net_call E depth) ref w1 }"

definition getAddr :: "('b, 'k) env \<Rightarrow> ptr \<Rightarrow> ('b, 'k) ape_net \<Rightarrow> byte list option option" where
  "getAddr E p w = APE_socket_ipv4 E p w"

definition startLoop :: "('b, 'k) env \<Rightarrow> nat \<Rightarrow> ('b, 'k) ape_net \<Rightarrow> ('b, 'k) ape_net option" where
  "startLoop E depth w = do { w1 \<leftarrow> APE_get w; APE_loop_run E depth w1 }"

definition stopLoop :: "('b, 'k) ape_net \<Rightarrow> ('b, 'k) ape_net" where
  "stopLoop w = APE_loop_stop w"

text \<open>\<open>main\<close> up to the loop: the library over epoll, and the server of requests on port 80 of every address. The
  numbers are the callbacks of \<open>HttpServer.start\<close>.\<close>

definition HttpServer_address :: "byte list" where
  "HttpServer_address = bytes ''0.0.0.0''"

definition zape_main :: "('e epoll_dev, 'k) env \<Rightarrow> 'e epoll_sys \<Rightarrow> ptr \<Rightarrow> ptr \<Rightarrow> ptr \<Rightarrow> ptr \<Rightarrow> ('e epoll_dev, 'k) ape_net
    \<Rightarrow> (bool \<times> server \<times> ('e epoll_dev, 'k) ape_net) option" where
  "zape_main E sys self connect disconnect ondata w = do {
     (r, w1) \<leftarrow> APE_init E EVENT_EPOLL (epoll_start sys) 0 0 w;
     (srv, w2) \<leftarrow> Server_init E 80 HttpServer_address w1;
     (ok, w3) \<leftarrow> Server_start E srv self connect disconnect ondata w2;
     Some (ok, srv, w3) }"

section \<open>Starting\<close>

text \<open>The server of the library started by the wrappers: its callbacks are set after it listens, before any event.\<close>

definition with_callbacks :: "ptr \<Rightarrow> ptr \<Rightarrow> ptr \<Rightarrow> ptr \<Rightarrow> ape_socket \<Rightarrow> ape_socket" where
  "with_callbacks self c d r s = s\<lparr>callbacks := (callbacks s)\<lparr>cb_arg := self, on_connect := c, on_disconnect := d, on_read := r\<rparr>\<rparr>"

context backlog
begin

lemma start_run:
  assumes E: "nsys E = S" and tm: "tame (\<lambda>k. (waiting k, fails k)) E" and ok: "net_ok w" "can_add (events w)" and p: "port \<noteq> 0"
    and th: "thread_ctx w" and fd: "sys_socket S False False (kernel w) = (fd, k)" "fd \<noteq> - 1"
  shows "\<exists>w1 w2 s. Server_init E port ip w = Some (\<lparr>server_socket = nbrk w, server_port = port, server_address = ip\<rparr>, w1)
     \<and> Server_start E \<lparr>server_socket = nbrk w, server_port = port, server_address = ip\<rparr> self c d r w1
         = Some (can_listen S fd port ip (snd (sys_nonblock S fd k)), w2)
     \<and> sock (nbrk w) w2 = Some s \<and> sk_fd s = fd
     \<and> (if can_listen S fd port ip (snd (sys_nonblock S fd k))
        then local_port s = port \<and> sk_state s = APE_SOCKET_ST_ONLINE
          \<and> cb_arg (callbacks s) = self \<and> on_connect (callbacks s) = c \<and> on_disconnect (callbacks s) = d \<and> on_read (callbacks s) = r
          \<and> (\<exists>w3. socket_event E (nbrk w) EVENT_READ w2 = Some w3 \<and> admits waiting fails (nbrk w) s w2 w3)
        else sk_state s = APE_SOCKET_ST_PENDING)"
proof -
  obtain nb k1 where nb: "sys_nonblock S fd k = (nb, k1)" by (cases "sys_nonblock S fd k")
  obtain w1 s1 where w1: "APE_socket_new E APE_SOCKET_PT_TCP 0 w = Some (nbrk w, w1)" "net_ok w1" "can_add (events w1)"
    "sock (nbrk w) w1 = Some s1" "sk_proto s1 = APE_SOCKET_PT_TCP" "\<not> issecure s1" "sk_state s1 = APE_SOCKET_ST_PENDING"
    "sk_fd s1 = fd" "kernel w1 = k1" "nbrk w1 = nbrk w + 1"
    using new_socket_run [OF E ok fd nb] nonblock [OF nb] by blast
  have n0: "0 < nbrk w" using ok(1) by (simp add: net_ok_def)
  let ?can = "can_listen S fd port ip k1"
  obtain w' s' where w': "APE_socket_listen E (nbrk w) port ip False 0 w1 = Some (if ?can then 0 else - 1, w')" "net_ok w'"
    "can_add (events w')" "nbrk w' = nbrk w1" "sock (nbrk w) w' = Some s'"
    "s' = (if ?can then s1\<lparr>sk_type := APE_SOCKET_TP_SERVER, sk_state := APE_SOCKET_ST_ONLINE, local_port := port\<rparr> else s1)"
    using listen_run [OF E w1(2,3) p w1(4,5), of ip] unfolding w1(8,9) by blast
  have init: "Server_init E port ip w = Some (\<lparr>server_socket = nbrk w, server_port = port, server_address = ip\<rparr>, w1)"
    using w1(1) th by (simp add: Server_init_def APE_get_def)
  show ?thesis
  proof (cases ?can)
    case False
    then have "Server_start E \<lparr>server_socket = nbrk w, server_port = port, server_address = ip\<rparr> self c d r w1 = Some (False, w')"
      using w'(1) by (simp add: Server_start_def)
    then show ?thesis using init nb False w'(5,6) w1(7,8) by (intro exI [of _ w1] exI [of _ w'] exI [of _ s']) simp
  next
    case True
    let ?s = "with_callbacks self c d r s'" let ?w2 = "w'\<lparr>sockets := (sockets w')(nbrk w \<mapsto> ?s)\<rparr>"
    have w2: "upd_sock (nbrk w) (with_callbacks self c d r) w' = Some ?w2" "sock (nbrk w) ?w2 = Some ?s" "net_ok ?w2" "can_add (events ?w2)"
      using w'(2-5) w1(10) n0 by (auto simp: upd_sock_def sock_def net_ok_def)
    have sec: "\<not> issecure ?s" "sk_proto ?s = APE_SOCKET_PT_TCP" "sk_type ?s = APE_SOCKET_TP_SERVER" "sk_fd ?s = fd"
      "local_port ?s = port" "sk_state ?s = APE_SOCKET_ST_ONLINE"
      using w'(6) w1(5,6,8) True by (simp_all add: with_callbacks_def)
    obtain w3 where w3: "ape_socket_accept E (nbrk w) ?w2 = Some (0, w3)" "admits waiting fails (nbrk w) ?s ?w2 w3"
      using accept_spec [OF E tm w2(3,4,2) sec(1)] by blast
    have "socket_event E (nbrk w) EVENT_READ ?w2 = Some w3"
      using w2(2) sec w3(1) by (simp add: socket_event_def server_event_def has_flag_def EVENT_READ_def)
    moreover have "Server_start E \<lparr>server_socket = nbrk w, server_port = port, server_address = ip\<rparr> self c d r w1 = Some (True, ?w2)"
      using w'(1) w2(1) True unfolding with_callbacks_def by (simp add: Server_start_def)
    ultimately show ?thesis using init nb True w2(2) w3(2) sec
      by (intro exI [of _ w1] exI [of _ ?w2] exI [of _ ?s]) (simp add: with_callbacks_def)
  qed
qed

end

text \<open>C20: How the program starts, in a thread without the library, when epoll works and the random device does not get
  descriptor 0. Without a descriptor for the socket it crashes. When the port cannot be bound or listened on it gives the
  error, and the socket is not online. Otherwise a socket listens on port 80 with the callbacks of the
  server, and its read event accepts the connections that wait, in order, as online sockets with these callbacks: all
  of them, unless \<open>accept\<close> fails but by being interrupted.\<close>

theorem zape_starts:
  assumes "backlog S waiting patience fails" and "nsys E = S" and "tame (\<lambda>k. (waiting k, fails k)) E"
    and "net_ok w" and "no_timers w" and "\<forall>k. fst (sys_epoll_create sys k) \<noteq> - 1"
    and "tls_global_ctx (ssl_of E) (tls_library_init (ssl_of E) (kernel w)) = Some (g, k)"
    and "sys_open S urandom k = (u, k1)" and "u \<noteq> 0" and "\<not> thread_ctx w"
    and "sys_socket S False False k1 = (fd, k2)"
  shows "if fd = - 1 then zape_main E sys self c d r w = None
    else if \<not> can_listen S fd 80 HttpServer_address (snd (sys_nonblock S fd k2))
    then \<exists>srv w1 s. zape_main E sys self c d r w = Some (False, srv, w1)
      \<and> sock (server_socket srv) w1 = Some s \<and> sk_state s = APE_SOCKET_ST_PENDING
    else \<exists>srv w1 w2 s. zape_main E sys self c d r w = Some (True, srv, w1)
      \<and> sock (server_socket srv) w1 = Some s \<and> sk_fd s = fd \<and> local_port s = 80 \<and> sk_state s = APE_SOCKET_ST_ONLINE
      \<and> cb_arg (callbacks s) = self \<and> on_connect (callbacks s) = c \<and> on_disconnect (callbacks s) = d \<and> on_read (callbacks s) = r
      \<and> socket_event E (server_socket srv) EVENT_READ w1 = Some w2 \<and> admits waiting fails (server_socket srv) s w1 w2"
proof -
  obtain ok w0 where w0: "APE_init E EVENT_EPOLL (epoll_start sys) 0 0 w = Some (ok, w0)" by (rule APE_init_returns [OF assms(7)])
  note f = APE_init_fields [OF w0 assms(7) assms(6) [rule_format]]
  have ok: ok "thread_ctx w0" "kernel w0 = k1" using f(15,17,19) assms(2,8-10) by simp_all
  have wf: "net_ok w0" "can_add (events w0)" using APE_init_well_formed [OF w0 assms(7,6,4,5)] by (simp_all add: well_formed_def)
  let ?srv = "\<lambda>p. \<lparr>server_socket = p, server_port = 80, server_address = HttpServer_address\<rparr>"
  show ?thesis
  proof (cases "fd = - 1")
    case True
    then have "Server_init E 80 HttpServer_address w0 = Some (?srv NULL, w0\<lparr>nco := c_int (nco w0 + 1), kernel := k2\<rparr>)"
      using ok(2,3) assms(2,11) by (simp add: Server_init_def APE_get_def APE_socket_new_def)
    then have "zape_main E sys self c d r w = None"
      using w0 by (simp add: zape_main_def Server_start_def APE_socket_listen_def sock_def)
    then show ?thesis using True by simp
  next
    case False
    have p: "(80 :: uint16) \<noteq> 0" by simp
    obtain w1 w2 s where r: "Server_init E 80 HttpServer_address w0 = Some (?srv (nbrk w0), w1)"
      "Server_start E (?srv (nbrk w0)) self c d r w1 = Some (can_listen S fd 80 HttpServer_address (snd (sys_nonblock S fd k2)), w2)"
      "sock (nbrk w0) w2 = Some s" "sk_fd s = fd"
      "if can_listen S fd 80 HttpServer_address (snd (sys_nonblock S fd k2))
        then local_port s = 80 \<and> sk_state s = APE_SOCKET_ST_ONLINE
          \<and> cb_arg (callbacks s) = self \<and> on_connect (callbacks s) = c \<and> on_disconnect (callbacks s) = d \<and> on_read (callbacks s) = r
          \<and> (\<exists>w3. socket_event E (nbrk w0) EVENT_READ w2 = Some w3 \<and> admits waiting fails (nbrk w0) s w2 w3)
        else sk_state s = APE_SOCKET_ST_PENDING"
      using backlog.start_run [OF assms(1-3) wf p ok(2) _ False, of k2 HttpServer_address self c d r] ok(3) assms(11) by blast
    have "zape_main E sys self c d r w
        = Some (can_listen S fd 80 HttpServer_address (snd (sys_nonblock S fd k2)), ?srv (nbrk w0), w2)"
      using w0 r(1,2) by (simp add: zape_main_def)
    then show ?thesis using r(3-5) False
      by (cases "can_listen S fd 80 HttpServer_address (snd (sys_nonblock S fd k2))") auto
  qed
qed

theorem zape_starts_witness:
  "\<exists>srv w1 w2 s. zape_main (env_of queue_sys) epoll0 1 2 3 4 (fresh0 [6, 0, 8]) = Some (True, srv, w1)
     \<and> sock (server_socket srv) w1 = Some s \<and> local_port s = 80 \<and> on_read (callbacks s) = 4
     \<and> socket_event (env_of queue_sys) (server_socket srv) EVENT_READ w1 = Some w2
     \<and> admits queue_waiting queue_fails (server_socket srv) s w1 w2"
proof -
  have q: "tame (\<lambda>k. (queue_waiting k, queue_fails k)) (env_of queue_sys :: (unit epoll_dev, int list) env)" by (rule tame_quiet) simp
  have g: "tls_global_ctx (ssl_of (env_of queue_sys :: (unit epoll_dev, int list) env))
      (tls_library_init (ssl_of (env_of queue_sys :: (unit epoll_dev, int list) env)) (kernel (fresh0 [6, 0, 8]))) = Some (NULL, [6, 0, 8])"
    by (simp add: stubs_global)
  have u: "sys_open queue_sys urandom [6, 0, 8] = (9, [6, 0, 8])" "(9 :: int) \<noteq> 0" "sys_socket queue_sys False False [6, 0, 8] = (3, [6, 0, 8])"
    by (simp_all add: queue_sys_def still_sys_def)
  have "can_listen queue_sys 3 80 HttpServer_address k" for k
    by (simp add: can_listen_def queue_sys_def still_sys_def)
  then show ?thesis
    using zape_starts [OF waits.backlog_axioms env_of_simps(1) q fresh0_ok g u(1,2) _ u(3), of 1 2 3 4] by auto
qed

end
