(* ===== verification/Spec2Isabelle.thy ===== *)
theory Spec2Isabelle
  imports Pool_Props Hash_Claims Buffer_Props Timers_Run Select_Props Flow Read_Props States Free_Props Conn_Props Netlib Hash_Ref Start_Props Ssl_Props Shutdown_Props Secure_Props Secure_Read Zig_Server
begin

text \<open>
  Verification of libapenetwork, the event-driven network library of this repository
  (\<open>pkg/libapenetwork/src\<close>), as it is compiled for Linux with zlib and one of the three events
  backends, and of the HTTP and WebSocket server in Zig that runs on it (\<open>src/\<close>). Whether it has SSL is a parameter, \<open>ssl_api\<close>: None is the configuration of
  \<open>build.zig\<close>, which defines \<open>APE_DISABLE_SSL\<close>; then the functions of
  \<open>ape_ssl.c\<close> are the stubs \<open>ssl_stubs\<close>. \<open>Some T\<close> is the other one, where
  \<open>T\<close> gives these functions.

  \<^bold>\<open>The program.\<close> A thread has one \<open>ape_global\<close>. It holds the events backend with the
  descriptors it watches, the timers, the table of the descriptors of c-ares, the logger, and two flags that
  keep \<open>APE_loop_run\<close> going. A pass of the loop polls the backend, handles what was reported one
  descriptor after the other, and runs the timers that are due and the asynchronous calls. A descriptor is a
  socket or a delegate. A listening socket accepts connections, a client reads, or runs its list of jobs: data
  to write, files to send, the shutdown. A socket is freed by a timer, never while it is being handled. Data
  that the kernel does not take at once is kept in a list of packets, whose slots, as those of the jobs, are
  allocated in blocks by the pool.
 The server in Zig is called back by a socket with what came
  in. It gives it to llhttp, which calls back with the parts of a request; a request for an upgrade is answered with
  the handshake, and from then on what comes in goes to the parser of WebSocket frames, which hands the messages to
  the application and answers pings.

  \<^bold>\<open>How the code is modelled.\<close> A struct is a record with the members of the code; a record that
  starts with another one extends it. Memory is a partial map from addresses to records or bytes for each
  kind of object; the address 0 is NULL. Reading or writing an address that holds nothing, reading beyond a
  block, freeing twice and calling NULL are faults: the functions return \<open>option\<close>, and None is
  undefined behaviour of the C code. An error that the code reports is a value. Machine integers are words
  of their width where they can wrap, and \<open>c_int\<close> converts to a 32-bit \<open>int\<close>. Memory from
  malloc that the code does not set has arbitrary contents (\<open>junk\<close>). Loops are structural
  recursion where something shrinks, otherwise \<open>partial_function (option)\<close>: that such a loop ends
  is then part of the statement that its result is \<open>Some\<close>. The only fuel is the argument
  \<open>depth\<close> of \<open>net_call\<close>: how deep the clear functions of timers may destroy further
  timers; the library itself never goes deeper than 2. In States the depth to which the user's callbacks are
  nested is bounded in the same way, and the property there holds for every bound.

  The system calls are functions on a state of the kernel (\<open>net_sys\<close>), and the callbacks of the
  user are functions on the whole state (\<open>net_env\<close>). Both are arguments of the definitions. So are zlib
  (\<open>Buffer\<close>), c-ares, llhttp, \<open>select\<close>, \<open>epoll_wait\<close> and \<open>kevent\<close>, and the
  clock. What a property needs of them is a named hypothesis or the assumptions of a locale, which
  states documented behaviour.

  \<^bold>\<open>The theories.\<close>

  \<^item> Prelude, Linked: heaps, the conversion to \<open>int\<close>, lemmas on the option monad; singly and doubly
    linked lists in a heap and what an operation keeps of them.
  \<^item> Pool, Pool_Props: \<open>ape_pool.c\<close>. Slots in blocks, chained into a list with a head, a
    current slot and a queue. The invariant \<open>pool_inv\<close> (the chain, and the blocks that own its slots) is
    kept by every operation, and destroying a list frees each block once.
  \<^item> Hash, Hash_Props, Hash_Ops, Hash_Str, Hash_Store, Hash_Claims: \<open>ape_hash.c\<close>. Tables of
    chains; the locales state what a table promises for a kind of key, and are interpreted for the
    integer and the string keys. A table refines a finite map. Hash_Ref: \<open>MurmurHash2\<close> against a
    reference written over blocks of four bytes.
  \<^item> Buffer, Buffer_Props: \<open>ape_buffer.c\<close>. Growing buffers and their contents, the UTF-8 conversions
    with checked reads, a position of type \<open>int\<close> and their round trip, and the room announced to zlib.
  \<^item> Timers, Timers_Props, Timers_Run: \<open>ape_timers_next.c\<close>. The list of timers and the queue of
    asynchronous calls, with callbacks that may use both: what a callback may do is the locale
    of well-behaved callers, and a pass over the timers keeps the invariant. Any such callbacks can be given a
    list of the calls made (\<open>logging\<close>), from which it is read that each asynchronous call runs once.
  \<^item> Events, Events_Props: \<open>ape_events.c\<close> and the backends \<open>ape_event_epoll.c\<close> and
    \<open>ape_event_kqueue.c\<close>, chosen by their table of functions. Runs are an inductive relation of the calls; the
    table of what is watched (\<open>ev_table\<close>) is computed from the calls and their results alone, without
    the state of the program or of the kernel, and the interest list of the kernel is shown to be this table.
  \<^item> Select, Select_Props: \<open>ape_event_select.c\<close> over the hash table, with the same table for the
    program's own hash table, and the conditions without which its calls fault.
  \<^item> Net: the global state, the sockets, the environment.
  \<^item> Dns: \<open>ape_dns.c\<close>. Socket: the life of a socket in \<open>ape_socket.c\<close>. Jobs: its job list,
    writing, sending files and reading, and the dispatcher of the library's own timer callbacks.
  \<^item> Loop: \<open>ape_events_loop.c\<close>. Netlib: \<open>ape_netlib.c\<close> and \<open>ape_log.c\<close>.
  \<^item> Jobs_Props, Queue_Props: the packets of a connection as a ring of slots, and the invariant
    \<open>queued\<close> of a connection; the operations on them in the locale \<open>stream_kernel\<close>, where the
    kernel takes any part of what it is given, at every call, or would block. The loop of \<open>APE_socket_write\<close> asks for the
    full length again after a partial write; \<open>overreads\<close> says when the kernel can thereby be handed bytes from
    behind the block, which is a fault, and the properties on sending name it as their only fault. The locale
    \<open>sender\<close> holds what a run of writes and events needs of a connection.
  \<^item> Demo: a kernel to evaluate on, with its interpretations of \<open>stream_kernel\<close> and \<open>sender\<close>.
  \<^item> Flow, Read_Props: what a connection sends and delivers. The locale \<open>inbound\<close>
    is what the loop that reads needs, of a system call or of OpenSSL. States: the states of a socket only move
    forward; a small calculus of the functions that move no socket back, applied to every operation up to
    any number of passes of the loop, with user code that is any script of calls of the library inside its callbacks
    (\<open>user_env\<close>). Free_Props: freeing a socket. Conn_Props: accepting, with interrupted and failing calls of
    \<open>accept\<close> (\<open>backlog\<close>) and callbacks that keep the sockets (\<open>tame\<close>), connecting and lookups.
    Shutdown_Props: shutting a connection down while data is queued.
    Start_Props: the state after \<open>APE_init\<close>, and making a socket that listens, where each system call may fail.
  \<^item> Ssl, Ssl_Props: \<open>ape_ssl.c\<close> with OpenSSL as a parameter, and who owns its contexts and
    connections. The sockets reach it through the interface \<open>net_ssl\<close> of Net. Secure meets this interface with the functions of
    Ssl. Secure_Props: a connection over SSL sends what is written to it, in the locales
    \<open>openssl_stream\<close> (OpenSSL) and \<open>tls_stream\<close> (the interface), the first giving the
    second, as long as no write fails for good; and what becomes of a write for which \<open>SSL_write\<close> gives 0.
    Secure_Read: what it reads.
  \<^item> Websocket, Websocket_Props, Websocket_Claims: \<open>src/websocket.zig\<close>, over any client
    (\<open>net_client\<close>) and any world. The parser is split into one that only finds the messages and the handling
    of each; its invariant \<open>ws_inv\<close> holds for any bytes, and it finds exactly the frames of a client.
  \<^item> Http, Http_Props, Http_Claims: \<open>src/http.zig\<close> with the handshake. llhttp is a function from its state and
    the data to the calls it makes (\<open>ll_run\<close>), the allocators and the application are records of functions.
    What a request leaves in its record, however it is cut.
  \<^item> Websocket_Net, Zape: the client of \<open>pkg/libapenetwork/main.zig\<close> on a socket, and the server of
    \<open>src/main.zig\<close>. The locale \<open>corked_kernel\<close> extends the kernel of \<open>Shutdown_Props\<close>
    by what \<open>TCP_CORK\<close> keeps; \<open>served\<close> is what a connection has sent or queued, open or being closed.
    In Zig None is also a panic: an overflow, an index out of bounds, or \<open>catch @panic\<close>.
  \<^item> Zig_Server: the server and the loop of \<open>pkg/libapenetwork/main.zig\<close>, and \<open>main\<close> up to the
    loop: from nothing to accepted connections that have the callbacks of the server, or to the error or the
    fault when the socket cannot be made or cannot listen.

  \<^bold>\<open>Not modelled.\<close> The Windows branches. The names the platform gives to
  the system calls (\<open>port/\<close>). The printing of timer statistics and of errors (the macros are
  empty). The vendored llhttp and c-ares. In Zig, \<open>ctx\<close> of a client, which the model of the server gives
  to its callbacks, the pool of requests allocated beforehand, and \<open>get_masking_key\<close>, which is not called.
\<close>

end
